(* ===== verification/Prelude.thy ===== *)
theory Prelude
  imports Complex_Main "HOL-Library.Multiset" "HOL-Library.Monad_Syntax"
begin

text \<open>
  What every component shares: C++ integer arithmetic written out over \<open>int\<close> (a
  \<open>long\<close> has 64 bits, an \<open>int\<close> 32, both two's complement; division truncates
  towards zero), characters and decimal numerals, the \<open>lower_bound\<close>, \<open>upper_bound\<close>
  and \<open>erase\<close> of a \<open>std::multiset\<close> kept as a sorted list, and the collections of
  lemmas the component theories extend.
\<close>

named_theorems c_arith \<open>unfolding rules of the C integer operations\<close>
named_theorems frame_simps \<open>fields that an operation leaves alone\<close>

section \<open>C integers\<close>

definition to_int :: "int \<Rightarrow> int" where
  "to_int x = (x + 2 ^ 31) mod 2 ^ 32 - 2 ^ 31"

definition to_long :: "int \<Rightarrow> int" where
  "to_long x = (x + 2 ^ 63) mod 2 ^ 64 - 2 ^ 63"

definition to_uint :: "int \<Rightarrow> int" where
  "to_uint x = x mod 2 ^ 32"

definition to_ulong :: "int \<Rightarrow> int" where
  "to_ulong x = x mod 2 ^ 64"

definition long_max :: int where
  "long_max = 2 ^ 63 - 1"

definition long_min :: int where
  "long_min = - (2 ^ 63)"

definition is_int :: "int \<Rightarrow> bool" where
  "is_int x \<longleftrightarrow> - (2 ^ 31) \<le> x \<and> x < 2 ^ 31"

definition is_long :: "int \<Rightarrow> bool" where
  "is_long x \<longleftrightarrow> long_min \<le> x \<and> x \<le> long_max"

definition is_ulong :: "int \<Rightarrow> bool" where
  "is_ulong x \<longleftrightarrow> 0 \<le> x \<and> x < 2 ^ 64"

definition cdiv :: "int \<Rightarrow> int \<Rightarrow> int" where
  "cdiv a b = sgn a * sgn b * (\<bar>a\<bar> div \<bar>b\<bar>)"

definition crem :: "int \<Rightarrow> int \<Rightarrow> int" where
  "crem a b = a - b * cdiv a b"

lemmas long_consts [c_arith] = long_max_def long_min_def is_long_def

lemma to_int_id [simp]: "is_int x \<Longrightarrow> to_int x = x"
  by (simp add: to_int_def is_int_def)

lemma is_int_to_int [simp, intro]: "is_int (to_int x)"
proof -
  have "0 \<le> (x + 2 ^ 31) mod 2 ^ 32" "(x + 2 ^ 31) mod 2 ^ 32 < (2 ^ 32 :: int)"
    by simp_all
  then show ?thesis by (simp add: to_int_def is_int_def)
qed

lemma to_long_id [simp]: "is_long x \<Longrightarrow> to_long x = x"
  by (simp add: to_long_def c_arith)

lemma is_long_to_long [simp, intro]: "is_long (to_long x)"
proof -
  have "0 \<le> (x + 2 ^ 63) mod 2 ^ 64" "(x + 2 ^ 63) mod 2 ^ 64 < (2 ^ 64 :: int)"
    by simp_all
  then show ?thesis by (simp add: to_long_def c_arith)
qed

lemma to_int_add [simp]: "to_int (to_int x + y) = to_int (x + y)" "to_int (y + to_int x) = to_int (y + x)"
  by (simp_all add: to_int_def mod_simps algebra_simps)

lemma to_long_add [simp]: "to_long (to_long x + y) = to_long (x + y)" "to_long (y + to_long x) = to_long (y + x)"
  by (simp_all add: to_long_def mod_simps algebra_simps)

lemma to_ulong_id [simp]: "is_ulong x \<Longrightarrow> to_ulong x = x"
  by (simp add: to_ulong_def is_ulong_def)

lemma is_ulong_to_ulong [simp, intro]: "is_ulong (to_ulong x)"
  by (simp add: to_ulong_def is_ulong_def)

lemma cdiv_nonneg: "0 \<le> a \<Longrightarrow> 0 < b \<Longrightarrow> cdiv a b = a div b"
  by (cases "a = 0") (simp_all add: cdiv_def)

lemma cdiv_neg: "a < 0 \<Longrightarrow> 0 < b \<Longrightarrow> cdiv a b = - ((- a) div b)"
  by (simp add: cdiv_def)

lemma crem_bound: "0 < b \<Longrightarrow> \<bar>crem a b\<bar> < b"
proof (cases "0 \<le> a")
  case True
  assume "0 < b"
  with True show ?thesis
    by (simp add: crem_def cdiv_nonneg minus_mult_div_eq_mod)
next
  case False
  assume "0 < b"
  with False have "crem a b = - ((- a) mod b)"
    using minus_mult_div_eq_mod [of "- a" b] by (simp add: crem_def cdiv_neg)
  with \<open>0 < b\<close> show ?thesis by simp
qed

lemma cdiv_crem: "b * cdiv a b + crem a b = a"
  by (simp add: crem_def)

lemma abs_cdiv_le: "\<bar>cdiv a b\<bar> \<le> \<bar>a\<bar>"
proof (cases "b = 0")
  case True
  then show ?thesis by (simp add: cdiv_def)
next
  case False
  then have "\<bar>a\<bar> div \<bar>b\<bar> \<le> \<bar>a\<bar> div 1"
    by (intro zdiv_mono2) auto
  moreover have "0 \<le> \<bar>a\<bar> div \<bar>b\<bar>"
    using False by (simp add: pos_imp_zdiv_nonneg_iff)
  ultimately show ?thesis by (simp add: cdiv_def abs_mult abs_sgn_eq)
qed

text \<open>Rounding \<open>floor(x + 0.5)\<close> leaves whole numbers alone.\<close>

lemma floor_half: "\<lfloor>of_int z + 1 / 2 :: rat\<rfloor> = z"
  by (simp add: floor_eq_iff)

section \<open>Sorted lists as multisets\<close>

text \<open>
  A \<open>std::multiset\<close> is the sorted list of its elements: \<open>lower_bound\<close> is the first
  element not less than the key, \<open>upper_bound\<close> the first greater one, and erasing an
  iterator removes one occurrence. \<open>None\<close> is the end iterator.
\<close>

definition lower_bound :: "'a::linorder list \<Rightarrow> 'a \<Rightarrow> 'a option" where
  "lower_bound xs k = find (\<lambda>x. k \<le> x) xs"

definition upper_bound :: "'a::linorder list \<Rightarrow> 'a \<Rightarrow> 'a option" where
  "upper_bound xs k = find (\<lambda>x. k < x) xs"

lemma lower_bound_Some:
  "lower_bound xs k = Some x \<Longrightarrow> x \<in> set xs \<and> k \<le> x"
  by (auto simp: lower_bound_def find_Some_iff)

lemma upper_bound_Some:
  "upper_bound xs k = Some x \<Longrightarrow> x \<in> set xs \<and> k < x"
  by (auto simp: upper_bound_def find_Some_iff)

lemma lower_bound_least:
  assumes "sorted xs" "lower_bound xs k = Some x" "y \<in> set xs" "k \<le> y"
  shows "x \<le> y"
  using assms unfolding lower_bound_def
  by (induction xs) (auto split: if_splits)

lemma upper_bound_least:
  assumes "sorted xs" "upper_bound xs k = Some x" "y \<in> set xs" "k < y"
  shows "x \<le> y"
  using assms unfolding upper_bound_def
  by (induction xs) (auto split: if_splits)

lemma lower_bound_None: "lower_bound xs k = None \<longleftrightarrow> (\<forall>x \<in> set xs. x < k)"
  by (auto simp: lower_bound_def find_None_iff not_le)

lemma upper_bound_None: "upper_bound xs k = None \<longleftrightarrow> (\<forall>x \<in> set xs. x \<le> k)"
  by (auto simp: upper_bound_def find_None_iff not_less)

section \<open>Decimal numerals\<close>

definition digit_char :: "nat \<Rightarrow> char" where
  "digit_char d = char_of (48 + d)"

definition is_digit :: "char \<Rightarrow> bool" where
  "is_digit c \<longleftrightarrow> 48 \<le> (of_char c :: nat) \<and> (of_char c :: nat) \<le> 57"

definition digit_val :: "char \<Rightarrow> int" where
  "digit_val c = int (of_char c) - 48"

fun show_nat :: "nat \<Rightarrow> string" where
  "show_nat n = (if n < 10 then [digit_char n] else show_nat (n div 10) @ [digit_char (n mod 10)])"

declare show_nat.simps [simp del]

definition show_int :: "int \<Rightarrow> string" where
  "show_int n = (if n < 0 then CHR ''-'' # show_nat (nat (- n)) else show_nat (nat n))"

lemma is_digit_digit_char [simp]: "d < 10 \<Longrightarrow> is_digit (digit_char d)"
  by (simp add: is_digit_def digit_char_def)

lemma digit_val_digit_char [simp]: "d < 10 \<Longrightarrow> digit_val (digit_char d) = int d"
  by (simp add: digit_val_def digit_char_def of_char_of take_bit_eq_mod)

lemma digit_val_bounds: "is_digit c \<Longrightarrow> 0 \<le> digit_val c \<and> digit_val c \<le> 9"
  by (simp add: digit_val_def is_digit_def)

lemma show_nat_nonempty [simp]: "show_nat n \<noteq> []"
  by (subst show_nat.simps) simp

lemma show_nat_digits: "list_all is_digit (show_nat n)"
proof (induction n rule: show_nat.induct)
  case (1 n)
  show ?case
  proof (cases "n < 10")
    case True
    then show ?thesis by (subst show_nat.simps) simp
  next
    case False
    with 1 show ?thesis by (subst show_nat.simps) simp
  qed
qed

lemma length_show_nat_le: "0 < k \<Longrightarrow> n < 10 ^ k \<Longrightarrow> length (show_nat n) \<le> k"
proof (induction k arbitrary: n)
  case 0
  then show ?case by simp
next
  case (Suc k)
  show ?case
  proof (cases "n < 10")
    case True
    then show ?thesis by (subst show_nat.simps) simp
  next
    case False
    with Suc.prems have "0 < k" by (cases k) auto
    moreover from Suc.prems have "n div 10 < 10 ^ k"
      by (simp add: less_mult_imp_div_less mult.commute)
    ultimately have "length (show_nat (n div 10)) \<le> k" by (rule Suc.IH)
    with False show ?thesis by (subst show_nat.simps) simp
  qed
qed

lemma length_show_nat_ge: "10 ^ k \<le> n \<Longrightarrow> Suc k \<le> length (show_nat n)"
proof (induction k arbitrary: n)
  case 0
  then show ?case by (simp add: Suc_le_eq)
next
  case (Suc k)
  then have "10 \<le> n" by (metis mult_le_mono1 nat_le_linear one_le_power order_trans power_Suc mult.commute nat_mult_1 one_le_numeral)
  moreover from Suc.prems have "10 ^ k \<le> n div 10"
    by (simp add: less_eq_div_iff_mult_less_eq mult.commute)
  then have "Suc k \<le> length (show_nat (n div 10))" by (rule Suc.IH)
  ultimately show ?case by (subst show_nat.simps) simp
qed

section \<open>Loops that may fail\<close>

text \<open>A loop over a list whose body may fail; \<open>None\<close> stops it.\<close>

primrec foldm :: "('a \<Rightarrow> 's \<Rightarrow> 's option) \<Rightarrow> 'a list \<Rightarrow> 's \<Rightarrow> 's option" where
  "foldm f [] s = Some s"
| "foldm f (x # xs) s = do { s \<leftarrow> f x s; foldm f xs s }"

end
