(* ===== verification/Tree_Nav.thy ===== *)
theory Tree_Nav
  imports Prelude "HOL-Library.Monad_Syntax" "HOL-Library.Sublist"
begin

text \<open>
  Navigation of node trees (lib/node_navigator.h, lib/node_iterator.h). The two templates work on
  any node class with the pointers \<open>up\<close>, \<open>down\<close> and \<open>next\<close>; here nodes are numbers and the three
  pointers are maps of the record \<open>links\<close>, which other components extend with the fields of their
  nodes. The null pointer is \<open>None\<close>. Loops follow pointers and end only on well formed structures:
  an outer \<open>None\<close> is a loop that never ends, a null dereference or a failed assertion.
  \<open>ln_live\<close> holds the nodes that have not been deleted. A rose tree describes what a well formed
  structure represents.
\<close>

section \<open>Navigation\<close>

record links =
  ln_up :: "nat \<Rightarrow> nat option"
  ln_down :: "nat \<Rightarrow> nat option"
  ln_next :: "nat \<Rightarrow> nat option"
  ln_live :: "nat set"

partial_function (option) prev_loop ::
    "'a links_scheme \<Rightarrow> nat \<Rightarrow> nat \<Rightarrow> nat option \<Rightarrow> nat option option" where
  "prev_loop h n e p =
     (case ln_next h e of
        None \<Rightarrow> Some p
      | Some e' \<Rightarrow> if e' = n then Some (Some e) else prev_loop h n e' (Some e))"

declare prev_loop.simps [code]

definition previous :: "'a links_scheme \<Rightarrow> nat \<Rightarrow> nat option option" where
  "previous h n =
     (case ln_up h n of
        None \<Rightarrow> Some None
      | Some u \<Rightarrow>
          (case ln_down h u of
             None \<Rightarrow> None
           | Some e \<Rightarrow> if e = n then Some None else prev_loop h n e None))"

partial_function (option) last_loop :: "'a links_scheme \<Rightarrow> nat \<Rightarrow> nat option" where
  "last_loop h e = (case ln_next h e of None \<Rightarrow> Some e | Some e' \<Rightarrow> last_loop h e')"

declare last_loop.simps [code]

definition last_child :: "'a links_scheme \<Rightarrow> nat \<Rightarrow> nat option option" where
  "last_child h n =
     (case ln_down h n of None \<Rightarrow> Some None | Some e \<Rightarrow> map_option Some (last_loop h e))"

partial_function (option) children_loop ::
    "'a links_scheme \<Rightarrow> nat option \<Rightarrow> nat list \<Rightarrow> nat list option" where
  "children_loop h x l =
     (case x of None \<Rightarrow> Some l | Some e \<Rightarrow> children_loop h (ln_next h e) (l @ [e]))"

declare children_loop.simps [code]

definition get_children :: "'a links_scheme \<Rightarrow> nat \<Rightarrow> nat list option" where
  "get_children h n =
     (case ln_down h n of None \<Rightarrow> Some [] | Some e \<Rightarrow> children_loop h (ln_next h e) [e])"

definition set_up :: "nat \<Rightarrow> nat option \<Rightarrow> 'a links_scheme \<Rightarrow> 'a links_scheme" where
  "set_up n x h = h\<lparr>ln_up := (ln_up h)(n := x)\<rparr>"

definition set_down :: "nat \<Rightarrow> nat option \<Rightarrow> 'a links_scheme \<Rightarrow> 'a links_scheme" where
  "set_down n x h = h\<lparr>ln_down := (ln_down h)(n := x)\<rparr>"

definition set_next :: "nat \<Rightarrow> nat option \<Rightarrow> 'a links_scheme \<Rightarrow> 'a links_scheme" where
  "set_next n x h = h\<lparr>ln_next := (ln_next h)(n := x)\<rparr>"

definition append_child :: "nat \<Rightarrow> nat \<Rightarrow> 'a links_scheme \<Rightarrow> 'a links_scheme option" where
  "append_child n child h =
     (if ln_up h child \<noteq> None \<or> ln_next h child \<noteq> None then None
      else case ln_down h n of
             None \<Rightarrow> Some (set_up child (Some n) (set_down n (Some child) h))
           | Some e \<Rightarrow> do { l \<leftarrow> last_loop h e; Some (set_up child (Some n) (set_next l (Some child) h)) })"

partial_function (option) detach_loop :: "nat \<Rightarrow> nat \<Rightarrow> 'a links_scheme \<Rightarrow> 'a links_scheme option" where
  "detach_loop n prev h =
     (case ln_next h prev of
        None \<Rightarrow> None
      | Some e \<Rightarrow>
          if e = n then Some (set_up n None (set_next n None (set_next prev (ln_next h n) h)))
          else detach_loop n e h)"

declare detach_loop.simps [code]

definition detach :: "nat \<Rightarrow> 'a links_scheme \<Rightarrow> 'a links_scheme option" where
  "detach n h =
     (case ln_up h n of
        None \<Rightarrow> Some h
      | Some parent \<Rightarrow>
          (case ln_down h parent of
             None \<Rightarrow> None
           | Some e \<Rightarrow>
               if e = n then Some (set_up n None (set_next n None (set_down parent (ln_next h n) h)))
               else detach_loop n e h))"

text \<open>
  The loop of \<open>delete_tree\<close> over the siblings from \<open>x\<close> on, with the destructor each \<open>delete\<close> runs:
  it deletes the tree of a node whose \<open>up\<close> is already null.
\<close>

partial_function (option) delete_loop :: "nat option \<Rightarrow> 'a links_scheme \<Rightarrow> 'a links_scheme option" where
  "delete_loop x h =
     (case x of
        None \<Rightarrow> Some h
      | Some e \<Rightarrow> do {
          let h = set_up e None h;
          let nxt = ln_next h e;
          h \<leftarrow> delete_loop (ln_down h e) h;
          delete_loop nxt (h\<lparr>ln_live := ln_live h - {e}\<rparr>) })"

declare delete_loop.simps [code]

definition delete_tree :: "nat \<Rightarrow> 'a links_scheme \<Rightarrow> 'a links_scheme option" where
  "delete_tree n h =
     do { h \<leftarrow> (if ln_up h n \<noteq> None then detach n h else Some h); delete_loop (ln_down h n) h }"

partial_function (option) get_root :: "'a links_scheme \<Rightarrow> nat \<Rightarrow> nat option" where
  "get_root h n = (case ln_up h n of None \<Rightarrow> Some n | Some u \<Rightarrow> get_root h u)"

declare get_root.simps [code]

partial_function (option) depth_loop :: "'a links_scheme \<Rightarrow> nat \<Rightarrow> nat \<Rightarrow> nat option" where
  "depth_loop h n depth = (case ln_up h n of None \<Rightarrow> Some depth | Some u \<Rightarrow> depth_loop h u (Suc depth))"

declare depth_loop.simps [code]

definition get_depth :: "'a links_scheme \<Rightarrow> nat \<Rightarrow> nat option" where
  "get_depth h n = depth_loop h n 0"

partial_function (option) path_loop :: "'a links_scheme \<Rightarrow> nat \<Rightarrow> nat list \<Rightarrow> nat list option" where
  "path_loop h n path =
     (case ln_up h n of None \<Rightarrow> Some (n # path) | Some u \<Rightarrow> path_loop h u (n # path))"

declare path_loop.simps [code]

definition get_path :: "'a links_scheme \<Rightarrow> nat \<Rightarrow> nat list option" where
  "get_path h n = path_loop h n []"

partial_function (option) descendent_loop :: "'a links_scheme \<Rightarrow> nat \<Rightarrow> nat \<Rightarrow> bool option" where
  "descendent_loop h n a =
     (case ln_up h n of None \<Rightarrow> Some False | Some u \<Rightarrow> if u = a then Some True else descendent_loop h u a)"

declare descendent_loop.simps [code]

definition is_descendent :: "'a links_scheme \<Rightarrow> nat \<Rightarrow> nat \<Rightarrow> bool option" where
  "is_descendent h n a = (if n = a then Some True else descendent_loop h n a)"

definition is_ancestor :: "'a links_scheme \<Rightarrow> nat \<Rightarrow> nat \<Rightarrow> bool option" where
  "is_ancestor h n d = is_descendent h d n"

text \<open>The first node of the reversed path of \<open>n1\<close> that is on the path of \<open>n2\<close> and has children.\<close>

definition get_common_ancestor :: "'a links_scheme \<Rightarrow> nat \<Rightarrow> nat \<Rightarrow> nat option" where
  "get_common_ancestor h n1 n2 = do {
     path1 \<leftarrow> get_path h n1;
     path2 \<leftarrow> get_path h n2;
     case find (\<lambda>x. x \<in> set path2 \<and> ln_down h x \<noteq> None) (rev path1) of
       Some x \<Rightarrow> Some x
     | None \<Rightarrow> if n1 = n2 \<and> ln_down h n1 = None \<and> ln_up h n1 = None then Some n1 else None }"

section \<open>The iterator\<close>

datatype iter_move = mv_down | mv_next | mv_up

record tree_iter =
  it_root :: nat
  it_cur :: "nat option"
  it_move :: iter_move
  it_is_down :: bool

definition mk_iter :: "nat \<Rightarrow> tree_iter" where
  "mk_iter p = \<lparr>it_root = p, it_cur = Some p, it_move = mv_down, it_is_down = True\<rparr>"

definition iter_down :: "'a links_scheme \<Rightarrow> nat \<Rightarrow> tree_iter \<Rightarrow> tree_iter" where
  "iter_down h cur i =
     (case ln_down h cur of
        None \<Rightarrow> i\<lparr>it_move := mv_next, it_is_down := False\<rparr>
      | Some p \<Rightarrow> i\<lparr>it_cur := Some p\<rparr>)"

definition iter_up :: "'a links_scheme \<Rightarrow> nat \<Rightarrow> tree_iter \<Rightarrow> tree_iter option" where
  "iter_up h cur i =
     (if cur = it_root i then Some (i\<lparr>it_cur := None\<rparr>)
      else case ln_up h cur of
             None \<Rightarrow> None
           | Some p \<Rightarrow> Some (i\<lparr>it_move := mv_next, it_is_down := False, it_cur := Some p\<rparr>))"

definition iter_next :: "'a links_scheme \<Rightarrow> nat \<Rightarrow> tree_iter \<Rightarrow> tree_iter option" where
  "iter_next h cur i =
     (if cur = it_root i then Some (i\<lparr>it_cur := None\<rparr>)
      else case ln_next h cur of
             Some n \<Rightarrow> Some (i\<lparr>it_move := mv_down, it_is_down := True, it_cur := Some n\<rparr>)
           | None \<Rightarrow> iter_up h cur (i\<lparr>it_move := mv_up, it_is_down := False\<rparr>))"

definition iter_advance :: "'a links_scheme \<Rightarrow> tree_iter \<Rightarrow> tree_iter option" where
  "iter_advance h i =
     (case it_cur i of
        None \<Rightarrow> Some i
      | Some cur \<Rightarrow>
          (case it_move i of
             mv_down \<Rightarrow> Some (iter_down h cur i)
           | mv_next \<Rightarrow> iter_next h cur i
           | mv_up \<Rightarrow> iter_up h cur i))"

definition iter_eq :: "tree_iter \<Rightarrow> tree_iter \<Rightarrow> bool" where
  "iter_eq i j \<longleftrightarrow>
     (if it_cur i = None \<or> it_cur j = None then it_cur i = it_cur j
      else it_root i = it_root j \<and> it_cur i = it_cur j \<and> it_move i = it_move j)"

text \<open>The values a loop \<open>for (it = begin(); it != end(); it++)\<close> sees.\<close>

partial_function (option) iter_visits ::
    "'a links_scheme \<Rightarrow> tree_iter \<Rightarrow> (bool \<times> nat) list \<Rightarrow> (bool \<times> nat) list option" where
  "iter_visits h i acc =
     (case it_cur i of
        None \<Rightarrow> Some acc
      | Some cur \<Rightarrow> do { i' \<leftarrow> iter_advance h i; iter_visits h i' (acc @ [(it_is_down i, cur)]) })"

declare iter_visits.simps [code]

section \<open>Trees\<close>

datatype tree = Node (label: nat) (subs: "tree list")

fun nodes :: "tree \<Rightarrow> nat list" where
  "nodes (Node n ts) = n # concat (map nodes ts)"

fun kids :: "tree \<Rightarrow> (nat \<times> nat list) list" where
  "kids (Node n ts) = (n, map label ts) # concat (map kids ts)"

fun tour :: "tree \<Rightarrow> (bool \<times> nat) list" where
  "tour (Node n ts) = (True, n) # concat (map tour ts) @ [(False, n)]"

definition first_of :: "nat list \<Rightarrow> nat option" where
  "first_of ks = (case ks of [] \<Rightarrow> None | k # _ \<Rightarrow> Some k)"

fun siblings :: "'a links_scheme \<Rightarrow> nat \<Rightarrow> nat list \<Rightarrow> bool" where
  "siblings h p [] = True"
| "siblings h p (k # ks) = (ln_up h k = Some p \<and> ln_next h k = first_of ks \<and> siblings h p ks)"

definition family :: "'a links_scheme \<Rightarrow> nat \<Rightarrow> nat list \<Rightarrow> bool" where
  "family h n ks \<longleftrightarrow> ln_down h n = first_of ks \<and> siblings h n ks"

definition represents :: "'a links_scheme \<Rightarrow> tree \<Rightarrow> bool" where
  "represents h t \<longleftrightarrow> (\<forall>(n, ks)\<in>set (kids t). family h n ks)"

definition is_tree :: "'a links_scheme \<Rightarrow> tree \<Rightarrow> bool" where
  "is_tree h t \<longleftrightarrow> represents h t \<and> distinct (nodes t) \<and> ln_up h (label t) = None \<and> ln_next h (label t) = None"

lemma first_of_simps [simp]: "first_of [] = None" "first_of (k # ks) = Some k"
  by (simp_all add: first_of_def)

lemma label_in_nodes [simp]: "label t \<in> set (nodes t)"
  by (cases t) simp

lemma nodes_kids: "set (nodes t) = fst ` set (kids t)"
  by (induction t rule: kids.induct) (auto simp: image_UN)

lemma kid_of_node: "(n, ks) \<in> set (kids t) \<Longrightarrow> n \<in> set (nodes t)"
  by (force simp: nodes_kids)

lemma kids_in_nodes: "(n, ks) \<in> set (kids t) \<Longrightarrow> set ks \<subseteq> set (nodes t)"
  by (induction t rule: kids.induct) fastforce

lemma represents_sub: "represents h (Node n ts) \<Longrightarrow> t \<in> set ts \<Longrightarrow> represents h t"
  by (auto simp: represents_def)

lemma represents_family: "represents h (Node n ts) \<Longrightarrow> family h n (map label ts)"
  by (auto simp: represents_def)

section \<open>Children\<close>

lemma siblings_up: "siblings h p ks \<Longrightarrow> k \<in> set ks \<Longrightarrow> ln_up h k = Some p"
  by (induction ks) auto

lemma children_loop_siblings: "siblings h p ks \<Longrightarrow> children_loop h (first_of ks) l = Some (l @ ks)"
proof (induction ks arbitrary: l)
  case Nil
  show ?case by (subst children_loop.simps) simp
next
  case (Cons k ks)
  then show ?case by (subst children_loop.simps) simp
qed

lemma last_loop_siblings: "siblings h p ks \<Longrightarrow> ks \<noteq> [] \<Longrightarrow> last_loop h (hd ks) = Some (last ks)"
proof (induction ks)
  case (Cons k ks)
  then show ?case by (cases ks) (subst last_loop.simps; simp)+
qed simp

lemma prev_loop_siblings:
  "siblings h p (e # xs @ n # ys) \<Longrightarrow> n \<notin> set (e # xs) \<Longrightarrow>
   prev_loop h n e q = Some (Some (last (e # xs)))"
proof (induction xs arbitrary: e q)
  case Nil
  then show ?case by (subst prev_loop.simps) simp
next
  case (Cons x xs)
  then have "prev_loop h n x (Some e) = Some (Some (last (x # xs)))" by simp
  with Cons.prems show ?case by (subst prev_loop.simps) simp
qed

lemma get_children_family: "family h n ks \<Longrightarrow> get_children h n = Some ks"
  using children_loop_siblings [of h n "tl ks" "[hd ks]"]
  by (cases ks) (simp_all add: get_children_def family_def)

lemma last_child_family: "family h n ks \<Longrightarrow> last_child h n = Some (if ks = [] then None else Some (last ks))"
  using last_loop_siblings [of h n ks] by (cases ks) (simp_all add: last_child_def family_def)

lemma previous_family: "family h p (xs @ n # ys) \<Longrightarrow> n \<notin> set xs \<Longrightarrow>
    previous h n = Some (if xs = [] then None else Some (last xs))"
  using prev_loop_siblings [of h p "hd xs" "tl xs" n ys None] siblings_up [of h p "xs @ n # ys" n]
  by (cases xs) (simp_all add: previous_def family_def)

section \<open>Paths\<close>

inductive path_in :: "tree \<Rightarrow> nat list \<Rightarrow> bool" where
  here: "path_in (Node n ts) [n]"
| deeper: "t \<in> set ts \<Longrightarrow> path_in t p \<Longrightarrow> path_in (Node n ts) (n # p)"

inductive part_of :: "tree \<Rightarrow> tree \<Rightarrow> bool" where
  self: "part_of t t"
| sub: "t \<in> set ts \<Longrightarrow> part_of s t \<Longrightarrow> part_of s (Node n ts)"

inductive_cases path_in_NodeE: "path_in (Node n ts) p"

definition below :: "tree \<Rightarrow> nat \<Rightarrow> nat set" where
  "below t a = {n. \<exists>s. part_of s t \<and> label s = a \<and> n \<in> set (nodes s)}"

lemma path_in_hd: "path_in t p \<Longrightarrow> p \<noteq> [] \<and> hd p = label t"
  by (induction rule: path_in.induct) simp_all

lemma path_in_nodes: "path_in t p \<Longrightarrow> set p \<subseteq> set (nodes t)"
  by (induction rule: path_in.induct) auto

lemma path_exists: "n \<in> set (nodes t) \<Longrightarrow> \<exists>p. path_in t p \<and> last p = n"
proof (induction t rule: nodes.induct)
  case (1 m ts)
  show ?case
  proof (cases "n = m")
    case True
    then show ?thesis by (auto intro: path_in.here)
  next
    case False
    with 1(2) obtain t where t: "t \<in> set ts" "n \<in> set (nodes t)" by auto
    from 1(1) [OF this] obtain p where "path_in t p" "last p = n" by blast
    with t show ?thesis using path_in_hd by (metis path_in.deeper last_ConsR)
  qed
qed

lemma path_prefix: "path_in t p \<Longrightarrow> p = xs @ x # ys \<Longrightarrow> path_in t (xs @ [x])"
proof (induction arbitrary: xs rule: path_in.induct)
  case (here n ts)
  then show ?case by (cases xs) (auto intro: path_in.here)
next
  case (deeper t ts p n)
  then show ?case by (cases xs) (auto intro: path_in.intros)
qed

lemma part_trans_path: "part_of s t \<Longrightarrow> path_in s q \<Longrightarrow> \<exists>p. path_in t p \<and> last p = last q \<and> set q \<subseteq> set p"
proof (induction rule: part_of.induct)
  case (self t)
  then show ?case by blast
next
  case (sub t ts s n)
  then obtain p where p: "path_in t p" "last p = last q" "set q \<subseteq> set p" by blast
  then have "path_in (Node n ts) (n # p)" using sub by (blast intro: path_in.deeper)
  then show ?case using p path_in_hd [OF p(1)] by (metis last_ConsR set_subset_Cons subset_trans)
qed

lemma path_part: "path_in t p \<Longrightarrow> a \<in> set p \<Longrightarrow> \<exists>s. part_of s t \<and> label s = a \<and> last p \<in> set (nodes s)"
proof (induction rule: path_in.induct)
  case (here n ts)
  then show ?case by (intro exI [of _ "Node n ts"]) (auto intro: part_of.self)
next
  case (deeper t ts p n)
  show ?case
  proof (cases "a = n")
    case True
    have "last (n # p) \<in> set (nodes t)"
      using path_in_nodes [OF deeper(2)] path_in_hd [OF deeper(2)] by auto
    with True deeper(1) show ?thesis by (intro exI [of _ "Node n ts"]) (auto intro: part_of.self)
  next
    case False
    with deeper obtain s where "part_of s t" "label s = a" "last p \<in> set (nodes s)" by auto
    moreover have "p \<noteq> []" using path_in_hd [OF deeper(2)] by simp
    ultimately show ?thesis using deeper(1) by (intro exI [of _ s]) (auto intro: part_of.sub)
  qed
qed

lemma path_up:
  assumes "path_in t p" "represents h t"
  shows "path_loop h (last p) acc = path_loop h (label t) (tl p @ acc)"
    and "get_root h (last p) = get_root h (label t)"
    and "depth_loop h (last p) d = depth_loop h (label t) (d + length (tl p))"
    and "descendent_loop h (last p) a =
      (if a \<in> set (butlast p) then Some True else descendent_loop h (label t) a)"
proof -
  have "path_loop h (last p) acc = path_loop h (label t) (tl p @ acc)
      \<and> get_root h (last p) = get_root h (label t)
      \<and> depth_loop h (last p) d = depth_loop h (label t) (d + length (tl p))
      \<and> descendent_loop h (last p) a =
        (if a \<in> set (butlast p) then Some True else descendent_loop h (label t) a)" for d
    using assms
  proof (induction arbitrary: d rule: path_in.induct)
    case (here n ts)
    show ?case by simp
  next
    case (deeper t ts p n)
    have p: "p \<noteq> []" "label t # tl p = p" using path_in_hd [OF deeper(2)] by (auto simp: neq_Nil_conv)
    have u: "ln_up h (label t) = Some n"
      using represents_family [OF deeper(4)] deeper(1) siblings_up by (force simp: family_def)
    have IH: "path_loop h (last p) acc = path_loop h (label t) (tl p @ acc)"
      "get_root h (last p) = get_root h (label t)"
      "depth_loop h (last p) d = depth_loop h (label t) (d + length (tl p))"
      "descendent_loop h (last p) a = (if a \<in> set (butlast p) then Some True else descendent_loop h (label t) a)"
      using deeper(3) represents_sub [OF deeper(4,1)] by blast+
    have "path_loop h (label t) (tl p @ acc) = path_loop h n (p @ acc)"
      using u p(2) by (subst path_loop.simps) (metis append_Cons option.case(2))
    moreover have "get_root h (label t) = get_root h n"
      using u by (subst get_root.simps) simp
    moreover have "depth_loop h (label t) (d + length (tl p)) = depth_loop h n (d + length p)"
      using u p(1) by (subst depth_loop.simps) (cases p; simp)
    moreover have "descendent_loop h (label t) a = (if n = a then Some True else descendent_loop h n a)"
      using u by (subst descendent_loop.simps) simp
    ultimately show ?case using IH p by auto
  qed
  then show "path_loop h (last p) acc = path_loop h (label t) (tl p @ acc)"
    "get_root h (last p) = get_root h (label t)"
    "depth_loop h (last p) d = depth_loop h (label t) (d + length (tl p))"
    "descendent_loop h (last p) a =
      (if a \<in> set (butlast p) then Some True else descendent_loop h (label t) a)" by blast+
qed

lemma get_path_in: "is_tree h t \<Longrightarrow> path_in t p \<Longrightarrow> get_path h (last p) = Some p"
  using path_up(1) [of t p h "[]"] path_in_hd [of t p]
  by (cases p) (auto simp: get_path_def is_tree_def path_loop.simps [of h "label t"])

lemma get_depth_in: "is_tree h t \<Longrightarrow> path_in t p \<Longrightarrow> get_depth h (last p) = Some (length p - 1)"
  using path_up(3) [of t p h 0] by (auto simp: get_depth_def is_tree_def depth_loop.simps [of h "label t"])

lemma get_root_in: "is_tree h t \<Longrightarrow> path_in t p \<Longrightarrow> get_root h (last p) = Some (label t)"
  using path_up(2) [of t p h] by (auto simp: is_tree_def get_root.simps [of h "label t"])

lemma is_descendent_path:
  assumes "is_tree h t" "path_in t p"
  shows "is_descendent h (last p) a = Some (a \<in> set p)"
proof -
  have "descendent_loop h (label t) a = Some False"
    using assms(1) by (subst descendent_loop.simps) (simp add: is_tree_def)
  moreover have "descendent_loop h (last p) a = (if a \<in> set (butlast p) then Some True else descendent_loop h (label t) a)"
    using path_up(4) [of t p h a] assms by (simp add: is_tree_def)
  moreover have "set p = insert (last p) (set (butlast p))"
    using path_in_hd [OF assms(2)] by (cases p rule: rev_cases) auto
  ultimately show ?thesis by (auto simp: is_descendent_def)
qed

lemma below_path:
  assumes "is_tree h t" "path_in t p"
  shows "a \<in> set p \<longleftrightarrow> last p \<in> below t a"
proof
  assume "a \<in> set p"
  from path_part [OF assms(2) this] show "last p \<in> below t a" by (auto simp: below_def)
next
  assume "last p \<in> below t a"
  then obtain s where s: "part_of s t" "label s = a" "last p \<in> set (nodes s)" by (auto simp: below_def)
  from path_exists [OF s(3)] obtain q where q: "path_in s q" "last q = last p" by blast
  from part_trans_path [OF s(1) q(1)] obtain p' where p': "path_in t p'" "last p' = last p" "set q \<subseteq> set p'"
    using q(2) by auto
  have "Some p' = Some p"
    using get_path_in [OF assms(1) p'(1)] get_path_in [OF assms] unfolding p'(2) by (rule trans [OF sym])
  then have "p' = p" by simp
  moreover have "a \<in> set q" using path_in_hd [OF q(1)] s(2) list.set_sel(1) [of q] by simp
  ultimately show "a \<in> set p" using p'(3) by blast
qed

text \<open>
  On a tree, the path, depth and root of a node are those of the tree it represents, and the
  test for descendents decides whether the node lies in the branch of the other.
\<close>

theorem navigation_correct:
  assumes "is_tree h t" "path_in t p"
  shows "get_path h (last p) = Some p \<and> get_depth h (last p) = Some (length p - 1)
    \<and> get_root h (last p) = Some (label t) \<and> is_descendent h (last p) a = Some (last p \<in> below t a)"
  using get_path_in [OF assms] get_depth_in [OF assms] get_root_in [OF assms]
    is_descendent_path [OF assms, of a] below_path [OF assms, of a] by simp

text \<open>Node 1 has the children 2 and 3, node 2 the child 4.\<close>

definition example_tree :: tree where
  "example_tree = Node 1 [Node 2 [Node 4 []], Node 3 []]"

definition example_links :: links where
  "example_links = \<lparr>ln_up = [2 \<mapsto> 1, 3 \<mapsto> 1, 4 \<mapsto> 2], ln_down = [1 \<mapsto> 2, 2 \<mapsto> 4], ln_next = [2 \<mapsto> 3],
     ln_live = {1, 2, 3, 4}\<rparr>"

lemma example_is_tree: "is_tree example_links example_tree"
  by (simp add: is_tree_def represents_def family_def example_links_def example_tree_def)

lemma example_path: "path_in example_tree [1, 2, 4]"
  unfolding example_tree_def
  by (rule path_in.deeper [of "Node 2 [Node 4 []]"], simp,
      rule path_in.deeper [of "Node 4 []"], simp, rule path_in.here)

theorem navigation_correct_witness:
  "get_path example_links 4 = Some [1, 2, 4] \<and> get_depth example_links 4 = Some 2"
  using navigation_correct [OF example_is_tree example_path] by simp

section \<open>The nearest common ancestor\<close>

lemma find_rev_last:
  "find P (rev xs) = Some x \<Longrightarrow> \<exists>as bs. xs = as @ x # bs \<and> P x \<and> (\<forall>b\<in>set bs. \<not> P b)"
proof -
  assume "find P (rev xs) = Some x"
  then obtain i where i: "i < length xs" "P (rev xs ! i)" "x = rev xs ! i" "\<forall>j<i. \<not> P (rev xs ! j)"
    by (auto simp: find_Some_iff)
  let ?k = "length xs - Suc i"
  have "xs = take ?k xs @ x # drop (Suc ?k) xs"
    using i(1,3) by (simp add: rev_nth id_take_nth_drop)
  moreover have "\<not> P b" if b: "b \<in> set (drop (Suc ?k) xs)" for b
  proof -
    obtain j where j: "j < length xs" "Suc ?k \<le> j" "b = xs ! j"
      using b by (auto simp: in_set_conv_nth) (metis add.commute add_Suc_right le_add1 less_diff_conv)
    then have "length xs - Suc j < i" "rev xs ! (length xs - Suc j) = b" using i(1) by (auto simp: rev_nth)
    with i(4) show ?thesis by blast
  qed
  ultimately show ?thesis using i(2,3) by blast
qed

text \<open>
  On a tree the common ancestor of two nodes always exists; it is a node with children whose
  branch holds both, and every other such node is an ancestor of it; only in a tree of one node it
  is that node.
\<close>

theorem common_ancestor_nearest:
  assumes "is_tree h t" "n1 \<in> set (nodes t)" "n2 \<in> set (nodes t)"
  shows "\<exists>a. get_common_ancestor h n1 n2 = Some a \<and> n1 \<in> below t a \<and> n2 \<in> below t a
    \<and> (ln_down h a = None \<longrightarrow> subs t = [])
    \<and> (\<forall>b. n1 \<in> below t b \<and> n2 \<in> below t b \<and> ln_down h b \<noteq> None \<longrightarrow> a \<in> below t b)"
proof -
  obtain p1 where p1: "path_in t p1" "last p1 = n1" using path_exists [OF assms(2)] by blast
  obtain p2 where p2: "path_in t p2" "last p2 = n2" using path_exists [OF assms(3)] by blast
  note g = get_path_in [OF assms(1) p1(1)] get_path_in [OF assms(1) p2(1)]
  note b1 = below_path [OF assms(1) p1(1)] and b2 = below_path [OF assms(1) p2(1)]
  let ?P = "\<lambda>x. x \<in> set p2 \<and> ln_down h x \<noteq> None"
  show ?thesis
  proof (cases "find ?P (rev p1)")
    case (Some a)
    from find_rev_last [OF this] obtain xs ys where a: "p1 = xs @ a # ys" "?P a" "\<forall>y\<in>set ys. \<not> ?P y" by blast
    have "a \<in> below t b" if b: "n1 \<in> below t b" "n2 \<in> below t b" "ln_down h b \<noteq> None" for b
    proof -
      have "b \<in> set p1" "?P b" using b b1 b2 p1(2) p2(2) by auto
      then have "b \<in> set (xs @ [a])" using a by auto
      moreover have "path_in t (xs @ [a])" using path_prefix [OF p1(1)] a(1) by blast
      ultimately show ?thesis using below_path [OF assms(1), of "xs @ [a]" b] by simp
    qed
    moreover have "n1 \<in> below t a" "n2 \<in> below t a" using a b1 b2 p1(2) p2(2) by auto
    ultimately show ?thesis
      using g Some a(2) p1(2) p2(2) by (intro exI [of _ a]) (auto simp: get_common_ancestor_def)
  next
    case None
    then have none: "\<forall>x\<in>set p1. \<not> ?P x" by (auto simp: find_None_iff)
    have r: "label t \<in> set p1" "label t \<in> set p2"
      using path_in_hd [OF p1(1)] path_in_hd [OF p2(1)] by (metis list.set_sel(1))+
    with none have l: "ln_down h (label t) = None" by blast
    obtain n ts where t: "t = Node n ts" by (cases t)
    have ts: "ts = []" using l assms(1) represents_family [of h n ts] by (cases ts) (auto simp: t is_tree_def family_def)
    have eq: "n1 = n" "n2 = n" using assms(2,3) t ts by auto
    have "get_common_ancestor h n1 n2 = Some n"
      using g None p1(2) p2(2) eq l t assms(1) by (simp add: get_common_ancestor_def is_tree_def)
    moreover have "n \<in> below t n" using part_of.self by (force simp: below_def t)
    ultimately show ?thesis using eq t ts below_path [OF assms(1) p1(1)] p1(2) r by auto
  qed
qed

theorem common_ancestor_nearest_witness:
  "\<exists>a. get_common_ancestor example_links 4 3 = Some a \<and> 4 \<in> below example_tree a \<and> 3 \<in> below example_tree a"
  using common_ancestor_nearest [OF example_is_tree, of 4 3] by (auto simp: example_tree_def)

section \<open>The traversal\<close>

abbreviation entering :: "nat \<Rightarrow> nat \<Rightarrow> tree_iter" where
  "entering r n \<equiv> \<lparr>it_root = r, it_cur = Some n, it_move = mv_down, it_is_down = True\<rparr>"

abbreviation leaving :: "nat \<Rightarrow> nat \<Rightarrow> tree_iter" where
  "leaving r n \<equiv> \<lparr>it_root = r, it_cur = Some n, it_move = mv_next, it_is_down = False\<rparr>"

lemma visits_enter: "iter_visits h (entering r n) acc =
    iter_visits h (case ln_down h n of None \<Rightarrow> leaving r n | Some k \<Rightarrow> entering r k) (acc @ [(True, n)])"
  by (subst iter_visits.simps) (simp add: iter_advance_def iter_down_def split: option.split)

lemma visits_leave: "n \<noteq> r \<Longrightarrow> ln_up h n = Some p \<Longrightarrow> iter_visits h (leaving r n) acc =
    iter_visits h (case ln_next h n of None \<Rightarrow> leaving r p | Some k \<Rightarrow> entering r k) (acc @ [(False, n)])"
  by (subst iter_visits.simps) (simp add: iter_advance_def iter_next_def iter_up_def split: option.split)

lemma visits_end: "iter_visits h (leaving r r) acc = Some (acc @ [(False, r)])"
  by (subst iter_visits.simps, simp add: iter_advance_def iter_next_def, subst iter_visits.simps, simp)

definition inner_tour :: "tree \<Rightarrow> (bool \<times> nat) list" where
  "inner_tour t = (True, label t) # concat (map tour (subs t))"

lemma tour_inner: "tour t = inner_tour t @ [(False, label t)]"
  by (cases t) (simp add: inner_tour_def)

lemma visits_tree:
  "represents h t \<Longrightarrow> r \<notin> set (concat (map nodes (subs t))) \<Longrightarrow>
   iter_visits h (entering r (label t)) acc = iter_visits h (leaving r (label t)) (acc @ inner_tour t)"
proof (induction t arbitrary: acc rule: nodes.induct)
  case (1 n ts)
  have step: "iter_visits h (entering r (label t)) acc = iter_visits h (leaving r (label t)) (acc @ inner_tour t)"
    if "t \<in> set ts" for t acc
  proof -
    have "r \<notin> set (concat (map nodes (subs t)))" using 1(3) that by (cases t) auto
    then show ?thesis using 1(1) [OF that represents_sub [OF 1(2) that]] by simp
  qed
  have forest: "siblings h n (map label us) \<Longrightarrow> set us \<subseteq> set ts \<Longrightarrow> us \<noteq> [] \<Longrightarrow>
      iter_visits h (entering r (label (hd us))) acc = iter_visits h (leaving r n) (acc @ concat (map tour us))"
    for us acc
  proof (induction us arbitrary: acc)
    case (Cons u us)
    have "label u \<noteq> r" using 1(3) Cons.prems(2) label_in_nodes [of u] by auto
    then have "iter_visits h (leaving r (label u)) (acc @ inner_tour u) =
        iter_visits h (case first_of (map label us) of None \<Rightarrow> leaving r n | Some k \<Rightarrow> entering r k) (acc @ tour u)"
      using Cons.prems(1) by (simp add: visits_leave tour_inner)
    with Cons step [of u acc] show ?case by (cases us) simp_all
  qed simp
  show ?case
  proof (cases ts)
    case Nil
    with represents_family [OF 1(2)] show ?thesis
      by (simp add: visits_enter family_def inner_tour_def)
  next
    case (Cons u us)
    with represents_family [OF 1(2)] forest [of ts "acc @ [(True, n)]"] show ?thesis
      by (simp add: visits_enter family_def inner_tour_def)
  qed
qed

lemma represents_part: "part_of s t \<Longrightarrow> represents h t \<Longrightarrow> represents h s"
  by (induction rule: part_of.induct) (auto dest: represents_sub)

lemma distinct_part: "part_of s t \<Longrightarrow> distinct (nodes t) \<Longrightarrow> distinct (nodes s)"
  by (induction rule: part_of.induct) (auto simp: distinct_concat_iff)

lemma iter_visits_part:
  assumes "is_tree h t" "part_of s t"
  shows "iter_visits h (mk_iter (label s)) [] = Some (tour s)"
proof -
  have r: "represents h s" "distinct (nodes s)"
    using assms represents_part distinct_part by (auto simp: is_tree_def)
  then have "label s \<notin> set (concat (map nodes (subs s)))" by (cases s) auto
  from visits_tree [OF r(1) this] show ?thesis
    by (simp add: mk_iter_def visits_end tour_inner)
qed

text \<open>
  C36: the iterator over a branch of a tree sees every node of the branch exactly twice, on the
  way down before and on the way up after everything below it, in document order, and then ends.
\<close>

theorem iterator_tours:
  assumes "is_tree h t" "part_of s t"
  shows "iter_visits h (mk_iter (label s)) [] = Some (tour s)"
  by (rule iter_visits_part [OF assms])

theorem iterator_tours_witness:
  "iter_visits example_links (mk_iter 2) [] = Some [(True, 2), (True, 4), (False, 4), (False, 2)]"
proof -
  have "part_of (Node 2 [Node 4 []]) example_tree"
    unfolding example_tree_def by (rule part_of.sub [OF _ part_of.self]) simp
  from iterator_tours [OF example_is_tree this] show ?thesis by simp
qed

section \<open>Appending a branch\<close>

fun graft :: "nat \<Rightarrow> tree \<Rightarrow> tree \<Rightarrow> tree" where
  "graft n c (Node m ts) = Node m (map (graft n c) ts @ (if m = n then [c] else []))"

lemma label_graft [simp]: "label (graft n c t) = label t"
  by (cases t) simp

lemma graft_other: "n \<notin> set (nodes t) \<Longrightarrow> graft n c t = t"
  by (induction t rule: nodes.induct) (auto intro: map_idI)

lemma nodes_graft: "set (nodes (graft n c t)) = set (nodes t) \<union> (if n \<in> set (nodes t) then set (nodes c) else {})"
  by (induction t rule: nodes.induct) (auto split: if_splits)

lemma kids_graft: "(m, ks) \<in> set (kids (graft n c t)) \<Longrightarrow>
    (\<exists>ks'. (m, ks') \<in> set (kids t) \<and> ks = ks' @ (if m = n then [label c] else [])) \<or> (m, ks) \<in> set (kids c)"
proof (induction t rule: nodes.induct)
  case (1 l ts)
  then show ?case by (auto simp: comp_def split: if_splits) blast+
qed

lemma graft_distinct:
  "distinct (nodes t) \<Longrightarrow> distinct (nodes c) \<Longrightarrow> set (nodes t) \<inter> set (nodes c) = {} \<Longrightarrow> distinct (nodes (graft n c t))"
proof (induction t rule: nodes.induct)
  case (1 m ts)
  show ?case
  proof (cases "\<exists>u\<in>set ts. n \<in> set (nodes u)")
    case False
    then have "map (graft n c) ts = ts" by (auto intro!: map_idI graft_other)
    with 1 show ?thesis by auto
  next
    case True
    then obtain u xs ys where u: "ts = xs @ u # ys" "n \<in> set (nodes u)" by (metis split_list)
    have "map (graft n c) xs = xs" "map (graft n c) ys = ys" "n \<noteq> m"
      using u 1(2) by (auto intro!: map_idI graft_other)
    moreover have "distinct (nodes (graft n c u))" using 1 u(1) by auto
    ultimately show ?thesis using 1(2-4) u by (auto simp: nodes_graft)
  qed
qed

lemma links_upd [simp]:
  "ln_up (set_up n x h) = (ln_up h)(n := x)" "ln_down (set_up n x h) = ln_down h" "ln_next (set_up n x h) = ln_next h"
  "ln_live (set_up n x h) = ln_live h" "ln_up (set_down n x h) = ln_up h" "ln_down (set_down n x h) = (ln_down h)(n := x)"
  "ln_next (set_down n x h) = ln_next h" "ln_live (set_down n x h) = ln_live h" "ln_up (set_next n x h) = ln_up h"
  "ln_down (set_next n x h) = ln_down h" "ln_next (set_next n x h) = (ln_next h)(n := x)" "ln_live (set_next n x h) = ln_live h"
  by (simp_all add: set_up_def set_down_def set_next_def)

lemma siblings_frame: "siblings h p ks \<Longrightarrow> (\<forall>k\<in>set ks. ln_up h' k = ln_up h k \<and> ln_next h' k = ln_next h k) \<Longrightarrow>
    siblings h' p ks"
  by (induction ks) auto

lemma family_frame: "family h m ks \<Longrightarrow> ln_down h' m = ln_down h m \<Longrightarrow>
    (\<forall>k\<in>set ks. ln_up h' k = ln_up h k \<and> ln_next h' k = ln_next h k) \<Longrightarrow> family h' m ks"
  unfolding family_def using siblings_frame by metis

lemma family_up: "family h m ks \<Longrightarrow> k \<in> set ks \<Longrightarrow> ln_up h k = Some m"
  by (auto simp: family_def intro: siblings_up)

lemma siblings_last: "siblings h p (ks @ [l]) \<Longrightarrow> ln_next h l = None \<and> l \<notin> set ks"
proof (induction ks)
  case (Cons k ks)
  then have "ln_next h k \<noteq> None" by (cases ks) auto
  with Cons show ?case by auto
qed simp

text \<open>The children of \<open>n\<close> with one more at the end.\<close>

lemma family_extended:
  assumes "family h n ks" "ln_up h c = None" "ln_next h c = None"
    and "ln_up h' = (ln_up h)(c := Some n)"
    and "if ks = [] then ln_down h' n = Some c \<and> ln_next h' = ln_next h
         else ln_down h' n = ln_down h n \<and> ln_next h' = (ln_next h)(last ks := Some c)"
  shows "family h' n (ks @ [c])"
proof (cases ks rule: rev_cases)
  case Nil
  with assms show ?thesis by (simp add: family_def)
next
  case (snoc xs l)
  have c: "c \<notin> set ks" using family_up [OF assms(1)] assms(2) by auto
  have l: "l \<notin> set xs" using assms(1) siblings_last [of h n xs l] by (simp add: family_def snoc)
  have "siblings h' n (ys @ [l, c])" if "siblings h n (ys @ [l])" "l \<notin> set ys" "c \<notin> set (ys @ [l])" for ys
    using that
  proof (induction ys)
    case (Cons y ys)
    then show ?case using assms(4,5) by (cases ys) (auto simp: snoc)
  qed (use assms in \<open>auto simp: snoc\<close>)
  from this [of xs] c l assms(1) have "siblings h' n (xs @ [l, c])" by (simp add: family_def snoc)
  moreover have "ln_down h' n = first_of (xs @ [l, c])"
    using assms(1,5) by (cases xs) (auto simp: family_def snoc)
  ultimately show ?thesis by (simp add: family_def snoc)
qed

lemma append_child_family:
  assumes "family h n ks" "ln_up h c = None" "ln_next h c = None"
  shows "append_child n c h = Some (set_up c (Some n)
      (if ks = [] then set_down n (Some c) h else set_next (last ks) (Some c) h))"
  using assms last_loop_siblings [of h n ks] by (cases ks) (auto simp: append_child_def family_def)

lemma family_unique: "family h n ks \<Longrightarrow> family h n ks' \<Longrightarrow> ks = ks'"
  using get_children_family [of h n ks] get_children_family [of h n ks'] by simp

lemma append_child_tree:
  assumes "is_tree h t" "is_tree h c" "n \<in> set (nodes t)" "set (nodes t) \<inter> set (nodes c) = {}"
  shows "\<exists>h'. append_child n (label c) h = Some h' \<and> is_tree h' (graft n c t)"
proof -
  obtain ks where ks: "(n, ks) \<in> set (kids t)" using assms(3) by (auto simp: nodes_kids)
  have t: "represents h t" "distinct (nodes t)" "ln_up h (label t) = None" "ln_next h (label t) = None"
    using assms(1) by (simp_all add: is_tree_def)
  have c: "represents h c" "distinct (nodes c)" "ln_up h (label c) = None" "ln_next h (label c) = None"
    using assms(2) by (simp_all add: is_tree_def)
  have f: "family h n ks" using t(1) ks by (auto simp: represents_def)
  let ?h = "set_up (label c) (Some n) (if ks = [] then set_down n (Some (label c)) h else set_next (last ks) (Some (label c)) h)"
  have fc: "family ?h m ls" if m: "family h m ls" "m \<noteq> n" for m ls
  proof (rule family_frame [OF m(1)])
    show "ln_down ?h m = ln_down h m" using m(2) by simp
    show "\<forall>k\<in>set ls. ln_up ?h k = ln_up h k \<and> ln_next ?h k = ln_next h k"
      using family_up [OF m(1)] family_up [OF f] m(2) c(3) last_in_set [of ks] by fastforce
  qed
  have "family ?h m ls" if mls: "(m, ls) \<in> set (kids (graft n c t))" for m ls
  proof -
    consider ls' where "(m, ls') \<in> set (kids t)" "ls = ls' @ (if m = n then [label c] else [])"
      | "(m, ls) \<in> set (kids c)"
      using kids_graft [OF mls] by blast
    then show ?thesis
    proof cases
      case 1
      then have m: "family h m ls'" using t(1) by (auto simp: represents_def)
      show ?thesis
      proof (cases "m = n")
        case True
        then have "ls' = ks" using family_unique [OF f] m by simp
        with True 1(2) show ?thesis
          using family_extended [OF f c(3,4), of ?h] by (simp split: if_splits)
      next
        case False
        with 1(2) fc [OF m] show ?thesis by simp
      qed
    next
      case 2
      then have "m \<noteq> n" using kid_of_node assms(3,4) by blast
      with 2 c(1) fc show ?thesis by (auto simp: represents_def)
    qed
  qed
  moreover have "label t \<noteq> label c" using assms(4) label_in_nodes [of t] label_in_nodes [of c] by (metis IntI empty_iff)
  moreover have "ks \<noteq> [] \<Longrightarrow> label t \<noteq> last ks" using family_up [OF f last_in_set] t(3) by auto
  ultimately have "is_tree ?h (graft n c t)"
    using t c graft_distinct [OF t(2) c(2) assms(4)] by (auto simp: is_tree_def represents_def)
  then show ?thesis using append_child_family [OF f c(3,4)] by blast
qed

text \<open>
  C37: appending the root of one tree to a node of another, which no node of the first, gives a
  tree again: the old children of the node and the appended branch after them.
\<close>

theorem append_child_grafts:
  assumes "is_tree h t" "is_tree h c" "n \<in> set (nodes t)" "set (nodes t) \<inter> set (nodes c) = {}"
  shows "\<exists>h'. append_child n (label c) h = Some h' \<and> is_tree h' (graft n c t)"
  by (rule append_child_tree [OF assms])

theorem append_child_grafts_witness:
  "\<exists>h'. append_child 3 9 example_links = Some h' \<and> is_tree h' (Node 1 [Node 2 [Node 4 []], Node 3 [Node 9 []]])"
proof -
  have "is_tree example_links (Node 9 [])"
    by (simp add: is_tree_def represents_def family_def example_links_def)
  from append_child_grafts [OF example_is_tree this, of 3] show ?thesis by (simp add: example_tree_def)
qed

section \<open>Detaching and deleting a branch\<close>

fun prune :: "nat \<Rightarrow> tree \<Rightarrow> tree" where
  "prune n (Node m ts) = Node m (map (prune n) (filter (\<lambda>t. label t \<noteq> n) ts))"

lemma label_prune [simp]: "label (prune n t) = label t"
  by (cases t) simp

lemma subseq_concat_map: "(\<And>t. t \<in> set ts \<Longrightarrow> subseq (f t) (g t)) \<Longrightarrow>
    subseq (concat (map f (filter P ts))) (concat (map g ts))"
proof (induction ts)
  case (Cons t ts)
  then have "subseq (concat (map f (filter P ts))) (concat (map g ts))" "subseq (f t) (g t)" by simp_all
  then show ?case by (auto intro: list_emb_append_mono list_emb_append2)
qed simp

lemma nodes_prune: "subseq (nodes (prune n t)) (nodes t)"
proof (induction t rule: nodes.induct)
  case (1 m ts)
  then have "subseq (concat (map (\<lambda>t. nodes (prune n t)) (filter (\<lambda>t. label t \<noteq> n) ts))) (concat (map nodes ts))"
    by (intro subseq_concat_map) simp
  then show ?case by (simp add: comp_def)
qed

lemma set_nodes_prune: "set (nodes (prune n t)) \<subseteq> set (nodes t)"
  using list_emb_set [OF nodes_prune [of n t]] by auto

lemma subseq_distinct: "subseq xs ys \<Longrightarrow> distinct ys \<Longrightarrow> distinct xs"
  by (induction rule: list_emb.induct) (auto dest: list_emb_set)

lemma kids_prune: "(m, ks) \<in> set (kids (prune n t)) \<Longrightarrow>
    \<exists>ks'. (m, ks') \<in> set (kids t) \<and> ks = filter (\<lambda>k. k \<noteq> n) ks'"
proof (induction t rule: nodes.induct)
  case (1 l ts)
  then consider "m = l" "ks = map label (map (prune n) (filter (\<lambda>t. label t \<noteq> n) ts))"
    | u where "u \<in> set ts" "(m, ks) \<in> set (kids (prune n u))" by auto
  then show ?case
  proof cases
    case 1
    then have "ks = filter (\<lambda>k. k \<noteq> n) (map label ts)" by (simp add: filter_map comp_def)
    with 1(1) show ?thesis by auto
  next
    case 2
    with 1(1) [OF 2] show ?thesis by auto
  qed
qed

lemma prune_self: "(m, ks) \<in> set (kids (prune n t)) \<Longrightarrow> n \<notin> set ks"
  using kids_prune by fastforce

lemma kids_distinct: "(m, ks) \<in> set (kids t) \<Longrightarrow> distinct (nodes t) \<Longrightarrow> distinct ks"
proof (induction t rule: nodes.induct)
  case (1 l ts)
  have l: "distinct (map label us)" if "distinct (concat (map nodes us))" for us
    using that
  proof (induction us)
    case (Cons u us)
    have "label u \<noteq> label v" if "v \<in> set us" for v
    proof
      assume "label u = label v"
      then have "label u \<in> set (nodes u) \<inter> (\<Union>a\<in>set us. set (nodes a))"
        using that label_in_nodes [of u] label_in_nodes [of v] by (metis IntI UN_I)
      with Cons.prems show False by auto
    qed
    with Cons show ?case by auto
  qed simp
  from 1(2) consider "ks = map label ts" | u where "u \<in> set ts" "(m, ks) \<in> set (kids u)" by auto
  then show ?case
  proof cases
    case 1
    with l [of ts] \<open>distinct (nodes (Node l ts))\<close> show ?thesis by simp
  next
    case 2
    then have "distinct (nodes u)" using \<open>distinct (nodes (Node l ts))\<close> by (auto simp: distinct_concat_iff)
    with 2 "1.IH" show ?thesis by blast
  qed
qed

lemma part_kids: "part_of s t \<Longrightarrow> set (kids s) \<subseteq> set (kids t)"
  by (induction rule: part_of.induct) auto

lemma part_exists: "n \<in> set (nodes t) \<Longrightarrow> \<exists>s. part_of s t \<and> label s = n"
  using path_exists [of n t] path_part path_in_hd by (metis last_in_set)

lemma part_nodes: "part_of s t \<Longrightarrow> set (nodes s) \<subseteq> set (nodes t)"
  by (induction rule: part_of.induct) auto

lemma parent_exists: "n \<in> set (nodes t) \<Longrightarrow> n \<noteq> label t \<Longrightarrow> \<exists>p ks. (p, ks) \<in> set (kids t) \<and> n \<in> set ks"
proof (induction t rule: nodes.induct)
  case (1 m ts)
  then obtain u where u: "u \<in> set ts" "n \<in> set (nodes u)" by auto
  show ?case
  proof (cases "n = label u")
    case True
    with u have "n \<in> set (map label ts)" by simp
    then show ?thesis by (intro exI [of _ m] exI [of _ "map label ts"]) simp
  next
    case False
    then obtain p ks where "(p, ks) \<in> set (kids u)" "n \<in> set ks" using 1(1) [OF u] by blast
    with u(1) show ?thesis by (intro exI [of _ p] exI [of _ ks]) auto
  qed
qed

lemma detach_loop_siblings:
  "siblings h p (e # xs @ n # ys) \<Longrightarrow> n \<notin> set (e # xs) \<Longrightarrow>
   detach_loop n e h = Some (set_up n None (set_next n None (set_next (last (e # xs)) (first_of ys) h)))"
proof (induction xs arbitrary: e)
  case Nil
  then show ?case by (subst detach_loop.simps) simp
next
  case (Cons x xs)
  then have "detach_loop n x h = Some (set_up n None (set_next n None (set_next (last (x # xs)) (first_of ys) h)))"
    by simp
  with Cons.prems show ?case by (subst detach_loop.simps) simp
qed

text \<open>The structure after taking \<open>n\<close> out of the children \<open>xs @ n # ys\<close> of \<open>p\<close>.\<close>

definition unlinked :: "nat \<Rightarrow> nat \<Rightarrow> nat list \<Rightarrow> nat list \<Rightarrow> 'a links_scheme \<Rightarrow> 'a links_scheme" where
  "unlinked p n xs ys h = set_up n None (set_next n None
     (if xs = [] then set_down p (first_of ys) h else set_next (last xs) (first_of ys) h))"

lemma siblings_next: "siblings h p (xs @ n # ys) \<Longrightarrow> ln_next h n = first_of ys"
  by (induction xs) auto

lemma detach_family:
  assumes "family h p (xs @ n # ys)" "n \<notin> set xs"
  shows "detach n h = Some (unlinked p n xs ys h)"
proof (cases xs)
  case Nil
  with assms siblings_next [of h p xs n ys] show ?thesis
    by (simp add: detach_def unlinked_def family_def)
next
  case (Cons e zs)
  with assms detach_loop_siblings [of h p e zs n ys] family_up [OF assms(1), of n] show ?thesis
    by (auto simp: detach_def unlinked_def family_def)
qed

lemma siblings_cut:
  assumes "siblings h p (xs @ n # ys)" "distinct (xs @ n # ys)"
    and "\<forall>k\<in>set (xs @ ys). ln_up h' k = ln_up h k"
    and "\<forall>k\<in>set (xs @ ys). ln_next h' k = (if xs \<noteq> [] \<and> k = last xs then first_of ys else ln_next h k)"
  shows "siblings h' p (xs @ ys)"
  using assms
proof (induction xs)
  case Nil
  then show ?case by (auto intro: siblings_frame [of h])
next
  case (Cons x xs)
  show ?case
  proof (cases xs)
    case Nil
    have "siblings h' p ys"
      by (rule siblings_frame [of h]) (use Cons.prems Nil in auto)
    with Nil Cons.prems show ?thesis by simp
  next
    case (Cons y zs)
    have "siblings h' p (xs @ ys)"
      by (rule Cons.IH) (use Cons.prems Cons in auto)
    with Cons Cons.prems show ?thesis by auto
  qed
qed

lemma family_cut:
  assumes "family h p (xs @ n # ys)" "distinct (xs @ n # ys)" "p \<noteq> n"
  shows "family (unlinked p n xs ys h) p (xs @ ys)"
proof -
  have "siblings (unlinked p n xs ys h) p (xs @ ys)"
    using assms(1,2) by (intro siblings_cut [of h p xs n ys]) (auto simp: family_def unlinked_def)
  moreover have "ln_down (unlinked p n xs ys h) p = first_of (xs @ ys)"
    using assms(1) by (cases xs) (auto simp: family_def unlinked_def)
  ultimately show ?thesis by (simp add: family_def)
qed

lemma family_unlinked:
  assumes "family h p (xs @ n # ys)" "family h m ks" "m \<noteq> p"
  shows "family (unlinked p n xs ys h) m ks \<and> n \<notin> set ks"
proof
  have up: "ln_up h n = Some p" "\<forall>k\<in>set ks. ln_up h k = Some m" "xs \<noteq> [] \<longrightarrow> ln_up h (last xs) = Some p"
    using family_up [OF assms(1)] family_up [OF assms(2)] last_in_set [of xs] by auto
  then show n: "n \<notin> set ks" using assms(3) by auto
  show "family (unlinked p n xs ys h) m ks"
    by (rule family_frame [OF assms(2)]) (use up n assms(3) in \<open>auto simp: unlinked_def\<close>)
qed

lemma filter_absent: "n \<notin> set ks \<Longrightarrow> filter (\<lambda>k. k \<noteq> n) ks = ks"
  by (induction ks) auto

lemma detach_works:
  assumes "is_tree h t" "part_of s t" "label s \<noteq> label t"
  shows "\<exists>p xs ys. detach (label s) h = Some (unlinked p (label s) xs ys h)
    \<and> is_tree (unlinked p (label s) xs ys h) (prune (label s) t) \<and> is_tree (unlinked p (label s) xs ys h) s
    \<and> p \<notin> set (nodes s) \<and> set xs \<inter> set (nodes s) = {}"
proof -
  let ?n = "label s"
  have t: "represents h t" "distinct (nodes t)" "ln_up h (label t) = None" "ln_next h (label t) = None"
    using assms(1) by (simp_all add: is_tree_def)
  have "?n \<in> set (nodes t)" using part_nodes [OF assms(2)] label_in_nodes [of s] by blast
  from parent_exists [OF this assms(3)] obtain p ks where ks: "(p, ks) \<in> set (kids t)" "?n \<in> set ks" by blast
  then obtain xs ys where x: "ks = xs @ ?n # ys" by (metis split_list)
  have f: "family h p (xs @ ?n # ys)" using ks(1) t(1) x by (auto simp: represents_def)
  have d: "distinct (xs @ ?n # ys)" using kids_distinct [OF ks(1) t(2)] x by simp
  have ds: "distinct (nodes s)" using distinct_part assms(2) t(2) by blast
  have top: "?n \<notin> set ls" if "(m, ls) \<in> set (kids s)" for m ls
  proof (cases s)
    case (Node l us)
    then have "l \<notin> set (concat (map nodes us))" using ds by simp
    moreover have "set ls \<subseteq> set (concat (map nodes us))"
      using that Node by (auto dest!: kids_in_nodes, metis label_in_nodes)
    ultimately show ?thesis using Node by auto
  qed
  have p: "p \<notin> set (nodes s)"
  proof
    assume "p \<in> set (nodes s)"
    then obtain ls where ls: "(p, ls) \<in> set (kids s)" by (auto simp: nodes_kids)
    then have "family h p ls" using part_kids [OF assms(2)] t(1) by (auto simp: represents_def)
    then have "ls = ks" using family_unique f x by blast
    with top [OF ls] ks(2) show False by simp
  qed
  have xs: "set xs \<inter> set (nodes s) = {}"
  proof -
    have "k \<notin> set (nodes s)" if k: "k \<in> set xs" for k
    proof
      assume "k \<in> set (nodes s)"
      moreover have "k \<noteq> ?n" using d k by auto
      ultimately obtain q ls where q: "(q, ls) \<in> set (kids s)" "k \<in> set ls" using parent_exists by blast
      then have fq: "family h q ls" using part_kids [OF assms(2)] t(1) by (auto simp: represents_def)
      then have "q = p" using family_up [OF fq q(2)] family_up [OF f, of k] k by auto
      with p kid_of_node [OF q(1)] show False by simp
    qed
    then show ?thesis by auto
  qed
  let ?h = "unlinked p ?n xs ys h"
  have "family ?h m ls" if mls: "(m, ls) \<in> set (kids (prune ?n t))" for m ls
  proof -
    from kids_prune [OF mls] obtain ls' where ls': "(m, ls') \<in> set (kids t)" "ls = filter (\<lambda>k. k \<noteq> ?n) ls'" by blast
    then have m: "family h m ls'" using t(1) by (auto simp: represents_def)
    show ?thesis
    proof (cases "m = p")
      case True
      then have "ls' = xs @ ?n # ys" using family_unique [OF f] m by simp
      then have "ls = xs @ ys" using ls'(2) d by (simp add: filter_absent)
      moreover have "p \<noteq> ?n" using p label_in_nodes [of s] by metis
      ultimately show ?thesis using family_cut [OF f d] True by simp
    next
      case False
      then have "family ?h m ls'" "?n \<notin> set ls'" using family_unlinked [OF f m] by simp_all
      with ls'(2) show ?thesis by (simp add: filter_absent)
    qed
  qed
  moreover have "family ?h m ls" if mls: "(m, ls) \<in> set (kids s)" for m ls
  proof -
    have "family h m ls" using mls part_kids [OF assms(2)] t(1) by (auto simp: represents_def)
    moreover have "m \<noteq> p" using p kid_of_node [OF mls] by auto
    ultimately show ?thesis using family_unlinked [OF f] by blast
  qed
  moreover have "distinct (nodes (prune ?n t))" using subseq_distinct [OF nodes_prune t(2)] .
  moreover have "ln_up ?h ?n = None" "ln_next ?h ?n = None" by (simp_all add: unlinked_def)
  moreover have "ln_up ?h (label t) = None" "ln_next ?h (label t) = None"
    using t(3,4) assms(3) family_up [OF f] last_in_set [of xs] by (auto simp: unlinked_def)
  ultimately have "is_tree ?h (prune ?n t)" "is_tree ?h s"
    using ds by (auto simp: is_tree_def represents_def)
  moreover have "?n \<notin> set xs" using d by simp
  ultimately show ?thesis using detach_family [OF f] p xs by blast
qed

text \<open>
  C38: detaching a node other than the root splits the tree: what remains is the tree without the
  branch of the node, and the branch is a tree of its own.
\<close>

theorem detach_splits:
  assumes "is_tree h t" "part_of s t" "label s \<noteq> label t"
  shows "\<exists>h'. detach (label s) h = Some h' \<and> is_tree h' (prune (label s) t) \<and> is_tree h' s"
  using detach_works [OF assms] by blast

theorem detach_splits_witness:
  "\<exists>h'. detach 2 example_links = Some h' \<and> is_tree h' (Node 1 [Node 3 []]) \<and> is_tree h' (Node 2 [Node 4 []])"
proof -
  have "part_of (Node 2 [Node 4 []]) example_tree"
    unfolding example_tree_def by (rule part_of.sub [OF _ part_of.self]) simp
  from detach_splits [OF example_is_tree this] show ?thesis by (simp add: example_tree_def)
qed

lemma part_same_label: "part_of s t \<Longrightarrow> distinct (nodes t) \<Longrightarrow> label s = label t \<Longrightarrow> s = t"
proof (induction rule: part_of.induct)
  case (sub t ts s n)
  have "label s \<in> set (nodes t)" using part_nodes [OF sub(2)] label_in_nodes [of s] by blast
  with sub show ?case by auto
qed simp

lemma prune_disjoint:
  "part_of s t \<Longrightarrow> distinct (nodes t) \<Longrightarrow> label s \<noteq> label t \<Longrightarrow>
   set (nodes (prune (label s) t)) \<inter> set (nodes s) = {}"
proof (induction rule: part_of.induct)
  case (self t)
  then show ?case by simp
next
  case (sub t ts s n)
  obtain xs ys where ts: "ts = xs @ t # ys" using sub(1) by (metis split_list)
  have dt: "distinct (nodes t)" and m: "n \<notin> set (nodes t)" using sub(4) ts by auto
  have other: "set (nodes u) \<inter> set (nodes t) = {}" if "u \<in> set ts" "u \<noteq> t" for u
    using sub(4) that ts by auto
  have "set (nodes (prune (label s) u)) \<inter> set (nodes s) = {}" if u: "u \<in> set ts" "label u \<noteq> label s" for u
  proof (cases "u = t")
    case True
    then show ?thesis using sub(3) dt u by auto
  next
    case False
    then show ?thesis
      using other [OF u(1)] part_nodes [OF sub(2)] set_nodes_prune [of "label s" u] by blast
  qed
  moreover have "n \<notin> set (nodes s)" using m part_nodes [OF sub(2)] by blast
  ultimately show ?case by auto
qed

fun follows :: "'a links_scheme \<Rightarrow> nat list \<Rightarrow> bool" where
  "follows h [] = True"
| "follows h (k # ks) = (ln_next h k = first_of ks \<and> follows h ks)"

definition shape :: "'a links_scheme \<Rightarrow> tree \<Rightarrow> bool" where
  "shape h t \<longleftrightarrow> (\<forall>(n, ks)\<in>set (kids t). ln_down h n = first_of ks \<and> follows h ks)"

lemma follows_siblings: "siblings h p ks \<Longrightarrow> follows h ks"
  by (induction ks) auto

lemma shape_represents: "represents h t \<Longrightarrow> shape h t"
  by (auto simp: represents_def shape_def family_def intro: follows_siblings)

lemma follows_cong: "ln_next h' = ln_next h \<Longrightarrow> follows h' ks = follows h ks"
  by (induction ks) auto

lemma shape_cong: "ln_down h' = ln_down h \<Longrightarrow> ln_next h' = ln_next h \<Longrightarrow> shape h' t = shape h t"
  using follows_cong [of h' h] by (simp add: shape_def)

abbreviation forest_nodes :: "tree list \<Rightarrow> nat set" where
  "forest_nodes ts \<equiv> \<Union>t\<in>set ts. set (nodes t)"

lemma delete_loop_forest:
  "follows h (map label ts) \<Longrightarrow> \<forall>t\<in>set ts. shape h t \<Longrightarrow>
   delete_loop (first_of (map label ts)) h =
     Some (h\<lparr>ln_up := (\<lambda>x. if x \<in> forest_nodes ts then None else ln_up h x), ln_live := ln_live h - forest_nodes ts\<rparr>)"
proof (induction "length (concat (map nodes ts))" arbitrary: ts h rule: less_induct)
  case less
  show ?case
  proof (cases ts)
    case Nil
    then show ?thesis by (subst delete_loop.simps) simp
  next
    case (Cons t us)
    obtain n vs where t: "t = Node n vs" by (cases t)
    let ?h1 = "set_up n None h"
    let ?h2 = "?h1\<lparr>ln_up := (\<lambda>x. if x \<in> forest_nodes vs then None else ln_up ?h1 x), ln_live := ln_live ?h1 - forest_nodes vs\<rparr>"
    let ?h3 = "?h2\<lparr>ln_live := ln_live ?h2 - {n}\<rparr>"
    have sh: "shape h v" if "v \<in> set vs" for v
      using less.prems(2) that Cons t by (auto simp: shape_def)
    have vs: "follows h (map label vs)" "ln_down h n = first_of (map label vs)"
      using less.prems(2) Cons t by (auto simp: shape_def)
    have "follows ?h1 (map label vs)" "\<forall>v\<in>set vs. shape ?h1 v"
      using vs(1) sh follows_cong [of ?h1 h] shape_cong [of ?h1 h] by simp_all
    moreover have "length (concat (map nodes vs)) < length (concat (map nodes ts))" using Cons t by simp
    ultimately have r1: "delete_loop (first_of (map label vs)) ?h1 = Some ?h2" using less.hyps by blast
    have "follows ?h3 (map label us)" "\<forall>u\<in>set us. shape ?h3 u"
      using less.prems Cons follows_cong [of ?h3 h] shape_cong [of ?h3 h] by simp_all
    moreover have "length (concat (map nodes us)) < length (concat (map nodes ts))" using Cons t by simp
    ultimately have r2: "delete_loop (first_of (map label us)) ?h3 =
        Some (?h3\<lparr>ln_up := (\<lambda>x. if x \<in> forest_nodes us then None else ln_up ?h3 x), ln_live := ln_live ?h3 - forest_nodes us\<rparr>)"
      using less.hyps by blast
    have nx: "ln_next h n = first_of (map label us)" using less.prems(1) Cons t by simp
    have "delete_loop (first_of (map label ts)) h = delete_loop (first_of (map label us)) ?h3"
      using Cons t vs(2) r1 nx by (subst delete_loop.simps) (simp add: Let_def)
    moreover have "(\<lambda>x. if x \<in> forest_nodes us then None else ln_up ?h3 x)
        = (\<lambda>x. if x \<in> forest_nodes ts then None else ln_up h x)"
      using Cons t by (auto simp: fun_eq_iff)
    moreover have "ln_live ?h3 - forest_nodes us = ln_live h - forest_nodes ts" using Cons t by auto
    ultimately show ?thesis using r2 by (simp add: set_up_def)
  qed
qed

text \<open>
  \<open>delete_tree\<close> of a node other than the root ends, takes the branch of the node out of the
  tree and deletes exactly the nodes below it; the node itself is left to its caller.
\<close>

theorem delete_tree_deletes:
  assumes "is_tree h t" "part_of s t" "label s \<noteq> label t"
  shows "\<exists>h'. delete_tree (label s) h = Some h' \<and> is_tree h' (prune (label s) t)
    \<and> ln_live h' = ln_live h - (set (nodes s) - {label s})"
proof -
  let ?n = "label s"
  obtain p xs ys where d: "detach ?n h = Some (unlinked p ?n xs ys h)"
    and t: "is_tree (unlinked p ?n xs ys h) (prune ?n t)" and s: "is_tree (unlinked p ?n xs ys h) s"
    using detach_works [OF assms] by blast
  let ?h = "unlinked p ?n xs ys h"
  obtain us where us: "s = Node ?n us" by (cases s) simp
  have ds: "distinct (nodes s)" using s by (simp add: is_tree_def)
  have rs: "represents ?h s" using s by (simp add: is_tree_def)
  have f: "family ?h ?n (map label us)" using rs us represents_family by metis
  have sh: "\<forall>u\<in>set us. shape ?h u"
    using rs us represents_sub shape_represents by metis
  let ?h' = "?h\<lparr>ln_up := (\<lambda>x. if x \<in> forest_nodes us then None else ln_up ?h x), ln_live := ln_live ?h - forest_nodes us\<rparr>"
  have del: "delete_loop (ln_down ?h ?n) ?h = Some ?h'"
    using delete_loop_forest [of ?h us] f sh follows_siblings [of ?h ?n "map label us"]
    by (simp add: family_def)
  have up: "ln_up h ?n \<noteq> None"
  proof
    assume "ln_up h ?n = None"
    moreover have "?n \<in> set (nodes t)" using part_nodes [OF assms(2)] label_in_nodes [of s] by blast
    from parent_exists [OF this assms(3)] obtain q ks where q: "(q, ks) \<in> set (kids t)" "?n \<in> set ks" by blast
    then have "family h q ks" using assms(1) by (auto simp: is_tree_def represents_def)
    from family_up [OF this q(2)] have "ln_up h ?n = Some q" .
    ultimately show False by simp
  qed
  have r: "delete_tree ?n h = Some ?h'" using up d del by (simp add: delete_tree_def)
  have disj: "set (nodes (prune ?n t)) \<inter> set (nodes s) = {}"
    using prune_disjoint [OF assms(2) _ assms(3)] assms(1) by (simp add: is_tree_def)
  have sub: "forest_nodes us = set (nodes s) - {?n}"
    using ds us by (cases s) auto
  have "family ?h' m ks" if mk: "(m, ks) \<in> set (kids (prune ?n t))" for m ks
  proof (rule family_frame)
    show "family ?h m ks" using t mk by (auto simp: is_tree_def represents_def)
    show "\<forall>k\<in>set ks. ln_up ?h' k = ln_up ?h k \<and> ln_next ?h' k = ln_next ?h k"
      using kids_in_nodes [OF mk] disj sub by auto
  qed simp
  moreover have "label t \<notin> forest_nodes us" using disj sub label_in_nodes [of "prune ?n t"] by auto
  ultimately have "is_tree ?h' (prune ?n t)" using t by (auto simp: is_tree_def represents_def)
  moreover have "ln_live ?h' = ln_live h - (set (nodes s) - {?n})" using sub by (simp add: unlinked_def)
  ultimately show ?thesis using r by blast
qed

theorem delete_tree_deletes_witness:
  "\<exists>h'. delete_tree 2 example_links = Some h' \<and> ln_live h' = {1, 2, 3}"
proof -
  have "part_of (Node 2 [Node 4 []]) example_tree"
    unfolding example_tree_def by (rule part_of.sub [OF _ part_of.self]) simp
  from delete_tree_deletes [OF example_is_tree this] show ?thesis
    by (auto simp: example_tree_def example_links_def)
qed

end
