(* ===== verification/Smil_Time.thy ===== *)
theory Smil_Time
  imports Prelude
begin

text \<open>
  The time values and intervals of the SMIL timing model
  (include/ambulant/smil2/smil_time.h, instantiated at \<open>long\<close>). A time is its
  underlying \<open>m_val\<close>: the two largest values of the type stand for "unresolved" and
  "indefinite", the smallest for minus infinity, everything else is milliseconds.
  The abstract times \<open>atime\<close> give the intended reading; the arithmetic refines it as
  long as the definite sums stay in range.
\<close>

section \<open>Values\<close>

type_synonym stime = int

definition unresolved :: stime where
  "unresolved = long_max"

definition indefinite :: stime where
  "indefinite = long_max - 1"

definition minus_infinity :: stime where
  "minus_infinity = long_min"

definition unspecified :: stime where
  "unspecified = unresolved"

lemmas time_consts = unresolved_def indefinite_def minus_infinity_def unspecified_def c_arith

definition is_unresolved :: "stime \<Rightarrow> bool" where
  "is_unresolved t \<longleftrightarrow> t = unresolved"

definition is_indefinite :: "stime \<Rightarrow> bool" where
  "is_indefinite t \<longleftrightarrow> t = indefinite"

definition is_definite :: "stime \<Rightarrow> bool" where
  "is_definite t \<longleftrightarrow> \<not> is_indefinite t \<and> \<not> is_unresolved t"

definition is_resolved :: "stime \<Rightarrow> bool" where
  "is_resolved t \<longleftrightarrow> t \<noteq> unresolved"

lemmas time_kinds = is_definite_def is_indefinite_def is_unresolved_def is_resolved_def

lemma indefinite_neq_unresolved [simp]: "indefinite \<noteq> unresolved" "unresolved \<noteq> indefinite"
  by (simp_all add: time_consts)

section \<open>Arithmetic\<close>

definition time_add :: "stime \<Rightarrow> stime \<Rightarrow> stime" where
  "time_add a b =
     (if is_unresolved a then a
      else if is_unresolved b then unresolved
      else if is_indefinite a then a
      else if is_indefinite b then indefinite
      else to_long (a + b))"

definition time_sub :: "stime \<Rightarrow> stime \<Rightarrow> stime" where
  "time_sub a b =
     (if is_unresolved a then a
      else if is_unresolved b then unresolved
      else if is_indefinite a then a
      else if is_indefinite b then indefinite
      else to_long (a - b))"

definition time_mul :: "stime \<Rightarrow> stime \<Rightarrow> stime" where
  "time_mul a b =
     (if is_unresolved a then a
      else if is_unresolved b then unresolved
      else if is_indefinite a then (if b \<noteq> 0 then a else 0)
      else if is_indefinite b then (if a \<noteq> 0 then indefinite else a)
      else to_long (a * b))"

definition time_scale :: "stime \<Rightarrow> int \<Rightarrow> stime" where
  "time_scale a n = to_long (a * n)"

text \<open>Division by the integer 0 traps in C++: \<open>None\<close>.\<close>

definition time_divide :: "stime \<Rightarrow> int \<Rightarrow> stime option" where
  "time_divide a n = (if n = 0 then None else Some (to_long (cdiv a n)))"

definition time_neg :: "stime \<Rightarrow> stime" where
  "time_neg a = to_long (- a)"

definition time_abs :: "stime \<Rightarrow> stime" where
  "time_abs a = (if 0 \<le> a then a else to_long (- a))"

definition time_rem :: "stime \<Rightarrow> stime \<Rightarrow> stime" where
  "time_rem a m =
     (if \<not> is_definite m then a
      else if m = 0 then 0
      else to_long (a - to_long (m * to_long (cdiv a m))))"

definition time_mod :: "stime \<Rightarrow> stime \<Rightarrow> stime" where
  "time_mod a m =
     (if \<not> is_definite m then 0
      else if m = 0 then indefinite
      else to_long (cdiv a m))"

text \<open>Conversions to and from seconds; a \<open>double\<close> is read as the rational it denotes.\<close>

definition secs_to_time :: "rat \<Rightarrow> stime" where
  "secs_to_time v = to_long \<lfloor>v * 1000 + 1 / 2\<rfloor>"

definition time_to_secs :: "stime \<Rightarrow> rat" where
  "time_to_secs v = of_int (cdiv v 1000) + (1 / 1000) * of_int (crem v 1000)"

text \<open>
  \<open>repr\<close> prints a definite time into \<open>char buf[16]\<close> with an unbounded \<open>sprintf\<close>:
  \<open>None\<close> is a write past the end of that buffer.
\<close>

definition repr_time :: "stime \<Rightarrow> string option" where
  "repr_time t =
     (if t = minus_infinity then Some ''minus_infinity''
      else if is_definite t
      then (if length (show_int t) + 1 \<le> 16 then Some (show_int t) else None)
      else Some (if is_unresolved t then ''unresolved'' else ''indefinite''))"

section \<open>Abstract times\<close>

datatype atime = At int | Indefinite | Unresolved

text \<open>
  An operation on times: unresolved when one of the two is, else indefinite when one of them is. The
  header calls the two values infinities; a definite time less an infinite one would be negative.
\<close>

definition alift :: "(int \<Rightarrow> int \<Rightarrow> int) \<Rightarrow> atime \<Rightarrow> atime \<Rightarrow> atime" where
  "alift f x y =
     (if x = Unresolved \<or> y = Unresolved then Unresolved
      else case (x, y) of (At a, At b) \<Rightarrow> At (f a b) | _ \<Rightarrow> Indefinite)"

definition aadd :: "atime \<Rightarrow> atime \<Rightarrow> atime" where
  "aadd = alift (+)"

definition asub :: "atime \<Rightarrow> atime \<Rightarrow> atime" where
  "asub = alift (-)"

fun amul :: "atime \<Rightarrow> atime \<Rightarrow> atime" where
  "amul Unresolved _ = Unresolved"
| "amul _ Unresolved = Unresolved"
| "amul Indefinite (At b) = (if b = 0 then At 0 else Indefinite)"
| "amul Indefinite Indefinite = Indefinite"
| "amul (At a) Indefinite = (if a = 0 then At 0 else Indefinite)"
| "amul (At a) (At b) = At (a * b)"

definition abs_time :: "stime \<Rightarrow> atime" where
  "abs_time t = (if t = unresolved then Unresolved else if t = indefinite then Indefinite else At t)"

instantiation atime :: linorder
begin

fun less_eq_atime :: "atime \<Rightarrow> atime \<Rightarrow> bool" where
  "less_eq_atime (At a) (At b) = (a \<le> b)"
| "less_eq_atime (At _) _ = True"
| "less_eq_atime Indefinite (At _) = False"
| "less_eq_atime Indefinite _ = True"
| "less_eq_atime Unresolved Unresolved = True"
| "less_eq_atime Unresolved _ = False"

definition less_atime :: "atime \<Rightarrow> atime \<Rightarrow> bool" where
  "less_atime a b \<longleftrightarrow> a \<le> b \<and> \<not> b \<le> a"

instance
proof
  fix x y z :: atime
  show "x < y \<longleftrightarrow> x \<le> y \<and> \<not> y \<le> x" by (rule less_atime_def)
  show "x \<le> x" by (cases x) auto
  show "x \<le> y \<Longrightarrow> y \<le> z \<Longrightarrow> x \<le> z" by (cases x; cases y; cases z) auto
  show "x \<le> y \<Longrightarrow> y \<le> x \<Longrightarrow> x = y" by (cases x; cases y) auto
  show "x \<le> y \<or> y \<le> x" by (cases x; cases y) auto
qed

end

lemma abs_time_le: "is_long a \<Longrightarrow> is_long b \<Longrightarrow> (abs_time a \<le> abs_time b) = (a \<le> b)"
  by (auto simp: abs_time_def time_consts)

lemma time_add_comm: "time_add a b = time_add b a"
  by (simp add: time_add_def time_kinds add.commute)

lemma is_long_time_add [simp, intro]: "is_long a \<Longrightarrow> is_long b \<Longrightarrow> is_long (time_add a b)"
  by (auto simp: time_add_def time_kinds)

lemma is_long_time_sub [simp, intro]: "is_long a \<Longrightarrow> is_long b \<Longrightarrow> is_long (time_sub a b)"
  by (auto simp: time_sub_def time_kinds)

lemma is_long_unresolved [simp]: "is_long unresolved" "is_long indefinite" "is_long minus_infinity"
  by (simp_all add: time_consts)

lemma time_le_unresolved: "is_long a \<Longrightarrow> a \<le> unresolved"
  by (simp add: time_consts)

lemma time_add_definite:
  "is_definite a \<Longrightarrow> is_definite b \<Longrightarrow> is_long (a + b) \<Longrightarrow> time_add a b = a + b"
  by (simp add: time_add_def is_definite_def)

lemma time_sub_definite:
  "is_definite a \<Longrightarrow> is_definite b \<Longrightarrow> is_long (a - b) \<Longrightarrow> time_sub a b = a - b"
  by (simp add: time_sub_def is_definite_def)

text \<open>
  A sum of definite times may not only leave the range of \<open>long\<close> but also hit one of the
  two reserved values; the refinement excludes exactly these sums.
\<close>

definition in_range :: "int \<Rightarrow> bool" where
  "in_range x \<longleftrightarrow> long_min \<le> x \<and> x < indefinite"

lemma in_rangeD: "in_range x \<Longrightarrow> is_long x \<and> is_definite x"
  by (auto simp: in_range_def time_kinds time_consts)

lemma abs_time_definite [simp]: "is_definite t \<Longrightarrow> abs_time t = At t"
  by (simp add: abs_time_def time_kinds)

lemma abs_time_unresolved [simp]: "abs_time unresolved = Unresolved"
  by (simp add: abs_time_def)

lemma abs_time_indefinite [simp]: "abs_time indefinite = Indefinite"
  by (simp add: abs_time_def)

lemma time_cases [case_names definite indefinite unresolved]:
  "(is_definite t \<Longrightarrow> P) \<Longrightarrow> (t = indefinite \<Longrightarrow> P) \<Longrightarrow> (t = unresolved \<Longrightarrow> P) \<Longrightarrow> P"
  by (auto simp: time_kinds)

lemma alift_simps:
  "alift f (At a) (At b) = At (f a b)" "alift f Unresolved y = Unresolved" "alift f x Unresolved = Unresolved"
  "alift f Indefinite (At b) = Indefinite" "alift f (At a) Indefinite = Indefinite"
  "alift f Indefinite Indefinite = Indefinite" "aadd = alift (+)" "asub = alift (-)"
  by (simp_all add: alift_def aadd_def asub_def)

text \<open>A definite time less an indefinite one is indefinite, not minus infinity.\<close>

lemma time_sub_indefinite: "is_definite t \<Longrightarrow> time_sub t indefinite = indefinite"
  by (auto simp: time_sub_def time_kinds)



text \<open>
  Because of the representation chosen for the special values, the comparison
  operators and therefore \<open>std::min\<close> and \<open>std::max\<close> on \<open>smil_time\<close> order every
  definite time before "indefinite" and that before "unresolved", with no side condition.
\<close>

theorem time_order_refines:
  assumes "is_long a" and "is_long b"
  shows "(a \<le> b \<longleftrightarrow> abs_time a \<le> abs_time b)
    \<and> abs_time (min a b) = min (abs_time a) (abs_time b)
    \<and> abs_time (max a b) = max (abs_time a) (abs_time b)"
  using abs_time_le [OF assms] by (simp add: min_def max_def)

theorem time_order_refines_witness:
  "is_long 5 \<and> abs_time (min 5 indefinite) = min (At 5) Indefinite
   \<and> abs_time (max indefinite unresolved) = max Indefinite Unresolved"
proof -
  have l: "is_long 5" "is_definite 5" by (simp_all add: time_kinds time_consts)
  show ?thesis
    using l time_order_refines [of 5 indefinite] time_order_refines [of indefinite unresolved]
    by simp
qed

text \<open>
  \<open>rem\<close> and \<open>mod\<close> decompose a definite time into whole multiples of a positive
  definite period and a remainder shorter than the period, without overflow.
\<close>

theorem time_rem_mod:
  assumes "is_long t" and "is_definite m" and "0 < m" and "is_long m"
  shows "m * time_mod t m + time_rem t m = t \<and> \<bar>time_rem t m\<bar> < m"
proof -
  have le: "\<bar>cdiv t m\<bar> \<le> \<bar>t\<bar>" by (rule abs_cdiv_le)
  have b: "\<bar>crem t m\<bar> < m" using assms(3) by (rule crem_bound)
  have "is_long (cdiv t m)"
  proof (cases "t < 0")
    case True
    then have "cdiv t m \<le> 0"
      using assms(3) by (simp add: cdiv_neg pos_imp_zdiv_nonneg_iff)
    with le assms(1) True show ?thesis by (simp add: c_arith)
  next
    case False
    with le assms(1) show ?thesis by (simp add: c_arith abs_le_iff)
  qed
  moreover have "is_long (m * cdiv t m)"
  proof -
    have eq: "m * cdiv t m = sgn t * (m * (\<bar>t\<bar> div m))"
      using assms(3) by (simp add: cdiv_def)
    have nn: "0 \<le> m * (\<bar>t\<bar> div m)"
      using assms(3) by (simp add: pos_imp_zdiv_nonneg_iff)
    have up: "m * (\<bar>t\<bar> div m) \<le> \<bar>t\<bar>"
      using assms(3) by (simp add: minus_mod_eq_mult_div [symmetric])
    show ?thesis
      using assms(1) eq nn up by (auto simp: c_arith sgn_if split: if_splits)
  qed
  moreover have "is_long (crem t m)"
    using b assms(4) by (auto simp: c_arith)
  ultimately have "time_mod t m = cdiv t m" "time_rem t m = crem t m"
    using assms by (simp_all add: time_mod_def time_rem_def crem_def)
  with b show ?thesis by (simp add: cdiv_crem)
qed

theorem time_rem_mod_witness:
  "2000 * time_mod 7250 2000 + time_rem 7250 2000 = 7250 \<and> \<bar>time_rem 7250 2000\<bar> < 2000"
proof -
  have "is_long 7250" "is_definite 2000" "is_long 2000"
    by (simp_all add: time_kinds time_consts)
  then show ?thesis using time_rem_mod [of 7250 2000] by simp
qed

text \<open>
  Converting milliseconds to seconds and back is the identity on every time value.
\<close>

theorem secs_roundtrip: "is_long t \<Longrightarrow> secs_to_time (time_to_secs t) = t"
proof -
  have "time_to_secs t * 1000 = of_int (1000 * cdiv t 1000 + crem t 1000)"
    by (simp add: time_to_secs_def algebra_simps)
  then have e: "time_to_secs t * 1000 = of_int t" by (simp only: cdiv_crem)
  show "is_long t \<Longrightarrow> secs_to_time (time_to_secs t) = t"
    by (simp only: secs_to_time_def e floor_half to_long_id)
qed

theorem secs_roundtrip_witness: "secs_to_time (time_to_secs 90500) = 90500"
proof -
  have "is_long 90500" by (simp add: c_arith)
  then show ?thesis by (rule secs_roundtrip)
qed

section \<open>Intervals\<close>

record smil_interval =
  ibegin :: stime
  iend :: stime

definition mk_interval :: "stime \<Rightarrow> stime \<Rightarrow> smil_interval" where
  "mk_interval b e = \<lparr>ibegin = b, iend = e\<rparr>"

definition interval_unresolved :: smil_interval where
  "interval_unresolved = mk_interval unresolved unresolved"

definition superinterval :: smil_interval where
  "superinterval = mk_interval 0 unresolved"

definition is_valid :: "smil_interval \<Rightarrow> bool" where
  "is_valid i \<longleftrightarrow> is_definite (ibegin i) \<and> ibegin i \<le> iend i"

definition is_valid_child :: "smil_interval \<Rightarrow> smil_interval \<Rightarrow> bool" where
  "is_valid_child i p \<longleftrightarrow> ibegin i < iend p \<and> ibegin p \<le> iend i"

definition is_zero_dur :: "smil_interval \<Rightarrow> bool" where
  "is_zero_dur i \<longleftrightarrow> is_definite (ibegin i) \<and> ibegin i = iend i"

definition interval_definite :: "smil_interval \<Rightarrow> bool" where
  "interval_definite i \<longleftrightarrow> is_valid i \<and> is_definite (iend i)"

definition interval_translate :: "smil_interval \<Rightarrow> stime \<Rightarrow> smil_interval" where
  "interval_translate i t = \<lparr>ibegin = time_add (ibegin i) t, iend = time_add (iend i) t\<rparr>"

definition translate_to_begin :: "smil_interval \<Rightarrow> smil_interval" where
  "translate_to_begin i = \<lparr>ibegin = 0, iend = time_sub (iend i) (ibegin i)\<rparr>"

definition contains_time :: "smil_interval \<Rightarrow> stime \<Rightarrow> bool" where
  "contains_time i t \<longleftrightarrow> t = ibegin i \<or> (ibegin i < t \<and> t < iend i)"

definition interval_before :: "smil_interval \<Rightarrow> stime \<Rightarrow> bool" where
  "interval_before i t \<longleftrightarrow> iend i < t"

definition interval_after :: "smil_interval \<Rightarrow> stime \<Rightarrow> bool" where
  "interval_after i t \<longleftrightarrow> t < ibegin i"

definition contains_interval :: "smil_interval \<Rightarrow> smil_interval \<Rightarrow> bool" where
  "contains_interval i j \<longleftrightarrow>
     contains_time i (ibegin j) \<and> (contains_time i (iend j) \<or> iend i = iend j)"

definition interval_overlaps :: "smil_interval \<Rightarrow> stime \<Rightarrow> stime \<Rightarrow> bool" where
  "interval_overlaps i b e \<longleftrightarrow> b \<le> iend i \<and> ibegin i \<le> e"

definition interval_eq :: "smil_interval \<Rightarrow> smil_interval \<Rightarrow> bool" where
  "interval_eq i j \<longleftrightarrow> ibegin i = ibegin j \<and> iend i = iend j"

definition interval_lt :: "smil_interval \<Rightarrow> smil_interval \<Rightarrow> bool" where
  "interval_lt i j \<longleftrightarrow> ibegin i \<le> ibegin j \<and> iend i < iend j"

definition interval_gt :: "smil_interval \<Rightarrow> smil_interval \<Rightarrow> bool" where
  "interval_gt i j \<longleftrightarrow> interval_lt j i"

definition interval_le :: "smil_interval \<Rightarrow> smil_interval \<Rightarrow> bool" where
  "interval_le i j \<longleftrightarrow> \<not> interval_lt j i"

definition interval_ge :: "smil_interval \<Rightarrow> smil_interval \<Rightarrow> bool" where
  "interval_ge i j \<longleftrightarrow> \<not> interval_lt i j"

definition repr_interval :: "smil_interval \<Rightarrow> string option" where
  "repr_interval i =
     (case (repr_time (ibegin i), repr_time (iend i)) of
        (Some b, Some e) \<Rightarrow>
          (if length b + length e + 5 \<le> 64 then Some (''['' @ b @ '', '' @ e @ '']'') else None)
      | _ \<Rightarrow> None)"

lemmas interval_defs = is_valid_def is_valid_child_def is_zero_dur_def interval_definite_def
  interval_translate_def translate_to_begin_def contains_time_def interval_before_def
  interval_after_def contains_interval_def interval_overlaps_def interval_eq_def mk_interval_def
  interval_unresolved_def

lemma mk_interval_simps [simp]: "ibegin (mk_interval b e) = b" "iend (mk_interval b e) = e"
  by (simp_all add: mk_interval_def)

lemma interval_unresolved_invalid [simp]: "\<not> is_valid interval_unresolved"
  by (simp add: is_valid_def interval_unresolved_def time_kinds)

lemma repr_time_length: "repr_time t = Some s \<Longrightarrow> length s \<le> 15"
  by (auto simp: repr_time_def split: if_splits)

text \<open>
  A valid interval classifies every instant as before it, inside it, or past it; the end
  itself belongs to the interval only when the duration is zero, so that abutting intervals
  share no instant.
\<close>

theorem interval_classification:
  assumes "is_valid i"
  shows "(contains_time i t \<or> interval_after i t \<or> interval_before i t \<or> t = iend i)
    \<and> \<not> (contains_time i t \<and> (interval_after i t \<or> interval_before i t))
    \<and> \<not> (interval_after i t \<and> interval_before i t)
    \<and> (contains_time i (iend i) \<longleftrightarrow> is_zero_dur i)
    \<and> (ibegin j = iend i \<and> \<not> is_zero_dur i \<and> is_valid j \<longrightarrow>
         \<not> (contains_time i t \<and> contains_time j t))"
  using assms by (auto simp: interval_defs)

theorem interval_classification_witness:
  "contains_time (mk_interval 0 5) 0 \<and> \<not> contains_time (mk_interval 0 5) 5
   \<and> \<not> (contains_time (mk_interval 0 5) 5 \<and> contains_time (mk_interval 5 9) 5)"
proof -
  have v: "is_valid (mk_interval 0 5)" "is_valid (mk_interval 5 9)"
    by (simp_all add: interval_defs time_kinds time_consts)
  show ?thesis
    using v interval_classification [of "mk_interval 0 5" 5 "mk_interval 5 9"]
    by (auto simp: interval_defs)
qed

text \<open>
  The conversion of an interval to its own begin keeps validity, the zero-duration
  property and the instants it contains, for definite intervals whose length is a definite
  time.
\<close>

theorem translate_to_begin_contains:
  assumes "interval_definite i" and "in_range (iend i - ibegin i)"
  shows "interval_definite (translate_to_begin i)
    \<and> (is_zero_dur (translate_to_begin i) \<longleftrightarrow> is_zero_dur i)
    \<and> (contains_time (translate_to_begin i) (t - ibegin i) \<longleftrightarrow> contains_time i t)"
proof -
  have e: "time_sub (iend i) (ibegin i) = iend i - ibegin i"
    using assms by (intro time_sub_definite) (auto simp: interval_defs dest: in_rangeD)
  have z: "is_definite 0" by (simp add: time_kinds time_consts)
  show ?thesis
    using assms in_rangeD [OF assms(2)] z by (auto simp: interval_defs e)
qed

theorem translate_to_begin_contains_witness:
  "interval_definite (translate_to_begin (mk_interval 3 8))
   \<and> contains_time (translate_to_begin (mk_interval 3 8)) (7 - 3)"
proof -
  have "interval_definite (mk_interval 3 8)" "in_range (iend (mk_interval 3 8) - ibegin (mk_interval 3 8))"
    by (simp_all add: interval_defs in_range_def time_kinds time_consts)
  then show ?thesis
    using translate_to_begin_contains [of "mk_interval 3 8" 7] by (simp add: interval_defs)
qed

text \<open>
  \<open>repr\<close> of a definite time needs more than the 16 bytes of its buffer for every time of
  at least 10^15 milliseconds and stays inside the buffer for every time between 0 and
  10^15; the 64 byte buffer of the interval version is large enough whenever both bounds fit.
\<close>

theorem repr_time_buffer:
  "(10 ^ 15 \<le> t \<and> is_definite t \<longrightarrow> repr_time t = None)
   \<and> (0 \<le> t \<and> t < 10 ^ 15 \<longrightarrow> repr_time t = Some (show_int t))
   \<and> (repr_time (ibegin i) \<noteq> None \<and> repr_time (iend i) \<noteq> None \<longrightarrow> repr_interval i \<noteq> None)"
proof (intro conjI impI)
  assume a: "10 ^ 15 \<le> t \<and> is_definite t"
  then have "10 ^ 15 \<le> nat t" by (simp add: nat_le_eq_zle le_nat_iff)
  then have "Suc 15 \<le> length (show_nat (nat t))" by (rule length_show_nat_ge)
  with a show "repr_time t = None"
    by (auto simp: repr_time_def show_int_def minus_infinity_def c_arith)
next
  assume a: "0 \<le> t \<and> t < 10 ^ 15"
  then have "nat t < 10 ^ 15" by (simp add: nat_less_iff)
  then have "length (show_nat (nat t)) \<le> 15" by (intro length_show_nat_le) simp_all
  with a show "repr_time t = Some (show_int t)"
    by (auto simp: repr_time_def show_int_def time_kinds time_consts)
next
  assume "repr_time (ibegin i) \<noteq> None \<and> repr_time (iend i) \<noteq> None"
  then obtain b e where be: "repr_time (ibegin i) = Some b" "repr_time (iend i) = Some e"
    by auto
  with repr_time_length show "repr_interval i \<noteq> None"
    by (auto simp: repr_interval_def dest!: repr_time_length)
qed

theorem repr_time_buffer_witness:
  "repr_time (10 ^ 15) = None \<and> repr_time 0 \<noteq> None \<and> repr_interval superinterval \<noteq> None"
proof -
  have "is_definite (10 ^ 15)" by (simp add: time_kinds time_consts)
  moreover have "repr_time (iend superinterval) \<noteq> None"
    by (simp add: superinterval_def repr_time_def time_kinds time_consts)
  ultimately show ?thesis
    using repr_time_buffer [of "10 ^ 15" superinterval] repr_time_buffer [of 0 superinterval]
    by (auto simp: superinterval_def)
qed

end
