(* ===== verification/String_Util.thy ===== *)
theory String_Util
  imports Prelude
begin

text \<open>
  The string helpers of include/ambulant/lib/string_util.h and
  src/libambulant/lib/string_util.cpp: trimming, quoting, prefix and suffix tests, the
  delimiter splitter \<open>tokens_vector\<close>, \<open>split_trim_list\<close> and the scanner. Strings are
  \<open>std::string\<close>s without embedded NUL (their sources are C strings); character
  classification is that of the C locale.
\<close>

section \<open>Character classes and trimming\<close>

definition space_chars :: string where
  "space_chars = [CHR '' '', CHR 0x09, CHR 0x0D, CHR 0x0A]"

definition dec_digits :: string where
  "dec_digits = ''0123456789''"

definition is_cspace :: "char \<Rightarrow> bool" where
  "is_cspace c \<longleftrightarrow> c \<in> {CHR '' '', CHR 0x09, CHR 0x0A, CHR 0x0B, CHR 0x0C, CHR 0x0D}"

definition is_ascii :: "char \<Rightarrow> bool" where
  "is_ascii c \<longleftrightarrow> (of_char c :: nat) < 128"

definition trim_cstr :: "string \<Rightarrow> string" where
  "trim_cstr s =
     (let b = dropWhile is_cspace s
      in if b = [] then [] else rev (dropWhile is_cspace (rev b)))"

definition trim_set :: "string \<Rightarrow> string \<Rightarrow> string" where
  "trim_set s w =
     (if s = [] then s
      else if list_all (\<lambda>c. c \<in> set w) s then []
      else rev (dropWhile (\<lambda>c. c \<in> set w) (rev (dropWhile (\<lambda>c. c \<in> set w) s))))"

definition trim :: "string \<Rightarrow> string" where
  "trim s = trim_set s space_chars"

fun xml_quote :: "string \<Rightarrow> string" where
  "xml_quote [] = []"
| "xml_quote (c # cs) =
     (if c = CHR ''<'' then ''&lt;''
      else if c = CHR ''>'' then ''&gt;''
      else if c = CHR ''&'' then ''&amp;''
      else [c]) @ xml_quote cs"

fun starts_with_loop :: "string \<Rightarrow> string \<Rightarrow> bool" where
  "starts_with_loop _ [] = True"
| "starts_with_loop [] (p # ps) = False"
| "starts_with_loop (c # s) (p # ps) = (if p \<noteq> c then False else starts_with_loop s ps)"

definition starts_with_at :: "string \<Rightarrow> nat \<Rightarrow> string \<Rightarrow> bool" where
  "starts_with_at s off p = starts_with_loop (drop off s) p"

definition starts_with :: "string \<Rightarrow> string \<Rightarrow> bool" where
  "starts_with s p = starts_with_at s 0 p"

text \<open>
  \<open>ends_with\<close> walks both strings backwards and never tests the index into \<open>s\<close>: when
  \<open>s\<close> is used up first it reads before its first character, the value \<open>None\<close>.
\<close>

fun ends_with_loop :: "string \<Rightarrow> string \<Rightarrow> bool option" where
  "ends_with_loop _ [] = Some True"
| "ends_with_loop [] (p # ps) = None"
| "ends_with_loop (c # s) (p # ps) = (if p \<noteq> c then Some False else ends_with_loop s ps)"

definition ends_with :: "string \<Rightarrow> string \<Rightarrow> bool option" where
  "ends_with s p = ends_with_loop (rev s) (rev p)"

definition to_lower :: "char \<Rightarrow> char" where
  "to_lower c =
     (if 65 \<le> (of_char c :: nat) \<and> (of_char c :: nat) \<le> 90 then char_of ((of_char c :: nat) + 32) else c)"

definition to_c_lower :: "string \<Rightarrow> string" where
  "to_c_lower s = map to_lower s"

section \<open>Splitting\<close>

function tokens_vector :: "string \<Rightarrow> string \<Rightarrow> string list" where
  "tokens_vector s delims =
     (case dropWhile (\<lambda>c. c \<notin> set delims) s of
        [] \<Rightarrow> [s]
      | c # rest \<Rightarrow> takeWhile (\<lambda>c. c \<notin> set delims) s # tokens_vector rest delims)"
  by pat_completeness auto
termination
  by (relation "measure (\<lambda>(s, _). length s)")
    (auto, metis length_dropWhile_le length_Cons Suc_le_lessD)

declare tokens_vector.simps [simp del]

definition tokens_join :: "string list \<Rightarrow> nat \<Rightarrow> char \<Rightarrow> string" where
  "tokens_join ts i sep =
     (if i < length ts then ts ! i @ concat (map (\<lambda>t. sep # t) (drop (Suc i) ts)) else [])"

function split_trim_list :: "string \<Rightarrow> char \<Rightarrow> string list" where
  "split_trim_list s ch =
     (case dropWhile (\<lambda>c. c \<noteq> ch) s of
        [] \<Rightarrow> (let entry = trim s in if entry \<noteq> [] then [entry] else [])
      | c # rest \<Rightarrow>
          (let entry = trim (takeWhile (\<lambda>c. c \<noteq> ch) s)
           in if entry \<noteq> [] then entry # split_trim_list rest ch else split_trim_list rest ch))"
  by pat_completeness auto
termination
  by (relation "measure (\<lambda>(s, _). length s)")
    (auto, (metis length_dropWhile_le length_Cons Suc_le_lessD)+)

declare split_trim_list.simps [simp del]

section \<open>The scanner\<close>

record scanner =
  sc_src :: string
  sc_delims :: string
  sc_pos :: nat
  sc_tok :: char
  sc_tokval :: string
  sc_toks :: string
  sc_vals :: "string list"

definition tok_EOS :: char where "tok_EOS = CHR 0x00"
definition tok_NUMBER :: char where "tok_NUMBER = CHR ''d''"
definition tok_NAME :: char where "tok_NAME = CHR ''n''"
definition tok_SPACE :: char where "tok_SPACE = CHR ''w''"

definition mk_scanner :: "string \<Rightarrow> string \<Rightarrow> scanner" where
  "mk_scanner s d = \<lparr>sc_src = s, sc_delims = d, sc_pos = 0, sc_tok = tok_EOS, sc_tokval = [],
     sc_toks = [], sc_vals = []\<rparr>"

text \<open>The first index from \<open>pos\<close> on whose character satisfies \<open>P\<close>; \<open>None\<close> is \<open>npos\<close>.\<close>

definition find_from :: "(char \<Rightarrow> bool) \<Rightarrow> string \<Rightarrow> nat \<Rightarrow> nat option" where
  "find_from P s pos =
     (case dropWhile (\<lambda>c. \<not> P c) (drop pos s) of
        [] \<Rightarrow> None
      | r \<Rightarrow> Some (length s - length r))"

definition scan_until :: "(char \<Rightarrow> bool) \<Rightarrow> char \<Rightarrow> scanner \<Rightarrow> scanner" where
  "scan_until P t sc =
     (case find_from P (sc_src sc) (sc_pos sc) of
        Some ni \<Rightarrow> sc\<lparr>sc_tok := t,
          sc_tokval := take (ni - sc_pos sc) (drop (sc_pos sc) (sc_src sc)), sc_pos := ni\<rparr>
      | None \<Rightarrow> sc\<lparr>sc_tok := t, sc_tokval := drop (sc_pos sc) (sc_src sc),
          sc_pos := length (sc_src sc)\<rparr>)"

definition scan_set_as :: "string \<Rightarrow> char \<Rightarrow> scanner \<Rightarrow> scanner" where
  "scan_set_as s t sc = scan_until (\<lambda>c. c \<notin> set s) t sc"

definition scan_not_in_set_as :: "string \<Rightarrow> char \<Rightarrow> scanner \<Rightarrow> scanner" where
  "scan_not_in_set_as s t sc = scan_until (\<lambda>c. c \<in> set s) t sc"

definition scan_token :: "char \<Rightarrow> scanner \<Rightarrow> scanner" where
  "scan_token c sc =
     (if c \<in> set (sc_delims sc)
      then sc\<lparr>sc_tok := c, sc_tokval := [c], sc_pos := Suc (sc_pos sc)\<rparr>
      else if is_ascii c \<and> is_digit c then scan_set_as dec_digits tok_NUMBER sc
      else if is_ascii c \<and> is_cspace c then scan_set_as space_chars tok_SPACE sc
      else scan_not_in_set_as (sc_delims sc @ space_chars) tok_NAME sc)"

definition scanner_next :: "scanner \<Rightarrow> scanner" where
  "scanner_next sc =
     (let sc = sc\<lparr>sc_tok := tok_EOS, sc_tokval := []\<rparr>
      in if sc_pos sc = length (sc_src sc) then sc
         else let sc = scan_token (sc_src sc ! sc_pos sc) sc
              in sc\<lparr>sc_toks := sc_toks sc @ [sc_tok sc], sc_vals := sc_vals sc @ [sc_tokval sc]\<rparr>)"

definition scanner_reset :: "scanner \<Rightarrow> scanner" where
  "scanner_reset sc = sc\<lparr>sc_pos := 0, sc_tok := tok_EOS, sc_toks := [], sc_vals := []\<rparr>"

partial_function (option) scan_loop :: "scanner \<Rightarrow> scanner option" where
  "scan_loop sc =
     (let sc' = scanner_next sc in if sc_tok sc' = tok_EOS then Some sc' else scan_loop sc')"

declare scan_loop.simps [code]

definition tokenize :: "scanner \<Rightarrow> scanner option" where
  "tokenize sc = scan_loop (if 0 < sc_pos sc then scanner_reset sc else sc)"

definition skip_set :: "string \<Rightarrow> scanner \<Rightarrow> scanner" where
  "skip_set s sc =
     (case find_from (\<lambda>c. c \<notin> set s) (sc_src sc) (sc_pos sc) of
        Some ni \<Rightarrow> sc\<lparr>sc_pos := ni\<rparr>
      | None \<Rightarrow> sc\<lparr>sc_pos := length (sc_src sc)\<rparr>)"

definition skip_space :: "scanner \<Rightarrow> scanner" where
  "skip_space sc = skip_set space_chars sc"

definition val_at :: "scanner \<Rightarrow> nat \<Rightarrow> string" where
  "val_at sc i = (if i < length (sc_vals sc) then sc_vals sc ! i else [])"

definition scanner_join :: "scanner \<Rightarrow> nat \<Rightarrow> nat \<Rightarrow> string" where
  "scanner_join sc b e = concat (take (e - b) (drop b (sc_vals sc)))"

definition scanner_join_from :: "scanner \<Rightarrow> nat \<Rightarrow> string" where
  "scanner_join_from sc b = scanner_join sc b (length (sc_vals sc))"

section \<open>Trimming, quoting and suffix tests\<close>

definition strip :: "(char \<Rightarrow> bool) \<Rightarrow> string \<Rightarrow> string" where
  "strip P s = rev (dropWhile P (rev (dropWhile P s)))"

lemma dropWhile_split: "\<exists>a. s = a @ dropWhile P s \<and> list_all P a"
proof (intro exI conjI)
  show "s = takeWhile P s @ dropWhile P s" by simp
  show "list_all P (takeWhile P s)" by (auto simp: list_all_iff dest: set_takeWhileD)
qed

lemma strip_split: "\<exists>a b. s = a @ strip P s @ b \<and> list_all P a \<and> list_all P b"
proof -
  obtain a where a: "s = a @ dropWhile P s" "list_all P a" using dropWhile_split by blast
  obtain b where b: "rev (dropWhile P s) = b @ dropWhile P (rev (dropWhile P s))" "list_all P b"
    using dropWhile_split by blast
  from b(1) have "dropWhile P s = strip P s @ rev b"
    unfolding strip_def by (metis rev_append rev_rev_ident)
  with a b show ?thesis by (metis list_all_rev append.assoc)
qed

lemma strip_last: "strip P s \<noteq> [] \<Longrightarrow> \<not> P (last (strip P s))"
  by (simp add: strip_def last_rev hd_dropWhile)

lemma strip_hd: "strip P s \<noteq> [] \<Longrightarrow> \<not> P (hd (strip P s))"
proof -
  assume ne: "strip P s \<noteq> []"
  then have d: "dropWhile P s \<noteq> []"
    unfolding strip_def by (metis dropWhile.simps(1) rev.simps(1))
  obtain b where b: "rev (dropWhile P s) = b @ dropWhile P (rev (dropWhile P s))"
    using dropWhile_split by blast
  then have "dropWhile P s = strip P s @ rev b"
    unfolding strip_def by (metis rev_append rev_rev_ident)
  with ne have "hd (strip P s) = hd (dropWhile P s)" by (metis hd_append2)
  with d show ?thesis by (simp add: hd_dropWhile)
qed

lemma strip_Nil_iff: "strip P s = [] \<longleftrightarrow> list_all P s"
proof -
  have "strip P s = [] \<longleftrightarrow> list_all P (dropWhile P s)"
    by (auto simp: strip_def list_all_iff dest: set_dropWhileD)
  also have "\<dots> \<longleftrightarrow> list_all P s"
    by (metis dropWhile_split list_all_append)
  finally show ?thesis .
qed

lemma trim_cstr_strip: "trim_cstr s = strip is_cspace s"
proof -
  have "(if b = [] then [] else rev (dropWhile is_cspace (rev b))) = rev (dropWhile is_cspace (rev b))"
    for b by simp
  then show ?thesis by (simp only: trim_cstr_def strip_def Let_def)
qed

lemma trim_strip: "trim s = strip (\<lambda>c. c \<in> set space_chars) s"
  using strip_Nil_iff [of "\<lambda>c. c \<in> set space_chars" s]
  by (auto simp: trim_def trim_set_def strip_def)

text \<open>
  Both \<open>trim\<close> functions cut a (possibly empty) run of white space from each end and
  nothing else, and the result neither begins nor ends with white space: the C string version
  for the classes of \<open>isspace\<close>, the \<open>std::string\<close> version for blank, tab, CR and LF only.
\<close>

theorem trim_correct:
  "(\<exists>a b. s = a @ trim_cstr s @ b \<and> list_all is_cspace a \<and> list_all is_cspace b)
   \<and> (trim_cstr s = [] \<or> \<not> is_cspace (hd (trim_cstr s)) \<and> \<not> is_cspace (last (trim_cstr s)))
   \<and> (\<exists>a b. s = a @ trim s @ b \<and> set a \<union> set b \<subseteq> set space_chars)
   \<and> (trim s = [] \<or> hd (trim s) \<notin> set space_chars \<and> last (trim s) \<notin> set space_chars)"
proof (intro conjI)
  show "\<exists>a b. s = a @ trim_cstr s @ b \<and> list_all is_cspace a \<and> list_all is_cspace b"
    unfolding trim_cstr_strip by (rule strip_split)
  show "trim_cstr s = [] \<or> \<not> is_cspace (hd (trim_cstr s)) \<and> \<not> is_cspace (last (trim_cstr s))"
    unfolding trim_cstr_strip using strip_hd strip_last by blast
  show "\<exists>a b. s = a @ trim s @ b \<and> set a \<union> set b \<subseteq> set space_chars"
    unfolding trim_strip using strip_split [of s "\<lambda>c. c \<in> set space_chars"]
    by (auto simp: list_all_iff)
  show "trim s = [] \<or> hd (trim s) \<notin> set space_chars \<and> last (trim s) \<notin> set space_chars"
    unfolding trim_strip using strip_hd strip_last by blast
qed

lemma starts_with_loop_iff: "starts_with_loop s p \<longleftrightarrow> (\<exists>r. s = p @ r)"
  by (induction s p rule: starts_with_loop.induct) auto

lemma starts_with_iff: "starts_with s p \<longleftrightarrow> (\<exists>r. s = p @ r)"
  by (simp add: starts_with_def starts_with_at_def starts_with_loop_iff)

lemma ends_with_loop_iff:
  "length p \<le> length s \<Longrightarrow> ends_with_loop s p = Some (\<exists>r. s = p @ r)"
  by (induction s p rule: ends_with_loop.induct) auto

lemma ends_with_loop_None: "ends_with_loop s p = None \<longleftrightarrow> (\<exists>c r. p = s @ c # r)"
  by (induction s p rule: ends_with_loop.induct) auto

lemma ends_with_iff:
  assumes "length p \<le> length s"
  shows "ends_with s p = Some (\<exists>r. s = r @ p)"
proof -
  have "(\<exists>r. rev s = rev p @ r) \<longleftrightarrow> (\<exists>r. s = r @ p)"
    by (metis rev_append rev_rev_ident)
  with assms show ?thesis by (simp add: ends_with_def ends_with_loop_iff)
qed

text \<open>
  \<open>starts_with\<close> and \<open>ends_with\<close> decide the prefix and the suffix relation;
  \<open>ends_with\<close> reads outside its first argument exactly when that argument is a proper
  suffix of the second.
\<close>

theorem prefix_suffix_tests:
  "(starts_with s p \<longleftrightarrow> (\<exists>r. s = p @ r))
   \<and> (ends_with s p = None \<longleftrightarrow> (\<exists>r c. p = r @ c # s))
   \<and> (ends_with s p = Some True \<longleftrightarrow> (\<exists>r. s = r @ p))"
proof (intro conjI)
  show "starts_with s p \<longleftrightarrow> (\<exists>r. s = p @ r)" by (rule starts_with_iff)
  have "(\<exists>c r. rev p = rev s @ c # r) \<longleftrightarrow> (\<exists>r c. p = r @ c # s)"
    by (metis append.assoc append_Cons append_Nil rev.simps(2) rev_append rev_rev_ident)
  then show "ends_with s p = None \<longleftrightarrow> (\<exists>r c. p = r @ c # s)"
    by (simp add: ends_with_def ends_with_loop_None)
  show "ends_with s p = Some True \<longleftrightarrow> (\<exists>r. s = r @ p)"
  proof (cases "length p \<le> length s")
    case True
    then show ?thesis by (simp add: ends_with_iff)
  next
    case False
    have "ends_with_loop a b = Some True \<Longrightarrow> length b \<le> length a" for a b
      by (induction a b rule: ends_with_loop.induct) (auto split: if_splits)
    with False have "ends_with s p \<noteq> Some True" by (fastforce simp: ends_with_def)
    moreover from False have "\<not> (\<exists>r. s = r @ p)" by auto
    ultimately show ?thesis by simp
  qed
qed

fun xml_unquote :: "string \<Rightarrow> string" where
  "xml_unquote [] = []"
| "xml_unquote (c # cs) =
     (if c = CHR ''&''
      then (if take 3 cs = ''lt;'' then CHR ''<'' # xml_unquote (drop 3 cs)
            else if take 3 cs = ''gt;'' then CHR ''>'' # xml_unquote (drop 3 cs)
            else if take 4 cs = ''amp;'' then CHR ''&'' # xml_unquote (drop 4 cs)
            else c # xml_unquote cs)
      else c # xml_unquote cs)"

text \<open>
  Quoting is lossless and the quoted text holds no markup character: every \<open><\<close> and
  \<open>>\<close> is gone, and resolving the three entities gives the original text back.
\<close>

theorem xml_quote_roundtrip:
  "xml_unquote (xml_quote s) = s \<and> CHR ''<'' \<notin> set (xml_quote s) \<and> CHR ''>'' \<notin> set (xml_quote s)"
  by (induction s) auto

section \<open>Splitting: properties\<close>

lemma tokens_vector_Nil: "dropWhile (\<lambda>c. c \<notin> set d) s = [] \<Longrightarrow> tokens_vector s d = [s]"
  by (simp only: tokens_vector.simps [of s d] list.case)

lemma tokens_vector_Cons:
  "dropWhile (\<lambda>c. c \<notin> set d) s = c # r \<Longrightarrow>
   tokens_vector s d = takeWhile (\<lambda>c. c \<notin> set d) s # tokens_vector r d"
  by (simp only: tokens_vector.simps [of s d] list.case)

lemma tokens_vector_nonempty [simp]: "tokens_vector s d \<noteq> []"
  by (subst tokens_vector.simps) (auto split: list.split)

lemma tokens_join_0: "ts \<noteq> [] \<Longrightarrow> tokens_join ts 0 sep = hd ts @ concat (map (\<lambda>t. sep # t) (tl ts))"
  by (cases ts) (auto simp: tokens_join_def)

lemma tokens_vector_no_delims: "t \<in> set (tokens_vector s d) \<Longrightarrow> set t \<inter> set d = {}"
proof (induction s d rule: tokens_vector.induct)
  case (1 s d)
  show ?case
  proof (cases "dropWhile (\<lambda>c. c \<notin> set d) s")
    case Nil
    with 1 show ?thesis by (auto simp: tokens_vector_Nil)
  next
    case (Cons c r)
    with 1 show ?thesis
      by (auto simp: tokens_vector_Cons [OF Cons] dest: set_takeWhileD)
  qed
qed

lemma hd_dropWhile_Cons: "dropWhile P s = c # r \<Longrightarrow> \<not> P c \<and> s = takeWhile P s @ c # r"
  by (metis hd_dropWhile list.distinct(1) list.sel(1) takeWhile_dropWhile_id)

text \<open>
  Splitting at a single delimiter and joining with it is the identity on every string, and
  no token contains a delimiter, whatever the delimiter set.
\<close>

theorem tokens_vector_join:
  "tokens_join (tokens_vector s [sep]) 0 sep = s
   \<and> (\<forall>t \<in> set (tokens_vector s d). set t \<inter> set d = {})"
proof
  show "tokens_join (tokens_vector s [sep]) 0 sep = s"
  proof (induction s "[sep]" rule: tokens_vector.induct)
    case (1 s)
    show ?case
    proof (cases "dropWhile (\<lambda>c. c \<notin> set [sep]) s")
      case Nil
      then show ?thesis by (simp add: tokens_vector_Nil tokens_join_def)
    next
      case (Cons c r)
      from 1 [OF Cons] have "hd (tokens_vector r [sep]) @
          concat (map (\<lambda>t. sep # t) (tl (tokens_vector r [sep]))) = r"
        by (simp add: tokens_join_0)
      then have conc: "concat (map (\<lambda>t. sep # t) (tokens_vector r [sep])) = sep # r"
        by (cases "tokens_vector r [sep]") auto
      have c: "c = sep" using hd_dropWhile_Cons [OF Cons] by simp
      have "tokens_join (tokens_vector s [sep]) 0 sep = takeWhile (\<lambda>c. c \<notin> set [sep]) s @ c # r"
        by (subst tokens_vector_Cons [OF Cons], subst tokens_join_0) (simp_all add: conc c)
      also have "\<dots> = s" by (rule hd_dropWhile_Cons [OF Cons, THEN conjunct2, symmetric])
      finally show ?thesis .
    qed
  qed
  show "\<forall>t \<in> set (tokens_vector s d). set t \<inter> set d = {}"
    using tokens_vector_no_delims by blast
qed

theorem tokens_vector_join_witness:
  "tokens_vector ''a;b'' '';,'' = [''a'', ''b''] \<and> set ''b'' \<inter> set '';,'' = {}"
proof
  show s: "tokens_vector ''a;b'' '';,'' = [''a'', ''b'']" by code_simp
  show "set ''b'' \<inter> set '';,'' = {}"
    using tokens_vector_join [of "''a;b''" "CHR '';''" "'';,''"] unfolding s by simp
qed

lemma split_trim_list_tokens:
  "split_trim_list s ch = filter (\<lambda>e. e \<noteq> []) (map trim (tokens_vector s [ch]))"
proof (induction s ch rule: split_trim_list.induct)
  case (1 s ch)
  have P: "(\<lambda>c. c \<notin> set [ch]) = (\<lambda>c. c \<noteq> ch)" by auto
  show ?case
  proof (cases "dropWhile (\<lambda>c. c \<noteq> ch) s")
    case Nil
    have e: "dropWhile (\<lambda>c. c \<notin> set [ch]) s = []" using Nil by (simp only: P)
    show ?thesis
      by (simp only: split_trim_list.simps [of s ch] Nil list.case tokens_vector_Nil [OF e])
        (simp add: Let_def)
  next
    case (Cons c r)
    have e: "dropWhile (\<lambda>c. c \<notin> set [ch]) s = c # r" using Cons by (simp only: P)
    have t: "tokens_vector s [ch] = takeWhile (\<lambda>c. c \<noteq> ch) s # tokens_vector r [ch]"
      using tokens_vector_Cons [OF e] by (simp only: P)
    have "split_trim_list r ch = filter (\<lambda>e. e \<noteq> []) (map trim (tokens_vector r [ch]))"
      using 1 [OF Cons refl] by (cases "trim (takeWhile (\<lambda>c. c \<noteq> ch) s) = []") auto
    with t show ?thesis
      by (simp add: split_trim_list.simps [of s ch] Cons Let_def)
  qed
qed

lemma set_trim: "set (trim s) \<subseteq> set s"
  unfolding trim_strip strip_def by (metis set_dropWhileD set_rev subsetI)

text \<open>
  \<open>split_trim_list\<close> yields exactly the non-empty trimmed tokens in order: every entry is
  non-empty, free of the separator, and neither begins nor ends with white space.
\<close>

theorem split_trim_list_correct:
  "split_trim_list s ch = filter (\<lambda>e. e \<noteq> []) (map trim (tokens_vector s [ch]))
   \<and> (\<forall>e \<in> set (split_trim_list s ch). e \<noteq> [] \<and> ch \<notin> set e
        \<and> hd e \<notin> set space_chars \<and> last e \<notin> set space_chars)"
proof (intro conjI ballI)
  show "split_trim_list s ch = filter (\<lambda>e. e \<noteq> []) (map trim (tokens_vector s [ch]))"
    by (rule split_trim_list_tokens)
  fix e assume "e \<in> set (split_trim_list s ch)"
  then obtain t where t: "t \<in> set (tokens_vector s [ch])" "e = trim t" "e \<noteq> []"
    by (auto simp: split_trim_list_tokens)
  show "e \<noteq> []" by (rule t(3))
  have "set t \<inter> set [ch] = {}"
    using t(1) by (rule tokens_vector_no_delims)
  with t(2) set_trim show "ch \<notin> set e" by fastforce
  show "hd e \<notin> set space_chars" "last e \<notin> set space_chars"
    using t strip_hd strip_last unfolding trim_strip by blast+
qed

theorem split_trim_list_correct_witness:
  "split_trim_list '' a; ;b '' (CHR '';'') = [''a'', ''b''] \<and> hd ''b'' \<notin> set space_chars"
proof
  show s: "split_trim_list '' a; ;b '' (CHR '';'') = [''a'', ''b'']" by code_simp
  show "hd ''b'' \<notin> set space_chars"
    using split_trim_list_correct [of "'' a; ;b ''" "CHR '';''"] unfolding s by simp
qed

section \<open>The scanner: properties\<close>

lemma scan_until_eq:
  assumes "sc_pos sc \<le> length (sc_src sc)"
  shows "scan_until P t sc =
    (let v = takeWhile (\<lambda>c. \<not> P c) (drop (sc_pos sc) (sc_src sc))
     in sc\<lparr>sc_tok := t, sc_tokval := v, sc_pos := sc_pos sc + length v\<rparr>)"
proof -
  let ?d = "drop (sc_pos sc) (sc_src sc)"
  let ?v = "takeWhile (\<lambda>c. \<not> P c) ?d"
  have split: "?d = ?v @ dropWhile (\<lambda>c. \<not> P c) ?d" by simp
  show ?thesis
  proof (cases "dropWhile (\<lambda>c. \<not> P c) ?d")
    case Nil
    have f: "find_from P (sc_src sc) (sc_pos sc) = None"
      by (simp only: find_from_def Nil list.case)
    have v: "?v = ?d" using split Nil by (metis append_Nil2)
    show ?thesis using assms by (simp add: scan_until_def f v Let_def)
  next
    case (Cons c r)
    have f: "find_from P (sc_src sc) (sc_pos sc) = Some (length (sc_src sc) - length (c # r))"
      by (simp only: find_from_def Cons list.case)
    have "length ?d = length ?v + length (c # r)"
      using split Cons by (metis length_append)
    then have n: "length (sc_src sc) - length (c # r) = sc_pos sc + length ?v"
      using assms by simp
    have "take (length ?v) ?d = ?v" by (rule takeWhile_eq_take [symmetric])
    with f n show ?thesis by (simp add: scan_until_def Let_def)
  qed
qed

definition scan_inv :: "scanner \<Rightarrow> bool" where
  "scan_inv sc \<longleftrightarrow> sc_pos sc \<le> length (sc_src sc) \<and> concat (sc_vals sc) = take (sc_pos sc) (sc_src sc)"

text \<open>
  The white space characters that \<open>isspace\<close> accepts and \<open>space_chars\<close> lacks: vertical
  tab and form feed.
\<close>

definition stuck_char :: "string \<Rightarrow> char \<Rightarrow> bool" where
  "stuck_char delims c \<longleftrightarrow> c \<in> {CHR 0x0B, CHR 0x0C} \<and> c \<notin> set delims"

lemma cspace_cases: "is_cspace c \<Longrightarrow> c \<in> set space_chars \<or> c \<in> {CHR 0x0B, CHR 0x0C}"
  by (auto simp: is_cspace_def space_chars_def)

lemma is_digit_dec_digits: "is_digit c \<Longrightarrow> c \<in> set dec_digits"
proof -
  assume "is_digit c"
  then have "48 \<le> (of_char c :: nat) \<and> (of_char c :: nat) \<le> 57" by (simp add: is_digit_def)
  then have d: "of_char c = (48::nat) \<or> of_char c = (49::nat) \<or> of_char c = (50::nat)
      \<or> of_char c = (51::nat) \<or> of_char c = (52::nat) \<or> of_char c = (53::nat)
      \<or> of_char c = (54::nat) \<or> of_char c = (55::nat) \<or> of_char c = (56::nat)
      \<or> of_char c = (57::nat)" by presburger
  have c: "c = char_of (of_char c :: nat)" by simp
  from d show ?thesis
    by (elim disjE; subst c; simp add: dec_digits_def char_of_def bit_0)
qed

lemma scan_token_progress:
  assumes pos: "sc_pos sc < length (sc_src sc)" and c: "c = sc_src sc ! sc_pos sc"
    and nul: "CHR 0x00 \<notin> set (sc_delims sc)" and st: "\<not> stuck_char (sc_delims sc) c"
  shows "\<exists>t v. scan_token c sc = sc\<lparr>sc_tok := t, sc_tokval := v, sc_pos := sc_pos sc + length v\<rparr>
    \<and> t \<noteq> tok_EOS \<and> v \<noteq> [] \<and> (\<exists>r. drop (sc_pos sc) (sc_src sc) = v @ r)"
proof -
  have d: "drop (sc_pos sc) (sc_src sc) = c # drop (Suc (sc_pos sc)) (sc_src sc)"
    using pos c by (simp add: Cons_nth_drop_Suc)
  have until: "\<exists>v. scan_until P t sc = sc\<lparr>sc_tok := t, sc_tokval := v, sc_pos := sc_pos sc + length v\<rparr>
      \<and> v \<noteq> [] \<and> (\<exists>r. drop (sc_pos sc) (sc_src sc) = v @ r)" if "\<not> P c" for P t
  proof (intro exI conjI)
    let ?v = "takeWhile (\<lambda>c. \<not> P c) (drop (sc_pos sc) (sc_src sc))"
    show "scan_until P t sc = sc\<lparr>sc_tok := t, sc_tokval := ?v, sc_pos := sc_pos sc + length ?v\<rparr>"
      using pos by (simp add: scan_until_eq Let_def)
    show "?v \<noteq> []" using that d by simp
    show "drop (sc_pos sc) (sc_src sc) = ?v @ dropWhile (\<lambda>c. \<not> P c) (drop (sc_pos sc) (sc_src sc))"
      by simp
  qed
  show ?thesis
  proof (cases "c \<in> set (sc_delims sc)")
    case True
    with nul have "c \<noteq> tok_EOS" by (auto simp: tok_EOS_def)
    with True d show ?thesis
      by (intro exI [of _ c] exI [of _ "[c]"] conjI exI [of _ "drop (Suc (sc_pos sc)) (sc_src sc)"])
        (simp_all add: scan_token_def)
  next
    case nd: False
    consider "is_ascii c \<and> is_digit c" | "\<not> (is_ascii c \<and> is_digit c)" "is_ascii c \<and> is_cspace c"
      | "\<not> (is_ascii c \<and> is_digit c)" "\<not> (is_ascii c \<and> is_cspace c)" by blast
    then show ?thesis
    proof cases
      case 1
      then have "\<not> c \<notin> set dec_digits" by (simp add: is_digit_dec_digits)
      from until [of "\<lambda>c. c \<notin> set dec_digits", OF this, of tok_NUMBER] 1 nd show ?thesis
        by (auto simp: scan_token_def scan_set_as_def tok_NUMBER_def tok_EOS_def)
    next
      case 2
      then have "\<not> c \<notin> set space_chars" using st nd cspace_cases by (auto simp: stuck_char_def)
      from until [of "\<lambda>c. c \<notin> set space_chars", OF this, of tok_SPACE] 2 nd show ?thesis
        by (auto simp: scan_token_def scan_set_as_def tok_SPACE_def tok_EOS_def)
    next
      case 3
      have "c \<notin> set space_chars" using 3
        by (auto simp: space_chars_def is_ascii_def is_cspace_def)
      with nd have "\<not> c \<in> set (sc_delims sc @ space_chars)" by simp
      from until [of "\<lambda>c. c \<in> set (sc_delims sc @ space_chars)", OF this, of tok_NAME] 3 nd show ?thesis
        by (auto simp: scan_token_def scan_not_in_set_as_def tok_NAME_def tok_EOS_def)
    qed
  qed
qed

lemma scanner_next_at_end:
  "sc_pos sc = length (sc_src sc) \<Longrightarrow>
   scanner_next sc = sc\<lparr>sc_tok := tok_EOS, sc_tokval := []\<rparr>"
  by (simp add: scanner_next_def Let_def)

lemma scanner_next_progress:
  assumes inv: "scan_inv sc" and pos: "sc_pos sc < length (sc_src sc)"
    and nul: "CHR 0x00 \<notin> set (sc_delims sc)"
    and st: "\<not> stuck_char (sc_delims sc) (sc_src sc ! sc_pos sc)"
  shows "scan_inv (scanner_next sc) \<and> sc_pos sc < sc_pos (scanner_next sc)
    \<and> sc_src (scanner_next sc) = sc_src sc \<and> sc_delims (scanner_next sc) = sc_delims sc
    \<and> sc_tok (scanner_next sc) \<noteq> tok_EOS"
proof -
  let ?sc = "sc\<lparr>sc_tok := tok_EOS, sc_tokval := []\<rparr>"
  obtain t v r where tv: "scan_token (sc_src sc ! sc_pos sc) ?sc =
      ?sc\<lparr>sc_tok := t, sc_tokval := v, sc_pos := sc_pos sc + length v\<rparr>"
    "t \<noteq> tok_EOS" "v \<noteq> []" "drop (sc_pos sc) (sc_src sc) = v @ r"
    using scan_token_progress [of ?sc "sc_src sc ! sc_pos sc"] pos nul st by auto
  have n: "scanner_next sc = sc\<lparr>sc_tok := t, sc_tokval := v, sc_pos := sc_pos sc + length v,
      sc_toks := sc_toks sc @ [t], sc_vals := sc_vals sc @ [v]\<rparr>"
    using pos tv(1) by (simp add: scanner_next_def Let_def)
  have "length (sc_src sc) - sc_pos sc = length v + length r"
    using arg_cong [OF tv(4), of length] by simp
  moreover have "take (sc_pos sc + length v) (sc_src sc) = take (sc_pos sc) (sc_src sc) @ v"
    using tv(4) by (simp add: take_add)
  ultimately show ?thesis
    using inv pos tv by (auto simp: n scan_inv_def)
qed

lemma scan_loop_terminates:
  assumes "scan_inv sc" and "CHR 0x00 \<notin> set (sc_delims sc)"
    and "\<forall>c \<in> set (sc_src sc). \<not> stuck_char (sc_delims sc) c"
  shows "\<exists>sc'. scan_loop sc = Some sc' \<and> concat (sc_vals sc') = sc_src sc"
  using assms
proof (induction "length (sc_src sc) - sc_pos sc" arbitrary: sc rule: less_induct)
  case less
  show ?case
  proof (cases "sc_pos sc = length (sc_src sc)")
    case True
    with less.prems(1) show ?thesis
      by (subst scan_loop.simps) (simp add: scanner_next_at_end scan_inv_def Let_def)
  next
    case False
    with less.prems(1) have pos: "sc_pos sc < length (sc_src sc)" by (simp add: scan_inv_def)
    with less.prems(3) have "\<not> stuck_char (sc_delims sc) (sc_src sc ! sc_pos sc)" by simp
    note p = scanner_next_progress [OF less.prems(1) pos less.prems(2) this]
    then have "length (sc_src (scanner_next sc)) - sc_pos (scanner_next sc)
        < length (sc_src sc) - sc_pos sc"
      using pos by (auto simp: scan_inv_def)
    from less.hyps [OF this] p less.prems
    show ?thesis by (subst scan_loop.simps) (simp add: Let_def)
  qed
qed

lemma scan_inv_mk_scanner [simp]: "scan_inv (mk_scanner s d)"
  by (simp add: scan_inv_def mk_scanner_def)

text \<open>
  C32: tokenizing terminates and loses nothing: for every text without vertical tab and form
  feed (or with these among the delimiters) the token values, joined from index 0, are the
  text itself.
\<close>

theorem tokenize_lossless:
  assumes "CHR 0x00 \<notin> set d" and "\<forall>c \<in> set s. \<not> stuck_char d c"
  shows "\<exists>sc. tokenize (mk_scanner s d) = Some sc \<and> scanner_join_from sc 0 = s"
proof -
  have "\<exists>sc'. scan_loop (mk_scanner s d) = Some sc' \<and> concat (sc_vals sc') = s"
    using scan_loop_terminates [of "mk_scanner s d"] assms by (simp add: mk_scanner_def scan_inv_def)
  then show ?thesis
    by (auto simp: tokenize_def scanner_join_from_def scanner_join_def mk_scanner_def)
qed

theorem tokenize_lossless_witness:
  "\<exists>sc. tokenize (mk_scanner ''rtsp://host:554/a b'' '':/?#'') = Some sc
     \<and> scanner_join_from sc 0 = ''rtsp://host:554/a b''"
proof -
  have "CHR 0x00 \<notin> set '':/?#''" by simp
  moreover have "\<forall>c \<in> set ''rtsp://host:554/a b''. \<not> stuck_char '':/?#'' c"
    by (simp add: stuck_char_def)
  ultimately show ?thesis by (rule tokenize_lossless)
qed

definition scan_stuck :: "scanner \<Rightarrow> bool" where
  "scan_stuck sc \<longleftrightarrow> sc_pos sc < length (sc_src sc)
     \<and> stuck_char (sc_delims sc) (sc_src sc ! sc_pos sc)"

lemma scanner_next_stuck:
  assumes "scan_stuck sc"
  shows "scan_stuck (scanner_next sc) \<and> sc_tok (scanner_next sc) \<noteq> tok_EOS"
proof -
  let ?c = "sc_src sc ! sc_pos sc"
  have pos: "sc_pos sc < length (sc_src sc)" and c: "?c \<in> {CHR 0x0B, CHR 0x0C}"
    and nd: "?c \<notin> set (sc_delims sc)"
    using assms by (auto simp: scan_stuck_def stuck_char_def)
  have cls: "is_ascii ?c" "\<not> is_digit ?c" "is_cspace ?c" "?c \<notin> set space_chars"
    using c by (auto simp: is_ascii_def is_digit_def is_cspace_def space_chars_def)
  have d: "drop (sc_pos sc) (sc_src sc) = ?c # drop (Suc (sc_pos sc)) (sc_src sc)"
    using pos by (simp add: Cons_nth_drop_Suc)
  have "scan_token ?c (sc\<lparr>sc_tok := tok_EOS, sc_tokval := []\<rparr>) = sc\<lparr>sc_tok := tok_SPACE, sc_tokval := []\<rparr>"
    using pos nd cls d by (simp add: scan_token_def scan_set_as_def scan_until_eq Let_def)
  then have "scanner_next sc = sc\<lparr>sc_tok := tok_SPACE, sc_tokval := [],
      sc_toks := sc_toks sc @ [tok_SPACE], sc_vals := sc_vals sc @ [[]]\<rparr>"
    using pos by (simp add: scanner_next_def Let_def)
  with assms show ?thesis by (simp add: scan_stuck_def tok_SPACE_def tok_EOS_def)
qed

lemma scan_loop_stuck: "scan_loop sc = Some r \<Longrightarrow> \<not> scan_stuck sc"
proof (rule scan_loop.raw_induct [where P = "\<lambda>sc r. \<not> scan_stuck sc"])
  fix f sc r
  assume IH: "\<And>sc r. f sc = Some r \<Longrightarrow> \<not> scan_stuck sc"
    and eq: "(let sc' = scanner_next sc in if sc_tok sc' = tok_EOS then Some sc' else f sc') = Some r"
  show "\<not> scan_stuck sc"
  proof
    assume s: "scan_stuck sc"
    with eq have "f (scanner_next sc) = Some r" by (simp add: scanner_next_stuck Let_def)
    then have "\<not> scan_stuck (scanner_next sc)" by (rule IH)
    with s show False by (simp add: scanner_next_stuck)
  qed
qed

text \<open>
  A text that begins with a vertical tab or a form feed that is no delimiter is never
  tokenized: \<open>next\<close> classifies the character as space, scans a zero length token with a set
  that lacks it, and the loop of \<open>tokenize\<close> makes no progress and does not return.
\<close>

theorem tokenize_diverges:
  assumes "stuck_char d c"
  shows "tokenize (mk_scanner (c # s) d) = None"
proof -
  have "scan_stuck (mk_scanner (c # s) d)"
    using assms by (simp add: scan_stuck_def mk_scanner_def)
  then have "scan_loop (mk_scanner (c # s) d) = None"
    using scan_loop_stuck by (cases "scan_loop (mk_scanner (c # s) d)") auto
  then show ?thesis by (simp add: tokenize_def mk_scanner_def)
qed

theorem tokenize_diverges_witness: "tokenize (mk_scanner [CHR 0x0B, CHR ''a''] '':/?#'') = None"
  by (rule tokenize_diverges) (simp add: stuck_char_def)

end
