(* ===== verification/Parselets.thy ===== *)
theory Parselets
  imports String_Util "HOL-Library.Monad_Syntax"
begin

text \<open>
  The parselets of include/ambulant/lib/parselets.h and src/libambulant/lib/parselets.cpp.
  A parselet maps the text from the iterator to the end to \<open>None\<close> (the return value -1) or
  to the \<open>m_result\<close>, the returned count and the text at the advanced iterator. A failing
  parselet leaves its caller's iterator alone in every use the code makes of it. A
  \<open>double\<close> is the rational it denotes; an \<open>int\<close> wraps at 32 bits. The contract of
  \<open>basic_parselet::parse\<close> is the locale \<open>parselet\<close>: the count is the distance the
  iterator moved.
\<close>

type_synonym 'a parser = "string \<Rightarrow> ('a \<times> nat \<times> string) option"

section \<open>The interface\<close>

definition matches :: "'a parser \<Rightarrow> string \<Rightarrow> bool" where
  "matches p s = (case p s of None \<Rightarrow> False | Some (_, d, _) \<Rightarrow> d = length s)"

text \<open>The repetition shared by \<open>plus_p\<close> and \<open>star_p\<close>; \<open>None\<close> is divergence.\<close>

partial_function (option) rep_loop ::
  "'a parser \<Rightarrow> string \<Rightarrow> nat \<Rightarrow> 'a list \<Rightarrow> ('a list \<times> nat \<times> string) option" where
  "rep_loop p s rd acc =
     (if s = [] then Some (acc, rd, s)
      else case p s of
        None \<Rightarrow> Some (acc, rd, s)
      | Some (x, d, r) \<Rightarrow> rep_loop p r (rd + d) (acc @ [x]))"

declare rep_loop.simps [code]

definition star_p :: "'a parser \<Rightarrow> string \<Rightarrow> ('a list \<times> nat \<times> string) option" where
  "star_p p s = (case p s of None \<Rightarrow> Some ([], 0, s) | Some (x, d, r) \<Rightarrow> rep_loop p r d [x])"

definition plus_p :: "'a parser \<Rightarrow> string \<Rightarrow> ('a list \<times> nat \<times> string) option option" where
  "plus_p p s =
     (case p s of None \<Rightarrow> Some None | Some (x, d, r) \<Rightarrow> map_option Some (rep_loop p r d [x]))"

locale parselet =
  fixes parse :: "'a parser"
  assumes consumes: "parse s = Some (x, d, r) \<Longrightarrow> d \<le> length s \<and> r = drop d s"
begin

lemma consumed: "parse s = Some (x, d, r) \<Longrightarrow> s = take d s @ r \<and> length s = d + length r"
  using consumes by fastforce

lemma matches_iff: "matches parse s \<longleftrightarrow> (\<exists>x. parse s = Some (x, length s, []))"
  by (auto simp: matches_def split: option.splits dest!: consumes)

end

locale progressing_parselet = parselet +
  assumes progresses: "parse s = Some (x, d, r) \<Longrightarrow> 0 < d"
begin

lemma rest_shorter: "parse s = Some (x, d, r) \<Longrightarrow> length r < length s"
  using consumed progresses by fastforce

lemma rep_loop_terminates:
  "\<exists>xs n. n \<le> length s \<and> rep_loop parse s rd acc = Some (acc @ xs, rd + n, drop n s)
     \<and> (drop n s = [] \<or> parse (drop n s) = None)"
proof (induction s arbitrary: rd acc rule: length_induct)
  case (1 s)
  show ?case
  proof (cases "s = [] \<or> parse s = None")
    case True
    then show ?thesis
      by (intro exI [of _ "[]"] exI [of _ 0]) (auto simp: rep_loop.simps)
  next
    case False
    then obtain x d r where p: "parse s = Some (x, d, r)" by auto
    then have c: "d \<le> length s" "r = drop d s" using consumes by auto
    from 1 rest_shorter [OF p] obtain xs n where
      n: "n \<le> length r" "rep_loop parse r (rd + d) (acc @ [x]) = Some ((acc @ [x]) @ xs, (rd + d) + n, drop n r)"
      "drop n r = [] \<or> parse (drop n r) = None"
      by blast
    with p c False show ?thesis
      by (intro exI [of _ "x # xs"] exI [of _ "d + n"]) (auto simp: rep_loop.simps add.commute add.left_commute)
  qed
qed

text \<open>
  Repeating a parselet that always consumes something terminates, consumes a prefix and
  stops only where the parselet fails.
\<close>

lemma star_p_terminates:
  "\<exists>xs n. n \<le> length s \<and> star_p parse s = Some (xs, n, drop n s)
     \<and> (drop n s = [] \<or> parse (drop n s) = None)"
proof (cases "parse s")
  case None
  then show ?thesis by (intro exI [of _ "[]"] exI [of _ 0]) (simp add: star_p_def)
next
  case (Some t)
  then obtain x d r where p: "parse s = Some (x, d, r)" by (cases t) auto
  then have c: "d \<le> length s" "r = drop d s" using consumes by auto
  from rep_loop_terminates [of r d "[x]"] obtain xs n where
    "n \<le> length r" "rep_loop parse r d [x] = Some ([x] @ xs, d + n, drop n r)"
    "drop n r = [] \<or> parse (drop n r) = None" by blast
  with p c show ?thesis
    by (intro exI [of _ "x # xs"] exI [of _ "d + n"]) (auto simp: star_p_def add.commute)
qed

lemma plus_p_terminates: "plus_p parse s \<noteq> None"
proof (cases "parse s")
  case None
  then show ?thesis by (simp add: plus_p_def)
next
  case (Some t)
  then obtain x d r where "parse s = Some (x, d, r)" by (cases t) auto
  with rep_loop_terminates [of r d "[x]"] show ?thesis by (auto simp: plus_p_def)
qed

end

section \<open>Elementary parselets\<close>

definition literal_p :: "char \<Rightarrow> char parser" where
  "literal_p ch s =
     (case s of [] \<Rightarrow> None | c # r \<Rightarrow> if c \<noteq> ch then None else Some (c, 1, r))"

definition range_p :: "char \<Rightarrow> char \<Rightarrow> char parser" where
  "range_p ch1 ch2 s =
     (case s of
        [] \<Rightarrow> None
      | c # r \<Rightarrow>
          if (of_char c :: nat) < of_char ch1 \<or> (of_char ch2 :: nat) < of_char c then None
          else Some (c, 1, r))"

fun literal_cstr_loop :: "string \<Rightarrow> string \<Rightarrow> nat \<Rightarrow> (nat \<times> string) option" where
  "literal_cstr_loop [] s d = Some (d, s)"
| "literal_cstr_loop (p # ps) [] d = None"
| "literal_cstr_loop (p # ps) (c # s) d = (if c = p then literal_cstr_loop ps s (Suc d) else None)"

definition literal_cstr_p :: "string \<Rightarrow> string parser" where
  "literal_cstr_p p s = map_option (\<lambda>(d, r). (p, d, r)) (literal_cstr_loop p s 0)"

definition delimiter_p :: "string \<Rightarrow> char parser" where
  "delimiter_p delims s =
     (case s of [] \<Rightarrow> None | c # r \<Rightarrow> if c \<in> set delims then Some (c, 1, r) else None)"

fun int_digits :: "int \<Rightarrow> string \<Rightarrow> int \<times> nat \<times> string" where
  "int_digits m [] = (m, 0, [])"
| "int_digits m (c # s) =
     (if is_digit c
      then (let (m', len, r) = int_digits (to_int (m * 10 + digit_val c)) s in (m', Suc len, r))
      else (m, 0, c # s))"

definition int_p :: "int \<Rightarrow> int \<Rightarrow> int parser" where
  "int_p mn mx s =
     (case s of
        [] \<Rightarrow> None
      | c # _ \<Rightarrow>
          if \<not> is_digit c then None
          else (let (m, len, r) = int_digits 0 s
                in if mn \<le> m \<and> m \<le> mx then Some (m, len, r) else None))"

definition any_int_p :: "int parser" where
  "any_int_p = int_p (- (2 ^ 31)) (2 ^ 31 - 1)"

text \<open>\<open>fraction_p\<close> scales the digits read to milliseconds.\<close>

function frac_up :: "int \<Rightarrow> nat \<Rightarrow> int" where
  "frac_up m digits = (if digits < 3 then frac_up (to_int (m * 10)) (Suc digits) else m)"
  by pat_completeness auto
termination by (relation "measure (\<lambda>(_, d). 3 - d)") auto

fun frac_down :: "int \<Rightarrow> nat \<Rightarrow> int" where
  "frac_down m digits = (if 3 < digits then frac_down (cdiv m 10) (digits - 1) else m)"

declare frac_up.simps [simp del] frac_down.simps [simp del]

definition fraction_p :: "int parser" where
  "fraction_p s =
     (case any_int_p s of
        None \<Rightarrow> None
      | Some (m, d, r) \<Rightarrow> Some (frac_down (frac_up m d) d, d, r))"

definition name_p :: "(char \<Rightarrow> bool) \<Rightarrow> (char \<Rightarrow> bool) \<Rightarrow> string parser" where
  "name_p is_start is_name s =
     (case s of
        [] \<Rightarrow> None
      | c # r \<Rightarrow>
          if \<not> is_start c then None
          else (let t = takeWhile is_name r in Some (c # t, Suc (length t), dropWhile is_name r)))"

definition epsilon_p :: "unit parser" where
  "epsilon_p s = Some ((), 0, s)"

definition is_calpha :: "char \<Rightarrow> bool" where
  "is_calpha c \<longleftrightarrow> (65 \<le> (of_char c :: nat) \<and> (of_char c :: nat) \<le> 90)
     \<or> (97 \<le> (of_char c :: nat) \<and> (of_char c :: nat) \<le> 122)"

definition xml_name_start_ch :: "char \<Rightarrow> bool" where
  "xml_name_start_ch c \<longleftrightarrow> is_calpha c \<or> c = CHR ''_'' \<or> c = CHR '':''"

definition xml_ncname_start_ch :: "char \<Rightarrow> bool" where
  "xml_ncname_start_ch c \<longleftrightarrow> xml_name_start_ch c \<and> c \<noteq> CHR '':''"

definition xml_name_ch :: "char \<Rightarrow> bool" where
  "xml_name_ch c \<longleftrightarrow> is_calpha c \<or> is_digit c \<or> c \<in> {CHR ''.'', CHR ''-'', CHR ''_'', CHR '':''}"

definition xml_ncname_ch :: "char \<Rightarrow> bool" where
  "xml_ncname_ch c \<longleftrightarrow> xml_name_ch c \<and> c \<noteq> CHR '':''"

definition xml_space_ch :: "char \<Rightarrow> bool" where
  "xml_space_ch c \<longleftrightarrow> c \<in> {CHR '' '', CHR 0x09, CHR 0x0A, CHR 0x0D}"

definition xml_name_p :: "string parser" where
  "xml_name_p = name_p xml_name_start_ch xml_name_ch"

definition xml_ncname_p :: "string parser" where
  "xml_ncname_p = name_p xml_ncname_start_ch xml_ncname_ch"

definition xml_nmtoken_p :: "string parser" where
  "xml_nmtoken_p = name_p xml_name_ch xml_name_ch"

section \<open>Combinators\<close>

definition cat_pair_p :: "'a parser \<Rightarrow> 'b parser \<Rightarrow> ('a \<times> 'b) parser" where
  "cat_pair_p p q s =
     (case p s of
        None \<Rightarrow> None
      | Some (x, fd, r) \<Rightarrow>
          (case q r of None \<Rightarrow> None | Some (y, sd, r') \<Rightarrow> Some ((x, y), fd + sd, r')))"

definition or_pair_p :: "'a parser \<Rightarrow> 'b parser \<Rightarrow> ('a + 'b) parser" where
  "or_pair_p p q s =
     (case (p s, q s) of
        (None, None) \<Rightarrow> None
      | (None, Some (y, sd, r)) \<Rightarrow> Some (Inr y, sd, r)
      | (Some (x, fd, r), None) \<Rightarrow> Some (Inl x, fd, r)
      | (Some (x, fd, r), Some (y, sd, r')) \<Rightarrow>
          if fd < sd then Some (Inr y, sd, r') else Some (Inl x, fd, r))"

definition optional_p :: "'a parser \<Rightarrow> ('a + unit) parser" where
  "optional_p p = or_pair_p p epsilon_p"

datatype ('a, 'b, 'c) trio = First 'a | Second 'b | Third 'c

definition plen :: "('a \<times> nat \<times> string) option \<Rightarrow> int" where
  "plen x = (case x of None \<Rightarrow> - 1 | Some (_, d, _) \<Rightarrow> int d)"

definition or_trio_p :: "'a parser \<Rightarrow> 'b parser \<Rightarrow> 'c parser \<Rightarrow> ('a, 'b, 'c) trio parser" where
  "or_trio_p p q t s =
     (let dmax = max (plen (p s)) (max (plen (q s)) (plen (t s)))
      in if dmax = - 1 then None
         else if plen (p s) = dmax then map_option (\<lambda>(x, d, r). (First x, d, r)) (p s)
         else if plen (q s) = dmax then map_option (\<lambda>(x, d, r). (Second x, d, r)) (q s)
         else map_option (\<lambda>(x, d, r). (Third x, d, r)) (t s))"

text \<open>\<open>list_p\<close>: a sequence of parselets, all of which must succeed.\<close>

fun list_p :: "'a parser list \<Rightarrow> string \<Rightarrow> (nat \<times> string) option" where
  "list_p [] s = Some (0, s)"
| "list_p (p # ps) s =
     (case p s of
        None \<Rightarrow> None
      | Some (_, d, r) \<Rightarrow> map_option (\<lambda>(sd, r'). (d + sd, r')) (list_p ps r))"

section \<open>Contracts of the elementary parselets and the combinators\<close>

lemma literal_cstr_loop_consumes:
  "literal_cstr_loop p s n = Some (d, r) \<Longrightarrow> d = n + length p \<and> s = p @ r"
  by (induction p s n rule: literal_cstr_loop.induct) (auto split: if_splits)

lemma literal_cstr_loop_append [simp]: "literal_cstr_loop p (p @ r) n = Some (n + length p, r)"
  by (induction p arbitrary: n) auto

lemma int_digits_consumes:
  "int_digits m s = (m', len, r) \<Longrightarrow> len = length (takeWhile is_digit s) \<and> r = dropWhile is_digit s"
  by (induction m s arbitrary: m' len r rule: int_digits.induct) (auto split: prod.splits if_splits)

lemma dropWhile_drop: "dropWhile P s = drop (length (takeWhile P s)) s"
  by (rule dropWhile_eq_drop)

lemma takeWhile_length_le: "length (takeWhile P s) \<le> length s"
  by (rule length_takeWhile_le)

lemma int_p_consumes:
  "int_p mn mx s = Some (m, d, r) \<Longrightarrow>
   d = length (takeWhile is_digit s) \<and> 0 < d \<and> r = dropWhile is_digit s \<and> mn \<le> m \<and> m \<le> mx"
  by (auto simp: int_p_def split: list.splits if_splits prod.splits dest: int_digits_consumes)

lemma progressing_parselet_int_p: "progressing_parselet (int_p mn mx)"
  by unfold_locales (auto dest!: int_p_consumes simp: dropWhile_drop takeWhile_length_le)

interpretation literal: progressing_parselet "literal_p ch"
  by unfold_locales (auto simp: literal_p_def split: list.splits if_splits)

interpretation range: progressing_parselet "range_p ch1 ch2"
  by unfold_locales (auto simp: range_p_def split: list.splits if_splits)

interpretation literal_cstr: parselet "literal_cstr_p p"
  by unfold_locales (auto simp: literal_cstr_p_def dest!: literal_cstr_loop_consumes)

interpretation delimiter: progressing_parselet "delimiter_p ds"
  by unfold_locales (auto simp: delimiter_p_def split: list.splits if_splits)

interpretation int: progressing_parselet "int_p mn mx"
  by (rule progressing_parselet_int_p)

interpretation any_int: progressing_parselet any_int_p
  unfolding any_int_p_def by (rule progressing_parselet_int_p)

interpretation fraction: progressing_parselet fraction_p
  by unfold_locales (auto simp: fraction_p_def split: option.splits dest: any_int.consumes any_int.progresses)

interpretation name: progressing_parselet "name_p f g"
  by unfold_locales
    (auto simp: name_p_def Let_def dropWhile_drop takeWhile_length_le split: list.splits if_splits)

interpretation epsilon: parselet epsilon_p
  by unfold_locales (auto simp: epsilon_p_def)

lemma parselet_cat_pair:
  assumes "parselet p" and "parselet q"
  shows "parselet (cat_pair_p p q)"
proof
  fix s z d r assume "cat_pair_p p q s = Some (z, d, r)"
  then obtain x fd r1 y sd where 1: "p s = Some (x, fd, r1)" "q r1 = Some (y, sd, r)" "d = fd + sd"
    by (auto simp: cat_pair_p_def split: option.splits)
  from parselet.consumes [OF assms(1) 1(1)] parselet.consumes [OF assms(2) 1(2)] 1(3)
  show "d \<le> length s \<and> r = drop d s" by (auto simp: add.commute)
qed

lemma parselet_or_pair: "parselet p \<Longrightarrow> parselet q \<Longrightarrow> parselet (or_pair_p p q)"
  by unfold_locales
    (fastforce simp: or_pair_p_def split: option.splits if_splits dest: parselet.consumes)

lemma plen_minus1: "plen x = - 1 \<longleftrightarrow> x = None"
  by (auto simp: plen_def split: option.splits)

lemma plen_ge: "- 1 \<le> plen x"
  by (auto simp: plen_def split: option.splits)

lemma parselet_or_trio: "parselet p \<Longrightarrow> parselet q \<Longrightarrow> parselet t \<Longrightarrow> parselet (or_trio_p p q t)"
  by unfold_locales
    (auto simp: or_trio_p_def Let_def split: if_splits dest: parselet.consumes)

lemma optional_p_never_fails: "optional_p p s \<noteq> None"
  by (auto simp: optional_p_def or_pair_p_def epsilon_p_def split: option.splits)

text \<open>
  The alternatives of \<open>or_trio_p\<close> are tried on the same text and the longest match wins, the
  earlier one on a tie.
\<close>

lemma or_trio_longest:
  assumes "or_trio_p p q t s = Some (x, d, r)"
  shows "plen (p s) \<le> int d \<and> plen (q s) \<le> int d \<and> plen (t s) \<le> int d"
  using assms plen_ge [of "p s"] plen_ge [of "q s"] plen_ge [of "t s"]
  by (auto simp: or_trio_p_def Let_def plen_def max_def split: if_splits option.splits)

section \<open>Optional space and sign\<close>

definition opt_space :: "string \<Rightarrow> nat \<times> string" where
  "opt_space s =
     (case star_p (delimiter_p space_chars) s of Some (_, d, r) \<Rightarrow> (d, r) | None \<Rightarrow> (0, s))"

lemma opt_space_consumes: "opt_space s = (d, r) \<Longrightarrow> d \<le> length s \<and> r = drop d s"
  using delimiter.star_p_terminates [of s space_chars] by (auto simp: opt_space_def)

lemma opt_space_none [simp]: "s = [] \<or> hd s \<notin> set space_chars \<Longrightarrow> opt_space s = (0, s)"
  by (cases s) (auto simp: opt_space_def star_p_def delimiter_p_def)

definition opt_sign :: "string \<Rightarrow> (int \<times> nat \<times> string) option" where
  "opt_sign s =
     map_option (\<lambda>(c, d, r). (if c = CHR ''+'' then 1 else - 1, d, r)) (delimiter_p ''+-'' s)"

section \<open>Numbers\<close>

definition trunc_rat :: "rat \<Rightarrow> int" where
  "trunc_rat x = (if 0 \<le> x then \<lfloor>x\<rfloor> else \<lceil>x\<rceil>)"

definition number_fraction :: "int \<Rightarrow> int \<Rightarrow> int \<Rightarrow> nat \<Rightarrow> rat" where
  "number_fraction sign i f d = of_int sign * (of_int i + of_int f / 10 ^ d)"

definition number_unsigned :: "int \<Rightarrow> nat \<Rightarrow> rat parser" where
  "number_unsigned sign sd s =
     (if s \<noteq> [] \<and> hd s = CHR ''.''
      then (case any_int_p (tl s) of
              None \<Rightarrow> None
            | Some (f, d, r) \<Rightarrow> Some (number_fraction sign 0 f d, sd + 1 + d, r))
      else (case any_int_p s of
              None \<Rightarrow> None
            | Some (i, di, r) \<Rightarrow>
                (case literal_p CHR ''.'' r of
                   None \<Rightarrow> Some (of_int (to_int (sign * i)), sd + di, r)
                 | Some (_, dl, r) \<Rightarrow>
                     (case any_int_p r of
                        None \<Rightarrow> Some (of_int sign * of_int i, sd + di + dl, r)
                      | Some (f, d, r) \<Rightarrow> Some (number_fraction sign i f d, sd + di + dl + d, r)))))"

definition number_p :: "rat parser" where
  "number_p s =
     (let (d0, s0) = opt_space s
      in case opt_sign s0 of
           None \<Rightarrow> number_unsigned 1 d0 s0
         | Some (sign, d1, s1) \<Rightarrow>
             (let (d2, s2) = opt_space s1 in number_unsigned sign (d0 + d1 + d2) s2))"

lemma number_unsigned_consumes:
  "number_unsigned sign sd s = Some (x, d, r) \<Longrightarrow> \<exists>n. d = sd + n \<and> 0 < n \<and> n \<le> length s \<and> r = drop n s"
proof (cases "s \<noteq> [] \<and> hd s = CHR ''.''")
  case True
  assume a: "number_unsigned sign sd s = Some (x, d, r)"
  with True obtain f n where f: "any_int_p (tl s) = Some (f, n, r)" "d = sd + 1 + n"
    by (auto simp: number_unsigned_def split: option.splits)
  from True any_int.consumes [OF f(1)] f(2) show ?thesis
    by (intro exI [of _ "Suc n"]) (cases s; auto)
next
  case False
  assume a: "number_unsigned sign sd s = Some (x, d, r)"
  with False obtain i di r1 where i: "any_int_p s = Some (i, di, r1)"
    by (auto simp: number_unsigned_def split: option.splits)
  note ci = any_int.consumes [OF i] any_int.progresses [OF i]
  show ?thesis
  proof (cases "literal_p CHR ''.'' r1")
    case None
    with a False i ci show ?thesis by (auto simp: number_unsigned_def)
  next
    case (Some t)
    then obtain c dl r2 where l: "literal_p CHR ''.'' r1 = Some (c, dl, r2)" by (cases t) auto
    note cl = literal.consumes [OF l]
    show ?thesis
    proof (cases "any_int_p r2")
      case None
      with a False i l ci cl show ?thesis
        by (intro exI [of _ "di + dl"]) (auto simp: number_unsigned_def add.commute)
    next
      case (Some t)
      then obtain f n r3 where f: "any_int_p r2 = Some (f, n, r3)" by (cases t) auto
      note cf = any_int.consumes [OF f]
      from a False i l f ci cl cf show ?thesis
        by (intro exI [of _ "di + dl + n"])
          (auto simp: number_unsigned_def add.commute add.left_commute)
    qed
  qed
qed

lemma number_p_consumes:
  assumes "number_p s = Some (x, d, r)"
  shows "0 < d \<and> d \<le> length s \<and> r = drop d s"
proof -
  obtain d0 s0 where 0: "opt_space s = (d0, s0)" by (cases "opt_space s")
  note c0 = opt_space_consumes [OF 0]
  show ?thesis
  proof (cases "opt_sign s0")
    case None
    with 0 assms have "number_unsigned 1 d0 s0 = Some (x, d, r)" by (simp add: number_p_def)
    from number_unsigned_consumes [OF this] c0 show ?thesis by (auto simp: add.commute)
  next
    case (Some t)
    then obtain sg d1 s1 where 1: "opt_sign s0 = Some (sg, d1, s1)" by (cases t) auto
    then obtain c where "delimiter_p ''+-'' s0 = Some (c, d1, s1)" by (auto simp: opt_sign_def)
    note c1 = delimiter.consumes [OF this]
    obtain d2 s2 where 2: "opt_space s1 = (d2, s2)" by (cases "opt_space s1")
    note c2 = opt_space_consumes [OF 2]
    from 0 1 2 assms have "number_unsigned sg (d0 + d1 + d2) s2 = Some (x, d, r)"
      by (simp add: number_p_def)
    from number_unsigned_consumes [OF this] c0 c1 c2 show ?thesis
      by (auto simp: add.commute add.left_commute)
  qed
qed

interpretation number: progressing_parselet number_p
  by unfold_locales (auto dest: number_p_consumes)

function number_list_loop :: "string \<Rightarrow> rat list \<times> nat \<times> string" where
  "number_list_loop s =
     (case number_p s of
        None \<Rightarrow> ([], 0, s)
      | Some (x, d, r) \<Rightarrow> (let (xs, sd, r') = number_list_loop r in (x # xs, d + sd, r')))"
  by pat_completeness auto
termination
  by (relation "measure length") (auto dest: number.rest_shorter)

declare number_list_loop.simps [simp del]

definition number_list_p :: "rat list parser" where
  "number_list_p s =
     (let (xs, sd, r) = number_list_loop s in if xs = [] then None else Some (xs, sd, r))"

lemma number_list_loop_consumes:
  "number_list_loop s = (xs, d, r) \<Longrightarrow>
   d \<le> length s \<and> r = drop d s \<and> (xs \<noteq> [] \<longrightarrow> 0 < d) \<and> number_p r = None"
proof (induction s arbitrary: xs d r rule: number_list_loop.induct)
  case (1 s)
  show ?case
  proof (cases "number_p s")
    case None
    with 1 show ?thesis by (simp add: number_list_loop.simps [of s])
  next
    case (Some t)
    then obtain x d1 r1 where n: "number_p s = Some (x, d1, r1)" by (cases t) auto
    obtain ys d2 r2 where l: "number_list_loop r1 = (ys, d2, r2)" by (cases "number_list_loop r1")
    from 1(2) n l have "xs = x # ys" "d = d1 + d2" "r = r2"
      by (auto simp: number_list_loop.simps [of s])
    with 1(1) [OF n refl refl l] number.consumes [OF n] number.progresses [OF n]
    show ?thesis by (auto simp: add.commute)
  qed
qed

interpretation number_list: progressing_parselet number_list_p
  by unfold_locales (auto simp: number_list_p_def split: prod.splits if_splits
      dest!: number_list_loop_consumes)

section \<open>Units and clock values\<close>

datatype time_unit = tu_h | tu_min | tu_s | tu_ms

definition time_unit_p :: "time_unit parser" where
  "time_unit_p s =
     (case literal_cstr_p ''h'' s of
        Some (_, _, r) \<Rightarrow> Some (tu_h, 1, r)
      | None \<Rightarrow>
     (case literal_cstr_p ''min'' s of
        Some (_, _, r) \<Rightarrow> Some (tu_min, 3, r)
      | None \<Rightarrow>
     (case literal_cstr_p ''ms'' s of
        Some (_, _, r) \<Rightarrow> Some (tu_ms, 2, r)
      | None \<Rightarrow>
     (case literal_cstr_p ''s'' s of
        Some (_, _, r) \<Rightarrow> Some (tu_s, 1, r)
      | None \<Rightarrow> None))))"

datatype length_unit = lu_px | lu_percent

definition length_unit_p :: "length_unit parser" where
  "length_unit_p s =
     (case literal_cstr_p ''px'' s of
        Some (_, _, r) \<Rightarrow> Some (lu_px, 2, r)
      | None \<Rightarrow>
     (case literal_cstr_p ''%'' s of
        Some (_, _, r) \<Rightarrow> Some (lu_percent, 1, r)
      | None \<Rightarrow> None))"

record clock_fields =
  cf_hours :: int
  cf_minutes :: int
  cf_seconds :: int
  cf_fraction :: int

definition optional_fraction :: "nat \<Rightarrow> string \<Rightarrow> (int \<times> nat \<times> string) option" where
  "optional_fraction sd s =
     (case literal_p CHR ''.'' s of
        None \<Rightarrow> Some (- 1, sd, s)
      | Some (_, d1, r1) \<Rightarrow>
          (case fraction_p r1 of
             None \<Rightarrow> None
           | Some (f, d2, r2) \<Rightarrow> Some (f, sd + d1 + d2, r2)))"

definition full_clock_value_p :: "clock_fields parser" where
  "full_clock_value_p s = do {
     (h, d1, s) \<leftarrow> any_int_p s;
     (_, d2, s) \<leftarrow> literal_p CHR '':'' s;
     (m, d3, s) \<leftarrow> any_int_p s;
     (_, d4, s) \<leftarrow> literal_p CHR '':'' s;
     (sec, d5, s) \<leftarrow> any_int_p s;
     (f, d, s) \<leftarrow> optional_fraction (d1 + d2 + d3 + d4 + d5) s;
     Some (\<lparr>cf_hours = h, cf_minutes = m, cf_seconds = sec, cf_fraction = f\<rparr>, d, s)
   }"

definition partial_clock_value_p :: "clock_fields parser" where
  "partial_clock_value_p s = do {
     (m, d1, s) \<leftarrow> any_int_p s;
     (_, d2, s) \<leftarrow> literal_p CHR '':'' s;
     (sec, d3, s) \<leftarrow> any_int_p s;
     (f, d, s) \<leftarrow> optional_fraction (d1 + d2 + d3) s;
     Some (\<lparr>cf_hours = 0, cf_minutes = m, cf_seconds = sec, cf_fraction = f\<rparr>, d, s)
   }"

definition timecount_value_p :: "(rat \<times> time_unit) parser" where
  "timecount_value_p s =
     (case number_p s of
        None \<Rightarrow> None
      | Some (v, d, s) \<Rightarrow>
          (case time_unit_p s of
             None \<Rightarrow> Some ((v, tu_s), d, s)
           | Some (u, d', s) \<Rightarrow> Some ((v, u), d + d', s)))"

definition S_MS :: int where "S_MS = 1000"
definition MIN_MS :: int where "MIN_MS = 60 * S_MS"
definition H_MS :: int where "H_MS = 60 * MIN_MS"

lemmas ms_consts = S_MS_def MIN_MS_def H_MS_def

definition fraction_to_ms :: "int \<Rightarrow> int" where
  "fraction_to_ms f = (if f \<le> 0 then 0 else f)"

definition timecount_ms :: "rat \<Rightarrow> time_unit \<Rightarrow> int" where
  "timecount_ms v u =
     (case u of
        tu_h \<Rightarrow> to_long \<lfloor>v * of_int H_MS + 1 / 2\<rfloor>
      | tu_min \<Rightarrow> to_long \<lfloor>v * of_int MIN_MS + 1 / 2\<rfloor>
      | tu_s \<Rightarrow> to_long \<lfloor>v * of_int S_MS + 1 / 2\<rfloor>
      | tu_ms \<Rightarrow> to_long \<lfloor>v + 1 / 2\<rfloor>)"

text \<open>
  The sums of a full and a partial clock value are \<open>int\<close> expressions; only their result is
  converted to \<open>long\<close>.
\<close>

definition clock_ms :: "(clock_fields, clock_fields, rat \<times> time_unit) trio \<Rightarrow> int" where
  "clock_ms t =
     (case t of
        First r \<Rightarrow> to_int (cf_hours r * H_MS + cf_minutes r * MIN_MS + cf_seconds r * S_MS
                          + fraction_to_ms (cf_fraction r))
      | Second r \<Rightarrow> to_int (cf_minutes r * MIN_MS + cf_seconds r * S_MS + fraction_to_ms (cf_fraction r))
      | Third (v, u) \<Rightarrow> timecount_ms v u)"

definition clock_value_sel_p :: "(clock_fields, clock_fields, rat \<times> time_unit) trio parser" where
  "clock_value_sel_p = or_trio_p full_clock_value_p partial_clock_value_p timecount_value_p"

definition clock_value_p :: "int parser" where
  "clock_value_p s = map_option (\<lambda>(x, d, r). (clock_ms x, d, r)) (clock_value_sel_p s)"

definition offset_value_p :: "int parser" where
  "offset_value_p s =
     (let (d0, s0) = opt_space s;
          (sign, d1, s1) = (case opt_sign s0 of None \<Rightarrow> (1, 0, s0) | Some t \<Rightarrow> t);
          (d2, s2) = opt_space s1
      in case clock_value_p s2 of
           None \<Rightarrow> None
         | Some (c, d, r) \<Rightarrow> Some (to_long (sign * c), d0 + d1 + d2 + d, r))"

section \<open>Coordinates, region dimensions, points\<close>

definition coord_p :: "(rat \<times> length_unit) parser" where
  "coord_p s =
     (case number_p s of
        None \<Rightarrow> None
      | Some (v, d, s) \<Rightarrow>
          (let (d1, s) = opt_space s
           in case length_unit_p s of
                None \<Rightarrow> Some ((v, lu_px), d + d1, s)
              | Some (u, d2, s) \<Rightarrow> Some ((v, u), d + d1 + d2, s)))"

definition coord_get_px :: "rat \<Rightarrow> int" where
  "coord_get_px v = to_int \<lfloor>v + 1 / 2\<rfloor>"

definition coord_get_percent :: "rat \<Rightarrow> rat" where
  "coord_get_percent v = max 0 (min 100 v)"

datatype dim_value = Dim_px int rat | Dim_relative rat

definition region_dim_p :: "dim_value parser" where
  "region_dim_p s =
     (let (d0, s) = opt_space s
      in case number_p s of
           None \<Rightarrow> None
         | Some (v, d, s) \<Rightarrow>
             (let (d1, s) = opt_space s
              in case or_pair_p (literal_cstr_p ''px'') (literal_cstr_p ''%'') s of
                   None \<Rightarrow> Some (Dim_px (to_int \<lfloor>1 / 2 + v\<rfloor>) v, d0 + d + d1, s)
                 | Some (Inl _, d2, s) \<Rightarrow> Some (Dim_px (to_int \<lfloor>1 / 2 + v\<rfloor>) v, d0 + d + d1 + d2, s)
                 | Some (Inr _, d2, s) \<Rightarrow> Some (Dim_relative (v * (1 / 100)), d0 + d + d1 + d2, s)))"

definition opt_literal :: "char \<Rightarrow> string \<Rightarrow> bool \<times> nat \<times> string" where
  "opt_literal c s =
     (case literal_p c s of None \<Rightarrow> (False, 0, s) | Some (_, d, r) \<Rightarrow> (True, d, r))"

definition point_p :: "(int \<times> int) parser" where
  "point_p s =
     (let (d0, s) = opt_space s; (expectRP, d1, s) = opt_literal CHR ''('' s
      in do {
        (x, d2, s) \<leftarrow> number_p s;
        let (d3, s) = opt_space s;
        let (_, d4, s) = opt_literal CHR '','' s;
        let (d5, s) = opt_space s;
        (y, d6, s) \<leftarrow> number_p s;
        let sd = d0 + d1 + d2 + d3 + d4 + d5 + d6;
        if expectRP
        then (let (d7, s) = opt_space s
              in case literal_p CHR '')'' s of
                   None \<Rightarrow> None
                 | Some (_, d8, s) \<Rightarrow>
                     Some ((to_int (trunc_rat x), to_int (trunc_rat y)), sd + d7 + d8, s))
        else Some ((to_int (trunc_rat x), to_int (trunc_rat y)), sd, s)
      })"

section \<open>Media clipping: SMPTE and NPT times\<close>

record smpte =
  sm_result :: "int list"
  sm_frame_rate :: int
  sm_drop :: bool

text \<open>The optional frame rate: \<open>junk\<close> is the uninitialised \<open>int_p::m_result\<close> that is
  compared with 25 when no digits follow the dash. Its digits are not added to the count.\<close>

definition smpte_rate :: "int \<Rightarrow> string \<Rightarrow> int \<times> nat \<times> string" where
  "smpte_rate junk s =
     (let (found, d, s) = opt_literal CHR ''-'' s
      in if found
         then (let (r, s) = (case any_int_p s of None \<Rightarrow> (junk, s) | Some (r, _, s) \<Rightarrow> (r, s))
               in (if r = 25 then 25 else 30, d, s))
         else (30, d, s))"

definition smpte_drop :: "string \<Rightarrow> bool \<times> string" where
  "smpte_drop s =
     (case literal_cstr_p ''-drop'' s of None \<Rightarrow> (False, s) | Some (_, _, s) \<Rightarrow> (True, s))"

text \<open>The loop over hours, minutes and seconds, from field \<open>i\<close> on.\<close>

fun smpte_fields :: "nat \<Rightarrow> nat \<Rightarrow> string \<Rightarrow> (int list \<times> nat \<times> string) option" where
  "smpte_fields 0 i s = Some ([], 0, s)"
| "smpte_fields (Suc n) i s =
     (case any_int_p s of
        None \<Rightarrow> None
      | Some (m, d, s) \<Rightarrow>
          (let v = (if 0 < i \<and> (m < 0 \<or> 59 < m) then 0 else m);
               (_, d', s) = opt_literal CHR '':'' s
           in map_option (\<lambda>(vs, sd, r). (v # vs, d + d' + sd, r)) (smpte_fields n (Suc i) s)))"

definition smpte_frames :: "int \<Rightarrow> string \<Rightarrow> int \<times> nat \<times> string" where
  "smpte_frames rate s =
     (case any_int_p s of
        None \<Rightarrow> (0, 0, s)
      | Some (m, d, s) \<Rightarrow> (if 0 \<le> m \<and> m < rate then m else 0, d, s))"

definition smpte_subframes :: "string \<Rightarrow> int \<times> nat \<times> string" where
  "smpte_subframes s =
     (case any_int_p s of
        None \<Rightarrow> (0, 0, s)
      | Some (m, d, s) \<Rightarrow> (m, d, s))"

definition smpte_p :: "int \<Rightarrow> smpte parser" where
  "smpte_p junk s =
     (let (d0, s) = opt_space s
      in do {
        (_, d1, s) \<leftarrow> literal_cstr_p ''smpte'' s;
        let (rate, d2, s) = smpte_rate junk s;
        let (drp, s) = smpte_drop s;
        let (_, d3, s) = opt_literal CHR ''='' s;
        (hms, d4, s) \<leftarrow> smpte_fields 3 0 s;
        let (frames, d5, s) = smpte_frames rate s;
        let (_, d6, s) = opt_literal CHR ''.'' s;
        let (sub, d7, s) = smpte_subframes s;
        Some (\<lparr>sm_result = hms @ [frames, sub], sm_frame_rate = rate, sm_drop = drp\<rparr>,
              d0 + d1 + d2 + d3 + d4 + d5 + d6 + d7, s)
      })"

definition frame_duration :: "int \<Rightarrow> rat" where
  "frame_duration rate = (if rate = 30 then (1001 / 1000) / 30 else 1 / 25)"

definition smpte_get_time :: "smpte \<Rightarrow> int" where
  "smpte_get_time t =
     (let r = (\<lambda>i. sm_result t ! i); fd = frame_duration (sm_frame_rate t)
      in to_long (to_int (r 0 * 60 * 60 * 1000 + r 1 * 60 * 1000 + r 2 * 1000)
           + to_long \<lfloor>((of_int (r 3) * fd + of_int (r 4) * fd / 2) + 1 / 2) * 1000\<rfloor>))"

definition npt_p :: "int parser" where
  "npt_p s =
     (let (d0, s) = opt_space s;
          (d1, s) = (case literal_cstr_p ''npt'' s of None \<Rightarrow> (0, s) | Some (_, d, r) \<Rightarrow> (d, r));
          (_, d2, s) = opt_literal CHR ''='' s
      in case clock_value_p s of
           None \<Rightarrow> None
         | Some (v, d, s) \<Rightarrow> Some (v, d0 + d1 + d2 + d, s))"

definition mediaclipping_p :: "int \<Rightarrow> int parser" where
  "mediaclipping_p junk s =
     (case npt_p s of
        Some (v, d, r) \<Rightarrow> Some (v, d, r)
      | None \<Rightarrow>
     (case smpte_p junk s of
        Some (t, d, r) \<Rightarrow> Some (smpte_get_time t, d, r)
      | None \<Rightarrow> None))"

section \<open>Wall clock values\<close>

record tm =
  tm_sec :: int
  tm_min :: int
  tm_hour :: int
  tm_mday :: int
  tm_mon :: int
  tm_year :: int

definition tm_zero :: tm where
  "tm_zero = \<lparr>tm_sec = 0, tm_min = 0, tm_hour = 0, tm_mday = 0, tm_mon = 0, tm_year = 0\<rparr>"

definition date_p :: "tm parser" where
  "date_p s = do {
     (y, d1, s) \<leftarrow> any_int_p s;
     (_, d2, s) \<leftarrow> literal_p CHR ''-'' s;
     (m, d3, s) \<leftarrow> int_p 1 12 s;
     (_, d4, s) \<leftarrow> literal_p CHR ''-'' s;
     (d, d5, s) \<leftarrow> int_p 1 31 s;
     Some (tm_zero\<lparr>tm_year := to_int (y - 1900), tm_mon := m - 1, tm_mday := d\<rparr>,
           d1 + d2 + d3 + d4 + d5, s)
   }"

definition walltime_p :: "tm parser" where
  "walltime_p s0 = do {
     (h, d1, s) \<leftarrow> int_p 0 23 s0;
     (_, d2, s) \<leftarrow> literal_p CHR '':'' s;
     (m, d3, s) \<leftarrow> int_p 0 59 s;
     let t = tm_zero\<lparr>tm_hour := h, tm_min := m\<rparr>;
     (case literal_p CHR '':'' s of
        Some _ \<Rightarrow> do {
          (r, d, s) \<leftarrow> full_clock_value_p s0;
          Some (t\<lparr>tm_hour := cf_hours r, tm_min := cf_minutes r, tm_sec := cf_seconds r\<rparr>, d, s)
        }
      | None \<Rightarrow> Some (t\<lparr>tm_sec := 0\<rparr>, d1 + d2 + d3, s))
   }"

definition datetime_p :: "tm parser" where
  "datetime_p s = do {
     (date, d1, s) \<leftarrow> date_p s;
     (_, d2, s) \<leftarrow> literal_p CHR ''T'' s;
     (w, d3, s) \<leftarrow> walltime_p s;
     Some (date\<lparr>tm_hour := tm_hour w, tm_min := tm_min w, tm_sec := tm_sec w\<rparr>, d1 + d2 + d3, s)
   }"

definition wallclock_time :: "tm parser" where
  "wallclock_time s =
     (case datetime_p s of Some x \<Rightarrow> Some x | None \<Rightarrow>
     (case walltime_p s of Some x \<Rightarrow> Some x | None \<Rightarrow> date_p s))"

text \<open>The optional time zone designator; its value is parsed and dropped.\<close>

definition wallclock_tzd :: "string \<Rightarrow> (nat \<times> string) option" where
  "wallclock_tzd s =
     (case literal_p CHR ''Z'' s of
        Some (_, d, s) \<Rightarrow> Some (d, s)
      | None \<Rightarrow>
          (let (plus, d1, s1) = opt_literal CHR ''+'' s;
               (minus, d2, s2) = (if plus then (False, 0, s1) else opt_literal CHR ''-'' s1)
           in if plus \<or> minus
              then do {
                (_, d3, s) \<leftarrow> int_p 0 23 s2;
                (_, d4, s) \<leftarrow> literal_p CHR '':'' s;
                (_, d5, s) \<leftarrow> int_p 0 59 s;
                Some (d1 + d2 + d3 + d4 + d5, s)
              }
              else Some (0, s2)))"

definition wallclock_p :: "int parser" where
  "wallclock_p s = do {
     (_, d0, s) \<leftarrow> literal_cstr_p ''wallclock('' s;
     let (d1, s) = opt_space s;
     (_, d2, s) \<leftarrow> wallclock_time s;
     (d3, s) \<leftarrow> wallclock_tzd s;
     let (d4, s) = opt_space s;
     (_, d5, s) \<leftarrow> literal_p CHR '')'' s;
     Some (0, d0 + d1 + d2 + d3 + d4 + d5, s)
   }"

section \<open>Contracts of the domain parselets\<close>

lemma opt_sign_consumes: "opt_sign s = Some (x, d, r) \<Longrightarrow> d \<le> length s \<and> r = drop d s"
  by (auto simp: opt_sign_def dest: delimiter.consumes)

lemma opt_literal_consumes: "opt_literal c s = (b, d, r) \<Longrightarrow> d \<le> length s \<and> r = drop d s"
  by (auto simp: opt_literal_def split: option.splits dest: literal.consumes)

lemma optional_fraction_consumes:
  "optional_fraction sd s = Some (x, d, r) \<Longrightarrow> \<exists>n. d = sd + n \<and> n \<le> length s \<and> r = drop n s"
proof (cases "literal_p CHR ''.'' s")
  case None
  assume "optional_fraction sd s = Some (x, d, r)"
  with None show ?thesis by (auto simp: optional_fraction_def)
next
  case (Some t)
  then obtain c d1 r1 where l: "literal_p CHR ''.'' s = Some (c, d1, r1)" by (cases t) auto
  assume "optional_fraction sd s = Some (x, d, r)"
  with l obtain d2 where "fraction_p r1 = Some (x, d2, r)" "d = sd + d1 + d2"
    by (auto simp: optional_fraction_def split: option.splits)
  with literal.consumes [OF l] fraction.consumes [of r1 x d2 r] show ?thesis
    by (intro exI [of _ "d1 + d2"]) (auto simp: add.commute)
qed

lemmas consume_rules = any_int.consumes int.consumes literal.consumes literal_cstr.consumes
  number.consumes fraction.consumes opt_literal_consumes opt_sign_consumes opt_space_consumes

interpretation time_unit: progressing_parselet time_unit_p
  by unfold_locales
    (auto simp: time_unit_p_def literal_cstr_p_def split: option.splits dest!: literal_cstr_loop_consumes)

interpretation length_unit: progressing_parselet length_unit_p
  by unfold_locales
    (auto simp: length_unit_p_def literal_cstr_p_def split: option.splits dest!: literal_cstr_loop_consumes)

interpretation full_clock_value: parselet full_clock_value_p
proof
  fix s x d r assume "full_clock_value_p s = Some (x, d, r)"
  then obtain d1 s1 d2 s2 d3 s3 d4 s4 d5 s5 a b c h e f where
    p: "any_int_p s = Some (a, d1, s1)" "literal_p CHR '':'' s1 = Some (b, d2, s2)"
      "any_int_p s2 = Some (c, d3, s3)" "literal_p CHR '':'' s3 = Some (h, d4, s4)"
      "any_int_p s4 = Some (e, d5, s5)"
      "optional_fraction (d1 + d2 + d3 + d4 + d5) s5 = Some (f, d, r)"
    by (auto simp: full_clock_value_p_def bind_eq_Some_conv)
  from optional_fraction_consumes [OF p(6)] p(1-5) show "d \<le> length s \<and> r = drop d s"
    by (auto dest!: any_int.consumes literal.consumes simp: add.commute add.left_commute)
qed

interpretation partial_clock_value: parselet partial_clock_value_p
proof
  fix s x d r assume "partial_clock_value_p s = Some (x, d, r)"
  then obtain d1 s1 d2 s2 d3 s3 a b c f where
    p: "any_int_p s = Some (a, d1, s1)" "literal_p CHR '':'' s1 = Some (b, d2, s2)"
      "any_int_p s2 = Some (c, d3, s3)" "optional_fraction (d1 + d2 + d3) s3 = Some (f, d, r)"
    by (auto simp: partial_clock_value_p_def bind_eq_Some_conv)
  from optional_fraction_consumes [OF p(4)] p(1-3) show "d \<le> length s \<and> r = drop d s"
    by (auto dest!: any_int.consumes literal.consumes simp: add.commute add.left_commute)
qed

interpretation timecount_value: parselet timecount_value_p
  by unfold_locales
    (auto simp: timecount_value_p_def add.commute split: option.splits
      dest!: number.consumes time_unit.consumes)

interpretation clock_value_sel: parselet clock_value_sel_p
  unfolding clock_value_sel_p_def
  by (intro parselet_or_trio full_clock_value.parselet_axioms partial_clock_value.parselet_axioms
      timecount_value.parselet_axioms)

interpretation clock_value: parselet clock_value_p
  by unfold_locales (auto simp: clock_value_p_def dest: clock_value_sel.consumes)

interpretation offset_value: parselet offset_value_p
proof
  fix s x d r assume a: "offset_value_p s = Some (x, d, r)"
  obtain d0 s0 where 0: "opt_space s = (d0, s0)" by (cases "opt_space s")
  obtain sg d1 s1 where 1: "(case opt_sign s0 of None \<Rightarrow> (1, 0, s0) | Some t \<Rightarrow> t) = (sg, d1, s1)"
    by (cases "case opt_sign s0 of None \<Rightarrow> (1, 0, s0) | Some t \<Rightarrow> t")
  then have c1: "d1 \<le> length s0 \<and> s1 = drop d1 s0"
    by (auto split: option.splits dest: opt_sign_consumes)
  obtain d2 s2 where 2: "opt_space s1 = (d2, s2)" by (cases "opt_space s1")
  from a 0 1 2 obtain c d3 where 3: "clock_value_p s2 = Some (c, d3, r)" "d = d0 + d1 + d2 + d3"
    by (auto simp: offset_value_p_def Let_def split: option.splits)
  from c1 opt_space_consumes [OF 0] opt_space_consumes [OF 2] clock_value.consumes [OF 3(1)] 3(2)
  show "d \<le> length s \<and> r = drop d s" by (auto simp: add.commute add.left_commute)
qed

interpretation coord: parselet coord_p
  by unfold_locales
    (auto simp: coord_p_def Let_def add.commute add.left_commute split: option.splits prod.splits
      dest!: number.consumes length_unit.consumes opt_space_consumes)

interpretation dim_unit: parselet "or_pair_p (literal_cstr_p ''px'') (literal_cstr_p ''%'')"
  by (intro parselet_or_pair literal_cstr.parselet_axioms)

interpretation region_dim: parselet region_dim_p
  by unfold_locales
    (auto simp: region_dim_p_def Let_def add.commute add.left_commute
      split: option.splits prod.splits sum.splits
      dest!: number.consumes dim_unit.consumes opt_space_consumes)

interpretation npt: parselet npt_p
  by unfold_locales
    (auto simp: npt_p_def Let_def add.commute add.left_commute
      split: option.splits prod.splits
      dest!: clock_value.consumes opt_literal_consumes literal_cstr.consumes opt_space_consumes)

interpretation date: parselet date_p
  by unfold_locales
    (auto simp: date_p_def bind_eq_Some_conv add.commute add.left_commute
      dest!: any_int.consumes int.consumes literal.consumes)

interpretation walltime: parselet walltime_p
proof
  fix s x d r assume a: "walltime_p s = Some (x, d, r)"
  then obtain h d1 s1 c d2 s2 m d3 s3 where
    p: "int_p 0 23 s = Some (h, d1, s1)" "literal_p CHR '':'' s1 = Some (c, d2, s2)"
      "int_p 0 59 s2 = Some (m, d3, s3)"
    by (auto simp: walltime_p_def bind_eq_Some_conv)
  show "d \<le> length s \<and> r = drop d s"
  proof (cases "literal_p CHR '':'' s3")
    case None
    with a p have "d = d1 + d2 + d3" "r = s3" by (auto simp: walltime_p_def)
    with p show ?thesis
      by (auto dest!: int.consumes literal.consumes simp: add.commute add.left_commute)
  next
    case (Some t)
    with a p show ?thesis
      by (auto simp: walltime_p_def bind_eq_Some_conv dest: full_clock_value.consumes)
  qed
qed

interpretation datetime: parselet datetime_p
  by unfold_locales
    (auto simp: datetime_p_def bind_eq_Some_conv add.commute add.left_commute
      dest!: date.consumes literal.consumes walltime.consumes)

interpretation wallclock_time: parselet wallclock_time
  by unfold_locales
    (auto simp: wallclock_time_def split: option.splits
      dest: date.consumes datetime.consumes walltime.consumes)

lemma wallclock_tzd_consumes: "wallclock_tzd s = Some (d, r) \<Longrightarrow> d \<le> length s \<and> r = drop d s"
proof (cases "literal_p CHR ''Z'' s")
  case (Some t)
  assume "wallclock_tzd s = Some (d, r)"
  with Some show ?thesis by (cases t) (auto simp: wallclock_tzd_def dest: literal.consumes)
next
  case None
  assume a: "wallclock_tzd s = Some (d, r)"
  obtain plus d1 s1 where 1: "opt_literal CHR ''+'' s = (plus, d1, s1)"
    by (cases "opt_literal CHR ''+'' s")
  obtain minus d2 s2 where 2: "(if plus then (False, 0, s1) else opt_literal CHR ''-'' s1) = (minus, d2, s2)"
    by (cases "if plus then (False, 0, s1) else opt_literal CHR ''-'' s1")
  then have c2: "d2 \<le> length s1 \<and> s2 = drop d2 s1"
    by (auto split: if_splits dest: opt_literal_consumes)
  have c12: "d1 + d2 \<le> length s \<and> s2 = drop (d1 + d2) s"
    using opt_literal_consumes [OF 1] c2 by (auto simp: add.commute)
  show ?thesis
  proof (cases "plus \<or> minus")
    case True
    with a None 1 2 obtain x d3 s3 y d4 s4 z d5 where
      "int_p 0 23 s2 = Some (x, d3, s3)" "literal_p CHR '':'' s3 = Some (y, d4, s4)"
      "int_p 0 59 s4 = Some (z, d5, r)" "d = d1 + d2 + d3 + d4 + d5"
      by (auto simp: wallclock_tzd_def Let_def bind_eq_Some_conv)
    with c12 show ?thesis
      by (auto dest!: int.consumes literal.consumes simp: add.commute add.left_commute)
  next
    case False
    with 1 2 have "d1 = 0 \<and> s1 = s" "d2 = 0 \<and> s2 = s1"
      by (auto simp: opt_literal_def split: option.splits if_splits)
    with a None 1 2 False show ?thesis by (auto simp: wallclock_tzd_def Let_def)
  qed
qed

interpretation wallclock: parselet wallclock_p
proof
  fix s x d r assume a: "wallclock_p s = Some (x, d, r)"
  then obtain p d0 s0 where 0: "literal_cstr_p ''wallclock('' s = Some (p, d0, s0)"
    by (auto simp: wallclock_p_def bind_eq_Some_conv)
  obtain d1 s1 where 1: "opt_space s0 = (d1, s1)" by (cases "opt_space s0")
  from a 0 1 obtain t d2 s2 d3 s3 where 2: "wallclock_time s1 = Some (t, d2, s2)"
      "wallclock_tzd s2 = Some (d3, s3)"
    by (auto simp: wallclock_p_def bind_eq_Some_conv)
  obtain d4 s4 where 4: "opt_space s3 = (d4, s4)" by (cases "opt_space s3")
  from a 0 1 2 4 obtain c d5 where 5: "literal_p CHR '')'' s4 = Some (c, d5, r)"
      "d = d0 + d1 + d2 + d3 + d4 + d5"
    by (auto simp: wallclock_p_def bind_eq_Some_conv)
  from literal_cstr.consumes [OF 0] opt_space_consumes [OF 1] wallclock_time.consumes [OF 2(1)]
    wallclock_tzd_consumes [OF 2(2)] opt_space_consumes [OF 4] literal.consumes [OF 5(1)] 5(2)
  show "d \<le> length s \<and> r = drop d s" by (auto simp: add.commute add.left_commute)
qed

interpretation point: parselet point_p
proof
  fix s v d r assume a: "point_p s = Some (v, d, r)"
  obtain d0 s0 where 0: "opt_space s = (d0, s0)" by (cases "opt_space s")
  obtain rp d1 s1 where 1: "opt_literal CHR ''('' s0 = (rp, d1, s1)"
    by (cases "opt_literal CHR ''('' s0")
  from a 0 1 obtain x d2 s2 where 2: "number_p s1 = Some (x, d2, s2)"
    by (auto simp: point_p_def Let_def bind_eq_Some_conv)
  obtain d3 s3 where 3: "opt_space s2 = (d3, s3)" by (cases "opt_space s2")
  obtain b d4 s4 where 4: "opt_literal CHR '','' s3 = (b, d4, s4)"
    by (cases "opt_literal CHR '','' s3")
  obtain d5 s5 where 5: "opt_space s4 = (d5, s5)" by (cases "opt_space s4")
  from a 0 1 2 3 4 5 obtain y d6 s6 where 6: "number_p s5 = Some (y, d6, s6)"
    by (auto simp: point_p_def Let_def bind_eq_Some_conv)
  let ?sd = "d0 + d1 + d2 + d3 + d4 + d5 + d6"
  have c: "?sd \<le> length s \<and> s6 = drop ?sd s"
    using opt_space_consumes [OF 0] opt_literal_consumes [OF 1] number.consumes [OF 2]
      opt_space_consumes [OF 3] opt_literal_consumes [OF 4] opt_space_consumes [OF 5]
      number.consumes [OF 6]
    by (auto simp: add.commute add.left_commute)
  show "d \<le> length s \<and> r = drop d s"
  proof (cases rp)
    case False
    with a 0 1 2 3 4 5 6 c show ?thesis by (auto simp: point_p_def Let_def)
  next
    case True
    obtain d7 s7 where 7: "opt_space s6 = (d7, s7)" by (cases "opt_space s6")
    from True a 0 1 2 3 4 5 6 7 obtain e d8 where
      8: "literal_p CHR '')'' s7 = Some (e, d8, r)" "d = ?sd + d7 + d8"
      by (auto simp: point_p_def Let_def split: option.splits)
    from c opt_space_consumes [OF 7] literal.consumes [OF 8(1)] 8(2) show ?thesis
      by (auto simp: add.commute add.left_commute)
  qed
qed

text \<open>The contract, written out.\<close>

definition reports_distance :: "'a parser \<Rightarrow> bool" where
  "reports_distance p \<longleftrightarrow>
     (\<forall>s. case p s of None \<Rightarrow> True | Some (_, d, r) \<Rightarrow> d \<le> length s \<and> r = drop d s)"

lemma parselet_reports_distance: "parselet p \<Longrightarrow> reports_distance p"
  by (auto simp: reports_distance_def split: option.splits dest: parselet.consumes)

text \<open>
  C31: every number, time, clock, offset, coordinate, point, date and wall clock parselet keeps
  the contract of \<open>basic_parselet::parse\<close>: on success the value returned is the number of
  characters the iterator has moved, never past the end.
\<close>

theorem parselets_keep_contract:
  "reports_distance number_p \<and> reports_distance number_list_p \<and> reports_distance full_clock_value_p
   \<and> reports_distance partial_clock_value_p \<and> reports_distance timecount_value_p
   \<and> reports_distance clock_value_p \<and> reports_distance offset_value_p \<and> reports_distance coord_p
   \<and> reports_distance region_dim_p \<and> reports_distance point_p \<and> reports_distance npt_p
   \<and> reports_distance date_p \<and> reports_distance walltime_p \<and> reports_distance datetime_p
   \<and> reports_distance wallclock_p"
  by (intro conjI parselet_reports_distance number.parselet_axioms number_list.parselet_axioms
      full_clock_value.parselet_axioms
      partial_clock_value.parselet_axioms timecount_value.parselet_axioms clock_value.parselet_axioms
      offset_value.parselet_axioms coord.parselet_axioms region_dim.parselet_axioms
      point.parselet_axioms npt.parselet_axioms date.parselet_axioms walltime.parselet_axioms
      datetime.parselet_axioms wallclock.parselet_axioms)

section \<open>Reading back printed values\<close>

definition digits_value :: "int \<Rightarrow> string \<Rightarrow> int" where
  "digits_value m ds = foldl (\<lambda>m c. to_int (m * 10 + digit_val c)) m ds"

lemma int_digits_append:
  "list_all is_digit ds \<Longrightarrow> r = [] \<or> \<not> is_digit (hd r) \<Longrightarrow>
   int_digits m (ds @ r) = (digits_value m ds, length ds, r)"
  by (induction ds arbitrary: m) (cases r; auto simp: digits_value_def)+

lemma digits_value_show_nat: "int n < 2 ^ 31 \<Longrightarrow> digits_value 0 (show_nat n) = int n"
proof (induction n rule: show_nat.induct)
  case (1 n)
  show ?case
  proof (cases "n < 10")
    case True
    then show ?thesis
      by (subst show_nat.simps) (simp add: digits_value_def is_int_def)
  next
    case False
    have "int (n div 10) < 2 ^ 31"
      using 1(2) by (meson div_le_dividend le_less_trans of_nat_le_iff)
    with 1 False have "digits_value 0 (show_nat (n div 10)) = int (n div 10)" by simp
    then have "digits_value 0 (show_nat n) = to_int (int (n div 10) * 10 + int (n mod 10))"
      using False by (subst show_nat.simps) (simp add: digits_value_def)
    also have "int (n div 10) * 10 + int (n mod 10) = int n"
      by (metis div_mult_mod_eq of_nat_add of_nat_mult of_nat_numeral)
    finally show ?thesis using 1(2) by (simp add: is_int_def)
  qed
qed

lemma show_nat_hd: "is_digit (hd (show_nat n))"
  using show_nat_digits [of n] by (cases "show_nat n") auto

lemma int_p_show_nat:
  assumes "int n < 2 ^ 31" and "r = [] \<or> \<not> is_digit (hd r)" and "mn \<le> int n" and "int n \<le> mx"
  shows "int_p mn mx (show_nat n @ r) = Some (int n, length (show_nat n), r)"
proof -
  obtain c t where ct: "show_nat n = c # t" "is_digit c"
    using show_nat_hd [of n] by (cases "show_nat n") auto
  have "int_digits 0 (show_nat n @ r) = (int n, length (show_nat n), r)"
    using assms by (simp add: int_digits_append show_nat_digits digits_value_show_nat)
  with ct assms(3,4) show ?thesis by (simp add: int_p_def)
qed

lemma any_int_p_show_nat:
  assumes "int n < 2 ^ 31" and "r = [] \<or> \<not> is_digit (hd r)"
  shows "any_int_p (show_nat n @ r) = Some (int n, length (show_nat n), r)"
  unfolding any_int_p_def using assms by (intro int_p_show_nat) auto

definition pad3 :: "nat \<Rightarrow> string" where
  "pad3 f = [digit_char (f div 100), digit_char (f div 10 mod 10), digit_char (f mod 10)]"

lemma is_digit_not [simp]:
  "\<not> is_digit CHR '':''" "\<not> is_digit CHR ''.''" "\<not> is_digit CHR ''s''"
  "\<not> is_digit CHR ''h''" "\<not> is_digit CHR ''m''" "\<not> is_digit CHR ''-''"
  by (simp_all add: is_digit_def)

lemma fraction_p_pad3:
  assumes "f < 1000"
  shows "fraction_p (pad3 f) = Some (int f, 3, [])"
proof -
  have lt: "f div 100 < 10" "f div 10 mod 10 < 10" "f mod 10 < 10" using assms by auto
  have d: "list_all is_digit (pad3 f)" using lt by (simp add: pad3_def)
  have value3: "digits_value 0 [digit_char a, digit_char b, digit_char c] = int (a * 100 + b * 10 + c)"
    if "a < 10" "b < 10" "c < 10" for a b c
    using that by (simp add: digits_value_def is_int_def)
  have "digits_value 0 (pad3 f) = int (f div 100 * 100 + f div 10 mod 10 * 10 + f mod 10)"
    unfolding pad3_def by (rule value3 [OF lt])
  also have "f div 100 * 100 + f div 10 mod 10 * 10 + f mod 10 = f"
  proof -
    have "f div 100 = f div 10 div 10" by (simp add: div_mult2_eq [symmetric])
    then show ?thesis
      using div_mult_mod_eq [of "f div 10" 10] div_mult_mod_eq [of f 10] by linarith
  qed
  finally have "int_digits 0 (pad3 f @ []) = (int f, 3, [])"
    using int_digits_append [OF d, of "[]" 0] by (simp add: pad3_def)
  then have "any_int_p (pad3 f) = Some (int f, 3, [])"
    using d assms by (simp add: any_int_p_def int_p_def pad3_def)
  then show ?thesis by (simp add: fraction_p_def frac_up.simps frac_down.simps)
qed

definition print_clock :: "nat \<Rightarrow> nat \<Rightarrow> nat \<Rightarrow> nat \<Rightarrow> string" where
  "print_clock h m s f = show_nat h @ '':'' @ show_nat m @ '':'' @ show_nat s @ ''.'' @ pad3 f"

lemma or_trio_first_total:
  assumes "parselet q" and "parselet t" and "p s = Some (x, length s, r)"
  shows "or_trio_p p q t s = Some (First x, length s, r)"
proof -
  have "plen (q s) \<le> int (length s)" "plen (t s) \<le> int (length s)"
    using assms(1,2) parselet.consumes by (fastforce simp: plen_def split: option.splits)+
  with assms(3) show ?thesis
    by (auto simp: or_trio_p_def Let_def plen_def max_def split: option.splits)
qed

lemma full_clock_value_print:
  assumes "int h < 2 ^ 31" "int m < 2 ^ 31" "int s < 2 ^ 31" "f < 1000"
  shows "full_clock_value_p (print_clock h m s f) =
    Some (\<lparr>cf_hours = int h, cf_minutes = int m, cf_seconds = int s, cf_fraction = int f\<rparr>,
          length (print_clock h m s f), [])"
  using assms
  by (simp add: full_clock_value_p_def print_clock_def any_int_p_show_nat literal_p_def
      optional_fraction_def fraction_p_pad3 pad3_def [THEN arg_cong [of _ _ length], simplified])

text \<open>
  A clock value printed as hours, minutes, seconds and a three digit fraction is read back
  to exactly its number of milliseconds, with the whole text consumed, as long as that number
  fits an \<open>int\<close>.
\<close>

theorem clock_value_roundtrip:
  assumes "f < 1000" and "int h * 3600000 + int m * 60000 + int s * 1000 + int f < 2 ^ 31"
  shows "clock_value_p (print_clock h m s f) =
    Some (int h * 3600000 + int m * 60000 + int s * 1000 + int f, length (print_clock h m s f), [])"
proof -
  have b: "int h < 2 ^ 31" "int m < 2 ^ 31" "int s < 2 ^ 31" using assms by auto
  have "is_int (int h * 3600000 + int m * 60000 + int s * 1000 + int f)"
    using assms by (simp add: is_int_def)
  then have i: "to_int (int h * 3600000 + int m * 60000 + int s * 1000 + int f)
      = int h * 3600000 + int m * 60000 + int s * 1000 + int f"
    by (rule to_int_id)
  have fr: "fraction_to_ms (int f) = int f" by (simp add: fraction_to_ms_def)
  show ?thesis
    using i or_trio_first_total [OF partial_clock_value.parselet_axioms
        timecount_value.parselet_axioms, of full_clock_value_p "print_clock h m s f",
        OF full_clock_value_print [OF b assms(1)]]
    by (simp add: clock_value_p_def clock_value_sel_p_def clock_ms_def ms_consts fr)
qed

theorem clock_value_roundtrip_witness:
  "clock_value_p (print_clock 1 2 3 45) = Some (3723045, length (print_clock 1 2 3 45), [])"
  using clock_value_roundtrip [of 45 1 2 3] by simp

definition unit_text :: "time_unit \<Rightarrow> string" where
  "unit_text u = (case u of tu_h \<Rightarrow> ''h'' | tu_min \<Rightarrow> ''min'' | tu_s \<Rightarrow> ''s'' | tu_ms \<Rightarrow> ''ms'')"

definition unit_ms :: "time_unit \<Rightarrow> int" where
  "unit_ms u = (case u of tu_h \<Rightarrow> 3600000 | tu_min \<Rightarrow> 60000 | tu_s \<Rightarrow> 1000 | tu_ms \<Rightarrow> 1)"

lemma digit_not_special:
  "is_digit c \<Longrightarrow> c \<notin> set space_chars \<and> c \<notin> set ''+-'' \<and> c \<noteq> CHR ''.'' \<and> c \<noteq> CHR '':''"
  by (auto simp: is_digit_def space_chars_def)

lemma number_p_show_nat:
  assumes "int n < 2 ^ 31" and "r = [] \<or> \<not> is_digit (hd r) \<and> hd r \<noteq> CHR ''.''"
  shows "number_p (show_nat n @ r) = Some (of_int (int n), length (show_nat n), r)"
proof -
  obtain c t where ct: "show_nat n = c # t" "is_digit c"
    using show_nat_hd [of n] by (cases "show_nat n") auto
  note c = digit_not_special [OF ct(2)]
  have sp: "opt_space (show_nat n @ r) = (0, show_nat n @ r)" using ct c by simp
  have sg: "opt_sign (show_nat n @ r) = None" using ct c by (simp add: opt_sign_def delimiter_p_def)
  have dot: "literal_p CHR ''.'' r = None" using assms(2) by (cases r) (auto simp: literal_p_def)
  have i: "any_int_p (show_nat n @ r) = Some (int n, length (show_nat n), r)"
    using assms by (intro any_int_p_show_nat) auto
  have "number_unsigned 1 0 (show_nat n @ r) = Some (of_int (int n), length (show_nat n), r)"
    using ct c dot i assms(1) by (simp add: number_unsigned_def is_int_def)
  with sp sg show ?thesis by (simp add: number_p_def)
qed

lemma unit_text_facts:
  "time_unit_p (unit_text u) = Some (u, length (unit_text u), [])
   \<and> unit_text u \<noteq> [] \<and> \<not> is_digit (hd (unit_text u)) \<and> hd (unit_text u) \<noteq> CHR ''.''
   \<and> literal_p CHR '':'' (unit_text u) = None"
  by (cases u) (simp_all add: unit_text_def time_unit_p_def literal_cstr_p_def literal_p_def)

lemma clock_value_units:
  assumes "int n < 2 ^ 31"
  shows "clock_value_p (show_nat n @ unit_text u) =
    Some (int n * unit_ms u, length (show_nat n) + length (unit_text u), [])"
proof -
  note u = unit_text_facts [of u]
  have i: "any_int_p (show_nat n @ unit_text u) = Some (int n, length (show_nat n), unit_text u)"
    using assms u by (intro any_int_p_show_nat) auto
  have n: "number_p (show_nat n @ unit_text u)
      = Some (of_int (int n), length (show_nat n), unit_text u)"
    using assms u by (intro number_p_show_nat) auto
  have f: "full_clock_value_p (show_nat n @ unit_text u) = None"
    "partial_clock_value_p (show_nat n @ unit_text u) = None"
    using i u by (simp_all add: full_clock_value_p_def partial_clock_value_p_def)
  have t: "timecount_value_p (show_nat n @ unit_text u)
      = Some ((of_int (int n), u), length (show_nat n) + length (unit_text u), [])"
    using n u by (simp add: timecount_value_p_def)
  have fl: "\<lfloor>of_int (int n) * of_int k + 1 / 2 :: rat\<rfloor> = int n * k" for k
    by (metis floor_half of_int_mult)
  have w: "to_long (int n * k) = int n * k" if "0 < k" "k \<le> 3600000" for k
  proof (rule to_long_id)
    have "int n * k \<le> 2 ^ 31 * 3600000" using assms that by (intro mult_mono) auto
    moreover have "0 \<le> int n * k" using that by simp
    ultimately show "is_long (int n * k)" by (simp add: c_arith)
  qed
  have "timecount_ms (of_int (int n)) u = int n * unit_ms u"
    using fl [of H_MS] fl [of MIN_MS] fl [of S_MS] fl [of 1] w [of H_MS] w [of MIN_MS] w [of S_MS] w [of 1]
    by (cases u) (simp_all add: timecount_ms_def unit_ms_def ms_consts)
  with f t show ?thesis
    by (simp add: clock_value_p_def clock_value_sel_p_def or_trio_p_def plen_def clock_ms_def)
qed

lemma offset_value_units:
  assumes "int n < 2 ^ 31" "sg = CHR ''+'' \<or> sg = CHR ''-''"
  shows "offset_value_p (sg # show_nat n @ unit_text u) =
    Some ((if sg = CHR ''+'' then 1 else - 1) * (int n * unit_ms u),
      Suc (length (show_nat n) + length (unit_text u)), [])"
proof -
  obtain c t where ct: "show_nat n = c # t" "is_digit c"
    using show_nat_hd [of n] by (cases "show_nat n") auto
  note c = digit_not_special [OF ct(2)]
  have "opt_space (sg # show_nat n @ unit_text u) = (0, sg # show_nat n @ unit_text u)"
    using assms(2) by (intro opt_space_none) (auto simp: space_chars_def)
  moreover have "opt_space (show_nat n @ unit_text u) = (0, show_nat n @ unit_text u)"
    using ct c by simp
  moreover have "opt_sign (sg # show_nat n @ unit_text u)
      = Some (if sg = CHR ''+'' then 1 else - 1, 1, show_nat n @ unit_text u)"
    using assms(2) by (auto simp: opt_sign_def delimiter_p_def)
  moreover have "is_long (k * (int n * unit_ms u))" if "k = 1 \<or> k = - 1" for k
  proof -
    have "int n * unit_ms u \<le> 2 ^ 31 * 3600000" "0 \<le> int n * unit_ms u"
      using assms(1) by (auto simp: unit_ms_def intro!: mult_mono split: time_unit.splits)
    then show ?thesis using that by (auto simp: c_arith)
  qed
  ultimately show ?thesis
    using clock_value_units [OF assms(1), of u] by (auto simp: offset_value_p_def)
qed

text \<open>
  A whole number followed by one of the units \<open>h\<close>, \<open>min\<close>, \<open>s\<close>, \<open>ms\<close> is read as that
  many hours, minutes, seconds or milliseconds, consuming the unit; with a sign in front it is
  the offset of that length and sign.
\<close>

theorem timecount_units:
  assumes "int n < 2 ^ 31"
  shows "clock_value_p (show_nat n @ unit_text u)
      = Some (int n * unit_ms u, length (show_nat n @ unit_text u), [])
    \<and> offset_value_p (CHR ''+'' # show_nat n @ unit_text u)
      = Some (int n * unit_ms u, Suc (length (show_nat n @ unit_text u)), [])
    \<and> offset_value_p (CHR ''-'' # show_nat n @ unit_text u)
      = Some (- (int n * unit_ms u), Suc (length (show_nat n @ unit_text u)), [])"
  using clock_value_units [OF assms] offset_value_units [OF assms, of "CHR ''+''"]
    offset_value_units [OF assms, of "CHR ''-''"] by simp

theorem timecount_units_witness: "clock_value_p (show_nat 45 @ ''min'') = Some (2700000, 5, [])"
proof -
  have "length (show_nat 45) = 2" by (simp add: show_nat.simps)
  then show ?thesis using timecount_units [of 45 tu_min] by (simp add: unit_text_def unit_ms_def)
qed

text \<open>
  The hours of a full clock value are multiplied in 32 bits: every value from 597 hours to
  1193 hours is read as a negative time, 2^32 milliseconds too small.
\<close>

theorem clock_value_overflow:
  assumes "597 \<le> h" and "h \<le> 1193"
  shows "\<exists>v. clock_value_p (print_clock h 0 0 0) = Some (v, length (print_clock h 0 0 0), [])
    \<and> v = int h * 3600000 - 2 ^ 32 \<and> v < 0"
proof -
  let ?x = "int h * 3600000"
  have b: "2149200000 \<le> ?x" "?x \<le> 4294800000" using assms by auto
  have "(?x + 2 ^ 31) mod 2 ^ 32 = ?x + 2 ^ 31 - 2 ^ 32"
    using b mod_pos_pos_trivial [of "?x + 2 ^ 31 - 2 ^ 32" "2 ^ 32"] minus_mod_self2 [of "?x + 2 ^ 31" "2 ^ 32"]
    by simp
  then have w: "to_int ?x = ?x - 2 ^ 32" by (simp add: to_int_def)
  have "int h < 2 ^ 31" "int 0 < 2 ^ 31" "(0::nat) < 1000" using assms by auto
  from or_trio_first_total [OF partial_clock_value.parselet_axioms timecount_value.parselet_axioms,
      of full_clock_value_p "print_clock h 0 0 0", OF full_clock_value_print [OF this(1) this(2) this(2) this(3)]]
  show ?thesis
    using b w by (simp add: clock_value_p_def clock_value_sel_p_def clock_ms_def ms_consts fraction_to_ms_def)
qed

theorem clock_value_overflow_witness:
  "\<exists>v. clock_value_p (print_clock 600 0 0 0) = Some (v, length (print_clock 600 0 0 0), []) \<and> v < 0"
  using clock_value_overflow [of 600] by auto

text \<open>
  \<open>get_time\<close> of an SMPTE value adds one half before scaling to milliseconds and not
  after: every value with frames in range is half a second later than the time it denotes.
\<close>

theorem smpte_half_second:
  assumes t: "sm_result t = [h, m, s, f, sub]"
    and hms: "0 \<le> h" "0 \<le> m" "0 \<le> s" "h * 3600000 + m * 60000 + s * 1000 < 2 ^ 31"
    and fr: "0 \<le> f" "f < 30" "0 \<le> sub" "sub < 2"
  shows "smpte_get_time t = h * 3600000 + m * 60000 + s * 1000
    + \<lfloor>(of_int f * frame_duration (sm_frame_rate t)
        + of_int sub * frame_duration (sm_frame_rate t) / 2) * 1000\<rfloor> + 500"
proof -
  define fd where "fd = frame_duration (sm_frame_rate t)"
  define x where "x = of_int f * fd + of_int sub * fd / 2"
  have fd: "0 \<le> fd" "fd \<le> 1" by (simp_all add: fd_def frame_duration_def)
  have "of_int f * fd \<le> 30 * 1" "of_int sub * fd \<le> 2 * 1"
    using fd fr by (intro mult_mono; simp)+
  then have x: "0 \<le> x" "x \<le> 31" using fd fr by (simp_all add: x_def)
  have "(x + 1 / 2) * 1000 = x * 1000 + of_int 500" by (simp add: algebra_simps)
  then have fl: "\<lfloor>(x + 1 / 2) * 1000\<rfloor> = \<lfloor>x * 1000\<rfloor> + 500" by (simp only: floor_add_int)
  define k where "k = \<lfloor>x * 1000\<rfloor>"
  have b: "0 \<le> k" "k \<le> 31000" using x by (simp_all add: k_def floor_le_iff)
  have hms': "is_int (h * 3600000 + m * 60000 + s * 1000)" using hms by (simp add: is_int_def)
  have r: "h * 60 * 60 * 1000 + m * 60 * 1000 + s * 1000 = h * 3600000 + m * 60000 + s * 1000"
    by simp
  have l1: "is_long (k + 500)" using b by (simp add: c_arith)
  have l2: "is_long (h * 3600000 + m * 60000 + s * 1000 + (k + 500))"
    using b hms by (simp add: c_arith)
  have "smpte_get_time t = to_long (to_int (h * 60 * 60 * 1000 + m * 60 * 1000 + s * 1000)
      + to_long \<lfloor>(x + 1 / 2) * 1000\<rfloor>)"
    using t by (simp add: smpte_get_time_def x_def fd_def Let_def mult.commute [of "of_int sub"])
  also have "\<dots> = h * 3600000 + m * 60000 + s * 1000 + (k + 500)"
    by (simp only: fl k_def [symmetric] r to_int_id [OF hms'] to_long_id [OF l1] to_long_id [OF l2])
  finally show ?thesis by (simp add: x_def fd_def k_def)
qed

theorem smpte_half_second_witness:
  "smpte_p junk ''smpte=0:0:1'' = Some (\<lparr>sm_result = [0, 0, 1, 0, 0], sm_frame_rate = 30, sm_drop = False\<rparr>, 11, [])
   \<and> smpte_get_time \<lparr>sm_result = [0, 0, 1, 0, 0], sm_frame_rate = 30, sm_drop = False\<rparr> = 1500"
proof
  show "smpte_p junk ''smpte=0:0:1'' = Some (\<lparr>sm_result = [0, 0, 1, 0, 0], sm_frame_rate = 30, sm_drop = False\<rparr>, 11, [])"
    by code_simp
  show "smpte_get_time \<lparr>sm_result = [0, 0, 1, 0, 0], sm_frame_rate = 30, sm_drop = False\<rparr> = 1500"
    using smpte_half_second [of "\<lparr>sm_result = [0, 0, 1, 0, 0], sm_frame_rate = 30, sm_drop = False\<rparr>" 0 0 1 0 0]
    by simp
qed

text \<open>
  The SMPTE parselet does not keep the contract of \<open>parse\<close>: the digits of the frame rate
  and the text "-drop" are consumed without being counted, so that \<open>matches\<close> rejects every
  explicit rate while the default form matches.
\<close>

theorem smpte_miscounts:
  "\<not> reports_distance (smpte_p 0)
   \<and> \<not> matches (smpte_p 0) ''smpte-25=0:0:1'' \<and> \<not> matches (smpte_p 0) ''smpte-30-drop=0:0:1''
   \<and> matches (smpte_p 0) ''smpte=0:0:1''
   \<and> map_option (snd \<circ> snd) (smpte_p 0 ''smpte-30-drop=0:0:1'') = Some []"
proof -
  have d: "map_option (snd \<circ> snd) (smpte_p 0 ''smpte-30-drop=0:0:1'') = Some []"
    by code_simp
  have m: "\<not> matches (smpte_p 0) ''smpte-25=0:0:1''" "\<not> matches (smpte_p 0) ''smpte-30-drop=0:0:1''"
    "matches (smpte_p 0) ''smpte=0:0:1''"
    by code_simp+
  have "\<not> reports_distance (smpte_p 0)"
  proof
    assume r: "reports_distance (smpte_p 0)"
    from d obtain t n where t: "smpte_p 0 ''smpte-30-drop=0:0:1'' = Some (t, n, [])" by auto
    from r have "case smpte_p 0 ''smpte-30-drop=0:0:1'' of None \<Rightarrow> True
        | Some (_, d, r) \<Rightarrow> d \<le> length ''smpte-30-drop=0:0:1'' \<and> r = drop d ''smpte-30-drop=0:0:1''"
      unfolding reports_distance_def by (rule spec)
    with t have "n \<le> length ''smpte-30-drop=0:0:1''" "drop n ''smpte-30-drop=0:0:1'' = []"
      by auto
    then have "n = length ''smpte-30-drop=0:0:1''" by simp
    with t have "matches (smpte_p 0) ''smpte-30-drop=0:0:1''" by (simp add: matches_def)
    with m(2) show False by blast
  qed
  with d m show ?thesis by blast
qed

end
