(* ===== verification/Floats.thy ===== *)
theory Floats
  imports Complex_Main
begin

text \<open>
  The floating point numbers of the program: rationals, the infinities and the value that is no
  number, with the comparisons of IEEE 754, in which that value is not less than, not greater than
  and not equal to anything, itself included. Rounding is not modelled, and there is one zero.
\<close>

datatype fl = Fin rat | PInf | NInf | NotANumber

fun fless :: "fl \<Rightarrow> fl \<Rightarrow> bool" where
  "fless (Fin a) (Fin b) = (a < b)"
| "fless (Fin a) PInf = True"
| "fless NInf (Fin b) = True"
| "fless NInf PInf = True"
| "fless _ _ = False"

fun feq :: "fl \<Rightarrow> fl \<Rightarrow> bool" where
  "feq (Fin a) (Fin b) = (a = b)"
| "feq PInf PInf = True"
| "feq NInf NInf = True"
| "feq _ _ = False"

definition fmin :: "fl \<Rightarrow> fl \<Rightarrow> fl" where
  "fmin a b = (if fless b a then b else a)"

definition fmax :: "fl \<Rightarrow> fl \<Rightarrow> fl" where
  "fmax a b = (if fless a b then b else a)"

fun fneg :: "fl \<Rightarrow> fl" where
  "fneg (Fin a) = Fin (- a)"
| "fneg PInf = NInf"
| "fneg NInf = PInf"
| "fneg NotANumber = NotANumber"

fun fadd :: "fl \<Rightarrow> fl \<Rightarrow> fl" where
  "fadd (Fin a) (Fin b) = Fin (a + b)"
| "fadd (Fin a) y = y"
| "fadd x (Fin b) = x"
| "fadd PInf PInf = PInf"
| "fadd NInf NInf = NInf"
| "fadd _ _ = NotANumber"

text \<open>The product with a number that is positive and finite.\<close>

fun fscale :: "rat \<Rightarrow> fl \<Rightarrow> fl" where
  "fscale c (Fin a) = Fin (c * a)"
| "fscale c x = x"

text \<open>The quotient of two integers.\<close>

definition fdiv :: "int \<Rightarrow> int \<Rightarrow> fl" where
  "fdiv a b =
     (if b \<noteq> 0 then Fin (of_int a / of_int b)
      else if 0 < a then PInf else if a < 0 then NInf else NotANumber)"

lemma feq_iff: "feq x y \<longleftrightarrow> x = y \<and> x \<noteq> NotANumber"
  by (cases x; cases y) auto

lemma feq_refl_iff: "feq x x \<longleftrightarrow> x \<noteq> NotANumber"
  by (simp add: feq_iff)

lemma fless_nan [simp]: "\<not> fless NotANumber x" "\<not> fless x NotANumber"
  by (cases x; simp)+

lemma fless_irrefl [simp]: "\<not> fless x x"
  by (cases x) auto

lemma fless_trans: "fless x y \<Longrightarrow> fless y z \<Longrightarrow> fless x z"
  by (cases x; cases y; cases z) auto

lemma fscale_nan [simp]: "fscale c x = NotANumber \<longleftrightarrow> x = NotANumber"
  by (cases x) auto

end
