(* ===== verification/Time_Attrs.thy ===== *)
theory Time_Attrs
  imports Smil_Time Parselets Floats
begin

text \<open>
  The timing attributes of an element (smil2/time_attrs.h, time_attrs.cpp): the parser of the
  sync values of \<open>begin\<close> and \<open>end\<close> lists, the \<open>parse_*\<close> functions of \<open>time_attrs\<close> as
  functions that thread the attribute record, and the priority attributes. The attributes of an
  element are a map from names to values; the list of the maps of an element and its ancestors,
  innermost first, stands for the walk along \<open>node::up\<close>. Not under src/, or of another
  component: \<open>atof\<close> and the table of the document's transitions (the \<open>m_dur\<close> that
  \<open>transition_info::from_node\<close> gives for an id) are arguments.
\<close>

unbundle bit_operations_syntax

section \<open>Sync values\<close>

datatype sync_value_type = sv_offset | sv_syncbase | sv_event | sv_repeat | sv_accesskey
  | sv_media_marker | sv_state_change | sv_wallclock | sv_indefinite

record sync_value =
  svs_type :: sync_value_type
  svs_offset :: int
  svs_base :: string
  svs_event :: string
  svs_sparam :: string
  svs_iparam :: int

definition svs_zero :: sync_value where
  "svs_zero = \<lparr>svs_type = sv_offset, svs_offset = 0, svs_base = [], svs_event = [],
     svs_sparam = [], svs_iparam = -1\<rparr>"

text \<open>The result of a parselet that has to match the whole string.\<close>

definition match_result :: "'a parser \<Rightarrow> string \<Rightarrow> 'a option" where
  "match_result p s = (if matches p s then map_option fst (p s) else None)"

definition find_char :: "char \<Rightarrow> string \<Rightarrow> nat option" where
  "find_char c s = find_from (\<lambda>x. x = c) s 0"

definition find_last :: "(char \<Rightarrow> bool) \<Rightarrow> string \<Rightarrow> nat option" where
  "find_last P s = map_option (\<lambda>i. length s - Suc i) (find_from P (rev s) 0)"

text \<open>
  \<open>s.substr(o + 1, c - o - 1)\<close>: when the closing parenthesis comes first the unsigned
  length wraps and the rest of the string is taken.
\<close>

definition substr_between :: "string \<Rightarrow> nat \<Rightarrow> nat \<Rightarrow> string" where
  "substr_between s i j = (if j \<le> i then drop (Suc i) s else take (j - Suc i) (drop (Suc i) s))"

definition char_at :: "string \<Rightarrow> nat \<Rightarrow> char" where
  "char_at s i = (if i < length s then s ! i else CHR 0x00)"

definition signed_char :: "char \<Rightarrow> int" where
  "signed_char c = (let n = int (of_char c) in if n < 128 then n else n - 256)"

definition parse_plain_offset :: "string \<Rightarrow> sync_value \<Rightarrow> sync_value option" where
  "parse_plain_offset s svs =
     map_option (\<lambda>v. svs\<lparr>svs_type := sv_offset, svs_offset := v\<rparr>) (match_result offset_value_p s)"

definition parse_wallclock :: "string \<Rightarrow> sync_value \<Rightarrow> sync_value option" where
  "parse_wallclock s svs =
     map_option (\<lambda>v. svs\<lparr>svs_type := sv_wallclock, svs_offset := v\<rparr>) (match_result wallclock_p s)"

definition parse_statechange :: "string \<Rightarrow> sync_value \<Rightarrow> sync_value option" where
  "parse_statechange s svs =
     (case (find_char CHR ''('' s, find_char CHR '')'' s) of
        (Some i, Some j) \<Rightarrow>
          Some (svs\<lparr>svs_type := sv_state_change, svs_sparam := trim (substr_between s i j)\<rparr>)
      | _ \<Rightarrow> None)"

text \<open>The offset after an access key is looked for in the whole of \<open>s\<close>, not in \<open>rest\<close>.\<close>

definition parse_accesskey :: "string \<Rightarrow> sync_value \<Rightarrow> sync_value option" where
  "parse_accesskey s svs =
     (case find_char CHR ''('' s of
        None \<Rightarrow> None
      | Some i \<Rightarrow>
          (let svs = svs\<lparr>svs_type := sv_accesskey, svs_iparam := signed_char (char_at s (Suc i))\<rparr>
           in case find_from (\<lambda>x. x = CHR '')'') s i of
                None \<Rightarrow> None
              | Some j \<Rightarrow>
                  if trim (drop (Suc j) s) = [] then Some svs
                  else map_option (\<lambda>v. svs\<lparr>svs_offset := v\<rparr>) (match_result offset_value_p s)))"

text \<open>Splitting the offset off the end of a sync value.\<close>

definition split_offset :: "string \<Rightarrow> sync_value \<Rightarrow> string \<times> sync_value" where
  "split_offset s svs =
     (case find_last (\<lambda>c. c = CHR ''+'' \<or> c = CHR ''-'') s of
        None \<Rightarrow> (s, svs)
      | Some i \<Rightarrow>
          (case match_result offset_value_p (drop i s) of
             None \<Rightarrow> (s, svs)
           | Some v \<Rightarrow> (trim (take i s), svs\<lparr>svs_offset := v\<rparr>)))"

text \<open>The kinds of event, by the suffix of the token; the result carries the event name.\<close>

definition classify_event :: "string \<Rightarrow> string \<Rightarrow> sync_value \<Rightarrow> (string \<times> sync_value) option" where
  "classify_event nmtoken s1 svs =
     (case find_last (\<lambda>c. c = CHR ''.'') nmtoken of
        None \<Rightarrow> Some (nmtoken, svs\<lparr>svs_type := sv_event, svs_base := []\<rparr>)
      | Some i \<Rightarrow>
          (let svs = svs\<lparr>svs_base := take i nmtoken\<rparr>; ev = drop (Suc i) nmtoken
           in if ends_with nmtoken ''.begin'' = Some True \<or> ends_with nmtoken ''.end'' = Some True
              then Some (ev, svs\<lparr>svs_type := sv_syncbase\<rparr>)
              else if ends_with nmtoken ''.marker'' = Some True
              then (case (find_char CHR ''('' s1, find_char CHR '')'' s1) of
                      (Some o', Some c) \<Rightarrow>
                        Some (''marker'', svs\<lparr>svs_type := sv_media_marker,
                          svs_sparam := trim (substr_between s1 o' c)\<rparr>)
                    | _ \<Rightarrow> None)
              else if ends_with nmtoken ''.repeat'' = Some True
              then (case find_char CHR ''('' s1 of
                      Some o' \<Rightarrow>
                        (case any_int_p (drop (Suc o') s1) of
                           Some (v, _) \<Rightarrow> Some (''repeat'', svs\<lparr>svs_type := sv_repeat, svs_iparam := v\<rparr>)
                         | None \<Rightarrow> None)
                    | None \<Rightarrow> None)
              else Some (ev, svs\<lparr>svs_type := sv_event\<rparr>)))"

definition parse_nmtoken_offset :: "string \<Rightarrow> sync_value \<Rightarrow> sync_value option" where
  "parse_nmtoken_offset s svs =
     (let (s1, svs) = split_offset s svs
      in case xml_nmtoken_p s1 of
           None \<Rightarrow> None
         | Some (nmtoken, _, _) \<Rightarrow>
             (case classify_event nmtoken s1 svs of
                None \<Rightarrow> None
              | Some (event, svs) \<Rightarrow>
                  if starts_with event ''stateChange'' then parse_statechange s svs
                  else if event \<noteq> [] then Some (svs\<lparr>svs_event := event\<rparr>) else None))"

definition parse_sync :: "string \<Rightarrow> sync_value \<Rightarrow> sync_value option" where
  "parse_sync s svs =
     (let ch = char_at s 0
      in if is_digit ch \<or> ch = CHR ''-'' \<or> ch = CHR ''+'' then parse_plain_offset s svs
         else if starts_with s ''wallclock'' then parse_wallclock s svs
         else if starts_with s ''accesskey'' then parse_accesskey s svs
         else if s = ''indefinite''
         then Some (svs\<lparr>svs_type := sv_indefinite, svs_offset := indefinite\<rparr>)
         else parse_nmtoken_offset s svs)"

text \<open>Values that do not parse are dropped from the list.\<close>

definition parse_sync_list :: "string list \<Rightarrow> sync_value list \<Rightarrow> sync_value list" where
  "parse_sync_list strs l = l @ List.map_filter (\<lambda>s. parse_sync s svs_zero) strs"

section \<open>The attribute record\<close>

datatype dur_type = dt_unspecified | dt_definite | dt_indefinite | dt_media

datatype endsync_rule = esr_first | esr_last | esr_all | esr_media | esr_id

datatype fill_behavior = fill_remove | fill_freeze | fill_hold | fill_continue | fill_transition
  | fill_auto | fill_default | fill_inherit

datatype restart_behavior = restart_always | restart_when_not_active | restart_never
  | restart_default | restart_inherit

datatype actuate = actuate_onload | actuate_onrequest

type_synonym attr_map = "string \<Rightarrow> string option"

record time_attrs =
  m_dur_type :: dur_type
  m_dur :: stime
  m_rcount :: rat
  m_rdur :: stime
  m_min_media :: bool
  m_min :: stime
  m_max_media :: bool
  m_max :: stime
  m_blist :: "sync_value list"
  m_elist :: "sync_value list"
  m_endsync_rule :: endsync_rule
  m_endsync_ident :: string
  m_fill :: fill_behavior
  m_restart :: restart_behavior
  m_actuate :: actuate
  m_speed :: rat
  m_accelerate :: fl
  m_decelerate :: fl
  m_auto_reverse :: bool
  m_trans_in :: "int option"
  m_trans_out :: "int option"
  m_spflags :: int

definition SP_DUR :: int where "SP_DUR = 1"
definition SP_BEGIN :: int where "SP_BEGIN = push_bit 1 SP_DUR"
definition SP_END :: int where "SP_END = push_bit 1 SP_BEGIN"
definition SP_RDUR :: int where "SP_RDUR = push_bit 1 SP_END"
definition SP_RCOUNT :: int where "SP_RCOUNT = push_bit 1 SP_RDUR"
definition SP_MIN :: int where "SP_MIN = push_bit 1 SP_RCOUNT"
definition SP_MAX :: int where "SP_MAX = push_bit 1 SP_MIN"
definition SP_ENDSYNC :: int where "SP_ENDSYNC = push_bit 1 SP_MAX"
definition SP_FILL :: int where "SP_FILL = push_bit 1 SP_ENDSYNC"
definition SP_RESTART :: int where "SP_RESTART = push_bit 1 SP_FILL"

definition set_specified :: "int \<Rightarrow> time_attrs \<Rightarrow> time_attrs" where
  "set_specified ind a = a\<lparr>m_spflags := m_spflags a OR ind\<rparr>"

definition specified :: "int \<Rightarrow> time_attrs \<Rightarrow> bool" where
  "specified ind a \<longleftrightarrow> m_spflags a AND ind = ind"

definition specified_dur where "specified_dur a = specified SP_DUR a"
definition specified_begin where "specified_begin a = specified SP_BEGIN a"
definition specified_end where "specified_end a = specified SP_END a"
definition specified_rdur where "specified_rdur a = specified SP_RDUR a"
definition specified_rcount where "specified_rcount a = specified SP_RCOUNT a"
definition specified_min where "specified_min a = specified SP_MIN a"
definition specified_max where "specified_max a = specified SP_MAX a"
definition specified_endsync where "specified_endsync a = specified SP_ENDSYNC a"
definition specified_fill where "specified_fill a = specified SP_FILL a"
definition specified_restart where "specified_restart a = specified SP_RESTART a"

definition dbl_max :: rat where
  "dbl_max = of_int ((2 ^ 53 - 1) * 2 ^ 971)"

definition is_rcount_indefinite :: "time_attrs \<Rightarrow> bool" where
  "is_rcount_indefinite a \<longleftrightarrow> m_rcount a = dbl_max"

definition end_is_indefinite :: "time_attrs \<Rightarrow> bool" where
  "end_is_indefinite a \<longleftrightarrow> length (m_elist a) = 1 \<and> svs_type (hd (m_elist a)) = sv_indefinite"

definition end_has_event_conditions :: "time_attrs \<Rightarrow> bool" where
  "end_has_event_conditions a \<longleftrightarrow>
     list_ex (\<lambda>v. svs_type v \<noteq> sv_offset \<and> svs_type v \<noteq> sv_wallclock \<and> svs_type v \<noteq> sv_indefinite)
       (m_elist a)"

definition has_dur_specifier :: "time_attrs \<Rightarrow> bool" where
  "has_dur_specifier a \<longleftrightarrow> specified_dur a \<or> specified_rdur a \<or> specified_rcount a"

section \<open>Parsing the attributes\<close>

definition clock_prefix :: "string \<Rightarrow> int option" where
  "clock_prefix s = map_option fst (clock_value_p s)"

definition parse_dur :: "attr_map \<Rightarrow> time_attrs \<Rightarrow> time_attrs" where
  "parse_dur n a =
     (let a = a\<lparr>m_dur_type := dt_unspecified, m_dur := unspecified\<rparr>
      in case n ''dur'' of
           None \<Rightarrow> a
         | Some p \<Rightarrow>
             (let a = set_specified SP_DUR a; s = trim_cstr p
              in if s = ''indefinite'' then a\<lparr>m_dur_type := dt_indefinite, m_dur := indefinite\<rparr>
                 else if s = ''media'' then a\<lparr>m_dur_type := dt_media\<rparr>
                 else case clock_prefix s of
                        None \<Rightarrow> a
                      | Some v \<Rightarrow> a\<lparr>m_dur_type := dt_definite, m_dur := v\<rparr>))"

definition parse_rcount :: "attr_map \<Rightarrow> time_attrs \<Rightarrow> time_attrs" where
  "parse_rcount n a =
     (case n ''repeatCount'' of
        None \<Rightarrow> a
      | Some p \<Rightarrow>
          (let a = set_specified SP_RCOUNT a; s = trim_cstr p
           in if s = ''indefinite'' then a\<lparr>m_rcount := dbl_max\<rparr>
              else case number_p s of
                     None \<Rightarrow> a
                   | Some (v, _) \<Rightarrow> a\<lparr>m_rcount := v\<rparr>))"

definition parse_rdur :: "attr_map \<Rightarrow> time_attrs \<Rightarrow> time_attrs" where
  "parse_rdur n a =
     (case n ''repeatDur'' of
        None \<Rightarrow> a
      | Some p \<Rightarrow>
          (let a = set_specified SP_RDUR a; s = trim_cstr p
           in if s = ''indefinite'' then a\<lparr>m_rdur := indefinite\<rparr>
              else case clock_prefix s of
                     None \<Rightarrow> a
                   | Some v \<Rightarrow> a\<lparr>m_rdur := v\<rparr>))"

definition parse_min :: "attr_map \<Rightarrow> time_attrs \<Rightarrow> time_attrs" where
  "parse_min n a =
     (case n ''min'' of
        None \<Rightarrow> a
      | Some p \<Rightarrow>
          (let a = set_specified SP_MIN a; s = trim_cstr p
           in if s = ''media'' then a\<lparr>m_min_media := True, m_min := unspecified\<rparr>
              else let a = a\<lparr>m_min_media := False\<rparr>
                   in case clock_prefix s of
                        None \<Rightarrow> a
                      | Some v \<Rightarrow> a\<lparr>m_min := v\<rparr>))"

definition parse_max :: "attr_map \<Rightarrow> time_attrs \<Rightarrow> time_attrs" where
  "parse_max n a =
     (case n ''max'' of
        None \<Rightarrow> a
      | Some p \<Rightarrow>
          (let a = set_specified SP_MAX a; s = trim_cstr p
           in if s = ''media'' then a\<lparr>m_max_media := True, m_max := unspecified\<rparr>
              else if s = ''indefinite'' then a\<lparr>m_max_media := False, m_max := indefinite\<rparr>
              else let a = a\<lparr>m_max_media := False\<rparr>
                   in case clock_prefix s of
                        None \<Rightarrow> a
                      | Some v \<Rightarrow> a\<lparr>m_max := v\<rparr>))"

definition parse_begin :: "attr_map \<Rightarrow> time_attrs \<Rightarrow> time_attrs" where
  "parse_begin n a =
     (case n ''begin'' of
        None \<Rightarrow> a
      | Some p \<Rightarrow>
          (let a = set_specified SP_BEGIN a
           in a\<lparr>m_blist := parse_sync_list (split_trim_list (trim_cstr p) CHR '';'') (m_blist a)\<rparr>))"

definition parse_end :: "attr_map \<Rightarrow> time_attrs \<Rightarrow> time_attrs" where
  "parse_end n a =
     (case n ''end'' of
        None \<Rightarrow> a
      | Some p \<Rightarrow>
          (let a = set_specified SP_END a
           in a\<lparr>m_elist := parse_sync_list (split_trim_list (trim_cstr p) CHR '';'') (m_elist a)\<rparr>))"

definition parse_endsync :: "attr_map \<Rightarrow> time_attrs \<Rightarrow> time_attrs" where
  "parse_endsync n a =
     (let a = a\<lparr>m_endsync_rule := esr_last\<rparr>
      in case n ''endsync'' of
           None \<Rightarrow> a
         | Some p \<Rightarrow>
             (let a = set_specified SP_ENDSYNC a; s = trim_cstr p
              in if s = ''first'' then a\<lparr>m_endsync_rule := esr_first\<rparr>
                 else if s = ''last'' then a\<lparr>m_endsync_rule := esr_last\<rparr>
                 else if s = ''all'' then a\<lparr>m_endsync_rule := esr_all\<rparr>
                 else if s = ''media'' then a\<lparr>m_endsync_rule := esr_media\<rparr>
                 else let a = a\<lparr>m_endsync_rule := esr_id\<rparr>
                      in if matches xml_nmtoken_p s then a\<lparr>m_endsync_ident := s\<rparr> else a))"

text \<open>\<open>None\<close> is a value that names no fill behaviour: "default" or something invalid.\<close>

definition fill_from_str :: "string \<Rightarrow> fill_behavior option" where
  "fill_from_str s =
     (if s = ''remove'' then Some fill_remove
      else if s = ''freeze'' then Some fill_freeze
      else if s = ''hold'' then Some fill_hold
      else if s = ''ambulant:continue'' then Some fill_continue
      else if s = ''transition'' then Some fill_transition
      else if s = ''auto'' then Some fill_auto
      else None)"

fun get_default_fill :: "attr_map list \<Rightarrow> fill_behavior" where
  "get_default_fill [] = fill_auto"
| "get_default_fill (n # up) =
     (case n ''fillDefault'' of
        None \<Rightarrow> get_default_fill up
      | Some p \<Rightarrow>
          (case fill_from_str (trim_cstr p) of
             None \<Rightarrow> get_default_fill up
           | Some f \<Rightarrow> f))"

definition modulated_fill :: "time_attrs \<Rightarrow> fill_behavior \<Rightarrow> fill_behavior" where
  "modulated_fill a fb =
     (if fb \<noteq> fill_auto then fb
      else if specified_dur a \<or> specified_rdur a \<or> specified_rcount a \<or> specified_end a
      then fill_remove else fill_freeze)"

definition parse_fill :: "attr_map list \<Rightarrow> attr_map \<Rightarrow> time_attrs \<Rightarrow> time_attrs" where
  "parse_fill path n a =
     (let a = a\<lparr>m_fill := modulated_fill a (get_default_fill path)\<rparr>
      in case n ''fill'' of
           None \<Rightarrow> a
         | Some p \<Rightarrow>
             (let a = set_specified SP_FILL a;
                  a = (case fill_from_str (trim_cstr p) of None \<Rightarrow> a | Some f \<Rightarrow> a\<lparr>m_fill := f\<rparr>)
              in if m_fill a = fill_auto then a\<lparr>m_fill := modulated_fill a (m_fill a)\<rparr> else a))"

definition restart_from_str :: "string \<Rightarrow> restart_behavior option" where
  "restart_from_str s =
     (if s = ''always'' then Some restart_always
      else if s = ''whenNotActive'' then Some restart_when_not_active
      else if s = ''never'' then Some restart_never
      else None)"

fun get_default_restart :: "attr_map list \<Rightarrow> restart_behavior" where
  "get_default_restart [] = restart_always"
| "get_default_restart (n # up) =
     (case n ''restartDefault'' of
        None \<Rightarrow> get_default_restart up
      | Some p \<Rightarrow>
          (case restart_from_str (trim_cstr p) of
             None \<Rightarrow> get_default_restart up
           | Some r \<Rightarrow> r))"

definition parse_restart :: "attr_map list \<Rightarrow> attr_map \<Rightarrow> time_attrs \<Rightarrow> time_attrs" where
  "parse_restart path n a =
     (let a = a\<lparr>m_restart := get_default_restart path\<rparr>
      in case n ''restart'' of
           None \<Rightarrow> a
         | Some p \<Rightarrow>
             (let a = set_specified SP_RESTART a
              in case restart_from_str (trim_cstr p) of None \<Rightarrow> a | Some r \<Rightarrow> a\<lparr>m_restart := r\<rparr>))"

definition parse_actuate :: "attr_map \<Rightarrow> time_attrs \<Rightarrow> time_attrs" where
  "parse_actuate n a =
     (let a = a\<lparr>m_actuate := actuate_onrequest\<rparr>
      in case n ''actuate'' of
           None \<Rightarrow> a
         | Some p \<Rightarrow>
             (let s = trim_cstr p
              in if s = ''onLoad'' then a\<lparr>m_actuate := actuate_onload\<rparr>
                 else if s = ''onRequest'' then a\<lparr>m_actuate := actuate_onrequest\<rparr>
                 else a))"

text \<open>A transition that is not found, or whose duration is 0, is dropped.\<close>

definition transition_for :: "(string \<Rightarrow> int option) \<Rightarrow> string option \<Rightarrow> int option" where
  "transition_for tr p =
     (case p of
        None \<Rightarrow> None
      | Some p \<Rightarrow> (case tr p of None \<Rightarrow> None | Some d \<Rightarrow> if d = 0 then None else Some d))"

definition parse_transitions :: "(string \<Rightarrow> int option) \<Rightarrow> attr_map \<Rightarrow> time_attrs \<Rightarrow> time_attrs" where
  "parse_transitions tr n a =
     a\<lparr>m_trans_in := transition_for tr (n ''transIn''), m_trans_out := transition_for tr (n ''transOut'')\<rparr>"

definition clamp_unit :: "fl \<Rightarrow> fl" where
  "clamp_unit v = (if fless v (Fin 0) then Fin 0 else if fless (Fin 1) v then Fin 1 else v)"

text \<open>
  What the library gives: the number a string begins with, and what the conversion of a floating
  point number to an unsigned long gives when the number is out of its range, which C++ leaves open.
\<close>

record float_lib =
  lib_atof :: "string \<Rightarrow> fl"
  lib_ulong :: "fl \<Rightarrow> int"

definition zero_lib :: float_lib where
  "zero_lib = \<lparr>lib_atof = (\<lambda>_. Fin 0), lib_ulong = (\<lambda>_. 0)\<rparr>"

definition fl_ulong :: "float_lib \<Rightarrow> fl \<Rightarrow> int" where
  "fl_ulong fp v =
     (case v of
        Fin x \<Rightarrow> if 0 \<le> \<lfloor>x\<rfloor> \<and> \<lfloor>x\<rfloor> < 2 ^ 64 then \<lfloor>x\<rfloor> else to_ulong (lib_ulong fp v)
      | _ \<Rightarrow> to_ulong (lib_ulong fp v))"

text \<open>The speed is kept to two decimals and is never 0.\<close>

definition limit_speed :: "float_lib \<Rightarrow> fl \<Rightarrow> rat" where
  "limit_speed fp v =
     (let v = (if feq v (Fin 0) then Fin 1 else v);
          abs_speed = (if fless (Fin 0) v then v else fneg v);
          speed100 = fl_ulong fp (fadd (Fin (1 / 2)) (fscale 100 abs_speed));
          speed100 = (if speed100 = 0 then 1 else speed100)
      in if fless (Fin 0) v then 1 / 100 * of_int speed100 else - (1 / 100) * of_int speed100)"

definition parse_time_manipulations :: "float_lib \<Rightarrow> attr_map \<Rightarrow> time_attrs \<Rightarrow> time_attrs" where
  "parse_time_manipulations fp n a =
     (let a = a\<lparr>m_speed := limit_speed fp (case n ''speed'' of Some p \<Rightarrow> lib_atof fp p | None \<Rightarrow> Fin 1)\<rparr>;
          a = a\<lparr>m_accelerate := clamp_unit (case n ''accelerate'' of Some p \<Rightarrow> lib_atof fp p | None \<Rightarrow> Fin 0)\<rparr>;
          a = a\<lparr>m_decelerate :=
                clamp_unit (case n ''decelerate'' of Some p \<Rightarrow> fmax (Fin 0) (lib_atof fp p) | None \<Rightarrow> Fin 0)\<rparr>;
          a = (if fless (Fin 1) (fadd (m_accelerate a) (m_decelerate a))
               then a\<lparr>m_accelerate := Fin 0, m_decelerate := Fin 0\<rparr> else a)
      in a\<lparr>m_auto_reverse := (case n ''autoReverse'' of Some p \<Rightarrow> p = ''true'' | None \<Rightarrow> False)\<rparr>)"

definition has_time_manipulations :: "time_attrs \<Rightarrow> bool" where
  "has_time_manipulations a \<longleftrightarrow>
     m_speed a \<noteq> 1 \<or> \<not> feq (m_accelerate a) (Fin 0) \<or> \<not> feq (m_decelerate a) (Fin 0) \<or> m_auto_reverse a"

text \<open>
  The constructor. \<open>m_rcount\<close> and the media flags are not initialised: the record it
  starts from holds arbitrary values there, given by \<open>raw\<close>; the other fields have the values
  of their default constructors.
\<close>

definition attrs_initial :: "time_attrs \<Rightarrow> time_attrs" where
  "attrs_initial raw = raw\<lparr>m_rdur := 0, m_min := 0, m_max := 0, m_blist := [], m_elist := [],
     m_endsync_ident := [], m_spflags := 0\<rparr>"

definition parse_time_attrs ::
    "float_lib \<Rightarrow> (string \<Rightarrow> int option) \<Rightarrow> attr_map list \<Rightarrow> attr_map \<Rightarrow> time_attrs \<Rightarrow> time_attrs" where
  "parse_time_attrs fp tr path n a =
     (let a = parse_dur n a; a = parse_rcount n a; a = parse_rdur n a; a = parse_begin n a;
          a = parse_end n a; a = parse_min n a; a = parse_max n a; a = parse_endsync n a;
          a = parse_fill path n a; a = parse_restart path n a; a = parse_actuate n a;
          a = parse_transitions tr n a
      in parse_time_manipulations fp n a)"

definition mk_time_attrs ::
    "float_lib \<Rightarrow> (string \<Rightarrow> int option) \<Rightarrow> attr_map \<Rightarrow> attr_map list \<Rightarrow> time_attrs \<Rightarrow> time_attrs" where
  "mk_time_attrs fp tr n up raw = parse_time_attrs fp tr (n # up) n (attrs_initial raw)"

section \<open>Printing\<close>

definition repr_sync_type :: "sync_value_type \<Rightarrow> string" where
  "repr_sync_type t = (case t of
     sv_offset \<Rightarrow> ''offset'' | sv_syncbase \<Rightarrow> ''syncbase'' | sv_event \<Rightarrow> ''event''
   | sv_repeat \<Rightarrow> ''repeat'' | sv_accesskey \<Rightarrow> ''accesskey'' | sv_media_marker \<Rightarrow> ''marker''
   | sv_state_change \<Rightarrow> ''statechange'' | sv_wallclock \<Rightarrow> ''wallclock'' | sv_indefinite \<Rightarrow> ''indefinite'')"

definition repr_offset_suffix :: "int \<Rightarrow> string" where
  "repr_offset_suffix v =
     (if 0 < v then '' + '' @ show_int v
      else if v < 0 then '' - '' @ show_int (to_long (- v)) else [])"

definition repr_sync :: "sync_value \<Rightarrow> string" where
  "repr_sync svs =
     (if svs_type svs = sv_offset then show_int (svs_offset svs)
      else if svs_type svs = sv_accesskey
      then ''accesskey('' @ [char_of (nat (svs_iparam svs mod 256))] @ '')'' @ repr_offset_suffix (svs_offset svs)
      else (if svs_base svs = [] then svs_event svs else svs_base svs @ ''.'' @ svs_event svs)
        @ (if svs_iparam svs \<noteq> -1 then ''('' @ show_int (svs_iparam svs) @ '')''
           else if svs_sparam svs \<noteq> [] then ''('' @ svs_sparam svs @ '')'' else [])
        @ repr_offset_suffix (svs_offset svs))"

definition repr_fill :: "fill_behavior \<Rightarrow> string" where
  "repr_fill f = (case f of
     fill_remove \<Rightarrow> ''remove'' | fill_freeze \<Rightarrow> ''freeze'' | fill_hold \<Rightarrow> ''hold''
   | fill_continue \<Rightarrow> ''ambulant:continue'' | fill_transition \<Rightarrow> ''transition'' | fill_auto \<Rightarrow> ''auto''
   | fill_default \<Rightarrow> ''default'' | fill_inherit \<Rightarrow> ''inherit'')"

definition repr_restart :: "restart_behavior \<Rightarrow> string" where
  "repr_restart f = (case f of
     restart_always \<Rightarrow> ''always'' | restart_when_not_active \<Rightarrow> ''whenNotActive''
   | restart_never \<Rightarrow> ''never'' | restart_default \<Rightarrow> ''default'' | restart_inherit \<Rightarrow> ''inherit'')"

definition repr_actuate :: "actuate \<Rightarrow> string" where
  "repr_actuate f = (case f of actuate_onload \<Rightarrow> ''onLoad'' | actuate_onrequest \<Rightarrow> ''onRequest'')"

section \<open>Priority classes\<close>

datatype interrupt_type = int_stop | int_pause | int_defer | int_never

datatype pause_display = display_disable | display_hide | display_show

record priority_attrs =
  pa_higher :: interrupt_type
  pa_peers :: interrupt_type
  pa_lower :: interrupt_type
  pa_display :: pause_display

definition interrupt_from_str :: "string \<Rightarrow> interrupt_type" where
  "interrupt_from_str spec =
     (if spec = ''stop'' then int_stop else if spec = ''pause'' then int_pause
      else if spec = ''defer'' then int_defer else if spec = ''never'' then int_never else int_stop)"

definition display_from_str :: "string \<Rightarrow> pause_display" where
  "display_from_str spec =
     (if spec = ''disable'' then display_disable else if spec = ''hide'' then display_hide
      else if spec = ''show'' then display_show else display_show)"

definition attr_or :: "attr_map \<Rightarrow> string \<Rightarrow> string \<Rightarrow> string" where
  "attr_or n k d = (case n k of Some p \<Rightarrow> p | None \<Rightarrow> d)"

definition priority_create :: "attr_map \<Rightarrow> priority_attrs" where
  "priority_create n =
     (let pa = \<lparr>pa_higher = int_pause, pa_peers = int_stop, pa_lower = int_defer, pa_display = display_show\<rparr>;
          spec = attr_or n ''peers'' ''stop'';
          pa = (if spec \<in> {''stop'', ''pause'', ''defer'', ''never''}
                then pa\<lparr>pa_peers := interrupt_from_str spec\<rparr> else pa);
          spec = attr_or n ''higher'' ''pause'';
          pa = (if spec \<in> {''stop'', ''pause''} then pa\<lparr>pa_higher := interrupt_from_str spec\<rparr> else pa);
          spec = attr_or n ''lower'' ''defer'';
          pa = (if spec \<in> {''defer'', ''never''} then pa\<lparr>pa_lower := interrupt_from_str spec\<rparr> else pa);
          spec = attr_or n ''pauseDisplay'' ''show''
      in if spec \<in> {''disable'', ''hide'', ''show''} then pa\<lparr>pa_display := display_from_str spec\<rparr> else pa)"

section \<open>The specified flags\<close>

lemmas sp_flags = SP_DUR_def SP_BEGIN_def SP_END_def SP_RDUR_def SP_RCOUNT_def SP_MIN_def SP_MAX_def
  SP_ENDSYNC_def SP_FILL_def SP_RESTART_def

lemma and_exp_eq: "(x::int) AND 2 ^ k = 2 ^ k \<longleftrightarrow> bit x k"
  unfolding bit_eq_iff [of "x AND 2 ^ k"] by (auto simp: bit_and_iff bit_exp_iff)

lemma sp_flag_exp: "SP_DUR = 2 ^ 0" "SP_BEGIN = 2 ^ 1" "SP_END = 2 ^ 2" "SP_RDUR = 2 ^ 3"
  "SP_RCOUNT = 2 ^ 4" "SP_MIN = 2 ^ 5" "SP_MAX = 2 ^ 6" "SP_ENDSYNC = 2 ^ 7" "SP_FILL = 2 ^ 8"
  "SP_RESTART = 2 ^ 9"
  by (simp_all add: sp_flags push_bit_eq_mult)

lemmas specified_bits = specified_dur_def specified_begin_def specified_end_def specified_rdur_def
  specified_rcount_def specified_min_def specified_max_def specified_endsync_def specified_fill_def
  specified_restart_def specified_def sp_flag_exp and_exp_eq

lemma bit_flag: "bit (if P then 0 else 2 ^ k :: int) m \<longleftrightarrow> \<not> P \<and> m = k"
  by (auto simp: bit_exp_iff)

lemma flags_parse [frame_simps]:
  "m_spflags (parse_dur n a) = m_spflags a OR (if n ''dur'' = None then 0 else SP_DUR)"
  "m_spflags (parse_rcount n a) = m_spflags a OR (if n ''repeatCount'' = None then 0 else SP_RCOUNT)"
  "m_spflags (parse_rdur n a) = m_spflags a OR (if n ''repeatDur'' = None then 0 else SP_RDUR)"
  "m_spflags (parse_begin n a) = m_spflags a OR (if n ''begin'' = None then 0 else SP_BEGIN)"
  "m_spflags (parse_end n a) = m_spflags a OR (if n ''end'' = None then 0 else SP_END)"
  "m_spflags (parse_min n a) = m_spflags a OR (if n ''min'' = None then 0 else SP_MIN)"
  "m_spflags (parse_max n a) = m_spflags a OR (if n ''max'' = None then 0 else SP_MAX)"
  "m_spflags (parse_endsync n a) = m_spflags a OR (if n ''endsync'' = None then 0 else SP_ENDSYNC)"
  "m_spflags (parse_fill path n a) = m_spflags a OR (if n ''fill'' = None then 0 else SP_FILL)"
  "m_spflags (parse_restart path n a) = m_spflags a OR (if n ''restart'' = None then 0 else SP_RESTART)"
  "m_spflags (parse_actuate n a) = m_spflags a"
  "m_spflags (parse_transitions tr n a) = m_spflags a"
  "m_spflags (parse_time_manipulations fp n a) = m_spflags a"
  by (auto simp: parse_dur_def parse_rcount_def parse_rdur_def parse_begin_def parse_end_def parse_min_def
      parse_max_def parse_endsync_def parse_fill_def parse_restart_def parse_actuate_def
      parse_transitions_def parse_time_manipulations_def set_specified_def Let_def split: option.splits)

lemma flags_min: "specified_min (mk_time_attrs fp tr n up raw) = (n ''min'' \<noteq> None)"
  unfolding specified_bits mk_time_attrs_def parse_time_attrs_def Let_def frame_simps
  unfolding bit_or_iff sp_flag_exp bit_flag by (simp add: attrs_initial_def)

lemma flags_end: "specified_end (mk_time_attrs fp tr n up raw) = (n ''end'' \<noteq> None)"
  unfolding specified_bits mk_time_attrs_def parse_time_attrs_def Let_def frame_simps
  unfolding bit_or_iff sp_flag_exp bit_flag by (simp add: attrs_initial_def)

lemma flags_max: "specified_max (mk_time_attrs fp tr n up raw) = (n ''max'' \<noteq> None)"
  unfolding specified_bits mk_time_attrs_def parse_time_attrs_def Let_def frame_simps
  unfolding bit_or_iff sp_flag_exp bit_flag by (simp add: attrs_initial_def)

text \<open>
  After the constructor every "specified" flag tells whether the element has the attribute,
  independent of the value and of the other attributes.
\<close>

theorem flags_tell_attributes:
  "specified_dur (mk_time_attrs fp tr n up raw) = (n ''dur'' \<noteq> None)
   \<and> specified_begin (mk_time_attrs fp tr n up raw) = (n ''begin'' \<noteq> None)
   \<and> specified_end (mk_time_attrs fp tr n up raw) = (n ''end'' \<noteq> None)
   \<and> specified_rdur (mk_time_attrs fp tr n up raw) = (n ''repeatDur'' \<noteq> None)
   \<and> specified_rcount (mk_time_attrs fp tr n up raw) = (n ''repeatCount'' \<noteq> None)
   \<and> specified_min (mk_time_attrs fp tr n up raw) = (n ''min'' \<noteq> None)
   \<and> specified_max (mk_time_attrs fp tr n up raw) = (n ''max'' \<noteq> None)
   \<and> specified_endsync (mk_time_attrs fp tr n up raw) = (n ''endsync'' \<noteq> None)
   \<and> specified_fill (mk_time_attrs fp tr n up raw) = (n ''fill'' \<noteq> None)
   \<and> specified_restart (mk_time_attrs fp tr n up raw) = (n ''restart'' \<noteq> None)"
  unfolding specified_bits mk_time_attrs_def parse_time_attrs_def Let_def frame_simps
  unfolding bit_or_iff sp_flag_exp bit_flag by (simp add: attrs_initial_def)

section \<open>Well-formed attribute records\<close>

definition final_fill :: "fill_behavior \<Rightarrow> bool" where
  "final_fill f \<longleftrightarrow> f \<notin> {fill_auto, fill_default, fill_inherit}"

definition final_restart :: "restart_behavior \<Rightarrow> bool" where
  "final_restart r \<longleftrightarrow> r \<in> {restart_always, restart_when_not_active, restart_never}"

text \<open>Shares of the simple duration that do not overlap, except that the first may be no number.\<close>

definition ramps_wf :: "fl \<Rightarrow> fl \<Rightarrow> bool" where
  "ramps_wf acc dec \<longleftrightarrow>
     (case dec of
        Fin d \<Rightarrow> 0 \<le> d \<and> d \<le> 1 \<and> (case acc of Fin c \<Rightarrow> 0 \<le> c \<and> c + d \<le> 1 | NotANumber \<Rightarrow> True | _ \<Rightarrow> False)
      | _ \<Rightarrow> False)"

definition attrs_wf :: "time_attrs \<Rightarrow> bool" where
  "attrs_wf a \<longleftrightarrow> final_fill (m_fill a) \<and> final_restart (m_restart a)
     \<and> m_speed a \<noteq> 0
     \<and> ramps_wf (m_accelerate a) (m_decelerate a)
     \<and> (m_dur_type a = dt_indefinite \<longrightarrow> m_dur a = indefinite)
     \<and> (m_dur_type a \<in> {dt_unspecified, dt_media} \<longrightarrow> m_dur a = unresolved)
     \<and> m_trans_in a \<noteq> Some 0 \<and> m_trans_out a \<noteq> Some 0"

lemma get_default_fill_kinds: "get_default_fill path \<notin> {fill_default, fill_inherit}"
  by (induction path) (auto simp: fill_from_str_def split: option.splits if_splits)

lemma fill_from_str_kinds: "fill_from_str s = Some f \<Longrightarrow> f \<notin> {fill_default, fill_inherit}"
  by (auto simp: fill_from_str_def split: if_splits)

lemma restart_from_str_final: "restart_from_str s = Some f \<Longrightarrow> final_restart f"
  by (auto simp: restart_from_str_def final_restart_def split: if_splits)

lemma get_default_restart_final: "final_restart (get_default_restart path)"
  by (induction path) (auto simp: final_restart_def [of restart_always] dest: restart_from_str_final split: option.splits)

lemma modulated_fill_final:
  "f \<notin> {fill_default, fill_inherit} \<Longrightarrow> final_fill (modulated_fill a f)"
  by (auto simp: modulated_fill_def final_fill_def)

lemma parse_fill_final: "final_fill (m_fill (parse_fill path n a))"
proof -
  have 1: "final_fill (modulated_fill b (get_default_fill path))" for b
    using get_default_fill_kinds by (rule modulated_fill_final)
  have 2: "final_fill (modulated_fill b fill_auto)" for b by (simp add: modulated_fill_final)
  have 3: "final_fill f" if "fill_from_str s = Some f" "f \<noteq> fill_auto" for s f
    using fill_from_str_kinds [OF that(1)] that(2) by (simp add: final_fill_def)
  show ?thesis
    using 1 2 by (auto simp: parse_fill_def Let_def set_specified_def split: option.splits dest: 3)
qed

lemma parse_restart_final: "final_restart (m_restart (parse_restart path n a))"
  by (auto simp: parse_restart_def Let_def get_default_restart_final set_specified_def
      dest: restart_from_str_final split: option.splits)

lemma fill_restart_frame [frame_simps]:
  "m_fill (parse_restart path n a) = m_fill a" "m_fill (parse_actuate n a) = m_fill a"
  "m_fill (parse_transitions tr n a) = m_fill a" "m_fill (parse_time_manipulations fp n a) = m_fill a"
  "m_restart (parse_actuate n a) = m_restart a" "m_restart (parse_transitions tr n a) = m_restart a"
  "m_restart (parse_time_manipulations fp n a) = m_restart a"
  "m_trans_in (parse_time_manipulations fp n a) = m_trans_in a"
  "m_trans_out (parse_time_manipulations fp n a) = m_trans_out a"
  by (auto simp: parse_restart_def parse_actuate_def parse_transitions_def parse_time_manipulations_def
      set_specified_def Let_def split: option.splits)

lemma dur_frame [frame_simps]:
  "m_dur (parse_rcount n a) = m_dur a" "m_dur_type (parse_rcount n a) = m_dur_type a"
  "m_dur (parse_rdur n a) = m_dur a" "m_dur_type (parse_rdur n a) = m_dur_type a"
  "m_dur (parse_begin n a) = m_dur a" "m_dur_type (parse_begin n a) = m_dur_type a"
  "m_dur (parse_end n a) = m_dur a" "m_dur_type (parse_end n a) = m_dur_type a"
  "m_dur (parse_min n a) = m_dur a" "m_dur_type (parse_min n a) = m_dur_type a"
  "m_dur (parse_max n a) = m_dur a" "m_dur_type (parse_max n a) = m_dur_type a"
  "m_dur (parse_endsync n a) = m_dur a" "m_dur_type (parse_endsync n a) = m_dur_type a"
  "m_dur (parse_fill path n a) = m_dur a" "m_dur_type (parse_fill path n a) = m_dur_type a"
  "m_dur (parse_restart path n a) = m_dur a" "m_dur_type (parse_restart path n a) = m_dur_type a"
  "m_dur (parse_actuate n a) = m_dur a" "m_dur_type (parse_actuate n a) = m_dur_type a"
  "m_dur (parse_transitions tr n a) = m_dur a" "m_dur_type (parse_transitions tr n a) = m_dur_type a"
  "m_dur (parse_time_manipulations fp n a) = m_dur a"
  "m_dur_type (parse_time_manipulations fp n a) = m_dur_type a"
  by (auto simp: parse_rcount_def parse_rdur_def parse_begin_def parse_end_def parse_min_def
      parse_max_def parse_endsync_def parse_fill_def parse_restart_def parse_actuate_def
      parse_transitions_def parse_time_manipulations_def set_specified_def Let_def split: option.splits)

lemma parse_dur_typed:
  "(m_dur_type (parse_dur n a) = dt_indefinite \<longrightarrow> m_dur (parse_dur n a) = indefinite)
   \<and> (m_dur_type (parse_dur n a) \<in> {dt_unspecified, dt_media} \<longrightarrow> m_dur (parse_dur n a) = unresolved)"
  by (auto simp: parse_dur_def Let_def set_specified_def unspecified_def split: option.splits)

lemma limit_speed_nonzero: "limit_speed fp v \<noteq> 0"
  by (simp add: limit_speed_def Let_def)

lemma clamp_unit_cases: "clamp_unit v = (case v of Fin x \<Rightarrow> Fin (max 0 (min 1 x)) | PInf \<Rightarrow> Fin 1 | NInf \<Rightarrow> Fin 0 | _ \<Rightarrow> NotANumber)"
  by (cases v) (simp_all add: clamp_unit_def max_def min_def)

lemma fmax_number: "fmax (Fin 0) v \<noteq> NotANumber"
  by (cases v) (simp_all add: fmax_def)

lemma ramps_limited:
  assumes "y \<noteq> NotANumber" "over = fless (Fin 1) (fadd (clamp_unit x) (clamp_unit y))"
  shows "ramps_wf (if over then Fin 0 else clamp_unit x) (if over then Fin 0 else clamp_unit y)"
    "(if over then Fin 0 else clamp_unit x) = NotANumber \<longleftrightarrow> x = NotANumber"
  using assms by (cases x; cases y; simp add: ramps_wf_def clamp_unit_cases)+

lemma manipulations_bounds:
  "m_speed (parse_time_manipulations fp n a) \<noteq> 0"
  "ramps_wf (m_accelerate (parse_time_manipulations fp n a)) (m_decelerate (parse_time_manipulations fp n a))"
  "m_accelerate (parse_time_manipulations fp n a) = NotANumber
     \<longleftrightarrow> (case n ''accelerate'' of Some p \<Rightarrow> lib_atof fp p = NotANumber | None \<Rightarrow> False)"
proof -
  let ?x = "case n ''accelerate'' of Some p \<Rightarrow> lib_atof fp p | None \<Rightarrow> Fin 0"
  let ?y = "case n ''decelerate'' of Some p \<Rightarrow> fmax (Fin 0) (lib_atof fp p) | None \<Rightarrow> Fin 0"
  let ?over = "fless (Fin 1) (fadd (clamp_unit ?x) (clamp_unit ?y))"
  have y: "?y \<noteq> NotANumber" by (simp add: fmax_number split: option.split)
  have acc: "m_accelerate (parse_time_manipulations fp n a) = (if ?over then Fin 0 else clamp_unit ?x)"
    and dec: "m_decelerate (parse_time_manipulations fp n a) = (if ?over then Fin 0 else clamp_unit ?y)"
    by (simp_all add: parse_time_manipulations_def Let_def)
  show "m_speed (parse_time_manipulations fp n a) \<noteq> 0"
    by (simp add: parse_time_manipulations_def Let_def limit_speed_nonzero)
  show "ramps_wf (m_accelerate (parse_time_manipulations fp n a)) (m_decelerate (parse_time_manipulations fp n a))"
    unfolding acc dec using ramps_limited(1) [OF y refl] .
  show "m_accelerate (parse_time_manipulations fp n a) = NotANumber
     \<longleftrightarrow> (case n ''accelerate'' of Some p \<Rightarrow> lib_atof fp p = NotANumber | None \<Rightarrow> False)"
    unfolding acc using ramps_limited(2) [OF y refl, of ?x] by (simp split: option.split)
qed

text \<open>
  C30: whatever the attributes say, the constructed record is well formed: the fill and restart
  behaviours are final values (never "auto", "default" or "inherit"), the speed is not 0, the
  deceleration is a share of the simple duration, the acceleration too and they sum to at most 1,
  unless the acceleration is no number; the duration agrees with its type, and no transition of
  length 0 is kept. The acceleration is no number exactly when the attribute reads as none, as
  "nan" does: that value passes the tests that keep the others in bounds.
\<close>

theorem time_attrs_wf:
  "attrs_wf (mk_time_attrs fp tr n up raw)
   \<and> (m_accelerate (mk_time_attrs fp tr n up raw) = NotANumber
      \<longleftrightarrow> (case n ''accelerate'' of Some p \<Rightarrow> lib_atof fp p = NotANumber | None \<Rightarrow> False))"
proof -
  have t: "transition_for tr p \<noteq> Some 0" for p
    by (auto simp: transition_for_def split: option.splits)
  show ?thesis
    unfolding attrs_wf_def mk_time_attrs_def parse_time_attrs_def Let_def frame_simps manipulations_bounds(3)
    using parse_fill_final parse_restart_final manipulations_bounds(1,2) parse_dur_typed t
    by (simp add: parse_transitions_def)
qed

section \<open>Inherited defaults\<close>

text \<open>
  \<open>fillDefault\<close> and \<open>restartDefault\<close> are inherited from the nearest element, this one
  included, whose attribute names a behaviour; "inherit", "default" and invalid values are passed
  over, and without any the defaults are "auto" and "always".
\<close>

theorem defaults_from_nearest:
  "get_default_fill path = (case List.map_filter (\<lambda>n. Option.bind (n ''fillDefault'') (fill_from_str \<circ> trim_cstr)) path of
       [] \<Rightarrow> fill_auto | f # _ \<Rightarrow> f)
   \<and> get_default_restart path = (case List.map_filter (\<lambda>n. Option.bind (n ''restartDefault'') (restart_from_str \<circ> trim_cstr)) path of
       [] \<Rightarrow> restart_always | r # _ \<Rightarrow> r)"
proof (induction path)
  case Nil
  show ?case by (simp add: map_filter_simps)
next
  case (Cons n path)
  then show ?case by (auto simp: map_filter_simps split: option.splits)
qed

section \<open>Sync values\<close>

lemma find_char_prefix: "c \<notin> set p \<Longrightarrow> find_char c (p @ c # s) = Some (length p)"
  by (simp add: find_char_def find_from_def dropWhile_append)

lemma find_last_suffix:
  "P c \<Longrightarrow> (\<forall>x\<in>set t. \<not> P x) \<Longrightarrow> find_last P (p @ c # t) = Some (length p)"
  by (simp add: find_last_def find_from_def dropWhile_append)

lemma offset_value_letter: "is_calpha c \<Longrightarrow> offset_value_p (c # t) = None"
proof -
  assume c: "is_calpha c"
  then have d: "\<not> is_digit c" "c \<notin> set space_chars" "c \<notin> set ''+-''" "c \<noteq> CHR ''.''"
    by (auto simp: is_calpha_def is_digit_def space_chars_def)
  then have a: "any_int_p (c # t) = None" "opt_sign (c # t) = None"
    by (auto simp: any_int_p_def int_p_def opt_sign_def delimiter_p_def)
  have sp: "opt_space (c # t) = (0, c # t)" using d by simp
  have "number_p (c # t) = None"
    using a d sp by (simp add: number_p_def number_unsigned_def)
  then have "clock_value_p (c # t) = None"
    using a by (simp add: clock_value_p_def clock_value_sel_p_def or_trio_p_def plen_def
        full_clock_value_p_def partial_clock_value_p_def timecount_value_p_def)
  then show ?thesis using a sp by (simp add: offset_value_p_def)
qed

text \<open>
  An access key with an offset is never accepted: the offset is looked for at the start of
  the whole value, which is the word "accesskey"; without one the key is taken.
\<close>

theorem accesskey_offset_rejected:
  assumes "k \<noteq> CHR '')''"
  shows "parse_sync (''accesskey('' @ k # CHR '')'' # rest) svs =
    (if trim rest = [] then Some (svs\<lparr>svs_type := sv_accesskey, svs_iparam := signed_char k\<rparr>) else None)"
proof -
  let ?s = "''accesskey('' @ k # CHR '')'' # rest"
  have o: "find_char CHR ''('' ?s = Some 9"
    using find_char_prefix [of "CHR ''(''" "''accesskey''" "k # CHR '')'' # rest"] by simp
  have c: "find_from (\<lambda>x. x = CHR '')'') ?s 9 = Some 11"
    using assms by (simp add: find_from_def)
  have "match_result offset_value_p ?s = None"
    using offset_value_letter [of "CHR ''a''" "tl ?s"] by (simp add: match_result_def matches_def is_calpha_def)
  then have "parse_accesskey ?s svs =
    (if trim rest = [] then Some (svs\<lparr>svs_type := sv_accesskey, svs_iparam := signed_char k\<rparr>) else None)"
    using o c by (simp add: parse_accesskey_def Let_def char_at_def)
  moreover have "starts_with ?s ''accesskey''" "\<not> starts_with ?s ''wallclock''"
    by (simp_all add: starts_with_def starts_with_at_def)
  ultimately show ?thesis by (simp add: parse_sync_def char_at_def is_digit_def)
qed

theorem accesskey_offset_rejected_witness:
  "parse_sync ''accesskey(a)+2s'' svs_zero = None \<and> parse_sync ''accesskey(a)'' svs_zero \<noteq> None"
proof -
  have "trim ''+2s'' \<noteq> []" "trim [] = []" by code_simp+
  then show ?thesis
    using accesskey_offset_rejected [of "CHR ''a''" "''+2s''" svs_zero]
      accesskey_offset_rejected [of "CHR ''a''" "[]" svs_zero] by simp
qed

lemma trim_id: "s \<noteq> [] \<Longrightarrow> list_all (\<lambda>c. c \<notin> set space_chars) s \<Longrightarrow> trim s = s"
proof -
  assume s: "s \<noteq> []" "list_all (\<lambda>c. c \<notin> set space_chars) s"
  then have d: "dropWhile (\<lambda>c. c \<in> set space_chars) s = s" by (cases s) auto
  have "dropWhile (\<lambda>c. c \<in> set space_chars) (rev s) = rev s"
    using s by (cases "rev s") (auto simp: list_all_iff dest: arg_cong [of _ _ set])
  with s d show ?thesis by (cases s) (auto simp: trim_def trim_set_def)
qed

lemma xml_name_ch_not_space: "xml_name_ch c \<Longrightarrow> c \<notin> set space_chars"
  by (auto simp: xml_name_ch_def is_calpha_def is_digit_def space_chars_def)

lemma xml_nmtoken_all: "s \<noteq> [] \<Longrightarrow> list_all xml_name_ch s \<Longrightarrow> xml_nmtoken_p s = Some (s, length s, [])"
proof -
  assume s: "s \<noteq> []" "list_all xml_name_ch s"
  then obtain c r where "s = c # r" "xml_name_ch c" "list_all xml_name_ch r" by (cases s) auto
  moreover from this have "takeWhile xml_name_ch r = r" "dropWhile xml_name_ch r = []"
    by (simp_all add: list_all_iff takeWhile_eq_all_conv)
  ultimately show ?thesis by (simp only: xml_nmtoken_p_def name_p_def Let_def list.case) simp
qed

lemma ends_with_append: "ends_with (b @ p) p = Some True"
  by (simp add: ends_with_def ends_with_loop_iff)

lemma no_sign_in_units: "\<forall>x\<in>set (show_nat n @ unit_text u). \<not> (x = CHR ''+'' \<or> x = CHR ''-'')"
proof -
  have "\<forall>x\<in>set (show_nat n). \<not> (x = CHR ''+'' \<or> x = CHR ''-'')"
    using show_nat_digits [of n] by (auto simp: list_all_iff is_digit_def)
  moreover have "\<forall>x\<in>set (unit_text u). \<not> (x = CHR ''+'' \<or> x = CHR ''-'')"
    by (simp add: unit_text_def split: time_unit.splits)
  ultimately show ?thesis by auto
qed

lemma starts_with_before_dot:
  assumes "starts_with (b @ CHR ''.'' # r) p" "CHR ''.'' \<notin> set p"
  shows "starts_with b p"
proof -
  obtain x where "b @ CHR ''.'' # r = p @ x"
    using assms(1) by (auto simp: starts_with_def starts_with_at_def starts_with_loop_iff)
  then show ?thesis
    using assms(2) by (auto simp: append_eq_append_conv2 Cons_eq_append_conv starts_with_def
        starts_with_at_def starts_with_loop_iff)
qed

text \<open>
  A syncbase value \<open>base.begin\<close> or \<open>base.end\<close> with a signed offset is split into the
  element it refers to, the event and the offset in milliseconds, whatever name characters
  (dots, hyphens and digits included) the id has after its first one.
\<close>

theorem syncbase_offset_parsed:
  assumes "list_all xml_name_ch base" "base \<noteq> []" "\<not> is_digit (hd base)" "hd base \<noteq> CHR ''-''"
    and "\<not> starts_with base ''wallclock''" "\<not> starts_with base ''accesskey''"
    and "int n < 2 ^ 31" "sg = CHR ''+'' \<or> sg = CHR ''-''" "ev = ''begin'' \<or> ev = ''end''"
  shows "parse_sync (base @ ''.'' @ ev @ sg # show_nat n @ unit_text u) svs
    = Some (svs\<lparr>svs_type := sv_syncbase, svs_base := base, svs_event := ev,
        svs_offset := (if sg = CHR ''+'' then 1 else - 1) * (int n * unit_ms u)\<rparr>)"
proof -
  let ?t = "base @ ''.'' @ ev" and ?o = "sg # show_nat n @ unit_text u"
  let ?v = "(if sg = CHR ''+'' then 1 else - 1) * (int n * unit_ms u)"
  have o: "match_result offset_value_p ?o = Some ?v"
    using offset_value_units [OF assms(7,8), of u] by (simp add: match_result_def matches_def)
  have l: "find_last (\<lambda>c. c = CHR ''+'' \<or> c = CHR ''-'') (?t @ ?o) = Some (length ?t)"
    by (rule find_last_suffix) (use assms(8) no_sign_in_units in auto)
  have ev: "list_all xml_name_ch ev" "CHR ''.'' \<notin> set ev"
    using assms(9) by (auto simp: xml_name_ch_def is_calpha_def)
  have t: "?t \<noteq> []" "list_all xml_name_ch ?t"
    using assms(1) ev by (auto simp: xml_name_ch_def [of "CHR ''.''"])
  then have "trim ?t = ?t"
    by (intro trim_id) (auto simp: list_all_iff dest: xml_name_ch_not_space)
  with l o have sp: "split_offset (?t @ ?o) svs = (?t, svs\<lparr>svs_offset := ?v\<rparr>)"
    by (simp add: split_offset_def)
  have d: "find_last (\<lambda>c. c = CHR ''.'') ?t = Some (length base)"
    using find_last_suffix [of "\<lambda>c. c = CHR ''.''" "CHR ''.''" ev base] ev by auto
  have e: "ends_with ?t ''.begin'' = Some True \<or> ends_with ?t ''.end'' = Some True"
    using assms(9) ends_with_append [of base "''.begin''"] ends_with_append [of base "''.end''"] by auto
  have cl: "classify_event ?t ?t (svs\<lparr>svs_offset := ?v\<rparr>)
      = Some (ev, svs\<lparr>svs_offset := ?v, svs_base := base, svs_type := sv_syncbase\<rparr>)"
    unfolding classify_event_def d using e by (simp add: Let_def)
  have st: "\<not> starts_with ev ''stateChange''" "ev \<noteq> []"
    using assms(9) by (auto simp: starts_with_def starts_with_at_def)
  have nm: "parse_nmtoken_offset (?t @ ?o) svs
      = Some (svs\<lparr>svs_type := sv_syncbase, svs_base := base, svs_event := ev, svs_offset := ?v\<rparr>)"
    unfolding parse_nmtoken_offset_def sp Let_def prod.case xml_nmtoken_all [OF t] option.case cl
    using st by simp
  obtain c r where base: "base = c # r" using assms(2) by (cases base) auto
  have "c \<noteq> CHR ''+''" using assms(1) base by (auto simp: xml_name_ch_def is_calpha_def is_digit_def)
  have nw: "\<not> starts_with (?t @ ?o) ''wallclock''" "\<not> starts_with (?t @ ?o) ''accesskey''"
    using assms(5,6) starts_with_before_dot [of base "ev @ ?o"] by auto
  have "CHR ''.'' \<in> set (?t @ ?o)" by simp
  moreover have "CHR ''.'' \<notin> set ''indefinite''" by simp
  ultimately have "?t @ ?o \<noteq> ''indefinite''" by metis
  moreover have "char_at (?t @ ?o) 0 = c" using base by (simp add: char_at_def)
  moreover have "\<not> is_digit c" "c \<noteq> CHR ''-''" using assms(3,4) base by simp_all
  ultimately have "parse_sync (?t @ ?o) svs = parse_nmtoken_offset (?t @ ?o) svs"
    unfolding parse_sync_def Let_def using nw \<open>c \<noteq> CHR ''+''\<close> by (simp only: if_False simp_thms)
  then show ?thesis unfolding nm by simp
qed

theorem syncbase_offset_parsed_witness:
  "map_option svs_offset (parse_sync ''par-1.end-30s'' svs_zero) = Some (- 30000)"
proof -
  have "show_nat 30 = ''30''" by code_simp
  moreover have "list_all xml_name_ch ''par-1''" "\<not> is_digit CHR ''p''"
    "\<not> starts_with ''par-1'' ''wallclock''" "\<not> starts_with ''par-1'' ''accesskey''"
    by code_simp+
  ultimately show ?thesis
    using syncbase_offset_parsed [of "''par-1''" 30 "CHR ''-''" "''end''" tu_s svs_zero]
    by (simp add: unit_text_def unit_ms_def)
qed

section \<open>Malformed values\<close>

lemma time_attrs_frame [frame_simps]:
  "m_max (parse_dur n a) = m_max a" "m_max (parse_rcount n a) = m_max a"
  "m_max (parse_rdur n a) = m_max a" "m_max (parse_begin n a) = m_max a"
  "m_max (parse_end n a) = m_max a" "m_max (parse_min n a) = m_max a"
  "m_max (parse_endsync n a) = m_max a" "m_max (parse_fill path n a) = m_max a"
  "m_max (parse_restart path n a) = m_max a" "m_max (parse_actuate n a) = m_max a"
  "m_max (parse_transitions tr n a) = m_max a" "m_max (parse_time_manipulations fp n a) = m_max a"
  by (auto simp: parse_dur_def parse_rcount_def parse_rdur_def parse_begin_def parse_end_def parse_min_def
      parse_max_def parse_endsync_def parse_fill_def parse_restart_def parse_actuate_def
      parse_transitions_def parse_time_manipulations_def set_specified_def Let_def split: option.splits)

lemma m_max_mk: "m_max (mk_time_attrs fp tr n up raw) = (case n ''max'' of
     None \<Rightarrow> 0
   | Some p \<Rightarrow>
       (let s = trim_cstr p
        in if s = ''media'' then unresolved else if s = ''indefinite'' then indefinite
           else case clock_prefix s of None \<Rightarrow> 0 | Some v \<Rightarrow> v))"
  unfolding mk_time_attrs_def parse_time_attrs_def Let_def frame_simps parse_max_def
  by (simp add: attrs_initial_def set_specified_def unspecified_def frame_simps split: option.split)

lemma m_min_frame [frame_simps]:
  "m_min (parse_max n a) = m_min a" "m_min (parse_endsync n a) = m_min a"
  "m_min (parse_fill path n a) = m_min a" "m_min (parse_restart path n a) = m_min a"
  "m_min (parse_actuate n a) = m_min a" "m_min (parse_transitions tr n a) = m_min a"
  "m_min (parse_time_manipulations fp n a) = m_min a"
  by (auto simp: parse_max_def parse_endsync_def parse_fill_def parse_restart_def parse_actuate_def
      parse_transitions_def parse_time_manipulations_def set_specified_def Let_def split: option.splits)

lemma m_min_media: "n ''min'' = Some p \<Longrightarrow> trim_cstr p = ''media'' \<Longrightarrow>
    specified_min (mk_time_attrs fp tr n up raw) \<and> m_min (mk_time_attrs fp tr n up raw) = unresolved"
proof
  assume n: "n ''min'' = Some p" "trim_cstr p = ''media''"
  show "specified_min (mk_time_attrs fp tr n up raw)"
    unfolding specified_bits mk_time_attrs_def parse_time_attrs_def Let_def frame_simps
    unfolding bit_or_iff sp_flag_exp bit_flag using n by simp
  show "m_min (mk_time_attrs fp tr n up raw) = unresolved"
    unfolding mk_time_attrs_def parse_time_attrs_def Let_def frame_simps parse_min_def
    using n by (simp add: set_specified_def unspecified_def)
qed

text \<open>
  A \<open>max\<close> attribute that is not a clock value is reported but counts as specified with the
  value 0, the value of the default constructor, instead of being ignored.
\<close>

theorem malformed_max_is_zero:
  assumes "n ''max'' = Some p" "clock_prefix (trim_cstr p) = None"
    and "trim_cstr p \<noteq> ''media''" "trim_cstr p \<noteq> ''indefinite''"
  shows "specified_max (mk_time_attrs fp tr n up raw) \<and> m_max (mk_time_attrs fp tr n up raw) = 0"
  using assms flags_max by (simp add: m_max_mk Let_def)

theorem malformed_max_is_zero_witness:
  "m_max (mk_time_attrs zero_lib (\<lambda>_. None) (\<lambda>k. if k = ''max'' then Some ''none'' else None) [] raw) = 0"
proof -
  have "trim_cstr ''none'' = ''none''" "clock_prefix ''none'' = None" by code_simp+
  then show ?thesis
    using malformed_max_is_zero [of "\<lambda>k. if k = ''max'' then Some ''none'' else None" "''none''"] by simp
qed

end
