(* ===== verification/Time_Calc.thy ===== *)
theory Time_Calc
  imports Time_Attrs
begin

text \<open>
  The timing calculations of an element (smil2/time_calc.cpp): simple and active duration,
  interval ends, and the first and next interval. The record \<open>time_calc\<close> holds the state of
  the class: the attributes, what the \<open>schedulable\<close> interface answers for the implicit and
  the last duration, the paused mode and the flag \<open>m_uses_dur\<close>. Every function returns its
  result and the updated record. Begin and end lists are sorted lists. The search for the first
  interval may loop for ever: \<open>None\<close> there is divergence. \<open>None\<close> of \<open>calc_next_interval\<close>
  is the dereference of the end iterator.
\<close>

section \<open>Durations\<close>

record time_calc =
  tc_attrs :: time_attrs
  tc_implicit_dur :: stime
  tc_last_dur :: stime
  tc_paused :: bool
  tc_uses_dur :: bool

definition time_manipulated :: "time_attrs \<Rightarrow> stime \<Rightarrow> stime" where
  "time_manipulated a d =
     (if \<not> is_definite d then d
      else let speed100 = to_ulong \<lfloor>1 / 2 + \<bar>m_speed a\<bar> * 100\<rfloor>;
               speed100 = (if speed100 = 0 then 1 else speed100);
               ud = to_ulong (speed100 * d) div 100;
               d = to_long ud
           in if m_auto_reverse a then time_add d d else d)"

definition calc_dur :: "time_calc \<Rightarrow> stime \<times> time_calc" where
  "calc_dur tc =
     (let a = tc_attrs tc
      in if \<not> has_dur_specifier a \<and> specified_end a then (indefinite, tc)
         else case (if tc_paused tc then dt_indefinite else m_dur_type a) of
                dt_definite \<Rightarrow> (time_manipulated a (m_dur a), tc\<lparr>tc_uses_dur := True\<rparr>)
              | dt_indefinite \<Rightarrow> (indefinite, tc)
              | dt_unspecified \<Rightarrow> (tc_implicit_dur tc, tc\<lparr>tc_uses_dur := True\<rparr>)
              | dt_media \<Rightarrow> (tc_implicit_dur tc, tc\<lparr>tc_uses_dur := True\<rparr>))"

text \<open>The accumulated duration of the repeat iterations, rounded to milliseconds.\<close>

definition repeat_product :: "rat \<Rightarrow> stime \<Rightarrow> stime" where
  "repeat_product rcount d = to_long \<lfloor>rcount * of_int d + 1 / 2\<rfloor>"

definition calc_active_rad :: "time_calc \<Rightarrow> stime" where
  "calc_active_rad tc =
     (let a = tc_attrs tc
      in if m_dur_type a = dt_definite
         then (if is_rcount_indefinite a then indefinite
               else repeat_product (m_rcount a) (time_manipulated a (m_dur a)))
         else if is_definite (tc_implicit_dur tc)
         then (if is_rcount_indefinite a then indefinite
               else repeat_product (m_rcount a) (tc_implicit_dur tc))
         else if is_definite (tc_last_dur tc)
         then (if is_rcount_indefinite a then indefinite
               else repeat_product (m_rcount a) (tc_last_dur tc))
         else unresolved)"

definition calc_intermediate_ad :: "time_calc \<Rightarrow> stime \<times> time_calc" where
  "calc_intermediate_ad tc =
     (let (cdur, tc) = calc_dur tc; a = tc_attrs tc;
          adrad = (if specified_rcount a then calc_active_rad tc else indefinite);
          rdur = (if specified_rdur a then m_rdur a else indefinite)
      in if cdur = 0 then (0, tc)
         else if \<not> specified_rcount a \<and> \<not> specified_rdur a then (cdur, tc)
         else (min (min adrad rdur) indefinite, tc))"

definition calc_preliminary_ad2 :: "time_calc \<Rightarrow> stime \<Rightarrow> stime \<Rightarrow> stime \<times> time_calc" where
  "calc_preliminary_ad2 tc b e =
     (let a = tc_attrs tc
      in if \<not> has_dur_specifier a \<and> specified_end a
         then (if is_definite e then (time_sub e b, tc)
               else if is_indefinite e then (indefinite, tc) else (unresolved, tc))
         else if \<not> specified_end a \<or> specified_end a \<and> end_is_indefinite a
         then calc_intermediate_ad tc
         else (let (iad, tc) = calc_intermediate_ad tc in (min iad (time_sub e b), tc)))"

definition calc_preliminary_ad1 :: "time_calc \<Rightarrow> stime \<Rightarrow> stime \<times> time_calc" where
  "calc_preliminary_ad1 tc b = calc_intermediate_ad tc"

definition minval :: "time_attrs \<Rightarrow> stime" where
  "minval a = (if specified_min a then m_min a else 0)"

definition maxval :: "time_attrs \<Rightarrow> stime" where
  "maxval a = (if specified_max a then m_max a else indefinite)"

definition calc_ad2 :: "time_calc \<Rightarrow> stime \<Rightarrow> stime \<Rightarrow> stime \<times> time_calc" where
  "calc_ad2 tc b e =
     (let mn = minval (tc_attrs tc); mx = maxval (tc_attrs tc); (pad, tc) = calc_preliminary_ad2 tc b e
      in (min mx (max mn pad), tc))"

definition calc_ad1 :: "time_calc \<Rightarrow> stime \<Rightarrow> stime \<times> time_calc" where
  "calc_ad1 tc b =
     (let mn = minval (tc_attrs tc); mx = maxval (tc_attrs tc); (pad, tc) = calc_preliminary_ad1 tc b
      in (min mx (max mn pad), tc))"

definition calc_end2 :: "time_calc \<Rightarrow> stime \<Rightarrow> stime \<Rightarrow> stime \<times> time_calc" where
  "calc_end2 tc b e = (let (ad, tc) = calc_ad2 tc b e in (time_add b ad, tc))"

definition calc_end1 :: "time_calc \<Rightarrow> stime \<Rightarrow> stime \<times> time_calc" where
  "calc_end1 tc b = (let (ad, tc) = calc_ad1 tc b in (time_add b ad, tc))"

section \<open>Intervals\<close>

definition calc_interval_end :: "time_calc \<Rightarrow> smil_interval \<Rightarrow> stime list \<Rightarrow> stime \<times> time_calc" where
  "calc_interval_end tc i end_list =
     (if \<not> specified_end (tc_attrs tc) then calc_end1 tc (ibegin i)
      else case lower_bound end_list (ibegin i) of
             Some e \<Rightarrow> calc_end2 tc (ibegin i) e
           | None \<Rightarrow> calc_end2 tc (ibegin i) unresolved)"

text \<open>
  The end of a candidate of the first interval: the end instance is used up; the result is
  \<open>None\<close> when the search fails because no end is left for this begin.
\<close>

definition first_candidate_end ::
    "time_calc \<Rightarrow> stime \<Rightarrow> stime list \<Rightarrow> (stime \<times> stime list \<times> time_calc) option" where
  "first_candidate_end tc b end_list =
     (if \<not> specified_end (tc_attrs tc)
      then (let (e, tc) = calc_end1 tc b in Some (e, end_list, tc))
      else case lower_bound end_list b of
             Some e \<Rightarrow> (let (e', tc) = calc_end2 tc b e in Some (e', remove1 e end_list, tc))
           | None \<Rightarrow>
               if end_has_event_conditions (tc_attrs tc) \<or> end_list = []
               then (let (e', tc) = calc_end2 tc b unresolved in Some (e', end_list, tc))
               else None)"

definition first_acceptable :: "stime \<Rightarrow> stime \<Rightarrow> bool" where
  "first_acceptable b e \<longleftrightarrow> 0 < e \<or> b = 0 \<and> e = 0"

partial_function (option) first_interval_loop ::
    "stime list \<Rightarrow> stime \<Rightarrow> stime \<Rightarrow> stime list \<Rightarrow> time_calc \<Rightarrow> (smil_interval \<times> stime list \<times> time_calc) option" where
  "first_interval_loop begin_list begin_before begin_after end_list tc =
     (case lower_bound begin_list begin_after of
        None \<Rightarrow> Some (interval_unresolved, end_list, tc)
      | Some b \<Rightarrow>
          if begin_before < b then Some (interval_unresolved, end_list, tc)
          else (case first_candidate_end tc b end_list of
                  None \<Rightarrow> Some (interval_unresolved, end_list, tc)
                | Some (e, end_list, tc) \<Rightarrow>
                    if first_acceptable b e then Some (mk_interval b e, end_list, tc)
                    else first_interval_loop begin_list begin_before e end_list tc))"

declare first_interval_loop.simps [code]

definition calc_first_interval ::
    "time_calc \<Rightarrow> stime list \<Rightarrow> stime list \<Rightarrow> stime \<Rightarrow> (smil_interval \<times> stime list \<times> time_calc) option" where
  "calc_first_interval tc begin_list end_list begin_before =
     (if begin_list = [] then Some (interval_unresolved, end_list, tc)
      else first_interval_loop begin_list begin_before minus_infinity end_list tc)"

text \<open>
  The end instance of the next interval: \<open>None\<close> when the loop \<open>while (*eit == begin_after)\<close>
  runs into the end of the list, which it reads.
\<close>

definition next_end_instance :: "time_calc \<Rightarrow> stime list \<Rightarrow> stime \<Rightarrow> stime \<Rightarrow> stime option option" where
  "next_end_instance tc end_list b begin_after =
     (case dropWhile (\<lambda>e. e < b) end_list of
        [] \<Rightarrow> Some (if end_has_event_conditions (tc_attrs tc) \<or> end_list = [] then Some unresolved else None)
      | es \<Rightarrow>
          (case dropWhile (\<lambda>e. e = begin_after) es of
             [] \<Rightarrow> None
           | e # _ \<Rightarrow> Some (Some e)))"

definition calc_next_interval ::
    "time_calc \<Rightarrow> stime list \<Rightarrow> stime list \<Rightarrow> stime \<Rightarrow> stime \<Rightarrow> bool \<Rightarrow> (smil_interval \<times> time_calc) option" where
  "calc_next_interval tc begin_list end_list begin_before begin_after prev_was_zero_dur =
     (if begin_list = [] then Some (interval_unresolved, tc)
      else case (if \<not> prev_was_zero_dur then lower_bound begin_list begin_after
                 else upper_bound begin_list begin_after) of
             None \<Rightarrow> Some (interval_unresolved, tc)
           | Some b \<Rightarrow>
               if begin_before \<le> b then Some (interval_unresolved, tc)
               else if \<not> specified_end (tc_attrs tc)
               then (let (e, tc) = calc_end1 tc b in Some (mk_interval b e, tc))
               else (case next_end_instance tc end_list b begin_after of
                       None \<Rightarrow> None
                     | Some None \<Rightarrow> Some (interval_unresolved, tc)
                     | Some (Some e) \<Rightarrow> (let (e', tc) = calc_end2 tc b e in Some (mk_interval b e', tc))))"

definition set_paused_mode :: "bool \<Rightarrow> time_calc \<Rightarrow> time_calc" where
  "set_paused_mode b tc = tc\<lparr>tc_paused := b\<rparr>"

section \<open>What the calculations change\<close>

text \<open>The only field a calculation changes is \<open>m_uses_dur\<close>, which no calculation reads.\<close>

definition same_calc :: "time_calc \<Rightarrow> time_calc \<Rightarrow> bool" where
  "same_calc tc tc' \<longleftrightarrow> tc' = tc \<or> tc' = tc\<lparr>tc_uses_dur := True\<rparr>"

lemma same_calc_refl [simp]: "same_calc tc tc"
  by (simp add: same_calc_def)

lemma same_calc_trans: "same_calc a b \<Longrightarrow> same_calc b c \<Longrightarrow> same_calc a c"
  by (auto simp: same_calc_def)

lemma same_calc_fields: "same_calc tc tc' \<Longrightarrow> tc_attrs tc' = tc_attrs tc
    \<and> tc_implicit_dur tc' = tc_implicit_dur tc \<and> tc_last_dur tc' = tc_last_dur tc \<and> tc_paused tc' = tc_paused tc"
  by (auto simp: same_calc_def)

lemma calc_dur_same: "same_calc tc (snd (calc_dur tc))"
  by (auto simp: calc_dur_def Let_def same_calc_def split: dur_type.splits)

lemma calc_dur_cong: "same_calc tc tc' \<Longrightarrow> fst (calc_dur tc') = fst (calc_dur tc)"
  using same_calc_fields [of tc tc'] by (auto simp: calc_dur_def Let_def split: dur_type.splits)

lemma calc_active_rad_cong: "same_calc tc tc' \<Longrightarrow> calc_active_rad tc' = calc_active_rad tc"
  using same_calc_fields [of tc tc'] by (simp add: calc_active_rad_def Let_def)

lemma calc_intermediate_ad_alt:
  "calc_intermediate_ad tc =
     (let a = tc_attrs tc; adrad = (if specified_rcount a then calc_active_rad tc else indefinite);
          rdur = (if specified_rdur a then m_rdur a else indefinite)
      in if fst (calc_dur tc) = 0 then 0
         else if \<not> specified_rcount a \<and> \<not> specified_rdur a then fst (calc_dur tc)
         else min (min adrad rdur) indefinite, snd (calc_dur tc))"
proof -
  note s = calc_dur_same [of tc]
  show ?thesis
    using same_calc_fields [OF s] calc_active_rad_cong [OF s]
    by (auto simp: calc_intermediate_ad_def Let_def split: prod.split)
qed

lemma calc_intermediate_ad_same: "same_calc tc (snd (calc_intermediate_ad tc))"
  by (simp add: calc_intermediate_ad_alt calc_dur_same)

lemma calc_intermediate_ad_cong:
  "same_calc tc tc' \<Longrightarrow> fst (calc_intermediate_ad tc') = fst (calc_intermediate_ad tc)"
  using same_calc_fields [of tc tc']
  by (simp add: calc_intermediate_ad_alt Let_def calc_dur_cong calc_active_rad_cong)

lemma calc_preliminary_ad2_alt:
  "calc_preliminary_ad2 tc b e =
     (let a = tc_attrs tc
      in if \<not> has_dur_specifier a \<and> specified_end a
         then (if is_definite e then (time_sub e b, tc)
               else if is_indefinite e then (indefinite, tc) else (unresolved, tc))
         else if \<not> specified_end a \<or> end_is_indefinite a
         then calc_intermediate_ad tc
         else (min (fst (calc_intermediate_ad tc)) (time_sub e b), snd (calc_intermediate_ad tc)))"
  by (auto simp: calc_preliminary_ad2_def Let_def split: prod.split)

lemma calc_preliminary_ad2_same: "same_calc tc (snd (calc_preliminary_ad2 tc b e))"
  by (auto simp: calc_preliminary_ad2_alt Let_def calc_intermediate_ad_same)

lemma calc_preliminary_ad2_cong:
  "same_calc tc tc' \<Longrightarrow> fst (calc_preliminary_ad2 tc' b e) = fst (calc_preliminary_ad2 tc b e)"
  using same_calc_fields [of tc tc'] by (simp add: calc_preliminary_ad2_alt Let_def calc_intermediate_ad_cong)

lemma calc_ad2_alt: "calc_ad2 tc b e =
    (min (maxval (tc_attrs tc)) (max (minval (tc_attrs tc)) (fst (calc_preliminary_ad2 tc b e))),
     snd (calc_preliminary_ad2 tc b e))"
  by (simp add: calc_ad2_def Let_def split: prod.split)

lemma calc_ad1_alt: "calc_ad1 tc b =
    (min (maxval (tc_attrs tc)) (max (minval (tc_attrs tc)) (fst (calc_intermediate_ad tc))),
     snd (calc_intermediate_ad tc))"
  by (simp add: calc_ad1_def calc_preliminary_ad1_def Let_def split: prod.split)

lemma calc_end_alt:
  "calc_end2 tc b e = (time_add b (fst (calc_ad2 tc b e)), snd (calc_ad2 tc b e))"
  "calc_end1 tc b = (time_add b (fst (calc_ad1 tc b)), snd (calc_ad1 tc b))"
  by (simp_all add: calc_end2_def calc_end1_def split: prod.split)

lemma calc_end_same: "same_calc tc (snd (calc_end2 tc b e))" "same_calc tc (snd (calc_end1 tc b))"
  by (simp_all add: calc_end_alt calc_ad2_alt calc_ad1_alt calc_preliminary_ad2_same calc_intermediate_ad_same)

lemma calc_end_cong:
  "same_calc tc tc' \<Longrightarrow> fst (calc_end2 tc' b e) = fst (calc_end2 tc b e)"
  "same_calc tc tc' \<Longrightarrow> fst (calc_end1 tc' b) = fst (calc_end1 tc b)"
  using same_calc_fields [of tc tc']
  by (simp_all add: calc_end_alt calc_ad2_alt calc_ad1_alt calc_preliminary_ad2_cong calc_intermediate_ad_cong)

section \<open>Active durations\<close>

lemma time_manipulated_plain:
  assumes "m_speed a = 1" "\<not> m_auto_reverse a" "is_definite d" "0 \<le> d" "d < 2 ^ 57"
  shows "time_manipulated a d = d"
proof -
  have "is_ulong (100 * d)" "is_ulong 100" "is_long d" using assms by (simp_all add: is_ulong_def c_arith)
  moreover have "\<lfloor>1 / 2 + \<bar>m_speed a\<bar> * 100\<rfloor> = 100" using assms(1) by (simp add: floor_eq_iff)
  ultimately show ?thesis using assms by (simp add: time_manipulated_def Let_def)
qed

lemma funpow_time_add:
  "0 \<le> d \<Longrightarrow> in_range (int n * d) \<Longrightarrow> is_definite d \<Longrightarrow> (time_add d ^^ n) 0 = int n * d"
proof (induction n)
  case 0
  then show ?case by simp
next
  case (Suc n)
  have "int n * d \<le> int (Suc n) * d" "0 \<le> int n * d" using Suc.prems(1) by (simp_all add: mult_right_mono)
  with Suc.prems(2) have r: "in_range (int n * d)" by (auto simp: in_range_def time_consts)
  then have "(time_add d ^^ Suc n) 0 = time_add d (int n * d)" using Suc by simp
  also have "\<dots> = d + int n * d"
    using Suc.prems in_rangeD [OF r] in_rangeD [OF Suc.prems(2)]
    by (intro time_add_definite) (simp_all add: algebra_simps)
  finally show ?case by (simp add: algebra_simps)
qed

lemma repeat_product_nat: "is_long (int n * d) \<Longrightarrow> repeat_product (of_nat n) d = int n * d"
  using floor_half [of "int n * d"] by (simp add: repeat_product_def)

text \<open>
  With a whole repeat count and no manipulation, the intermediate active duration computed by
  one multiplication in floating point is the sum of that many simple durations.
\<close>

theorem repeat_accumulates:
  assumes "m_dur_type (tc_attrs tc) = dt_definite" "m_dur (tc_attrs tc) = d"
    and "0 < d" "d < 2 ^ 57" "in_range (int n * d)"
    and "specified_rcount (tc_attrs tc)" "m_rcount (tc_attrs tc) = of_nat n" "n < 2 ^ 53"
    and "\<not> specified_rdur (tc_attrs tc)" "\<not> tc_paused tc"
    and "m_speed (tc_attrs tc) = 1" "\<not> m_auto_reverse (tc_attrs tc)"
  shows "fst (calc_intermediate_ad tc) = (time_add d ^^ n) 0"
proof -
  have d: "is_definite d" using assms(3,4) by (simp add: time_kinds time_consts)
  have m: "time_manipulated (tc_attrs tc) d = d" using assms d by (intro time_manipulated_plain) auto
  have ni: "\<not> is_rcount_indefinite (tc_attrs tc)"
  proof -
    have "int n < (2 ^ 53 - 1) * 2 ^ 971" using assms(8) by (simp add: nat_less_real_le)
    then have "(of_int (int n) :: rat) < of_int ((2 ^ 53 - 1) * 2 ^ 971)" by (simp only: of_int_less_iff)
    then show ?thesis using assms(7) by (simp only: is_rcount_indefinite_def dbl_max_def of_int_of_nat_eq)
  qed
  have "calc_active_rad tc = int n * d"
    using assms ni m in_rangeD [OF assms(5)] by (simp add: calc_active_rad_def repeat_product_nat)
  moreover have "fst (calc_dur tc) = d"
    using assms m by (simp add: calc_dur_def has_dur_specifier_def)
  moreover have "int n * d \<le> indefinite" using assms(5) by (simp add: in_range_def)
  ultimately show ?thesis
    using assms funpow_time_add [OF _ assms(5) d] by (simp add: calc_intermediate_ad_alt Let_def)
qed

text \<open>An attribute record for examples: a duration of 5 s, nothing else.\<close>

definition plain_attrs :: time_attrs where
  "plain_attrs = \<lparr>m_dur_type = dt_definite, m_dur = 5000, m_rcount = 0, m_rdur = 0,
     m_min_media = False, m_min = 0, m_max_media = False, m_max = 0, m_blist = [], m_elist = [],
     m_endsync_rule = esr_last, m_endsync_ident = [], m_fill = fill_remove, m_restart = restart_always,
     m_actuate = actuate_onrequest, m_speed = 1, m_accelerate = Fin 0, m_decelerate = Fin 0,
     m_auto_reverse = False, m_trans_in = None, m_trans_out = None, m_spflags = SP_DUR\<rparr>"

definition plain_calc :: "time_attrs \<Rightarrow> time_calc" where
  "plain_calc a = \<lparr>tc_attrs = a, tc_implicit_dur = unresolved, tc_last_dur = unresolved,
     tc_paused = False, tc_uses_dur = False\<rparr>"

theorem repeat_accumulates_witness:
  "fst (calc_intermediate_ad (plain_calc (plain_attrs\<lparr>m_rcount := 3, m_spflags := SP_RCOUNT\<rparr>))) = 15000"
proof -
  have "in_range (int 3 * 5000)" by (simp add: in_range_def time_consts)
  then have "fst (calc_intermediate_ad (plain_calc (plain_attrs\<lparr>m_rcount := 3, m_spflags := SP_RCOUNT\<rparr>)))
      = (time_add 5000 ^^ 3) 0"
    by (intro repeat_accumulates)
      (simp_all add: plain_calc_def plain_attrs_def specified_bits bit_exp_iff del: power_Suc power_one_right power_0 One_nat_def)
  also have "\<dots> = int 3 * 5000"
    by (intro funpow_time_add) (simp_all add: in_range_def time_kinds time_consts)
  finally show ?thesis by simp
qed

lemma time_add_mono:
  assumes "x \<le> y" "is_definite b" "is_definite x" "is_definite y" "in_range (b + x)" "in_range (b + y)"
  shows "time_add b x \<le> time_add b y"
  using assms in_rangeD by (simp add: time_add_definite)

definition end_constrained :: "time_attrs \<Rightarrow> bool" where
  "end_constrained a \<longleftrightarrow> specified_end a \<and> (\<not> has_dur_specifier a \<or> \<not> end_is_indefinite a)"

lemma preliminary_ad_le:
  assumes "end_constrained (tc_attrs tc)" "is_definite e"
  shows "fst (calc_preliminary_ad2 tc b e) \<le> time_sub e b"
  using assms by (auto simp: calc_preliminary_ad2_alt Let_def end_constrained_def)

text \<open>
  A definite end instance bounds the interval: the computed end is not after it, unless
  \<open>min\<close> forces the interval to last longer, whatever the duration, repeat and \<open>max\<close>
  attributes are.
\<close>

theorem end_instance_respected:
  assumes "end_constrained (tc_attrs tc)" "is_definite e" "is_long e" "0 \<le> b" "b \<le> e"
    and "0 \<le> minval (tc_attrs tc)" "is_definite (minval (tc_attrs tc))" "0 \<le> maxval (tc_attrs tc)"
    and "in_range (b + minval (tc_attrs tc))"
  shows "fst (calc_end2 tc b e) \<le> max e (time_add b (minval (tc_attrs tc)))"
proof -
  let ?mn = "minval (tc_attrs tc)" and ?ad = "fst (calc_ad2 tc b e)"
  have b: "is_definite b" using assms by (auto simp: time_kinds time_consts)
  have r: "in_range (e - b)" "in_range (b + (e - b))"
    using assms(2,3,4,5) by (auto simp: in_range_def time_kinds time_consts)
  then have sub: "time_sub e b = e - b" using assms(2) b in_rangeD by (simp add: time_sub_definite)
  have le: "?ad \<le> max ?mn (e - b)"
    using preliminary_ad_le [OF assms(1,2), of b] sub by (simp add: calc_ad2_alt)
  have mx: "is_definite (max ?mn (e - b))" "in_range (b + max ?mn (e - b))"
    using assms(7,9) r in_rangeD [OF r(1)] by (simp_all add: max_def)
  have ad: "0 \<le> ?ad" using assms(6,8) by (simp add: calc_ad2_alt)
  with le mx(2) assms(4) have "is_definite ?ad" "in_range (b + ?ad)"
    by (simp_all add: in_range_def time_kinds time_consts)
  then have "time_add b ?ad \<le> time_add b (max ?mn (e - b))"
    using le b mx by (intro time_add_mono)
  moreover have "time_add b (e - b) = e" using b in_rangeD [OF r(1)] r(2) in_rangeD [OF r(2)]
    by (simp add: time_add_definite)
  ultimately show ?thesis by (auto simp: calc_end_alt max_def split: if_splits)
qed

theorem end_instance_respected_witness:
  "fst (calc_end2 (plain_calc (plain_attrs\<lparr>m_spflags := SP_DUR OR SP_END\<rparr>)) 1000 3000) \<le> 3000"
proof -
  let ?tc = "plain_calc (plain_attrs\<lparr>m_spflags := SP_DUR OR SP_END\<rparr>)"
  have "end_constrained (tc_attrs ?tc)"
    by code_simp
  moreover have "minval (tc_attrs ?tc) = 0" "maxval (tc_attrs ?tc) = indefinite"
    by code_simp+
  ultimately show ?thesis
    using end_instance_respected [of ?tc 3000 1000]
    by (simp add: time_kinds time_consts in_range_def time_add_def)
qed

section \<open>The first interval\<close>

text \<open>What the search knows of the candidate it returns.\<close>

definition candidate_of :: "time_calc \<Rightarrow> stime list \<Rightarrow> smil_interval \<Rightarrow> bool" where
  "candidate_of tc end_list i \<longleftrightarrow>
     (if specified_end (tc_attrs tc)
      then \<exists>e. (e \<in> set end_list \<and> ibegin i \<le> e \<or> e = unresolved) \<and> iend i = fst (calc_end2 tc (ibegin i) e)
      else iend i = fst (calc_end1 tc (ibegin i)))"

lemma candidate_of_mono:
  "same_calc tc tc' \<Longrightarrow> set el' \<subseteq> set el \<Longrightarrow> candidate_of tc' el' i \<Longrightarrow> candidate_of tc el i"
  using same_calc_fields [of tc tc'] calc_end_cong [of tc tc'] by (auto simp: candidate_of_def split: if_splits)

lemma first_candidate_endD:
  assumes "first_candidate_end tc b el = Some (e, el', tc')"
  shows "same_calc tc tc' \<and> set el' \<subseteq> set el \<and> candidate_of tc el (mk_interval b e)"
proof (cases "specified_end (tc_attrs tc)")
  case False
  with assms calc_end_same(2) [of tc b] show ?thesis
    by (auto simp: first_candidate_end_def candidate_of_def split: prod.splits)
next
  case True
  show ?thesis
  proof (cases "lower_bound el b")
    case None
    with True assms calc_end_same(1) [of tc b unresolved] show ?thesis
      by (auto simp: first_candidate_end_def candidate_of_def split: prod.splits if_splits)
  next
    case (Some x)
    then have "x \<in> set el" "b \<le> x" by (auto dest: lower_bound_Some)
    moreover have "e = fst (calc_end2 tc b x)" "el' = remove1 x el" "tc' = snd (calc_end2 tc b x)"
      using True assms Some by (auto simp: first_candidate_end_def split: prod.splits)
    ultimately show ?thesis
      using True calc_end_same(1) [of tc b x] set_remove1_subset [of x el] by (auto simp: candidate_of_def)
  qed
qed

definition first_result_ok ::
    "stime list \<Rightarrow> stime \<Rightarrow> stime list \<Rightarrow> time_calc \<Rightarrow> smil_interval \<Rightarrow> bool" where
  "first_result_ok begin_list begin_before el tc i \<longleftrightarrow>
     (if i = interval_unresolved
      then specified_end (tc_attrs tc) \<or> (\<forall>b\<in>set begin_list. 0 \<le> b \<longrightarrow> begin_before < b)
      else ibegin i \<in> set begin_list \<and> ibegin i \<le> begin_before
        \<and> first_acceptable (ibegin i) (iend i) \<and> candidate_of tc el i
        \<and> (\<forall>b\<in>set begin_list. 0 \<le> b \<longrightarrow> ibegin i \<le> b))"

lemma first_interval_step:
  assumes "sorted bl" "ba \<le> 0" "bb < unresolved"
    and "lower_bound bl ba = Some b" "\<not> bb < b" "first_candidate_end tc b el = Some (e, el', tc')"
  shows "first_acceptable b e \<Longrightarrow> first_result_ok bl bb el tc (mk_interval b e)"
    and "first_result_ok bl bb el' tc' i \<Longrightarrow> first_result_ok bl bb el tc i"
proof -
  note c = first_candidate_endD [OF assms(6)]
  have b: "b \<in> set bl" "ba \<le> b" using lower_bound_Some [OF assms(4)] by simp_all
  have least: "b \<le> x" if "x \<in> set bl" "0 \<le> x" for x
    using lower_bound_least [OF assms(1,4) that(1)] that(2) assms(2) by simp
  have "mk_interval b e \<noteq> interval_unresolved"
    using assms(3,5) by (auto simp: mk_interval_def interval_unresolved_def)
  with b least c assms(5) show "first_result_ok bl bb el tc (mk_interval b e)" if "first_acceptable b e"
    using that by (simp add: first_result_ok_def)
  show "first_result_ok bl bb el tc i" if "first_result_ok bl bb el' tc' i"
    using that c same_calc_fields [of tc tc'] candidate_of_mono [of tc tc' el' el i]
    by (auto simp: first_result_ok_def split: if_splits)
qed

lemma first_interval_none_left:
  "specified_end (tc_attrs tc) \<or> lower_bound bl ba = None \<and> ba \<le> 0
     \<or> lower_bound bl ba = Some b \<and> bb < b \<and> ba \<le> 0 \<and> sorted bl
   \<Longrightarrow> first_result_ok bl bb el tc interval_unresolved"
  using lower_bound_least [of bl ba b] by (fastforce simp: first_result_ok_def lower_bound_None)

lemma first_candidate_end_None: "first_candidate_end tc b el = None \<Longrightarrow> specified_end (tc_attrs tc)"
  by (auto simp: first_candidate_end_def split: prod.splits if_splits)

lemma first_interval_loop_ok:
  "first_interval_loop bl bb ba el tc = Some r \<Longrightarrow>
   sorted bl \<longrightarrow> ba \<le> 0 \<longrightarrow> bb < unresolved \<longrightarrow> first_result_ok bl bb el tc (fst r)"
proof (rule first_interval_loop.raw_induct
    [where P = "\<lambda>bl bb ba el tc r. sorted bl \<longrightarrow> ba \<le> 0 \<longrightarrow> bb < unresolved \<longrightarrow> first_result_ok bl bb el tc (fst r)"],
    intro impI)
  fix f bl bb ba el tc and r :: "smil_interval \<times> stime list \<times> time_calc"
  assume IH: "\<And>bl bb ba el tc r. f bl bb ba el tc = Some r \<Longrightarrow>
      sorted bl \<longrightarrow> ba \<le> 0 \<longrightarrow> bb < unresolved \<longrightarrow> first_result_ok bl bb el tc (fst r)"
    and eq: "(case lower_bound bl ba of
        None \<Rightarrow> Some (interval_unresolved, el, tc)
      | Some b \<Rightarrow>
          if bb < b then Some (interval_unresolved, el, tc)
          else (case first_candidate_end tc b el of
                  None \<Rightarrow> Some (interval_unresolved, el, tc)
                | Some (e, el, tc) \<Rightarrow>
                    if first_acceptable b e then Some (mk_interval b e, el, tc)
                    else f bl bb e el tc)) = Some r"
    and s: "sorted bl" "ba \<le> 0" "bb < unresolved"
  show "first_result_ok bl bb el tc (fst r)"
  proof (cases "lower_bound bl ba")
    case None
    with eq s(2) show ?thesis using first_interval_none_left [of tc bl ba 0 bb el] by auto
  next
    case (Some b)
    show ?thesis
    proof (cases "bb < b \<or> first_candidate_end tc b el = None")
      case True
      then have "fst r = interval_unresolved" using eq Some by (auto split: if_splits)
      with True Some s show ?thesis
        using first_interval_none_left [of tc bl ba b bb el] first_candidate_end_None by auto
    next
      case False
      then obtain e el' tc' where c: "first_candidate_end tc b el = Some (e, el', tc')" by auto
      note step = first_interval_step [OF s Some _ c]
      show ?thesis
      proof (cases "first_acceptable b e")
        case True
        with eq Some False c have "fst r = mk_interval b e" by auto
        then show ?thesis using step(1) True False by simp
      next
        case rej: False
        with eq Some False c have "f bl bb e el' tc' = Some r" by simp
        from IH [OF this] have "first_result_ok bl bb el' tc' (fst r)"
          using s rej by (simp add: first_acceptable_def)
        then show ?thesis using step(2) False by simp
      qed
    qed
  qed
qed



definition candidates_progress :: "time_calc \<Rightarrow> stime list \<Rightarrow> stime list \<Rightarrow> bool" where
  "candidates_progress tc bl el \<longleftrightarrow>
     (\<forall>b\<in>set bl.
        (if specified_end (tc_attrs tc)
         then min b 0 < fst (calc_end2 tc b unresolved) \<and> (\<forall>e\<in>set el. b \<le> e \<longrightarrow> min b 1 \<le> fst (calc_end2 tc b e))
         else min b 0 < fst (calc_end1 tc b)))"

lemma candidates_progress_cong:
  "same_calc tc tc' \<Longrightarrow> set el' \<subseteq> set el \<Longrightarrow> candidates_progress tc bl el \<Longrightarrow> candidates_progress tc' bl el'"
  using same_calc_fields [of tc tc'] calc_end_cong [of tc tc'] by (auto simp: candidates_progress_def)

lemma first_candidate_progress:
  assumes "candidates_progress tc bl el" "b \<in> set bl" "e \<le> 0" "first_candidate_end tc b el = Some (e, el', tc')"
  shows "b < e \<and> el' = el \<or> b \<le> e \<and> length el' < length el"
proof (cases "specified_end (tc_attrs tc)")
  case False
  with assms show ?thesis
    by (auto simp: first_candidate_end_def candidates_progress_def min_def split: prod.splits if_splits)
next
  case True
  show ?thesis
  proof (cases "lower_bound el b")
    case None
    with True assms show ?thesis
      by (auto simp: first_candidate_end_def candidates_progress_def min_def split: prod.splits if_splits)
  next
    case (Some x)
    then have x: "x \<in> set el" "b \<le> x" by (auto dest: lower_bound_Some)
    moreover have "e = fst (calc_end2 tc b x)" "el' = remove1 x el"
      using True assms Some by (auto simp: first_candidate_end_def split: prod.splits)
    moreover have "min b 1 \<le> fst (calc_end2 tc b x)"
      using True assms(1,2) x by (auto simp: candidates_progress_def)
    ultimately show ?thesis
      using assms(3) length_pos_if_in_set [OF x(1)] by (auto simp: length_remove1 min_def split: if_splits)
  qed
qed

lemma card_from_less:
  assumes "b \<in> set bl" "ba \<le> b" "b < (e::int)"
  shows "card {x \<in> set bl. e \<le> x} < card {x \<in> set bl. ba \<le> x}"
proof (rule psubset_card_mono)
  have "b \<in> {x \<in> set bl. ba \<le> x}" "b \<notin> {x \<in> set bl. e \<le> x}" using assms by auto
  moreover have "{x \<in> set bl. e \<le> x} \<subseteq> {x \<in> set bl. ba \<le> x}" using assms by auto
  ultimately show "{x \<in> set bl. e \<le> x} \<subset> {x \<in> set bl. ba \<le> x}" by blast
qed simp

lemma card_from_le: "ba \<le> e \<Longrightarrow> card {x \<in> set bl. e \<le> x} \<le> card {x \<in> set bl. ba \<le> (x::int)}"
  by (rule card_mono) auto

lemma first_interval_loop_returns:
  "candidates_progress tc bl el \<Longrightarrow> \<exists>r. first_interval_loop bl bb ba el tc = Some r"
proof (induction "(card {b \<in> set bl. ba \<le> b}, length el)" arbitrary: ba el tc
    rule: wf_induct_rule [OF wf_lex_prod [OF wf_less_than wf_less_than]])
  case 1
  show ?case
  proof (cases "lower_bound bl ba")
    case None
    then show ?thesis by (subst first_interval_loop.simps) simp
  next
    case (Some b)
    then have b: "b \<in> set bl" "ba \<le> b" by (auto dest: lower_bound_Some)
    show ?thesis
    proof (cases "bb < b \<or> first_candidate_end tc b el = None")
      case True
      with Some show ?thesis by (subst first_interval_loop.simps) auto
    next
      case False
      then obtain e el' tc' where c: "first_candidate_end tc b el = Some (e, el', tc')" by auto
      have rec: "first_interval_loop bl bb ba el tc = (if first_acceptable b e
          then Some (mk_interval b e, el', tc') else first_interval_loop bl bb e el' tc')"
        using Some False c by (subst first_interval_loop.simps) simp
      show ?thesis
      proof (cases "first_acceptable b e")
        case True
        with rec show ?thesis by simp
      next
        case rej: False
        then have "e \<le> 0" by (simp add: first_acceptable_def)
        from first_candidate_progress [OF 1(2) b(1) this c]
        have "((card {b \<in> set bl. e \<le> b}, length el'), card {b \<in> set bl. ba \<le> b}, length el)
            \<in> less_than <*lex*> less_than"
          using card_from_less [OF b, of e] card_from_le [of ba e bl] b(2) by auto
        moreover have "candidates_progress tc' bl el'"
          using first_candidate_endD [OF c] 1(2) by (auto elim: candidates_progress_cong)
        ultimately have "\<exists>r. first_interval_loop bl bb e el' tc' = Some r" by (rule 1(1))
        then show ?thesis by (simp add: rec rej)
      qed
    qed
  qed
qed



lemma first_interval_stuck:
  "first_interval_loop bl bb ba el tc = Some r \<Longrightarrow>
   \<not> (lower_bound bl ba = Some b \<and> lower_bound bl b = Some b \<and> b \<le> bb \<and> b < 0
     \<and> \<not> specified_end (tc_attrs tc) \<and> fst (calc_end1 tc b) = b)"
proof (rule first_interval_loop.raw_induct
    [where P = "\<lambda>bl bb ba el tc r. \<not> (lower_bound bl ba = Some b \<and> lower_bound bl b = Some b \<and> b \<le> bb \<and> b < 0
       \<and> \<not> specified_end (tc_attrs tc) \<and> fst (calc_end1 tc b) = b)"])
  fix f bl bb ba el tc and r :: "smil_interval \<times> stime list \<times> time_calc"
  assume IH: "\<And>bl bb ba el tc r. f bl bb ba el tc = Some r \<Longrightarrow>
      \<not> (lower_bound bl ba = Some b \<and> lower_bound bl b = Some b \<and> b \<le> bb \<and> b < 0
       \<and> \<not> specified_end (tc_attrs tc) \<and> fst (calc_end1 tc b) = b)"
    and eq: "(case lower_bound bl ba of
        None \<Rightarrow> Some (interval_unresolved, el, tc)
      | Some b \<Rightarrow>
          if bb < b then Some (interval_unresolved, el, tc)
          else (case first_candidate_end tc b el of
                  None \<Rightarrow> Some (interval_unresolved, el, tc)
                | Some (e, el, tc) \<Rightarrow>
                    if first_acceptable b e then Some (mk_interval b e, el, tc)
                    else f bl bb e el tc)) = Some r"
  show "\<not> (lower_bound bl ba = Some b \<and> lower_bound bl b = Some b \<and> b \<le> bb \<and> b < 0
       \<and> \<not> specified_end (tc_attrs tc) \<and> fst (calc_end1 tc b) = b)"
  proof
    assume s: "lower_bound bl ba = Some b \<and> lower_bound bl b = Some b \<and> b \<le> bb \<and> b < 0
       \<and> \<not> specified_end (tc_attrs tc) \<and> fst (calc_end1 tc b) = b"
    then have "first_candidate_end tc b el = Some (b, el, snd (calc_end1 tc b))"
      by (auto simp: first_candidate_end_def split: prod.split)
    with eq s have "f bl bb b el (snd (calc_end1 tc b)) = Some r"
      by (simp add: first_acceptable_def)
    from IH [OF this] s show False
      using calc_end_same(2) [of tc b] same_calc_fields calc_end_cong(2) by auto
  qed
qed

lemma first_interval_hangs:
  assumes "sorted begin_list" "begin_list \<noteq> []" "minus_infinity \<le> hd begin_list"
    and "hd begin_list < 0" "hd begin_list \<le> begin_before"
    and "\<not> specified_end (tc_attrs tc)" "fst (calc_ad1 tc (hd begin_list)) = 0"
  shows "calc_first_interval tc begin_list end_list begin_before = None"
proof (rule ccontr)
  obtain b bs where l: "begin_list = b # bs" using assms(2) by (cases begin_list) auto
  have d: "is_definite b" "is_long b" "is_definite 0" using assms(3,4) l by (auto simp: time_kinds time_consts)
  then have "time_add b 0 = b" by (simp add: time_add_definite)
  then have e: "fst (calc_end1 tc b) = b" using assms(7) l by (simp add: calc_end_alt)
  assume "calc_first_interval tc begin_list end_list begin_before \<noteq> None"
  then obtain r where "first_interval_loop begin_list begin_before minus_infinity end_list tc = Some r"
    using assms(2) by (auto simp: calc_first_interval_def)
  from first_interval_stuck [OF this, of b] show False
    using assms l e by (auto simp: lower_bound_def)
qed

text \<open>
  An element without an end attribute whose first begin instance is before the parent begin
  and whose active duration there is 0 makes the search loop for ever.
\<close>

theorem first_interval_diverges:
  assumes "sorted begin_list" "begin_list \<noteq> []" "minus_infinity \<le> hd begin_list"
    and "hd begin_list < 0" "hd begin_list \<le> begin_before"
    and "\<not> specified_end (tc_attrs tc)" "fst (calc_ad1 tc (hd begin_list)) = 0"
  shows "calc_first_interval tc begin_list end_list begin_before = None"
  using assms by (rule first_interval_hangs)

theorem first_interval_diverges_witness:
  "calc_first_interval (plain_calc (plain_attrs\<lparr>m_dur := 0\<rparr>)) [-1000] [] 9000 = None"
proof (rule first_interval_diverges)
  show "\<not> specified_end (tc_attrs (plain_calc (plain_attrs\<lparr>m_dur := 0\<rparr>)))" by code_simp
  show "fst (calc_ad1 (plain_calc (plain_attrs\<lparr>m_dur := 0\<rparr>)) (hd [-1000])) = 0" by code_simp
qed (simp_all add: time_consts)

section \<open>The next interval\<close>

lemma set_dropWhile_less: "sorted xs \<Longrightarrow> set (dropWhile (\<lambda>e. e < b) xs) = {e \<in> set xs. (b::int) \<le> e}"
  by (induction xs) auto

lemma set_dropWhile_eq:
  "sorted xs \<Longrightarrow> \<forall>e\<in>set xs. (a::int) \<le> e \<Longrightarrow> set (dropWhile (\<lambda>e. e = a) xs) = {e \<in> set xs. e \<noteq> a}"
  by (induction xs) (auto simp: order.antisym)

lemma Min_hd_sorted: "sorted (x # xs) \<Longrightarrow> Min (set (x # xs)) = (x::int)"
  by (intro Min_eqI) auto

text \<open>The begin instances the next interval may have, and the end instances for the begin \<open>b\<close>.\<close>

definition next_begins :: "stime list \<Rightarrow> stime \<Rightarrow> stime \<Rightarrow> bool \<Rightarrow> stime set" where
  "next_begins bl before after zero = {b \<in> set bl. (if zero then after < b else after \<le> b) \<and> b < before}"

definition next_ends :: "stime list \<Rightarrow> stime \<Rightarrow> stime \<Rightarrow> stime set" where
  "next_ends el b after = {e \<in> set el. b \<le> e \<and> e \<noteq> after}"

lemma next_begin_least:
  assumes "sorted bl"
  shows "(case (if \<not> zero then lower_bound bl after else upper_bound bl after) of
      None \<Rightarrow> next_begins bl before after zero = {}
    | Some b \<Rightarrow> if before \<le> b then next_begins bl before after zero = {}
        else next_begins bl before after zero \<noteq> {} \<and> Min (next_begins bl before after zero) = b \<and> after \<le> b)"
proof (cases "if \<not> zero then lower_bound bl after else upper_bound bl after")
  case None
  then show ?thesis
    by (auto simp: next_begins_def lower_bound_None upper_bound_def find_None_iff split: if_splits)
next
  case (Some b)
  then have b: "b \<in> set bl" "if zero then after < b else after \<le> b"
    by (auto dest: lower_bound_Some upper_bound_Some split: if_splits)
  have least: "b \<le> x" if "x \<in> set bl" "if zero then after < x else after \<le> x" for x
    using Some that lower_bound_least [OF assms] upper_bound_least [OF assms] by (auto split: if_splits)
  show ?thesis
  proof (cases "before \<le> b")
    case True
    with least have "next_begins bl before after zero = {}" by (fastforce simp: next_begins_def)
    with Some True show ?thesis by simp
  next
    case False
    with b have "b \<in> next_begins bl before after zero" by (simp add: next_begins_def)
    moreover have "\<And>x. x \<in> next_begins bl before after zero \<Longrightarrow> b \<le> x" using least by (auto simp: next_begins_def)
    moreover have "finite (next_begins bl before after zero)" by (simp add: next_begins_def)
    ultimately have "Min (next_begins bl before after zero) = b" "next_begins bl before after zero \<noteq> {}"
      by (auto intro: Min_eqI)
    with Some False b(2) show ?thesis by (auto split: if_splits)
  qed
qed

lemma next_end_instance_least:
  assumes "sorted el" "after \<le> b"
  shows "next_end_instance tc el b after =
     (if next_ends el b after \<noteq> {} then Some (Some (Min (next_ends el b after)))
      else if \<exists>e\<in>set el. b \<le> e then None
      else Some (if end_has_event_conditions (tc_attrs tc) \<or> el = [] then Some unresolved else None))"
proof -
  let ?es = "dropWhile (\<lambda>e. e < b) el"
  let ?fs = "dropWhile (\<lambda>e. e = after) ?es"
  have es: "set ?es = {e \<in> set el. b \<le> e}" "sorted ?es"
    using assms(1) by (simp_all add: set_dropWhile_less sorted_dropWhile)
  then have fs: "set ?fs = next_ends el b after" "sorted ?fs"
    using set_dropWhile_eq [of ?es after] assms(2) by (auto simp: next_ends_def sorted_dropWhile)
  show ?thesis
  proof (cases "?es = []")
    case True
    then have "next_ends el b after = {}" "\<not> (\<exists>e\<in>set el. b \<le> e)"
      by (auto simp: next_ends_def)
    with True show ?thesis by (simp add: next_end_instance_def del: dropWhile_eq_Nil_conv)
  next
    case False
    then have "\<exists>e\<in>set el. b \<le> e" using es(1) by (metis (mono_tags, lifting) empty_Collect_eq set_empty)
    moreover have "next_end_instance tc el b after = (case ?fs of [] \<Rightarrow> None | e # _ \<Rightarrow> Some (Some e))"
      using False unfolding next_end_instance_def by (cases ?es) (simp_all del: dropWhile_eq_Nil_conv dropWhile.simps)
    moreover have "Min (next_ends el b after) = e" if "?fs = e # r" for e r
      using Min_hd_sorted [of e r] fs that by simp
    ultimately show ?thesis using fs(1) by (cases ?fs) auto
  qed
qed

text \<open>
  C7: the next interval, for every sorted begin list and end list. It begins at the earliest begin
  instance from the end of the previous one on (strictly after it when the previous one was empty)
  that is before \<open>begin_before\<close>; there is no such interval when there is no such instance. Without
  an end attribute it ends where the active duration computed for that begin says. With one, the
  earliest end instance not before the begin and different from the end of the previous interval
  is the end constraint. If there is none, the constraint is unresolved when the end has event
  conditions or there are no end instances at all; otherwise there is no next interval. When all
  the instances not before the begin equal the end of the previous interval, the code reads the
  end of the list.
\<close>

theorem next_interval_sound:
  assumes "sorted begin_list" "sorted end_list"
  shows "calc_next_interval tc begin_list end_list begin_before begin_after zero =
    (let bs = next_begins begin_list begin_before begin_after zero; b = Min bs; es = next_ends end_list b begin_after;
       ends_by = (\<lambda>(e, tc'). Some (mk_interval b e, tc'))
     in if bs = {} then Some (interval_unresolved, tc)
        else if \<not> specified_end (tc_attrs tc) then ends_by (calc_end1 tc b)
        else if es \<noteq> {} then ends_by (calc_end2 tc b (Min es))
        else if \<exists>e\<in>set end_list. b \<le> e then None
        else if end_has_event_conditions (tc_attrs tc) \<or> end_list = [] then ends_by (calc_end2 tc b unresolved)
        else Some (interval_unresolved, tc))"
proof (cases "if \<not> zero then lower_bound begin_list begin_after else upper_bound begin_list begin_after")
  case None
  with next_begin_least [OF assms(1), where zero = zero and after = begin_after and before = begin_before] show ?thesis
    by (simp add: calc_next_interval_def)
next
  case (Some b)
  then have ne: "begin_list \<noteq> []" by (auto simp: lower_bound_def upper_bound_def split: if_splits)
  from Some next_begin_least [OF assms(1), where zero = zero and after = begin_after and before = begin_before]
  have b: "if begin_before \<le> b then next_begins begin_list begin_before begin_after zero = {}
      else next_begins begin_list begin_before begin_after zero \<noteq> {}
        \<and> Min (next_begins begin_list begin_before begin_after zero) = b \<and> begin_after \<le> b" by simp
  show ?thesis
  proof (cases "begin_before \<le> b")
    case True
    with Some b ne show ?thesis by (simp add: calc_next_interval_def)
  next
    case False
    with Some b ne next_end_instance_least [OF assms(2), of begin_after b tc] show ?thesis
      by (simp add: calc_next_interval_def Let_def split: prod.split)
  qed
qed

theorem next_interval_sound_witness:
  "calc_next_interval (plain_calc plain_attrs) [0, 2000, 6000] [] 9000 5000 False
     = Some (mk_interval 6000 11000, (plain_calc plain_attrs)\<lparr>tc_uses_dur := True\<rparr>)
   \<and> calc_next_interval (plain_calc plain_attrs) [0, 5000, 6000] [] 9000 5000 False
     = Some (mk_interval 5000 10000, (plain_calc plain_attrs)\<lparr>tc_uses_dur := True\<rparr>)"
proof -
  have "next_begins [0, 2000, 6000] 9000 5000 False = {6000}" "next_begins [0, 5000, 6000] 9000 5000 False = {5000, 6000}"
    by (auto simp: next_begins_def)
  moreover have "\<not> specified_end (tc_attrs (plain_calc plain_attrs))" by code_simp
  moreover have "calc_end1 (plain_calc plain_attrs) 6000 = (11000, (plain_calc plain_attrs)\<lparr>tc_uses_dur := True\<rparr>)"
    "calc_end1 (plain_calc plain_attrs) 5000 = (10000, (plain_calc plain_attrs)\<lparr>tc_uses_dur := True\<rparr>)" by code_simp+
  ultimately show ?thesis by (simp add: next_interval_sound)
qed

text \<open>
  The loop that skips end instances equal to the end of the previous interval tests the
  iterator after reading through it: when all the end instances that are left are equal to it,
  the end of the list is read.
\<close>

theorem next_interval_reads_end:
  assumes "specified_end (tc_attrs tc)" "begin_after \<in> set begin_list" "sorted begin_list"
    and "begin_after < begin_before" "n \<noteq> 0"
  shows "calc_next_interval tc begin_list (replicate n begin_after) begin_before begin_after False = None"
proof -
  have "lower_bound begin_list begin_after \<noteq> None" using assms(2) by (auto simp: lower_bound_None)
  then obtain b where b: "lower_bound begin_list begin_after = Some b" by auto
  then have "b = begin_after"
    using lower_bound_Some [OF b] lower_bound_least [OF assms(3) b assms(2)] by simp
  moreover have "next_end_instance tc (replicate n begin_after) begin_after begin_after = None"
    using assms(5) by (cases n) (simp_all add: next_end_instance_def)
  moreover have "begin_list \<noteq> []" using assms(2) by auto
  ultimately show ?thesis using assms(1,4) b by (simp add: calc_next_interval_def)
qed

theorem next_interval_reads_end_witness:
  "calc_next_interval (plain_calc (plain_attrs\<lparr>m_spflags := SP_END\<rparr>)) [0, 5] (replicate 1 5) 9 5 False = None"
proof (rule next_interval_reads_end)
  show "specified_end (tc_attrs (plain_calc (plain_attrs\<lparr>m_spflags := SP_END\<rparr>)))" by code_simp
qed simp_all

text \<open>
  \<open>min="media"\<close> is stored as an unresolved value that the active duration takes as a lower
  bound, so that every duration and end constraint of the element is lost: the active duration is
  the one of \<open>max\<close>, or indefinite.
\<close>

theorem media_min_drops_constraints:
  assumes "n ''min'' = Some p" "trim_cstr p = ''media''"
    and "tc_attrs tc = mk_time_attrs fp tr n up raw" "is_long (maxval (tc_attrs tc))"
  shows "fst (calc_ad2 tc b e) = maxval (tc_attrs tc) \<and> fst (calc_ad1 tc b) = maxval (tc_attrs tc)"
proof -
  have "minval (tc_attrs tc) = unresolved"
    using m_min_media [of n p fp tr up raw] assms by (simp add: minval_def)
  moreover have "maxval (tc_attrs tc) \<le> unresolved" using assms(4) by (rule time_le_unresolved)
  ultimately show ?thesis by (simp add: calc_ad2_alt calc_ad1_alt)
qed

theorem media_min_drops_constraints_witness:
  "fst (calc_ad1 (plain_calc (mk_time_attrs zero_lib (\<lambda>_. None) [''min'' \<mapsto> ''media'', ''dur'' \<mapsto> ''5s''] [] plain_attrs)) 0)
     = indefinite"
proof -
  let ?tc = "plain_calc (mk_time_attrs zero_lib (\<lambda>_. None) [''min'' \<mapsto> ''media'', ''dur'' \<mapsto> ''5s''] [] plain_attrs)"
  have "trim_cstr ''media'' = ''media''" by code_simp
  moreover have "maxval (tc_attrs ?tc) = indefinite"
    by (simp add: maxval_def plain_calc_def flags_max)
  ultimately show ?thesis
    using media_min_drops_constraints [of "[''min'' \<mapsto> ''media'', ''dur'' \<mapsto> ''5s'']" "''media''" ?tc
        "zero_lib" "\<lambda>_. None" "[]" plain_attrs 0 0] by (simp add: plain_calc_def)
qed

end
