(* ===== verification/Time_Graph.thy ===== *)
theory Time_Graph
  imports Tree_Nav Time_Calc
begin

text \<open>
  The time graph: the nodes (class \<open>time_node\<close>, smil2/time_node.h), the sync rules
  (smil2/sync_rule.h) and the conversions of times between the time lines of nodes
  (\<open>q_smil_time\<close>, smil2/smil_time.cpp). The graph extends the \<open>links\<close> of the node tree with the
  fields of the nodes and of the rules, both named by numbers. What the program does to the
  outside (playables, timers, the player) is the list \<open>tg_log\<close>, latest first, in which a failed
  assertion is recorded too, for the program goes on after it in a build without assertions.
\<close>

section \<open>Nodes and rules\<close>

datatype time_state_type = ts_reset | ts_proactive | ts_active | ts_postactive | ts_dead

datatype time_container_type = tc_seq | tc_par | tc_excl | tc_none

datatype sync_event = tn_begin | tn_repeat | tn_end | tn_begin_event | tn_repeat_event | tn_end_event
  | tn_activate_event | tn_focusin_event | tn_focusout_event | tn_inbounds_event | tn_outofbounds_event
  | accesskey_event | tn_marker_event | state_change_event | tev_event | tn_dom_call | tn_unknown_event

datatype rule_type = rt_begin | rt_end | rt_transout

text \<open>A time and the node on whose time line it is.\<close>

type_synonym qtime = "nat \<times> stime"

text \<open>
  The fields that never change after the construction of the graph come first. The schema
  answers whether the element is an animation, a state command or a prefetch.
\<close>

record time_node =
  n_type :: time_container_type
  n_attrs :: time_attrs
  n_id :: string
  n_tag :: string
  n_dom :: attr_map
  n_animation :: bool
  n_statecommand :: bool
  n_prefetch :: bool
  n_has_timer :: bool
  n_want_activate :: bool
  n_priority :: nat
  n_prio_attrs :: "priority_attrs list"
  n_begin_list :: "nat list"
  n_end_list :: "nat list"
  n_transout :: "nat option"
  n_domcall :: "nat option"
  n_dependents :: "sync_event \<Rightarrow> nat list"
  n_state :: time_state_type
  n_interval :: smil_interval
  n_history :: "smil_interval list"
  n_doc_history :: "smil_interval list"
  n_active :: bool
  n_needs_remove :: bool
  n_rad :: stime
  n_precounter :: int
  n_eom :: bool
  n_paused :: bool
  n_pad :: stime
  n_paused_sync_time :: stime
  n_deferred :: bool
  n_ffwd :: bool
  n_hyperjump :: bool
  n_update :: "bool \<times> qtime"
  n_begin_inst :: stime
  n_impldur :: stime
  n_last_cdur :: stime
  n_saw_bom :: bool
  n_saw_eom :: bool
  n_calc_paused :: bool
  n_uses_dur :: bool
  n_queue :: "nat list"

text \<open>The constructor: structure first, the state as before the document starts.\<close>

definition mk_time_node :: "time_container_type \<Rightarrow> time_attrs \<Rightarrow> string \<Rightarrow> string \<Rightarrow> attr_map \<Rightarrow> time_node" where
  "mk_time_node ty attrs ident tag elem =
     \<lparr>n_type = ty, n_attrs = attrs, n_id = ident, n_tag = tag, n_dom = elem, n_animation = False,
      n_statecommand = False, n_prefetch = False, n_has_timer = False, n_want_activate = False,
      n_priority = 0, n_prio_attrs = [], n_begin_list = [], n_end_list = [], n_transout = None,
      n_domcall = None, n_dependents = (\<lambda>_. []), n_state = ts_reset, n_interval = interval_unresolved,
      n_history = [], n_doc_history = [], n_active = False, n_needs_remove = False, n_rad = 0,
      n_precounter = 0, n_eom = False, n_paused = False, n_pad = 0, n_paused_sync_time = 0,
      n_deferred = False, n_ffwd = False, n_hyperjump = False, n_update = (False, (0, 0)),
      n_begin_inst = unresolved, n_impldur = unresolved, n_last_cdur = unresolved, n_saw_bom = False,
      n_saw_eom = False, n_calc_paused = False, n_uses_dur = False, n_queue = []\<rparr>"

datatype rule_kind = model_rule | event_rule | offset_rule | transout_rule | trigger_rule

datatype event_data = Int_data int | Str_data string

record sync_rule =
  r_kind :: rule_kind
  r_target :: nat
  r_target_attr :: rule_type
  r_syncbase :: nat
  r_event :: sync_event
  r_refnode :: "nat option"
  r_offset :: stime
  r_selector :: int
  r_str_selector :: string
  r_locked :: bool
  r_instances :: "stime list"

datatype src_playstate = src_play | src_pause | src_replace

datatype dst_playstate = dst_play | dst_pause | dst_external

datatype command = Create_playable nat | Start_playable nat stime bool | Stop_playable nat
  | Pause_playable nat pause_display | Resume_playable nat | Seek_playable nat stime | Preroll nat stime
  | Start_transition nat | Start_animation nat | Stop_animation nat
  | Set_value nat string string | New_value nat "string option" "string option" string string
  | Del_value nat string | Send nat string
  | Show_link nat src_playstate dst_playstate
  | Timer_set nat stime | Timer_speed nat rat | Timer_resume nat | Timer_pause nat | Timer_stop nat
  | Clock_set int | Clock_pause | Clock_resume
  | Node_started nat | Node_filled nat | Node_stopped nat | Started_playback | Done_playback
  | Assertion_failed nat

record tgraph = links +
  tg_node :: "nat \<Rightarrow> time_node"
  tg_rule :: "nat \<Rightarrow> sync_rule"
  tg_log :: "command list"
  tg_next_rule :: nat

definition upd :: "nat \<Rightarrow> (time_node \<Rightarrow> time_node) \<Rightarrow> tgraph \<Rightarrow> tgraph" where
  "upd n f g = g\<lparr>tg_node := (tg_node g)(n := f (tg_node g n))\<rparr>"

definition upd_rule :: "nat \<Rightarrow> (sync_rule \<Rightarrow> sync_rule) \<Rightarrow> tgraph \<Rightarrow> tgraph" where
  "upd_rule r f g = g\<lparr>tg_rule := (tg_rule g)(r := f (tg_rule g r))\<rparr>"

definition emit :: "command \<Rightarrow> tgraph \<Rightarrow> tgraph" where
  "emit c g = g\<lparr>tg_log := c # tg_log g\<rparr>"

definition expect :: "nat \<Rightarrow> bool \<Rightarrow> tgraph \<Rightarrow> tgraph" where
  "expect n b g = (if b then g else emit (Assertion_failed n) g)"

definition sync_node :: "tgraph \<Rightarrow> nat \<Rightarrow> nat" where
  "sync_node g n = (case ln_up g n of Some p \<Rightarrow> p | None \<Rightarrow> n)"

definition is_root :: "tgraph \<Rightarrow> nat \<Rightarrow> bool" where
  "is_root g n \<longleftrightarrow> ln_up g n = None"

definition is_seq :: "time_node \<Rightarrow> bool" where
  "is_seq x \<longleftrightarrow> n_type x = tc_seq"

definition is_par :: "time_node \<Rightarrow> bool" where
  "is_par x \<longleftrightarrow> n_type x = tc_par"

definition is_excl :: "time_node \<Rightarrow> bool" where
  "is_excl x \<longleftrightarrow> n_type x = tc_excl"

definition is_time_container :: "time_node \<Rightarrow> bool" where
  "is_time_container x \<longleftrightarrow> n_type x \<noteq> tc_none"

definition is_playable :: "time_node \<Rightarrow> bool" where
  "is_playable x \<longleftrightarrow> \<not> is_time_container x \<and> \<not> n_animation x \<and> \<not> n_statecommand x \<and> \<not> n_prefetch x"

text \<open>\<open>is_discrete\<close> is the constant false.\<close>

definition is_cmedia :: "time_node \<Rightarrow> bool" where
  "is_cmedia x \<longleftrightarrow> \<not> is_time_container x"

definition is_link :: "time_node \<Rightarrow> bool" where
  "is_link x \<longleftrightarrow> n_tag x = ''area'' \<or> n_tag x = ''a''"

definition is_alive :: "time_node \<Rightarrow> bool" where
  "is_alive x \<longleftrightarrow> n_state x \<in> {ts_proactive, ts_active, ts_postactive}"

definition is_activateable :: "time_node \<Rightarrow> bool" where
  "is_activateable x \<longleftrightarrow> n_state x \<in> {ts_proactive, ts_postactive}"

definition is_filled :: "time_node \<Rightarrow> bool" where
  "is_filled x \<longleftrightarrow> \<not> n_active x \<and> n_needs_remove x"

definition played :: "time_node \<Rightarrow> bool" where
  "played x \<longleftrightarrow> n_history x \<noteq> []"

text \<open>The history is kept with the last interval at the end, as the list of the source.\<close>

definition get_first_interval :: "time_node \<Rightarrow> smil_interval" where
  "get_first_interval x = (case n_history x of i # _ \<Rightarrow> i | [] \<Rightarrow> n_interval x)"

definition get_last_interval :: "time_node \<Rightarrow> smil_interval" where
  "get_last_interval x =
     (if is_valid (n_interval x) then n_interval x
      else if n_history x \<noteq> [] then last (n_history x) else n_interval x)"

definition get_interval_end :: "time_node \<Rightarrow> stime" where
  "get_interval_end x =
     (if n_uses_dur x then time_add (iend (n_interval x)) (n_pad x) else iend (n_interval x))"

section \<open>Times on other time lines\<close>

text \<open>One step up; the result tells whether the new node has a parent.\<close>

definition qt_up :: "tgraph \<Rightarrow> qtime \<Rightarrow> bool \<times> qtime" where
  "qt_up g q =
     (case ln_up g (fst q) of
        None \<Rightarrow> (False, q)
      | Some p \<Rightarrow>
          (let x = tg_node g (fst q); t = time_add (snd q) (time_add (n_rad x) (n_pad x));
               t = time_add t (ibegin (get_last_interval x))
           in (ln_up g p \<noteq> None, (p, t))))"

definition qt_down :: "tgraph \<Rightarrow> nat \<Rightarrow> qtime \<Rightarrow> qtime" where
  "qt_down g child q =
     (let x = tg_node g child; t = time_sub (snd q) (ibegin (get_last_interval x))
      in (child, time_sub t (time_add (n_rad x) (n_pad x))))"

partial_function (option) to_ancestor :: "tgraph \<Rightarrow> nat \<Rightarrow> qtime \<Rightarrow> qtime option" where
  "to_ancestor g a q =
     (if fst q \<noteq> a \<and> ln_up g (fst q) \<noteq> None then to_ancestor g a (snd (qt_up g q)) else Some q)"

declare to_ancestor.simps [code]

definition to_descendent :: "tgraph \<Rightarrow> nat \<Rightarrow> qtime \<Rightarrow> qtime option" where
  "to_descendent g d q = do {
     path \<leftarrow> get_path g d;
     Some (case dropWhile (\<lambda>x. x \<noteq> fst q) path of
             [] \<Rightarrow> q
           | _ # rest \<Rightarrow> fold (qt_down g) rest q) }"

definition to_node :: "tgraph \<Rightarrow> nat \<Rightarrow> qtime \<Rightarrow> qtime option" where
  "to_node g n q =
     (if fst q = n then Some q
      else do { ca \<leftarrow> get_common_ancestor g n (fst q); q \<leftarrow> to_ancestor g ca q; to_descendent g n q })"

partial_function (option) to_doc :: "tgraph \<Rightarrow> qtime \<Rightarrow> qtime option" where
  "to_doc g q = (let (more, q) = qt_up g q in if more then to_doc g q else Some q)"

declare to_doc.simps [code]

definition as_node_time :: "tgraph \<Rightarrow> nat \<Rightarrow> qtime \<Rightarrow> stime option" where
  "as_node_time g n q = map_option snd (to_node g n q)"

definition as_doc_time :: "tgraph \<Rightarrow> qtime \<Rightarrow> stime option" where
  "as_doc_time g q = map_option snd (to_doc g q)"

definition as_time_down_to :: "tgraph \<Rightarrow> nat \<Rightarrow> qtime \<Rightarrow> stime option" where
  "as_time_down_to g n q =
     (let x = tg_node g n
      in if Some (fst q) = ln_up g n
         then Some (time_sub (time_sub (time_sub (snd q) (n_rad x)) (n_pad x)) (ibegin (get_last_interval x)))
         else if ln_up g n = None then Some (snd q)
         else map_option snd (to_descendent g n q))"

definition as_qtime_down_to :: "tgraph \<Rightarrow> nat \<Rightarrow> qtime \<Rightarrow> qtime option" where
  "as_qtime_down_to g n q = map_option (Pair n) (as_time_down_to g n q)"

section \<open>Conversions are inverse\<close>

definition offset_of :: "tgraph \<Rightarrow> nat \<Rightarrow> int" where
  "offset_of g n = n_rad (tg_node g n) + n_pad (tg_node g n) + ibegin (get_last_interval (tg_node g n))"

definition weight_of :: "tgraph \<Rightarrow> nat \<Rightarrow> int" where
  "weight_of g n = \<bar>n_rad (tg_node g n)\<bar> + \<bar>n_pad (tg_node g n)\<bar> + \<bar>ibegin (get_last_interval (tg_node g n))\<bar>"

lemma weight_nonneg [simp]: "0 \<le> weight_of g n"
  by (simp add: weight_of_def)

lemma weights_nonneg: "0 \<le> sum_list (map (weight_of g) ys)"
  by (intro sum_list_nonneg) auto

lemma small_definite: "\<bar>x\<bar> < indefinite \<Longrightarrow> is_definite x \<and> is_long x"
  by (auto simp: time_kinds time_consts)

lemma time_add_small: "\<bar>a\<bar> + \<bar>b\<bar> < indefinite \<Longrightarrow> time_add a b = a + b"
  using small_definite [of a] small_definite [of b] small_definite [of "a + b"] by (intro time_add_definite) auto

lemma time_sub_small: "\<bar>a\<bar> + \<bar>b\<bar> < indefinite \<Longrightarrow> time_sub a b = a - b"
  using small_definite [of a] small_definite [of b] small_definite [of "a - b"] by (intro time_sub_definite) auto

lemma qt_up_small:
  assumes "\<bar>t\<bar> + weight_of g n < indefinite" "ln_up g n = Some p"
  shows "snd (qt_up g (n, t)) = (p, t + offset_of g n)"
proof -
  let ?x = "tg_node g n"
  have "time_add (n_rad ?x) (n_pad ?x) = n_rad ?x + n_pad ?x"
    using assms(1) by (intro time_add_small) (simp add: weight_of_def)
  moreover have "time_add t (n_rad ?x + n_pad ?x) = t + (n_rad ?x + n_pad ?x)"
    using assms(1) by (intro time_add_small) (simp add: weight_of_def)
  moreover have "time_add (t + (n_rad ?x + n_pad ?x)) (ibegin (get_last_interval ?x))
      = t + (n_rad ?x + n_pad ?x) + ibegin (get_last_interval ?x)"
    using assms(1) by (intro time_add_small) (simp add: weight_of_def)
  ultimately show ?thesis using assms(2) by (simp add: qt_up_def offset_of_def Let_def)
qed

lemma qt_down_small:
  assumes "\<bar>t\<bar> + weight_of g n < indefinite"
  shows "qt_down g n (p, t) = (n, t - offset_of g n)"
proof -
  let ?x = "tg_node g n"
  have "time_add (n_rad ?x) (n_pad ?x) = n_rad ?x + n_pad ?x"
    using assms by (intro time_add_small) (simp add: weight_of_def)
  moreover have "time_sub t (ibegin (get_last_interval ?x)) = t - ibegin (get_last_interval ?x)"
    using assms by (intro time_sub_small) (simp add: weight_of_def)
  moreover have "time_sub (t - ibegin (get_last_interval ?x)) (n_rad ?x + n_pad ?x)
      = t - ibegin (get_last_interval ?x) - (n_rad ?x + n_pad ?x)"
    using assms by (intro time_sub_small) (simp add: weight_of_def)
  ultimately show ?thesis by (simp add: qt_down_def offset_of_def Let_def)
qed

lemma offset_weight: "\<bar>offset_of g n\<bar> \<le> weight_of g n"
  by (simp add: offset_of_def weight_of_def)

lemma path_step_up: "path_in t p \<Longrightarrow> represents h t \<Longrightarrow> p = xs @ x # y # ys \<Longrightarrow> ln_up h y = Some x"
proof (induction arbitrary: xs rule: path_in.induct)
  case (here n ts)
  then show ?case by simp
next
  case (deeper t ts p n)
  show ?case
  proof (cases xs)
    case Nil
    with deeper(5) path_in_hd [OF deeper(2)] have "x = n" "y = label t" by auto
    moreover have "ln_up h (label t) = Some n"
      using represents_family [OF deeper(4)] deeper(1) by (intro family_up) auto
    ultimately show ?thesis by simp
  next
    case (Cons z zs)
    with deeper(5) have "p = zs @ x # y # ys" by simp
    from deeper(3) [OF represents_sub [OF deeper(4,1)] this] show ?thesis .
  qed
qed

lemma path_distinct: "path_in t p \<Longrightarrow> distinct (nodes t) \<Longrightarrow> distinct p"
proof (induction rule: path_in.induct)
  case (deeper t ts p n)
  then have "distinct (nodes t)" "n \<notin> set (nodes t)"
    using split_list [OF deeper(1)] by auto
  with deeper path_in_nodes [OF deeper(2)] show ?case by auto
qed simp

lemma to_ancestor_small:
  assumes "path_in t p" "represents g t" "distinct p" "p = xs @ a # ys"
    and "\<bar>s\<bar> + sum_list (map (weight_of g) ys) < indefinite"
  shows "to_ancestor g a (last (a # ys), s) = Some (a, s + sum_list (map (offset_of g) ys))"
  using assms(1-5)
proof (induction ys arbitrary: p s rule: rev_induct)
  case Nil
  show ?case by (subst to_ancestor.simps) simp
next
  case (snoc d ys)
  let ?e = "last (a # ys)"
  have up: "ln_up g d = Some ?e"
  proof (cases ys rule: rev_cases)
    case Nil
    with snoc(5) show ?thesis using path_step_up [OF snoc(2,3), of xs a d "[]"] by simp
  next
    case (snoc zs z)
    then show ?thesis
      using path_step_up [OF snoc.prems(1,2), of "xs @ a # zs" z d "[]"] snoc.prems(4) by simp
  qed
  have w: "\<bar>s\<bar> + weight_of g d < indefinite"
    using snoc.prems(5) weights_nonneg [of g ys] by simp
  have "path_in t (xs @ a # ys)"
  proof (cases ys rule: rev_cases)
    case Nil
    with path_prefix [OF snoc.prems(1), of xs a "[d]"] snoc.prems(4) show ?thesis by simp
  next
    case (snoc zs z)
    with path_prefix [OF snoc.prems(1), of "xs @ a # zs" z "[d]"] snoc.prems(4) show ?thesis by simp
  qed
  moreover have "\<bar>s + offset_of g d\<bar> + sum_list (map (weight_of g) ys) < indefinite"
    using snoc.prems(5) offset_weight [of g d] by auto
  ultimately have "to_ancestor g a (?e, s + offset_of g d)
      = Some (a, s + offset_of g d + sum_list (map (offset_of g) ys))"
    using snoc.IH [of "xs @ a # ys"] snoc.prems by simp
  moreover have "d \<noteq> a" using snoc.prems(3,4) by auto
  ultimately show ?case using up qt_up_small [OF w up]
    by (subst to_ancestor.simps) (simp add: add.assoc add.commute)
qed

lemma fold_down_small:
  "\<bar>s\<bar> + sum_list (map (weight_of g) ys) < indefinite \<Longrightarrow>
   fold (qt_down g) ys (a, s) = (last (a # ys), s - sum_list (map (offset_of g) ys))"
proof (induction ys arbitrary: a s)
  case (Cons d ys)
  have "\<bar>s\<bar> + weight_of g d < indefinite"
    using Cons.prems weights_nonneg [of g ys] by simp
  moreover have "\<bar>s - offset_of g d\<bar> + sum_list (map (weight_of g) ys) < indefinite"
    using Cons.prems offset_weight [of g d] by auto
  ultimately show ?case using Cons.IH by (simp add: qt_down_small)
qed simp

lemma dropWhile_path: "a \<notin> set xs \<Longrightarrow> dropWhile (\<lambda>x. x \<noteq> a) (xs @ a # ys) = a # ys"
  by (induction xs) auto


text \<open>A "par" with one child that has been active since 3 s of its parent.\<close>

definition example_graph :: tgraph where
  "example_graph =
     \<lparr>ln_up = [2 \<mapsto> 1], ln_down = [1 \<mapsto> 2], ln_next = Map.empty, ln_live = {1, 2},
      tg_node = (\<lambda>n. if n = 2
         then (mk_time_node tc_none plain_attrs ''m'' ''video'' Map.empty)
           \<lparr>n_state := ts_active, n_active := True, n_interval := mk_interval 3000 8000\<rparr>
         else mk_time_node tc_par plain_attrs ''p'' ''par'' Map.empty),
      tg_rule = (\<lambda>_. \<lparr>r_kind = trigger_rule, r_target = 0, r_target_attr = rt_begin, r_syncbase = 0,
         r_event = tn_begin, r_refnode = None, r_offset = 0, r_selector = 0, r_str_selector = [],
         r_locked = False, r_instances = []\<rparr>), tg_log = [], tg_next_rule = 0\<rparr>"

lemma example_graph_tree: "is_tree example_graph (Node 1 [Node 2 []])"
  by (simp add: is_tree_def represents_def family_def example_graph_def)


end

