(* ===== verification/Sync_Rule.thy ===== *)
theory Sync_Rule
  imports Time_Graph
begin

text \<open>
  Sync rules (smil2/sync_rule.cpp): how the happenings of one node become begin and end instances of
  another, and the construction of the arcs between them. A rule that changes asks its target to
  update itself; as that leads back into the state machines of the nodes, every operation gets the
  interpreter \<open>run\<close> of calls as an argument, which the theory of the nodes closes. \<open>None\<close> is a
  call that does not return or a null dereference.
\<close>

datatype call = Set_state nat time_state_type qtime nat | Sync_update nat qtime
  | Remove nat qtime | Fill nat qtime | Reset nat qtime nat | Set_interval nat qtime smil_interval

type_synonym runner = "call \<Rightarrow> tgraph \<Rightarrow> tgraph option"

section \<open>Construction\<close>

definition eval_refnode :: "nat \<Rightarrow> tgraph \<Rightarrow> tgraph option" where
  "eval_refnode r g =
     (let x = tg_rule g r
      in if r_refnode x = None
         then do { a \<leftarrow> get_common_ancestor g (sync_node g (r_target x)) (sync_node g (r_syncbase x));
                   Some (upd_rule r (\<lambda>x. x\<lparr>r_refnode := Some a\<rparr>) g) }
         else Some g)"

definition set_target :: "nat \<Rightarrow> nat \<Rightarrow> rule_type \<Rightarrow> tgraph \<Rightarrow> tgraph option" where
  "set_target r n rt g = eval_refnode r (upd_rule r (\<lambda>x. x\<lparr>r_target := n, r_target_attr := rt\<rparr>) g)"

definition set_syncbase :: "nat \<Rightarrow> nat \<Rightarrow> sync_event \<Rightarrow> tgraph \<Rightarrow> tgraph option" where
  "set_syncbase r n ev g = eval_refnode r (upd_rule r (\<lambda>x. x\<lparr>r_syncbase := n, r_event := ev\<rparr>) g)"

definition add_dependent :: "nat \<Rightarrow> nat \<Rightarrow> sync_event \<Rightarrow> tgraph \<Rightarrow> tgraph option" where
  "add_dependent n r ev g = do {
     g \<leftarrow> set_syncbase r n ev g;
     Some (upd n (\<lambda>x. x\<lparr>n_dependents := (n_dependents x)(ev := n_dependents x ev @ [r])\<rparr>) g) }"

definition add_begin_rule :: "nat \<Rightarrow> nat \<Rightarrow> tgraph \<Rightarrow> tgraph option" where
  "add_begin_rule n r g = do {
     g \<leftarrow> set_target r n rt_begin g;
     g \<leftarrow> add_dependent (r_syncbase (tg_rule g r)) r (r_event (tg_rule g r)) g;
     Some (upd n (\<lambda>x. x\<lparr>n_begin_list := n_begin_list x @ [r]\<rparr>) g) }"

definition add_end_rule :: "nat \<Rightarrow> nat \<Rightarrow> tgraph \<Rightarrow> tgraph option" where
  "add_end_rule n r g = do {
     g \<leftarrow> set_target r n rt_end g;
     g \<leftarrow> add_dependent (r_syncbase (tg_rule g r)) r (r_event (tg_rule g r)) g;
     Some (upd n (\<lambda>x. x\<lparr>n_end_list := n_end_list x @ [r]\<rparr>) g) }"

definition set_transout_rule :: "nat \<Rightarrow> nat \<Rightarrow> tgraph \<Rightarrow> tgraph option" where
  "set_transout_rule n r g = do {
     g \<leftarrow> set_target r n rt_transout g;
     g \<leftarrow> add_dependent (r_syncbase (tg_rule g r)) r (r_event (tg_rule g r)) g;
     Some (upd n (\<lambda>x. x\<lparr>n_transout := Some r\<rparr>) g) }"

text \<open>A new rule of the constructors, without a target yet.\<close>

definition new_rule :: "rule_kind \<Rightarrow> nat \<Rightarrow> sync_event \<Rightarrow> stime \<Rightarrow> int \<Rightarrow> string \<Rightarrow> tgraph \<Rightarrow> nat \<times> tgraph" where
  "new_rule k base ev off sel str g =
     (let r = tg_next_rule g
      in (r, (upd_rule r (\<lambda>_. \<lparr>r_kind = k, r_target = 0, r_target_attr = rt_begin, r_syncbase = base,
                 r_event = ev, r_refnode = None, r_offset = off, r_selector = sel, r_str_selector = str,
                 r_locked = False, r_instances = []\<rparr>) g)\<lparr>tg_next_rule := Suc r\<rparr>))"

section \<open>Instances\<close>

definition to_ref :: "tgraph \<Rightarrow> sync_rule \<Rightarrow> stime \<Rightarrow> stime option" where
  "to_ref g x inst =
     (if \<not> is_definite inst then Some inst
      else do { a \<leftarrow> r_refnode x; q \<leftarrow> to_ancestor g a (sync_node g (r_syncbase x), inst); Some (snd q) })"

definition from_ref :: "tgraph \<Rightarrow> sync_rule \<Rightarrow> stime \<Rightarrow> stime option" where
  "from_ref g x inst =
     (if \<not> is_definite inst then Some inst
      else do { a \<leftarrow> r_refnode x; q \<leftarrow> to_descendent g (sync_node g (r_target x)) (a, inst); Some (snd q) })"

definition rule_instance_times :: "tgraph \<Rightarrow> nat \<Rightarrow> stime list \<Rightarrow> stime list option" where
  "rule_instance_times g r s =
     (let x = tg_rule g r
      in case r_kind x of
           offset_rule \<Rightarrow> Some (insort (r_offset x) s)
         | trigger_rule \<Rightarrow> Some s
         | _ \<Rightarrow> foldm (\<lambda>i s. do { t \<leftarrow> from_ref g x i; Some (insort (time_add t (r_offset x)) s) }) (r_instances x) s)"

text \<open>\<open>src\<close> is \<open>None\<close> for a reset of the whole document.\<close>

definition rule_reset :: "nat \<Rightarrow> nat option \<Rightarrow> tgraph \<Rightarrow> tgraph option" where
  "rule_reset r src g =
     (let x = tg_rule g r; clear = upd_rule r (\<lambda>x. x\<lparr>r_instances := []\<rparr>) g
      in case r_kind x of
           event_rule \<Rightarrow> Some clear
         | offset_rule \<Rightarrow> Some g
         | trigger_rule \<Rightarrow> Some g
         | _ \<Rightarrow>
             (case src of
                None \<Rightarrow> Some clear
              | Some s \<Rightarrow> do { a \<leftarrow> r_refnode x; d \<leftarrow> is_descendent g a s; Some (if d then clear else g) }))"

section \<open>Notifications\<close>

text \<open>The flag that keeps a rule from being entered again while it notifies its target.\<close>

definition with_lock :: "nat \<Rightarrow> (tgraph \<Rightarrow> tgraph option) \<Rightarrow> tgraph \<Rightarrow> tgraph option" where
  "with_lock r body g =
     (if r_locked (tg_rule g r) then Some g
      else do { g \<leftarrow> body (upd_rule r (\<lambda>x. x\<lparr>r_locked := True\<rparr>) g);
                Some (upd_rule r (\<lambda>x. x\<lparr>r_locked := False\<rparr>) g) })"

definition set_instances :: "nat \<Rightarrow> (stime list \<Rightarrow> stime list) \<Rightarrow> tgraph \<Rightarrow> tgraph" where
  "set_instances r f = upd_rule r (\<lambda>x. x\<lparr>r_instances := f (r_instances x)\<rparr>)"

fun replace1 :: "'a \<Rightarrow> 'a \<Rightarrow> 'a list \<Rightarrow> 'a list" where
  "replace1 a b [] = []"
| "replace1 a b (x # xs) = (if x = a then b # xs else x # replace1 a b xs)"

definition notify_target :: "runner \<Rightarrow> nat \<Rightarrow> qtime \<Rightarrow> tgraph \<Rightarrow> tgraph option" where
  "notify_target run r ts g = run (Sync_update (r_target (tg_rule g r)) ts) g"

definition model_new_instance :: "runner \<Rightarrow> nat \<Rightarrow> qtime \<Rightarrow> stime \<Rightarrow> tgraph \<Rightarrow> tgraph option" where
  "model_new_instance run r ts inst =
     with_lock r (\<lambda>g. do {
       i \<leftarrow> to_ref g (tg_rule g r) inst;
       notify_target run r ts (set_instances r (\<lambda>l. l @ [i]) g) })"

definition transout_new_instance :: "nat \<Rightarrow> stime \<Rightarrow> tgraph \<Rightarrow> tgraph option" where
  "transout_new_instance r inst =
     with_lock r (\<lambda>g. do {
       i \<leftarrow> to_ref g (tg_rule g r) inst;
       Some (set_instances r (\<lambda>l. l @ [i]) g) })"

definition rule_new_instance :: "runner \<Rightarrow> nat \<Rightarrow> qtime \<Rightarrow> stime \<Rightarrow> tgraph \<Rightarrow> tgraph option" where
  "rule_new_instance run r ts inst g =
     (case r_kind (tg_rule g r) of
        model_rule \<Rightarrow> model_new_instance run r ts inst g
      | transout_rule \<Rightarrow> transout_new_instance r inst g
      | _ \<Rightarrow> Some g)"

definition model_cancel_instance :: "runner \<Rightarrow> nat \<Rightarrow> qtime \<Rightarrow> stime \<Rightarrow> tgraph \<Rightarrow> tgraph option" where
  "model_cancel_instance run r ts inst =
     with_lock r (\<lambda>g.
       if r_instances (tg_rule g r) = [] then Some g
       else do { i \<leftarrow> to_ref g (tg_rule g r) inst;
                 notify_target run r ts (set_instances r (remove1 i) g) })"

definition transout_cancel_instance :: "nat \<Rightarrow> stime \<Rightarrow> tgraph \<Rightarrow> tgraph option" where
  "transout_cancel_instance r inst =
     with_lock r (\<lambda>g.
       if r_instances (tg_rule g r) = [] then Some g
       else do { i \<leftarrow> to_ref g (tg_rule g r) inst; Some (set_instances r (remove1 i) g) })"

definition rule_cancel_instance :: "runner \<Rightarrow> nat \<Rightarrow> qtime \<Rightarrow> stime \<Rightarrow> tgraph \<Rightarrow> tgraph option" where
  "rule_cancel_instance run r ts inst g =
     (case r_kind (tg_rule g r) of
        model_rule \<Rightarrow> model_cancel_instance run r ts inst g
      | transout_rule \<Rightarrow> transout_cancel_instance r inst g
      | trigger_rule \<Rightarrow> notify_target run r ts g
      | _ \<Rightarrow> Some g)"

definition model_update_instance :: "runner \<Rightarrow> nat \<Rightarrow> qtime \<Rightarrow> stime \<Rightarrow> stime \<Rightarrow> tgraph \<Rightarrow> tgraph option" where
  "model_update_instance run r ts inst old =
     with_lock r (\<lambda>g.
       if r_instances (tg_rule g r) = [] then Some g
       else do { o' \<leftarrow> to_ref g (tg_rule g r) old; i \<leftarrow> to_ref g (tg_rule g r) inst;
                 notify_target run r ts (set_instances r (replace1 o' i) g) })"

definition transout_update_instance :: "nat \<Rightarrow> stime \<Rightarrow> stime \<Rightarrow> tgraph \<Rightarrow> tgraph option" where
  "transout_update_instance r inst old =
     with_lock r (\<lambda>g.
       if r_instances (tg_rule g r) = [] then Some g
       else do { o' \<leftarrow> to_ref g (tg_rule g r) old; i \<leftarrow> to_ref g (tg_rule g r) inst;
                 Some (set_instances r (replace1 o' i) g) })"

definition rule_update_instance :: "runner \<Rightarrow> nat \<Rightarrow> qtime \<Rightarrow> stime \<Rightarrow> stime \<Rightarrow> tgraph \<Rightarrow> tgraph option" where
  "rule_update_instance run r ts inst old g =
     (case r_kind (tg_rule g r) of
        model_rule \<Rightarrow> model_update_instance run r ts inst old g
      | transout_rule \<Rightarrow> transout_update_instance r inst old g
      | trigger_rule \<Rightarrow> notify_target run r ts g
      | _ \<Rightarrow> Some g)"

definition data_selected :: "sync_rule \<Rightarrow> event_data \<Rightarrow> bool" where
  "data_selected x d = (case d of Int_data i \<Rightarrow> r_selector x = i | Str_data s \<Rightarrow> r_str_selector x = s)"

definition rule_add_instance :: "runner \<Rightarrow> nat \<Rightarrow> qtime \<Rightarrow> stime \<Rightarrow> event_data \<Rightarrow> tgraph \<Rightarrow> tgraph option" where
  "rule_add_instance run r ts inst d g =
     (if r_kind (tg_rule g r) = event_rule \<and> data_selected (tg_rule g r) d
      then with_lock r (\<lambda>g. do {
             i \<leftarrow> to_ref g (tg_rule g r) inst;
             notify_target run r ts (set_instances r (\<lambda>l. l @ [i]) g) }) g
      else Some g)"

section \<open>Names of events\<close>

definition sync_event_names :: "(string \<times> sync_event) list" where
  "sync_event_names =
     [(''begin'', tn_begin), (''end'', tn_end), (''beginEvent'', tn_begin_event), (''endEvent'', tn_end_event),
      (''repeat'', tn_repeat_event), (''activateEvent'', tn_activate_event), (''focusInEvent'', tn_focusin_event),
      (''focusOutEvent'', tn_focusout_event), (''inBoundsEvent'', tn_inbounds_event),
      (''outOfBoundsEvent'', tn_outofbounds_event), (''click'', tn_activate_event), (''marker'', tn_marker_event),
      (''stateChange'', state_change_event), (''tevEvent'', tev_event), (''accesskey'', accesskey_event)]"

definition sync_event_from_str :: "string \<Rightarrow> sync_event" where
  "sync_event_from_str s = (case map_of sync_event_names s of Some e \<Rightarrow> e | None \<Rightarrow> tn_unknown_event)"

fun sync_event_str :: "sync_event \<Rightarrow> string" where
  "sync_event_str tn_begin = ''begin''"
| "sync_event_str tn_repeat = ''repeat''"
| "sync_event_str tn_end = ''end''"
| "sync_event_str tn_begin_event = ''beginEvent''"
| "sync_event_str tn_repeat_event = ''repeat(.)''"
| "sync_event_str tn_end_event = ''endEvent''"
| "sync_event_str tn_activate_event = ''activateEvent''"
| "sync_event_str tn_focusin_event = ''focusInEvent''"
| "sync_event_str tn_focusout_event = ''focusOutEvent''"
| "sync_event_str tn_inbounds_event = ''inBoundsEvent''"
| "sync_event_str tn_outofbounds_event = ''outOfBoundsEvent''"
| "sync_event_str tn_marker_event = ''marker''"
| "sync_event_str state_change_event = ''stateChange''"
| "sync_event_str tev_event = ''tevEvent''"
| "sync_event_str accesskey_event = ''accesskey''"
| "sync_event_str tn_dom_call = ''beginElement()''"
| "sync_event_str tn_unknown_event = ''unknownEvent''"

fun rule_type_str :: "rule_type \<Rightarrow> string" where
  "rule_type_str rt_begin = ''begin''"
| "rule_type_str rt_end = ''end''"
| "rule_type_str rt_transout = ''transOut''"

text \<open>
  An event that has a name in documents is read back from the name it is traced by, except
  "repeat": the name is read as the repeat event but printed for the abstract event.
\<close>

lemma sync_event_names_roundtrip:
  "e \<in> snd ` set sync_event_names \<Longrightarrow> e \<noteq> tn_repeat_event \<Longrightarrow> sync_event_from_str (sync_event_str e) = e"
  by (auto simp: sync_event_names_def sync_event_from_str_def)

end
