(* ===== verification/Time_Node.thy ===== *)
theory Time_Node
  imports Sync_Rule
begin

text \<open>
  Time nodes and their state machine (smil2/time_node.cpp, smil2/time_state.cpp). Each operation of
  the classes \<open>time_node\<close>, \<open>time_container\<close>, \<open>seq\<close>, \<open>excl\<close> and of the five states is a
  definition over the time graph. They call each other without end in sight: a state change updates
  rules, a rule updates its target, which may change its state. These calls go through the argument
  \<open>run\<close>, an interpreter of the datatype \<open>call\<close>; \<open>exec_call\<close> at the end closes the recursion with a
  bound on the depth of calls. What is not part of the graph is the record \<open>env\<close>: the player's
  answers, which may depend on the commands it got so far. Debug output is left out.
\<close>

record env =
  e_dur :: "command list \<Rightarrow> nat \<Rightarrow> bool \<times> rat"
  e_wait_for_eom :: bool
  e_dynamic_content :: bool
  e_selected :: "command list \<Rightarrow> nat \<Rightarrow> bool"
  e_state_engine :: bool
  e_bool_expression :: "command list \<Rightarrow> string \<Rightarrow> bool"
  e_is_submission :: "string \<Rightarrow> bool"
  e_has_player :: "nat \<Rightarrow> bool"
  e_elapsed :: "command list \<Rightarrow> nat \<Rightarrow> int"
  e_clock :: "command list \<Rightarrow> int"

section \<open>Timers and playables\<close>

definition timer_cmd :: "nat \<Rightarrow> command \<Rightarrow> tgraph \<Rightarrow> tgraph" where
  "timer_cmd n c g = (if n_has_timer (tg_node g n) then emit c g else g)"

definition get_playable_dur :: "env \<Rightarrow> nat \<Rightarrow> tgraph \<Rightarrow> stime" where
  "get_playable_dur env n g =
     (let (known, d) = e_dur env (tg_log g) n in if known \<and> 0 < d then secs_to_time d else unresolved)"

definition create_playable :: "env \<Rightarrow> nat \<Rightarrow> tgraph \<Rightarrow> bool \<times> tgraph" where
  "create_playable env n g =
     (let x = tg_node g n; g = expect n (is_playable x \<or> n_prefetch x) g
      in if n_ffwd x then (False, g) else (e_has_player env n, emit (Create_playable n) g))"

definition show_link_states :: "attr_map \<Rightarrow> src_playstate \<times> dst_playstate" where
  "show_link_states n =
     (let src = (case n ''sourcePlaystate'' of
          Some s \<Rightarrow> if s = ''play'' then src_play else if s = ''stop'' then src_replace
                    else if s = ''pause'' then src_pause else src_replace
        | None \<Rightarrow> src_replace);
          dst = (case n ''destinationPlaystate'' of
          Some s \<Rightarrow> if s = ''play'' then dst_play else if s = ''pause'' then dst_pause else dst_play
        | None \<Rightarrow> dst_play);
          src = (case n ''show'' of
          Some s \<Rightarrow> if s = ''new'' then src_play else if s = ''pause'' then src_pause
                    else if s = ''replace'' then src_replace else src
        | None \<Rightarrow> src);
          dst = (if n ''external'' = Some ''true'' then dst_external else dst)
      in (src, dst))"

definition follow_link :: "nat \<Rightarrow> tgraph \<Rightarrow> tgraph" where
  "follow_link n g =
     (let d = n_dom (tg_node g n)
      in if d ''nohref'' = Some ''nohref'' \<or> d ''href'' = None then g
         else (let (s, t) = show_link_states d in emit (Show_link n s t) g))"

definition start_playable :: "env \<Rightarrow> nat \<Rightarrow> stime \<Rightarrow> tgraph \<Rightarrow> tgraph" where
  "start_playable env n offset g =
     (let x = tg_node g n
      in if n_ffwd x \<or> \<not> is_playable x then g
         else let g = upd n (\<lambda>x. x\<lparr>n_eom := False, n_saw_bom := False, n_saw_eom := False\<rparr>) g;
                  (np, g) = create_playable env n g;
                  g = (if np then emit (Start_playable n offset (m_trans_in (n_attrs x) \<noteq> None)) g else g)
              in if is_link x \<and> m_actuate (n_attrs x) = actuate_onload then follow_link n g else g)"

definition seek_playable :: "nat \<Rightarrow> stime \<Rightarrow> tgraph \<Rightarrow> tgraph" where
  "seek_playable n offset g =
     (let x = tg_node g n in if \<not> is_playable x \<or> n_ffwd x then g else emit (Seek_playable n offset) g)"

definition pause_playable :: "nat \<Rightarrow> pause_display \<Rightarrow> tgraph \<Rightarrow> tgraph" where
  "pause_playable n d g =
     (let x = tg_node g n in if \<not> is_playable x \<or> n_ffwd x then g else emit (Pause_playable n d) g)"

definition resume_playable :: "nat \<Rightarrow> tgraph \<Rightarrow> tgraph" where
  "resume_playable n g =
     (let x = tg_node g n in if \<not> is_playable x \<or> n_ffwd x then g else emit (Resume_playable n) g)"

definition stop_playable :: "nat \<Rightarrow> tgraph \<Rightarrow> tgraph" where
  "stop_playable n g =
     (let x = tg_node g n
      in if \<not> is_playable x \<and> \<not> n_prefetch x then g
         else if \<not> n_needs_remove x then g
         else emit (Stop_playable n) (upd n (\<lambda>x. x\<lparr>n_eom := True\<rparr>) g))"

definition repeat_playable :: "nat \<Rightarrow> tgraph \<Rightarrow> tgraph" where
  "repeat_playable n g =
     (let x = tg_node g n
      in if \<not> is_playable x \<or> n_ffwd x then g else emit (Start_playable n 0 False) (stop_playable n g))"

definition start_prefetch :: "env \<Rightarrow> nat \<Rightarrow> stime \<Rightarrow> tgraph \<Rightarrow> tgraph" where
  "start_prefetch env n offset g =
     (if n_ffwd (tg_node g n) then g
      else let (np, g) = create_playable env n g in if np then emit (Preroll n offset) g else g)"

definition start_statecommand :: "env \<Rightarrow> nat \<Rightarrow> tgraph \<Rightarrow> tgraph" where
  "start_statecommand env n g =
     (let x = tg_node g n; d = n_dom x
      in if \<not> e_state_engine env then g
         else if n_tag x = ''setvalue''
         then (case (d ''ref'', d ''value'') of (Some r, Some v) \<Rightarrow> emit (Set_value n r v) g | _ \<Rightarrow> g)
         else if n_tag x = ''newvalue''
         then (case (d ''name'', d ''value'') of
                 (Some nm, Some v) \<Rightarrow> emit (New_value n (d ''ref'') (d ''where'') nm v) g | _ \<Rightarrow> g)
         else if n_tag x = ''delvalue''
         then (case d ''ref'' of Some r \<Rightarrow> emit (Del_value n r) g | None \<Rightarrow> g)
         else if n_tag x = ''send''
         then (case d ''submission'' of
                 Some s \<Rightarrow> if e_is_submission env s then emit (Send n s) g else g | None \<Rightarrow> g)
         else expect n False g)"

definition node_started :: "nat \<Rightarrow> tgraph \<Rightarrow> tgraph" where
  "node_started n g =
     (let g = (if is_root g n then emit Started_playback g else g)
      in if n_ffwd (tg_node g n) then g else emit (Node_started n) g)"

definition raise_update_event :: "nat \<Rightarrow> qtime \<Rightarrow> tgraph \<Rightarrow> tgraph" where
  "raise_update_event n ts = upd n (\<lambda>x. x\<lparr>n_update := (True, ts)\<rparr>)"

section \<open>Time calculations\<close>

definition leaf_implicit_dur :: "env \<Rightarrow> nat \<Rightarrow> tgraph \<Rightarrow> stime \<times> tgraph" where
  "leaf_implicit_dur env n g =
     (let x = tg_node g n; g = expect n (\<not> is_time_container x) g
      in if n_impldur x \<noteq> unresolved then (n_impldur x, g)
         else let d = get_playable_dur env n g; g = upd n (\<lambda>x. x\<lparr>n_impldur := d\<rparr>) g
              in if n_ffwd x \<and> d = unresolved then (1000, g) else (d, g))"

definition esr_first_dur :: "time_node list \<Rightarrow> stime" where
  "esr_first_dur cl =
     fold (\<lambda>c d. if is_valid (get_first_interval c) then min d (get_interval_end c) else d) cl unresolved"

fun esr_id_dur :: "string \<Rightarrow> time_node list \<Rightarrow> stime" where
  "esr_id_dur i [] = unresolved"
| "esr_id_dur i (c # cl) =
     (if i = n_id c then (if is_valid (get_first_interval c) then get_interval_end c else unresolved)
      else esr_id_dur i cl)"

fun esr_last_loop :: "stime \<Rightarrow> time_node list \<Rightarrow> stime" where
  "esr_last_loop d [] = d"
| "esr_last_loop d (c # cl) =
     (if \<not> is_alive c \<or> n_paused c then unresolved
      else if is_valid (get_last_interval c) then esr_last_loop (max d (get_interval_end c)) cl
      else esr_last_loop d cl)"

definition esr_last_dur :: "time_node list \<Rightarrow> stime" where
  "esr_last_dur cl = (let d = esr_last_loop minus_infinity cl in if d = minus_infinity then 0 else d)"

fun esr_all_loop :: "stime \<Rightarrow> time_node list \<Rightarrow> stime" where
  "esr_all_loop d [] = d"
| "esr_all_loop d (c # cl) =
     (if is_valid (get_last_interval c) then esr_all_loop (max d (get_interval_end c)) cl
      else if \<not> played c then unresolved
      else esr_all_loop d cl)"

definition esr_all_dur :: "time_node list \<Rightarrow> stime" where
  "esr_all_dur cl = (let d = esr_all_loop minus_infinity cl in if d = minus_infinity then unresolved else d)"

definition container_implicit_dur :: "nat \<Rightarrow> tgraph \<Rightarrow> stime option" where
  "container_implicit_dur n g =
     (if ln_down g n = None then Some 0
      else do { ks \<leftarrow> get_children g n;
                let cl = map (tg_node g) ks;
                Some (case m_endsync_rule (n_attrs (tg_node g n)) of
                        esr_first \<Rightarrow> esr_first_dur cl
                      | esr_all \<Rightarrow> esr_all_dur cl
                      | esr_id \<Rightarrow> esr_id_dur (m_endsync_ident (n_attrs (tg_node g n))) cl
                      | _ \<Rightarrow> esr_last_dur cl) })"

definition seq_implicit_dur :: "nat \<Rightarrow> tgraph \<Rightarrow> stime option" where
  "seq_implicit_dur n g =
     (if ln_down g n = None then Some 0
      else do { c \<leftarrow> last_child g n; k \<leftarrow> c;
                Some (if is_valid (get_last_interval (tg_node g k)) then get_interval_end (tg_node g k) else unresolved) })"

definition get_implicit_dur :: "env \<Rightarrow> nat \<Rightarrow> tgraph \<Rightarrow> (stime \<times> tgraph) option" where
  "get_implicit_dur env n g =
     (case n_type (tg_node g n) of
        tc_none \<Rightarrow> Some (leaf_implicit_dur env n g)
      | tc_seq \<Rightarrow> map_option (\<lambda>d. (d, g)) (seq_implicit_dur n g)
      | _ \<Rightarrow> map_option (\<lambda>d. (d, g)) (container_implicit_dur n g))"

text \<open>
  The calculator asks for the implicit duration only when it needs it, and the first time a leaf
  is asked it keeps the answer: these conditions tell whether a calculation asks.
\<close>

definition asks_dur :: "time_calc \<Rightarrow> bool" where
  "asks_dur tc \<longleftrightarrow> \<not> (\<not> has_dur_specifier (tc_attrs tc) \<and> specified_end (tc_attrs tc)) \<and> \<not> tc_paused tc
     \<and> m_dur_type (tc_attrs tc) \<in> {dt_unspecified, dt_media}"

definition asks_intermediate :: "time_calc \<Rightarrow> bool" where
  "asks_intermediate tc \<longleftrightarrow> asks_dur tc \<or> specified_rcount (tc_attrs tc) \<and> m_dur_type (tc_attrs tc) \<noteq> dt_definite"

definition asks_end :: "time_calc \<Rightarrow> bool" where
  "asks_end tc \<longleftrightarrow> (if specified_end (tc_attrs tc) then has_dur_specifier (tc_attrs tc) else True) \<and> asks_intermediate tc"

definition calculator :: "nat \<Rightarrow> tgraph \<Rightarrow> stime \<Rightarrow> time_calc" where
  "calculator n g d =
     (let x = tg_node g n
      in \<lparr>tc_attrs = n_attrs x, tc_implicit_dur = d, tc_last_dur = n_last_cdur x,
          tc_paused = n_calc_paused x, tc_uses_dur = n_uses_dur x\<rparr>)"

definition keep_calc :: "nat \<Rightarrow> time_calc \<Rightarrow> tgraph \<Rightarrow> tgraph" where
  "keep_calc n tc = upd n (\<lambda>x. x\<lparr>n_uses_dur := tc_uses_dur tc\<rparr>)"

definition node_calc_dur :: "env \<Rightarrow> nat \<Rightarrow> tgraph \<Rightarrow> (stime \<times> tgraph) option" where
  "node_calc_dur env n g = do {
     (d, g') \<leftarrow> get_implicit_dur env n g;
     let tc = calculator n g d;
     let (c, tc') = calc_dur tc;
     Some (c, upd n (\<lambda>x. x\<lparr>n_last_cdur := c\<rparr>) (keep_calc n tc' (if asks_dur tc then g' else g))) }"

definition get_instance_times :: "nat list \<Rightarrow> tgraph \<Rightarrow> stime list option" where
  "get_instance_times rules g = foldm (rule_instance_times g) rules []"

text \<open>The begin instances, with the one kept over a reset, which is used up.\<close>

definition begin_instances :: "nat \<Rightarrow> tgraph \<Rightarrow> (stime list \<times> tgraph) option" where
  "begin_instances n g = do {
     l \<leftarrow> get_instance_times (n_begin_list (tg_node g n)) g;
     Some (if n_begin_inst (tg_node g n) \<noteq> unresolved
           then (insort (n_begin_inst (tg_node g n)) l, upd n (\<lambda>x. x\<lparr>n_begin_inst := unresolved\<rparr>) g)
           else (l, g)) }"

definition parent_simple_dur :: "nat \<Rightarrow> tgraph \<Rightarrow> stime" where
  "parent_simple_dur n g = (case ln_up g n of Some p \<Rightarrow> n_last_cdur (tg_node g p) | None \<Rightarrow> indefinite)"

definition node_current_end :: "env \<Rightarrow> nat \<Rightarrow> tgraph \<Rightarrow> (stime \<times> tgraph) option" where
  "node_current_end env n g = do {
     el \<leftarrow> get_instance_times (n_end_list (tg_node g n)) g;
     (d, g') \<leftarrow> get_implicit_dur env n g;
     let tc = calculator n g d;
     let (e, tc') = calc_interval_end tc (n_interval (tg_node g n)) el;
     Some (e, keep_calc n tc' (if asks_end tc then g' else g)) }"

definition node_first_interval :: "env \<Rightarrow> nat \<Rightarrow> tgraph \<Rightarrow> (smil_interval \<times> tgraph) option" where
  "node_first_interval env n g = do {
     (bl, g) \<leftarrow> begin_instances n g;
     el \<leftarrow> get_instance_times (n_end_list (tg_node g n)) g;
     let bound = parent_simple_dur n g;
     (d, g') \<leftarrow> get_implicit_dur env n g;
     let tc = calculator n g d;
     let asks = (case lower_bound bl minus_infinity of
                   None \<Rightarrow> False
                 | Some b \<Rightarrow> b \<le> bound \<and> first_candidate_end tc b el \<noteq> None \<and> asks_end tc);
     (i, _, tc') \<leftarrow> calc_first_interval tc bl el bound;
     Some (i, keep_calc n tc' (if asks then g' else g)) }"

definition node_next_interval :: "env \<Rightarrow> nat \<Rightarrow> smil_interval \<Rightarrow> tgraph \<Rightarrow> (smil_interval \<times> tgraph) option" where
  "node_next_interval env n prev g =
     (let x = tg_node g n
      in if interval_eq prev interval_unresolved \<and> n_history x = [] then Some (interval_unresolved, g)
         else do {
           let prev = (if interval_eq prev interval_unresolved then last (n_history x) else prev);
           (bl, g) \<leftarrow> begin_instances n g;
           el \<leftarrow> get_instance_times (n_end_list (tg_node g n)) g;
           let bound = parent_simple_dur n g;
           (d, g') \<leftarrow> get_implicit_dur env n g;
           let tc = calculator n g d;
           (i, tc') \<leftarrow> calc_next_interval tc bl el bound (iend prev) (is_zero_dur prev);
           let asks = (\<not> interval_eq i interval_unresolved \<and> asks_end tc);
           Some (i, keep_calc n tc' (if asks then g' else g)) })"

section \<open>Dependents\<close>

text \<open>A rule is left out when its target is in the branch \<open>filter\<close>.\<close>

definition passes :: "tgraph \<Rightarrow> nat option \<Rightarrow> nat \<Rightarrow> bool option" where
  "passes g branch owner =
     (case branch of None \<Rightarrow> Some True | Some f \<Rightarrow> do { d \<leftarrow> is_descendent g owner f; Some (\<not> d) })"

definition on_new_instance :: "runner \<Rightarrow> nat \<Rightarrow> qtime \<Rightarrow> sync_event \<Rightarrow> stime \<Rightarrow> nat option \<Rightarrow> tgraph \<Rightarrow> tgraph option" where
  "on_new_instance run n ts ev inst branch g =
     foldm (\<lambda>r g. do { b \<leftarrow> passes g branch (r_target (tg_rule g r));
                      if b then rule_new_instance run r ts inst g else Some g })
       (n_dependents (tg_node g n) ev) g"

definition on_update_instance ::
    "runner \<Rightarrow> nat \<Rightarrow> qtime \<Rightarrow> sync_event \<Rightarrow> stime \<Rightarrow> stime \<Rightarrow> nat option \<Rightarrow> tgraph \<Rightarrow> tgraph option" where
  "on_update_instance run n ts ev inst old branch g =
     foldm (\<lambda>r g. do { b \<leftarrow> passes g branch (r_target (tg_rule g r));
                      if b then rule_update_instance run r ts inst old g else Some g })
       (n_dependents (tg_node g n) ev) g"

definition on_cancel_instance :: "runner \<Rightarrow> nat \<Rightarrow> qtime \<Rightarrow> sync_event \<Rightarrow> stime \<Rightarrow> nat option \<Rightarrow> tgraph \<Rightarrow> tgraph option" where
  "on_cancel_instance run n ts ev inst branch g =
     foldm (\<lambda>r g. do { b \<leftarrow> passes g branch (r_target (tg_rule g r));
                      if b then rule_cancel_instance run r ts inst g else Some g })
       (n_dependents (tg_node g n) ev) g"

text \<open>
  An instance of an event goes first to the begins of inactive elements, then to their ends, then
  to the ends of active elements and to their begins; the list \<open>ds\<close> keeps the elements that got it.
\<close>

definition add_pass ::
    "runner \<Rightarrow> qtime \<Rightarrow> stime \<Rightarrow> event_data \<Rightarrow> nat option \<Rightarrow> nat list \<Rightarrow> bool \<Rightarrow> rule_type \<Rightarrow> nat list \<times> tgraph
     \<Rightarrow> (nat list \<times> tgraph) option" where
  "add_pass run ts inst d branch rules act rt s =
     foldm (\<lambda>r (ds, g).
       let owner = r_target (tg_rule g r)
       in if n_active (tg_node g owner) = act \<and> r_target_attr (tg_rule g r) = rt \<and> owner \<notin> set ds
          then do { b \<leftarrow> passes g branch owner;
                    if b then do { g \<leftarrow> rule_add_instance run r ts inst d g; Some (owner # ds, g) } else Some (ds, g) }
          else Some (ds, g)) rules s"

definition on_add_instance ::
    "runner \<Rightarrow> nat \<Rightarrow> qtime \<Rightarrow> sync_event \<Rightarrow> stime \<Rightarrow> event_data \<Rightarrow> nat option \<Rightarrow> tgraph \<Rightarrow> tgraph option" where
  "on_add_instance run n ts ev inst d branch g = do {
     let rules = n_dependents (tg_node g n) ev;
     s \<leftarrow> add_pass run ts inst d branch rules False rt_begin ([], g);
     s \<leftarrow> add_pass run ts inst d branch rules False rt_end s;
     s \<leftarrow> add_pass run ts inst d branch rules True rt_end s;
     s \<leftarrow> add_pass run ts inst d branch rules True rt_begin s;
     Some (snd s) }"

section \<open>Intervals\<close>

definition set_node_interval :: "nat \<Rightarrow> smil_interval \<Rightarrow> tgraph \<Rightarrow> tgraph" where
  "set_node_interval n i = upd n (\<lambda>x. x\<lparr>n_interval := i\<rparr>)"

definition cancel_interval :: "runner \<Rightarrow> nat \<Rightarrow> qtime \<Rightarrow> tgraph \<Rightarrow> tgraph option" where
  "cancel_interval run n ts g = do {
     let i = n_interval (tg_node g n);
     let g = set_node_interval n interval_unresolved (expect n (is_valid i) g);
     g \<leftarrow> on_cancel_instance run n ts tn_begin (ibegin i) None g;
     on_cancel_instance run n ts tn_end (iend i) None g }"

definition update_interval :: "runner \<Rightarrow> nat \<Rightarrow> qtime \<Rightarrow> smil_interval \<Rightarrow> tgraph \<Rightarrow> tgraph option" where
  "update_interval run n ts i g = do {
     let old = n_interval (tg_node g n);
     let g = expect n (fst ts = sync_node g n) (expect n (is_valid old) g);
     let g = set_node_interval n i g;
     g \<leftarrow> (if ibegin i \<noteq> ibegin old
          then do { g \<leftarrow> on_update_instance run n ts tn_begin (ibegin i) (ibegin old) None g;
                    Some (raise_update_event n ts g) }
          else Some g);
     let e = iend (n_interval (tg_node g n));
     if e \<noteq> iend old
     then on_update_instance run n ts tn_end e (iend old) None
            (if is_definite (time_sub e (snd ts)) then raise_update_event (sync_node g n) ts g else g)
     else Some g }"

definition update_interval_end :: "runner \<Rightarrow> nat \<Rightarrow> qtime \<Rightarrow> stime \<Rightarrow> tgraph \<Rightarrow> tgraph option" where
  "update_interval_end run n ts e g =
     (let old = n_interval (tg_node g n)
      in if \<not> is_valid old then Some g
         else do {
           g \<leftarrow> on_update_instance run n ts tn_end e (iend old) None (set_node_interval n (old\<lparr>iend := e\<rparr>) g);
           Some (case ln_up g n of Some p \<Rightarrow> raise_update_event p ts g | None \<Rightarrow> g) })"

text \<open>Whether a node can establish an interval now: not while an ancestor is paused or deferred.\<close>

definition can_set_interval :: "nat \<Rightarrow> qtime \<Rightarrow> smil_interval \<Rightarrow> tgraph \<Rightarrow> bool option" where
  "can_set_interval n ts i g =
     (case ln_up g n of
        None \<Rightarrow> Some True
      | Some p \<Rightarrow>
          if interval_after i (snd ts) then Some True
          else do {
            prev \<leftarrow> (if is_seq (tg_node g p) then previous g n else Some None);
            if (case prev of Some k \<Rightarrow> n_active (tg_node g k) | None \<Rightarrow> False) then Some False
            else do {
              path \<leftarrow> get_path g n;
              Some (\<not> list_ex (\<lambda>a. n_paused (tg_node g a) \<or> n_deferred (tg_node g a)) (butlast path)) } })"

definition played_interval :: "nat \<Rightarrow> tgraph \<Rightarrow> tgraph option" where
  "played_interval n g = do {
     let i = n_interval (tg_node g n);
     let g = upd n (\<lambda>x. x\<lparr>n_history := n_history x @ [i]\<rparr>) g;
     b \<leftarrow> as_doc_time g (sync_node g n, ibegin i);
     e \<leftarrow> as_doc_time g (sync_node g n, iend i);
     Some (upd n (\<lambda>x. x\<lparr>n_doc_history := n_doc_history x @ [mk_interval b e],
                       n_interval := interval_unresolved\<rparr>) g) }"

definition get_first_doc_interval :: "time_node \<Rightarrow> smil_interval" where
  "get_first_doc_interval x = (case n_doc_history x of i # _ \<Rightarrow> i | [] \<Rightarrow> interval_unresolved)"

definition defer_interval :: "runner \<Rightarrow> nat \<Rightarrow> qtime \<Rightarrow> tgraph \<Rightarrow> tgraph option" where
  "defer_interval run n ts g = do {
     let g = upd n (\<lambda>x. x\<lparr>n_deferred := True\<rparr>) g;
     let i = n_interval (tg_node g n);
     if \<not> is_valid i then Some g
     else do {
       g \<leftarrow> on_cancel_instance run n ts tn_begin (ibegin i) None (set_node_interval n interval_unresolved g);
       g \<leftarrow> on_cancel_instance run n ts tn_end (iend i) None g;
       Some (set_node_interval n i g) } }"

definition set_deferred_interval :: "runner \<Rightarrow> nat \<Rightarrow> qtime \<Rightarrow> tgraph \<Rightarrow> tgraph option" where
  "set_deferred_interval run n ts g =
     (if \<not> n_deferred (tg_node g n) then Some g
      else do {
        let g = upd n (\<lambda>x. x\<lparr>n_deferred := False\<rparr>) g;
        let i = n_interval (tg_node g n);
        if \<not> is_valid i then Some g
        else run (Set_interval n ts (interval_translate i (time_sub (snd ts) (ibegin i)))) g })"

section \<open>Pausing and resuming\<close>

definition branch_tour :: "nat \<Rightarrow> tgraph \<Rightarrow> (bool \<times> nat) list option" where
  "branch_tour n g = iter_visits g (mk_iter n) []"

text \<open>The playables of the active leaves of a branch, seen when the iterator leaves a node.\<close>

definition each_playing :: "(nat \<Rightarrow> tgraph \<Rightarrow> tgraph) \<Rightarrow> (bool \<times> nat) list \<Rightarrow> tgraph \<Rightarrow> tgraph" where
  "each_playing f visits g =
     fold (\<lambda>(dn, m) g. if \<not> dn \<and> is_playable (tg_node g m) \<and> n_active (tg_node g m) then f m g else g) visits g"

definition node_pause :: "env \<Rightarrow> runner \<Rightarrow> nat \<Rightarrow> qtime \<Rightarrow> pause_display \<Rightarrow> tgraph \<Rightarrow> tgraph option" where
  "node_pause env run n ts d g =
     (if \<not> n_active (tg_node g n) then Some g
      else do {
        st \<leftarrow> as_time_down_to g n ts;
        let g = (if is_playable (tg_node g n) then pause_playable n d g else g);
        let g = timer_cmd n (Timer_pause n) g;
        t \<leftarrow> as_time_down_to g (sync_node g n) ts;
        let g = upd n (\<lambda>x. x\<lparr>n_paused_sync_time := t, n_paused := True, n_calc_paused := True\<rparr>) g;
        (e, g) \<leftarrow> node_current_end env n g;
        g \<leftarrow> (if e \<noteq> iend (n_interval (tg_node g n)) then update_interval_end run n ts e g else Some g);
        visits \<leftarrow> branch_tour n g;
        Some (each_playing (\<lambda>m. pause_playable m d) visits g) })"

definition node_resume :: "env \<Rightarrow> runner \<Rightarrow> nat \<Rightarrow> qtime \<Rightarrow> tgraph \<Rightarrow> tgraph option" where
  "node_resume env run n ts g =
     (if \<not> n_active (tg_node g n) then Some g
      else do {
        let g = upd n (\<lambda>x. x\<lparr>n_calc_paused := False, n_paused := False\<rparr>) g;
        st \<leftarrow> as_time_down_to g n ts;
        (e, g) \<leftarrow> node_current_end env n g;
        t \<leftarrow> as_time_down_to g (sync_node g n) ts;
        let g = upd n (\<lambda>x. x\<lparr>n_pad := time_add (n_pad x) (time_sub t (n_paused_sync_time x))\<rparr>) g;
        g \<leftarrow> (if e \<noteq> iend (n_interval (tg_node g n)) then update_interval_end run n ts e g else Some g);
        let g = (if is_playable (tg_node g n) then resume_playable n g else g);
        let g = timer_cmd n (Timer_resume n) g;
        visits \<leftarrow> branch_tour n g;
        Some (each_playing resume_playable visits g) })"

end
