(* ===== verification/Excl.thy ===== *)
theory Excl
  imports Time_Node
begin

text \<open>
  The "excl" container (smil2/time_node.cpp): the queue of paused and deferred children (class
  \<open>excl_queue\<close>), the priority classes and what happens when a child wants to begin while another
  one plays. The queue is a list of children in the field \<open>n_queue\<close> of the container.
\<close>

section \<open>The queue\<close>

definition push_pause :: "(nat \<Rightarrow> nat) \<Rightarrow> nat \<Rightarrow> nat list \<Rightarrow> nat list" where
  "push_pause prio n q =
     (let q = removeAll n q
      in takeWhile (\<lambda>m. prio n < prio m) q @ n # dropWhile (\<lambda>m. prio n < prio m) q)"

definition push_defer :: "(nat \<Rightarrow> nat) \<Rightarrow> nat \<Rightarrow> nat list \<Rightarrow> nat list" where
  "push_defer prio n q =
     (let q = removeAll n q
      in takeWhile (\<lambda>m. prio n \<le> prio m) q @ n # dropWhile (\<lambda>m. prio n \<le> prio m) q)"

definition queue_remove :: "nat \<Rightarrow> nat list \<Rightarrow> nat list" where
  "queue_remove n q = removeAll n q"

definition queue_pop :: "nat list \<Rightarrow> (nat \<times> nat list) option" where
  "queue_pop q = (case q of [] \<Rightarrow> None | n # q \<Rightarrow> Some (n, q))"

text \<open>The invariants of \<open>assert_invariants\<close> on the order: by priority, and no child twice.\<close>

definition queue_ok :: "(nat \<Rightarrow> nat) \<Rightarrow> nat list \<Rightarrow> bool" where
  "queue_ok prio q \<longleftrightarrow> sorted_wrt (\<lambda>a b. prio b \<le> prio a) q \<and> distinct q"

definition assert_invariants :: "(nat \<Rightarrow> time_node) \<Rightarrow> nat list \<Rightarrow> bool" where
  "assert_invariants node q \<longleftrightarrow> list_all (\<lambda>m. \<not> n_active (node m)) q \<and> queue_ok (\<lambda>m. n_priority (node m)) q"

section \<open>Priority classes\<close>

text \<open>
  A child of the element is its tag, its attributes and the time nodes of its children, if they
  have one. The first class gets the highest priority.
\<close>

type_synonym prio_class = "string \<times> attr_map \<times> nat option list"

definition default_priority :: priority_attrs where
  "default_priority = \<lparr>pa_higher = int_pause, pa_peers = int_stop, pa_lower = int_defer, pa_display = display_show\<rparr>"

fun class_attrs :: "prio_class \<Rightarrow> priority_attrs" where
  "class_attrs (tag, a, _) = (if tag = ''priorityClass'' then priority_create a else default_priority)"

fun assign_class :: "prio_class \<Rightarrow> nat \<Rightarrow> tgraph \<Rightarrow> tgraph" where
  "assign_class (tag, _, ms) prio g =
     (if tag = ''priorityClass''
      then fold (\<lambda>m g. case m of Some k \<Rightarrow> upd k (\<lambda>x. x\<lparr>n_priority := prio\<rparr>) g | None \<Rightarrow> g) ms g
      else g)"

definition built_priorities :: "nat \<Rightarrow> prio_class list \<Rightarrow> tgraph \<Rightarrow> tgraph" where
  "built_priorities n cs g =
     (case cs of
        (tag, _) # _ \<Rightarrow>
          if tag = ''priorityClass''
          then upd n (\<lambda>x. x\<lparr>n_prio_attrs := map class_attrs (rev cs)\<rparr>)
                 (fold (\<lambda>(c, prio) g. assign_class c prio g) (zip cs (rev [0..<length cs])) g)
          else upd n (\<lambda>x. x\<lparr>n_prio_attrs := [default_priority]\<rparr>) g
      | [] \<Rightarrow> upd n (\<lambda>x. x\<lparr>n_prio_attrs := [default_priority]\<rparr>) g)"

section \<open>Interrupts\<close>

text \<open>The only child for which \<open>want\<close> holds; the code asserts that there is no second one.\<close>

definition only_child :: "(time_node \<Rightarrow> bool) \<Rightarrow> nat \<Rightarrow> tgraph \<Rightarrow> (nat option \<times> tgraph) option" where
  "only_child want p g = do {
     ks \<leftarrow> get_children g p;
     Some (fold (\<lambda>k (c, g). if want (tg_node g k) then (Some k, expect p (c = None) g) else (c, g)) ks (None, g)) }"

definition get_active_child :: "nat \<Rightarrow> tgraph \<Rightarrow> (nat option \<times> tgraph) option" where
  "get_active_child = only_child (\<lambda>x. n_active x \<and> \<not> n_paused x)"

definition get_filled_child :: "nat \<Rightarrow> tgraph \<Rightarrow> (nat option \<times> tgraph) option" where
  "get_filled_child = only_child is_filled"

definition prio_in :: "tgraph \<Rightarrow> nat \<Rightarrow> nat" where
  "prio_in g n = n_priority (tg_node g n)"

definition set_queue :: "nat \<Rightarrow> nat list \<Rightarrow> tgraph \<Rightarrow> tgraph" where
  "set_queue p q = upd p (\<lambda>x. x\<lparr>n_queue := q\<rparr>)"

text \<open>What the class of the active child says about an interrupt by this priority.\<close>

definition interrupt_kind :: "priority_attrs \<Rightarrow> nat \<Rightarrow> nat \<Rightarrow> interrupt_type" where
  "interrupt_kind pa interrupting active =
     (if interrupting = active then pa_peers pa
      else if active < interrupting then pa_higher pa
      else pa_lower pa)"

definition interrupt :: "env \<Rightarrow> runner \<Rightarrow> nat \<Rightarrow> nat \<Rightarrow> qtime \<Rightarrow> tgraph \<Rightarrow> tgraph option" where
  "interrupt env run p c ts g = do {
     (act, g) \<leftarrow> get_active_child p g;
     case act of
       None \<Rightarrow> do {
         (filled, g) \<leftarrow> get_filled_child p g;
         g \<leftarrow> (case filled of Some a \<Rightarrow> run (Remove a ts) g | None \<Rightarrow> Some g);
         run (Set_state c ts_active ts p) g }
     | Some a \<Rightarrow>
         let classes = n_prio_attrs (tg_node g p); pc = prio_in g c; pa = prio_in g a
         in if length classes \<le> pc \<or> length classes \<le> pa then None
            else (case interrupt_kind (classes ! pa) pc pa of
                    int_stop \<Rightarrow> do {
                      g \<leftarrow> run (Set_state a ts_postactive ts c) g;
                      g \<leftarrow> (if m_fill (n_attrs (tg_node g a)) = fill_freeze then run (Remove a ts) g else Some g);
                      run (Set_state c ts_active ts c) g }
                  | int_pause \<Rightarrow> do {
                      g \<leftarrow> node_pause env run a ts (pa_display (classes ! pa)) g;
                      run (Set_state c ts_active ts c)
                        (set_queue p (push_pause (prio_in g) a (n_queue (tg_node g p))) g) }
                  | int_defer \<Rightarrow> do {
                      g \<leftarrow> defer_interval run c ts g;
                      Some (set_queue p (push_defer (prio_in g) c (n_queue (tg_node g p))) g) }
                  | int_never \<Rightarrow> do {
                      g \<leftarrow> cancel_interval run c ts g;
                      run (Set_state c ts_postactive ts c) g }) }"

definition on_child_normal_end :: "env \<Rightarrow> runner \<Rightarrow> nat \<Rightarrow> nat \<Rightarrow> qtime \<Rightarrow> tgraph \<Rightarrow> tgraph option" where
  "on_child_normal_end env run p c ts g =
     (case queue_pop (n_queue (tg_node g p)) of
        None \<Rightarrow> Some g
      | Some (nxt, q) \<Rightarrow>
          let g = set_queue p q g
          in if n_paused (tg_node g nxt) then do { g \<leftarrow> run (Remove c ts) g; node_resume env run nxt ts g }
             else if n_deferred (tg_node g nxt) then set_deferred_interval run nxt ts g
             else Some (expect p False g))"

definition excl_remove :: "nat \<Rightarrow> nat \<Rightarrow> tgraph \<Rightarrow> tgraph" where
  "excl_remove p n g = set_queue p (queue_remove n (n_queue (tg_node g p))) g"

definition set_state_ex :: "env \<Rightarrow> runner \<Rightarrow> nat \<Rightarrow> time_state_type \<Rightarrow> qtime \<Rightarrow> tgraph \<Rightarrow> tgraph option" where
  "set_state_ex env run n st ts g =
     (let p = sync_node g n; g = expect n (fst ts = p) g
      in if is_excl (tg_node g p)
         then (if st = ts_active then interrupt env run p n ts g
               else if st = ts_postactive
               then do { g \<leftarrow> run (Set_state n st ts n) g; on_child_normal_end env run p n ts g }
               else Some g)
         else run (Set_state n st ts n) g)"

section \<open>The order of the queue\<close>

lemma sorted_takeWhile:
  "sorted_wrt (\<lambda>a b. f b \<le> f a) q \<Longrightarrow> takeWhile (\<lambda>m. (c::nat) < f m) q = filter (\<lambda>m. c < f m) q"
  "sorted_wrt (\<lambda>a b. f b \<le> f a) q \<Longrightarrow> takeWhile (\<lambda>m. c \<le> f m) q = filter (\<lambda>m. c \<le> f m) q"
  by (induction q) (auto simp: empty_filter_conv)

lemma sorted_dropWhile:
  "sorted_wrt (\<lambda>a b. f b \<le> f a) q \<Longrightarrow> dropWhile (\<lambda>m. (c::nat) < f m) q = filter (\<lambda>m. f m \<le> c) q"
  "sorted_wrt (\<lambda>a b. f b \<le> f a) q \<Longrightarrow> dropWhile (\<lambda>m. c \<le> f m) q = filter (\<lambda>m. f m < c) q"
proof (induction q)
  case (Cons a q)
  { case 1
    with Cons show ?case by (fastforce simp: not_less intro: filter_True [symmetric]) }
  { case 2
    with Cons show ?case by (fastforce simp: not_le intro: filter_True [symmetric]) }
qed simp_all

lemma queue_ok_filter: "queue_ok prio q \<Longrightarrow> queue_ok prio (filter P q)"
  by (simp add: queue_ok_def sorted_wrt_filter)

lemma queue_ok_remove: "queue_ok prio q \<Longrightarrow> queue_ok prio (queue_remove n q)"
  by (simp add: queue_remove_def removeAll_filter_not_eq queue_ok_filter)

lemma queue_ok_pop: "queue_ok prio q \<Longrightarrow> queue_pop q = Some (n, q') \<Longrightarrow> queue_ok prio q'"
  by (auto simp: queue_ok_def queue_pop_def split: list.splits)

lemma push_pause_filter:
  "queue_ok prio q \<Longrightarrow> push_pause prio n q
     = filter (\<lambda>m. prio n < prio m) (queue_remove n q) @ n # filter (\<lambda>m. prio m \<le> prio n) (queue_remove n q)"
  using queue_ok_remove [of prio q n]
  by (simp add: push_pause_def queue_remove_def Let_def queue_ok_def sorted_takeWhile sorted_dropWhile)

lemma push_defer_filter:
  "queue_ok prio q \<Longrightarrow> push_defer prio n q
     = filter (\<lambda>m. prio n \<le> prio m) (queue_remove n q) @ n # filter (\<lambda>m. prio m < prio n) (queue_remove n q)"
  using queue_ok_remove [of prio q n]
  by (simp add: push_defer_def queue_remove_def Let_def queue_ok_def sorted_takeWhile sorted_dropWhile)

lemma queue_ok_push:
  assumes "queue_ok prio q"
  shows "queue_ok prio (push_pause prio n q)" "queue_ok prio (push_defer prio n q)"
proof -
  have ok: "queue_ok prio (queue_remove n q)" and n: "n \<notin> set (queue_remove n q)"
    using queue_ok_remove [OF assms] by (simp_all add: queue_remove_def)
  have sub: "sorted_wrt (\<lambda>a b. prio b \<le> prio a) (filter P (queue_remove n q))" "distinct (filter P (queue_remove n q))" for P
    using queue_ok_filter [OF ok, of P] by (simp_all add: queue_ok_def)
  show "queue_ok prio (push_pause prio n q)"
    unfolding push_pause_filter [OF assms] queue_ok_def using sub n by (auto simp: sorted_wrt_append)
  show "queue_ok prio (push_defer prio n q)"
    unfolding push_defer_filter [OF assms] queue_ok_def using sub n by (auto simp: sorted_wrt_append)
qed

text \<open>
  C5: a paused child goes before the queued children of the same priority and a deferred one behind
  them; both leave the relative order of all others, sorted by priority, as it is.
\<close>

theorem excl_queue_order:
  assumes "queue_ok prio q"
  shows "push_pause prio n q = filter (\<lambda>m. m \<noteq> n \<and> prio n < prio m) q @ n # filter (\<lambda>m. m \<noteq> n \<and> prio m \<le> prio n) q
    \<and> push_defer prio n q = filter (\<lambda>m. m \<noteq> n \<and> prio n \<le> prio m) q @ n # filter (\<lambda>m. m \<noteq> n \<and> prio m < prio n) q
    \<and> queue_ok prio (push_pause prio n q) \<and> queue_ok prio (push_defer prio n q)"
proof -
  have f: "filter P (queue_remove n q) = filter (\<lambda>m. m \<noteq> n \<and> P m) q" for P
    by (auto simp: queue_remove_def removeAll_filter_not_eq intro: filter_cong)
  note ps = push_pause_filter [OF assms, of n, unfolded f] push_defer_filter [OF assms, of n, unfolded f]
  show ?thesis
    using queue_ok_push [OF assms, of n] unfolding ps by simp
qed

theorem excl_queue_order_witness:
  "push_pause (\<lambda>n. n div 10) 25 [31, 21, 22, 12] = [31, 25, 21, 22, 12]
    \<and> push_defer (\<lambda>n. n div 10) 25 [31, 21, 22, 12] = [31, 21, 22, 25, 12]"
  using excl_queue_order [of "\<lambda>n. n div 10" "[31, 21, 22, 12]" 25] by (simp add: queue_ok_def)

end
