(* ===== verification/Time_State.thy ===== *)
theory Time_State
  imports Excl
begin

text \<open>
  The state machine of the time nodes (smil2/time_state.cpp) with the operations of \<open>time_node\<close> that
  enter and leave states, raise events and drive the graph, and \<open>exec_call\<close>, which closes the
  recursion between them.
\<close>

section \<open>Raising events\<close>

definition raise_begin_event :: "runner \<Rightarrow> nat \<Rightarrow> qtime \<Rightarrow> tgraph \<Rightarrow> tgraph option" where
  "raise_begin_event run n ts g = do {
     g \<leftarrow> on_add_instance run n ts tn_begin_event (snd ts) (Int_data 0) None (expect n (fst ts = sync_node g n) g);
     Some (if ln_down g n \<noteq> None \<and> iend (n_interval (tg_node g n)) = indefinite
           then raise_update_event n ts g else g) }"

definition raise_repeat_event :: "runner \<Rightarrow> nat \<Rightarrow> qtime \<Rightarrow> tgraph \<Rightarrow> tgraph option" where
  "raise_repeat_event run n ts g =
     on_add_instance run n ts tn_repeat_event (snd ts) (Int_data (to_int (n_precounter (tg_node g n)))) None
       (expect n (fst ts = sync_node g n) g)"

definition tell_parent :: "nat \<Rightarrow> qtime \<Rightarrow> tgraph \<Rightarrow> tgraph" where
  "tell_parent n ts g =
     (case ln_up g n of
        None \<Rightarrow> g
      | Some p \<Rightarrow>
          let x = tg_node g p;
              g = (if is_par x \<or> is_excl x \<or> is_seq x \<and> ln_next g n = None then raise_update_event p ts g else g)
          in if is_seq x then (case ln_next g n of Some m \<Rightarrow> raise_update_event m ts g | None \<Rightarrow> g) else g)"

definition raise_end_event :: "runner \<Rightarrow> nat \<Rightarrow> qtime \<Rightarrow> nat \<Rightarrow> tgraph \<Rightarrow> tgraph option" where
  "raise_end_event run n ts oproot g = do {
     ts \<leftarrow> (if fst ts \<noteq> sync_node g n then to_node g (sync_node g n) ts else Some ts);
     g \<leftarrow> (let e = iend (n_interval (tg_node g n))
           in if e \<noteq> snd ts
              then do { g \<leftarrow> on_update_instance run n ts tn_end (snd ts) e (Some oproot) g;
                        Some (upd n (\<lambda>x. x\<lparr>n_interval := (n_interval x)\<lparr>iend := snd ts\<rparr>\<rparr>) g) }
              else Some g);
     g \<leftarrow> on_add_instance run n ts tn_end_event (snd ts) (Int_data 0) (Some oproot) g;
     let p = sync_node g n;
     let g = (if is_excl (tg_node g p) \<and> (n_paused (tg_node g n) \<or> n_deferred (tg_node g n))
              then upd n (\<lambda>x. x\<lparr>n_paused := False, n_deferred := False, n_calc_paused := False\<rparr>) (excl_remove p n g)
              else g);
     let g = tell_parent n ts g;
     Some (if is_root g n then emit Done_playback g else g) }"

text \<open>The events of the user, markers and state changes; they differ in the event and its data.\<close>

definition raise_event :: "sync_event \<Rightarrow> event_data \<Rightarrow> runner \<Rightarrow> nat \<Rightarrow> qtime \<Rightarrow> tgraph \<Rightarrow> tgraph option" where
  "raise_event ev d run n ts g = do {
     ts \<leftarrow> to_descendent g (sync_node g n) ts;
     on_add_instance run n ts ev (snd ts) d None g }"

definition raise_activate_event :: "runner \<Rightarrow> nat \<Rightarrow> qtime \<Rightarrow> tgraph \<Rightarrow> tgraph option" where
  "raise_activate_event run n ts g = do {
     g \<leftarrow> raise_event tn_activate_event (Int_data 0) run n ts g;
     Some (if is_link (tg_node g n) then follow_link n g else g) }"

definition raise_inbounds_event where "raise_inbounds_event = raise_event tn_inbounds_event (Int_data 0)"

definition raise_outofbounds_event where "raise_outofbounds_event = raise_event tn_outofbounds_event (Int_data 0)"

definition raise_focusin_event where "raise_focusin_event = raise_event tn_focusin_event (Int_data 0)"

definition raise_focusout_event where "raise_focusout_event = raise_event tn_focusout_event (Int_data 0)"

definition raise_accesskey where "raise_accesskey ch = raise_event accesskey_event (Int_data ch)"

definition raise_marker_event where "raise_marker_event nm = raise_event tn_marker_event (Str_data nm)"

definition raise_state_change :: "string \<Rightarrow> runner \<Rightarrow> nat \<Rightarrow> qtime \<Rightarrow> tgraph \<Rightarrow> tgraph option" where
  "raise_state_change var run n ts g = do {
     ts \<leftarrow> to_ancestor g (sync_node g n) ts;
     on_add_instance run n ts state_change_event (snd ts) (Str_data var) None g }"

section \<open>Removing, filling and resetting\<close>

definition each_child ::
    "(nat \<Rightarrow> qtime \<Rightarrow> tgraph \<Rightarrow> tgraph option) \<Rightarrow> nat \<Rightarrow> qtime \<Rightarrow> tgraph \<Rightarrow> tgraph option" where
  "each_child f n ts g = do {
     ks \<leftarrow> get_children g n;
     q \<leftarrow> as_qtime_down_to g n ts;
     foldm (\<lambda>k. f k q) ks g }"

definition node_remove :: "runner \<Rightarrow> nat \<Rightarrow> qtime \<Rightarrow> tgraph \<Rightarrow> tgraph option" where
  "node_remove run n ts g =
     (if \<not> n_needs_remove (tg_node g n) then Some g
      else do {
        g \<leftarrow> (if ln_down g n \<noteq> None then each_child (\<lambda>k q. run (Remove k q)) n ts g else Some g);
        let x = tg_node g n;
        let g = (if n_animation x then emit (Stop_animation n) g
                 else if n_prefetch x then stop_playable n g
                 else if is_playable x then stop_playable n g else g);
        let g = emit (Node_stopped n) (timer_cmd n (Timer_stop n) g);
        Some (upd n (\<lambda>x. x\<lparr>n_needs_remove := False\<rparr>) g) })"

definition node_fill :: "runner \<Rightarrow> nat \<Rightarrow> qtime \<Rightarrow> tgraph \<Rightarrow> tgraph option" where
  "node_fill run n ts g =
     (if \<not> n_needs_remove (tg_node g n) then Some g
      else let fb = m_fill (n_attrs (tg_node g n))
           in if fb = fill_remove then node_remove run n ts g
              else do {
                let g = emit (Node_filled n) g;
                g \<leftarrow> (if ln_down g n \<noteq> None then each_child (\<lambda>k q. run (Fill k q)) n ts g else Some g);
                let g = (if fb \<noteq> fill_continue \<and> is_playable (tg_node g n) then pause_playable n display_show g else g);
                let g = timer_cmd n (Timer_pause n) g;
                Some (timer_cmd n (Timer_set n (iend (n_interval (tg_node g n)))) g) })"

definition reset_children :: "runner \<Rightarrow> nat \<Rightarrow> qtime \<Rightarrow> nat \<Rightarrow> tgraph \<Rightarrow> tgraph option" where
  "reset_children run n ts oproot = each_child (\<lambda>k q. run (Reset k q oproot)) n ts"

definition startup_children :: "runner \<Rightarrow> nat \<Rightarrow> qtime \<Rightarrow> tgraph \<Rightarrow> tgraph option" where
  "startup_children run n ts = each_child (\<lambda>k q. run (Set_state k ts_proactive q n)) n ts"

definition on_transitioned :: "runner \<Rightarrow> nat \<Rightarrow> qtime \<Rightarrow> tgraph \<Rightarrow> tgraph option" where
  "on_transitioned run n ts g =
     (let x = tg_node g n
      in if n_active x \<or> \<not> n_needs_remove x then Some g
         else if m_fill (n_attrs x) = fill_transition then node_remove run n ts g else Some g)"

section \<open>Repeating\<close>

definition node_repeat :: "runner \<Rightarrow> nat \<Rightarrow> qtime \<Rightarrow> tgraph \<Rightarrow> tgraph option" where
  "node_repeat run n ts g = do {
     g \<leftarrow> raise_repeat_event run n ts g;
     g \<leftarrow> (if ln_down g n \<noteq> None
          then do { g \<leftarrow> reset_children run n ts n g; startup_children run n ts g }
          else Some g);
     Some (if \<not> is_time_container (tg_node g n) then repeat_playable n g else g) }"

text \<open>Whether the repeat registers ask for another iteration.\<close>

definition wants_repeat :: "time_node \<Rightarrow> bool" where
  "wants_repeat x \<longleftrightarrow>
     (let a = n_attrs x
      in specified_rdur a \<and> (m_rdur a = indefinite \<or> n_rad x < m_rdur a)
         \<or> specified_rcount a \<and> (is_rcount_indefinite a \<or> of_int (n_precounter x) < m_rcount a))"

definition count_iteration :: "time_node \<Rightarrow> time_node" where
  "count_iteration x = x\<lparr>n_rad := time_add (n_rad x) (n_last_cdur x), n_precounter := to_long (n_precounter x + 1)\<rparr>"

definition on_eosd :: "runner \<Rightarrow> nat \<Rightarrow> qtime \<Rightarrow> tgraph \<Rightarrow> (bool \<times> tgraph) option" where
  "on_eosd run n ts g =
     (let g = upd n count_iteration g
      in if wants_repeat (tg_node g n)
         then do { g \<leftarrow> node_repeat run n ts g; Some (True, g) }
         else Some (False, g))"

section \<open>Activation\<close>

text \<open>
  Where a node starts within its simple duration, after \<open>ad\<close> of its active duration, and the
  repeat registers.
\<close>

definition start_offset :: "stime \<Rightarrow> stime \<Rightarrow> time_node \<Rightarrow> stime \<times> time_node" where
  "start_offset ad cdur x =
     (if ad = 0 then (0, x)
      else if \<not> is_definite cdur then (ad, x)
      else if cdur = 0 then (0, x)
      else let k = time_mod ad cdur
           in (time_rem ad cdur, x\<lparr>n_precounter := k, n_rad := to_long (k * cdur)\<rparr>))"

definition activate :: "env \<Rightarrow> runner \<Rightarrow> nat \<Rightarrow> qtime \<Rightarrow> tgraph \<Rightarrow> tgraph option" where
  "activate env run n ts g = do {
     let g = expect n (fst ts = sync_node g n) g;
     g \<leftarrow> (if \<not> contains_time (n_interval (tg_node g n)) (snd ts)
          then run (Set_state n ts_postactive ts n) g else Some g);
     let g = expect n (0 \<le> snd ts) g;
     let ad = time_sub (snd ts) (ibegin (n_interval (tg_node g n)));
     (cdur, g) \<leftarrow> node_calc_dur env n g;
     let (sd, x) = start_offset ad cdur (tg_node g n);
     let g = upd n (\<lambda>_. x) g;
     let g = timer_cmd n (Timer_speed n (m_speed (n_attrs x))) (timer_cmd n (Timer_set n ad) g);
     if n_paused x then Some g
     else if n_animation x then Some (timer_cmd n (Timer_resume n) (emit (Start_animation n) g))
     else if n_statecommand x
     then let g = start_statecommand env n g
          in if n_state (tg_node g n) \<noteq> ts_active then Some g
             else Some (timer_cmd n (Timer_resume n)
                    (raise_update_event (sync_node g n) ts (raise_update_event n ts g)))
     else if n_prefetch x
     then let g = start_prefetch env n sd g; g = expect n (n_state (tg_node g n) = ts_active) g
          in Some (timer_cmd n (Timer_resume n) (raise_update_event (sync_node g n) ts (raise_update_event n ts g)))
     else Some (timer_cmd n (Timer_resume n) (start_playable env n sd g)) }"

definition set_interval :: "env \<Rightarrow> runner \<Rightarrow> nat \<Rightarrow> qtime \<Rightarrow> smil_interval \<Rightarrow> tgraph \<Rightarrow> tgraph option" where
  "set_interval env run n ts i g = do {
     let g = expect n (fst ts = sync_node g n) g;
     let g = expect n (n_state (tg_node g n) = ts_proactive \<or> n_state (tg_node g n) = ts_postactive) g;
     let g = expect n (case ln_up g n of Some p \<Rightarrow> n_state (tg_node g p) = ts_active | None \<Rightarrow> True) g;
     let g = (if n_rad (tg_node g n) \<noteq> 0 \<or> n_pad (tg_node g n) \<noteq> 0
              then upd n (\<lambda>x. x\<lparr>n_rad := 0, n_pad := 0, n_precounter := 0\<rparr>) g else g);
     ok \<leftarrow> can_set_interval n ts i g;
     if \<not> ok then Some (raise_update_event n ts g)
     else do {
       g \<leftarrow> on_new_instance run n ts tn_begin (ibegin i) None (set_node_interval n i g);
       g \<leftarrow> on_new_instance run n ts tn_end (iend (n_interval (tg_node g n))) None g;
       let p = sync_node g n;
       let g = (if is_par (tg_node g p) \<or> is_excl (tg_node g p) then raise_update_event p ts g else g);
       let j = n_interval (tg_node g n);
       if interval_before j (snd ts)
       then do {
         g \<leftarrow> played_interval n (expect n (n_state (tg_node g n) = ts_proactive) g);
         run (Set_state n ts_postactive ts n) g }
       else if interval_after j (snd ts) then Some g
       else let g = expect n (contains_time j (snd ts)) g
            in if n_deferred (tg_node g n) then defer_interval run n ts g
               else set_state_ex env run n ts_active ts g } }"

section \<open>The five states\<close>

definition cancel_valid_interval :: "runner \<Rightarrow> nat \<Rightarrow> qtime \<Rightarrow> tgraph \<Rightarrow> tgraph option" where
  "cancel_valid_interval run n ts g =
     (if is_valid (n_interval (tg_node g n)) then cancel_interval run n ts g else Some g)"

definition proactive_kill :: "runner \<Rightarrow> nat \<Rightarrow> qtime \<Rightarrow> nat \<Rightarrow> tgraph \<Rightarrow> tgraph option" where
  "proactive_kill run n ts oproot g = do {
     g \<leftarrow> cancel_valid_interval run n ts g;
     run (Set_state n ts_dead ts oproot) g }"

definition postactive_kill :: "runner \<Rightarrow> nat \<Rightarrow> qtime \<Rightarrow> nat \<Rightarrow> tgraph \<Rightarrow> tgraph option" where
  "postactive_kill run n ts oproot g = do {
     g \<leftarrow> cancel_valid_interval run n ts g;
     run (Set_state n ts_dead ts oproot) g }"

definition state_kill :: "runner \<Rightarrow> nat \<Rightarrow> qtime \<Rightarrow> nat \<Rightarrow> tgraph \<Rightarrow> tgraph option" where
  "state_kill run n ts oproot g =
     (case n_state (tg_node g n) of
        ts_reset \<Rightarrow> run (Set_state n ts_dead ts oproot) g
      | ts_proactive \<Rightarrow> proactive_kill run n ts oproot g
      | ts_active \<Rightarrow> run (Set_state n ts_dead ts oproot) g
      | ts_postactive \<Rightarrow> postactive_kill run n ts oproot g
      | ts_dead \<Rightarrow> Some g)"

definition proactive_reset :: "runner \<Rightarrow> nat \<Rightarrow> qtime \<Rightarrow> nat \<Rightarrow> tgraph \<Rightarrow> tgraph option" where
  "proactive_reset run n ts oproot g = do {
     g \<leftarrow> cancel_valid_interval run n ts g;
     run (Set_state n ts_reset ts oproot) g }"

definition active_reset :: "runner \<Rightarrow> nat \<Rightarrow> qtime \<Rightarrow> nat \<Rightarrow> tgraph \<Rightarrow> tgraph option" where
  "active_reset run n ts oproot g = do {
     g \<leftarrow> node_remove run n ts g;
     g \<leftarrow> run (Set_state n ts_reset ts oproot) g;
     reset_children run n ts oproot g }"

definition postactive_reset :: "runner \<Rightarrow> nat \<Rightarrow> qtime \<Rightarrow> nat \<Rightarrow> tgraph \<Rightarrow> tgraph option" where
  "postactive_reset run n ts oproot g = do {
     g \<leftarrow> cancel_valid_interval run n ts g;
     g \<leftarrow> node_remove run n ts g;
     run (Set_state n ts_reset ts oproot) g }"

definition state_reset :: "runner \<Rightarrow> nat \<Rightarrow> qtime \<Rightarrow> nat \<Rightarrow> tgraph \<Rightarrow> tgraph option" where
  "state_reset run n ts oproot g =
     (case n_state (tg_node g n) of
        ts_reset \<Rightarrow> run (Set_state n ts_reset ts oproot) g
      | ts_proactive \<Rightarrow> proactive_reset run n ts oproot g
      | ts_active \<Rightarrow> active_reset run n ts oproot g
      | ts_postactive \<Rightarrow> postactive_reset run n ts oproot g
      | ts_dead \<Rightarrow> run (Set_state n ts_reset ts oproot) g)"

definition kill_children :: "runner \<Rightarrow> nat \<Rightarrow> qtime \<Rightarrow> nat \<Rightarrow> tgraph \<Rightarrow> tgraph option" where
  "kill_children run n ts oproot =
     each_child (\<lambda>k q g.
       if is_link (tg_node g k) \<and> ln_up g k = Some oproot
       then run (Set_state k ts_postactive q oproot) g
       else state_kill run k q oproot g) n ts"

definition active_exit :: "runner \<Rightarrow> nat \<Rightarrow> qtime \<Rightarrow> nat \<Rightarrow> tgraph \<Rightarrow> tgraph option" where
  "active_exit run n ts oproot g = do {
     g \<leftarrow> node_fill run n ts (upd n (\<lambda>x. x\<lparr>n_active := False\<rparr>) g);
     g \<leftarrow> kill_children run n ts oproot g;
     g \<leftarrow> raise_end_event run n ts oproot g;
     played_interval n g }"

definition state_exit :: "runner \<Rightarrow> nat \<Rightarrow> qtime \<Rightarrow> nat \<Rightarrow> tgraph \<Rightarrow> tgraph option" where
  "state_exit run n ts oproot g =
     (case n_state (tg_node g n) of
        ts_active \<Rightarrow> active_exit run n ts oproot g
      | ts_dead \<Rightarrow> node_remove run n ts g
      | _ \<Rightarrow> Some g)"

definition reset_fields :: "time_node \<Rightarrow> time_node" where
  "reset_fields x = x\<lparr>n_interval := interval_unresolved, n_active := False, n_needs_remove := False,
     n_last_cdur := unresolved, n_rad := 0, n_pad := 0, n_precounter := 0, n_impldur := unresolved,
     n_history := []\<rparr>"

text \<open>The element before this one in a "seq" is removed unless its fill behaviour keeps it.\<close>

definition remove_previous :: "runner \<Rightarrow> nat \<Rightarrow> qtime \<Rightarrow> tgraph \<Rightarrow> tgraph option" where
  "remove_previous run n ts g =
     (case ln_up g n of
        None \<Rightarrow> Some g
      | Some p \<Rightarrow>
          if \<not> is_seq (tg_node g p) then Some g
          else do {
            prev \<leftarrow> previous g n;
            case prev of
              None \<Rightarrow> Some g
            | Some k \<Rightarrow>
                if m_fill (n_attrs (tg_node g k)) \<noteq> fill_hold \<and> m_fill (n_attrs (tg_node g k)) \<noteq> fill_transition
                then run (Remove k ts) g else Some g })"

text \<open>Content control and the \<open>expr\<close> attribute decide whether an element is skipped.\<close>

definition skipped :: "env \<Rightarrow> nat \<Rightarrow> tgraph \<Rightarrow> bool" where
  "skipped env n g \<longleftrightarrow>
     e_dynamic_content env \<and> \<not> n_hyperjump (tg_node g n) \<and> \<not> e_selected env (tg_log g) n
     \<or> (case n_dom (tg_node g n) ''expr'' of
          Some e \<Rightarrow> e_state_engine env \<and> \<not> e_bool_expression env (tg_log g) e | None \<Rightarrow> False)"

definition active_enter :: "env \<Rightarrow> runner \<Rightarrow> nat \<Rightarrow> qtime \<Rightarrow> tgraph \<Rightarrow> tgraph option" where
  "active_enter env run n ts g = do {
     g \<leftarrow> remove_previous run n ts (upd n (\<lambda>x. x\<lparr>n_active := True, n_needs_remove := True\<rparr>) g);
     if skipped env n g then run (Set_state n ts_postactive ts n) g
     else do {
       g \<leftarrow> reset_children run n ts n (node_started n g);
       g \<leftarrow> activate env run n ts g;
       g \<leftarrow> startup_children run n ts g;
       raise_begin_event run n ts g } }"

definition proactive_enter :: "env \<Rightarrow> runner \<Rightarrow> nat \<Rightarrow> qtime \<Rightarrow> tgraph \<Rightarrow> tgraph option" where
  "proactive_enter env run n ts g = do {
     (i, g) \<leftarrow> node_first_interval env n g;
     if is_valid i then set_interval env run n ts i g else Some g }"

definition postactive_enter :: "env \<Rightarrow> runner \<Rightarrow> nat \<Rightarrow> qtime \<Rightarrow> tgraph \<Rightarrow> tgraph option" where
  "postactive_enter env run n ts g =
     (if is_seq (tg_node g (sync_node g n)) then run (Set_state n ts_dead ts (sync_node g n)) g
      else if m_restart (n_attrs (tg_node g n)) = restart_never then Some g
      else do {
        (i, g) \<leftarrow> node_next_interval env n interval_unresolved g;
        if is_valid i then set_interval env run n ts i g else Some g })"

definition state_enter :: "env \<Rightarrow> runner \<Rightarrow> nat \<Rightarrow> time_state_type \<Rightarrow> qtime \<Rightarrow> tgraph \<Rightarrow> tgraph option" where
  "state_enter env run n st ts g =
     (case st of
        ts_reset \<Rightarrow> Some (upd n reset_fields g)
      | ts_proactive \<Rightarrow> proactive_enter env run n ts g
      | ts_active \<Rightarrow> active_enter env run n ts g
      | ts_postactive \<Rightarrow> postactive_enter env run n ts g
      | ts_dead \<Rightarrow> Some g)"

definition set_state :: "env \<Rightarrow> runner \<Rightarrow> nat \<Rightarrow> time_state_type \<Rightarrow> qtime \<Rightarrow> nat \<Rightarrow> tgraph \<Rightarrow> tgraph option" where
  "set_state env run n st ts oproot g =
     (if n_state (tg_node g n) = st then Some g
      else do {
        g \<leftarrow> (if n_state (tg_node g n) = ts_postactive \<and> st = ts_active then node_remove run n ts g else Some g);
        g \<leftarrow> state_exit run n ts oproot g;
        state_enter env run n st ts (upd n (\<lambda>x. x\<lparr>n_state := st\<rparr>) g) })"

text \<open>The reaction to a new interval of an element that waits for one, or has one planned.\<close>

definition replan :: "env \<Rightarrow> runner \<Rightarrow> nat \<Rightarrow> qtime \<Rightarrow> smil_interval \<Rightarrow> tgraph \<Rightarrow> tgraph option" where
  "replan env run n ts i g =
     (let old = n_interval (tg_node g n)
      in if is_valid old \<and> is_valid i \<and> \<not> interval_eq i old then update_interval run n ts i g
         else if is_valid old \<and> \<not> is_valid i then cancel_interval run n ts g
         else if \<not> is_valid old \<and> is_valid i then set_interval env run n ts i g
         else Some g)"

definition active_sync_update :: "env \<Rightarrow> runner \<Rightarrow> nat \<Rightarrow> qtime \<Rightarrow> tgraph \<Rightarrow> tgraph option" where
  "active_sync_update env run n ts g = do {
     (e, g) \<leftarrow> node_current_end env n g;
     g \<leftarrow> (if e \<noteq> iend (n_interval (tg_node g n)) then update_interval_end run n ts e g else Some g);
     if m_restart (n_attrs (tg_node g n)) = restart_always \<and> \<not> is_seq (tg_node g (sync_node g n))
     then do {
       (i, g) \<leftarrow> node_next_interval env n (mk_interval (ibegin (n_interval (tg_node g n))) (snd ts)) g;
       if is_valid i
       then do { g \<leftarrow> run (Set_state n ts_postactive ts n) g; run (Sync_update n ts) g }
       else Some g }
     else Some g }"

definition proactive_sync_update :: "env \<Rightarrow> runner \<Rightarrow> nat \<Rightarrow> qtime \<Rightarrow> tgraph \<Rightarrow> tgraph option" where
  "proactive_sync_update env run n ts g = do {
     (i, g) \<leftarrow> node_first_interval env n g;
     replan env run n ts i g }"

definition postactive_sync_update :: "env \<Rightarrow> runner \<Rightarrow> nat \<Rightarrow> qtime \<Rightarrow> tgraph \<Rightarrow> tgraph option" where
  "postactive_sync_update env run n ts g =
     (if m_restart (n_attrs (tg_node g n)) = restart_never then Some g
      else do { (i, g) \<leftarrow> node_next_interval env n interval_unresolved g; replan env run n ts i g })"

definition state_sync_update :: "env \<Rightarrow> runner \<Rightarrow> nat \<Rightarrow> qtime \<Rightarrow> tgraph \<Rightarrow> tgraph option" where
  "state_sync_update env run n ts g =
     (case n_state (tg_node g n) of
        ts_proactive \<Rightarrow> proactive_sync_update env run n ts g
      | ts_active \<Rightarrow> active_sync_update env run n ts g
      | ts_postactive \<Rightarrow> postactive_sync_update env run n ts g
      | _ \<Rightarrow> Some g)"

fun time_state_str :: "time_state_type \<Rightarrow> string" where
  "time_state_str ts_reset = ''reset''"
| "time_state_str ts_proactive = ''proactive''"
| "time_state_str ts_active = ''active''"
| "time_state_str ts_postactive = ''postactive''"
| "time_state_str ts_dead = ''dead''"

definition node_sync_update :: "env \<Rightarrow> runner \<Rightarrow> nat \<Rightarrow> qtime \<Rightarrow> tgraph \<Rightarrow> tgraph option" where
  "node_sync_update env run n ts g = do {
     pt \<leftarrow> as_node_time g (sync_node g n) ts;
     if is_resolved pt then state_sync_update env run n (sync_node g n, pt) g else Some g }"

definition node_reset :: "runner \<Rightarrow> nat \<Rightarrow> qtime \<Rightarrow> nat \<Rightarrow> tgraph \<Rightarrow> tgraph option" where
  "node_reset run n ts oproot g = do {
     g \<leftarrow> reset_children run n ts oproot g;
     g \<leftarrow> state_reset run n ts oproot g;
     let g = timer_cmd n (Timer_stop n) g;
     g \<leftarrow> foldm (\<lambda>r. rule_reset r (Some oproot)) (n_begin_list (tg_node g n)) g;
     foldm (\<lambda>r. rule_reset r (Some oproot)) (n_end_list (tg_node g n)) g }"

section \<open>Closing the recursion\<close>

definition call_body :: "env \<Rightarrow> runner \<Rightarrow> call \<Rightarrow> tgraph \<Rightarrow> tgraph option" where
  "call_body env run c g =
     (case c of
        Set_state n st ts oproot \<Rightarrow> set_state env run n st ts oproot g
      | Sync_update n ts \<Rightarrow> node_sync_update env run n ts g
      | Remove n ts \<Rightarrow> node_remove run n ts g
      | Fill n ts \<Rightarrow> node_fill run n ts g
      | Reset n ts oproot \<Rightarrow> node_reset run n ts oproot g
      | Set_interval n ts i \<Rightarrow> set_interval env run n ts i g)"

text \<open>The depth of the calls is bounded; \<open>None\<close> is a deeper nesting, or what the calls fail with.\<close>

primrec exec_call :: "env \<Rightarrow> nat \<Rightarrow> call \<Rightarrow> tgraph \<Rightarrow> tgraph option" where
  "exec_call env 0 c g = None"
| "exec_call env (Suc k) c g = call_body env (exec_call env k) c g"

section \<open>Repeating and activating\<close>

lemma count_iterations:
  assumes "n_precounter x = 0" "int n \<le> 2 ^ 62"
  shows "n_precounter ((count_iteration ^^ n) x) = int n \<and> n_attrs ((count_iteration ^^ n) x) = n_attrs x"
  using assms(2)
proof (induction n)
  case (Suc n)
  then have "is_long (int n + 1)" by (simp add: c_arith)
  with Suc show ?case by (simp add: count_iteration_def add.commute)
qed (simp add: assms(1))

text \<open>
  An element with a definite \<open>repeatCount\<close> and no \<open>repeatDur\<close> plays as many iterations as the
  count says, rounded up: after that many ends of its simple duration, and not before, it is done.
\<close>

theorem repeat_count_iterations:
  assumes "specified_rcount (n_attrs x)" "\<not> specified_rdur (n_attrs x)" "\<not> is_rcount_indefinite (n_attrs x)"
    and "n_precounter x = 0" "0 < m_rcount (n_attrs x)" "m_rcount (n_attrs x) \<le> 2 ^ 62"
    and "n \<le> nat \<lceil>m_rcount (n_attrs x)\<rceil>"
  shows "wants_repeat ((count_iteration ^^ n) x) \<longleftrightarrow> n < nat \<lceil>m_rcount (n_attrs x)\<rceil>"
proof -
  have "\<lceil>m_rcount (n_attrs x)\<rceil> \<le> 2 ^ 62" using assms(6) by (simp add: ceiling_le_iff)
  moreover have "0 \<le> \<lceil>m_rcount (n_attrs x)\<rceil>" using assms(5) by simp
  ultimately have "int n \<le> 2 ^ 62" using assms(7) by linarith
  from count_iterations [OF assms(4) this] assms(1-3)
  have "wants_repeat ((count_iteration ^^ n) x) \<longleftrightarrow> of_int (int n) < m_rcount (n_attrs x)"
    by (simp add: wants_repeat_def Let_def)
  also have "\<dots> \<longleftrightarrow> int n < \<lceil>m_rcount (n_attrs x)\<rceil>" by (simp only: less_ceiling_iff)
  also have "\<dots> \<longleftrightarrow> n < nat \<lceil>m_rcount (n_attrs x)\<rceil>" by linarith
  finally show ?thesis .
qed

definition repeating_node :: time_node where
  "repeating_node = (mk_time_node tc_none (plain_attrs\<lparr>m_rcount := 5 / 2, m_spflags := SP_RCOUNT\<rparr>)
     ''m'' ''video'' Map.empty)\<lparr>n_last_cdur := 1000\<rparr>"

theorem repeat_count_iterations_witness:
  "wants_repeat ((count_iteration ^^ 2) repeating_node) \<and> \<not> wants_repeat ((count_iteration ^^ 3) repeating_node)"
proof -
  have "specified_rcount (n_attrs repeating_node)" "\<not> specified_rdur (n_attrs repeating_node)"
    "\<not> is_rcount_indefinite (n_attrs repeating_node)" "n_precounter repeating_node = 0"
    "0 < m_rcount (n_attrs repeating_node)" "m_rcount (n_attrs repeating_node) \<le> 2 ^ 62" "nat \<lceil>m_rcount (n_attrs repeating_node)\<rceil> = 3"
    by (code_simp)+
  with repeat_count_iterations [of repeating_node 2] repeat_count_iterations [of repeating_node 3]
  show ?thesis by simp
qed



section \<open>Resetting a deferred element\<close>

text \<open>
  An element that is deferred in the queue of its "excl" and has not begun is reset: it stays in
  the queue and stays deferred. The comment of \<open>repeat\<close> says that resetting the children empties the
  queue.
\<close>

theorem reset_keeps_deferred:
  assumes "n_state (tg_node g n) = ts_proactive" "n_deferred (tg_node g n)" "n_interval (tg_node g n) = interval_unresolved"
    and "ln_down g n = None" "p \<noteq> n" "n_begin_list (tg_node g n) = []" "n_end_list (tg_node g n) = []"
    and "as_qtime_down_to g n ts \<noteq> None"
  shows "\<exists>g'. exec_call env (Suc (Suc k)) (Reset n ts oproot) g = Some g'
    \<and> n_state (tg_node g' n) = ts_reset \<and> n_deferred (tg_node g' n) \<and> n_queue (tg_node g' p) = n_queue (tg_node g p)"
proof -
  let ?g = "upd n reset_fields (upd n (\<lambda>x. x\<lparr>n_state := ts_reset\<rparr>) g)"
  obtain q where "as_qtime_down_to g n ts = Some q" using assms(8) by auto
  then have kids: "reset_children run n ts oproot g = Some g" for run
    using assms(4) by (simp add: reset_children_def each_child_def get_children_def)
  have "\<not> is_valid interval_unresolved" by (simp add: is_valid_def interval_unresolved_def mk_interval_def time_kinds)
  then have "state_reset (exec_call env (Suc k)) n ts oproot g = Some ?g"
    using assms(1,3) by (simp add: state_reset_def proactive_reset_def cancel_valid_interval_def call_body_def set_state_def state_exit_def state_enter_def)
  with kids have "exec_call env (Suc (Suc k)) (Reset n ts oproot) g = Some (timer_cmd n (Timer_stop n) ?g)"
    unfolding exec_call.simps(2) [of env "Suc k"] call_body_def node_reset_def
    using assms(6,7) by (simp add: timer_cmd_def emit_def upd_def reset_fields_def del: exec_call.simps)
  then show ?thesis
    using assms(2,5) by (simp add: timer_cmd_def emit_def upd_def reset_fields_def)
qed

text \<open>A player that answers nothing.\<close>

definition quiet_env :: env where
  "quiet_env = \<lparr>e_dur = (\<lambda>_ _. (False, 0)), e_wait_for_eom = False, e_dynamic_content = False,
     e_selected = (\<lambda>_ _. True), e_state_engine = False, e_bool_expression = (\<lambda>_ _. True),
     e_is_submission = (\<lambda>_. False), e_has_player = (\<lambda>_. True), e_elapsed = (\<lambda>_ _. 0), e_clock = (\<lambda>_. 0)\<rparr>"

definition idle_rule :: sync_rule where
  "idle_rule = \<lparr>r_kind = trigger_rule, r_target = 0, r_target_attr = rt_begin, r_syncbase = 0,
     r_event = tn_begin, r_refnode = None, r_offset = 0, r_selector = 0, r_str_selector = [],
     r_locked = False, r_instances = []\<rparr>"

text \<open>An "excl" whose second child is deferred and queued.\<close>

definition deferred_graph :: tgraph where
  "deferred_graph =
     \<lparr>ln_up = [2 \<mapsto> 1, 3 \<mapsto> 1], ln_down = [1 \<mapsto> 2], ln_next = [2 \<mapsto> 3], ln_live = {1, 2, 3},
      tg_node = (\<lambda>n.
         if n = 1 then (mk_time_node tc_excl plain_attrs ''e'' ''excl'' Map.empty)\<lparr>n_state := ts_active, n_queue := [3]\<rparr>
         else (mk_time_node tc_none plain_attrs ''b'' ''video'' Map.empty)\<lparr>n_state := ts_proactive, n_deferred := True\<rparr>),
      tg_rule = (\<lambda>_. idle_rule), tg_log = [], tg_next_rule = 0\<rparr>"

theorem reset_keeps_deferred_witness:
  "\<exists>g'. exec_call quiet_env 2 (Reset 3 (1, 0) 1) deferred_graph = Some g'
    \<and> n_state (tg_node g' 3) = ts_reset \<and> n_deferred (tg_node g' 3) \<and> n_queue (tg_node g' 1) = [3]"
proof -
  have "as_qtime_down_to deferred_graph 3 (1, 0) \<noteq> None"
    by (simp add: as_qtime_down_to_def as_time_down_to_def deferred_graph_def)
  with reset_keeps_deferred [of deferred_graph 3 1 "(1, 0)" quiet_env 0 1] show ?thesis
    by (simp add: deferred_graph_def mk_time_node_def numeral_2_eq_2 del: exec_call.simps)
qed

end
