(* ===== verification/Time_Driver.thy ===== *)
theory Time_Driver
  imports Time_State
begin

text \<open>
  How the outside drives the time nodes (smil2/time_node.cpp): the notifications of playables, the
  collection of pending events, \<open>exec\<close>, and starting, stopping and resetting the document.
\<close>

section \<open>Notifications of playables\<close>

definition on_bom :: "nat \<Rightarrow> tgraph \<Rightarrow> tgraph" where
  "on_bom n g =
     (if n_saw_bom (tg_node g n) \<or> n_saw_eom (tg_node g n) then g
      else timer_cmd n (Timer_resume n) (upd n (\<lambda>x. x\<lparr>n_saw_bom := True, n_eom := False\<rparr>) g))"

definition on_pom :: "nat \<Rightarrow> tgraph \<Rightarrow> tgraph" where
  "on_pom n = timer_cmd n (Timer_pause n)"

definition on_rom :: "nat \<Rightarrow> tgraph \<Rightarrow> tgraph" where
  "on_rom n = timer_cmd n (Timer_resume n)"

definition on_eom :: "nat \<Rightarrow> qtime \<Rightarrow> tgraph \<Rightarrow> tgraph option" where
  "on_eom n ts g = do {
     let g = (if n_saw_bom (tg_node g n) then g else on_bom n g);
     let g = upd n (\<lambda>x. x\<lparr>n_saw_eom := True, n_eom := True\<rparr>) g;
     if \<not> is_playable (tg_node g n) then Some g
     else do {
       g \<leftarrow> (if n_impldur (tg_node g n) = unresolved
            then do { pt \<leftarrow> as_node_time g (sync_node g n) ts;
                      Some (upd n (\<lambda>x. x\<lparr>n_impldur := time_sub pt (ibegin (n_interval x))\<rparr>) g) }
            else Some g);
       Some (if n_state (tg_node g n) = ts_active
             then raise_update_event (sync_node g n) ts (raise_update_event n ts g) else g) } }"

definition get_simple_time :: "env \<Rightarrow> nat \<Rightarrow> tgraph \<Rightarrow> stime" where
  "get_simple_time env n g =
     (let x = tg_node g n
      in if \<not> n_has_timer x then 0 else time_sub (e_elapsed env (tg_log g) n) (n_rad x))"

definition get_time :: "env \<Rightarrow> nat \<Rightarrow> tgraph \<Rightarrow> stime" where
  "get_time env n g =
     (let x = tg_node g n
      in if \<not> n_has_timer x then 0 else to_long (e_elapsed env (tg_log g) n + n_pad x))"

definition set_ffwd_mode :: "nat \<Rightarrow> bool \<Rightarrow> tgraph \<Rightarrow> tgraph" where
  "set_ffwd_mode n b g =
     (let g = upd n (\<lambda>x. x\<lparr>n_ffwd := b\<rparr>) g
      in if b \<and> is_playable (tg_node g n) then stop_playable n g else g)"

definition set_hyperjump_mode :: "nat \<Rightarrow> bool \<Rightarrow> tgraph \<Rightarrow> tgraph" where
  "set_hyperjump_mode n b = upd n (\<lambda>x. x\<lparr>n_hyperjump := b\<rparr>)"

definition sync_playable_clock :: "env \<Rightarrow> nat \<Rightarrow> tgraph \<Rightarrow> tgraph" where
  "sync_playable_clock env n g =
     (if \<not> is_playable (tg_node g n) then g
      else emit (Seek_playable n (time_sub (get_simple_time env n g) (ibegin (n_interval (tg_node g n))))) g)"

section \<open>End conditions\<close>

definition end_sync_applicable :: "time_node \<Rightarrow> bool" where
  "end_sync_applicable x \<longleftrightarrow>
     is_time_container x \<and> \<not> (\<not> has_dur_specifier (n_attrs x) \<and> specified_end (n_attrs x))
     \<and> m_dur_type (n_attrs x) \<in> {dt_unspecified, dt_media}"

fun first_with_id :: "string \<Rightarrow> time_node list \<Rightarrow> bool" where
  "first_with_id i [] = False"
| "first_with_id i (c # cl) = (if i = n_id c then played c else first_with_id i cl)"

definition container_end_sync :: "time_node \<Rightarrow> time_node list \<Rightarrow> bool" where
  "container_end_sync x cl =
     (case m_endsync_rule (n_attrs x) of
        esr_first \<Rightarrow> list_ex played cl
      | esr_id \<Rightarrow> first_with_id (m_endsync_ident (n_attrs x)) cl
      | esr_last \<Rightarrow> list_all (\<lambda>c. n_ffwd x \<and> is_cmedia c \<or> \<not> is_valid (n_interval c)) cl
      | esr_all \<Rightarrow> list_all (\<lambda>c. \<not> is_valid (n_interval c) \<and> played c) cl
      | esr_media \<Rightarrow> False)"

definition end_sync_cond :: "nat \<Rightarrow> tgraph \<Rightarrow> (bool \<times> tgraph) option" where
  "end_sync_cond n g =
     (if is_seq (tg_node g n)
      then do { c \<leftarrow> last_child g n;
                Some (case c of None \<Rightarrow> True | Some k \<Rightarrow> played (tg_node g k), g) }
      else do { ks \<leftarrow> get_children g n;
                Some (container_end_sync (tg_node g n) (map (tg_node g) ks),
                      expect n (m_endsync_rule (n_attrs (tg_node g n)) \<noteq> esr_media) g) })"

definition begin_cond :: "time_node \<Rightarrow> qtime \<Rightarrow> bool" where
  "begin_cond x ts \<longleftrightarrow> is_valid (n_interval x) \<and> contains_time (n_interval x) (snd ts)"

definition end_cond :: "env \<Rightarrow> nat \<Rightarrow> qtime \<Rightarrow> tgraph \<Rightarrow> (bool \<times> tgraph) option" where
  "end_cond env n ts g = do {
     let g = expect n (n_active (tg_node g n)) (expect n (fst ts = sync_node g n) g);
     let x = tg_node g n;
     let a = n_attrs x;
     let applicable = end_sync_applicable x;
     (ec, g) \<leftarrow> (if applicable then end_sync_cond n g else Some (False, g));
     let tc = (\<not> applicable \<and> get_interval_end x \<le> snd ts);
     let specified_dur = (specified_dur a \<or> specified_rdur a);
     let tc = (tc \<or> \<not> specified_dur \<and> (n_statecommand x \<or> n_prefetch x));
     let tc = (tc \<and> \<not> (is_cmedia x \<and> \<not> n_animation x \<and> \<not> n_statecommand x \<and> \<not> n_prefetch x
                   \<and> \<not> specified_dur \<and> n_uses_dur x \<and> e_wait_for_eom env \<and> \<not> n_eom x));
     Some (ec \<or> tc, g) }"

section \<open>Pending events\<close>

text \<open>The events of the node itself, as pairs of a document time and the node.\<close>

definition own_events :: "tgraph \<Rightarrow> nat \<Rightarrow> (stime \<times> nat) list option" where
  "own_events g n = do {
     let x = tg_node g n;
     let i = n_interval x;
     let p = sync_node g n;
     es \<leftarrow> (if \<not> is_valid i then Some []
           else if \<not> n_active x then do { t \<leftarrow> as_doc_time g (p, ibegin i); Some [(t, n)] }
           else if is_definite (iend i)
           then do {
             t \<leftarrow> as_doc_time g (p, get_interval_end x);
             if (specified_rdur (n_attrs x) \<or> specified_rcount (n_attrs x))
                \<and> is_definite (n_last_cdur x) \<and> n_last_cdur x \<noteq> 0
             then do { u \<leftarrow> as_doc_time g (n, n_last_cdur x); Some [(t, n), (u, n)] }
             else Some [(t, n)] }
           else Some []);
     us \<leftarrow> (if fst (n_update x) then do { t \<leftarrow> as_doc_time g (snd (n_update x)); Some [(t, n)] } else Some []);
     os \<leftarrow> (case n_transout x of
             Some r \<Rightarrow>
               if n_ffwd x then Some []
               else do { ts \<leftarrow> rule_instance_times g r [];
                         case ts of [] \<Rightarrow> Some [] | t # _ \<Rightarrow> do { u \<leftarrow> as_doc_time g (p, t); Some [(u, n)] } }
           | None \<Rightarrow> Some []);
     Some (es @ us @ os) }"

text \<open>The events of a branch; \<open>k\<close> bounds the depth of the branch.\<close>

primrec get_pending_events :: "nat \<Rightarrow> tgraph \<Rightarrow> nat \<Rightarrow> (stime \<times> nat) list \<Rightarrow> (stime \<times> nat) list option" where
  "get_pending_events 0 g n events = None"
| "get_pending_events (Suc k) g n events =
     (let x = tg_node g n
      in if \<not> is_alive x \<or> n_paused x \<or> n_deferred x then Some events
         else do { es \<leftarrow> own_events g n; ks \<leftarrow> get_children g n;
                   foldm (get_pending_events k g) ks (events @ es) })"

section \<open>Executing a node\<close>

definition begin_transout :: "nat \<Rightarrow> qtime \<Rightarrow> tgraph \<Rightarrow> tgraph option" where
  "begin_transout n ts g =
     (case n_transout (tg_node g n) of
        None \<Rightarrow> Some g
      | Some r \<Rightarrow> do {
          l \<leftarrow> rule_instance_times g r [];
          case l of
            [] \<Rightarrow> Some g
          | t # _ \<Rightarrow> if t \<le> snd ts then rule_reset r None (emit (Start_transition n) g) else Some g })"

definition active_exec :: "env \<Rightarrow> runner \<Rightarrow> nat \<Rightarrow> qtime \<Rightarrow> tgraph \<Rightarrow> tgraph option" where
  "active_exec env run n ts g = do {
     g \<leftarrow> begin_transout n ts g;
     (ended, g) \<leftarrow> end_cond env n ts g;
     if ended
     then do {
       let e = iend (n_interval (tg_node g n));
       let q = (sync_node g n, if is_definite e then e else snd ts);
       t \<leftarrow> as_time_down_to g n ts;
       (again, g) \<leftarrow> on_eosd run n ts (upd n (\<lambda>x. x\<lparr>n_last_cdur := t\<rparr>) g);
       if again then Some g else set_state_ex env run n ts_postactive q g }
     else do {
       let a = n_attrs (tg_node g n);
       t \<leftarrow> as_time_down_to g n ts;
       let g = (if (specified_rdur a \<or> specified_rcount a) \<and> \<not> is_definite (n_last_cdur (tg_node g n))
                   \<and> n_eom (tg_node g n)
                then upd n (\<lambda>x. x\<lparr>n_last_cdur := t\<rparr>) g else g);
       let c = n_last_cdur (tg_node g n);
       if is_definite c \<and> c \<noteq> 0 \<and> c \<le> t then map_option snd (on_eosd run n ts g) else Some g } }"

definition node_exec :: "env \<Rightarrow> runner \<Rightarrow> nat \<Rightarrow> qtime \<Rightarrow> tgraph \<Rightarrow> tgraph option" where
  "node_exec env run n ts g =
     (if \<not> is_alive (tg_node g n) then Some g
      else do {
        g \<leftarrow> (case n_update (tg_node g n) of
               (True, q) \<Rightarrow> do { g \<leftarrow> node_sync_update env run n q g;
                                 Some (upd n (\<lambda>x. x\<lparr>n_update := (False, snd (n_update x))\<rparr>) g) }
             | (False, _) \<Rightarrow> Some g);
        ts \<leftarrow> to_node g (sync_node g n) ts;
        let g = expect n (fst ts = sync_node g n) g;
        if n_active (tg_node g n) then active_exec env run n ts g
        else if begin_cond (tg_node g n) ts
        then (if n_deferred (tg_node g n) then defer_interval run n ts g
              else set_state_ex env run n ts_active ts g)
        else Some g })"

section \<open>The document\<close>

definition domcall_rule :: "nat \<Rightarrow> tgraph \<Rightarrow> (nat \<times> tgraph) option" where
  "domcall_rule n g =
     (case n_domcall (tg_node g n) of
        Some r \<Rightarrow> Some (r, g)
      | None \<Rightarrow> do {
          let (r, g) = new_rule event_rule n tn_dom_call 0 0 [] g;
          g \<leftarrow> add_begin_rule n r (upd n (\<lambda>x. x\<lparr>n_domcall := Some r\<rparr>) g);
          Some (r, g) })"

definition node_start :: "env \<Rightarrow> runner \<Rightarrow> nat \<Rightarrow> tgraph \<Rightarrow> tgraph option" where
  "node_start env run n g = do {
     (r, g) \<leftarrow> domcall_rule n g;
     let ts = (sync_node g n, 0);
     g \<leftarrow> (if \<not> is_alive (tg_node g n) then run (Set_state n ts_proactive ts n) g else Some g);
     g \<leftarrow> rule_add_instance run r ts 0 (Int_data 0) g;
     node_exec env run n ts g }"

definition node_stop :: "env \<Rightarrow> runner \<Rightarrow> nat \<Rightarrow> tgraph \<Rightarrow> tgraph option" where
  "node_stop env run n g = node_reset run n (n, get_simple_time env n g) n g"

definition kill_blockers :: "runner \<Rightarrow> nat \<Rightarrow> qtime \<Rightarrow> tgraph \<Rightarrow> tgraph option" where
  "kill_blockers run n ts g =
     foldm (\<lambda>r g.
       let b = r_syncbase (tg_rule g r)
       in if is_alive (tg_node g b) \<and> r_event (tg_rule g r) = tn_end
          then run (Set_state b ts_postactive ts b) g else Some g) (n_begin_list (tg_node g n)) g"

definition initial_fields :: "time_node \<Rightarrow> time_node" where
  "initial_fields x = x\<lparr>n_state := ts_reset, n_interval := interval_unresolved, n_history := [],
     n_doc_history := [], n_active := False, n_needs_remove := False, n_rad := 0, n_precounter := 0,
     n_eom := False, n_paused := False, n_pad := 0, n_paused_sync_time := 0, n_deferred := False,
     n_update := (False, snd (n_update x)), n_begin_inst := unresolved, n_impldur := unresolved,
     n_last_cdur := unresolved\<rparr>"

definition meta_reset :: "nat \<Rightarrow> tgraph \<Rightarrow> tgraph option" where
  "meta_reset n g = do {
     let g = (if n_needs_remove (tg_node g n) then stop_playable n g else g);
     let g = upd n initial_fields (timer_cmd n (Timer_stop n) g);
     g \<leftarrow> foldm (\<lambda>r. rule_reset r None) (n_begin_list (tg_node g n)) g;
     g \<leftarrow> foldm (\<lambda>r. rule_reset r None) (n_end_list (tg_node g n)) g;
     case n_domcall (tg_node g n) of Some r \<Rightarrow> rule_reset r None g | None \<Rightarrow> Some g }"

end
