(* ===== verification/Time_Frame.thy ===== *)
theory Time_Frame
  imports Time_Driver
begin

text \<open>
  What the operations of the time graph leave alone. A relation between graphs that holds for every
  elementary step is kept by every operation, however deep the calls nest: the locale \<open>kept\<close> states
  the elementary steps, \<open>kept_run\<close> proves the operations one by one for an interpreter that keeps
  the relation, and the induction over the depth of calls closes the circle. Two relations are
  instances: the structure of the graph stays (with the log and the histories growing), and the
  queues of the "excl" elements stay in order.
\<close>

section \<open>Results related to a first graph\<close>

definition okg :: "(tgraph \<Rightarrow> tgraph \<Rightarrow> bool) \<Rightarrow> tgraph \<Rightarrow> tgraph option \<Rightarrow> bool" where
  "okg R g0 m \<longleftrightarrow> (\<forall>g. m = Some g \<longrightarrow> R g0 g)"

definition okp :: "(tgraph \<Rightarrow> tgraph \<Rightarrow> bool) \<Rightarrow> tgraph \<Rightarrow> ('a \<times> tgraph) option \<Rightarrow> bool" where
  "okp R g0 m \<longleftrightarrow> (\<forall>x g. m = Some (x, g) \<longrightarrow> R g0 g)"

named_theorems keeps "results that stay related to the first graph"

lemma okg_Some [keeps]: "R g0 g \<Longrightarrow> okg R g0 (Some g)"
  and okg_None [keeps]: "okg R g0 None"
  and okp_Some [keeps]: "R g0 g \<Longrightarrow> okp R g0 (Some (x, g))"
  and okp_None [keeps]: "okp R g0 None"
  by (simp_all add: okg_def okp_def)

lemma okg_bind [keeps]: "okg R g0 m \<Longrightarrow> (\<And>g. R g0 g \<Longrightarrow> okg R g0 (f g)) \<Longrightarrow> okg R g0 (Option.bind m f)"
  and okp_bind [keeps]: "okg R g0 m \<Longrightarrow> (\<And>g. R g0 g \<Longrightarrow> okp R g0 (h g)) \<Longrightarrow> okp R g0 (Option.bind m h)"
  by (cases m; simp add: okg_def okp_def)+

lemma okg_bindp [keeps]:
  "okp R g0 m \<Longrightarrow> (\<And>x g. R g0 g \<Longrightarrow> okg R g0 (f (x, g))) \<Longrightarrow> okg R g0 (Option.bind m f)"
  and okp_bindp [keeps]:
  "okp R g0 m \<Longrightarrow> (\<And>x g. R g0 g \<Longrightarrow> okp R g0 (h (x, g))) \<Longrightarrow> okp R g0 (Option.bind m h)"
  by (cases m; auto simp: okg_def okp_def)+

lemma okg_read:
  "(\<And>x. okg R g0 (f x)) \<Longrightarrow> okg R g0 (Option.bind m f)"
  "(\<And>x. okp R g0 (h x)) \<Longrightarrow> okp R g0 (Option.bind m h)"
  by (cases m; auto simp: okg_def okp_def)+

lemmas okg_reads [keeps] =
  okg_read [where ?'a = int] okg_read [where ?'a = bool] okg_read [where ?'a = "nat option"]
  okg_read [where ?'a = "nat list"] okg_read [where ?'a = "int list"] okg_read [where ?'a = "nat \<times> int"]
  okg_read [where ?'a = nat] okg_read [where ?'a = "(bool \<times> nat) list"]
  okg_read [where ?'a = "smil_interval \<times> int list \<times> time_calc"] okg_read [where ?'a = "smil_interval \<times> time_calc"]

lemma okg_let [keeps]: "R g0 t \<Longrightarrow> (\<And>g. R g0 g \<Longrightarrow> okg R g0 (f g)) \<Longrightarrow> okg R g0 (Let t f)"
  and okp_let [keeps]: "R g0 t \<Longrightarrow> (\<And>g. R g0 g \<Longrightarrow> okp R g0 (h g)) \<Longrightarrow> okp R g0 (Let t h)"
  by (simp_all add: Let_def)

lemma let_read:
  "(\<And>x. okg R g0 (f x)) \<Longrightarrow> okg R g0 (Let t f)"
  "(\<And>x. okp R g0 (h x)) \<Longrightarrow> okp R g0 (Let t h)"
  by simp_all

lemmas let_reads [keeps] =
  let_read [where ?'a = int] let_read [where ?'a = bool] let_read [where ?'a = nat]
  let_read [where ?'a = smil_interval] let_read [where ?'a = time_calc] let_read [where ?'a = time_node]
  let_read [where ?'a = fill_behavior] let_read [where ?'a = time_attrs] let_read [where ?'a = "nat list"]
  let_read [where ?'a = "nat \<times> int"] let_read [where ?'a = "priority_attrs list"] let_read [where ?'a = attr_map]
  let_read [where ?'a = sync_rule] let_read [where ?'a = "int \<times> time_calc"]
  let_read [where ?'a = "int \<times> time_node"]

lemma split_read:
  "(\<And>x y. okg R g0 (f x y)) \<Longrightarrow> okg R g0 (case_prod f p)"
  "(\<And>x y. okp R g0 (h x y)) \<Longrightarrow> okp R g0 (case_prod h p)"
  by (cases p; simp)+

lemmas split_reads [keeps] =
  split_read [where ?'a = int and ?'b = time_calc] split_read [where ?'a = bool and ?'b = "nat \<times> int"]
  split_read [where ?'a = nat and ?'b = "nat list"] split_read [where ?'a = int and ?'b = time_node]
  split_read [where ?'a = smil_interval and ?'b = "int list \<times> time_calc"]
  split_read [where ?'a = "int list" and ?'b = time_calc] split_read [where ?'a = smil_interval and ?'b = time_calc]
  split_read [where ?'a = src_playstate and ?'b = dst_playstate]

lemma split_pair [keeps]:
  "okg R g0 (f x y) \<Longrightarrow> okg R g0 (case (x, y) of (a, b) \<Rightarrow> f a b)"
  "okp R g0 (h x y) \<Longrightarrow> okp R g0 (case (x, y) of (a, b) \<Rightarrow> h a b)"
  by simp_all

lemma okg_if [keeps]:
  "(b \<Longrightarrow> okg R g0 m) \<Longrightarrow> (\<not> b \<Longrightarrow> okg R g0 m') \<Longrightarrow> okg R g0 (if b then m else m')"
  "(b \<Longrightarrow> okp R g0 p) \<Longrightarrow> (\<not> b \<Longrightarrow> okp R g0 p') \<Longrightarrow> okp R g0 (if b then p else p')"
  by simp_all

lemma okg_option [keeps]:
  "okg R g0 m \<Longrightarrow> (\<And>x. okg R g0 (f x)) \<Longrightarrow> okg R g0 (case_option m f v)"
  "okp R g0 p \<Longrightarrow> (\<And>x. okp R g0 (h x)) \<Longrightarrow> okp R g0 (case_option p h v)"
  by (cases v; simp)+

lemma okg_list [keeps]:
  "okg R g0 m \<Longrightarrow> (\<And>x xs. okg R g0 (f x xs)) \<Longrightarrow> okg R g0 (case_list m f v)"
  by (cases v; simp)

lemma okg_bool [keeps]:
  "okg R g0 m \<Longrightarrow> okg R g0 m' \<Longrightarrow> okg R g0 (case_bool m m' b)"
  by (cases b) simp_all

lemma okg_states [keeps]:
  "okg R g0 a \<Longrightarrow> okg R g0 b \<Longrightarrow> okg R g0 c \<Longrightarrow> okg R g0 d \<Longrightarrow> okg R g0 e \<Longrightarrow> okg R g0 (case_time_state_type a b c d e s)"
  by (cases s) simp_all

lemma okg_interrupts [keeps]:
  "okg R g0 a \<Longrightarrow> okg R g0 b \<Longrightarrow> okg R g0 c \<Longrightarrow> okg R g0 d \<Longrightarrow> okg R g0 (case_interrupt_type a b c d i)"
  by (cases i) simp_all

lemma okg_kinds [keeps]:
  "okg R g0 a \<Longrightarrow> okg R g0 b \<Longrightarrow> okg R g0 c \<Longrightarrow> okg R g0 d \<Longrightarrow> okg R g0 e \<Longrightarrow> okg R g0 (case_rule_kind a b c d e k)"
  by (cases k) simp_all

lemma okp_containers [keeps]:
  "okp R g0 a \<Longrightarrow> okp R g0 b \<Longrightarrow> okp R g0 c \<Longrightarrow> okp R g0 d \<Longrightarrow> okp R g0 (case_time_container_type a b c d t)"
  by (cases t) simp_all

lemma okp_map_option [keeps]: "(\<And>x. R g0 (snd (f x))) \<Longrightarrow> okp R g0 (map_option f m)"
  by (cases m) (auto simp: okp_def, metis snd_conv)

lemma okp_snd: "R g0 (snd p) \<Longrightarrow> okp R g0 (Some p)"
  by (cases p) (simp add: okp_def)

lemma okg_map_snd [keeps]: "okp R g0 m \<Longrightarrow> okg R g0 (map_option snd m)"
  by (cases m) (auto simp: okg_def okp_def)

lemma foldm_ind:
  "foldm f xs s = Some s' \<Longrightarrow> P s \<Longrightarrow> (\<And>x s s'. P s \<Longrightarrow> f x s = Some s' \<Longrightarrow> P s') \<Longrightarrow> P s'"
  by (induction xs arbitrary: s) (auto simp: Option.bind_eq_Some_conv)

lemma okg_foldm [keeps]: "R g0 g \<Longrightarrow> (\<And>x g. R g0 g \<Longrightarrow> okg R g0 (f x g)) \<Longrightarrow> okg R g0 (foldm f xs g)"
  unfolding okg_def by (metis foldm_ind)

lemma okp_foldm [keeps]:
  "R g0 (snd s) \<Longrightarrow> (\<And>x a g. R g0 g \<Longrightarrow> okp R g0 (f x (a, g))) \<Longrightarrow> okp R g0 (foldm f xs s)"
  unfolding okp_def using foldm_ind [of f xs s _ "\<lambda>s. R g0 (snd s)"] by (metis prod.collapse snd_conv)

lemma keep_fold: "R g0 g \<Longrightarrow> (\<And>x g. R g0 g \<Longrightarrow> R g0 (f x g)) \<Longrightarrow> R g0 (fold f xs g)"
  by (induction xs arbitrary: g) auto

section \<open>The elementary steps\<close>

text \<open>The part of a node that its operations do not write, apart from the queue of an "excl".\<close>

definition frozen :: "time_node \<Rightarrow> time_node" where
  "frozen x = x\<lparr>n_state := ts_reset, n_interval := interval_unresolved, n_history := [], n_active := False,
     n_needs_remove := False, n_rad := 0, n_precounter := 0, n_eom := False, n_paused := False, n_pad := 0,
     n_paused_sync_time := 0, n_deferred := False, n_ffwd := False, n_hyperjump := False,
     n_update := (False, (0, 0)), n_begin_inst := 0, n_impldur := 0, n_last_cdur := 0, n_saw_bom := False,
     n_saw_eom := False, n_calc_paused := False, n_uses_dur := False\<rparr>"

locale kept =
  fixes R :: "tgraph \<Rightarrow> tgraph \<Rightarrow> bool"
  assumes keep_refl: "R g g"
    and keep_trans: "R g0 g1 \<Longrightarrow> R g1 g2 \<Longrightarrow> R g0 g2"
    and keep_upd: "R g0 g \<Longrightarrow> (\<And>x. frozen (f x) = frozen x) \<Longrightarrow> R g0 (upd n f g)"
    and keep_emit: "R g0 g \<Longrightarrow> R g0 (emit c g)"
    and keep_played: "R g0 g \<Longrightarrow> R g0 (upd n (\<lambda>x. x\<lparr>n_doc_history := n_doc_history x @ [i],
           n_interval := interval_unresolved\<rparr>) g)"
    and keep_instances: "R g0 g \<Longrightarrow> R g0 (set_instances r h g)"
    and keep_lock: "R g0 g \<Longrightarrow> \<not> r_locked (tg_rule g r) \<Longrightarrow> R (upd_rule r (\<lambda>x. x\<lparr>r_locked := True\<rparr>) g) g'
        \<Longrightarrow> R g0 (upd_rule r (\<lambda>x. x\<lparr>r_locked := False\<rparr>) g')"
    and keep_push_pause: "R g0 g \<Longrightarrow> R g0 (set_queue p (push_pause (prio_in g) n (n_queue (tg_node g p))) g)"
    and keep_push_defer: "R g0 g \<Longrightarrow> R g0 (set_queue p (push_defer (prio_in g) n (n_queue (tg_node g p))) g)"
    and keep_queue_remove: "R g0 g \<Longrightarrow> R g0 (set_queue p (queue_remove n (n_queue (tg_node g p))) g)"
    and keep_pop: "R g0 g \<Longrightarrow> queue_pop (n_queue (tg_node g p)) = Some (n, q) \<Longrightarrow> R g0 (set_queue p q g)"
begin

lemma keep_if: "(b \<Longrightarrow> R g0 g) \<Longrightarrow> (\<not> b \<Longrightarrow> R g0 g') \<Longrightarrow> R g0 (if b then g else g')"
  by simp

lemma keep_option: "R g0 g \<Longrightarrow> (\<And>x. R g0 (f x)) \<Longrightarrow> R g0 (case_option g f v)"
  by (cases v) simp_all

lemma keep_expect: "R g0 g \<Longrightarrow> R g0 (expect n b g)"
  by (simp add: expect_def keep_emit)

lemma keep_timer_cmd: "R g0 g \<Longrightarrow> R g0 (timer_cmd n c g)"
  by (simp add: timer_cmd_def keep_emit)

lemma keep_raise_update: "R g0 g \<Longrightarrow> R g0 (raise_update_event n ts g)"
  unfolding raise_update_event_def by (rule keep_upd) (simp_all add: frozen_def)

lemma keep_set_node_interval: "R g0 g \<Longrightarrow> R g0 (set_node_interval n i g)"
  unfolding set_node_interval_def by (rule keep_upd) (simp_all add: frozen_def)

lemma keep_keep_calc: "R g0 g \<Longrightarrow> R g0 (keep_calc n tc g)"
  unfolding keep_calc_def by (rule keep_upd) (simp_all add: frozen_def)

lemmas keep_basics = keep_refl keep_emit keep_expect keep_timer_cmd keep_raise_update keep_set_node_interval
  keep_keep_calc keep_instances

lemma keep_pair: "R g0 (snd p) \<Longrightarrow> (\<And>b g. R g0 g \<Longrightarrow> R g0 (f b g)) \<Longrightarrow> R g0 (case_prod f p)"
  by (cases p) simp

lemma keep_create_playable: "R g0 g \<Longrightarrow> R g0 (snd (create_playable env n g))"
  by (simp add: create_playable_def Let_def keep_basics)

lemma keep_follow_link: "R g0 g \<Longrightarrow> R g0 (follow_link n g)"
  by (simp add: follow_link_def Let_def split_beta keep_basics)

lemma keep_start_playable: "R g0 g \<Longrightarrow> R g0 (start_playable env n off g)"
proof -
  assume g: "R g0 g"
  have "R g0 (upd n (\<lambda>x. x\<lparr>n_eom := False, n_saw_bom := False, n_saw_eom := False\<rparr>) g)"
    by (rule keep_upd [OF g]) (simp add: frozen_def)
  then show ?thesis
    by (simp add: start_playable_def Let_def split_beta g keep_basics keep_create_playable keep_follow_link)
qed

lemma keep_playables:
  assumes "R g0 g"
  shows "R g0 (seek_playable n off g)" "R g0 (pause_playable n d g)" "R g0 (resume_playable n g)"
    "R g0 (stop_playable n g)"
proof -
  have "R g0 (upd n (\<lambda>x. x\<lparr>n_eom := True\<rparr>) g)"
    by (rule keep_upd [OF assms]) (simp add: frozen_def)
  then show "R g0 (seek_playable n off g)" "R g0 (pause_playable n d g)" "R g0 (resume_playable n g)"
    "R g0 (stop_playable n g)"
    by (simp_all add: assms seek_playable_def pause_playable_def resume_playable_def stop_playable_def Let_def keep_emit)
qed

lemma keep_repeat_playable: "R g0 g \<Longrightarrow> R g0 (repeat_playable n g)"
  by (simp add: repeat_playable_def Let_def keep_emit keep_playables)

lemma keep_start_prefetch: "R g0 g \<Longrightarrow> R g0 (start_prefetch env n off g)"
  by (simp add: start_prefetch_def split_beta keep_emit keep_create_playable)

lemma keep_start_statecommand: "R g0 g \<Longrightarrow> R g0 (start_statecommand env n g)"
  by (simp add: start_statecommand_def Let_def keep_emit keep_expect split: option.split)

lemma keep_node_started: "R g0 g \<Longrightarrow> R g0 (node_started n g)"
  by (simp add: node_started_def Let_def keep_emit)

lemma keep_leaf_implicit_dur: "R g0 g \<Longrightarrow> R g0 (snd (leaf_implicit_dur env n g))"
proof -
  assume g: "R g0 g"
  have "R g0 (upd n (\<lambda>x. x\<lparr>n_impldur := d\<rparr>) (expect n b g))" for d b
    by (rule keep_upd [OF keep_expect [OF g]]) (simp add: frozen_def)
  then show ?thesis by (simp add: leaf_implicit_dur_def Let_def keep_expect g)
qed

lemma keep_each_playing:
  "R g0 g \<Longrightarrow> (\<And>m g. R g0 g \<Longrightarrow> R g0 (f m g)) \<Longrightarrow> R g0 (each_playing f visits g)"
  unfolding each_playing_def by (rule keep_fold) (auto split: prod.splits)

lemma keep_tell_parent: "R g0 g \<Longrightarrow> R g0 (tell_parent n ts g)"
  by (simp add: tell_parent_def Let_def keep_raise_update split: option.split)

lemma keep_excl_remove: "R g0 g \<Longrightarrow> R g0 (excl_remove p n g)"
  by (simp add: excl_remove_def keep_queue_remove)

lemmas keep_steps = keep_if keep_option keep_basics keep_follow_link keep_start_playable keep_playables keep_repeat_playable
  keep_start_prefetch keep_start_statecommand keep_node_started keep_each_playing keep_tell_parent
  keep_excl_remove keep_played keep_push_pause keep_push_defer

lemma get_implicit_dur_keeps: "R g0 g \<Longrightarrow> okp R g0 (get_implicit_dur env n g)"
  unfolding get_implicit_dur_def
  by (rule keeps okp_snd keep_leaf_implicit_dur | assumption | simp; fail)+

lemma node_calc_dur_keeps: "R g0 g \<Longrightarrow> okp R g0 (node_calc_dur env n g)"
  unfolding node_calc_dur_def split
  by (rule keeps keep_steps keep_upd get_implicit_dur_keeps | assumption | simp add: frozen_def; fail)+

lemma begin_instances_keeps: "R g0 g \<Longrightarrow> okp R g0 (begin_instances n g)"
  unfolding begin_instances_def
  by (rule keeps) (auto simp: okp_def frozen_def intro: keep_upd)

lemma node_current_end_keeps: "R g0 g \<Longrightarrow> okp R g0 (node_current_end env n g)"
  unfolding node_current_end_def split
  by (rule keeps keep_steps get_implicit_dur_keeps | assumption)+

lemma node_first_interval_keeps: "R g0 g \<Longrightarrow> okp R g0 (node_first_interval env n g)"
  unfolding node_first_interval_def split
  by (rule keeps keep_steps get_implicit_dur_keeps begin_instances_keeps | assumption)+

lemma node_next_interval_keeps: "R g0 g \<Longrightarrow> okp R g0 (node_next_interval env n prev g)"
  unfolding node_next_interval_def split
  by (rule keeps keep_steps get_implicit_dur_keeps begin_instances_keeps | assumption)+

lemma played_interval_keeps: "R g0 g \<Longrightarrow> okg R g0 (played_interval n g)"
  unfolding played_interval_def
  by (rule keeps keep_steps keep_upd | assumption | simp add: frozen_def; fail)+

lemma only_child_keeps: "R g0 g \<Longrightarrow> okp R g0 (only_child want p g)"
proof -
  assume g: "R g0 g"
  have "R g0 (snd s) \<Longrightarrow> R g0 (snd (fold (\<lambda>k (c, g). if want (tg_node g k) then (Some k, expect p (c = None) g)
      else (c, g)) ks s))" for ks s
    by (induction ks arbitrary: s) (auto simp: keep_expect split: prod.splits)
  from this [of "(None, g)"] g show ?thesis
    unfolding only_child_def by (intro okg_reads okp_snd) simp
qed

lemma rule_reset_keeps: "R g0 g \<Longrightarrow> okg R g0 (rule_reset r src g)"
proof -
  assume g: "R g0 g"
  have "upd_rule r (\<lambda>x. x\<lparr>r_instances := []\<rparr>) g = set_instances r (\<lambda>_. []) g"
    by (simp add: set_instances_def)
  with g keep_instances [OF g, of r "\<lambda>_. []"] show ?thesis
    by (auto simp: rule_reset_def okg_def Let_def Option.bind_eq_Some_conv split: rule_kind.splits option.splits if_splits)
qed

end

section \<open>The operations\<close>

locale kept_run = kept +
  fixes run :: runner
  assumes run_keeps: "run c g = Some g' \<Longrightarrow> R g g'"
begin

lemma run_okg: "R g0 g \<Longrightarrow> okg R g0 (run c g)"
  unfolding okg_def by (blast intro: keep_trans run_keeps)

lemma notify_target_keeps: "R g0 g \<Longrightarrow> okg R g0 (notify_target run r ts g)"
  unfolding notify_target_def by (rule run_okg)

lemma with_lock_keeps: "R g0 g \<Longrightarrow> (\<And>g. okg R g (body g)) \<Longrightarrow> okg R g0 (with_lock r body g)"
  by (auto simp: with_lock_def okg_def Option.bind_eq_Some_conv intro: keep_lock)

lemma rule_new_instance_keeps: "R g0 g \<Longrightarrow> okg R g0 (rule_new_instance run r ts inst g)"
  unfolding rule_new_instance_def model_new_instance_def transout_new_instance_def
  by (rule keeps keep_steps with_lock_keeps notify_target_keeps | assumption)+

lemma rule_cancel_instance_keeps: "R g0 g \<Longrightarrow> okg R g0 (rule_cancel_instance run r ts inst g)"
  unfolding rule_cancel_instance_def model_cancel_instance_def transout_cancel_instance_def
  by (rule keeps keep_steps with_lock_keeps notify_target_keeps | assumption)+

lemma rule_update_instance_keeps: "R g0 g \<Longrightarrow> okg R g0 (rule_update_instance run r ts inst old g)"
  unfolding rule_update_instance_def model_update_instance_def transout_update_instance_def
  by (rule keeps keep_steps with_lock_keeps notify_target_keeps | assumption)+

lemma rule_add_instance_keeps: "R g0 g \<Longrightarrow> okg R g0 (rule_add_instance run r ts inst d g)"
  unfolding rule_add_instance_def
  by (rule keeps keep_steps with_lock_keeps notify_target_keeps | assumption)+

lemma on_instances_keep:
  assumes "R g0 g"
  shows "okg R g0 (on_new_instance run n ts ev inst branch g)"
    "okg R g0 (on_cancel_instance run n ts ev inst branch g)"
    "okg R g0 (on_update_instance run n ts ev inst old branch g)"
  using assms unfolding on_new_instance_def on_cancel_instance_def on_update_instance_def
  by - (rule keeps rule_new_instance_keeps rule_cancel_instance_keeps rule_update_instance_keeps | assumption)+

lemma add_pass_keeps: "R g0 (snd s) \<Longrightarrow> okp R g0 (add_pass run ts inst d branch rules act rt s)"
  unfolding add_pass_def Let_def
  by (rule keeps rule_add_instance_keeps | assumption)+

lemma on_add_instance_keeps: "R g0 g \<Longrightarrow> okg R g0 (on_add_instance run n ts ev inst d branch g)"
  unfolding on_add_instance_def Let_def
  by (rule keeps add_pass_keeps | assumption | simp; fail)+

lemmas instances_keep = on_instances_keep on_add_instance_keeps

lemma cancel_interval_keeps: "R g0 g \<Longrightarrow> okg R g0 (cancel_interval run n ts g)"
  unfolding cancel_interval_def by (rule keeps keep_steps instances_keep | assumption)+

lemma update_interval_keeps: "R g0 g \<Longrightarrow> okg R g0 (update_interval run n ts i g)"
  unfolding update_interval_def by (rule keeps keep_steps instances_keep | assumption)+

lemma update_interval_end_keeps: "R g0 g \<Longrightarrow> okg R g0 (update_interval_end run n ts e g)"
  unfolding update_interval_end_def by (rule keeps keep_steps instances_keep | assumption)+

lemma defer_interval_keeps: "R g0 g \<Longrightarrow> okg R g0 (defer_interval run n ts g)"
  unfolding defer_interval_def
  by (rule keeps keep_steps instances_keep keep_upd | assumption | simp add: frozen_def; fail)+

lemma set_deferred_interval_keeps: "R g0 g \<Longrightarrow> okg R g0 (set_deferred_interval run n ts g)"
  unfolding set_deferred_interval_def
  by (rule keeps keep_steps run_okg keep_upd | assumption | simp add: frozen_def; fail)+

lemma node_pause_keeps: "R g0 g \<Longrightarrow> okg R g0 (node_pause env run n ts d g)"
  unfolding node_pause_def split
  by (rule keeps keep_steps update_interval_end_keeps node_current_end_keeps keep_upd
      | assumption | simp add: frozen_def; fail)+

lemma node_resume_keeps: "R g0 g \<Longrightarrow> okg R g0 (node_resume env run n ts g)"
  unfolding node_resume_def split
  by (rule keeps keep_steps update_interval_end_keeps node_current_end_keeps keep_upd
      | assumption | simp add: frozen_def; fail)+

lemma interrupt_keeps: "R g0 g \<Longrightarrow> okg R g0 (interrupt env run p c ts g)"
  unfolding interrupt_def get_active_child_def get_filled_child_def split
  by (rule keeps keep_steps only_child_keeps run_okg node_pause_keeps defer_interval_keeps cancel_interval_keeps
      | assumption)+

lemma on_child_normal_end_keeps: "R g0 g \<Longrightarrow> okg R g0 (on_child_normal_end env run p c ts g)"
proof (cases "queue_pop (n_queue (tg_node g p))")
  case None
  then show "R g0 g \<Longrightarrow> ?thesis" by (simp add: on_child_normal_end_def okg_def)
next
  case (Some s)
  moreover obtain nxt q where "s = (nxt, q)" by (cases s)
  moreover assume "R g0 g"
  ultimately have pop: "queue_pop (n_queue (tg_node g p)) = Some (nxt, q)" "R g0 (set_queue p q g)"
    by (simp_all add: keep_pop)
  from pop(2) show ?thesis
    unfolding on_child_normal_end_def pop(1) option.case split
    by - (rule keeps keep_steps run_okg node_resume_keeps set_deferred_interval_keeps | assumption)+
qed

lemma set_state_ex_keeps: "R g0 g \<Longrightarrow> okg R g0 (set_state_ex env run n st ts g)"
  unfolding set_state_ex_def
  by (rule keeps keep_steps run_okg interrupt_keeps on_child_normal_end_keeps | assumption)+

lemma raise_begin_event_keeps: "R g0 g \<Longrightarrow> okg R g0 (raise_begin_event run n ts g)"
  unfolding raise_begin_event_def by (rule keeps keep_steps instances_keep | assumption)+

lemma raise_end_event_keeps: "R g0 g \<Longrightarrow> okg R g0 (raise_end_event run n ts oproot g)"
  unfolding raise_end_event_def
  by (rule keeps keep_steps instances_keep keep_upd | assumption | simp add: frozen_def; fail)+

lemma each_child_keeps: "R g0 g \<Longrightarrow> (\<And>k q g. R g0 g \<Longrightarrow> okg R g0 (f k q g)) \<Longrightarrow> okg R g0 (each_child f n ts g)"
  unfolding each_child_def by (rule keeps | assumption)+

lemma node_remove_keeps: "R g0 g \<Longrightarrow> okg R g0 (node_remove run n ts g)"
  unfolding node_remove_def
  by (rule keeps keep_steps each_child_keeps run_okg keep_upd | assumption | simp add: frozen_def; fail)+

lemma node_fill_keeps: "R g0 g \<Longrightarrow> okg R g0 (node_fill run n ts g)"
  unfolding node_fill_def
  by (rule keeps keep_steps each_child_keeps run_okg node_remove_keeps | assumption)+

lemma reset_children_keeps: "R g0 g \<Longrightarrow> okg R g0 (reset_children run n ts oproot g)"
  unfolding reset_children_def by (rule each_child_keeps run_okg | assumption)+

lemma startup_children_keeps: "R g0 g \<Longrightarrow> okg R g0 (startup_children run n ts g)"
  unfolding startup_children_def by (rule each_child_keeps run_okg | assumption)+

lemma node_repeat_keeps: "R g0 g \<Longrightarrow> okg R g0 (node_repeat run n ts g)"
  unfolding node_repeat_def raise_repeat_event_def
  by (rule keeps keep_steps instances_keep reset_children_keeps startup_children_keeps | assumption)+

lemma on_eosd_keeps: "R g0 g \<Longrightarrow> okp R g0 (on_eosd run n ts g)"
  unfolding on_eosd_def
  by (rule keeps keep_steps node_repeat_keeps keep_upd | assumption | simp add: frozen_def count_iteration_def; fail)+

lemma frozen_start_offset: "start_offset ad d x = (sd, y) \<Longrightarrow> frozen y = frozen x"
  by (auto simp: start_offset_def frozen_def Let_def split: if_splits)

lemma keep_offset: "R g0 g \<Longrightarrow> R g0 (upd n (\<lambda>_. snd (start_offset ad d (tg_node g n))) g)"
proof -
  assume g: "R g0 g"
  have "upd n (\<lambda>_. snd (start_offset ad d (tg_node g n))) g = upd n (\<lambda>x. snd (start_offset ad d x)) g"
    by (simp add: upd_def)
  moreover have "R g0 (upd n (\<lambda>x. snd (start_offset ad d x)) g)"
    by (rule keep_upd [OF g]) (metis frozen_start_offset prod.collapse)
  ultimately show ?thesis by simp
qed

lemma activate_keeps: "R g0 g \<Longrightarrow> okg R g0 (activate env run n ts g)"
proof -
  assume g: "R g0 g"
  have tail: "okg R g0 (let (sd, x) = start_offset ad cdur (tg_node h n); h = upd n (\<lambda>_. x) h in f sd x h)"
    if "R g0 h" "\<And>sd x h. R g0 h \<Longrightarrow> okg R g0 (f sd x h)" for ad cdur h f
    using that(2) [OF keep_offset [OF that(1), of n ad cdur]] by (simp add: split_beta Let_def)
  show ?thesis
    unfolding activate_def split
    by (rule tail keeps keep_steps run_okg node_calc_dur_keeps g | assumption)+
qed

lemma set_interval_keeps: "R g0 g \<Longrightarrow> okg R g0 (set_interval env run n ts i g)"
  unfolding set_interval_def
  by (rule keeps keep_steps instances_keep run_okg played_interval_keeps defer_interval_keeps set_state_ex_keeps keep_upd
      | assumption | simp add: frozen_def; fail)+

lemma cancel_valid_interval_keeps: "R g0 g \<Longrightarrow> okg R g0 (cancel_valid_interval run n ts g)"
  unfolding cancel_valid_interval_def by (rule keeps cancel_interval_keeps | assumption)+

lemma state_kill_keeps: "R g0 g \<Longrightarrow> okg R g0 (state_kill run n ts oproot g)"
  unfolding state_kill_def proactive_kill_def postactive_kill_def by (rule keeps run_okg cancel_valid_interval_keeps | assumption)+

lemma state_reset_keeps: "R g0 g \<Longrightarrow> okg R g0 (state_reset run n ts oproot g)"
  unfolding state_reset_def proactive_reset_def active_reset_def postactive_reset_def
  by (rule keeps run_okg cancel_valid_interval_keeps node_remove_keeps reset_children_keeps | assumption)+

lemma kill_children_keeps: "R g0 g \<Longrightarrow> okg R g0 (kill_children run n ts oproot g)"
  unfolding kill_children_def by (rule keeps each_child_keeps run_okg state_kill_keeps | assumption)+

lemma state_exit_keeps: "R g0 g \<Longrightarrow> okg R g0 (state_exit run n ts oproot g)"
  unfolding state_exit_def active_exit_def
  by (rule keeps node_fill_keeps kill_children_keeps raise_end_event_keeps played_interval_keeps node_remove_keeps keep_upd
      | assumption | simp add: frozen_def; fail)+

lemma remove_previous_keeps: "R g0 g \<Longrightarrow> okg R g0 (remove_previous run n ts g)"
  unfolding remove_previous_def by (rule keeps run_okg | assumption)+

lemma active_enter_keeps: "R g0 g \<Longrightarrow> okg R g0 (active_enter env run n ts g)"
  unfolding active_enter_def
  by (rule keeps keep_steps remove_previous_keeps run_okg reset_children_keeps activate_keeps startup_children_keeps
      raise_begin_event_keeps keep_upd | assumption | simp add: frozen_def; fail)+

lemma state_enter_keeps: "R g0 g \<Longrightarrow> okg R g0 (state_enter env run n st ts g)"
  unfolding state_enter_def proactive_enter_def postactive_enter_def split
  by (rule keeps keep_upd node_first_interval_keeps node_next_interval_keeps set_interval_keeps active_enter_keeps run_okg
      | assumption | simp add: frozen_def reset_fields_def; fail)+

lemma set_state_keeps: "R g0 g \<Longrightarrow> okg R g0 (set_state env run n st ts oproot g)"
  unfolding set_state_def
  by (rule keeps keep_upd node_remove_keeps state_exit_keeps state_enter_keeps | assumption | simp add: frozen_def; fail)+

lemma replan_keeps: "R g0 g \<Longrightarrow> okg R g0 (replan env run n ts i g)"
  unfolding replan_def by (rule keeps update_interval_keeps cancel_interval_keeps set_interval_keeps | assumption)+

lemma active_sync_update_keeps: "R g0 g \<Longrightarrow> okg R g0 (active_sync_update env run n ts g)"
  unfolding active_sync_update_def split
  by (rule keeps node_current_end_keeps update_interval_end_keeps node_next_interval_keeps run_okg | assumption)+

lemma node_sync_update_keeps: "R g0 g \<Longrightarrow> okg R g0 (node_sync_update env run n ts g)"
  unfolding node_sync_update_def state_sync_update_def proactive_sync_update_def postactive_sync_update_def split
  by (rule keeps active_sync_update_keeps node_first_interval_keeps node_next_interval_keeps replan_keeps | assumption)+

lemma node_reset_keeps: "R g0 g \<Longrightarrow> okg R g0 (node_reset run n ts oproot g)"
  unfolding node_reset_def
  by (rule keeps keep_steps reset_children_keeps state_reset_keeps rule_reset_keeps | assumption)+

lemma call_body_keeps: "R g0 g \<Longrightarrow> okg R g0 (call_body env run c g)"
  by (cases c) (simp_all add: call_body_def set_state_keeps node_sync_update_keeps node_remove_keeps
      node_fill_keeps node_reset_keeps set_interval_keeps)

lemma begin_transout_keeps: "R g0 g \<Longrightarrow> okg R g0 (begin_transout n ts g)"
  unfolding begin_transout_def by (rule keeps keep_steps rule_reset_keeps | assumption)+

lemma end_cond_keeps: "R g0 g \<Longrightarrow> okp R g0 (end_cond env n ts g)"
  unfolding end_cond_def end_sync_cond_def split
  by (rule keeps keep_steps | assumption)+

lemma active_exec_keeps: "R g0 g \<Longrightarrow> okg R g0 (active_exec env run n ts g)"
  unfolding active_exec_def split
  by (rule keeps keep_steps begin_transout_keeps end_cond_keeps on_eosd_keeps set_state_ex_keeps keep_upd
      | assumption | simp add: frozen_def; fail)+

lemma clear_update_keeps: "R g0 g \<Longrightarrow> R g0 (upd n (\<lambda>x. x\<lparr>n_update := (False, snd (n_update x))\<rparr>) g)"
  by (rule keep_upd) (simp_all add: frozen_def)

lemma node_exec_keeps: "R g0 g \<Longrightarrow> okg R g0 (node_exec env run n ts g)"
  unfolding node_exec_def
  by (cases "n_update (tg_node g n)"; cases "fst (n_update (tg_node g n))"; simp only: prod.case bool.case fst_conv)
     (rule keeps keep_steps node_sync_update_keeps active_exec_keeps defer_interval_keeps set_state_ex_keeps
       clear_update_keeps | assumption)+

end

context kept
begin

lemma exec_call_kept_run: "kept_run R (exec_call env k)"
proof (induction k)
  case 0
  show ?case by unfold_locales simp
next
  case (Suc k)
  show ?case
  proof (intro kept_run.intro kept_run_axioms.intro)
    show "kept R" by unfold_locales
    show "exec_call env (Suc k) c g = Some g' \<Longrightarrow> R g g'" for c g g'
      using kept_run.call_body_keeps [OF Suc keep_refl] by (auto simp: okg_def)
  qed
qed

lemma exec_call_keeps: "exec_call env k c g = Some g' \<Longrightarrow> R g g'"
  by (rule kept_run.run_keeps [OF exec_call_kept_run])

lemma node_exec_closed_keeps: "node_exec env (exec_call env k) n ts g = Some g' \<Longrightarrow> R g g'"
  using kept_run.node_exec_keeps [OF exec_call_kept_run keep_refl] by (auto simp: okg_def)

end

section \<open>The structure of the graph stays\<close>

definition structure_of :: "time_node \<Rightarrow> time_node" where
  "structure_of x = (frozen x)\<lparr>n_queue := [], n_doc_history := []\<rparr>"

definition rule_structure :: "sync_rule \<Rightarrow> sync_rule" where
  "rule_structure x = x\<lparr>r_instances := []\<rparr>"

text \<open>
  The tree, the unchanging fields of nodes, the arcs with their locks stay, and what was logged or
  recorded in the document history of a node is still there, with more behind it.
\<close>

definition evolves :: "tgraph \<Rightarrow> tgraph \<Rightarrow> bool" where
  "evolves g g' \<longleftrightarrow> ln_up g' = ln_up g \<and> ln_down g' = ln_down g \<and> ln_next g' = ln_next g \<and> ln_live g' = ln_live g
     \<and> tg_next_rule g' = tg_next_rule g \<and> suffix (tg_log g) (tg_log g')
     \<and> (\<forall>r. rule_structure (tg_rule g' r) = rule_structure (tg_rule g r))
     \<and> (\<forall>n. structure_of (tg_node g' n) = structure_of (tg_node g n)
          \<and> prefix (n_doc_history (tg_node g n)) (n_doc_history (tg_node g' n)))"

lemma frozen_history: "frozen x = frozen y \<Longrightarrow> n_doc_history x = n_doc_history y \<and> n_queue x = n_queue y \<and> n_priority x = n_priority y"
  by (drule arg_cong [where f = "\<lambda>z. (n_doc_history z, n_queue z, n_priority z)"]) (simp add: frozen_def)

lemma evolves_upd:
  assumes "evolves g0 g" "\<And>x. structure_of (f x) = structure_of x" "\<And>x. prefix (n_doc_history x) (n_doc_history (f x))"
  shows "evolves g0 (upd n f g)"
  using assms unfolding evolves_def upd_def by (auto intro: prefix_order.trans)

lemma evolves_queue: "evolves g0 g \<Longrightarrow> evolves g0 (set_queue p q g)"
  unfolding set_queue_def by (rule evolves_upd) (simp_all add: structure_of_def frozen_def)

lemma evolves_unlock:
  assumes "evolves g0 g" "\<not> r_locked (tg_rule g r)" "evolves (upd_rule r (\<lambda>x. x\<lparr>r_locked := True\<rparr>) g) g'"
  shows "evolves g0 (upd_rule r (\<lambda>x. x\<lparr>r_locked := False\<rparr>) g')"
proof -
  have "rule_structure (tg_rule g' r) = (rule_structure (tg_rule g r))\<lparr>r_locked := True\<rparr>"
    using assms(3) by (simp add: evolves_def upd_rule_def rule_structure_def)
  then have un: "rule_structure ((tg_rule g' r)\<lparr>r_locked := False\<rparr>) = rule_structure (tg_rule g r)"
    using assms(2) by (cases "tg_rule g r"; cases "tg_rule g' r") (simp add: rule_structure_def)
  have "rule_structure (tg_rule (upd_rule r (\<lambda>x. x\<lparr>r_locked := False\<rparr>) g') s) = rule_structure (tg_rule g s)" for s
    using un assms(3) by (cases "s = r") (simp_all add: evolves_def upd_rule_def)
  with assms(1,3) show ?thesis
    unfolding evolves_def by (auto simp: upd_rule_def intro: prefix_order.trans suffix_order.trans)
qed

interpretation evo: kept evolves
proof unfold_locales
  show "evolves g g" for g by (simp add: evolves_def)
next
  show "evolves g0 g1 \<Longrightarrow> evolves g1 g2 \<Longrightarrow> evolves g0 g2" for g0 g1 g2
    unfolding evolves_def by (auto intro: prefix_order.trans suffix_order.trans)
next
  fix g0 g n and f :: "time_node \<Rightarrow> time_node"
  assume g: "evolves g0 g" and f: "\<And>x. frozen (f x) = frozen x"
  show "evolves g0 (upd n f g)"
    by (rule evolves_upd [OF g]) (simp_all add: structure_of_def f frozen_history [OF f])
next
  show "evolves g0 g \<Longrightarrow> evolves g0 (emit c g)" for g0 g c
    unfolding evolves_def emit_def by (auto intro: suffix_ConsI)
next
  show "evolves g0 g \<Longrightarrow> evolves g0 (upd n (\<lambda>x. x\<lparr>n_doc_history := n_doc_history x @ [i],
      n_interval := interval_unresolved\<rparr>) g)" for g0 g n i
    by (rule evolves_upd) (simp_all add: structure_of_def frozen_def)
next
  show "evolves g0 g \<Longrightarrow> evolves g0 (set_instances r h g)" for g0 g r h
    unfolding evolves_def set_instances_def upd_rule_def by (auto simp: rule_structure_def)
next
  show "evolves g0 g \<Longrightarrow> \<not> r_locked (tg_rule g r) \<Longrightarrow> evolves (upd_rule r (\<lambda>x. x\<lparr>r_locked := True\<rparr>) g) g'
      \<Longrightarrow> evolves g0 (upd_rule r (\<lambda>x. x\<lparr>r_locked := False\<rparr>) g')" for g0 g g' r
    by (rule evolves_unlock)
qed (auto simp: evolves_queue)

interpretation evo_run: kept_run evolves "exec_call env k" for env k
  by (rule evo.exec_call_kept_run)

section \<open>The queues stay in order\<close>

definition queues_sorted :: "tgraph \<Rightarrow> bool" where
  "queues_sorted g \<longleftrightarrow> (\<forall>p. queue_ok (prio_in g) (n_queue (tg_node g p)))"

definition orders :: "tgraph \<Rightarrow> tgraph \<Rightarrow> bool" where
  "orders g g' \<longleftrightarrow> prio_in g' = prio_in g \<and> (queues_sorted g \<longrightarrow> queues_sorted g')"

lemma orders_upd:
  assumes "orders g0 g" "\<And>x. n_priority (f x) = n_priority x" "\<And>x. n_queue (f x) = n_queue x"
  shows "orders g0 (upd n f g)"
proof -
  have "prio_in (upd n f g) = prio_in g" using assms(2) by (auto simp: prio_in_def upd_def)
  moreover have "n_queue (tg_node (upd n f g) p) = n_queue (tg_node g p)" for p
    using assms(3) by (simp add: upd_def)
  ultimately have "queues_sorted (upd n f g) = queues_sorted g" "prio_in (upd n f g) = prio_in g"
    by (simp_all add: queues_sorted_def)
  then show ?thesis using assms(1) by (simp add: orders_def)
qed

lemma orders_queue:
  assumes "orders g0 g" "queue_ok (prio_in g) (n_queue (tg_node g p)) \<Longrightarrow> queue_ok (prio_in g) q"
  shows "orders g0 (set_queue p q g)"
proof -
  have "prio_in (set_queue p q g) = prio_in g" by (auto simp: prio_in_def set_queue_def upd_def)
  with assms show ?thesis by (auto simp: orders_def queues_sorted_def set_queue_def upd_def)
qed

lemma orders_same:
  assumes "orders g0 g" "tg_node h = tg_node g"
  shows "orders g0 h"
proof -
  have "prio_in h = prio_in g" using assms(2) by (auto simp: prio_in_def)
  moreover from this assms(2) have "queues_sorted h = queues_sorted g" by (simp add: queues_sorted_def)
  ultimately show ?thesis using assms(1) by (simp add: orders_def)
qed

lemma orders_trans: "orders g0 g1 \<Longrightarrow> orders g1 g2 \<Longrightarrow> orders g0 g2"
  by (auto simp: orders_def)

lemma orders_rule: "orders g (upd_rule r f g)"
  by (rule orders_same [of g g]) (simp_all add: orders_def upd_rule_def)

interpretation ord: kept orders
proof unfold_locales
  show "orders g g" for g by (simp add: orders_def)
next
  fix g0 g n and f :: "time_node \<Rightarrow> time_node"
  assume g: "orders g0 g" and f: "\<And>x. frozen (f x) = frozen x"
  show "orders g0 (upd n f g)"
    by (rule orders_upd [OF g]) (simp_all add: frozen_history [OF f])
next
  show "orders g0 g \<Longrightarrow> orders g0 (set_instances r h g)" for g0 g r h
    unfolding set_instances_def by (rule orders_trans [OF _ orders_rule])
next
  show "orders g0 g \<Longrightarrow> \<not> r_locked (tg_rule g r) \<Longrightarrow> orders (upd_rule r (\<lambda>x. x\<lparr>r_locked := True\<rparr>) g) g'
      \<Longrightarrow> orders g0 (upd_rule r (\<lambda>x. x\<lparr>r_locked := False\<rparr>) g')" for g0 g g' r
    by (blast intro: orders_trans orders_rule)
next
  show "orders g0 g \<Longrightarrow> orders g0 (upd n (\<lambda>x. x\<lparr>n_doc_history := n_doc_history x @ [i],
      n_interval := interval_unresolved\<rparr>) g)" for g0 g n i
    by (rule orders_upd) simp_all
next
  show "orders g0 g \<Longrightarrow> orders g0 (emit c g)" for g0 g c
    by (rule orders_same) (simp_all add: emit_def)
qed (auto intro: orders_trans orders_queue queue_ok_push queue_ok_remove queue_ok_pop)

interpretation ord_run: kept_run orders "exec_call env k" for env k
  by (rule ord.exec_call_kept_run)

end
