(* ===== verification/Time_Depth.thy ===== *)
theory Time_Depth
  imports Time_Driver
begin

text \<open>
  The bound on the depth of calls does not matter: a call that returns within a bound returns the
  same graph with every larger bound. Every operation returns what it did when its interpreter is
  replaced by one that returns at least as often.
\<close>

definition upto :: "'a option \<Rightarrow> 'a option \<Rightarrow> bool" where
  "upto m m' \<longleftrightarrow> m = None \<or> m = m'"

named_theorems upto_rules "the same result, if there is one"

lemma upto_refl [upto_rules]: "upto m m"
  by (simp add: upto_def)

lemma upto_bind [upto_rules]:
  "upto m m' \<Longrightarrow> (\<And>x. upto (f x) (f' x)) \<Longrightarrow> upto (Option.bind m f) (Option.bind m' f')"
  by (cases m; cases m') (auto simp: upto_def)

lemma upto_let [upto_rules]: "(\<And>x. upto (f x) (f' x)) \<Longrightarrow> upto (Let t f) (Let t f')"
  by simp

lemma upto_if [upto_rules]: "upto m m' \<Longrightarrow> upto k k' \<Longrightarrow> upto (if b then m else k) (if b then m' else k')"
  by simp

lemma upto_prod [upto_rules]: "(\<And>x y. upto (f x y) (f' x y)) \<Longrightarrow> upto (case_prod f p) (case_prod f' p)"
  by (cases p) simp

lemma upto_option [upto_rules]:
  "upto m m' \<Longrightarrow> (\<And>x. upto (f x) (f' x)) \<Longrightarrow> upto (case_option m f v) (case_option m' f' v)"
  by (cases v) simp_all

lemma upto_list [upto_rules]:
  "upto m m' \<Longrightarrow> (\<And>x xs. upto (f x xs) (f' x xs)) \<Longrightarrow> upto (case_list m f v) (case_list m' f' v)"
  by (cases v) simp_all

lemma upto_bool [upto_rules]: "upto m m' \<Longrightarrow> upto k k' \<Longrightarrow> upto (case_bool m k b) (case_bool m' k' b)"
  by (cases b) simp_all

lemma upto_kinds [upto_rules]:
  "upto a a' \<Longrightarrow> upto b b' \<Longrightarrow> upto c c' \<Longrightarrow> upto d d' \<Longrightarrow> upto e e'
   \<Longrightarrow> upto (case_rule_kind a b c d e k) (case_rule_kind a' b' c' d' e' k)"
  by (cases k) simp_all

lemma upto_states [upto_rules]:
  "upto a a' \<Longrightarrow> upto b b' \<Longrightarrow> upto c c' \<Longrightarrow> upto d d' \<Longrightarrow> upto e e'
   \<Longrightarrow> upto (case_time_state_type a b c d e s) (case_time_state_type a' b' c' d' e' s)"
  by (cases s) simp_all

lemma upto_interrupts [upto_rules]:
  "upto a a' \<Longrightarrow> upto b b' \<Longrightarrow> upto c c' \<Longrightarrow> upto d d'
   \<Longrightarrow> upto (case_interrupt_type a b c d i) (case_interrupt_type a' b' c' d' i)"
  by (cases i) simp_all

lemma upto_map [upto_rules]: "upto m m' \<Longrightarrow> upto (map_option f m) (map_option f m')"
  by (auto simp: upto_def)

lemma upto_foldm [upto_rules]: "(\<And>x s. upto (f x s) (f' x s)) \<Longrightarrow> upto (foldm f xs s) (foldm f' xs s)"
  by (induction xs arbitrary: s) (auto intro: upto_rules)

lemma with_lock_upto: "(\<And>g. upto (body g) (body' g)) \<Longrightarrow> upto (with_lock r body g) (with_lock r body' g)"
  unfolding with_lock_def by (rule upto_rules | assumption)+

lemma each_child_upto: "(\<And>k q g. upto (f k q g) (f' k q g)) \<Longrightarrow> upto (each_child f n ts g) (each_child f' n ts g)"
  unfolding each_child_def by (rule upto_rules | assumption)+

locale deeper_run =
  fixes run run' :: runner
  assumes run_upto: "upto (run c g) (run' c g)"
begin

lemma notify_target_upto: "upto (notify_target run r ts g) (notify_target run' r ts g)"
  unfolding notify_target_def by (rule run_upto)+

lemma rule_new_instance_upto: "upto (rule_new_instance run r ts inst g) (rule_new_instance run' r ts inst g)"
  unfolding rule_new_instance_def model_new_instance_def transout_new_instance_def by (rule upto_rules notify_target_upto with_lock_upto)+

lemma rule_cancel_instance_upto: "upto (rule_cancel_instance run r ts inst g) (rule_cancel_instance run' r ts inst g)"
  unfolding rule_cancel_instance_def model_cancel_instance_def transout_cancel_instance_def by (rule upto_rules notify_target_upto with_lock_upto)+

lemma rule_update_instance_upto: "upto (rule_update_instance run r ts inst old g) (rule_update_instance run' r ts inst old g)"
  unfolding rule_update_instance_def model_update_instance_def transout_update_instance_def by (rule upto_rules notify_target_upto with_lock_upto)+

lemma rule_add_instance_upto: "upto (rule_add_instance run r ts inst d g) (rule_add_instance run' r ts inst d g)"
  unfolding rule_add_instance_def by (rule upto_rules notify_target_upto with_lock_upto)+

lemma on_new_instance_upto: "upto (on_new_instance run n ts ev inst branch g) (on_new_instance run' n ts ev inst branch g)"
  unfolding on_new_instance_def by (rule upto_rules rule_new_instance_upto)+

lemma on_cancel_instance_upto: "upto (on_cancel_instance run n ts ev inst branch g) (on_cancel_instance run' n ts ev inst branch g)"
  unfolding on_cancel_instance_def by (rule upto_rules rule_cancel_instance_upto)+

lemma on_update_instance_upto: "upto (on_update_instance run n ts ev inst old branch g) (on_update_instance run' n ts ev inst old branch g)"
  unfolding on_update_instance_def by (rule upto_rules rule_update_instance_upto)+

lemma add_pass_upto: "upto (add_pass run ts inst d branch rules act rt s) (add_pass run' ts inst d branch rules act rt s)"
  unfolding add_pass_def by (rule upto_rules rule_add_instance_upto)+

lemma on_add_instance_upto: "upto (on_add_instance run n ts ev inst d branch g) (on_add_instance run' n ts ev inst d branch g)"
  unfolding on_add_instance_def by (rule upto_rules add_pass_upto)+

lemma cancel_interval_upto: "upto (cancel_interval run n ts g) (cancel_interval run' n ts g)"
  unfolding cancel_interval_def by (rule upto_rules on_cancel_instance_upto)+

lemma update_interval_upto: "upto (update_interval run n ts i g) (update_interval run' n ts i g)"
  unfolding update_interval_def by (rule upto_rules on_update_instance_upto)+

lemma update_interval_end_upto: "upto (update_interval_end run n ts e g) (update_interval_end run' n ts e g)"
  unfolding update_interval_end_def by (rule upto_rules on_update_instance_upto)+

lemma defer_interval_upto: "upto (defer_interval run n ts g) (defer_interval run' n ts g)"
  unfolding defer_interval_def by (rule upto_rules on_cancel_instance_upto)+

lemma set_deferred_interval_upto: "upto (set_deferred_interval run n ts g) (set_deferred_interval run' n ts g)"
  unfolding set_deferred_interval_def by (rule upto_rules run_upto)+

lemma node_pause_upto: "upto (node_pause env run n ts d g) (node_pause env run' n ts d g)"
  unfolding node_pause_def by (rule upto_rules update_interval_end_upto)+

lemma node_resume_upto: "upto (node_resume env run n ts g) (node_resume env run' n ts g)"
  unfolding node_resume_def by (rule upto_rules update_interval_end_upto)+

lemma interrupt_upto: "upto (interrupt env run p c ts g) (interrupt env run' p c ts g)"
  unfolding interrupt_def by (rule upto_rules run_upto node_pause_upto defer_interval_upto cancel_interval_upto)+

lemma on_child_normal_end_upto: "upto (on_child_normal_end env run p c ts g) (on_child_normal_end env run' p c ts g)"
  unfolding on_child_normal_end_def by (rule upto_rules run_upto node_resume_upto set_deferred_interval_upto)+

lemma set_state_ex_upto: "upto (set_state_ex env run n st ts g) (set_state_ex env run' n st ts g)"
  unfolding set_state_ex_def by (rule upto_rules run_upto interrupt_upto on_child_normal_end_upto)+

lemma raise_begin_event_upto: "upto (raise_begin_event run n ts g) (raise_begin_event run' n ts g)"
  unfolding raise_begin_event_def by (rule upto_rules on_add_instance_upto)+

lemma raise_repeat_event_upto: "upto (raise_repeat_event run n ts g) (raise_repeat_event run' n ts g)"
  unfolding raise_repeat_event_def by (rule upto_rules on_add_instance_upto)+

lemma raise_end_event_upto: "upto (raise_end_event run n ts oproot g) (raise_end_event run' n ts oproot g)"
  unfolding raise_end_event_def by (rule upto_rules on_add_instance_upto on_update_instance_upto)+

lemma node_remove_upto: "upto (node_remove run n ts g) (node_remove run' n ts g)"
  unfolding node_remove_def by (rule upto_rules run_upto each_child_upto)+

lemma node_fill_upto: "upto (node_fill run n ts g) (node_fill run' n ts g)"
  unfolding node_fill_def by (rule upto_rules run_upto each_child_upto node_remove_upto)+

lemma reset_children_upto: "upto (reset_children run n ts oproot g) (reset_children run' n ts oproot g)"
  unfolding reset_children_def by (rule upto_rules run_upto each_child_upto)+

lemma startup_children_upto: "upto (startup_children run n ts g) (startup_children run' n ts g)"
  unfolding startup_children_def by (rule upto_rules run_upto each_child_upto)+

lemma node_repeat_upto: "upto (node_repeat run n ts g) (node_repeat run' n ts g)"
  unfolding node_repeat_def by (rule upto_rules raise_repeat_event_upto reset_children_upto startup_children_upto)+

lemma on_eosd_upto: "upto (on_eosd run n ts g) (on_eosd run' n ts g)"
  unfolding on_eosd_def by (rule upto_rules node_repeat_upto)+

lemma activate_upto: "upto (activate env run n ts g) (activate env run' n ts g)"
  unfolding activate_def by (rule upto_rules run_upto)+

lemma set_interval_upto: "upto (set_interval env run n ts i g) (set_interval env run' n ts i g)"
  unfolding set_interval_def by (rule upto_rules run_upto on_new_instance_upto defer_interval_upto set_state_ex_upto)+

lemma cancel_valid_interval_upto: "upto (cancel_valid_interval run n ts g) (cancel_valid_interval run' n ts g)"
  unfolding cancel_valid_interval_def by (rule upto_rules cancel_interval_upto)+

lemma state_kill_upto: "upto (state_kill run n ts oproot g) (state_kill run' n ts oproot g)"
  unfolding state_kill_def proactive_kill_def postactive_kill_def by (rule upto_rules run_upto cancel_valid_interval_upto)+

lemma state_reset_upto: "upto (state_reset run n ts oproot g) (state_reset run' n ts oproot g)"
  unfolding state_reset_def proactive_reset_def active_reset_def postactive_reset_def by (rule upto_rules run_upto cancel_valid_interval_upto node_remove_upto reset_children_upto)+

lemma kill_children_upto: "upto (kill_children run n ts oproot g) (kill_children run' n ts oproot g)"
  unfolding kill_children_def by (rule upto_rules run_upto each_child_upto state_kill_upto)+

lemma state_exit_upto: "upto (state_exit run n ts oproot g) (state_exit run' n ts oproot g)"
  unfolding state_exit_def active_exit_def by (rule upto_rules node_fill_upto kill_children_upto raise_end_event_upto node_remove_upto)+

lemma remove_previous_upto: "upto (remove_previous run n ts g) (remove_previous run' n ts g)"
  unfolding remove_previous_def by (rule upto_rules run_upto)+

lemma active_enter_upto: "upto (active_enter env run n ts g) (active_enter env run' n ts g)"
  unfolding active_enter_def by (rule upto_rules run_upto remove_previous_upto reset_children_upto activate_upto startup_children_upto raise_begin_event_upto)+

lemma state_enter_upto: "upto (state_enter env run n st ts g) (state_enter env run' n st ts g)"
  unfolding state_enter_def proactive_enter_def postactive_enter_def by (rule upto_rules run_upto set_interval_upto active_enter_upto)+

lemma set_state_upto: "upto (set_state env run n st ts oproot g) (set_state env run' n st ts oproot g)"
  unfolding set_state_def by (rule upto_rules node_remove_upto state_exit_upto state_enter_upto)+

lemma replan_upto: "upto (replan env run n ts i g) (replan env run' n ts i g)"
  unfolding replan_def by (rule upto_rules update_interval_upto cancel_interval_upto set_interval_upto)+

lemma active_sync_update_upto: "upto (active_sync_update env run n ts g) (active_sync_update env run' n ts g)"
  unfolding active_sync_update_def by (rule upto_rules run_upto update_interval_end_upto)+

lemma state_sync_update_upto: "upto (state_sync_update env run n ts g) (state_sync_update env run' n ts g)"
  unfolding state_sync_update_def proactive_sync_update_def postactive_sync_update_def by (rule upto_rules active_sync_update_upto replan_upto)+

lemma node_sync_update_upto: "upto (node_sync_update env run n ts g) (node_sync_update env run' n ts g)"
  unfolding node_sync_update_def by (rule upto_rules state_sync_update_upto)+

lemma node_reset_upto: "upto (node_reset run n ts oproot g) (node_reset run' n ts oproot g)"
  unfolding node_reset_def by (rule upto_rules reset_children_upto state_reset_upto)+

lemma call_body_upto: "upto (call_body env run c g) (call_body env run' c g)"
  by (cases c) (simp_all add: call_body_def set_state_upto node_sync_update_upto node_remove_upto node_fill_upto node_reset_upto set_interval_upto)

lemma active_exec_upto: "upto (active_exec env run n ts g) (active_exec env run' n ts g)"
  unfolding active_exec_def by (rule upto_rules on_eosd_upto set_state_ex_upto)+

lemma node_exec_upto: "upto (node_exec env run n ts g) (node_exec env run' n ts g)"
  unfolding node_exec_def by (rule upto_rules node_sync_update_upto active_exec_upto defer_interval_upto set_state_ex_upto)+

end

interpretation deeper: deeper_run "exec_call env k" "exec_call env (Suc k)" for env k
proof
  show "upto (exec_call env k c g) (exec_call env (Suc k) c g)" for c g
  proof (induction k arbitrary: c g)
    case 0
    show ?case by (simp add: upto_def)
  next
    case (Suc k)
    then have "deeper_run (exec_call env k) (exec_call env (Suc k))" by unfold_locales
    from deeper_run.call_body_upto [OF this] show ?case by simp
  qed
qed

lemma exec_call_deeper: "exec_call env k c g = Some g' \<Longrightarrow> exec_call env (k + m) c g = Some g'"
proof (induction m)
  case (Suc m)
  then show ?case using deeper.run_upto [of env "k + m" c g] by (simp add: upto_def)
qed simp

text \<open>
  A call that returns within some depth of nested calls returns the same graph whatever larger
  depth is allowed, so the result does not depend on the bound of the model.
\<close>

theorem depth_irrelevant:
  assumes "exec_call env k c g = Some a" "exec_call env l c g = Some b"
  shows "a = b \<and> exec_call env (max k l) c g = Some a"
proof -
  have "exec_call env (max k l) c g = Some a" "exec_call env (max k l) c g = Some b"
    using exec_call_deeper [OF assms(1), of "max k l - k"] exec_call_deeper [OF assms(2), of "max k l - l"] by simp_all
  then show ?thesis by simp
qed

text \<open>An "excl" whose first child plays at the higher priority.\<close>

definition excl_graph :: tgraph where
  "excl_graph =
     \<lparr>ln_up = [2 \<mapsto> 1, 3 \<mapsto> 1], ln_down = [1 \<mapsto> 2], ln_next = [2 \<mapsto> 3], ln_live = {1, 2, 3},
      tg_node = (\<lambda>n.
         if n = 1 then (mk_time_node tc_excl plain_attrs ''e'' ''excl'' Map.empty)
           \<lparr>n_state := ts_active, n_active := True, n_prio_attrs := [default_priority, default_priority]\<rparr>
         else if n = 2 then (mk_time_node tc_none plain_attrs ''a'' ''video'' Map.empty)
           \<lparr>n_state := ts_active, n_active := True, n_priority := 1, n_interval := mk_interval 0 5000\<rparr>
         else (mk_time_node tc_none plain_attrs ''b'' ''video'' Map.empty)\<lparr>n_state := ts_proactive\<rparr>),
      tg_rule = (\<lambda>_. idle_rule), tg_log = [], tg_next_rule = 0\<rparr>"

definition low_priority_begin :: call where
  "low_priority_begin = Set_interval 3 (1, 0) (mk_interval 0 5000)"

text \<open>The child of the lower class is deferred: it is queued and the other one plays on.\<close>

lemma low_priority_deferred:
  "map_option (\<lambda>g. (n_queue (tg_node g 1), n_deferred (tg_node g 3), n_active (tg_node g 2), tg_log g))
     (exec_call quiet_env 1 low_priority_begin excl_graph) = Some ([3], True, True, [])"
  by code_simp

theorem depth_irrelevant_witness:
  "exec_call quiet_env 1 low_priority_begin excl_graph = exec_call quiet_env 4 low_priority_begin excl_graph
    \<and> exec_call quiet_env 1 low_priority_begin excl_graph \<noteq> None"
proof -
  obtain a where a: "exec_call quiet_env 1 low_priority_begin excl_graph = Some a"
    using low_priority_deferred by (cases "exec_call quiet_env 1 low_priority_begin excl_graph") simp_all
  with exec_call_deeper [OF a, of 3] have b: "exec_call quiet_env 4 low_priority_begin excl_graph = Some a" by simp
  from depth_irrelevant [OF a b] a b show ?thesis by simp
qed

end
