(* ===== verification/Scheduler.thy ===== *)
theory Scheduler
  imports Time_Frame Time_Depth
begin

text \<open>
  The scheduler (smil2/time_sched.cpp): it asks the time graph for its pending events, executes those
  that are due at the document time it has reached, and drives the graph to the target of a
  hyperlink. \<open>k\<close> bounds the depth of the calls of the nodes and of the tree.
\<close>

record sched =
  sc_root :: nat
  sc_horizon :: int
  sc_locked :: bool
  sc_has_timer :: bool

type_synonym sched_state = "sched \<times> tgraph"

definition infinity :: int where
  "infinity = 2 ^ 64 - 1"

definition idle_resolution :: int where
  "idle_resolution = 10"

definition mk_sched :: "nat \<Rightarrow> bool \<Rightarrow> sched" where
  "mk_sched rt timer = \<lparr>sc_root = rt, sc_horizon = 0, sc_locked = False, sc_has_timer = timer\<rparr>"

definition sched_lock :: "sched_state \<Rightarrow> sched_state" where
  "sched_lock s = ((fst s)\<lparr>sc_locked := True\<rparr>, expect (sc_root (fst s)) (\<not> sc_locked (fst s)) (snd s))"

definition sched_unlock :: "sched_state \<Rightarrow> sched_state" where
  "sched_unlock s = ((fst s)\<lparr>sc_locked := False\<rparr>, expect (sc_root (fst s)) (sc_locked (fst s)) (snd s))"

definition update_horizon :: "int \<Rightarrow> sched \<Rightarrow> sched" where
  "update_horizon t s = s\<lparr>sc_horizon := max (sc_horizon s) t\<rparr>"

definition set_horizon :: "int \<Rightarrow> sched_state \<Rightarrow> sched_state" where
  "set_horizon t s = ((fst s)\<lparr>sc_horizon := t\<rparr>, emit (Clock_set t) (snd s))"

section \<open>Executing events\<close>

text \<open>The times of the events, in order, and the nodes of one time in the order they came.\<close>

definition event_times :: "(stime \<times> nat) list \<Rightarrow> stime list" where
  "event_times es = remdups (sort (map fst es))"

definition events_at :: "(stime \<times> nat) list \<Rightarrow> stime \<Rightarrow> nat list" where
  "events_at es t = map snd (filter (\<lambda>e. fst e = t) es)"

definition exec_nodes :: "env \<Rightarrow> nat \<Rightarrow> qtime \<Rightarrow> nat list \<Rightarrow> tgraph \<Rightarrow> tgraph option" where
  "exec_nodes env k ts ns = foldm (\<lambda>n. node_exec env (exec_call env k) n ts) ns"

definition sched_step :: "env \<Rightarrow> nat \<Rightarrow> int \<Rightarrow> sched_state \<Rightarrow> (int \<times> sched_state) option" where
  "sched_step env k now s =
     (let (sc, g) = s; rt = sc_root sc; g = expect rt (sc_locked sc) g
      in if \<not> n_active (tg_node g rt) then Some (infinity, (sc, g))
         else do {
           es \<leftarrow> get_pending_events k g rt [];
           case event_times es of
             [] \<Rightarrow> Some (infinity, (sc, g))
           | t # later \<Rightarrow>
               let nxt = max (sc_horizon sc) (to_ulong t)
               in if now < nxt then Some (nxt, (sc, g))
                  else do {
                    g \<leftarrow> exec_nodes env k (rt, to_long nxt) (events_at es t) g;
                    let sc = sc\<lparr>sc_horizon := nxt\<rparr>;
                    let g = (if sc_has_timer sc then emit (Clock_set nxt) g else g);
                    Some (case later of [] \<Rightarrow> nxt | u # _ \<Rightarrow> max nxt (to_ulong u), (sc, g)) } })"

definition sched_run :: "env \<Rightarrow> nat \<Rightarrow> sched_state \<Rightarrow> (int \<times> sched_state) option" where
  "sched_run env k s = do {
     let now = e_clock env (tg_log (snd s));
     (nxt, s) \<leftarrow> sched_step env k now s;
     Some (min idle_resolution (if now \<le> nxt then nxt - now else 0), s) }"

definition sched_exec :: "env \<Rightarrow> nat \<Rightarrow> sched_state \<Rightarrow> (int \<times> sched_state) option" where
  "sched_exec env k s =
     (if sc_locked (fst s) then Some (idle_resolution, s)
      else do { (w, s) \<leftarrow> sched_run env k (sched_lock s); Some (w, sched_unlock s) })"

section \<open>Reaching the target of a hyperlink\<close>

text \<open>
  Event after event is executed until the node is active. When nothing is left to wait for, what
  keeps the node from beginning is ended, at last the node is started by hand, and after eleven
  attempts the scheduler gives up.
\<close>

partial_function (option) activate_loop ::
    "env \<Rightarrow> nat \<Rightarrow> nat \<Rightarrow> int \<Rightarrow> nat \<Rightarrow> sched_state \<Rightarrow> sched_state option" where
  "activate_loop env k tn nxt tries s =
     (if \<not> n_active (tg_node (snd s) (sc_root (fst s))) \<or> n_active (tg_node (snd s) tn) then Some s
      else do {
        r \<leftarrow> sched_step env k nxt s;
        let (nxt, (sc, g)) = r;
        if nxt = infinity \<and> \<not> n_active (tg_node g tn)
        then do {
          g \<leftarrow> kill_blockers (exec_call env k) tn (sc_root sc, to_long (e_clock env (tg_log g))) g;
          g \<leftarrow> (if tries = 8 then node_start env (exec_call env k) tn g else Some g);
          if 10 < Suc tries then Some (sc, g) else activate_loop env k tn nxt (Suc tries) (sc, g) }
        else activate_loop env k tn nxt tries (sc, g) })"

declare activate_loop.simps [code]

definition activate_node :: "env \<Rightarrow> nat \<Rightarrow> nat \<Rightarrow> sched_state \<Rightarrow> sched_state option" where
  "activate_node env k tn s = activate_loop env k tn (e_clock env (tg_log (snd s))) 0 s"

definition on_graph :: "(tgraph \<Rightarrow> tgraph option) \<Rightarrow> sched_state \<Rightarrow> sched_state option" where
  "on_graph f s = map_option (Pair (fst s)) (f (snd s))"

definition branch_ffwd :: "bool \<Rightarrow> nat \<Rightarrow> tgraph \<Rightarrow> tgraph option" where
  "branch_ffwd b n g = do {
     visits \<leftarrow> branch_tour n g;
     Some (fold (\<lambda>(dn, m) g. if dn then set_ffwd_mode m b g else g) visits g) }"

definition check_active :: "nat \<Rightarrow> sched_state \<Rightarrow> sched_state" where
  "check_active p s = (fst s, expect p (n_active (tg_node (snd s) p)) (snd s))"

definition activate_seq_child :: "env \<Rightarrow> nat \<Rightarrow> nat \<Rightarrow> nat \<Rightarrow> sched_state \<Rightarrow> sched_state option" where
  "activate_seq_child env k p c s =
     (if n_active (tg_node (snd s) c) then Some s
      else do {
        ks \<leftarrow> get_children (snd s) p;
        if c \<notin> set ks then None
        else do {
          let s = check_active p s;
          let node = tg_node (snd s);
          let earlier = takeWhile (\<lambda>m. m \<noteq> c) (dropWhile (\<lambda>m. m \<noteq> c \<and> (n_active (node m) \<or> played (node m))) ks);
          s \<leftarrow> on_graph (foldm (branch_ffwd True) earlier) s;
          s \<leftarrow> foldm (\<lambda>m s. map_option (check_active p) (activate_node env k m s)) earlier s;
          s \<leftarrow> activate_node env k c s;
          on_graph (foldm (branch_ffwd False) earlier) (check_active p s) } })"

definition activate_par_child :: "env \<Rightarrow> nat \<Rightarrow> nat \<Rightarrow> nat \<Rightarrow> sched_state \<Rightarrow> sched_state option" where
  "activate_par_child env k p c s = activate_node env k c s"

definition activate_excl_child :: "env \<Rightarrow> nat \<Rightarrow> nat \<Rightarrow> nat \<Rightarrow> sched_state \<Rightarrow> sched_state option" where
  "activate_excl_child env k p c s =
     (if n_active (tg_node (snd s) c) then Some s
      else map_option (check_active p) (on_graph (node_start env (exec_call env k) c) s))"

definition activate_media_child :: "env \<Rightarrow> nat \<Rightarrow> nat \<Rightarrow> nat \<Rightarrow> sched_state \<Rightarrow> sched_state option" where
  "activate_media_child env k p c s = map_option (check_active p) (activate_node env k c s)"

definition activate_child :: "env \<Rightarrow> nat \<Rightarrow> nat \<Rightarrow> nat \<Rightarrow> sched_state \<Rightarrow> sched_state option" where
  "activate_child env k p c s =
     (case n_type (tg_node (snd s) p) of
        tc_seq \<Rightarrow> activate_seq_child env k p c s
      | tc_par \<Rightarrow> activate_par_child env k p c s
      | tc_excl \<Rightarrow> activate_excl_child env k p c s
      | tc_none \<Rightarrow> activate_media_child env k p c s)"

text \<open>A path of one node has no child to activate; the code reads past its end.\<close>

fun goto_path :: "env \<Rightarrow> nat \<Rightarrow> nat list \<Rightarrow> sched_state \<Rightarrow> sched_state option" where
  "goto_path env k (p # c # rest) s = do {
     s \<leftarrow> activate_child env k p c s;
     if rest = [] \<or> \<not> n_active (tg_node (snd s) c) then Some s else goto_path env k (c # rest) s }"
| "goto_path env k _ s = None"

definition sync_playable_clocks :: "env \<Rightarrow> nat \<Rightarrow> nat \<Rightarrow> tgraph \<Rightarrow> tgraph option" where
  "sync_playable_clocks env rt target g = do {
     visits \<leftarrow> branch_tour rt g;
     Some (fold (\<lambda>(dn, m) g. if dn \<and> m \<noteq> target then sync_playable_clock env m g else g) visits g) }"

definition goto_next :: "env \<Rightarrow> nat \<Rightarrow> nat \<Rightarrow> sched_state \<Rightarrow> sched_state option" where
  "goto_next env k tn s = do {
     path \<leftarrow> get_path (snd s) tn;
     let s = (fst s, fold (\<lambda>m. set_hyperjump_mode m True) path (snd s));
     s \<leftarrow> goto_path env k path s;
     let s = (fst s, fold (\<lambda>m. set_hyperjump_mode m False) path (snd s));
     on_graph (sync_playable_clocks env (sc_root (fst s)) tn) s }"

definition reset_document :: "sched_state \<Rightarrow> sched_state option" where
  "reset_document s = do {
     let g = expect (sc_root (fst s)) (sc_locked (fst s)) (snd s);
     visits \<leftarrow> branch_tour (sc_root (fst s)) g;
     g \<leftarrow> foldm (\<lambda>(dn, m) g. if dn then Some g else meta_reset m g) visits g;
     Some (set_horizon 0 (fst s, g)) }"

definition goto_previous :: "env \<Rightarrow> nat \<Rightarrow> nat \<Rightarrow> sched_state \<Rightarrow> sched_state option" where
  "goto_previous env k tn s = do {
     s \<leftarrow> reset_document s;
     s \<leftarrow> on_graph (node_start env (exec_call env k) (sc_root (fst s))) (set_horizon 0 s);
     if tn = sc_root (fst s) then Some s else goto_next env k tn s }"

definition resume_clock :: "sched_state \<Rightarrow> sched_state" where
  "resume_clock s = (fst s, emit Clock_resume (snd s))"

definition sched_start :: "env \<Rightarrow> nat \<Rightarrow> nat \<Rightarrow> sched_state \<Rightarrow> sched_state option" where
  "sched_start env k tn s = do {
     let s = sched_lock s;
     let s = (fst s, emit Clock_pause (snd s));
     let rt = sc_root (fst s);
     let fresh = (\<not> n_active (tg_node (snd s) rt));
     s \<leftarrow> (if fresh then on_graph (node_start env (exec_call env k) rt) (set_horizon 0 s) else Some s);
     if fresh \<and> tn = rt then Some (sched_unlock (resume_clock s))
     else do {
       let env' = env\<lparr>e_wait_for_eom := False\<rparr>;
       s \<leftarrow> (if is_valid (get_first_doc_interval (tg_node (snd s) tn))
            then goto_previous env' k tn s else goto_next env' k tn s);
       Some (sched_unlock (resume_clock s)) } }"

definition sched_reset_document :: "sched_state \<Rightarrow> sched_state option" where
  "sched_reset_document s = map_option sched_unlock (reset_document (sched_lock s))"

definition sched_restart :: "nat \<Rightarrow> sched_state \<Rightarrow> sched_state option" where
  "sched_restart tn s =
     (let g = snd s
      in if \<not> n_active (tg_node g tn) then Some s
         else do {
           t \<leftarrow> as_doc_time g (sync_node g tn, ibegin (n_interval (tg_node g tn)));
           let s = set_horizon (to_ulong t) s;
           Some (fst s, emit (Timer_set tn 0) (snd s)) })"

fun state_sig :: "time_state_type \<Rightarrow> char" where
  "state_sig ts_reset = CHR ''r''"
| "state_sig ts_proactive = CHR ''e''"
| "state_sig ts_active = CHR ''a''"
| "state_sig ts_postactive = CHR ''c''"
| "state_sig ts_dead = CHR ''d''"

definition get_state_sig :: "nat \<Rightarrow> tgraph \<Rightarrow> string option" where
  "get_state_sig n g = do {
     visits \<leftarrow> branch_tour n g;
     Some (map (\<lambda>(_, m). state_sig (n_state (tg_node g m))) (filter fst visits)) }"

section \<open>Documents that end\<close>

text \<open>
  Whether a document reaches its end without events: it is played through, from event to event, in
  a context \<open>env\<close> that answers for a player that shows nothing.
\<close>

partial_function (option) play_through ::
    "env \<Rightarrow> nat \<Rightarrow> nat \<Rightarrow> int \<Rightarrow> sched_state \<Rightarrow> sched_state option" where
  "play_through env k tn nxt s =
     (if n_active (tg_node (snd s) tn) \<and> nxt \<noteq> infinity
      then do { r \<leftarrow> sched_step env k nxt s; play_through env k tn (fst r) (snd r) }
      else Some s)"

declare play_through.simps [code]

definition sched_reset :: "env \<Rightarrow> nat \<Rightarrow> nat \<Rightarrow> tgraph \<Rightarrow> tgraph option" where
  "sched_reset env k tn g = node_reset (exec_call env k) tn (tn, 0) tn g"

definition has_resolved_end :: "env \<Rightarrow> nat \<Rightarrow> nat \<Rightarrow> tgraph \<Rightarrow> (bool \<times> tgraph) option" where
  "has_resolved_end env k tn g = do {
     g \<leftarrow> sched_reset env k tn g;
     g \<leftarrow> node_start env (exec_call env k) tn g;
     s \<leftarrow> play_through env k tn 0 (sched_lock (mk_sched tn False, g));
     let g = snd (sched_unlock s);
     let finished = (state_sig (n_state (tg_node g tn)) = CHR ''c'');
     g \<leftarrow> sched_reset env k tn g;
     Some (finished, g) }"

section \<open>What the scheduler keeps\<close>

text \<open>A step leaves the graph, but for the assertion, or executes the nodes of the first time.\<close>

lemma sched_step_cases:
  assumes "sched_step env k now (sc, g) = Some (w, (sc', g'))"
  obtains "sc' = sc" "g' = expect (sc_root sc) (sc_locked sc) g" "w = infinity \<or> now < w \<and> sc_horizon sc \<le> w"
  | es t later nxt h where
      "get_pending_events k (expect (sc_root sc) (sc_locked sc) g) (sc_root sc) [] = Some es" "event_times es = t # later"
      "nxt = max (sc_horizon sc) (to_ulong t)" "nxt \<le> now" "n_active (tg_node g (sc_root sc))"
      "exec_nodes env k (sc_root sc, to_long nxt) (events_at es t) (expect (sc_root sc) (sc_locked sc) g) = Some h"
      "sc' = sc\<lparr>sc_horizon := nxt\<rparr>" "g' = (if sc_has_timer sc then emit (Clock_set nxt) h else h)" "nxt \<le> w"
proof -
  let ?g = "expect (sc_root sc) (sc_locked sc) g"
  have node: "tg_node ?g = tg_node g" by (simp add: expect_def emit_def)
  show thesis
  proof (cases "n_active (tg_node g (sc_root sc))")
    case False
    with assms node show ?thesis by (intro that(1)) (auto simp: sched_step_def Let_def)
  next
    case active: True
    with assms node obtain es where es: "get_pending_events k ?g (sc_root sc) [] = Some es"
      by (auto simp: sched_step_def Let_def Option.bind_eq_Some_conv)
    show ?thesis
    proof (cases "event_times es")
      case Nil
      with assms node active es show ?thesis by (intro that(1)) (auto simp: sched_step_def Let_def)
    next
      case (Cons t later)
      show ?thesis
      proof (cases "now < max (sc_horizon sc) (to_ulong t)")
        case True
        with assms node active es Cons show ?thesis by (intro that(1)) (auto simp: sched_step_def Let_def)
      next
        case False
        with assms node active es Cons obtain h where
          "exec_nodes env k (sc_root sc, to_long (max (sc_horizon sc) (to_ulong t))) (events_at es t) ?g = Some h"
          "sc' = sc\<lparr>sc_horizon := max (sc_horizon sc) (to_ulong t)\<rparr>"
          "g' = (if sc_has_timer sc then emit (Clock_set (max (sc_horizon sc) (to_ulong t))) h else h)"
          "max (sc_horizon sc) (to_ulong t) \<le> w"
          by (auto simp: sched_step_def Let_def Option.bind_eq_Some_conv simp del: max.bounded_iff split: list.splits)
        with False es Cons active show ?thesis by (intro that(2) [OF es Cons refl]) (simp_all add: not_less)
      qed
    qed
  qed
qed

context kept
begin

lemma exec_nodes_keeps: "R g0 g \<Longrightarrow> okg R g0 (exec_nodes env k ts ns g)"
  unfolding exec_nodes_def
  by (rule okg_foldm, assumption) (rule kept_run.node_exec_keeps [OF exec_call_kept_run])

lemma sched_step_keeps: "sched_step env k now (sc, g) = Some (w, (sc', g')) \<Longrightarrow> R g g'"
proof (erule sched_step_cases)
  fix es t later nxt h
  assume "exec_nodes env k (sc_root sc, to_long nxt) (events_at es t) (expect (sc_root sc) (sc_locked sc) g) = Some h"
    and g': "g' = (if sc_has_timer sc then emit (Clock_set nxt) h else h)"
  then have "R g h" using exec_nodes_keeps [OF keep_expect [OF keep_refl]] by (auto simp: okg_def)
  then show ?thesis by (simp add: g' keep_emit)
qed (simp add: keep_expect keep_refl)

lemma sched_exec_keeps:
  assumes "sched_exec env k (sc, g) = Some (w, (sc', g'))"
  shows "R g g'"
proof (cases "sc_locked sc")
  case True
  with assms show ?thesis by (simp add: sched_exec_def keep_refl)
next
  case False
  with assms obtain now nxt sc1 g1 where
    "sched_step env k now (sc\<lparr>sc_locked := True\<rparr>, expect (sc_root sc) True g) = Some (nxt, (sc1, g1))"
    and g': "g' = expect (sc_root sc1) (sc_locked sc1) g1"
    by (auto simp: sched_exec_def sched_run_def sched_lock_def sched_unlock_def Let_def Option.bind_eq_Some_conv)
  then have "R (expect (sc_root sc) True g) g1" using sched_step_keeps by blast
  then have "R g g1" by (rule keep_trans [OF keep_expect [OF keep_refl]])
  then show ?thesis by (simp add: g' keep_expect)
qed

end

text \<open>The lower child of the example is due at 0: the scheduler begins it, which defers it.\<close>

definition waiting_graph :: tgraph where
  "waiting_graph = set_node_interval 3 (mk_interval 0 5000) excl_graph"

lemma waiting_executed:
  "map_option (\<lambda>(w, sc, g). (w, sc_horizon sc, n_queue (tg_node g 1), n_deferred (tg_node g 3), tg_log g))
     (sched_exec quiet_env 3 (mk_sched 1 True, waiting_graph)) = Some (10, 0, [3], True, [Clock_set 0])"
  by code_simp

lemma waiting_result:
  obtains sc g where "sched_exec quiet_env 3 (mk_sched 1 True, waiting_graph) = Some (10, (sc, g))"
    "n_queue (tg_node g 1) = [3]"
  using waiting_executed by (cases "sched_exec quiet_env 3 (mk_sched 1 True, waiting_graph)") auto

text \<open>
  C1: whatever the scheduler executes, the tree, the attributes of the elements and the arcs between
  them stay as they are and every arc is as locked as before; the commands given to the players and
  the played intervals of every element are kept, new ones come after them.
\<close>

theorem structure_stays:
  assumes "sched_exec env k (sc, g) = Some (w, (sc', g'))"
  shows "ln_up g' = ln_up g \<and> ln_down g' = ln_down g \<and> ln_next g' = ln_next g
    \<and> r_locked (tg_rule g' r) = r_locked (tg_rule g r) \<and> r_target (tg_rule g' r) = r_target (tg_rule g r)
    \<and> n_attrs (tg_node g' n) = n_attrs (tg_node g n) \<and> n_begin_list (tg_node g' n) = n_begin_list (tg_node g n)
    \<and> n_dependents (tg_node g' n) = n_dependents (tg_node g n)
    \<and> suffix (tg_log g) (tg_log g') \<and> prefix (n_doc_history (tg_node g n)) (n_doc_history (tg_node g' n))"
proof -
  have e: "evolves g g'" by (rule evo.sched_exec_keeps [OF assms])
  then have "structure_of (tg_node g' n) = structure_of (tg_node g n)"
    "rule_structure (tg_rule g' r) = rule_structure (tg_rule g r)" by (simp_all add: evolves_def)
  from arg_cong [OF this(1), of n_attrs] arg_cong [OF this(1), of n_begin_list] arg_cong [OF this(1), of n_dependents]
    arg_cong [OF this(2), of r_locked] arg_cong [OF this(2), of r_target] e
  show ?thesis by (simp add: evolves_def structure_of_def frozen_def rule_structure_def)
qed

theorem structure_stays_witness:
  "\<exists>sc g. sched_exec quiet_env 3 (mk_sched 1 True, waiting_graph) = Some (10, (sc, g))
    \<and> ln_next g = [2 \<mapsto> 3] \<and> suffix [] (tg_log g)"
proof -
  obtain sc g where x: "sched_exec quiet_env 3 (mk_sched 1 True, waiting_graph) = Some (10, (sc, g))"
    by (rule waiting_result)
  from structure_stays [OF x] x show ?thesis
    by (auto simp: waiting_graph_def set_node_interval_def upd_def excl_graph_def)
qed

text \<open>
  C2: if the queue of every "excl" element is sorted by priority without repetitions, it still is
  after the scheduler has executed what is due.
\<close>

theorem excl_queues_stay_sorted:
  assumes "sched_exec env k (sc, g) = Some (w, (sc', g'))"
    and "\<And>p. queue_ok (prio_in g) (n_queue (tg_node g p))"
  shows "queue_ok (prio_in g') (n_queue (tg_node g' p))"
proof -
  have "orders g g'" by (rule ord.sched_exec_keeps [OF assms(1)])
  then have "queues_sorted g'" using assms(2) unfolding orders_def queues_sorted_def by blast
  then show ?thesis by (simp add: queues_sorted_def)
qed

theorem excl_queues_stay_sorted_witness:
  "\<exists>sc g. sched_exec quiet_env 3 (mk_sched 1 True, waiting_graph) = Some (10, (sc, g))
    \<and> n_queue (tg_node g 1) = [3] \<and> queue_ok (prio_in g) (n_queue (tg_node g 1))"
proof -
  obtain sc g where x: "sched_exec quiet_env 3 (mk_sched 1 True, waiting_graph) = Some (10, (sc, g))"
    and q: "n_queue (tg_node g 1) = [3]" by (rule waiting_result)
  have "queue_ok (prio_in waiting_graph) (n_queue (tg_node waiting_graph p))" for p
    by (simp add: waiting_graph_def set_node_interval_def upd_def excl_graph_def mk_time_node_def queue_ok_def)
  from excl_queues_stay_sorted [OF x this] x q show ?thesis by blast
qed

text \<open>
  C3: the scheduler asks to be called again within its idle resolution, gives its lock back, and its
  horizon, the document time it has reached, never moves back.
\<close>

theorem sched_exec_bounds:
  assumes "sched_exec env k (sc, g) = Some (w, (sc', g'))"
  shows "0 \<le> w \<and> w \<le> idle_resolution \<and> sc_locked sc' = sc_locked sc \<and> sc_horizon sc \<le> sc_horizon sc'"
proof (cases "sc_locked sc")
  case True
  with assms show ?thesis by (auto simp: sched_exec_def idle_resolution_def)
next
  case False
  with assms obtain now nxt sc1 g1 where
    step: "sched_step env k now (sc\<lparr>sc_locked := True\<rparr>, expect (sc_root sc) True g) = Some (nxt, (sc1, g1))"
    and "sc' = sc1\<lparr>sc_locked := False\<rparr>" "w = min idle_resolution (if now \<le> nxt then nxt - now else 0)"
    by (auto simp: sched_exec_def sched_run_def sched_lock_def sched_unlock_def Let_def Option.bind_eq_Some_conv)
  moreover from step have "sc_horizon sc \<le> sc_horizon sc1" by (rule sched_step_cases) auto
  ultimately show ?thesis using False by (auto simp: idle_resolution_def)
qed

theorem sched_exec_bounds_witness:
  "\<exists>sc g. sched_exec quiet_env 3 (mk_sched 1 True, waiting_graph) = Some (10, (sc, g)) \<and> \<not> sc_locked sc \<and> 0 \<le> sc_horizon sc"
proof -
  obtain sc g where x: "sched_exec quiet_env 3 (mk_sched 1 True, waiting_graph) = Some (10, (sc, g))"
    by (rule waiting_result)
  from sched_exec_bounds [OF x] x show ?thesis by (auto simp: mk_sched_def)
qed

end
