(* ===== verification/Time_Kill.thy ===== *)
theory Time_Kill
  imports Time_Frame
begin

text \<open>
  Killing a branch of the time graph ends: with a depth of calls as large as the branch is high the
  state change to dead returns, and then nothing in the branch is active. This is shown for branches
  whose end nobody outside listens to: arcs with an offset or an event may hang everywhere, arcs on
  the begin or end of another element only where the killing does not raise them.
\<close>

section \<open>Branches whose end nobody hears\<close>

fun height :: "tree \<Rightarrow> nat" where
  "height (Node n ts) = Suc (Max (insert 0 (set (map height ts))))"

lemma height_child: "c \<in> set ts \<Longrightarrow> height c < height (Node n ts)"
  by (simp add: less_Suc_eq_le)

definition sts :: "tgraph \<Rightarrow> nat \<Rightarrow> time_state_type \<times> bool" where
  "sts g n = (n_state (tg_node g n), n_active (tg_node g n))"

definition idle :: "time_state_type \<times> bool \<Rightarrow> bool" where
  "idle s \<longleftrightarrow> fst s \<noteq> ts_active \<and> \<not> snd s"

text \<open>Only descendants of active nodes are active.\<close>

fun coherent :: "tree \<Rightarrow> (nat \<Rightarrow> time_state_type \<times> bool) \<Rightarrow> bool" where
  "coherent (Node n ts) f =
     (if fst (f n) = ts_active then (\<forall>c\<in>set ts. coherent c f) else (\<forall>m\<in>set (nodes (Node n ts)). idle (f m)))"

lemma coherent_cong: "(\<And>m. m \<in> set (nodes s) \<Longrightarrow> f m = f' m) \<Longrightarrow> coherent s f = coherent s f'"
proof (induction s)
  case (Node n ts)
  have "coherent c f = coherent c f'" if "c \<in> set ts" for c
    using that Node by auto
  moreover have "f n = f' n" "\<And>m. m \<in> set (nodes (Node n ts)) \<Longrightarrow> f m = f' m" using Node.prems by simp_all
  ultimately show ?case by (simp del: nodes.simps cong: ball_cong)
qed

lemma siblings_cong: "ln_up h' = ln_up h \<Longrightarrow> ln_next h' = ln_next h \<Longrightarrow> siblings h' p ks = siblings h p ks"
  by (induction ks) auto

lemma is_tree_cong:
  assumes "ln_up h' = ln_up h" "ln_down h' = ln_down h" "ln_next h' = ln_next h"
  shows "is_tree h' t = is_tree h t"
proof -
  have "family h' p ks = family h p ks" for p ks
    using siblings_cong [OF assms(1,3)] assms by (simp add: family_def)
  then show ?thesis using assms by (simp add: is_tree_def represents_def)
qed

text \<open>An element that still waits for an interval it has announced.\<close>

definition waiting :: "tgraph \<Rightarrow> nat \<Rightarrow> bool" where
  "waiting g n \<longleftrightarrow> n_state (tg_node g n) \<in> {ts_proactive, ts_postactive} \<and> is_valid (n_interval (tg_node g n))"

text \<open>Arcs with an offset or an event do nothing when an interval is changed or cancelled.\<close>

definition still_rule :: "tgraph \<Rightarrow> nat \<Rightarrow> bool" where
  "still_rule g r \<longleftrightarrow> r_kind (tg_rule g r) \<in> {offset_rule, event_rule}"

text \<open>
  The arc \<open>r\<close> on the event \<open>ev\<close> of \<open>n\<close> is not raised when the branch below \<open>b\<close> is killed: it has an
  offset or an event, or it leads to the branch itself and no announced interval is cancelled.
\<close>

definition arc_quiet :: "nat \<Rightarrow> tree \<Rightarrow> tgraph \<Rightarrow> nat \<Rightarrow> sync_event \<Rightarrow> nat \<Rightarrow> bool" where
  "arc_quiet b t g n ev r =
     (case ev of
        tn_begin \<Rightarrow> still_rule g r \<or> \<not> waiting g n
      | tn_end \<Rightarrow> still_rule g r \<or> r_target (tg_rule g r) \<in> below t b \<and> \<not> waiting g n
      | tn_end_event \<Rightarrow> r_kind (tg_rule g r) \<noteq> event_rule \<or> r_target (tg_rule g r) \<in> below t b
      | _ \<Rightarrow> True)"

definition unheard :: "nat \<Rightarrow> tree \<Rightarrow> nat set \<Rightarrow> tgraph \<Rightarrow> bool" where
  "unheard b t N g \<longleftrightarrow>
     (\<forall>n\<in>N. \<forall>ev. \<forall>r\<in>set (n_dependents (tg_node g n) ev). r_target (tg_rule g r) \<in> set (nodes t) \<and> arc_quiet b t g n ev r)"

definition ready :: "nat \<Rightarrow> tree \<Rightarrow> nat set \<Rightarrow> tgraph \<Rightarrow> bool" where
  "ready b t N g \<longleftrightarrow> is_tree g t \<and> (\<forall>n\<in>N. \<not> is_link (tg_node g n)) \<and> unheard b t N g"

lemma ready_node:
  "ready b t N g \<Longrightarrow> n \<in> N \<Longrightarrow> \<not> is_link (tg_node g n)"
  "ready b t N g \<Longrightarrow> n \<in> N \<Longrightarrow> r \<in> set (n_dependents (tg_node g n) ev) \<Longrightarrow> arc_quiet b t g n ev r"
  "ready b t N g \<Longrightarrow> n \<in> N \<Longrightarrow> r \<in> set (n_dependents (tg_node g n) ev) \<Longrightarrow> r_target (tg_rule g r) \<in> set (nodes t)"
  "ready b t N g \<Longrightarrow> is_tree g t"
  by (auto simp: ready_def unheard_def)

text \<open>No element becomes active or inactive, and none announces an interval.\<close>

definition no_wakes :: "tgraph \<Rightarrow> tgraph \<Rightarrow> bool" where
  "no_wakes g g' \<longleftrightarrow> (\<forall>n. waiting g' n \<longrightarrow> waiting g n)"

definition calm :: "tgraph \<Rightarrow> tgraph \<Rightarrow> bool" where
  "calm g g' \<longleftrightarrow> sts g' = sts g \<and> no_wakes g g'"

lemma calm_refl [simp]: "calm g g" and no_wakes_refl [simp]: "no_wakes g g"
  by (simp_all add: calm_def no_wakes_def)

lemma calm_trans: "calm g g1 \<Longrightarrow> calm g1 g2 \<Longrightarrow> calm g g2"
  and no_wakes_trans: "no_wakes g g1 \<Longrightarrow> no_wakes g1 g2 \<Longrightarrow> no_wakes g g2"
  by (simp_all add: calm_def no_wakes_def)

lemma arc_evolves:
  assumes "evolves g g'"
  shows "n_dependents (tg_node g' n) = n_dependents (tg_node g n)" "is_link (tg_node g' n) = is_link (tg_node g n)"
    "r_kind (tg_rule g' r) = r_kind (tg_rule g r)" "r_target (tg_rule g' r) = r_target (tg_rule g r)"
proof -
  have "structure_of (tg_node g' n) = structure_of (tg_node g n)" using assms by (simp add: evolves_def)
  from arg_cong [OF this, of n_dependents] arg_cong [OF this, of n_tag]
  show "n_dependents (tg_node g' n) = n_dependents (tg_node g n)" "is_link (tg_node g' n) = is_link (tg_node g n)"
    by (simp_all add: structure_of_def frozen_def is_link_def)
  have "rule_structure (tg_rule g' r) = rule_structure (tg_rule g r)" using assms by (simp add: evolves_def)
  from arg_cong [OF this, of r_kind] arg_cong [OF this, of r_target]
  show "r_kind (tg_rule g' r) = r_kind (tg_rule g r)" "r_target (tg_rule g' r) = r_target (tg_rule g r)"
    by (simp_all add: rule_structure_def)
qed

lemma ready_evolves:
  assumes "ready b t N g" "evolves g g'" "no_wakes g g'"
  shows "ready b t N g'"
proof -
  have "arc_quiet b t g' n ev r" if "arc_quiet b t g n ev r" for n ev r
    using that assms(3) arc_evolves [OF assms(2)]
    by (auto simp: arc_quiet_def no_wakes_def still_rule_def split: sync_event.splits)
  moreover have "is_tree g' t" using assms(1,2) is_tree_cong [of g' g t] by (simp add: ready_def evolves_def)
  ultimately show ?thesis using assms(1) arc_evolves [OF assms(2)] by (auto simp: ready_def unheard_def)
qed

lemma sts_simps [simp]:
  "sts (emit c g) = sts g" "sts (expect n b g) = sts g" "sts (timer_cmd n c g) = sts g"
  "sts (raise_update_event n ts g) = sts g" "sts (set_node_interval n i g) = sts g"
  "sts (pause_playable n d g) = sts g" "sts (stop_playable n g) = sts g" "sts (set_queue p q g) = sts g"
  "sts (excl_remove p n g) = sts g" "sts (tell_parent n ts g) = sts g"
  by (auto simp: sts_def emit_def expect_def timer_cmd_def raise_update_event_def upd_def set_node_interval_def
      pause_playable_def stop_playable_def Let_def set_queue_def excl_remove_def tell_parent_def
      split: option.split)

lemma waiting_simps [simp]:
  "waiting (emit c g) = waiting g" "waiting (expect n b g) = waiting g" "waiting (timer_cmd n c g) = waiting g"
  "waiting (raise_update_event n ts g) = waiting g" "waiting (pause_playable n d g) = waiting g"
  "waiting (stop_playable n g) = waiting g" "waiting (set_queue p q g) = waiting g"
  "waiting (excl_remove p n g) = waiting g" "waiting (tell_parent n ts g) = waiting g"
  by (auto simp: fun_eq_iff waiting_def emit_def expect_def timer_cmd_def raise_update_event_def upd_def
      pause_playable_def stop_playable_def Let_def set_queue_def excl_remove_def tell_parent_def
      split: option.split)

lemma sts_upd: "(\<And>x. n_state (f x) = n_state x) \<Longrightarrow> (\<And>x. n_active (f x) = n_active x) \<Longrightarrow> sts (upd n f g) = sts g"
  by (auto simp: sts_def upd_def)

lemma waiting_upd:
  "(\<And>x. n_state (f x) = n_state x) \<Longrightarrow> (\<And>x. n_interval (f x) = n_interval x) \<Longrightarrow> waiting (upd n f g) = waiting g"
  by (auto simp: fun_eq_iff waiting_def upd_def)

lemma part_trans: "part_of u t \<Longrightarrow> part_of s u \<Longrightarrow> part_of s t"
  by (induction rule: part_of.induct) (auto intro: part_of.sub)

section \<open>Conversions on a tree return\<close>

lemma as_time_down_to_returns:
  assumes "is_tree g t" "n \<in> set (nodes t)"
  obtains x where "as_time_down_to g n q = Some x"
proof -
  obtain p where "path_in t p" "last p = n" using path_exists [OF assms(2)] by auto
  with get_path_in [OF assms(1)] have "get_path g n = Some p" by auto
  with that show thesis
    by (cases "Some (fst q) = ln_up g n"; cases "ln_up g n") (auto simp: as_time_down_to_def to_descendent_def Let_def)
qed

lemma to_doc_returns:
  assumes "is_tree g t" "path_in t p" "p = xs @ [m]"
  shows "\<exists>x. to_doc g (m, y) = Some x"
  using assms(2,3)
proof (induction xs arbitrary: p m y rule: rev_induct)
  case Nil
  with path_in_hd [OF Nil(1)] have "m = label t" by simp
  with assms(1) show ?case by (subst to_doc.simps) (simp add: is_tree_def qt_up_def)
next
  case (snoc u xs)
  have t: "represents g t" using assms(1) by (simp add: is_tree_def)
  have up: "ln_up g m = Some u" using path_step_up [OF snoc(2) t, of xs u m "[]"] snoc(3) by simp
  have "path_in t (xs @ [u])" using path_prefix [OF snoc(2), of xs u "[m]"] snoc(3) by simp
  from snoc.IH [OF this refl] up show ?case
    by (subst to_doc.simps) (auto simp: qt_up_def Let_def)
qed

lemma as_doc_time_returns:
  assumes "is_tree g t" "n \<in> set (nodes t)"
  obtains x where "as_doc_time g (n, y) = Some x"
proof -
  obtain p where p: "path_in t p" "last p = n" using path_exists [OF assms(2)] by auto
  with path_in_hd [OF p(1)] have "p = butlast p @ [n]" by (metis append_butlast_last_id)
  from to_doc_returns [OF assms(1) p(1) this] that show thesis by (auto simp: as_doc_time_def)
qed

lemma each_child_returns:
  assumes "is_tree g t" "part_of (Node n ts) t"
  obtains x where "each_child f n q g = foldm (\<lambda>k. f k (n, x)) (map label ts) g"
proof -
  have n: "n \<in> set (nodes t)" using part_nodes [OF assms(2)] by auto
  have "represents g (Node n ts)" using represents_part [OF assms(2), of g] assms(1) by (simp add: is_tree_def)
  then have k: "get_children g n = Some (map label ts)" by (intro get_children_family represents_family)
  obtain x where "as_time_down_to g n q = Some x" using as_time_down_to_returns [OF assms(1) n] .
  with k that show thesis by (simp add: each_child_def as_qtime_down_to_def)
qed

section \<open>Removing and filling return\<close>

lemma foldm_returns:
  assumes "\<And>c g. c \<in> set cs \<Longrightarrow> ready b t N g \<Longrightarrow> \<exists>g'. f c g = Some g' \<and> calm g g' \<and> evolves g g'" "ready b t N g"
  shows "\<exists>g'. foldm f cs g = Some g' \<and> calm g g' \<and> evolves g g'"
  using assms
proof (induction cs arbitrary: g)
  case Nil
  show ?case by (simp add: evo.keep_refl)
next
  case (Cons c cs)
  obtain g1 where g1: "f c g = Some g1" "calm g g1" "evolves g g1" using Cons.prems by fastforce
  have "\<exists>g'. foldm f cs g1 = Some g' \<and> calm g1 g' \<and> evolves g1 g'"
    using Cons.prems(1) ready_evolves [OF Cons.prems(2) g1(3)] g1(2) by (intro Cons.IH) (auto simp: calm_def)
  then obtain g2 where "foldm f cs g1 = Some g2" "calm g1 g2" "evolves g1 g2" by blast
  with g1 show ?case using evo.keep_trans calm_trans by fastforce
qed

lemma node_remove_returns:
  "ready b t N g \<Longrightarrow> part_of s t \<Longrightarrow> height s \<le> Suc k \<Longrightarrow>
   \<exists>g'. node_remove (exec_call env k) (label s) q g = Some g' \<and> calm g g'"
proof (induction s arbitrary: k g q)
  case (Node n ts)
  have tree: "is_tree g t" using Node.prems(1) by (simp add: ready_def)
  have one: "\<exists>g'. exec_call env k (Remove (label c) x) g = Some g' \<and> calm g g' \<and> evolves g g'"
    if c: "c \<in> set ts" and g: "ready b t N g" for c x g
  proof -
    have "height c \<le> k" using height_child [OF c, of n] Node.prems(3) by linarith
    moreover from this obtain k' where k: "k = Suc k'" by (cases c; cases k) auto
    moreover have "part_of c t" using part_trans [OF Node.prems(2) part_of.sub [OF c part_of.self]] .
    ultimately obtain g' where "node_remove (exec_call env k') (label c) x g = Some g'" "calm g g'"
      using Node.IH [OF c g, of k' x] by auto
    then have "exec_call env k (Remove (label c) x) g = Some g'" "calm g g'" by (simp_all add: k call_body_def)
    then show ?thesis using evo.exec_call_keeps by blast
  qed
  obtain x where "each_child (\<lambda>c q. exec_call env k (Remove c q)) n q g
      = foldm (\<lambda>c. exec_call env k (Remove c (n, x))) (map label ts) g"
    using each_child_returns [OF tree Node.prems(2)] .
  moreover have "\<exists>g'. foldm (\<lambda>c. exec_call env k (Remove c (n, x))) (map label ts) g = Some g' \<and> calm g g' \<and> evolves g g'"
    using Node.prems(1) by (intro foldm_returns) (auto intro: one)
  ultimately obtain g1 where "each_child (\<lambda>c q. exec_call env k (Remove c q)) n q g = Some g1" "calm g g1" by auto
  then show ?case by (auto simp: node_remove_def Let_def calm_def no_wakes_def sts_upd waiting_upd)
qed

lemma node_fill_returns:
  "ready b t N g \<Longrightarrow> part_of s t \<Longrightarrow> height s \<le> Suc k \<Longrightarrow>
   \<exists>g'. node_fill (exec_call env k) (label s) q g = Some g' \<and> calm g g'"
proof (induction s arbitrary: k g q)
  case (Node n ts)
  show ?case
  proof (cases "n_needs_remove (tg_node g n) \<and> m_fill (n_attrs (tg_node g n)) \<noteq> fill_remove")
    case False
    with node_remove_returns [OF Node.prems] show ?thesis by (auto simp: node_fill_def Let_def)
  next
    case True
    let ?g = "emit (Node_filled n) g"
    have e: "evolves g ?g" by (rule evo.keep_emit [OF evo.keep_refl])
    have ready: "ready b t N ?g" using ready_evolves [OF Node.prems(1) e] by (simp add: no_wakes_def)
    then have tree: "is_tree ?g t" by (simp add: ready_def)
    have one: "\<exists>g'. exec_call env k (Fill (label c) x) g = Some g' \<and> calm g g' \<and> evolves g g'"
      if c: "c \<in> set ts" and g: "ready b t N g" for c x g
    proof -
      have "height c \<le> k" using height_child [OF c, of n] Node.prems(3) by linarith
      moreover from this obtain k' where k: "k = Suc k'" by (cases c; cases k) auto
      moreover have "part_of c t" using part_trans [OF Node.prems(2) part_of.sub [OF c part_of.self]] .
      ultimately obtain g' where "node_fill (exec_call env k') (label c) x g = Some g'" "calm g g'"
        using Node.IH [OF c g, of k' x] by auto
      then have "exec_call env k (Fill (label c) x) g = Some g'" "calm g g'" by (simp_all add: k call_body_def)
      then show ?thesis using evo.exec_call_keeps by blast
    qed
    obtain x where "each_child (\<lambda>c q. exec_call env k (Fill c q)) n q ?g
        = foldm (\<lambda>c. exec_call env k (Fill c (n, x))) (map label ts) ?g"
      using each_child_returns [OF tree Node.prems(2)] .
    moreover have "\<exists>g'. foldm (\<lambda>c. exec_call env k (Fill c (n, x))) (map label ts) ?g = Some g' \<and> calm ?g g' \<and> evolves ?g g'"
      using ready by (intro foldm_returns) (auto intro: one)
    ultimately obtain g1 where "each_child (\<lambda>c q. exec_call env k (Fill c q)) n q ?g = Some g1" "calm ?g g1" by auto
    with True show ?thesis by (auto simp: node_fill_def Let_def calm_def no_wakes_def)
  qed
qed

section \<open>Ending the interval\<close>

lemma foldm_idle: "(\<And>r. r \<in> set rs \<Longrightarrow> f r g = Some g) \<Longrightarrow> foldm f rs g = Some g"
  by (induction rs) auto

lemma passes_below:
  assumes "is_tree g t" "m \<in> set (nodes t)"
  shows "passes g (Some b) m = Some (m \<notin> below t b)"
proof -
  obtain p where p: "path_in t p" "last p = m" using path_exists [OF assms(2)] by auto
  from is_descendent_path [OF assms(1) p(1), of b] below_path [OF assms(1) p(1), of b] p(2)
  show ?thesis by (simp add: passes_def)
qed

lemma still_rule_idle:
  assumes "still_rule g r"
  shows "rule_cancel_instance run r q i g = Some g" "rule_update_instance run r q i j g = Some g"
  using assms by (auto simp: still_rule_def rule_cancel_instance_def rule_update_instance_def)

lemma cancel_idle:
  "\<forall>r\<in>set (n_dependents (tg_node g n) ev). still_rule g r \<Longrightarrow> on_cancel_instance run n q ev i None g = Some g"
  by (auto simp: on_cancel_instance_def passes_def still_rule_idle intro!: foldm_idle)

lemma update_end_idle:
  assumes "ready b t N g" "n \<in> N"
  shows "on_update_instance run n q tn_end i j (Some b) g = Some g"
  unfolding on_update_instance_def
proof (rule foldm_idle)
  fix r assume r: "r \<in> set (n_dependents (tg_node g n) tn_end)"
  from ready_node(2) [OF assms r]
  show "do { d \<leftarrow> passes g (Some b) (r_target (tg_rule g r)); if d then rule_update_instance run r q i j g else Some g } = Some g"
    by (auto simp: arc_quiet_def still_rule_idle(2) passes_below [OF ready_node(4) [OF assms(1)] ready_node(3) [OF assms r]])
qed

lemma add_pass_idle:
  assumes "is_tree g t"
  shows "(\<And>r. r \<in> set rs \<Longrightarrow> r_target (tg_rule g r) \<in> set (nodes t)
      \<and> (r_kind (tg_rule g r) \<noteq> event_rule \<or> r_target (tg_rule g r) \<in> below t b)) \<Longrightarrow>
    \<exists>ds'. add_pass run q i d (Some b) rs act rt (ds, g) = Some (ds', g)"
proof (induction rs arbitrary: ds)
  case (Cons r rs)
  have "\<exists>ds'. add_pass run q i d (Some b) rs act rt (ds, g) = Some (ds', g)" for ds using Cons by simp
  moreover have "rule_add_instance run r q i d g = Some g" if "r_target (tg_rule g r) \<notin> below t b"
    using Cons.prems [of r] that by (simp add: rule_add_instance_def)
  ultimately show ?case
    using passes_below [OF assms, of "r_target (tg_rule g r)" b] Cons.prems [of r] by (auto simp: add_pass_def Let_def)
qed (simp add: add_pass_def)

lemma add_end_idle:
  assumes "ready b t N g" "n \<in> N"
  shows "on_add_instance run n q tn_end_event i d (Some b) g = Some g"
proof -
  have "\<exists>ds'. add_pass run q i d (Some b) (n_dependents (tg_node g n) tn_end_event) act rt (ds, g) = Some (ds', g)"
    for act rt ds
    using ready_node(2,3) [OF assms] by (intro add_pass_idle [OF ready_node(4) [OF assms(1)]]) (fastforce simp: arc_quiet_def)
  then show ?thesis unfolding on_add_instance_def Let_def
    by (metis (no_types, lifting) bind.bind_lunit snd_conv)
qed

lemma cancel_valid_interval_returns:
  assumes "ready b t N g" "n \<in> N" "n_state (tg_node g n) \<in> {ts_proactive, ts_postactive}"
  shows "\<exists>g'. cancel_valid_interval run n q g = Some g' \<and> calm g g' \<and> ready b t N g'"
proof (cases "is_valid (n_interval (tg_node g n))")
  case True
  let ?g = "set_node_interval n interval_unresolved (expect n True g)"
  have e: "evolves g ?g" by (rule evo.keep_set_node_interval [OF evo.keep_expect [OF evo.keep_refl]])
  have c: "calm g ?g"
    by (auto simp: calm_def no_wakes_def waiting_def sts_def fun_eq_iff set_node_interval_def upd_def expect_def)
  have r: "ready b t N ?g" using ready_evolves [OF assms(1) e] c by (simp add: calm_def)
  have w: "waiting g n" using True assms(3) by (simp add: waiting_def)
  have "\<forall>r\<in>set (n_dependents (tg_node ?g n) ev). still_rule ?g r" if "ev = tn_begin \<or> ev = tn_end" for ev
  proof
    fix r assume "r \<in> set (n_dependents (tg_node ?g n) ev)"
    with ready_node(2) [OF assms(1,2), of r ev] w that arc_evolves [OF e] have "still_rule g r" by (auto simp: arc_quiet_def)
    with arc_evolves(3) [OF e] show "still_rule ?g r" by (simp add: still_rule_def)
  qed
  then have "on_cancel_instance run n q ev i None ?g = Some ?g" if "ev = tn_begin \<or> ev = tn_end" for ev i
    using that by (intro cancel_idle) blast
  then have "cancel_valid_interval run n q g = Some ?g"
    using True by (simp add: cancel_valid_interval_def cancel_interval_def Let_def)
  with r c show ?thesis by simp
qed (use assms in \<open>simp add: cancel_valid_interval_def\<close>)

lemma raise_end_event_returns:
  assumes "ready b t N g" "n \<in> N" "fst q = sync_node g n" "n_state (tg_node g n) = ts_active"
  shows "\<exists>g'. raise_end_event run n q b g = Some g' \<and> calm g g'"
proof -
  let ?u = "upd n (\<lambda>x. x\<lparr>n_interval := (n_interval x)\<lparr>iend := snd q\<rparr>\<rparr>) g"
  have c: "calm g ?u" using assms(4) by (auto simp: calm_def no_wakes_def waiting_def sts_def fun_eq_iff upd_def)
  have "ready b t N ?u"
    using ready_evolves [OF assms(1) evo.keep_upd [OF evo.keep_refl]] c by (simp add: frozen_def calm_def)
  from add_end_idle [OF this assms(2)] add_end_idle [OF assms(1,2)] update_end_idle [OF assms(1,2)] assms(3) c
  show ?thesis
    by (auto simp: raise_end_event_def Let_def sts_upd waiting_upd calm_def no_wakes_def intro!: exI)
qed

lemma sync_node_in:
  assumes "is_tree g t" "n \<in> set (nodes t)"
  shows "sync_node g n \<in> set (nodes t)"
proof -
  obtain p where p: "path_in t p" "last p = n" using path_exists [OF assms(2)] by auto
  show ?thesis
  proof (cases "ln_up g n")
    case (Some u)
    from path_in_hd [OF p(1)] p(2) obtain xs where xs: "p = xs @ [n]" by (metis append_butlast_last_id)
    show ?thesis
    proof (cases xs rule: rev_cases)
      case Nil
      with xs path_in_hd [OF p(1)] assms(1) Some show ?thesis by (simp add: is_tree_def)
    next
      case (snoc ys v)
      have "represents g t" using assms(1) by (simp add: is_tree_def)
      from path_step_up [OF p(1) this, of ys v n "[]"] xs snoc Some have "u = v" by simp
      with path_in_nodes [OF p(1)] xs snoc Some show ?thesis by (auto simp: sync_node_def)
    qed
  qed (simp add: sync_node_def assms(2))
qed

lemma played_interval_returns:
  assumes "is_tree g t" "n \<in> set (nodes t)"
  shows "\<exists>g'. played_interval n g = Some g' \<and> calm g g'"
proof -
  let ?g = "upd n (\<lambda>x. x\<lparr>n_history := n_history x @ [n_interval (tg_node g n)]\<rparr>) g"
  have t: "is_tree ?g t" using is_tree_cong [of ?g g t] assms(1) by (simp add: upd_def)
  have n: "sync_node ?g n \<in> set (nodes t)"
    using sync_node_in [OF assms] by (simp add: sync_node_def upd_def)
  obtain b where "as_doc_time ?g (sync_node ?g n, ibegin (n_interval (tg_node g n))) = Some b"
    using as_doc_time_returns [OF t n] by blast
  moreover obtain e where "as_doc_time ?g (sync_node ?g n, iend (n_interval (tg_node g n))) = Some e"
    using as_doc_time_returns [OF t n] by blast
  ultimately show ?thesis
    by (auto simp: played_interval_def Let_def sts_def fun_eq_iff calm_def no_wakes_def waiting_def upd_def)
qed

section \<open>Killing a branch\<close>

definition killed :: "nat set \<Rightarrow> tgraph \<Rightarrow> tgraph \<Rightarrow> bool" where
  "killed N g g' \<longleftrightarrow> (\<forall>m\<in>N. idle (sts g' m)) \<and> (\<forall>m. m \<notin> N \<longrightarrow> sts g' m = sts g m) \<and> no_wakes g g'"

lemma kill_fold:
  assumes "\<And>c g. c \<in> set cs \<Longrightarrow> ready b t M g \<Longrightarrow> coherent c (sts g) \<Longrightarrow> ln_up g (label c) = Some n \<Longrightarrow>
      \<exists>g'. f (label c) g = Some g' \<and> evolves g g' \<and> killed (set (nodes c)) g g'"
    and "distinct (concat (map nodes cs))" "ready b t M g" "\<forall>c\<in>set cs. coherent c (sts g) \<and> ln_up g (label c) = Some n"
  shows "\<exists>g'. foldm f (map label cs) g = Some g' \<and> evolves g g' \<and> killed (\<Union>c\<in>set cs. set (nodes c)) g g'"
  using assms
proof (induction cs arbitrary: g)
  case Nil
  show ?case by (simp add: evo.keep_refl killed_def)
next
  case (Cons c cs)
  obtain g1 where g1: "f (label c) g = Some g1" "evolves g g1" "killed (set (nodes c)) g g1"
    using Cons.prems by (meson list.set_intros(1))
  have "\<forall>d\<in>set cs. coherent d (sts g1) \<and> ln_up g1 (label d) = Some n"
  proof
    fix d assume d: "d \<in> set cs"
    have "sts g1 m = sts g m" if "m \<in> set (nodes d)" for m
      using that Cons.prems(2) d g1(3) by (auto simp: killed_def)
    moreover have "coherent d (sts g)" "ln_up g (label d) = Some n" using Cons.prems(4) d by auto
    ultimately show "coherent d (sts g1) \<and> ln_up g1 (label d) = Some n"
      using coherent_cong [of d "sts g1" "sts g"] g1(2) by (simp add: evolves_def)
  qed
  moreover have "distinct (concat (map nodes cs))" using Cons.prems(2) by simp
  moreover have "ready b t M g1" using ready_evolves [OF Cons.prems(3) g1(2)] g1(3) by (simp add: killed_def)
  ultimately obtain g2 where g2: "foldm f (map label cs) g1 = Some g2" "evolves g1 g2"
      "killed (\<Union>d\<in>set cs. set (nodes d)) g1 g2"
    using Cons.IH [of g1] Cons.prems(1) by auto
  have "killed (\<Union>d\<in>set (c # cs). set (nodes d)) g g2"
    using g1(3) g2(3) no_wakes_trans [of g g1 g2] unfolding killed_def by (auto; metis)
  with g1 g2 evo.keep_trans show ?case by fastforce
qed

lemma kill_branch:
  "ready b t M g \<Longrightarrow> part_of s t \<Longrightarrow> set (nodes s) \<subseteq> M \<Longrightarrow> coherent s (sts g) \<Longrightarrow> fst q = sync_node g (label s) \<Longrightarrow> height s \<le> k \<Longrightarrow>
   \<exists>g'. exec_call env k (Set_state (label s) ts_dead q b) g = Some g'
      \<and> n_state (tg_node g' (label s)) = ts_dead \<and> killed (set (nodes s)) g g'"
proof (induction s arbitrary: k g q)
  case (Node n ts)
  obtain k' where k: "k = Suc k'" using Node.prems(6) by (cases k) auto
  let ?run = "exec_call env k'"
  let ?dead = "upd n (\<lambda>x. x\<lparr>n_state := ts_dead\<rparr>)"
  have n: "n \<in> set (nodes t)" using part_nodes [OF Node.prems(2)] by auto
  have dist: "distinct (nodes (Node n ts))"
    using distinct_part [OF Node.prems(2)] Node.prems(1) by (simp add: ready_def is_tree_def)
  show ?case
  proof (cases "n_state (tg_node g n) = ts_active")
    case False
    then have "\<forall>m\<in>set (nodes (Node n ts)). idle (sts g m)" using Node.prems(4) by (simp add: sts_def)
    moreover have "exec_call env k (Set_state n ts_dead q b) g
        = Some (if n_state (tg_node g n) = ts_dead then g else ?dead g)"
      using False by (cases "n_state (tg_node g n)") (simp_all add: k call_body_def set_state_def state_exit_def state_enter_def)
    ultimately show ?thesis by (auto simp: killed_def sts_def upd_def idle_def no_wakes_def waiting_def)
  next
    case True
    let ?g0 = "upd n (\<lambda>x. x\<lparr>n_active := False\<rparr>) g"
    have r0: "ready b t M ?g0" using ready_evolves [OF Node.prems(1) evo.keep_upd [OF evo.keep_refl]] by (simp add: frozen_def no_wakes_def waiting_upd)
    obtain g1 where g1: "node_fill ?run n q ?g0 = Some g1" "calm ?g0 g1"
      using node_fill_returns [OF r0 Node.prems(2), of k' env q] Node.prems(6) k by auto
    have e0: "evolves g ?g0" by (intro evo.keep_upd evo.keep_refl) (simp add: frozen_def)
    then have e1: "evolves g g1" using g1(1) evo_run.node_fill_keeps by (auto simp: okg_def)
    have s1: "sts g1 = sts ?g0" "no_wakes g g1" using g1(2) by (simp_all add: calm_def no_wakes_def waiting_upd)
    have r1: "ready b t M g1" using ready_evolves [OF Node.prems(1) e1 s1(2)] .
    let ?kill = "\<lambda>k q g. if is_link (tg_node g k) \<and> ln_up g k = Some b
        then ?run (Set_state k ts_postactive q b) g else state_kill ?run k q b g"
    obtain x where x: "each_child ?kill n q g1 = foldm (\<lambda>k. ?kill k (n, x)) (map label ts) g1"
      using each_child_returns [of g1 t n ts ?kill q] r1 Node.prems(2) by (auto simp: ready_def)
    have step: "\<exists>g'. ?kill (label c) (n, x) g = Some g' \<and> evolves g g' \<and> killed (set (nodes c)) g g'"
      if c: "c \<in> set ts" and g: "ready b t M g" "coherent c (sts g)" "ln_up g (label c) = Some n" for c g
    proof -
      have "part_of c t" using part_trans [OF Node.prems(2) part_of.sub [OF c part_of.self]] .
      moreover have sub: "set (nodes c) \<subseteq> M" using Node.prems(3) c by auto
      then have m: "label c \<in> M" by (cases c) auto
      moreover have "height c \<le> k'" using height_child [OF c, of n] Node.prems(6) k by linarith
      ultimately have dead: "\<exists>g'. ?run (Set_state (label c) ts_dead (n, x) b) h = Some g'
          \<and> killed (set (nodes c)) h g'" if "ready b t M h" "sts h = sts g" "ln_up h = ln_up g" for h
        using Node.IH [OF c that(1), of "(n, x)" k'] g(2,3) that(2,3) sub by (auto simp: sync_node_def)
      have "\<exists>g'. state_kill ?run (label c) (n, x) b g = Some g' \<and> killed (set (nodes c)) g g'"
      proof (cases "n_state (tg_node g (label c)) \<in> {ts_proactive, ts_postactive}")
        case True
        then obtain h where h: "cancel_valid_interval ?run (label c) (n, x) g = Some h" "calm g h" "ready b t M h"
          using cancel_valid_interval_returns [OF g(1) m] by blast
        then have hs: "sts h = sts g" "no_wakes g h" by (simp_all add: calm_def)
        have "evolves g h"
          using evo_run.cancel_valid_interval_keeps [OF evo.keep_refl] h(1) by (auto simp: okg_def)
        then have "ln_up h = ln_up g" by (simp add: evolves_def)
        with dead [OF h(3) hs(1)] obtain g' where "?run (Set_state (label c) ts_dead (n, x) b) h = Some g'"
            "killed (set (nodes c)) h g'" by blast
        with h(1) hs no_wakes_trans [of g h g'] True show ?thesis
          by (auto simp: state_kill_def proactive_kill_def postactive_kill_def killed_def)
      next
        case False
        show ?thesis
        proof (cases "n_state (tg_node g (label c)) = ts_dead")
          case True
          with g(2) show ?thesis by (cases c) (simp add: state_kill_def killed_def sts_def)
        next
          case nd: False
          with False dead [OF g(1)] show ?thesis
            by (cases "n_state (tg_node g (label c))") (auto simp: state_kill_def)
        qed
      qed
      then obtain g' where g': "state_kill ?run (label c) (n, x) b g = Some g'" "killed (set (nodes c)) g g'" by blast
      moreover have "evolves g g'"
        using evo_run.state_kill_keeps [OF evo.keep_refl] g'(1) by (auto simp: okg_def)
      ultimately show ?thesis using ready_node(1) [OF g(1) m] by simp
    qed
    have "\<forall>c\<in>set ts. coherent c (sts g1) \<and> ln_up g1 (label c) = Some n"
    proof
      fix c assume c: "c \<in> set ts"
      have "sts g1 m = sts g m" if "m \<in> set (nodes c)" for m
        using that c dist s1(1) by (auto simp: sts_def upd_def)
      moreover have "fst (sts g n) = ts_active" using True by (simp add: sts_def)
      then have "coherent c (sts g)" using Node.prems(4) c by simp
      moreover have "ln_up g1 (label c) = Some n"
      proof -
        have "represents g1 (Node n ts)"
          using represents_part [OF Node.prems(2), of g1] r1 by (simp add: ready_def is_tree_def)
        from family_up [OF represents_family [OF this], of "label c"] c show ?thesis by simp
      qed
      ultimately show "coherent c (sts g1) \<and> ln_up g1 (label c) = Some n"
        using coherent_cong [of c "sts g1" "sts g"] by simp
    qed
    moreover have "distinct (concat (map nodes ts))" using dist by simp
    ultimately obtain g2 where g2: "each_child ?kill n q g1 = Some g2" "evolves g1 g2"
        "killed (\<Union>c\<in>set ts. set (nodes c)) g1 g2"
      using kill_fold [of ts b t M n "\<lambda>k. ?kill k (n, x)" g1] step r1 unfolding x by blast
    have r2: "ready b t M g2" using ready_evolves [OF r1 g2(2)] g2(3) by (simp add: killed_def)
    have "n \<notin> (\<Union>c\<in>set ts. set (nodes c))" using dist by simp
    with g2(3) have n2: "sts g2 n = (ts_active, False)" using s1(1) True by (simp add: killed_def sts_def upd_def)
    have nM: "n \<in> M" using Node.prems(3) by auto
    have "fst q = sync_node g2 n" using Node.prems(5) e1 g2(2) by (simp add: evolves_def sync_node_def)
    then obtain g3 where g3: "raise_end_event ?run n q b g2 = Some g3" "calm g2 g3"
      using raise_end_event_returns [OF r2 nM, of q ?run] n2 by (auto simp: sts_def)
    have "evolves g2 g3" using evo_run.raise_end_event_keeps [OF evo.keep_refl] g3(1) by (auto simp: okg_def)
    then have "is_tree g3 t" using ready_evolves [OF r2] g3(2) by (simp add: ready_def calm_def)
    then obtain g4 where g4: "played_interval n g3 = Some g4" "calm g3 g4"
      using played_interval_returns [OF _ n] by blast
    have "exec_call env k (Set_state n ts_dead q b) g = Some (?dead g4)"
      using True g1(1) g2(1) g3(1) g4(1)
      by (simp add: k call_body_def set_state_def state_exit_def active_exit_def kill_children_def state_enter_def)
    moreover have "killed (set (nodes (Node n ts))) g (?dead g4)"
    proof -
      have s: "sts g4 = sts g2" using g3 g4 by (simp add: calm_def)
      have "no_wakes g g4"
        using s1(2) g2(3) g3(2) g4(2) by (auto simp: killed_def calm_def intro: no_wakes_trans)
      then have "no_wakes g (?dead g4)" by (auto simp: no_wakes_def waiting_def upd_def)
      moreover note n2
      moreover have "sts (?dead g4) m = (if m = n then (ts_dead, snd (sts g4 n)) else sts g4 m)" for m
        by (simp add: sts_def upd_def)
      moreover have "sts g1 m = sts g m" if "m \<noteq> n" for m using that s1(1) by (simp add: sts_def upd_def)
      ultimately show ?thesis using g2(3) s by (auto simp: killed_def idle_def)
    qed
    ultimately show ?thesis by (auto simp: upd_def)
  qed
qed


text \<open>
  An active "par" with an active video and a waiting one. Both begin with it; a call can end it, and
  the second video ends with the first.
\<close>

definition playing_graph :: tgraph where
  "playing_graph =
     \<lparr>ln_up = [2 \<mapsto> 1, 3 \<mapsto> 1], ln_down = [1 \<mapsto> 2], ln_next = [2 \<mapsto> 3], ln_live = {1, 2, 3},
      tg_node = (\<lambda>n.
         if n = 1 then (mk_time_node tc_par plain_attrs ''p'' ''par'' Map.empty)\<lparr>n_state := ts_active, n_active := True,
             n_dependents := (\<lambda>_. [])(tn_begin := [10, 11], tn_dom_call := [12])\<rparr>
         else if n = 2 then (mk_time_node tc_none plain_attrs ''v'' ''video'' Map.empty)\<lparr>n_state := ts_active,
             n_active := True, n_needs_remove := True, n_dependents := (\<lambda>_. [])(tn_end := [13])\<rparr>
         else (mk_time_node tc_none plain_attrs ''w'' ''video'' Map.empty)\<lparr>n_state := ts_proactive,
             n_interval := mk_interval 2000 3000\<rparr>),
      tg_rule = (\<lambda>r.
         if r = 10 then idle_rule\<lparr>r_kind := offset_rule, r_target := 2\<rparr>
         else if r = 11 then idle_rule\<lparr>r_kind := offset_rule, r_target := 3\<rparr>
         else if r = 12 then idle_rule\<lparr>r_kind := event_rule, r_target := 1\<rparr>
         else idle_rule\<lparr>r_kind := model_rule, r_target := 3\<rparr>),
      tg_log = [], tg_next_rule = 14\<rparr>"


end
