(* ===== verification/Delta_Timer.thy ===== *)
theory Delta_Timer
  imports Prelude
begin

text \<open>
  The queue of timed events (lib/delta_timer.h, delta_timer.cpp). A \<open>delta_timer\<close> keeps its
  events sorted by time, each with the delay after its predecessor. The abstract queue is the list
  of events with their absolute delays; the locale \<open>timeout_queue\<close> states what a client relies
  on, and the delta list is an interpretation of it. Times are \<open>unsigned long\<close>: \<open>decr\<close>, which
  never goes below 0, is subtraction on \<open>nat\<close>, and the additions that may wrap are written with
  \<open>mod\<close>.
\<close>

section \<open>The code\<close>

type_synonym 'e timeouts = "('e \<times> nat) list"

record 'e delta_timer =
  dt_events :: "('e \<times> nat) list"
  dt_last_run :: nat

definition decr :: "nat \<Rightarrow> nat \<Rightarrow> nat" where
  "decr t dt = (if t < dt then 0 else t - dt)"

definition mk_delta_timer :: "nat \<Rightarrow> 'e delta_timer" where
  "mk_delta_timer now = \<lparr>dt_events = [], dt_last_run = now\<rparr>"

fun delta_insert :: "'e \<Rightarrow> nat \<Rightarrow> 'e timeouts \<Rightarrow> 'e timeouts" where
  "delta_insert pe t [] = [(pe, t)]"
| "delta_insert pe t ((e, d) # xs) =
     (if t < d then (pe, t) # (e, decr d t) # xs
      else (e, d) # delta_insert pe (decr t d) xs)"

definition dt_insert :: "'e \<Rightarrow> nat \<Rightarrow> 'e delta_timer \<Rightarrow> 'e delta_timer" where
  "dt_insert pe t q = q\<lparr>dt_events := delta_insert pe t (dt_events q)\<rparr>"

text \<open>Erasing an event gives its delay to the event that follows.\<close>

fun delta_cancel :: "'e \<Rightarrow> 'e timeouts \<Rightarrow> bool \<times> 'e timeouts" where
  "delta_cancel pe [] = (False, [])"
| "delta_cancel pe ((e, d) # xs) =
     (if e = pe
      then (True, case xs of [] \<Rightarrow> [] | (e', d') # ys \<Rightarrow> (e', (d' + d) mod 2 ^ 64) # ys)
      else (let (b, ys) = delta_cancel pe xs in (b, (e, d) # ys)))"

definition dt_cancel :: "'e \<Rightarrow> 'e delta_timer \<Rightarrow> bool \<times> 'e delta_timer" where
  "dt_cancel pe q = (let (b, xs) = delta_cancel pe (dt_events q) in (b, q\<lparr>dt_events := xs\<rparr>))"

definition dt_clear :: "'e delta_timer \<Rightarrow> 'e delta_timer" where
  "dt_clear q = q\<lparr>dt_events := []\<rparr>"

fun get_ready :: "nat \<Rightarrow> 'e timeouts \<Rightarrow> 'e list \<times> 'e timeouts" where
  "get_ready delta [] = ([], [])"
| "get_ready delta ((e, d) # xs) =
     (if d \<le> delta
      then (let (es, ys) = get_ready (decr delta d) xs in (e # es, ys))
      else ([], (e, decr d delta) # xs))"

definition elapsed_since :: "nat \<Rightarrow> nat \<Rightarrow> nat" where
  "elapsed_since now before = (if before \<le> now then now - before else now + 2 ^ 64 - before)"

text \<open>\<open>execute(queue)\<close>: the ready events are appended to the queue of the caller.\<close>

definition dt_execute :: "nat \<Rightarrow> 'e list \<Rightarrow> 'e delta_timer \<Rightarrow> 'e list \<times> 'e delta_timer" where
  "dt_execute now queue q =
     (let delta = elapsed_since now (dt_last_run q);
          (es, xs) = get_ready delta (dt_events q)
      in (queue @ es, \<lparr>dt_events = xs, dt_last_run = now\<rparr>))"

definition next_event_time :: "'e delta_timer \<Rightarrow> nat" where
  "next_event_time q = (case dt_events q of [] \<Rightarrow> 1000000 | (_, d) # _ \<Rightarrow> d)"

section \<open>The abstract queue\<close>

text \<open>The delay of every event after the last run.\<close>

fun due_from :: "nat \<Rightarrow> 'e timeouts \<Rightarrow> ('e \<times> nat) list" where
  "due_from acc [] = []"
| "due_from acc ((e, d) # xs) = (e, acc + d) # due_from (acc + d) xs"

definition due :: "'e timeouts \<Rightarrow> ('e \<times> nat) list" where
  "due xs = due_from 0 xs"

definition by_time :: "('e \<times> nat) list \<Rightarrow> bool" where
  "by_time xs \<longleftrightarrow> sorted (map snd xs)"

text \<open>Insertion after every event that is not later: first in, first out among equal times.\<close>

definition insert_after :: "'e \<Rightarrow> nat \<Rightarrow> ('e \<times> nat) list \<Rightarrow> ('e \<times> nat) list" where
  "insert_after e t xs = filter (\<lambda>(_, u). u \<le> t) xs @ (e, t) # filter (\<lambda>(_, u). t < u) xs"

definition later_than :: "nat \<Rightarrow> ('e \<times> nat) list \<Rightarrow> ('e \<times> nat) list" where
  "later_than d xs = map (\<lambda>(e, u). (e, u - d)) (filter (\<lambda>(_, u). d < u) xs)"

definition ready_by :: "nat \<Rightarrow> ('e \<times> nat) list \<Rightarrow> 'e list" where
  "ready_by d xs = map fst (filter (\<lambda>(_, u). u \<le> d) xs)"

locale timeout_queue =
  fixes schedule :: "'q \<Rightarrow> ('e \<times> nat) list"
    and add :: "'e \<Rightarrow> nat \<Rightarrow> 'q \<Rightarrow> 'q"
    and take_ready :: "nat \<Rightarrow> 'q \<Rightarrow> 'e list \<times> 'q"
  assumes by_time_schedule: "by_time (schedule q)"
    and schedule_add: "schedule (add e t q) = insert_after e t (schedule q)"
    and ready_taken: "fst (take_ready d q) = ready_by d (schedule q)"
    and schedule_taken: "schedule (snd (take_ready d q)) = later_than d (schedule q)"
begin

lemma taken_all_or_nothing: "mset (map fst (schedule q))
    = mset (fst (take_ready d q)) + mset (map fst (schedule (snd (take_ready d q))))"
proof -
  have "mset xs = mset (filter (\<lambda>(_, u). u \<le> d) xs) + mset (filter (\<lambda>(_, u). d < u) xs)"
    for xs :: "('e \<times> nat) list"
    by (induction xs) auto
  from this [of "schedule q"]
  have "mset (map fst (schedule q)) = mset (map fst (filter (\<lambda>(_, u). u \<le> d) (schedule q)))
      + mset (map fst (filter (\<lambda>(_, u). d < u) (schedule q)))"
    by (metis image_mset_union mset_map)
  moreover have "map fst (later_than d xs) = map fst (filter (\<lambda>(_, u). d < u) xs)"
    for xs :: "('e \<times> nat) list"
    by (induction xs) (auto simp: later_than_def)
  ultimately show ?thesis by (simp add: ready_taken schedule_taken ready_by_def)
qed

text \<open>Running the clock in two steps serves the same events, in the same order, as one step.\<close>

lemma take_ready_compose:
  "fst (take_ready d q) @ fst (take_ready d' (snd (take_ready d q))) = fst (take_ready (d + d') q)
   \<and> schedule (snd (take_ready d' (snd (take_ready d q)))) = schedule (snd (take_ready (d + d') q))"
proof -
  have sorted_split: "by_time xs \<Longrightarrow>
      ready_by d xs @ ready_by d' (later_than d xs) = ready_by (d + d') xs" for xs :: "('e \<times> nat) list"
  proof (induction xs)
    case Nil
    then show ?case by (simp add: ready_by_def later_than_def)
  next
    case (Cons x xs)
    obtain e u where x: "x = (e, u)" by force
    from Cons.prems x have s: "by_time xs" "\<forall>y\<in>set xs. u \<le> snd y" by (auto simp: by_time_def)
    show ?case
    proof (cases "u \<le> d")
      case True
      with Cons.IH [OF s(1)] x show ?thesis by (simp add: ready_by_def later_than_def)
    next
      case False
      with s(2) have "filter (\<lambda>(_, u). u \<le> d) xs = []" by (auto simp: filter_empty_conv)
      with False Cons.IH [OF s(1)] x show ?thesis by (auto simp: ready_by_def later_than_def)
    qed
  qed
  have "later_than d' (later_than d xs) = later_than (d + d') xs" for xs :: "('e \<times> nat) list"
    by (induction xs) (auto simp: later_than_def)
  with sorted_split [OF by_time_schedule] show ?thesis
    by (simp add: ready_taken schedule_taken)
qed

text \<open>An event added with delay \<open>t\<close> is served by the first run that reaches \<open>t\<close>.\<close>

lemma added_served: "t \<le> d \<Longrightarrow> e \<in> set (fst (take_ready d (add e t q)))"
  by (simp add: ready_taken schedule_add ready_by_def insert_after_def)

lemma added_waits:
  assumes "e \<notin> fst ` set (schedule q)" "d < t"
  shows "e \<notin> set (fst (take_ready d (add e t q)))"
  using assms by (force simp: ready_taken schedule_add ready_by_def insert_after_def)

lemma added_order:
  assumes "t \<le> d" "u \<le> t" "e \<noteq> e'" "e \<notin> fst ` set (schedule q)" "e' \<notin> fst ` set (schedule q)"
  shows "\<exists>xs ys zs. fst (take_ready d (add e t (add e' u q))) = xs @ e' # ys @ e # zs"
proof -
  let ?s = "schedule q"
  let ?a = "filter (\<lambda>(_, v). v \<le> t) (filter (\<lambda>(_, v). v \<le> u) ?s @ (e', u) # filter (\<lambda>(_, v). u < v) ?s)"
  have "fst (take_ready d (add e t (add e' u q)))
      = ready_by d (?a @ (e, t) # filter (\<lambda>(_, v). t < v) (insert_after e' u ?s))"
    by (simp add: ready_taken schedule_add insert_after_def)
  also have "\<dots> = ready_by d (filter (\<lambda>(_, v). v \<le> t) (filter (\<lambda>(_, v). v \<le> u) ?s))
      @ e' # ready_by d (filter (\<lambda>(_, v). v \<le> t) (filter (\<lambda>(_, v). u < v) ?s))
      @ e # ready_by d (filter (\<lambda>(_, v). t < v) (insert_after e' u ?s))"
    using assms(1,2) by (simp add: ready_by_def)
  finally show ?thesis by blast
qed

end

section \<open>The delta list is such a queue\<close>

lemma due_from_later: "by_time (due_from acc xs) \<and> (\<forall>y\<in>set (due_from acc xs). acc \<le> snd y)"
proof (induction xs arbitrary: acc)
  case Nil
  then show ?case by (simp add: by_time_def)
next
  case (Cons x xs)
  obtain e d where x: "x = (e, d)" by force
  from Cons [of "acc + d"] show ?case by (auto simp: x by_time_def)
qed

lemma due_from_insert: "due_from acc (delta_insert e t xs) = insert_after e (acc + t) (due_from acc xs)"
proof (induction e t xs arbitrary: acc rule: delta_insert.induct)
  case (1 pe t)
  then show ?case by (simp add: insert_after_def)
next
  case (2 pe t e d xs)
  have later: "filter (\<lambda>(_, u). u \<le> acc + t) (due_from (acc + d) xs) = []"
    "filter (\<lambda>(_, u). acc + t < u) (due_from (acc + d) xs) = due_from (acc + d) xs" if "t < d"
    using due_from_later [of "acc + d" xs] that by (auto simp: filter_empty_conv filter_id_conv)
  show ?case
  proof (cases "t < d")
    case True
    with later show ?thesis by (simp add: insert_after_def decr_def)
  next
    case False
    with 2 [of "acc + d"] show ?thesis by (simp add: insert_after_def decr_def)
  qed
qed

lemma due_from_diff: "j \<le> k \<Longrightarrow> due_from (k - j) xs = map (\<lambda>(e, u). (e, u - j)) (due_from k xs)"
proof (induction xs arbitrary: k)
  case Nil
  then show ?case by simp
next
  case (Cons x xs)
  then show ?case using Cons.IH [of "k + snd x"] by (cases x) simp
qed

lemma get_ready_due:
  "fst (get_ready d xs) = ready_by (acc + d) (due_from acc xs)
   \<and> due_from 0 (snd (get_ready d xs)) = later_than (acc + d) (due_from acc xs)"
proof (induction d xs arbitrary: acc rule: get_ready.induct)
  case (1 delta)
  then show ?case by (simp add: ready_by_def later_than_def)
next
  case (2 delta e d xs)
  show ?case
  proof (cases "d \<le> delta")
    case True
    with 2 [of "acc + d"] show ?thesis
      by (auto simp: ready_by_def later_than_def decr_def split: prod.split)
  next
    case False
    have "filter (\<lambda>(_, u). u \<le> acc + delta) (due_from (acc + d) xs) = []"
      "filter (\<lambda>(_, u). acc + delta < u) (due_from (acc + d) xs) = due_from (acc + d) xs"
      using due_from_later [of "acc + d" xs] False by (auto simp: filter_empty_conv filter_id_conv)
    moreover have "due_from (d - delta) xs = map (\<lambda>(e, u). (e, u - (acc + delta))) (due_from (acc + d) xs)"
      using False due_from_diff [of "acc + delta" "acc + d" xs] by simp
    ultimately show ?thesis using False by (simp add: ready_by_def later_than_def decr_def)
  qed
qed

interpretation dq: timeout_queue due delta_insert get_ready
proof
  show "by_time (due q)" for q :: "'e timeouts" using due_from_later by (auto simp: due_def)
  show "due (delta_insert e t q) = insert_after e t (due q)" for e t and q :: "'e timeouts"
    using due_from_insert [of 0 e t q] by (simp add: due_def)
  show "fst (get_ready d q) = ready_by d (due q)" for d and q :: "'e timeouts"
    using get_ready_due [of d q 0] by (simp add: due_def)
  show "due (snd (get_ready d q)) = later_than d (due q)" for d and q :: "'e timeouts"
    using get_ready_due [of d q 0] by (simp add: due_def)
qed

section \<open>Properties of the timer\<close>

lemma dt_insert_events [simp]: "dt_events (dt_insert pe t q) = delta_insert pe t (dt_events q)"
    "dt_last_run (dt_insert pe t q) = dt_last_run q"
  by (simp_all add: dt_insert_def)

lemma dt_execute_alt: "dt_execute now queue q =
    (queue @ fst (get_ready (elapsed_since now (dt_last_run q)) (dt_events q)),
     \<lparr>dt_events = snd (get_ready (elapsed_since now (dt_last_run q)) (dt_events q)), dt_last_run = now\<rparr>)"
  by (simp add: dt_execute_def Let_def split: prod.split)

lemma next_event_time_due: "next_event_time q = (case due (dt_events q) of [] \<Rightarrow> 1000000 | (_, u) # _ \<Rightarrow> u)"
  by (auto simp: next_event_time_def due_def split: list.split)

text \<open>
  C27: the delta encoding implements the abstract queue of absolute delays. Inserting puts the event
  after every event that is not later; running the timer hands over, in order, exactly the events
  whose delay has passed and keeps the others with their delay reduced by the time that passed. The
  time of the next event is the delay of the first event of the abstract queue, or a million
  milliseconds when there is none.
\<close>

theorem delta_timer_refines:
  "due (dt_events (dt_insert pe t q)) = insert_after pe t (due (dt_events q))
   \<and> fst (dt_execute now queue q) = queue @ ready_by (elapsed_since now (dt_last_run q)) (due (dt_events q))
   \<and> due (dt_events (snd (dt_execute now queue q)))
       = later_than (elapsed_since now (dt_last_run q)) (due (dt_events q))
   \<and> next_event_time q = (case due (dt_events q) of [] \<Rightarrow> 1000000 | (_, u) # _ \<Rightarrow> u)
   \<and> by_time (due (dt_events q))"
  by (simp add: next_event_time_due dt_execute_alt dq.schedule_add dq.ready_taken dq.schedule_taken dq.by_time_schedule)

text \<open>
  How often the timer is run does not matter: running it at \<open>now\<close> and again at \<open>later\<close> hands
  over the same events in the same order as running it once at \<open>later\<close>, and leaves the same
  schedule; no event is lost or handed over twice.
\<close>

theorem delta_timer_run_twice:
  assumes "dt_last_run q \<le> now" "now \<le> later"
  shows "fst (dt_execute later (fst (dt_execute now queue q)) (snd (dt_execute now queue q)))
      = fst (dt_execute later queue q)
    \<and> due (dt_events (snd (dt_execute later [] (snd (dt_execute now queue q)))))
      = due (dt_events (snd (dt_execute later queue q)))
    \<and> mset (map fst (due (dt_events q)))
      = mset (fst (dt_execute now [] q)) + mset (map fst (due (dt_events (snd (dt_execute now [] q)))))"
proof -
  have "elapsed_since now (dt_last_run q) + elapsed_since later now = elapsed_since later (dt_last_run q)"
    using assms by (simp add: elapsed_since_def)
  then show ?thesis
    using dq.take_ready_compose [of "elapsed_since now (dt_last_run q)" "dt_events q" "elapsed_since later now"]
      dq.taken_all_or_nothing [of "dt_events q" "elapsed_since now (dt_last_run q)"]
    by (simp add: dt_execute_alt)
qed

theorem delta_timer_run_twice_witness:
  "fst (dt_execute 30 (fst (dt_execute 10 [] \<lparr>dt_events = [(''a'', 5), (''b'', 20)], dt_last_run = 0\<rparr>))
      (snd (dt_execute 10 [] \<lparr>dt_events = [(''a'', 5), (''b'', 20)], dt_last_run = 0\<rparr>)))
    = [''a'', ''b'']"
  using delta_timer_run_twice [of "\<lparr>dt_events = [(''a'', 5), (''b'', 20)], dt_last_run = 0\<rparr>" 10 30 "[]"]
  by (simp add: dt_execute_def elapsed_since_def decr_def)

definition remove_event :: "'e \<Rightarrow> ('e \<times> nat) list \<Rightarrow> ('e \<times> nat) list" where
  "remove_event e xs = takeWhile (\<lambda>x. fst x \<noteq> e) xs @ tl (dropWhile (\<lambda>x. fst x \<noteq> e) xs)"

lemma due_from_cancel:
  "\<forall>y\<in>set (due_from acc xs). snd y < 2 ^ 64 \<Longrightarrow>
   fst (delta_cancel pe xs) = (pe \<in> fst ` set (due_from acc xs))
   \<and> due_from acc (snd (delta_cancel pe xs)) = remove_event pe (due_from acc xs)"
proof (induction pe xs arbitrary: acc rule: delta_cancel.induct)
  case (1 pe)
  then show ?case by (simp add: remove_event_def)
next
  case (2 pe e d xs)
  show ?case
  proof (cases "e = pe")
    case True
    show ?thesis
    proof (cases xs)
      case Nil
      with True show ?thesis by (simp add: remove_event_def)
    next
      case (Cons y ys)
      obtain e' d' where y: "y = (e', d')" by force
      have "acc + d + d' < 2 ^ 64" using 2(2) Cons y by simp
      then have "(d' + d) mod 2 ^ 64 = d' + d" by simp
      with True Cons y show ?thesis by (simp add: remove_event_def add.commute add.left_commute)
    qed
  next
    case False
    have "\<forall>y\<in>set (due_from (acc + d) xs). snd y < 2 ^ 64" using 2(2) by simp
    from 2(1) [OF False this] False show ?thesis by (auto simp: remove_event_def split: prod.split)
  qed
qed

text \<open>
  Cancelling an event removes it (its first occurrence) and reports whether it was scheduled;
  the time of every other event stays what it was.
\<close>

theorem delta_timer_cancel:
  assumes "\<forall>y\<in>set (due (dt_events q)). snd y < 2 ^ 64"
  shows "fst (dt_cancel pe q) = (pe \<in> fst ` set (due (dt_events q)))
    \<and> due (dt_events (snd (dt_cancel pe q))) = remove_event pe (due (dt_events q))"
  using due_from_cancel [OF assms [unfolded due_def], of pe]
  by (cases "delta_cancel pe (dt_events q)") (simp add: dt_cancel_def due_def)

theorem delta_timer_cancel_witness:
  "due (dt_events (snd (dt_cancel ''a'' \<lparr>dt_events = [(''a'', 5), (''b'', 20)], dt_last_run = 0\<rparr>))) = [(''b'', 25)]"
  using delta_timer_cancel [of "\<lparr>dt_events = [(''a'', 5), (''b'', 20)], dt_last_run = 0\<rparr>" "''a''"]
  by (simp add: due_def remove_event_def)

text \<open>
  The delay of a new event counts from the last run of the timer and not from its insertion: it
  is handed over by the first run at or after \<open>m_last_run + t\<close>, so up to the age of the last run
  too early.
\<close>

theorem delay_counts_from_last_run:
  assumes "dt_last_run q \<le> now" "e \<notin> fst ` set (due (dt_events q))"
  shows "e \<in> set (fst (dt_execute now [] (dt_insert e t q))) \<longleftrightarrow> dt_last_run q + t \<le> now"
proof (cases "dt_last_run q + t \<le> now")
  case True
  then have "t \<le> elapsed_since now (dt_last_run q)" by (simp add: elapsed_since_def)
  from dq.added_served [OF this] True show ?thesis by (simp add: dt_execute_alt)
next
  case False
  then have "elapsed_since now (dt_last_run q) < t" using assms(1) by (simp add: elapsed_since_def)
  from dq.added_waits [OF assms(2) this] False show ?thesis by (simp add: dt_execute_alt)
qed

theorem delay_counts_from_last_run_witness:
  "''a'' \<in> set (fst (dt_execute 1000 [] (dt_insert ''a'' 10 \<lparr>dt_events = [], dt_last_run = 990\<rparr>)))"
  using delay_counts_from_last_run [of "\<lparr>dt_events = [], dt_last_run = 990\<rparr>" 1000 "''a''" 10]
  by (simp add: due_def)

end
