(* ===== verification/Timer.thy ===== *)
theory Timer
  imports Prelude
begin

text \<open>
  The clock of a presentation (\<open>timer_control_impl\<close> of lib/timer.cpp). Its state is the pair of
  epochs that map the time of the parent timer to its own, the speed, the running flag, the
  recorded drift and the slaved flag. The parent is another component: every reading of
  \<open>m_parent->elapsed()\<close> is an argument, and a function that reads it twice has two. Times are
  \<open>unsigned long\<close> values, drifts \<open>long\<close>; the speed is a \<open>double\<close>, read as a rational. The
  observer calls under \<open>WITH_REMOTE_SYNC\<close> and the locks are not modelled.
\<close>

section \<open>State and operations\<close>

record timer_control =
  tm_parent_epoch :: int
  tm_local_epoch :: int
  tm_speed :: rat
  tm_running :: bool
  tm_drift :: int
  tm_slaved :: bool

definition mk_timer :: "int \<Rightarrow> rat \<Rightarrow> bool \<Rightarrow> timer_control" where
  "mk_timer pt speed run = \<lparr>tm_parent_epoch = pt, tm_local_epoch = 0, tm_speed = speed,
     tm_running = run, tm_drift = 0, tm_slaved = False\<rparr>"

definition apply_speed_manip :: "timer_control \<Rightarrow> int \<Rightarrow> int" where
  "apply_speed_manip t dt =
     (if tm_speed t = 1 then dt
      else if tm_speed t = 0 then 0
      else to_ulong \<lfloor>tm_speed t * of_int dt + 1 / 2\<rfloor>)"

definition timer_elapsed :: "int \<Rightarrow> timer_control \<Rightarrow> int" where
  "timer_elapsed pt t =
     (if \<not> tm_running t then tm_local_epoch t
      else if pt < tm_parent_epoch t then tm_local_epoch t
      else to_ulong (tm_local_epoch t + apply_speed_manip t (to_ulong (pt - tm_parent_epoch t))))"

definition timer_start :: "int \<Rightarrow> int \<Rightarrow> timer_control \<Rightarrow> timer_control" where
  "timer_start pt v t = t\<lparr>tm_parent_epoch := pt, tm_local_epoch := v, tm_running := True\<rparr>"

definition timer_stop :: "timer_control \<Rightarrow> timer_control" where
  "timer_stop t = t\<lparr>tm_local_epoch := 0, tm_running := False\<rparr>"

definition timer_pause :: "int \<Rightarrow> timer_control \<Rightarrow> timer_control" where
  "timer_pause pt t =
     (if tm_running t
      then t\<lparr>tm_local_epoch := to_ulong (tm_local_epoch t
               + apply_speed_manip t (to_ulong (pt - tm_parent_epoch t))), tm_running := False\<rparr>
      else t)"

definition timer_resume :: "int \<Rightarrow> timer_control \<Rightarrow> timer_control" where
  "timer_resume pt t = (if \<not> tm_running t then t\<lparr>tm_parent_epoch := pt, tm_running := True\<rparr> else t)"

definition set_time :: "int \<Rightarrow> int \<Rightarrow> int \<Rightarrow> timer_control \<Rightarrow> timer_control" where
  "set_time pt1 pt2 v t =
     (if \<not> tm_running t then t\<lparr>tm_local_epoch := v\<rparr>
      else timer_resume pt2 ((timer_pause pt1 t)\<lparr>tm_local_epoch := v\<rparr>))"

definition set_speed :: "int \<Rightarrow> int \<Rightarrow> rat \<Rightarrow> timer_control \<Rightarrow> timer_control" where
  "set_speed pt1 pt2 speed t =
     (if \<not> tm_running t then t\<lparr>tm_speed := speed\<rparr>
      else timer_resume pt2 ((timer_pause pt1 t)\<lparr>tm_speed := speed\<rparr>))"

definition get_realtime_speed :: "rat \<Rightarrow> timer_control \<Rightarrow> rat" where
  "get_realtime_speed parent_speed t = tm_speed t * parent_speed"

definition timer_running :: "bool \<Rightarrow> timer_control \<Rightarrow> bool" where
  "timer_running parent_running t \<longleftrightarrow> tm_running t \<and> parent_running"

definition set_drift :: "int \<Rightarrow> timer_control \<Rightarrow> timer_control" where
  "set_drift d t = t\<lparr>tm_drift := d\<rparr>"

text \<open>A negative skew moves the parent epoch into the future, so that the clock stands still.\<close>

definition skew :: "int \<Rightarrow> int \<Rightarrow> int \<Rightarrow> timer_control \<Rightarrow> timer_control" where
  "skew pt1 pt2 s t =
     (let t = t\<lparr>tm_drift := to_long (tm_drift t - s)\<rparr>
      in if 0 \<le> s then t\<lparr>tm_local_epoch := to_ulong (tm_local_epoch t + s)\<rparr>
         else if pt1 < tm_parent_epoch t then t
         else t\<lparr>tm_local_epoch := to_ulong (tm_local_epoch t
                  + apply_speed_manip t (to_ulong (pt2 - tm_parent_epoch t))),
                tm_parent_epoch := to_ulong (pt1 - s)\<rparr>)"

text \<open>\<open>set_slaved\<close> ignores its argument.\<close>

definition set_slaved :: "bool \<Rightarrow> timer_control \<Rightarrow> timer_control" where
  "set_slaved b t = t\<lparr>tm_slaved := True\<rparr>"

definition is_slaved :: "bool \<Rightarrow> timer_control \<Rightarrow> bool" where
  "is_slaved parent_slaved t \<longleftrightarrow> tm_slaved t \<or> parent_slaved"

section \<open>Exact readings\<close>

text \<open>
  \<open>exact pt t\<close>: at parent time \<open>pt\<close> no operation on \<open>t\<close> wraps around; \<open>settled\<close>: no
  negative skew is pending.
\<close>

definition scaled :: "timer_control \<Rightarrow> int \<Rightarrow> int" where
  "scaled t dt = (if tm_speed t = 1 then dt else if tm_speed t = 0 then 0
     else \<lfloor>tm_speed t * of_int dt + 1 / 2\<rfloor>)"

definition settled :: "int \<Rightarrow> timer_control \<Rightarrow> bool" where
  "settled pt t \<longleftrightarrow> tm_parent_epoch t \<le> pt"

definition exact :: "int \<Rightarrow> timer_control \<Rightarrow> bool" where
  "exact pt t \<longleftrightarrow> 0 \<le> tm_speed t \<and> 0 \<le> tm_local_epoch t \<and> 0 \<le> tm_parent_epoch t \<and> is_ulong pt
     \<and> is_ulong (tm_local_epoch t) \<and> (settled pt t \<longrightarrow> tm_local_epoch t + scaled t (pt - tm_parent_epoch t) < 2 ^ 64)"

lemma scaled_nonneg: "0 \<le> tm_speed t \<Longrightarrow> 0 \<le> dt \<Longrightarrow> 0 \<le> scaled t dt"
  by (simp add: scaled_def)

lemma scaled_mono: "0 \<le> tm_speed t \<Longrightarrow> a \<le> b \<Longrightarrow> scaled t a \<le> scaled t b"
  by (auto simp: scaled_def intro!: floor_mono mult_left_mono)

lemma exact_scaled:
  assumes "exact pt t" "settled pt t"
  shows "apply_speed_manip t (to_ulong (pt - tm_parent_epoch t)) = scaled t (pt - tm_parent_epoch t)"
    and "to_ulong (tm_local_epoch t + scaled t (pt - tm_parent_epoch t))
      = tm_local_epoch t + scaled t (pt - tm_parent_epoch t)"
    and "is_ulong (tm_local_epoch t + scaled t (pt - tm_parent_epoch t))"
proof -
  have d: "is_ulong (pt - tm_parent_epoch t)" using assms by (auto simp: exact_def settled_def is_ulong_def)
  have s: "0 \<le> scaled t (pt - tm_parent_epoch t)"
    using assms by (intro scaled_nonneg) (auto simp: exact_def settled_def)
  then have "is_ulong (scaled t (pt - tm_parent_epoch t))"
    using assms by (auto simp: exact_def is_ulong_def)
  then show "apply_speed_manip t (to_ulong (pt - tm_parent_epoch t)) = scaled t (pt - tm_parent_epoch t)"
    using d by (auto simp: apply_speed_manip_def scaled_def)
  show u: "is_ulong (tm_local_epoch t + scaled t (pt - tm_parent_epoch t))"
    using assms s by (auto simp: exact_def is_ulong_def)
  then show "to_ulong (tm_local_epoch t + scaled t (pt - tm_parent_epoch t))
      = tm_local_epoch t + scaled t (pt - tm_parent_epoch t)" by simp
qed

lemma elapsed_exact: "exact pt t \<Longrightarrow> timer_elapsed pt t
    = (if tm_running t \<and> settled pt t then tm_local_epoch t + scaled t (pt - tm_parent_epoch t) else tm_local_epoch t)"
  using exact_scaled [of pt t] by (auto simp: timer_elapsed_def settled_def)

lemma floor_one_half: "\<lfloor>1 / 2 :: rat\<rfloor> = 0"
  by (simp add: floor_eq_iff)

lemma to_ulong_0 [simp]: "to_ulong 0 = 0"
  by (simp add: to_ulong_def)

lemma scaled_0 [simp]: "scaled t 0 = 0"
  by (simp add: scaled_def floor_one_half)

lemma apply_speed_0 [simp]: "apply_speed_manip t 0 = 0"
  by (simp add: apply_speed_manip_def floor_one_half)

lemma elapsed_at_epoch: "tm_parent_epoch u = pt \<Longrightarrow> is_ulong (tm_local_epoch u) \<Longrightarrow> timer_elapsed pt u = tm_local_epoch u"
  by (simp add: timer_elapsed_def)

lemma elapsed_paused: "\<not> tm_running u \<Longrightarrow> timer_elapsed pt u = tm_local_epoch u"
  by (simp add: timer_elapsed_def)

lemma pause_exact:
  assumes "exact pt t" "settled pt t" "tm_running t"
  shows "timer_pause pt t = t\<lparr>tm_local_epoch := timer_elapsed pt t, tm_running := False\<rparr>"
  using assms by (simp add: timer_pause_def elapsed_exact exact_scaled)

text \<open>
  When no skew is pending, pausing, resuming and changing the speed leave the elapsed time of
  the clock as it is at that moment, and \<open>set_time\<close> makes it the given one; afterwards a
  paused clock stands still whatever the parent does.
\<close>

theorem control_keeps_time:
  assumes "exact pt t" "settled pt t" "is_ulong v" "0 \<le> speed"
  shows "timer_elapsed pt (timer_pause pt t) = timer_elapsed pt t
    \<and> timer_elapsed pt (timer_resume pt t) = timer_elapsed pt t
    \<and> timer_elapsed pt (set_speed pt pt speed t) = timer_elapsed pt t
    \<and> timer_elapsed pt (set_time pt pt v t) = v
    \<and> timer_elapsed pt' (timer_pause pt t) = timer_elapsed pt t"
proof (cases "tm_running t")
  case True
  have e: "is_ulong (timer_elapsed pt t)"
    using assms exact_scaled(3) [OF assms(1,2)] by (auto simp: elapsed_exact exact_def)
  show ?thesis
    using True assms e
    by (simp add: pause_exact timer_resume_def set_speed_def set_time_def elapsed_at_epoch elapsed_paused)
next
  case False
  then show ?thesis
    using assms
    by (simp add: timer_pause_def timer_resume_def set_speed_def set_time_def elapsed_at_epoch elapsed_paused exact_def)
qed

theorem control_keeps_time_witness:
  "timer_elapsed 900 (set_speed 900 900 2 (mk_timer 100 1 True)) = 800"
proof -
  have "exact 900 (mk_timer 100 1 True)" "settled 900 (mk_timer 100 1 True)" "is_ulong 0"
    "timer_elapsed 900 (mk_timer 100 1 True) = 800"
    by (simp_all add: exact_def settled_def mk_timer_def is_ulong_def scaled_def timer_elapsed_def
        apply_speed_manip_def to_ulong_def)
  then show ?thesis using control_keeps_time [of 900 "mk_timer 100 1 True" 0 2 0] by simp
qed

section \<open>The clock never runs backwards\<close>

datatype clock_op = Pause | Resume | Set_speed rat | Skew int

definition clock_apply :: "clock_op \<Rightarrow> int \<Rightarrow> timer_control \<Rightarrow> timer_control" where
  "clock_apply op pt t = (case op of
     Pause \<Rightarrow> timer_pause pt t | Resume \<Rightarrow> timer_resume pt t
   | Set_speed s \<Rightarrow> set_speed pt pt s t | Skew s \<Rightarrow> skew pt pt s t)"

definition clock_safe :: "clock_op \<Rightarrow> int \<Rightarrow> timer_control \<Rightarrow> bool" where
  "clock_safe op pt t \<longleftrightarrow> (case op of
     Skew s \<Rightarrow> s < 0 \<or> timer_elapsed pt t + s < 2 ^ 64
   | _ \<Rightarrow> settled pt t \<or> \<not> tm_running t)"

inductive clock_step :: "int \<times> timer_control \<Rightarrow> int \<times> timer_control \<Rightarrow> bool" where
  tick: "pt \<le> pt' \<Longrightarrow> exact pt t \<Longrightarrow> exact pt' t \<Longrightarrow> clock_step (pt, t) (pt', t)"
| control: "exact pt t \<Longrightarrow> clock_safe op pt t \<Longrightarrow> exact pt (clock_apply op pt t)
    \<Longrightarrow> clock_step (pt, t) (pt, clock_apply op pt t)"

inductive_cases clock_stepE: "clock_step a b"

lemma skew_elapsed:
  assumes "exact pt t" "clock_safe (Skew s) pt t" "exact pt (skew pt pt s t)"
  shows "timer_elapsed pt t \<le> timer_elapsed pt (skew pt pt s t)"
proof (cases "0 \<le> s")
  case True
  have "tm_local_epoch t \<le> timer_elapsed pt t"
    using assms(1) scaled_nonneg [of t "pt - tm_parent_epoch t"]
    by (auto simp: elapsed_exact exact_def settled_def)
  then have "to_ulong (tm_local_epoch t + s) = tm_local_epoch t + s"
    using True assms(1,2) by (intro to_ulong_id) (auto simp: clock_safe_def is_ulong_def exact_def)
  then have "skew pt pt s t = t\<lparr>tm_drift := to_long (tm_drift t - s), tm_local_epoch := tm_local_epoch t + s\<rparr>"
    using True by (simp add: skew_def)
  then show ?thesis
    using True assms(1,3) by (simp add: elapsed_exact settled_def scaled_def)
next
  case False
  show ?thesis
  proof (cases "settled pt t")
    case True
    have a: "apply_speed_manip (t\<lparr>tm_drift := d\<rparr>) x = apply_speed_manip t x" for d x
      by (simp add: apply_speed_manip_def)
    let ?l = "tm_local_epoch t + scaled t (pt - tm_parent_epoch t)"
    have sk: "skew pt pt s t = t\<lparr>tm_drift := to_long (tm_drift t - s), tm_local_epoch := ?l,
        tm_parent_epoch := to_ulong (pt - s)\<rparr>"
      using False True assms(1) by (simp add: skew_def settled_def a exact_scaled)
    have "?l \<le> timer_elapsed pt (skew pt pt s t)"
      using assms(3) scaled_nonneg [of "skew pt pt s t" "pt - tm_parent_epoch (skew pt pt s t)"]
      by (subst elapsed_exact [OF assms(3)]) (auto simp: sk exact_def settled_def)
    moreover have "timer_elapsed pt t \<le> ?l"
      using assms(1) True scaled_nonneg [of t "pt - tm_parent_epoch t"]
      by (auto simp: elapsed_exact exact_def settled_def)
    ultimately show ?thesis by simp
  next
    case pending: False
    then have "skew pt pt s t = t\<lparr>tm_drift := to_long (tm_drift t - s)\<rparr>"
      using False by (simp add: skew_def settled_def)
    then show ?thesis by (simp add: timer_elapsed_def apply_speed_manip_def)
  qed
qed

lemma control_elapsed:
  assumes "exact pt t" "settled pt t \<or> \<not> tm_running t"
  shows "timer_elapsed pt (timer_pause pt t) = timer_elapsed pt t"
    "timer_elapsed pt (timer_resume pt t) = timer_elapsed pt t"
    "timer_elapsed pt (set_speed pt pt s t) = timer_elapsed pt t"
proof -
  have e: "is_ulong (timer_elapsed pt t)"
    using assms exact_scaled(3) [OF assms(1)] by (auto simp: elapsed_exact exact_def)
  have l: "is_ulong (tm_local_epoch t)" using assms(1) by (simp add: exact_def)
  show "timer_elapsed pt (timer_pause pt t) = timer_elapsed pt t"
    using assms e by (cases "tm_running t") (simp add: pause_exact elapsed_paused, simp add: timer_pause_def)
  show "timer_elapsed pt (timer_resume pt t) = timer_elapsed pt t"
    using l by (simp add: timer_resume_def elapsed_at_epoch elapsed_paused)
  show "timer_elapsed pt (set_speed pt pt s t) = timer_elapsed pt t"
    using assms e l by (cases "tm_running t")
      (simp_all add: set_speed_def pause_exact timer_resume_def elapsed_at_epoch elapsed_paused)
qed

text \<open>
  C28: along every sequence of readings, pauses, resumptions, speed changes and skews in either
  direction in which no arithmetic wraps, the speed is not negative and a running clock is not
  paused, resumed or given another speed while a negative skew is pending, the elapsed time never
  decreases.
\<close>

theorem clock_monotone:
  assumes "clock_step\<^sup>*\<^sup>* (pt, t) (pt', t')"
  shows "timer_elapsed pt t \<le> timer_elapsed pt' t'"
  using assms
proof (induction "(pt', t')" arbitrary: pt' t' rule: rtranclp_induct)
  case base
  then show ?case by simp
next
  case (step y)
  obtain p u where y: "y = (p, u)" by force
  from step(2) have "timer_elapsed p u \<le> timer_elapsed pt' t'"
    unfolding y
  proof (cases rule: clock_step.cases)
    case tick
    have "scaled u (p - tm_parent_epoch u) \<le> scaled u (pt' - tm_parent_epoch u)"
      using tick by (intro scaled_mono) (auto simp: exact_def)
    moreover have "0 \<le> scaled u (pt' - tm_parent_epoch u)" if "settled pt' u"
      using tick that by (intro scaled_nonneg) (auto simp: exact_def settled_def)
    ultimately show ?thesis using tick by (auto simp: elapsed_exact settled_def)
  next
    case (control op)
    then show ?thesis
      using skew_elapsed [of p u] control_elapsed [of p u]
      by (cases op) (auto simp: clock_apply_def clock_safe_def)
  qed
  with step(3) [OF y] show ?case by simp
qed

theorem clock_monotone_witness:
  "timer_elapsed 500 (mk_timer 0 1 True) \<le> timer_elapsed 500 (skew 500 500 (- 20) (mk_timer 0 1 True))"
proof -
  have "exact 500 (mk_timer 0 1 True)"
    by (simp add: exact_def mk_timer_def is_ulong_def scaled_def)
  moreover have "skew 500 500 (- 20) (mk_timer 0 1 True)
      = \<lparr>tm_parent_epoch = 520, tm_local_epoch = 500, tm_speed = 1, tm_running = True, tm_drift = 20, tm_slaved = False\<rparr>"
    by code_simp
  then have "exact 500 (skew 500 500 (- 20) (mk_timer 0 1 True))"
    by (simp add: exact_def is_ulong_def settled_def)
  ultimately have "clock_step (500, mk_timer 0 1 True) (500, clock_apply (Skew (- 20)) 500 (mk_timer 0 1 True))"
    by (intro control) (simp_all add: clock_safe_def clock_apply_def)
  then show ?thesis using clock_monotone [of 500 "mk_timer 0 1 True"] by (simp add: clock_apply_def r_into_rtranclp)
qed

text \<open>
  Pausing a clock of normal speed while a negative skew is pending makes it run backwards: the
  unsigned difference to the future parent epoch wraps and takes the rest of the skew off the
  elapsed time.
\<close>

theorem pause_during_skew_runs_back:
  assumes "tm_running t" "tm_speed t = 1" "is_ulong pt" "is_ulong (tm_parent_epoch t)" "is_ulong (tm_local_epoch t)"
    and "pt < tm_parent_epoch t" "tm_parent_epoch t - pt \<le> tm_local_epoch t"
  shows "timer_elapsed pt (timer_pause pt t) = timer_elapsed pt t - (tm_parent_epoch t - pt)
    \<and> timer_elapsed pt (timer_pause pt t) < timer_elapsed pt t"
proof -
  have "(tm_local_epoch t + (pt - tm_parent_epoch t) mod 2 ^ 64) mod 2 ^ 64
      = (tm_local_epoch t + (pt - tm_parent_epoch t)) mod 2 ^ 64" by (simp only: mod_add_right_eq)
  also have "\<dots> = tm_local_epoch t - (tm_parent_epoch t - pt)"
    using assms by (simp add: is_ulong_def)
  finally show ?thesis
    using assms by (simp add: timer_pause_def timer_elapsed_def apply_speed_manip_def to_ulong_def)
qed

theorem pause_during_skew_runs_back_witness:
  "timer_elapsed 505 (timer_pause 505 (skew 500 500 (- 20) (mk_timer 0 1 True))) = 485"
proof -
  have s: "skew 500 500 (- 20) (mk_timer 0 1 True)
      = \<lparr>tm_parent_epoch = 520, tm_local_epoch = 500, tm_speed = 1, tm_running = True, tm_drift = 20, tm_slaved = False\<rparr>"
    by code_simp
  show ?thesis unfolding s
    using pause_during_skew_runs_back [of "\<lparr>tm_parent_epoch = 520, tm_local_epoch = 500, tm_speed = 1,
        tm_running = True, tm_drift = 20, tm_slaved = False\<rparr>" 505]
    by (simp add: is_ulong_def timer_elapsed_def)
qed

text \<open>
  A negative skew of a paused clock of normal speed moves it: the parent time that passed since
  its last epoch is added although the clock was not running.
\<close>

theorem skew_moves_paused_clock:
  assumes "\<not> tm_running t" "tm_speed t = 1" "s < 0" "is_ulong pt" "0 \<le> tm_parent_epoch t"
    and "tm_parent_epoch t \<le> pt" "0 \<le> tm_local_epoch t" "tm_local_epoch t + pt - tm_parent_epoch t < 2 ^ 64"
  shows "timer_elapsed pt (skew pt pt s t) = timer_elapsed pt t + (pt - tm_parent_epoch t)"
proof -
  have "is_ulong (pt - tm_parent_epoch t)" "is_ulong (tm_local_epoch t + (pt - tm_parent_epoch t))"
    using assms by (auto simp: is_ulong_def)
  then show ?thesis
    using assms by (simp add: skew_def timer_elapsed_def apply_speed_manip_def)
qed

theorem skew_moves_paused_clock_witness:
  "timer_elapsed 900 (skew 900 900 (- 5) (mk_timer 100 1 False)) = 800"
  using skew_moves_paused_clock [of "mk_timer 100 1 False" "- 5" 900]
  by (simp add: mk_timer_def is_ulong_def timer_elapsed_def)

end
