(* ===== verification/Event_Processor.thy ===== *)
theory Event_Processor
  imports Delta_Timer Timer
begin

text \<open>
  The event processor (lib/event_processor.cpp): three delta timers and three run queues, one of
  each for every priority, served by one thread, and the adjustment of the clock that follows a
  batch. The three pairs of members are the values of two functions on the priorities. What is not
  part of the processor is an argument: \<open>clk\<close> gives the successive readings of
  \<open>m_timer->elapsed()\<close>, \<open>fire e\<close> is what firing event \<open>e\<close> does to the processor (it may add
  or cancel events, the lock is released), and \<open>lock_redraw\<close> and \<open>unlock_redraw\<close> what the
  observer's methods do. The field
  \<open>ep_served\<close> is the history of the events fired. The serving loop may go on for ever when every
  event schedules another one at once: \<open>None\<close> is that. The GCD and Windows variants, the lock and
  the thread are not modelled.
\<close>

section \<open>State and operations\<close>

datatype event_priority = ep_low | ep_med | ep_high

record 'e processor =
  ep_timer :: "event_priority \<Rightarrow> 'e delta_timer"
  ep_queue :: "event_priority \<Rightarrow> 'e list"
  ep_observer :: bool
  ep_reads :: nat
  ep_served :: "(event_priority \<times> 'e) list"

definition mk_processor :: "nat \<Rightarrow> 'e processor" where
  "mk_processor now = \<lparr>ep_timer = (\<lambda>_. mk_delta_timer now), ep_queue = (\<lambda>_. []),
     ep_observer = False, ep_reads = 0, ep_served = []\<rparr>"

definition set_timer :: "event_priority \<Rightarrow> 'e delta_timer \<Rightarrow> 'e processor \<Rightarrow> 'e processor" where
  "set_timer p dt s = s\<lparr>ep_timer := (ep_timer s)(p := dt)\<rparr>"

definition set_queue :: "event_priority \<Rightarrow> 'e list \<Rightarrow> 'e processor \<Rightarrow> 'e processor" where
  "set_queue p q s = s\<lparr>ep_queue := (ep_queue s)(p := q)\<rparr>"

definition add_event :: "'e \<Rightarrow> nat \<Rightarrow> event_priority \<Rightarrow> 'e processor \<Rightarrow> 'e processor" where
  "add_event pe t p s = set_timer p (dt_insert pe t (ep_timer s p)) s"

definition cancel_event :: "'e \<Rightarrow> event_priority \<Rightarrow> 'e processor \<Rightarrow> bool \<times> 'e processor" where
  "cancel_event pe p s =
     (let (b, dt) = dt_cancel pe (ep_timer s p) in (b, set_timer p dt s))"

text \<open>The run queues are not cleared.\<close>

definition cancel_all_events :: "'e processor \<Rightarrow> 'e processor" where
  "cancel_all_events s = s\<lparr>ep_timer := dt_clear \<circ> ep_timer s\<rparr>"

definition events_available ::
    "(nat \<Rightarrow> nat) \<Rightarrow> event_priority \<Rightarrow> 'e processor \<Rightarrow> bool \<times> 'e processor" where
  "events_available clk p s =
     (let s = (if ep_queue s p = []
               then let (q, dt) = dt_execute (clk (ep_reads s)) [] (ep_timer s p)
                    in set_queue p q (set_timer p dt (s\<lparr>ep_reads := Suc (ep_reads s)\<rparr>))
               else s)
      in (ep_queue s p \<noteq> [], s))"

text \<open>The condition of the loop: the three tests are joined by a short-circuit "or".\<close>

definition any_available :: "(nat \<Rightarrow> nat) \<Rightarrow> 'e processor \<Rightarrow> bool \<times> 'e processor" where
  "any_available clk s =
     (let (b, s) = events_available clk ep_high s
      in if b then (True, s)
         else let (b, s) = events_available clk ep_med s
              in if b then (True, s) else events_available clk ep_low s)"

definition serve_event ::
    "('e \<Rightarrow> 'e processor \<Rightarrow> 'e processor) \<Rightarrow> event_priority \<Rightarrow> 'e processor \<Rightarrow> bool \<times> 'e processor" where
  "serve_event fire p s =
     (case ep_queue s p of
        [] \<Rightarrow> (False, s)
      | e # q \<Rightarrow> (True, fire e ((set_queue p q s)\<lparr>ep_served := ep_served s @ [(p, e)]\<rparr>)))"

definition serve_one :: "('e \<Rightarrow> 'e processor \<Rightarrow> 'e processor) \<Rightarrow> 'e processor \<Rightarrow> 'e processor" where
  "serve_one fire s =
     (let (b, s) = serve_event fire ep_high s
      in if b then s
         else let (b, s) = serve_event fire ep_med s
              in if b then s else snd (serve_event fire ep_low s))"

partial_function (option) serve_loop ::
    "(nat \<Rightarrow> nat) \<Rightarrow> ('e \<Rightarrow> 'e processor \<Rightarrow> 'e processor) \<Rightarrow> 'e processor \<Rightarrow> 'e processor option" where
  "serve_loop clk fire s =
     (let (b, s) = any_available clk s
      in if b then serve_loop clk fire (serve_one fire s) else Some s)"

declare serve_loop.simps [code]

text \<open>The adjustment of the clock, as a \<open>long\<close>.\<close>

definition next_due :: "'e processor \<Rightarrow> int" where
  "next_due s = to_long (int (min (next_event_time (ep_timer s ep_low))
     (min (next_event_time (ep_timer s ep_med)) (next_event_time (ep_timer s ep_high)))))"

definition clamp_drift :: "int \<Rightarrow> 'e processor \<Rightarrow> int" where
  "clamp_drift drift s =
     (if 0 < drift then (if next_due s \<le> drift then to_long (next_due s - 1) else drift) else drift)"

text \<open>
  \<open>_serve_events\<close>: returns the processor and the clock; \<open>pt\<close> is the parent time the clock reads
  while it is skewed. When the observer has disappeared meanwhile, nothing is served.
\<close>

definition serve_events ::
    "(nat \<Rightarrow> nat) \<Rightarrow> ('e \<Rightarrow> 'e processor \<Rightarrow> 'e processor) \<Rightarrow> ('e processor \<Rightarrow> 'e processor)
     \<Rightarrow> ('e processor \<Rightarrow> 'e processor) \<Rightarrow> int
     \<Rightarrow> 'e processor \<times> timer_control \<Rightarrow> ('e processor \<times> timer_control) option" where
  "serve_events clk fire lock_redraw unlock_redraw pt st =
     (let (s, t) = st;
          s' = (if ep_observer s then lock_redraw s else s)
      in if ep_observer s \<and> \<not> ep_observer s' then Some (s', t)
         else case serve_loop clk fire s' of
                None \<Rightarrow> None
              | Some s'' \<Rightarrow> Some (if ep_observer s'' then unlock_redraw s'' else s'',
                                skew pt pt (clamp_drift (tm_drift t) s'') t))"

section \<open>One round\<close>

lemma set_timer_sel [simp]: "ep_timer (set_timer p dt s) = (ep_timer s)(p := dt)"
    "ep_queue (set_timer p dt s) = ep_queue s" "ep_served (set_timer p dt s) = ep_served s"
    "ep_reads (set_timer p dt s) = ep_reads s"
  by (simp_all add: set_timer_def)

lemma set_queue_sel [simp]: "ep_queue (set_queue p q s) = (ep_queue s)(p := q)"
    "ep_timer (set_queue p q s) = ep_timer s" "ep_served (set_queue p q s) = ep_served s"
    "ep_reads (set_queue p q s) = ep_reads s"
  by (simp_all add: set_queue_def)

text \<open>At priority \<open>p\<close> nothing is left to do as of the last reading of the clock.\<close>

definition nothing_due :: "event_priority \<Rightarrow> 'e processor \<Rightarrow> bool" where
  "nothing_due p s \<longleftrightarrow> ep_queue s p = [] \<and> (\<forall>x\<in>set (due (dt_events (ep_timer s p))). 0 < snd x)"

definition pending :: "event_priority \<Rightarrow> 'e processor \<Rightarrow> 'e multiset" where
  "pending p s = mset (ep_queue s p) + mset (map fst (due (dt_events (ep_timer s p))))"

lemma later_than_positive: "x \<in> set (later_than d xs) \<Longrightarrow> 0 < snd x"
  by (auto simp: later_than_def)

lemma execute_positive: "\<forall>x\<in>set (due (dt_events (snd (dt_execute now q dt)))). 0 < snd x"
  by (auto simp: dt_execute_alt dq.schedule_taken dest: later_than_positive)

lemma execute_pending: "mset (fst (dt_execute now [] dt)) + mset (map fst (due (dt_events (snd (dt_execute now [] dt)))))
    = mset (map fst (due (dt_events dt)))"
  using dq.taken_all_or_nothing [of "dt_events dt" "elapsed_since now (dt_last_run dt)"]
  by (simp add: dt_execute_alt)

lemma events_available_facts:
  assumes "events_available clk p s = (b, s')"
  shows "b = (ep_queue s' p \<noteq> [])"
    and "q \<noteq> p \<Longrightarrow> ep_queue s' q = ep_queue s q \<and> ep_timer s' q = ep_timer s q"
    and "pending q s' = pending q s" and "ep_served s' = ep_served s"
    and "\<not> b \<Longrightarrow> nothing_due p s'"
proof -
  show "b = (ep_queue s' p \<noteq> [])" using assms by (auto simp: events_available_def Let_def)
  show "q \<noteq> p \<Longrightarrow> ep_queue s' q = ep_queue s q \<and> ep_timer s' q = ep_timer s q"
    using assms by (auto simp: events_available_def Let_def split: prod.splits if_splits)
  show "ep_served s' = ep_served s"
    using assms by (auto simp: events_available_def Let_def split: prod.splits if_splits)
  show "pending q s' = pending q s"
    using assms execute_pending [of "clk (ep_reads s)" "ep_timer s p"]
    by (auto simp: events_available_def Let_def pending_def split: prod.splits if_splits)
  show "\<not> b \<Longrightarrow> nothing_due p s'"
    using assms execute_positive [of "clk (ep_reads s)" "[]" "ep_timer s p"]
    by (auto simp: events_available_def Let_def nothing_due_def split: prod.splits if_splits)
qed

lemma nothing_due_frame: "ep_queue s' p = ep_queue s p \<and> ep_timer s' p = ep_timer s p \<Longrightarrow>
    nothing_due p s' = nothing_due p s"
  by (simp add: nothing_due_def)

text \<open>What the loop condition has established when it holds, and when it does not.\<close>

definition chosen :: "event_priority \<Rightarrow> 'e processor \<Rightarrow> bool" where
  "chosen p s \<longleftrightarrow> ep_queue s p \<noteq> []
     \<and> (p \<noteq> ep_high \<longrightarrow> nothing_due ep_high s) \<and> (p = ep_low \<longrightarrow> nothing_due ep_med s)"

lemma any_available_facts:
  assumes "any_available clk s = (b, s')"
  shows "pending q s' = pending q s" "ep_served s' = ep_served s"
    and "b \<Longrightarrow> \<exists>p. chosen p s'" and "\<not> b \<Longrightarrow> nothing_due p s'"
proof -
  obtain b1 s1 where 1: "events_available clk ep_high s = (b1, s1)" by force
  obtain b2 s2 where 2: "events_available clk ep_med s1 = (b2, s2)" by force
  obtain b3 s3 where 3: "events_available clk ep_low s2 = (b3, s3)" by force
  note f1 = events_available_facts [OF 1] and f2 = events_available_facts [OF 2]
    and f3 = events_available_facts [OF 3]
  have r: "(b, s') = (if b1 then (True, s1) else if b2 then (True, s2) else (b3, s3))"
    using assms 1 2 3 by (auto simp: any_available_def)
  show "pending q s' = pending q s" "ep_served s' = ep_served s"
    using r f1(3,4) f2(3,4) f3(3,4) by (auto split: if_splits)
  have h: "nothing_due ep_high s1 \<Longrightarrow> nothing_due ep_high s2"
    "nothing_due ep_high s2 \<Longrightarrow> nothing_due ep_high s3" "nothing_due ep_med s2 \<Longrightarrow> nothing_due ep_med s3"
    using f2(2) [of ep_high] f3(2) [of ep_high] f3(2) [of ep_med] by (auto simp: nothing_due_def)
  show "b \<Longrightarrow> \<exists>p. chosen p s'"
  proof -
    assume b
    then consider "b1" "s' = s1" | "\<not> b1" "b2" "s' = s2" | "\<not> b1" "\<not> b2" "b3" "s' = s3"
      using r by (auto split: if_splits)
    then show ?thesis
    proof cases
      case 1
      then have "chosen ep_high s'" using f1(1) by (simp add: chosen_def)
      then show ?thesis ..
    next
      case 2
      then have "chosen ep_med s'" using f2(1) f1(5) h by (simp add: chosen_def)
      then show ?thesis ..
    next
      case 3
      then have "chosen ep_low s'" using f3(1) f1(5) f2(5) h by (simp add: chosen_def)
      then show ?thesis ..
    qed
  qed
  show "\<not> b \<Longrightarrow> nothing_due p s'"
    using r f1(5) f2(5) f3(5) h by (cases p) (auto split: if_splits)
qed

lemma serve_one_chosen:
  assumes "chosen p s"
  shows "serve_one fire s = fire (hd (ep_queue s p))
    ((set_queue p (tl (ep_queue s p)) s)\<lparr>ep_served := ep_served s @ [(p, hd (ep_queue s p))]\<rparr>)"
  using assms by (cases p; cases "ep_queue s p")
    (auto simp: serve_one_def serve_event_def chosen_def nothing_due_def)

text \<open>
  C25: a round of the loop fires exactly one event, the first of the run queue of some priority, and
  only when no event of a higher priority is waiting: their run queues are empty and, as of the
  reading of the clock just taken, none of their timeouts is due.
\<close>

theorem higher_priority_first:
  assumes "any_available clk s = (True, s')"
  shows "\<exists>p e q. ep_queue s' p = e # q
    \<and> serve_one fire s' = fire e ((set_queue p q s')\<lparr>ep_served := ep_served s @ [(p, e)]\<rparr>)
    \<and> (p \<noteq> ep_high \<longrightarrow> nothing_due ep_high s') \<and> (p = ep_low \<longrightarrow> nothing_due ep_med s')"
proof -
  from any_available_facts(3) [OF assms] obtain p where p: "chosen p s'" by auto
  then obtain e q where q: "ep_queue s' p = e # q" by (cases "ep_queue s' p") (auto simp: chosen_def)
  have "serve_one fire s' = fire e ((set_queue p q s')\<lparr>ep_served := ep_served s @ [(p, e)]\<rparr>)"
    using serve_one_chosen [OF p, of fire] q any_available_facts(2) [OF assms] by simp
  with p q show ?thesis by (auto simp: chosen_def)
qed

definition example_processor :: "nat processor" where
  "example_processor = add_event 2 0 ep_high (add_event 1 0 ep_low (mk_processor 0))"

theorem higher_priority_first_witness:
  "\<exists>p e q. ep_queue (snd (any_available (\<lambda>_. 5) example_processor)) p = e # q
    \<and> (p \<noteq> ep_high \<longrightarrow> nothing_due ep_high (snd (any_available (\<lambda>_. 5) example_processor)))"
proof -
  have "fst (any_available (\<lambda>_. 5) example_processor)"
    by (simp add: example_processor_def add_event_def mk_processor_def mk_delta_timer_def
        any_available_def events_available_def dt_execute_def elapsed_since_def decr_def Let_def dt_insert_def)
  then have "any_available (\<lambda>_. 5) example_processor = (True, snd (any_available (\<lambda>_. 5) example_processor))"
    by (simp add: prod_eq_iff)
  from higher_priority_first [OF this, of "\<lambda>_ s. s"] show ?thesis by blast
qed

section \<open>A whole batch\<close>

lemma serve_loop_done:
  "serve_loop clk fire s = Some s' \<Longrightarrow> \<forall>p. nothing_due p s'"
proof (rule serve_loop.raw_induct [where P = "\<lambda>clk fire s s'. \<forall>p. nothing_due p s'"])
  fix f clk fire and s s' :: "'b processor"
  assume IH: "\<And>clk fire s s'. f clk fire s = Some s' \<Longrightarrow> \<forall>p. nothing_due p s'"
    and eq: "(let (b, s) = any_available clk s in if b then f clk fire (serve_one fire s) else Some s) = Some s'"
  obtain b s1 where a: "any_available clk s = (b, s1)" by force
  show "\<forall>p. nothing_due p s'"
  proof (cases b)
    case True
    with eq a have "f clk fire (serve_one fire s1) = Some s'" by simp
    then show ?thesis by (rule IH)
  next
    case False
    with eq a have "s' = s1" by simp
    with any_available_facts(4) [OF a False] show ?thesis by simp
  qed
qed

lemma next_event_time_positive:
  "\<forall>x\<in>set (due (dt_events dt)). 0 < snd x \<Longrightarrow> 0 < next_event_time dt"
  by (auto simp: next_event_time_def due_def split: list.split prod.split)

lemma next_event_time_least:
  "x \<in> set (due (dt_events dt)) \<Longrightarrow> next_event_time dt \<le> snd x"
proof -
  assume x: "x \<in> set (due (dt_events dt))"
  then obtain e d xs where l: "dt_events dt = (e, d) # xs" by (cases "dt_events dt") (auto simp: due_def)
  with x show ?thesis using due_from_later [of d xs] by (auto simp: next_event_time_def due_def)
qed

text \<open>
  C26: when the loop ends, all run queues are empty and every scheduled event is still in the future
  as of the last reading of the clock; and the correction the clock then gets is at least 0 for a
  positive drift and smaller than the delay of every scheduled event, so that it makes none due.
\<close>

theorem batch_complete:
  assumes "serve_loop clk fire s = Some s'" "0 < drift"
    and "int (next_event_time (ep_timer s' ep_low)) \<le> long_max"
  shows "ep_queue s' p = [] \<and> 0 \<le> clamp_drift drift s' \<and> clamp_drift drift s' \<le> drift
    \<and> (\<forall>x\<in>set (due (dt_events (ep_timer s' p))). 0 < snd x \<and> clamp_drift drift s' < int (snd x))"
proof -
  have n: "nothing_due q s'" for q using serve_loop_done [OF assms(1)] by simp
  let ?m = "min (next_event_time (ep_timer s' ep_low))
      (min (next_event_time (ep_timer s' ep_med)) (next_event_time (ep_timer s' ep_high)))"
  have "0 < next_event_time (ep_timer s' q)" for q
    using n [of q] next_event_time_positive [of "ep_timer s' q"] by (simp add: nothing_due_def)
  then have pos: "0 < ?m" by simp
  have "is_long (int ?m)" using assms(3) by (auto simp: is_long_def long_min_def)
  then have nd: "next_due s' = int ?m" by (simp add: next_due_def)
  have "is_long (int ?m - 1)" using \<open>is_long (int ?m)\<close> pos by (simp add: is_long_def long_min_def)
  then have c: "clamp_drift drift s' = min drift (int ?m - 1)"
    using assms(2) nd by (simp add: clamp_drift_def del: of_nat_min)
  have le: "?m \<le> next_event_time (ep_timer s' p)" by (cases p) simp_all
  have "\<forall>x\<in>set (due (dt_events (ep_timer s' p))). 0 < snd x \<and> clamp_drift drift s' < int (snd x)"
  proof
    fix x assume x: "x \<in> set (due (dt_events (ep_timer s' p)))"
    then have "0 < snd x" using n [of p] by (auto simp: nothing_due_def)
    moreover have "?m \<le> snd x" using le next_event_time_least [OF x] by (rule order_trans)
    ultimately show "0 < snd x \<and> clamp_drift drift s' < int (snd x)" using c by linarith
  qed
  moreover have "0 \<le> clamp_drift drift s'" using c pos assms(2) by simp
  moreover have "clamp_drift drift s' \<le> drift" using c by simp
  ultimately show ?thesis using n [of p] by (simp add: nothing_due_def)
qed

lemma pending_serve:
  assumes "chosen p s" "\<And>e s. fire e s = s"
  shows "(\<Sum>q\<in>{ep_low, ep_med, ep_high}. size (pending q (serve_one fire s))) <
    (\<Sum>q\<in>{ep_low, ep_med, ep_high}. size (pending q s))"
  unfolding serve_one_chosen [OF assms(1)]
  using assms by (cases p; cases "ep_queue s p") (auto simp: pending_def chosen_def)

text \<open>Events are neither lost nor invented, priority by priority.\<close>

definition served_at :: "event_priority \<Rightarrow> 'e processor \<Rightarrow> 'e multiset" where
  "served_at p s = mset (map snd (filter (\<lambda>x. fst x = p) (ep_served s)))"

lemma serve_one_conserves:
  assumes "chosen q s" "\<And>e s. fire e s = s"
  shows "served_at p (serve_one fire s) + pending p (serve_one fire s) = served_at p s + pending p s"
  unfolding serve_one_chosen [OF assms(1)]
  using assms by (cases "ep_queue s q") (auto simp: served_at_def pending_def chosen_def)

lemma serve_loop_total:
  assumes "\<And>e s. fire e s = s"
  shows "\<exists>s'. serve_loop clk fire s = Some s' \<and> (\<forall>p. served_at p s' + pending p s' = served_at p s + pending p s)"
proof (induction "\<Sum>q\<in>{ep_low, ep_med, ep_high}. size (pending q s)" arbitrary: s rule: less_induct)
  case less
  obtain b s1 where a: "any_available clk s = (b, s1)" by force
  have same: "pending p s1 = pending p s" "served_at p s1 = served_at p s" for p
    using any_available_facts(1,2) [OF a] by (simp_all add: served_at_def)
  show ?case
  proof (cases b)
    case False
    with a same show ?thesis by (subst serve_loop.simps) simp
  next
    case True
    from any_available_facts(3) [OF a True] obtain q where q: "chosen q s1" ..
    have "(\<Sum>q\<in>{ep_low, ep_med, ep_high}. size (pending q (serve_one fire s1)))
        < (\<Sum>q\<in>{ep_low, ep_med, ep_high}. size (pending q s))"
      using pending_serve [OF q assms] same by simp
    from less [OF this] obtain s' where s': "serve_loop clk fire (serve_one fire s1) = Some s'"
      "\<forall>p. served_at p s' + pending p s' = served_at p (serve_one fire s1) + pending p (serve_one fire s1)"
      by blast
    then show ?thesis
      using True a same serve_one_conserves [OF q assms] by (subst serve_loop.simps) simp
  qed
qed

text \<open>
  C24: as long as firing events schedules no new ones the batch ends, and priority by priority every
  event is either fired once or still scheduled, and then in the future.
\<close>

theorem batch_fires_all_due:
  assumes "\<forall>e s. fire e s = s"
  shows "\<exists>s'. serve_loop clk fire s = Some s'
    \<and> served_at p s' + mset (map fst (due (dt_events (ep_timer s' p)))) = served_at p s + pending p s
    \<and> (\<forall>x\<in>set (due (dt_events (ep_timer s' p))). 0 < snd x)"
proof -
  from serve_loop_total [of fire clk s] assms obtain s' where s': "serve_loop clk fire s = Some s'"
    "\<forall>p. served_at p s' + pending p s' = served_at p s + pending p s" by auto
  moreover have "nothing_due p s'" using serve_loop_done [OF s'(1)] by simp
  ultimately have "served_at p s' + mset (map fst (due (dt_events (ep_timer s' p)))) = served_at p s + pending p s"
    by (metis add_0 mset.simps(1) nothing_due_def pending_def)
  with s'(1) \<open>nothing_due p s'\<close> show ?thesis by (auto simp: nothing_due_def)
qed

theorem batch_fires_all_due_witness:
  "\<exists>s'. serve_loop (\<lambda>_. 5) (\<lambda>_ s. s) example_processor = Some s'
    \<and> (\<forall>x\<in>set (due (dt_events (ep_timer s' ep_low))). 0 < snd x)"
  using batch_fires_all_due [of "\<lambda>_ s. s" "\<lambda>_. 5" example_processor ep_low] by auto

lemma example_batch: "serve_loop (\<lambda>_. 5) (\<lambda>_ s. s) (mk_processor 0) = Some s' \<Longrightarrow>
    next_event_time (ep_timer s' ep_low) = 1000000"
  by (subst (asm) serve_loop.simps)
    (auto simp: mk_processor_def mk_delta_timer_def any_available_def events_available_def
      dt_execute_def elapsed_since_def decr_def next_event_time_def set_timer_def set_queue_def)

theorem batch_complete_witness:
  "\<exists>s'. serve_loop (\<lambda>_. 5) (\<lambda>_ s. s) (mk_processor 0 :: nat processor) = Some s' \<and> 0 \<le> clamp_drift 3 s'"
proof -
  obtain s' where s': "serve_loop (\<lambda>_. 5) (\<lambda>_ s. s) (mk_processor 0 :: nat processor) = Some s'"
    using serve_loop_total [of "\<lambda>_ s. s", OF refl] by blast
  then have "0 \<le> clamp_drift 3 s'"
    using batch_complete [OF s', of 3 ep_low] example_batch [OF s'] by (simp add: long_max_def)
  with s' show ?thesis by blast
qed

text \<open>
  Cancelling all events empties the timers only: an event that has already reached a run queue
  cannot be cancelled any more, neither alone nor with all the others, and is still fired.
\<close>

theorem cancel_misses_run_queue:
  assumes "e \<in># pending p s" "e \<notin> fst ` set (due (dt_events (ep_timer s p)))"
    and "\<forall>x\<in>set (due (dt_events (ep_timer s p))). snd x < 2 ^ 64"
  shows "e \<in> set (ep_queue (cancel_all_events s) p) \<and> \<not> fst (cancel_event e p s)
    \<and> e \<in> set (ep_queue (snd (cancel_event e p s)) p)"
proof -
  have "e \<in> set (ep_queue s p)" using assms(1,2) by (auto simp: pending_def)
  moreover have "\<not> fst (dt_cancel e (ep_timer s p))"
    using due_from_cancel [of 0 "dt_events (ep_timer s p)" e] assms(2,3)
    by (cases "delta_cancel e (dt_events (ep_timer s p))") (auto simp: dt_cancel_def due_def)
  ultimately show ?thesis
    by (cases "dt_cancel e (ep_timer s p)") (simp add: cancel_all_events_def cancel_event_def)
qed

theorem cancel_misses_run_queue_witness:
  "\<exists>s :: nat processor. 7 \<in> set (ep_queue (cancel_all_events s) ep_low) \<and> \<not> fst (cancel_event 7 ep_low s)"
  using cancel_misses_run_queue [of 7 ep_low "set_queue ep_low [7] (mk_processor 0)"]
  by (auto simp: pending_def mk_processor_def mk_delta_timer_def due_def)

end
