(* ===== verification/Databuffer.thy ===== *)
theory Databuffer
  imports Prelude
begin

text \<open>
  The byte queue between a data source and its client (net/databuffer.cpp). The heap blocks are
  lists: \<open>db_buffer\<close> is the allocated block behind \<open>m_buffer\<close>, \<open>db_old\<close> the block kept for a
  reader that still holds a pointer into it. The bytes a \<open>malloc\<close> or \<open>realloc\<close> adds are
  arbitrary, given by \<open>junk\<close>. \<open>None\<close> is a failed assertion or a \<open>memcpy\<close> of overlapping
  regions. Running out of memory and the lock are not modelled; sizes are \<open>nat\<close>.
\<close>

record 'b databuffer =
  db_buffer :: "'b list"
  db_old :: "'b list option"
  db_reading :: bool
  db_writing :: bool
  db_rear :: nat
  db_size :: nat
  db_max_size :: nat
  db_max_unused :: nat
  db_used :: nat
  db_full :: bool

definition default_max :: nat where
  "default_max = 1000000"

definition mk_databuffer :: "nat \<Rightarrow> 'b databuffer" where
  "mk_databuffer max_size = \<lparr>db_buffer = [], db_old = None, db_reading = False, db_writing = False,
     db_rear = 0, db_size = 0, db_max_size = (if max_size = 0 then default_max else max_size),
     db_max_unused = default_max, db_used = 0, db_full = False\<rparr>"

definition over_limit :: "nat \<Rightarrow> nat \<Rightarrow> bool" where
  "over_limit mx used \<longleftrightarrow> 0 < mx \<and> mx < used"

definition set_max_size :: "int \<Rightarrow> 'b databuffer \<Rightarrow> 'b databuffer" where
  "set_max_size n db =
     (let db = db\<lparr>db_max_size := (if 0 \<le> n then nat n else default_max)\<rparr>
      in db\<lparr>db_full := over_limit (db_max_size db) (db_used db)\<rparr>)"

definition buffer_not_empty :: "'b databuffer \<Rightarrow> bool" where
  "buffer_not_empty db \<longleftrightarrow> 0 < db_used db"

definition realloc :: "'b list \<Rightarrow> nat \<Rightarrow> (nat \<Rightarrow> 'b) \<Rightarrow> 'b list" where
  "realloc xs n junk = take n xs @ map junk [length xs..<n]"

definition grow :: "nat \<Rightarrow> (nat \<Rightarrow> 'b) \<Rightarrow> 'b databuffer \<Rightarrow> 'b databuffer" where
  "grow sz junk db =
     (if db_reading db \<and> db_old db = None
      then db\<lparr>db_old := Some (db_buffer db),
              db_buffer := realloc (take (db_size db) (db_buffer db)) (db_size db + sz) junk\<rparr>
      else db\<lparr>db_buffer := realloc (db_buffer db) (db_size db + sz) junk\<rparr>)"

text \<open>The write pointer is returned as an offset into \<open>m_buffer\<close>; \<open>None\<close> inside is \<open>NULL\<close>.\<close>

definition get_write_ptr :: "nat \<Rightarrow> (nat \<Rightarrow> 'b) \<Rightarrow> 'b databuffer \<Rightarrow> (nat option \<times> 'b databuffer) option" where
  "get_write_ptr sz junk db =
     (if db_writing db \<or> sz = 0 then None
      else if \<not> db_full db
      then Some (Some (db_size db), (grow sz junk db)\<lparr>db_writing := True\<rparr>)
      else Some (None, db\<lparr>db_writing := False\<rparr>))"

text \<open>What the data source does with the pointer: it stores bytes from there on.\<close>

definition store :: "nat \<Rightarrow> 'b list \<Rightarrow> 'b databuffer \<Rightarrow> 'b databuffer" where
  "store off bs db = db\<lparr>db_buffer := take off (db_buffer db) @ bs @ drop (off + length bs) (db_buffer db)\<rparr>"

definition pushdata :: "nat \<Rightarrow> (nat \<Rightarrow> 'b) \<Rightarrow> 'b databuffer \<Rightarrow> 'b databuffer option" where
  "pushdata sz junk db =
     (if \<not> db_writing db then None
      else let db = db\<lparr>db_writing := False\<rparr>;
               db = (if \<not> db_reading db
                     then db\<lparr>db_buffer := realloc (db_buffer db) (db_size db + sz) junk\<rparr> else db);
               db = db\<lparr>db_size := db_size db + sz\<rparr>
           in if db_size db < db_rear db then None
              else let db = db\<lparr>db_used := db_size db - db_rear db\<rparr>
                   in Some (if over_limit (db_max_size db) (db_used db) then db\<lparr>db_full := True\<rparr> else db))"

text \<open>The bytes a reader sees through the pointer it got when \<open>m_rear\<close> was \<open>r\<close>.\<close>

definition get_read_ptr :: "'b databuffer \<Rightarrow> (nat \<times> 'b databuffer) option" where
  "get_read_ptr db = (if db_reading db then None else Some (db_rear db, db\<lparr>db_reading := True\<rparr>))"

definition read_block :: "'b databuffer \<Rightarrow> 'b list" where
  "read_block db = (case db_old db of None \<Rightarrow> db_buffer db | Some b \<Rightarrow> b)"

definition compact :: "(nat \<Rightarrow> 'b) \<Rightarrow> 'b databuffer \<Rightarrow> 'b databuffer option" where
  "compact junk db =
     (if 0 < db_used db \<and> 0 < db_rear db \<and> db_rear db < db_used db then None
      else let moved = take (db_used db) (drop (db_rear db) (db_buffer db)) @ drop (db_used db) (db_buffer db)
           in Some (db\<lparr>db_buffer := realloc moved (db_used db) junk, db_size := db_used db, db_rear := 0\<rparr>))"

definition readdone :: "nat \<Rightarrow> (nat \<Rightarrow> 'b) \<Rightarrow> 'b databuffer \<Rightarrow> 'b databuffer option" where
  "readdone sz junk db =
     (if \<not> db_reading db \<or> db_used db < sz then None
      else let db = db\<lparr>db_reading := False, db_rear := db_rear db + sz\<rparr>
           in if db_size db < db_rear db then None
              else let db = db\<lparr>db_used := db_size db - db_rear db\<rparr>;
                       db = db\<lparr>db_full := over_limit (db_max_size db) (db_used db)\<rparr>;
                       db = db\<lparr>db_old := None\<rparr>
                   in if \<not> db_writing db
                         \<and> (db_used db = 0 \<or> 0 < db_max_unused db \<and> db_max_unused db < db_rear db)
                      then compact junk db else Some db)"

section \<open>The queue of bytes\<close>

definition contents :: "'b databuffer \<Rightarrow> 'b list" where
  "contents db = take (db_used db) (drop (db_rear db) (db_buffer db))"

definition db_ok :: "'b databuffer \<Rightarrow> bool" where
  "db_ok db \<longleftrightarrow> db_rear db \<le> db_size db \<and> db_used db = db_size db - db_rear db
     \<and> db_size db \<le> length (db_buffer db)
     \<and> db_full db = over_limit (db_max_size db) (db_used db)
     \<and> (db_old db \<noteq> None \<longrightarrow> db_reading db)"

lemma length_realloc [simp]: "length (realloc xs n junk) = n"
  by (simp add: realloc_def)

lemma take_realloc: "k \<le> n \<Longrightarrow> k \<le> length xs \<Longrightarrow> take k (realloc xs n junk) = take k xs"
  by (simp add: realloc_def min_def)

lemma contents_alt: "db_ok db \<Longrightarrow> contents db = drop (db_rear db) (take (db_size db) (db_buffer db))"
  by (simp add: contents_def db_ok_def drop_take)

lemma grow_facts:
  assumes "db_ok db"
  shows "take (db_size db) (db_buffer (grow sz junk db)) = take (db_size db) (db_buffer db)
    \<and> length (db_buffer (grow sz junk db)) = db_size db + sz
    \<and> db_size (grow sz junk db) = db_size db \<and> db_rear (grow sz junk db) = db_rear db
    \<and> db_used (grow sz junk db) = db_used db \<and> db_full (grow sz junk db) = db_full db
    \<and> db_max_size (grow sz junk db) = db_max_size db \<and> db_reading (grow sz junk db) = db_reading db
    \<and> db_max_unused (grow sz junk db) = db_max_unused db
    \<and> (db_old (grow sz junk db) \<noteq> None \<longrightarrow> db_reading db)
    \<and> (db_reading db \<longrightarrow> db_old (grow sz junk db) = Some (read_block db))"
  using assms by (auto simp: grow_def db_ok_def take_realloc read_block_def)

lemma pushdata_facts:
  assumes "db_writing w" "db_rear w \<le> db_size w + sz" "db_size w + sz \<le> length (db_buffer w)"
    and "db_full w \<longrightarrow> over_limit (db_max_size w) (db_size w + sz - db_rear w)"
  obtains db2 where "pushdata sz junk w = Some db2" "db_rear db2 = db_rear w"
    "db_size db2 = db_size w + sz" "db_used db2 = db_size w + sz - db_rear w"
    "db_full db2 = over_limit (db_max_size w) (db_size w + sz - db_rear w)"
    "db_max_size db2 = db_max_size w" "db_old db2 = db_old w" "db_reading db2 = db_reading w"
    "\<not> db_writing db2" "take (db_size w + sz) (db_buffer db2) = take (db_size w + sz) (db_buffer w)"
    "db_size w + sz \<le> length (db_buffer db2)"
proof -
  define b where "b = (if \<not> db_reading w then realloc (db_buffer w) (db_size w + sz) junk else db_buffer w)"
  have b: "take (db_size w + sz) b = take (db_size w + sz) (db_buffer w)" "db_size w + sz \<le> length b"
    using assms(3) by (simp_all add: b_def realloc_def)
  have P: "pushdata sz junk w = Some (w\<lparr>db_buffer := b, db_writing := False, db_size := db_size w + sz,
      db_used := db_size w + sz - db_rear w,
      db_full := over_limit (db_max_size w) (db_size w + sz - db_rear w)\<rparr>)"
    using assms(1,2,4) by (cases "db_full w") (auto simp: pushdata_def b_def Let_def)
  show thesis by (rule that [OF P]) (use b in simp_all)
qed

text \<open>
  A write is a push at the end of the queue: when the buffer is not full, obtaining a write
  pointer for \<open>sz\<close> bytes, storing at most that many and pushing them appends exactly them to the
  contents, keeps the invariant, and leaves the bytes a reader holds a pointer to as they are.
\<close>

theorem write_appends:
  assumes "db_ok db" "\<not> db_full db" "\<not> db_writing db" "0 < sz" "length bs \<le> sz"
  shows "\<exists>db1 db2. get_write_ptr sz junk db = Some (Some (db_size db), db1)
    \<and> pushdata (length bs) junk (store (db_size db) bs db1) = Some db2
    \<and> contents db2 = contents db @ bs \<and> db_ok db2 \<and> \<not> db_writing db2
    \<and> (db_reading db \<longrightarrow> read_block db2 = read_block db)"
proof -
  let ?g = "(grow sz junk db)\<lparr>db_writing := True\<rparr>"
  let ?w = "store (db_size db) bs ?g"
  note g = grow_facts [OF assms(1), of sz junk]
  have l: "db_rear db \<le> db_size db" "db_size db \<le> length (db_buffer db)" "db_used db = db_size db - db_rear db"
    using assms(1) by (auto simp: db_ok_def)
  let ?n = "db_size db + length bs"
  have wb: "take ?n (db_buffer ?w) = take (db_size db) (db_buffer db) @ bs" "?n \<le> length (db_buffer ?w)"
    using g l(2) assms(5) by (simp_all add: store_def)
  have f: "db_size ?w = db_size db" "db_rear ?w = db_rear db" "db_max_size ?w = db_max_size db"
    "db_reading ?w = db_reading db" "db_old ?w = db_old (grow sz junk db)" "db_writing ?w" "\<not> db_full ?w"
    using g assms(2) by (simp_all add: store_def)
  from pushdata_facts [of ?w "length bs" junk] f l(1) wb(2)
  obtain db2 where db2: "pushdata (length bs) junk ?w = Some db2" "db_rear db2 = db_rear db"
    "db_size db2 = ?n" "db_used db2 = ?n - db_rear db"
    "db_full db2 = over_limit (db_max_size db) (?n - db_rear db)" "db_max_size db2 = db_max_size db"
    "db_old db2 = db_old (grow sz junk db)" "db_reading db2 = db_reading db" "\<not> db_writing db2"
    "take ?n (db_buffer db2) = take ?n (db_buffer ?w)" "?n \<le> length (db_buffer db2)"
    by auto
  have ok: "db_ok db2" using db2 g l(1) by (auto simp: db_ok_def)
  moreover have "contents db2 = contents db @ bs"
    using contents_alt [OF ok] contents_alt [OF assms(1)] db2(2,3,10) wb(1) l(1,2) by simp
  moreover have "read_block db2 = read_block db" if "db_reading db"
    using that db2(7) g by (simp add: read_block_def)
  moreover have "get_write_ptr sz junk db = Some (Some (db_size db), ?g)"
    using assms by (simp add: get_write_ptr_def)
  ultimately show ?thesis using db2 by blast
qed

theorem write_appends_witness:
  "\<exists>db1 db2. get_write_ptr 4 (\<lambda>_. 0) (mk_databuffer 0) = Some (Some 0, db1)
    \<and> pushdata 2 (\<lambda>_. 0) (store 0 [7, 8 :: nat] db1) = Some db2 \<and> contents db2 = [7, 8]"
proof -
  have "db_ok (mk_databuffer 0 :: nat databuffer)" "contents (mk_databuffer 0 :: nat databuffer) = []"
    "\<not> db_full (mk_databuffer 0 :: nat databuffer)" "\<not> db_writing (mk_databuffer 0 :: nat databuffer)"
    "db_size (mk_databuffer 0 :: nat databuffer) = 0"
    by (simp_all add: db_ok_def mk_databuffer_def over_limit_def contents_def)
  then show ?thesis using write_appends [of "mk_databuffer 0" 4 "[7, 8 :: nat]" "\<lambda>_. 0"] by (auto simp: numeral_2_eq_2)
qed

lemma readdone_alt:
  assumes "db_reading db" "sz \<le> db_used db" "db_rear db + sz \<le> db_size db"
  shows "readdone sz junk db =
    (let u = db_size db - (db_rear db + sz);
         d = db\<lparr>db_reading := False, db_rear := db_rear db + sz, db_used := u,
               db_full := over_limit (db_max_size db) u, db_old := None\<rparr>
     in if \<not> db_writing db \<and> (u = 0 \<or> 0 < db_max_unused db \<and> db_max_unused db < db_rear db + sz)
        then compact junk d else Some d)"
  using assms by (simp add: readdone_def Let_def)

text \<open>
  Ending a read of \<open>sz\<close> bytes takes them off the front of the queue and keeps the invariant,
  also when the buffer is compacted, as long as the compaction does not move a block onto itself.
\<close>

theorem readdone_drops:
  assumes "db_ok db" "db_reading db" "sz \<le> db_used db"
    and "db_writing db \<or> db_used db - sz \<le> db_rear db + sz \<or> db_rear db + sz \<le> db_max_unused db"
  shows "\<exists>db'. readdone sz junk db = Some db' \<and> contents db' = drop sz (contents db) \<and> db_ok db'
    \<and> \<not> db_reading db' \<and> db_old db' = None"
proof -
  have l: "db_rear db \<le> db_size db" "db_size db \<le> length (db_buffer db)" "db_used db = db_size db - db_rear db"
    using assms(1) by (auto simp: db_ok_def)
  let ?u = "db_size db - (db_rear db + sz)"
  let ?d = "db\<lparr>db_reading := False, db_rear := db_rear db + sz, db_used := ?u,
    db_full := over_limit (db_max_size db) ?u, db_old := None\<rparr>"
  have le: "db_rear db + sz \<le> db_size db" using l assms(3) by simp
  have rd: "readdone sz junk db = (if \<not> db_writing db \<and> (?u = 0 \<or> 0 < db_max_unused db
      \<and> db_max_unused db < db_rear db + sz) then compact junk ?d else Some ?d)"
    unfolding readdone_alt [OF assms(2,3) le] Let_def ..
  have ok: "db_ok ?d" using assms(1) le by (simp add: db_ok_def)
  have c: "contents ?d = drop sz (contents db)"
    using contents_alt [OF ok] contents_alt [OF assms(1)] by (simp add: add.commute)
  show ?thesis
  proof (cases "\<not> db_writing db \<and> (?u = 0 \<or> 0 < db_max_unused db \<and> db_max_unused db < db_rear db + sz)")
    case False
    with rd have "readdone sz junk db = Some ?d" by auto
    with ok c show ?thesis by simp
  next
    case True
    have "\<not> (0 < ?u \<and> 0 < db_rear db + sz \<and> db_rear db + sz < ?u)"
      using assms(4) True l by auto
    then obtain db' where db': "compact junk ?d = Some db'"
      "db' = ?d\<lparr>db_buffer := realloc (contents ?d @ drop ?u (db_buffer db)) ?u junk, db_size := ?u, db_rear := 0\<rparr>"
      by (simp add: compact_def contents_def Let_def)
    have "length (contents ?d) = ?u" using l(2) le by (simp add: contents_def)
    then have "take ?u (realloc (contents ?d @ drop ?u (db_buffer db)) ?u junk) = contents ?d"
      by (simp add: realloc_def)
    then have "contents db' = contents ?d" by (simp add: db'(2) contents_def)
    moreover have "db_ok db'" by (simp add: db'(2) db_ok_def)
    moreover have "\<not> db_reading db'" "db_old db' = None" by (simp_all add: db'(2))
    ultimately show ?thesis using rd True db'(1) c by simp
  qed
qed

theorem readdone_drops_witness:
  "\<exists>db'. readdone 1 (\<lambda>_. 0) \<lparr>db_buffer = [7, 8 :: nat], db_old = None, db_reading = True, db_writing = False,
     db_rear = 0, db_size = 2, db_max_size = 10, db_max_unused = 10, db_used = 2, db_full = False\<rparr> = Some db'
   \<and> contents db' = [8]"
  using readdone_drops [of "\<lparr>db_buffer = [7, 8 :: nat], db_old = None, db_reading = True, db_writing = False,
     db_rear = 0, db_size = 2, db_max_size = 10, db_max_unused = 10, db_used = 2, db_full = False\<rparr>" 1 "\<lambda>_. 0"]
  by (auto simp: db_ok_def over_limit_def contents_def)

text \<open>
  The compaction copies with \<open>memcpy\<close>: when more bytes are left than were read since the last
  one, source and destination overlap. With the default limits this takes a queue of over 2 MB.
\<close>

theorem compaction_overlaps:
  assumes "db_reading db" "\<not> db_writing db" "db_used db = db_size db - db_rear db" "sz \<le> db_used db"
    and "0 < db_max_unused db" "db_max_unused db < db_rear db + sz" "db_rear db + sz < db_used db - sz"
  shows "readdone sz junk db = None"
proof -
  have "db_rear db + sz \<le> db_size db" using assms(3,7) by simp
  from readdone_alt [OF assms(1,4) this] show ?thesis
    using assms(2,3,5,6,7) by (auto simp: compact_def Let_def)
qed

theorem compaction_overlaps_witness:
  "readdone 2 (\<lambda>_. 0) \<lparr>db_buffer = replicate 8 (0 :: nat), db_old = None, db_reading = True, db_writing = False,
     db_rear = 0, db_size = 8, db_max_size = 10, db_max_unused = 1, db_used = 8, db_full = False\<rparr> = None"
  by (rule compaction_overlaps) simp_all

end
