(* ===== verification/Nfa.thy ===== *)
theory Nfa
  imports Prelude
begin

text \<open>
  The automata behind the regular expressions (lib/nfa.h, lib/nfa.cpp). An expression is a graph of
  nodes on a heap, of which it keeps the start and the accept node; the operations build the graph
  by surgery on the nodes, as in the construction of Thompson. The heap maps the addresses of the
  allocated nodes to their contents and keeps the static counter of the class \<open>nfa_node\<close>.
  \<open>None\<close> is the dereference of a null or dangling pointer.
\<close>

unbundle bit_operations_syntax

section \<open>Nodes and heaps\<close>

definition edge_epsilon :: int where "edge_epsilon = -1"

definition edge_accept :: int where "edge_accept = -9"

definition repeat_limit :: int where "repeat_limit = 1024"

record nfa_node =
  nd_edge :: int
  nd_next1 :: "nat option"
  nd_next2 :: "nat option"
  nd_anchor :: int

record nfa_heap =
  nh_node :: "nat \<rightharpoonup> nfa_node"
  nh_next :: nat
  nh_count :: int

definition new_node :: "int \<Rightarrow> nat option \<Rightarrow> nat option \<Rightarrow> nfa_heap \<Rightarrow> nat \<times> nfa_heap" where
  "new_node e n1 n2 h =
     (nh_next h, h\<lparr>nh_node := (nh_node h)(nh_next h \<mapsto> \<lparr>nd_edge = e, nd_next1 = n1, nd_next2 = n2, nd_anchor = 0\<rparr>),
        nh_next := Suc (nh_next h), nh_count := nh_count h + 1\<rparr>)"

definition delete_node :: "nat \<Rightarrow> nfa_heap \<Rightarrow> nfa_heap option" where
  "delete_node n h =
     (if nh_node h n = None then None
      else Some (h\<lparr>nh_node := (nh_node h)(n := None), nh_count := nh_count h - 1\<rparr>))"

definition upd_node :: "nat \<Rightarrow> (nfa_node \<Rightarrow> nfa_node) \<Rightarrow> nfa_heap \<Rightarrow> nfa_heap option" where
  "upd_node n f h =
     (case nh_node h n of None \<Rightarrow> None | Some x \<Rightarrow> Some (h\<lparr>nh_node := (nh_node h)(n \<mapsto> f x)\<rparr>))"

definition set_transition :: "nat \<Rightarrow> int \<Rightarrow> nat option \<Rightarrow> nat option \<Rightarrow> nfa_heap \<Rightarrow> nfa_heap option" where
  "set_transition n e n1 n2 = upd_node n (\<lambda>x. x\<lparr>nd_edge := e, nd_next1 := n1, nd_next2 := n2\<rparr>)"

definition is_epsilon_trans :: "nfa_node \<Rightarrow> bool" where
  "is_epsilon_trans x \<longleftrightarrow> nd_edge x = edge_epsilon"

definition is_important_trans :: "nfa_node \<Rightarrow> bool" where
  "is_important_trans x \<longleftrightarrow> nd_edge x \<noteq> edge_epsilon"

definition is_accept_node :: "nfa_node \<Rightarrow> bool" where
  "is_accept_node x \<longleftrightarrow> nd_edge x = edge_accept"

text \<open>\<open>uchar_t\<close>: a character as a number from 0 to 255.\<close>

definition uchar :: "char \<Rightarrow> int" where
  "uchar c = int (of_char c)"

text \<open>
  The clone of a node; \<open>m\<close> maps the nodes that have one to it, and is extended before the
  successors are cloned, for the graph may have cycles.
\<close>

partial_function (option) node_clone ::
    "nat \<Rightarrow> (nat \<rightharpoonup> nat) \<times> nfa_heap \<Rightarrow> (nat \<times> (nat \<rightharpoonup> nat) \<times> nfa_heap) option" where
  "node_clone n s =
     (case fst s n of
        Some c \<Rightarrow> Some (c, s)
      | None \<Rightarrow> do {
          x \<leftarrow> nh_node (snd s) n;
          let (c, h) = new_node (nd_edge x) None None (snd s);
          h \<leftarrow> upd_node c (\<lambda>y. y\<lparr>nd_anchor := nd_anchor x\<rparr>) h;
          let m = (fst s)(n \<mapsto> c);
          (c1, m, h) \<leftarrow> (case nd_next1 x of
              None \<Rightarrow> Some (None, m, h) | Some k \<Rightarrow> do { (k, s) \<leftarrow> node_clone k (m, h); Some (Some k, s) });
          h \<leftarrow> upd_node c (\<lambda>y. y\<lparr>nd_next1 := c1\<rparr>) h;
          (c2, m, h) \<leftarrow> (case nd_next2 x of
              None \<Rightarrow> Some (None, m, h) | Some k \<Rightarrow> do { (k, s) \<leftarrow> node_clone k (m, h); Some (Some k, s) });
          h \<leftarrow> upd_node c (\<lambda>y. y\<lparr>nd_next2 := c2\<rparr>) h;
          Some (c, m, h) })"

declare node_clone.simps [code]

section \<open>Expressions\<close>

record nfa_expr =
  ex_accept :: "nat option"
  ex_start :: "nat option"

definition empty_expr :: nfa_expr where
  "empty_expr = \<lparr>ex_accept = None, ex_start = None\<rparr>"

definition expr_empty :: "nfa_expr \<Rightarrow> bool" where
  "expr_empty e \<longleftrightarrow> ex_start e = None"

definition expr_of_edge :: "int \<Rightarrow> nfa_heap \<Rightarrow> nfa_expr \<times> nfa_heap" where
  "expr_of_edge e h =
     (let (a, h) = new_node edge_accept None None h; (s, h) = new_node e (Some a) None h
      in (\<lparr>ex_accept = Some a, ex_start = Some s\<rparr>, h))"

partial_function (option) nodes_loop :: "nfa_heap \<Rightarrow> nat list \<Rightarrow> nat set \<Rightarrow> nat set option" where
  "nodes_loop h stack N =
     (case stack of
        [] \<Rightarrow> Some N
      | t # stack \<Rightarrow>
          if t \<in> N then nodes_loop h stack N
          else do {
            x \<leftarrow> nh_node h t;
            let stack = (case nd_next1 x of Some k \<Rightarrow> k # stack | None \<Rightarrow> stack);
            let stack = (case nd_next2 x of Some k \<Rightarrow> k # stack | None \<Rightarrow> stack);
            nodes_loop h stack (insert t N) })"

declare nodes_loop.simps [code]

definition get_expr_nodes :: "nfa_expr \<Rightarrow> nfa_heap \<Rightarrow> nat set option" where
  "get_expr_nodes e h = (case ex_start e of None \<Rightarrow> Some {} | Some s \<Rightarrow> nodes_loop h [s] {})"

definition expr_size :: "nfa_expr \<Rightarrow> nfa_heap \<Rightarrow> nat option" where
  "expr_size e h = map_option card (get_expr_nodes e h)"

definition expr_free :: "nfa_expr \<Rightarrow> nfa_heap \<Rightarrow> (nfa_expr \<times> nfa_heap) option" where
  "expr_free e h =
     (if ex_start e = None then Some (e, h)
      else do {
        N \<leftarrow> get_expr_nodes e h;
        h \<leftarrow> foldm delete_node (sorted_list_of_set N) h;
        Some (empty_expr, h) })"

text \<open>The copy of an expression, by the method and by the constructor, which needs a nonempty one.\<close>

definition expr_copy :: "nfa_expr \<Rightarrow> nfa_heap \<Rightarrow> (nfa_expr \<times> nfa_heap) option" where
  "expr_copy e h = do {
     a \<leftarrow> ex_accept e;
     (a, m, h) \<leftarrow> node_clone a (Map.empty, h);
     s \<leftarrow> ex_start e;
     (s, m, h) \<leftarrow> node_clone s (m, h);
     Some (\<lparr>ex_accept = Some a, ex_start = Some s\<rparr>, h) }"

definition expr_clone :: "nfa_expr \<Rightarrow> nfa_heap \<Rightarrow> (nfa_expr \<times> nfa_heap) option" where
  "expr_clone e h = (if expr_empty e then Some (empty_expr, h) else expr_copy e h)"

text \<open>\<open>operator=\<close> for two different objects.\<close>

definition expr_assign :: "nfa_expr \<Rightarrow> nfa_expr \<Rightarrow> nfa_heap \<Rightarrow> (nfa_expr \<times> nfa_heap) option" where
  "expr_assign this e h = do { (this, h) \<leftarrow> expr_free this h; expr_clone e h }"

section \<open>Regular operations\<close>

text \<open>The second expression is consumed: its graph becomes part of the first and it becomes null.\<close>

definition cat_expr_abs :: "nfa_expr \<Rightarrow> nfa_expr \<Rightarrow> nfa_heap \<Rightarrow> (nfa_expr \<times> nfa_heap) option" where
  "cat_expr_abs this e h =
     (if expr_empty e then Some (this, h)
      else if expr_empty this then Some (e, h)
      else do {
        s \<leftarrow> ex_start e;
        x \<leftarrow> nh_node h s;
        a \<leftarrow> ex_accept this;
        h \<leftarrow> set_transition a (nd_edge x) (nd_next1 x) (nd_next2 x) h;
        h \<leftarrow> upd_node a (\<lambda>y. y\<lparr>nd_anchor := nd_anchor y OR nd_anchor x\<rparr>) h;
        h \<leftarrow> delete_node s h;
        Some (this\<lparr>ex_accept := ex_accept e\<rparr>, h) })"

definition cat_expr :: "nfa_expr \<Rightarrow> nfa_expr \<Rightarrow> nfa_heap \<Rightarrow> (nfa_expr \<times> nfa_heap) option" where
  "cat_expr this e h =
     (if expr_empty e then Some (this, h)
      else do { (e, h) \<leftarrow> expr_clone e h; cat_expr_abs this e h })"

definition or_expr_abs :: "nfa_expr \<Rightarrow> nfa_expr \<Rightarrow> nfa_heap \<Rightarrow> (nfa_expr \<times> nfa_heap) option" where
  "or_expr_abs this e h =
     (if expr_empty e then Some (this, h)
      else if expr_empty this then Some (e, h)
      else do {
        let (f, h) = new_node edge_accept None None h;
        let (s, h) = new_node edge_epsilon (ex_start this) (ex_start e) h;
        a \<leftarrow> ex_accept this;
        h \<leftarrow> set_transition a edge_epsilon (Some f) None h;
        b \<leftarrow> ex_accept e;
        h \<leftarrow> set_transition b edge_epsilon (Some f) None h;
        Some (\<lparr>ex_accept = Some f, ex_start = Some s\<rparr>, h) })"

definition or_expr :: "nfa_expr \<Rightarrow> nfa_expr \<Rightarrow> nfa_heap \<Rightarrow> (nfa_expr \<times> nfa_heap) option" where
  "or_expr this e h =
     (if expr_empty e then Some (this, h)
      else do { (e, h) \<leftarrow> expr_clone e h; or_expr_abs this e h })"

definition expr_star :: "nfa_expr \<Rightarrow> nfa_heap \<Rightarrow> (nfa_expr \<times> nfa_heap) option" where
  "expr_star this h =
     (if ex_start this = None then Some (this, h)
      else do {
        let (f, h) = new_node edge_accept None None h;
        let (s, h) = new_node edge_epsilon (ex_start this) (Some f) h;
        a \<leftarrow> ex_accept this;
        h \<leftarrow> set_transition a edge_epsilon (Some f) (ex_start this) h;
        Some (\<lparr>ex_accept = Some f, ex_start = Some s\<rparr>, h) })"

definition expr_optional :: "nfa_expr \<Rightarrow> nfa_heap \<Rightarrow> (nfa_expr \<times> nfa_heap) option" where
  "expr_optional this h = (let (e, h) = expr_of_edge edge_epsilon h in or_expr_abs this e h)"

definition expr_plus :: "nfa_expr \<Rightarrow> nfa_heap \<Rightarrow> (nfa_expr \<times> nfa_heap) option" where
  "expr_plus this h = do {
     (e, h) \<leftarrow> expr_clone this h;
     (e, h) \<leftarrow> expr_star e h;
     cat_expr_abs this e h }"

text \<open>The loop of \<open>power\<close>: so many copies of \<open>org\<close> are appended.\<close>

primrec cat_copies :: "nat \<Rightarrow> nfa_expr \<Rightarrow> nfa_expr \<Rightarrow> nfa_heap \<Rightarrow> (nfa_expr \<times> nfa_heap) option" where
  "cat_copies 0 org this h = Some (this, h)"
| "cat_copies (Suc i) org this h = do {
     (e, h) \<leftarrow> expr_clone org h;
     (this, h) \<leftarrow> cat_expr_abs this e h;
     cat_copies i org this h }"

definition expr_power :: "nfa_expr \<Rightarrow> int \<Rightarrow> nfa_heap \<Rightarrow> (nfa_expr \<times> nfa_heap) option" where
  "expr_power this n h =
     (if ex_start this = None then Some (this, h)
      else if n = 0 then do {
        (this, h) \<leftarrow> expr_free this h;
        Some (expr_of_edge edge_epsilon h) }
      else if 1 < n then do {
        let n = min n repeat_limit;
        (org, h) \<leftarrow> expr_clone this h;
        (this, h) \<leftarrow> cat_copies (nat (n - 2)) org this h;
        cat_expr_abs this org h }
      else Some (this, h))"

definition expr_repeat :: "nfa_expr \<Rightarrow> int \<Rightarrow> int \<Rightarrow> nfa_heap \<Rightarrow> (nfa_expr \<times> nfa_heap) option" where
  "expr_repeat this n m h =
     (if ex_start this = None then Some (this, h)
      else if n = m then expr_power this n h
      else if n = 0 then do {
        (this, h) \<leftarrow> expr_optional this h;
        if 1 < m then expr_power this m h else Some (this, h) }
      else do {
        (e, h) \<leftarrow> expr_clone this h;
        (this, h) \<leftarrow> expr_power this n h;
        (e, h) \<leftarrow> expr_optional e h;
        (e, h) \<leftarrow> expr_power e (m - n) h;
        cat_expr_abs this e h })"

section \<open>Shortcuts\<close>

definition cat_char :: "nfa_expr \<Rightarrow> char \<Rightarrow> nfa_heap \<Rightarrow> (nfa_expr \<times> nfa_heap) option" where
  "cat_char this c h = (let (e, h) = expr_of_edge (uchar c) h in cat_expr_abs this e h)"

definition or_char :: "nfa_expr \<Rightarrow> char \<Rightarrow> nfa_heap \<Rightarrow> (nfa_expr \<times> nfa_heap) option" where
  "or_char this c h = (let (e, h) = expr_of_edge (uchar c) h in or_expr_abs this e h)"

definition expr_of_char :: "char \<Rightarrow> bool \<Rightarrow> nfa_heap \<Rightarrow> (nfa_expr \<times> nfa_heap) option" where
  "expr_of_char c opt h =
     (let (e, h) = expr_of_edge (uchar c) h in if opt then expr_optional e h else Some (e, h))"

text \<open>A chain of the characters behind the accept node \<open>a\<close>; the result is the new accept node.\<close>

primrec chain :: "string \<Rightarrow> nat \<Rightarrow> nfa_heap \<Rightarrow> (nat \<times> nfa_heap) option" where
  "chain [] a h = Some (a, h)"
| "chain (c # cs) a h = do {
     let (k, h) = new_node edge_accept None None h;
     h \<leftarrow> set_transition a (uchar c) (Some k) None h;
     chain cs k h }"

text \<open>
  For the empty string the start node leads to the accept node of this expression and not of the
  one that is built.
\<close>

definition cat_str :: "nfa_expr \<Rightarrow> string \<Rightarrow> nfa_heap \<Rightarrow> (nfa_expr \<times> nfa_heap) option" where
  "cat_str this s h = do {
     (e, h) \<leftarrow>
       (if s = [] then
          let (a, h) = new_node edge_accept None None h; (b, h) = new_node edge_epsilon (ex_accept this) None h
          in Some (\<lparr>ex_accept = Some a, ex_start = Some b\<rparr>, h)
        else do {
          let (b, h) = new_node edge_accept None None h;
          (a, h) \<leftarrow> chain s b h;
          Some (\<lparr>ex_accept = Some a, ex_start = Some b\<rparr>, h) });
     cat_expr_abs this e h }"

definition expr_of_str :: "string \<Rightarrow> nfa_heap \<Rightarrow> (nfa_expr \<times> nfa_heap) option" where
  "expr_of_str s h = cat_str empty_expr s h"

definition or_str :: "nfa_expr \<Rightarrow> string \<Rightarrow> nfa_heap \<Rightarrow> (nfa_expr \<times> nfa_heap) option" where
  "or_str this s h = do { (e, h) \<leftarrow> expr_of_str s h; or_expr_abs this e h }"

text \<open>The constructors from up to four alternatives.\<close>

definition expr_of_strs :: "string \<Rightarrow> string list \<Rightarrow> nfa_heap \<Rightarrow> (nfa_expr \<times> nfa_heap) option" where
  "expr_of_strs s ss h = do { p \<leftarrow> cat_str empty_expr s h; foldm (\<lambda>s (this, h). or_str this s h) ss p }"

definition expr_of_chars :: "char \<Rightarrow> char list \<Rightarrow> nfa_heap \<Rightarrow> (nfa_expr \<times> nfa_heap) option" where
  "expr_of_chars c cs h = do { p \<leftarrow> cat_char empty_expr c h; foldm (\<lambda>c (this, h). or_char this c h) cs p }"

definition set_to_char_class :: "nfa_expr \<Rightarrow> string \<Rightarrow> nfa_heap \<Rightarrow> (nfa_expr \<times> nfa_heap) option" where
  "set_to_char_class this s h = do {
     p \<leftarrow> (if \<not> expr_empty this then expr_free this h else Some (this, h));
     foldm (\<lambda>c (this, h). or_char this c h) s p }"

end
