(* ===== verification/Nfa_Lang.thy ===== *)
theory Nfa_Lang
  imports Nfa
begin

text \<open>
  The language of an automaton and the correctness of the regular operations: every operation
  builds the automaton of the language it stands for, on its own nodes, and leaves the rest of the
  heap alone.
\<close>

section \<open>Languages\<close>

definition conc :: "string set \<Rightarrow> string set \<Rightarrow> string set" where
  "conc A B = {u @ v | u v. u \<in> A \<and> v \<in> B}"

primrec lpow :: "string set \<Rightarrow> nat \<Rightarrow> string set" where
  "lpow A 0 = {[]}"
| "lpow A (Suc n) = conc A (lpow A n)"

definition lstar :: "string set \<Rightarrow> string set" where
  "lstar A = (\<Union>n. lpow A n)"

lemma conc_assoc: "conc (conc A B) C = conc A (conc B C)"
  unfolding conc_def by (auto; metis append.assoc)

lemma conc_eps [simp]: "conc {[]} A = A" "conc A {[]} = A"
  by (auto simp: conc_def)

lemma lpow_one [simp]: "lpow A (Suc 0) = A"
  by simp

lemma lpow_add: "lpow A (m + n) = conc (lpow A m) (lpow A n)"
  by (induction m) (simp_all add: conc_assoc)

lemma lpow_Suc_right: "lpow A (Suc n) = conc (lpow A n) A"
  using lpow_add [of A n 1] by simp

lemma lstar_unfold: "lstar A = {[]} \<union> conc A (lstar A)"
proof (intro set_eqI iffI)
  fix w assume "w \<in> lstar A"
  then obtain n where n: "w \<in> lpow A n" by (auto simp: lstar_def)
  show "w \<in> {[]} \<union> conc A (lstar A)"
  proof (cases n)
    case (Suc m)
    with n show ?thesis by (auto simp: conc_def lstar_def)
  qed (use n in simp)
next
  fix w assume "w \<in> {[]} \<union> conc A (lstar A)"
  then show "w \<in> lstar A"
  proof
    assume "w \<in> conc A (lstar A)"
    then obtain n where "w \<in> lpow A (Suc n)" by (auto simp: conc_def lstar_def)
    then show ?thesis unfolding lstar_def by blast
  qed (auto simp: lstar_def intro: exI [of _ 0])
qed

lemma lstar_Nil [simp]: "[] \<in> lstar A"
  by (subst lstar_unfold) simp

lemma lstar_step: "u \<in> A \<Longrightarrow> v \<in> lstar A \<Longrightarrow> u @ v \<in> lstar A"
  by (subst lstar_unfold) (auto simp: conc_def)

section \<open>Heaps\<close>

definition heap_ok :: "nfa_heap \<Rightarrow> bool" where
  "heap_ok h \<longleftrightarrow> (\<forall>n\<in>dom (nh_node h). n < nh_next h) \<and> nh_count h = int (card (dom (nh_node h)))"

lemma heap_ok_less: "heap_ok h \<Longrightarrow> nh_node h n = Some x \<Longrightarrow> n < nh_next h"
  by (auto simp: heap_ok_def)

lemma heap_finite: "heap_ok h \<Longrightarrow> finite (dom (nh_node h))"
  unfolding heap_ok_def by (meson finite_nat_set_iff_bounded)

lemma heap_ok_new: "heap_ok h \<Longrightarrow> heap_ok (snd (new_node e n1 n2 h))"
proof -
  assume h: "heap_ok h"
  then have "nh_next h \<notin> dom (nh_node h)" by (auto simp: heap_ok_def)
  with h heap_finite [OF h] show ?thesis by (auto simp: heap_ok_def new_node_def less_Suc_eq)
qed

lemma heap_ok_upd: "heap_ok h \<Longrightarrow> upd_node n f h = Some h' \<Longrightarrow> heap_ok h'"
  by (auto simp: heap_ok_def upd_node_def insert_absorb domI split: option.splits if_splits)

lemma heap_ok_delete: "heap_ok h \<Longrightarrow> delete_node n h = Some h' \<Longrightarrow> heap_ok h'"
proof -
  assume h: "heap_ok h" and d: "delete_node n h = Some h'"
  then have "n \<in> dom (nh_node h)" by (auto simp: delete_node_def split: if_splits)
  moreover from this have "0 < card (dom (nh_node h))" using heap_finite [OF h] card_gt_0_iff by blast
  moreover from this have "int (card (dom (nh_node h) - {n})) = int (card (dom (nh_node h))) - 1"
    using \<open>n \<in> dom (nh_node h)\<close> by (simp add: card_Diff_singleton of_nat_diff)
  ultimately show ?thesis using h d
    by (auto simp: heap_ok_def delete_node_def simp del: card_Diff_insert split: if_splits)
qed

section \<open>Runs\<close>

inductive arc :: "nfa_heap \<Rightarrow> nat \<Rightarrow> string \<Rightarrow> nat \<Rightarrow> bool" for h where
  eps1: "nh_node h n = Some x \<Longrightarrow> nd_edge x = edge_epsilon \<Longrightarrow> nd_next1 x = Some k \<Longrightarrow> arc h n [] k"
| eps2: "nh_node h n = Some x \<Longrightarrow> nd_edge x = edge_epsilon \<Longrightarrow> nd_next2 x = Some k \<Longrightarrow> arc h n [] k"
| sym: "nh_node h n = Some x \<Longrightarrow> nd_edge x = uchar c \<Longrightarrow> nd_next1 x = Some k \<Longrightarrow> arc h n [c] k"

inductive acc :: "nfa_heap \<Rightarrow> nat \<Rightarrow> nat \<Rightarrow> string \<Rightarrow> bool" for h a where
  here: "acc h a a []"
| step: "arc h n u k \<Longrightarrow> acc h a k w \<Longrightarrow> acc h a n (u @ w)"

definition lang :: "nfa_heap \<Rightarrow> nfa_expr \<Rightarrow> string set" where
  "lang h e = {w. \<exists>s a. ex_start e = Some s \<and> ex_accept e = Some a \<and> acc h a s w}"

text \<open>The arcs of a node as a function of its contents.\<close>

definition arcs_of :: "nfa_node \<Rightarrow> (string \<times> nat) set" where
  "arcs_of x =
     (if nd_edge x = edge_epsilon then Pair [] ` (set_option (nd_next1 x) \<union> set_option (nd_next2 x))
      else {([c], k) | c k. nd_edge x = uchar c \<and> nd_next1 x = Some k})"

lemma uchar_inj [simp]: "uchar c = uchar d \<longleftrightarrow> c = d"
  by (simp add: uchar_def)

lemma uchar_special [simp]: "uchar c \<noteq> edge_epsilon" "uchar c \<noteq> edge_accept" "edge_epsilon \<noteq> uchar c" "edge_accept \<noteq> uchar c"
    "edge_epsilon \<noteq> edge_accept" "edge_accept \<noteq> edge_epsilon"
  by (simp_all add: uchar_def edge_epsilon_def edge_accept_def)

lemma arc_iff: "arc h n u k \<longleftrightarrow> (\<exists>x. nh_node h n = Some x \<and> (u, k) \<in> arcs_of x)"
  by (auto simp: arcs_of_def image_iff elim!: arc.cases intro: arc.intros)

lemma arcs_next: "(u, k) \<in> arcs_of x \<Longrightarrow> nd_next1 x = Some k \<or> nd_next2 x = Some k"
  by (auto simp: arcs_of_def split: if_splits)

lemma acc_simps: "acc h a n w \<longleftrightarrow> n = a \<and> w = [] \<or> (\<exists>u k v. arc h n u k \<and> acc h a k v \<and> w = u @ v)"
  by (subst acc.simps) auto

section \<open>Fragments\<close>

text \<open>The nodes of an expression: closed, nothing leads back to the start or on from the accept node.\<close>

definition frag :: "nfa_heap \<Rightarrow> nfa_expr \<Rightarrow> nat set \<Rightarrow> bool" where
  "frag h e N \<longleftrightarrow> finite N \<and> (\<exists>s a. e = \<lparr>ex_accept = Some a, ex_start = Some s\<rparr> \<and> s \<in> N \<and> a \<in> N \<and> s \<noteq> a
     \<and> (\<forall>n\<in>N. \<exists>x. nh_node h n = Some x \<and> set_option (nd_next1 x) \<union> set_option (nd_next2 x) \<subseteq> N - {s}
         \<and> (if n = a then nd_edge x = edge_accept \<and> nd_next1 x = None \<and> nd_next2 x = None
            else nd_next1 x \<noteq> None \<and> nd_edge x \<noteq> edge_accept)))"

lemma fragE:
  assumes "frag h e N"
  obtains s a where "e = \<lparr>ex_accept = Some a, ex_start = Some s\<rparr>" "finite N" "s \<in> N" "a \<in> N" "s \<noteq> a"
    "\<And>n. n \<in> N \<Longrightarrow> \<exists>x. nh_node h n = Some x" "\<And>n u k. n \<in> N \<Longrightarrow> arc h n u k \<Longrightarrow> k \<in> N - {s} \<and> n \<noteq> a"
    "\<And>n x. n \<in> N \<Longrightarrow> nh_node h n = Some x \<Longrightarrow> set_option (nd_next1 x) \<union> set_option (nd_next2 x) \<subseteq> N - {s}"
    "\<And>n x. n \<in> N \<Longrightarrow> n \<noteq> a \<Longrightarrow> nh_node h n = Some x \<Longrightarrow> nd_next1 x \<noteq> None \<and> nd_edge x \<noteq> edge_accept"
    "\<And>x. nh_node h a = Some x \<Longrightarrow> nd_edge x = edge_accept \<and> nd_next1 x = None \<and> nd_next2 x = None"
proof -
  obtain s a where f: "e = \<lparr>ex_accept = Some a, ex_start = Some s\<rparr>" "finite N" "s \<in> N" "a \<in> N" "s \<noteq> a"
    and n: "\<forall>n\<in>N. \<exists>x. nh_node h n = Some x \<and> set_option (nd_next1 x) \<union> set_option (nd_next2 x) \<subseteq> N - {s}
         \<and> (if n = a then nd_edge x = edge_accept \<and> nd_next1 x = None \<and> nd_next2 x = None
            else nd_next1 x \<noteq> None \<and> nd_edge x \<noteq> edge_accept)"
    using assms unfolding frag_def by blast
  have arcs: "k \<in> N - {s} \<and> m \<noteq> a" if "m \<in> N" "arc h m u k" for m u k
  proof -
    obtain x where x: "nh_node h m = Some x" "(u, k) \<in> arcs_of x" using \<open>arc h m u k\<close> arc_iff by blast
    with n \<open>m \<in> N\<close> have "set_option (nd_next1 x) \<union> set_option (nd_next2 x) \<subseteq> N - {s}"
      "m = a \<Longrightarrow> nd_next1 x = None \<and> nd_next2 x = None" by fastforce+
    with arcs_next [OF x(2)] show ?thesis by auto
  qed
  show thesis
    by (rule that [OF f]) (use n arcs f(4) in \<open>fastforce+\<close>)
qed

lemma fragI:
  assumes "finite N" "s \<in> N" "a \<in> N" "s \<noteq> a"
    and "\<And>n. n \<in> N \<Longrightarrow> \<exists>x. nh_node h n = Some x \<and> set_option (nd_next1 x) \<union> set_option (nd_next2 x) \<subseteq> N - {s}
         \<and> (if n = a then nd_edge x = edge_accept \<and> nd_next1 x = None \<and> nd_next2 x = None
            else nd_next1 x \<noteq> None \<and> nd_edge x \<noteq> edge_accept)"
  shows "frag h \<lparr>ex_accept = Some a, ex_start = Some s\<rparr> N"
  using assms unfolding frag_def by blast

lemma arc_cong: "nh_node h' n = nh_node h n \<Longrightarrow> arc h' n u k = arc h n u k"
  by (simp add: arc_iff)

lemma acc_closed_imp:
  assumes "\<And>n. n \<in> M \<Longrightarrow> nh_node h' n = nh_node h n" "\<And>n u k. n \<in> M \<Longrightarrow> arc h n u k \<Longrightarrow> k \<in> M"
  shows "acc h a n w \<Longrightarrow> n \<in> M \<Longrightarrow> acc h' a n w"
proof (induction rule: acc.induct)
  case here
  show ?case by (rule acc.here)
next
  case (step n u k w)
  then show ?case using assms arc_cong [of h' n h] by (blast intro: acc.step)
qed

lemma acc_closed:
  assumes "\<And>n. n \<in> M \<Longrightarrow> nh_node h' n = nh_node h n" "\<And>n u k. n \<in> M \<Longrightarrow> arc h n u k \<Longrightarrow> k \<in> M" "n \<in> M"
  shows "acc h' a n w = acc h a n w"
proof
  show "acc h a n w \<Longrightarrow> acc h' a n w" using acc_closed_imp [of M h' h] assms by blast
  have "\<And>n u k. n \<in> M \<Longrightarrow> arc h' n u k \<Longrightarrow> k \<in> M" using assms(1,2) arc_cong by blast
  then show "acc h' a n w \<Longrightarrow> acc h a n w" using acc_closed_imp [of M h h'] assms(1,3) by simp
qed

lemma frag_cong: "frag h e N \<Longrightarrow> (\<And>n. n \<in> N \<Longrightarrow> nh_node h' n = nh_node h n) \<Longrightarrow> frag h' e N"
  unfolding frag_def by (elim conjE exE, intro conjI exI) auto

lemma lang_cong:
  assumes "frag h e N" "\<And>n. n \<in> N \<Longrightarrow> nh_node h' n = nh_node h n"
  shows "lang h' e = lang h e"
proof -
  obtain s a where f: "e = \<lparr>ex_accept = Some a, ex_start = Some s\<rparr>" "s \<in> N"
      "\<And>n u k. n \<in> N \<Longrightarrow> arc h n u k \<Longrightarrow> k \<in> N - {s} \<and> n \<noteq> a"
    using assms(1) by (elim fragE) blast
  have "acc h' a s w = acc h a s w" for w
    using assms(2) f(2,3) by (intro acc_closed [of N]) auto
  then show ?thesis by (simp add: lang_def f(1))
qed

text \<open>
  A fragment whose accept node has got other arcs: a run from inside to somewhere outside passes
  the accept node, and up to there it is a run of the fragment.
\<close>

lemma acc_exit:
  assumes "\<And>n. n \<in> N - {a} \<Longrightarrow> nh_node h' n = nh_node h n"
    and "\<And>n u k. n \<in> N \<Longrightarrow> arc h n u k \<Longrightarrow> k \<in> N \<and> n \<noteq> a" and "z \<notin> N" "n \<in> N"
  shows "acc h' z n w \<longleftrightarrow> (\<exists>u v. w = u @ v \<and> acc h a n u \<and> acc h' z a v)"
proof
  assume "acc h' z n w"
  from this assms(4) show "\<exists>u v. w = u @ v \<and> acc h a n u \<and> acc h' z a v"
  proof (induction rule: acc.induct)
    case here
    with assms(3) show ?case by simp
  next
    case (step n u k w)
    show ?case
    proof (cases "n = a")
      case True
      with step.hyps show ?thesis by (intro exI [of _ "[]"] exI [of _ "u @ w"]) (auto intro: acc.intros)
    next
      case False
      with step have "arc h n u k" using arc_cong assms(1) by blast
      with assms(2) step obtain v v' where "w = v @ v'" "acc h a k v" "acc h' z a v'" by blast
      with \<open>arc h n u k\<close> show ?thesis by (intro exI [of _ "u @ v"] exI [of _ v']) (auto intro: acc.step)
    qed
  qed
next
  assume "\<exists>u v. w = u @ v \<and> acc h a n u \<and> acc h' z a v"
  then obtain u v where w: "w = u @ v" "acc h a n u" "acc h' z a v" by blast
  from w(2) assms(4) have "acc h' z n (u @ v)"
  proof (induction rule: acc.induct)
    case here
    with w(3) show ?case by simp
  next
    case (step n u k w)
    then have "n \<noteq> a" "k \<in> N" using assms(2) by blast+
    with step have "arc h' n u k" using arc_cong assms(1) by blast
    with step.IH [OF \<open>k \<in> N\<close>] show ?case by (auto intro: acc.step simp: append.assoc)
  qed
  with w(1) show "acc h' z n w" by simp
qed

section \<open>What an operation does\<close>

text \<open>
  The heap \<open>h'\<close> with the fragment of \<open>e\<close> on \<open>N'\<close> comes from \<open>h\<close> by an operation that owns the nodes
  \<open>N\<close>: it uses these and new ones only.
\<close>

definition yields :: "nfa_heap \<Rightarrow> nat set \<Rightarrow> nfa_heap \<Rightarrow> nfa_expr \<Rightarrow> nat set \<Rightarrow> string set \<Rightarrow> bool" where
  "yields h N h' e N' L \<longleftrightarrow> heap_ok h' \<and> frag h' e N' \<and> lang h' e = L \<and> N' \<subseteq> N \<union> {nh_next h..}
     \<and> nh_next h \<le> nh_next h' \<and> (\<forall>n. n \<notin> N \<longrightarrow> n < nh_next h \<longrightarrow> nh_node h' n = nh_node h n)"

lemma frag_less: "frag h e N \<Longrightarrow> heap_ok h \<Longrightarrow> n \<in> N \<Longrightarrow> n < nh_next h"
  by (elim fragE) (metis heap_ok_less)

lemma yields_other:
  assumes "yields h N h' e' N' L" "heap_ok h" "frag h f M" "M \<inter> N = {}"
  shows "frag h' f M" "lang h' f = lang h f" "M \<inter> N' = {}"
proof -
  have same: "nh_node h' n = nh_node h n" if "n \<in> M" for n
    using that assms frag_less [OF assms(3,2)] by (auto simp: yields_def)
  from frag_cong [OF assms(3) same] lang_cong [OF assms(3) same]
  show "frag h' f M" "lang h' f = lang h f" by simp_all
  have "N' \<subseteq> N \<union> {nh_next h..}" using assms(1) by (simp add: yields_def)
  with assms(4) frag_less [OF assms(3,2)] show "M \<inter> N' = {}" by fastforce
qed

lemma yields_trans:
  assumes "yields h N h1 e1 N1 L1" "yields h1 M h2 e2 N2 L2" "M \<subseteq> N \<union> {nh_next h..}"
  shows "yields h N h2 e2 N2 L2"
proof -
  have 1: "nh_next h \<le> nh_next h1" "\<And>n. n \<notin> N \<Longrightarrow> n < nh_next h \<Longrightarrow> nh_node h1 n = nh_node h n"
    and 2: "nh_next h1 \<le> nh_next h2" "N2 \<subseteq> M \<union> {nh_next h1..}"
      "\<And>n. n \<notin> M \<Longrightarrow> n < nh_next h1 \<Longrightarrow> nh_node h2 n = nh_node h1 n"
    using assms(1,2) by (simp_all add: yields_def)
  have "nh_node h2 n = nh_node h n" if "n \<notin> N" "n < nh_next h" for n
    using 1(2) [OF that] 2(3) [of n] that assms(3) 1(1) by fastforce
  moreover have "N2 \<subseteq> N \<union> {nh_next h..}" using 1(1) 2(2) assms(3) by fastforce
  ultimately show ?thesis using assms(2) 1(1) 2(1) by (simp add: yields_def)
qed

lemma frag_nonempty [simp]: "frag h e N \<Longrightarrow> \<not> expr_empty e"
  by (elim fragE) (simp add: expr_empty_def)

lemma expr_of_edge_yields:
  assumes "heap_ok h" "expr_of_edge g h = (e, h')" "g = edge_epsilon \<and> u = [] \<or> g = uchar c \<and> u = [c]"
  shows "\<exists>N. yields h {} h' e N {u}"
proof -
  let ?a = "nh_next h" and ?s = "Suc (nh_next h)"
  let ?N = "{?a, ?s}"
  have e: "e = \<lparr>ex_accept = Some ?a, ex_start = Some ?s\<rparr>" "nh_next h' = Suc ?s"
    "nh_node h' = (nh_node h)(?a \<mapsto> \<lparr>nd_edge = edge_accept, nd_next1 = None, nd_next2 = None, nd_anchor = 0\<rparr>,
       ?s \<mapsto> \<lparr>nd_edge = g, nd_next1 = Some ?a, nd_next2 = None, nd_anchor = 0\<rparr>)"
    using assms(2) by (auto simp: expr_of_edge_def new_node_def Let_def)
  have ok: "heap_ok h'"
    using heap_ok_new [OF heap_ok_new [OF assms(1), of edge_accept None None], of g "Some ?a" None] assms(2)
    by (simp add: expr_of_edge_def Let_def split_beta) (simp add: new_node_def)
  have "frag h' e ?N" using assms(3) by (auto simp: frag_def e)
  moreover have "acc h' ?a ?s w \<longleftrightarrow> w = u" for w
  proof -
    have "\<not> arc h' ?a v k" for v k by (simp add: arc_iff arcs_of_def e(3))
    then have "acc h' ?a ?a v \<longleftrightarrow> v = []" for v by (subst acc_simps) simp
    moreover have "arc h' ?s v k \<longleftrightarrow> k = ?a \<and> v = u" for v k
      using assms(3) by (auto simp: arc_iff arcs_of_def e(3))
    ultimately show ?thesis by (subst acc_simps) simp
  qed
  ultimately show ?thesis using ok e by (intro exI [of _ ?N]) (auto simp: yields_def lang_def)
qed

lemmas expr_of_edge_eps = expr_of_edge_yields [of _ edge_epsilon _ _ "[]", simplified]
  and expr_of_edge_char = expr_of_edge_yields [of _ "uchar c" _ _ "[c]" c for c, simplified]

section \<open>Concatenation, alternatives and repetition\<close>

lemma cat_yields:
  assumes ok: "heap_ok h" and A: "frag h A NA" and B: "frag h B NB" and dis: "NA \<inter> NB = {}"
  shows "\<exists>e h' N. cat_expr_abs A B h = Some (e, h') \<and> yields h (NA \<union> NB) h' e N (conc (lang h A) (lang h B))"
proof -
  from A obtain sA aA where a: "A = \<lparr>ex_accept = Some aA, ex_start = Some sA\<rparr>" "sA \<in> NA" "aA \<in> NA" "sA \<noteq> aA" "finite NA"
    and arcA: "\<And>n u k. n \<in> NA \<Longrightarrow> arc h n u k \<Longrightarrow> k \<in> NA - {sA} \<and> n \<noteq> aA"
    and nodeA: "\<And>n. n \<in> NA \<Longrightarrow> \<exists>x. nh_node h n = Some x"
    and fa: "\<And>n x. n \<in> NA \<Longrightarrow> nh_node h n = Some x \<Longrightarrow> set_option (nd_next1 x) \<union> set_option (nd_next2 x) \<subseteq> NA - {sA}"
      "\<And>n x. n \<in> NA \<Longrightarrow> n \<noteq> aA \<Longrightarrow> nh_node h n = Some x \<Longrightarrow> nd_next1 x \<noteq> None \<and> nd_edge x \<noteq> edge_accept"
    by (elim fragE) blast
  from B obtain sB aB where b: "B = \<lparr>ex_accept = Some aB, ex_start = Some sB\<rparr>" "sB \<in> NB" "aB \<in> NB" "sB \<noteq> aB" "finite NB"
    and arcB: "\<And>n u k. n \<in> NB \<Longrightarrow> arc h n u k \<Longrightarrow> k \<in> NB - {sB} \<and> n \<noteq> aB"
    and nodeB: "\<And>n. n \<in> NB \<Longrightarrow> \<exists>x. nh_node h n = Some x"
    and fb: "\<And>n x. n \<in> NB \<Longrightarrow> nh_node h n = Some x \<Longrightarrow> set_option (nd_next1 x) \<union> set_option (nd_next2 x) \<subseteq> NB - {sB}"
      "\<And>n x. n \<in> NB \<Longrightarrow> n \<noteq> aB \<Longrightarrow> nh_node h n = Some x \<Longrightarrow> nd_next1 x \<noteq> None \<and> nd_edge x \<noteq> edge_accept"
      "\<And>x. nh_node h aB = Some x \<Longrightarrow> nd_edge x = edge_accept \<and> nd_next1 x = None \<and> nd_next2 x = None"
    by (elim fragE) blast
  obtain x where x: "nh_node h sB = Some x" using nodeB b by blast
  obtain y where y: "nh_node h aA = Some y" using nodeA a by blast
  have ne: "aA \<noteq> sB" "aA \<notin> NB" "sB \<notin> NA" using dis a b by auto
  obtain h1 where h1: "set_transition aA (nd_edge x) (nd_next1 x) (nd_next2 x) h = Some h1"
    by (simp add: set_transition_def upd_node_def y)
  obtain h2 where h2: "upd_node aA (\<lambda>y. y\<lparr>nd_anchor := nd_anchor y OR nd_anchor x\<rparr>) h1 = Some h2"
    using h1 y by (auto simp: set_transition_def upd_node_def)
  obtain h' where h': "delete_node sB h2 = Some h'"
    using h1 h2 x y ne by (auto simp: set_transition_def upd_node_def delete_node_def)
  have okh': "heap_ok h'"
    using ok heap_ok_upd heap_ok_delete h1 h2 h' unfolding set_transition_def by blast
  let ?e = "\<lparr>ex_accept = Some aB, ex_start = Some sA\<rparr>" and ?N = "NA \<union> NB - {sB}"
  have cat: "cat_expr_abs A B h = Some (?e, h')"
    using h1 h2 h' x a b by (simp add: cat_expr_abs_def expr_empty_def)
  define z where "z = y\<lparr>nd_edge := nd_edge x, nd_next1 := nd_next1 x, nd_next2 := nd_next2 x,
    nd_anchor := nd_anchor y OR nd_anchor x\<rparr>"
  then have z: "nd_edge z = nd_edge x" "nd_next1 z = nd_next1 x" "nd_next2 z = nd_next2 x" by simp_all
  have node: "nh_node h' = (nh_node h)(aA \<mapsto> z, sB := None)" "nh_next h' = nh_next h"
    using h1 h2 h' x y by (auto simp: set_transition_def upd_node_def delete_node_def z_def split: if_splits)
  have arcs: "arcs_of z = arcs_of x" by (simp add: arcs_of_def z)
  have "frag h' ?e ?N"
  proof (rule fragI)
    fix n assume n: "n \<in> ?N"
    show "\<exists>x. nh_node h' n = Some x \<and> set_option (nd_next1 x) \<union> set_option (nd_next2 x) \<subseteq> ?N - {sA}
        \<and> (if n = aB then nd_edge x = edge_accept \<and> nd_next1 x = None \<and> nd_next2 x = None
           else nd_next1 x \<noteq> None \<and> nd_edge x \<noteq> edge_accept)"
    proof (cases "n = aA")
      case True
      with fb(1) [OF b(2) x] fb(2) [OF b(2) b(4) x] dis a b node(1) ne show ?thesis by (auto simp: z)
    next
      case False
      show ?thesis
      proof (cases "n \<in> NA")
        case True
        obtain v where v: "nh_node h n = Some v" using nodeA True by blast
        with fa(1) [OF True v] fa(2) [OF True False v] True False dis n b node(1) ne show ?thesis by auto
      next
        case nb: False
        with n have n: "n \<in> NB" "n \<noteq> sB" by auto
        obtain v where v: "nh_node h n = Some v" using nodeB n by blast
        with fb(1) [OF n(1) v] fb(2) [OF n(1) _ v] fb(3) n False dis a node(1) show ?thesis by auto
      qed
    qed
  qed (use a b dis in auto)
  moreover have "lang h' ?e = conc (lang h A) (lang h B)"
  proof -
    have inB: "acc h' aB n w = acc h aB n w" if "n \<in> NB - {sB}" for n w
      using that ne arcB node(1) by (intro acc_closed [of "NB - {sB}"]) auto
    have "acc h' aB aA v = acc h aB sB v" for v
    proof -
      have "arc h' aA u k = arc h sB u k" for u k using node(1) x ne by (auto simp: arc_iff arcs)
      moreover have "aA \<noteq> aB" using ne b by auto
      ultimately show ?thesis using inB arcB [OF b(2)] b(4) by (subst (1 2) acc_simps) blast
    qed
    moreover have "acc h' aB sA w \<longleftrightarrow> (\<exists>u v. w = u @ v \<and> acc h aA sA u \<and> acc h' aB aA v)" for w
    proof (rule acc_exit [of NA])
      show "\<And>n. n \<in> NA - {aA} \<Longrightarrow> nh_node h' n = nh_node h n" using node(1) ne by auto
      show "\<And>n u k. n \<in> NA \<Longrightarrow> arc h n u k \<Longrightarrow> k \<in> NA \<and> n \<noteq> aA" using arcA by blast
    qed (use a b dis in auto)
    ultimately show ?thesis by (auto simp: lang_def conc_def a(1) b(1))
  qed
  ultimately show ?thesis
    using cat okh' node b(2) by (intro exI [of _ ?e] exI [of _ h'] exI [of _ ?N]) (auto simp: yields_def a b a(3))
qed

text \<open>Nodes of which only the accept node is changed.\<close>

lemma frag_node:
  assumes "frag h \<lparr>ex_accept = Some a, ex_start = Some s\<rparr> N" "n \<in> N" "nh_node h' n = nh_node h n" "n \<noteq> a"
  shows "\<exists>x. nh_node h' n = Some x \<and> set_option (nd_next1 x) \<union> set_option (nd_next2 x) \<subseteq> N - {s}
     \<and> nd_next1 x \<noteq> None \<and> nd_edge x \<noteq> edge_accept"
  using assms unfolding frag_def by (metis (no_types, lifting) nfa_expr.ext_inject option.inject)

lemma or_yields:
  assumes ok: "heap_ok h" and A: "frag h A NA" and B: "frag h B NB" and dis: "NA \<inter> NB = {}"
  shows "\<exists>e h' N. or_expr_abs A B h = Some (e, h') \<and> yields h (NA \<union> NB) h' e N (lang h A \<union> lang h B)"
proof -
  from A obtain sA aA where a: "A = \<lparr>ex_accept = Some aA, ex_start = Some sA\<rparr>" "sA \<in> NA" "aA \<in> NA" "sA \<noteq> aA" "finite NA"
    and arcA: "\<And>n u k. n \<in> NA \<Longrightarrow> arc h n u k \<Longrightarrow> k \<in> NA \<and> n \<noteq> aA"
    and nodeA: "\<And>n. n \<in> NA \<Longrightarrow> \<exists>x. nh_node h n = Some x"
    by (elim fragE) blast
  from B obtain sB aB where b: "B = \<lparr>ex_accept = Some aB, ex_start = Some sB\<rparr>" "sB \<in> NB" "aB \<in> NB" "sB \<noteq> aB" "finite NB"
    and arcB: "\<And>n u k. n \<in> NB \<Longrightarrow> arc h n u k \<Longrightarrow> k \<in> NB \<and> n \<noteq> aB"
    and nodeB: "\<And>n. n \<in> NB \<Longrightarrow> \<exists>x. nh_node h n = Some x"
    by (elim fragE) blast
  let ?f = "nh_next h" and ?s = "Suc (nh_next h)"
  have new: "?f \<notin> NA" "?s \<notin> NA" "?f \<notin> NB" "?s \<notin> NB"
    using frag_less [OF A ok] frag_less [OF B ok] by fastforce+
  obtain y where y: "nh_node h aA = Some y" using nodeA a by blast
  obtain x where x: "nh_node h aB = Some x" using nodeB b by blast
  define h1 where "h1 = snd (new_node edge_epsilon (Some sA) (Some sB) (snd (new_node edge_accept None None h)))"
  have okh1: "heap_ok h1" unfolding h1_def by (intro heap_ok_new ok)
  have node1: "nh_node h1 = (nh_node h)(?f \<mapsto> \<lparr>nd_edge = edge_accept, nd_next1 = None, nd_next2 = None, nd_anchor = 0\<rparr>,
       ?s \<mapsto> \<lparr>nd_edge = edge_epsilon, nd_next1 = Some sA, nd_next2 = Some sB, nd_anchor = 0\<rparr>)" "nh_next h1 = Suc ?s"
    by (simp_all add: h1_def new_node_def)
  have ne: "aA \<noteq> ?f" "aA \<noteq> ?s" "aB \<noteq> ?f" "aB \<noteq> ?s" "aA \<noteq> aB" "aA \<notin> NB" "aB \<notin> NA" using new a b dis by auto
  define y' where "y' = y\<lparr>nd_edge := edge_epsilon, nd_next1 := Some ?f, nd_next2 := None\<rparr>"
  define x' where "x' = x\<lparr>nd_edge := edge_epsilon, nd_next1 := Some ?f, nd_next2 := None\<rparr>"
  obtain h2 where h2: "set_transition aA edge_epsilon (Some ?f) None h1 = Some h2"
    using y ne by (simp add: set_transition_def upd_node_def node1)
  obtain h' where h': "set_transition aB edge_epsilon (Some ?f) None h2 = Some h'"
    using h2 x ne by (auto simp: set_transition_def upd_node_def node1 split: option.splits)
  have okh': "heap_ok h'" using okh1 h2 h' heap_ok_upd unfolding set_transition_def by blast
  have node: "nh_node h' = (nh_node h1)(aA \<mapsto> y', aB \<mapsto> x')" "nh_next h' = Suc ?s"
    using h2 h' x y ne by (auto simp: set_transition_def upd_node_def node1 x'_def y'_def split: if_splits)
  let ?e = "\<lparr>ex_accept = Some ?f, ex_start = Some ?s\<rparr>" and ?N = "NA \<union> NB \<union> {?f, ?s}"
  have orx: "or_expr_abs A B h = Some (?e, h')"
    using h2 h' a b by (simp add: or_expr_abs_def expr_empty_def Let_def split_beta h1_def) (simp add: new_node_def)
  have same: "nh_node h' n = nh_node h n" if "n \<in> NA \<union> NB - {aA, aB}" for n
    using that new node node1 by auto
  have "frag h' ?e ?N"
  proof (rule fragI)
    fix n assume "n \<in> ?N"
    then consider "n = ?f" | "n = ?s" | "n \<in> {aA, aB}" | "n \<in> NA - {aA}" | "n \<in> NB - {aB}" by blast
    then show "\<exists>x. nh_node h' n = Some x \<and> set_option (nd_next1 x) \<union> set_option (nd_next2 x) \<subseteq> ?N - {?s}
        \<and> (if n = ?f then nd_edge x = edge_accept \<and> nd_next1 x = None \<and> nd_next2 x = None
           else nd_next1 x \<noteq> None \<and> nd_edge x \<noteq> edge_accept)"
    proof cases
      case 4
      then have "nh_node h' n = nh_node h n" "n \<in> NA" "n \<noteq> aA" "n \<noteq> ?f" using same new ne by auto
      with frag_node [OF A [unfolded a(1)]] obtain v where "nh_node h' n = Some v"
        "set_option (nd_next1 v) \<union> set_option (nd_next2 v) \<subseteq> NA - {sA}" "nd_next1 v \<noteq> None \<and> nd_edge v \<noteq> edge_accept"
        by blast
      then show ?thesis using \<open>n \<noteq> ?f\<close> new by (intro exI [of _ v]) auto
    next
      case 5
      then have "nh_node h' n = nh_node h n" "n \<in> NB" "n \<noteq> aB" "n \<noteq> ?f" using same new ne by auto
      with frag_node [OF B [unfolded b(1)]] obtain v where "nh_node h' n = Some v"
        "set_option (nd_next1 v) \<union> set_option (nd_next2 v) \<subseteq> NB - {sB}" "nd_next1 v \<noteq> None \<and> nd_edge v \<noteq> edge_accept"
        by blast
      then show ?thesis using \<open>n \<noteq> ?f\<close> new by (intro exI [of _ v]) auto
    qed (use a b new ne node node1 in \<open>auto simp: x'_def y'_def\<close>)
  qed (use a b in auto)
  moreover have "lang h' ?e = lang h A \<union> lang h B"
  proof -
    have "\<not> arc h' ?f u k" for u k using ne by (auto simp: arc_iff arcs_of_def node node1)
    then have fin: "acc h' ?f ?f w \<longleftrightarrow> w = []" for w by (subst acc_simps) blast
    have "arc h' aA u k \<longleftrightarrow> u = [] \<and> k = ?f" "arc h' aB u k \<longleftrightarrow> u = [] \<and> k = ?f" for u k
      using ne by (auto simp: arc_iff arcs_of_def node x'_def y'_def)
    then have ends: "acc h' ?f aA w \<longleftrightarrow> w = []" "acc h' ?f aB w \<longleftrightarrow> w = []" for w
      using ne fin by (subst acc_simps; simp)+
    have "acc h' ?f sA w \<longleftrightarrow> (\<exists>u v. w = u @ v \<and> acc h aA sA u \<and> acc h' ?f aA v)" for w
      using arcA same ne a(2) new(1) by (intro acc_exit [of NA]) auto
    then have 1: "acc h' ?f sA w \<longleftrightarrow> acc h aA sA w" for w using ends(1) by simp
    have "acc h' ?f sB w \<longleftrightarrow> (\<exists>u v. w = u @ v \<and> acc h aB sB u \<and> acc h' ?f aB v)" for w
      using arcB same ne b(2) new(3) by (intro acc_exit [of NB]) auto
    then have 2: "acc h' ?f sB w \<longleftrightarrow> acc h aB sB w" for w using ends(2) by simp
    have "arc h' ?s u k \<longleftrightarrow> u = [] \<and> (k = sA \<or> k = sB)" for u k
      using ne by (auto simp: arc_iff arcs_of_def node node1)
    then have "acc h' ?f ?s w \<longleftrightarrow> acc h aA sA w \<or> acc h aB sB w" for w
      using 1 2 by (subst acc_simps) auto
    then show ?thesis by (auto simp: lang_def a(1) b(1))
  qed
  ultimately show ?thesis
    using orx okh' node(2) same node node1
    by (intro exI [of _ ?e] exI [of _ h'] exI [of _ ?N]) (auto simp: yields_def a b a(3))
qed

lemma star_yields:
  assumes ok: "heap_ok h" and A: "frag h A NA"
  shows "\<exists>e h' N. expr_star A h = Some (e, h') \<and> yields h NA h' e N (lstar (lang h A))"
proof -
  from A obtain sA aA where a: "A = \<lparr>ex_accept = Some aA, ex_start = Some sA\<rparr>" "sA \<in> NA" "aA \<in> NA" "sA \<noteq> aA" "finite NA"
    and arcA: "\<And>n u k. n \<in> NA \<Longrightarrow> arc h n u k \<Longrightarrow> k \<in> NA \<and> n \<noteq> aA"
    and nodeA: "\<And>n. n \<in> NA \<Longrightarrow> \<exists>x. nh_node h n = Some x"
    by (elim fragE) blast
  let ?f = "nh_next h" and ?s = "Suc (nh_next h)"
  have new: "?f \<notin> NA" "?s \<notin> NA" using frag_less [OF A ok] by fastforce+
  obtain y where y: "nh_node h aA = Some y" using nodeA a by blast
  define h1 where "h1 = snd (new_node edge_epsilon (Some sA) (Some ?f) (snd (new_node edge_accept None None h)))"
  have okh1: "heap_ok h1" unfolding h1_def by (intro heap_ok_new ok)
  have node1: "nh_node h1 = (nh_node h)(?f \<mapsto> \<lparr>nd_edge = edge_accept, nd_next1 = None, nd_next2 = None, nd_anchor = 0\<rparr>,
       ?s \<mapsto> \<lparr>nd_edge = edge_epsilon, nd_next1 = Some sA, nd_next2 = Some ?f, nd_anchor = 0\<rparr>)" "nh_next h1 = Suc ?s"
    by (simp_all add: h1_def new_node_def)
  have ne: "aA \<noteq> ?f" "aA \<noteq> ?s" using new a by auto
  define y' where "y' = y\<lparr>nd_edge := edge_epsilon, nd_next1 := Some ?f, nd_next2 := Some sA\<rparr>"
  obtain h' where h': "set_transition aA edge_epsilon (Some ?f) (Some sA) h1 = Some h'"
    using y ne by (simp add: set_transition_def upd_node_def node1)
  have okh': "heap_ok h'" using okh1 h' heap_ok_upd unfolding set_transition_def by blast
  have node: "nh_node h' = (nh_node h1)(aA \<mapsto> y')" "nh_next h' = Suc ?s"
    using h' y ne by (auto simp: set_transition_def upd_node_def node1 y'_def split: if_splits)
  let ?e = "\<lparr>ex_accept = Some ?f, ex_start = Some ?s\<rparr>" and ?N = "NA \<union> {?f, ?s}"
  have star: "expr_star A h = Some (?e, h')"
    using h' a by (simp add: expr_star_def Let_def split_beta h1_def) (simp add: new_node_def)
  have same: "nh_node h' n = nh_node h n" if "n \<in> NA - {aA}" for n
    using that new node node1 by auto
  have "frag h' ?e ?N"
  proof (rule fragI)
    fix n assume "n \<in> ?N"
    then consider "n = ?f" | "n = ?s" | "n = aA" | "n \<in> NA - {aA}" by blast
    then show "\<exists>x. nh_node h' n = Some x \<and> set_option (nd_next1 x) \<union> set_option (nd_next2 x) \<subseteq> ?N - {?s}
        \<and> (if n = ?f then nd_edge x = edge_accept \<and> nd_next1 x = None \<and> nd_next2 x = None
           else nd_next1 x \<noteq> None \<and> nd_edge x \<noteq> edge_accept)"
    proof cases
      case 4
      then have "nh_node h' n = nh_node h n" "n \<in> NA" "n \<noteq> aA" "n \<noteq> ?f" using same new ne by auto
      with frag_node [OF A [unfolded a(1)]] obtain v where "nh_node h' n = Some v"
        "set_option (nd_next1 v) \<union> set_option (nd_next2 v) \<subseteq> NA - {sA}" "nd_next1 v \<noteq> None \<and> nd_edge v \<noteq> edge_accept"
        by blast
      then show ?thesis using \<open>n \<noteq> ?f\<close> new by (intro exI [of _ v]) auto
    qed (use a new ne node node1 in \<open>auto simp: y'_def\<close>)
  qed (use a in auto)
  moreover have "lang h' ?e = lstar (lang h A)"
  proof -
    have "\<not> arc h' ?f u k" for u k using ne by (auto simp: arc_iff arcs_of_def node node1)
    then have fin: "acc h' ?f ?f w \<longleftrightarrow> w = []" for w by (subst acc_simps) blast
    have arca: "arc h' aA u k \<longleftrightarrow> u = [] \<and> (k = ?f \<or> k = sA)" for u k
      using ne by (auto simp: arc_iff arcs_of_def node y'_def)
    have enda: "acc h' ?f aA w \<longleftrightarrow> w = [] \<or> acc h' ?f sA w" for w
      using ne fin arca by (subst acc_simps) auto
    have exit: "acc h' ?f sA w \<longleftrightarrow> (\<exists>u v. w = u @ v \<and> acc h aA sA u \<and> acc h' ?f aA v)" for w
      using arcA same ne a(2) new(1) by (intro acc_exit [of NA]) auto
    have fwd: "\<exists>u v. w = u @ v \<and> acc h aA n u \<and> v \<in> lstar (lang h A)" if "acc h' ?f n w" "n \<in> NA" for n w
      using that
    proof (induction rule: acc.induct)
      case here
      with new show ?case by simp
    next
      case (step n u k w)
      show ?case
      proof (cases "n = aA")
        case True
        with step.hyps(1) arca have u: "u = []" and k: "k = ?f \<or> k = sA" by auto
        from k have "w \<in> lstar (lang h A)"
        proof
          assume "k = ?f"
          with step.hyps(2) fin show ?thesis by simp
        next
          assume "k = sA"
          with step.IH a obtain p q where "w = p @ q" "acc h aA sA p" "q \<in> lstar (lang h A)" by auto
          then show ?thesis by (auto simp: lang_def a(1) intro: lstar_step)
        qed
        with True u show ?thesis by (auto intro: acc.here)
      next
        case False
        with step same have "arc h n u k" using arc_cong by blast
        with arcA step obtain p q where "w = p @ q" "acc h aA k p" "q \<in> lstar (lang h A)" by blast
        with \<open>arc h n u k\<close> show ?thesis by (intro exI [of _ "u @ p"] exI [of _ q]) (auto intro: acc.step)
      qed
    qed
    have bwd: "w \<in> lpow (lang h A) n \<Longrightarrow> w = [] \<or> acc h' ?f sA w" for w n
    proof (induction n arbitrary: w)
      case (Suc n)
      then obtain u v where "w = u @ v" "u \<in> lang h A" "v \<in> lpow (lang h A) n" by (auto simp: conc_def)
      moreover from this Suc.IH have "acc h' ?f aA v" using enda by blast
      ultimately show ?case using exit by (auto simp: lang_def a(1))
    qed simp
    have "arc h' ?s u k \<longleftrightarrow> u = [] \<and> (k = sA \<or> k = ?f)" for u k
      using ne by (auto simp: arc_iff arcs_of_def node node1)
    then have "acc h' ?f ?s w \<longleftrightarrow> w = [] \<or> acc h' ?f sA w" for w
      using fin by (subst acc_simps) auto
    moreover have "w = [] \<or> acc h' ?f sA w \<longleftrightarrow> w \<in> lstar (lang h A)" for w
    proof
      show "w \<in> lstar (lang h A) \<Longrightarrow> w = [] \<or> acc h' ?f sA w" using bwd by (auto simp: lstar_def)
      show "w = [] \<or> acc h' ?f sA w \<Longrightarrow> w \<in> lstar (lang h A)"
        using fwd [of sA w] a(2) by (auto simp: lang_def a(1) intro: lstar_step)
    qed
    ultimately show ?thesis by (simp add: lang_def)
  qed
  ultimately show ?thesis
    using star okh' node(2) same node node1
    by (intro exI [of _ ?e] exI [of _ h'] exI [of _ ?N]) (auto simp: yields_def a(3))
qed

end
