(* ===== verification/Nfa_Clone.thy ===== *)
theory Nfa_Clone
  imports Nfa_Lang
begin

text \<open>
  Cloning an expression copies its graph to new nodes, cycles included; with it the operations that
  use their argument several times are those of the regular expressions.
\<close>

section \<open>Cloning a node\<close>

text \<open>
  The original nodes \<open>N\<close> of the heap \<open>h0\<close> are closed under successors. While the clones are made,
  the map \<open>m\<close> is injective into nodes that are new.
\<close>

definition cloning :: "nfa_heap \<Rightarrow> nat set \<Rightarrow> (nat \<rightharpoonup> nat) \<times> nfa_heap \<Rightarrow> bool" where
  "cloning h0 N s \<longleftrightarrow> (case s of (m, h) \<Rightarrow>
     heap_ok h \<and> dom m \<subseteq> N \<and> inj_on m (dom m) \<and> ran m \<subseteq> {nh_next h0..<nh_next h} \<and> nh_next h0 \<le> nh_next h
     \<and> ran m \<subseteq> dom (nh_node h) \<and> (\<forall>n < nh_next h0. nh_node h n = nh_node h0 n))"

definition image_node :: "(nat \<rightharpoonup> nat) \<Rightarrow> nfa_node \<Rightarrow> nfa_node" where
  "image_node m x = x\<lparr>nd_next1 := Option.bind (nd_next1 x) m, nd_next2 := Option.bind (nd_next2 x) m\<rparr>"

definition succs :: "nfa_node \<Rightarrow> nat set" where
  "succs x = set_option (nd_next1 x) \<union> set_option (nd_next2 x)"

text \<open>The clones of the nodes \<open>D\<close> are complete.\<close>

definition copied :: "nfa_heap \<Rightarrow> nat set \<Rightarrow> (nat \<rightharpoonup> nat) \<times> nfa_heap \<Rightarrow> bool" where
  "copied h0 D s \<longleftrightarrow> (case s of (m, h) \<Rightarrow>
     \<forall>n\<in>D. \<exists>x c. nh_node h0 n = Some x \<and> m n = Some c \<and> succs x \<subseteq> dom m \<and> nh_node h c = Some (image_node m x))"

lemma copiedD:
  assumes "copied h0 D (m, h)" "n \<in> D"
  obtains x c where "nh_node h0 n = Some x" "m n = Some c" "succs x \<subseteq> dom m" "nh_node h c = Some (image_node m x)"
  using assms unfolding copied_def by blast

text \<open>One more step of the cloning: more clones, the new ones complete, the nodes \<open>K\<close> as before.\<close>

definition clones :: "nfa_heap \<Rightarrow> nat set \<Rightarrow> nat set \<Rightarrow> (nat \<rightharpoonup> nat) \<times> nfa_heap \<Rightarrow> (nat \<rightharpoonup> nat) \<times> nfa_heap \<Rightarrow> bool" where
  "clones h0 N K s s' \<longleftrightarrow> cloning h0 N s' \<and> fst s \<subseteq>\<^sub>m fst s' \<and> (\<forall>c\<in>K. nh_node (snd s') c = nh_node (snd s) c)
     \<and> nh_next (snd s) \<le> nh_next (snd s') \<and> copied h0 (dom (fst s') - dom (fst s)) s'"

lemma image_node_mono: "succs x \<subseteq> dom m \<Longrightarrow> m \<subseteq>\<^sub>m m' \<Longrightarrow> image_node m' x = image_node m x"
proof -
  assume s: "succs x \<subseteq> dom m" and m: "m \<subseteq>\<^sub>m m'"
  have "Option.bind v m' = Option.bind v m" if "set_option v \<subseteq> succs x" for v
    using that s m by (cases v) (simp_all add: map_le_def subset_iff)
  then show ?thesis by (simp add: image_node_def succs_def)
qed

lemma clones_refl: "cloning h0 N s \<Longrightarrow> clones h0 N K s s"
  by (simp add: clones_def copied_def map_le_def split: prod.split)

lemma clones_trans:
  assumes "clones h0 N K s s1" "clones h0 N (ran (fst s1)) s1 s2" "K \<subseteq> ran (fst s1)"
  shows "clones h0 N K s s2"
proof -
  obtain m h m1 h1 m2 h2 where s: "s = (m, h)" "s1 = (m1, h1)" "s2 = (m2, h2)" by (cases s; cases s1; cases s2) blast
  have 1: "m \<subseteq>\<^sub>m m1" "m1 \<subseteq>\<^sub>m m2" "\<forall>c\<in>K. nh_node h1 c = nh_node h c" "\<forall>c\<in>ran m1. nh_node h2 c = nh_node h1 c"
    "nh_next h \<le> nh_next h1" "nh_next h1 \<le> nh_next h2" "copied h0 (dom m1 - dom m) (m1, h1)" "copied h0 (dom m2 - dom m1) (m2, h2)"
    using assms by (simp_all add: clones_def s)
  have "copied h0 (dom m2 - dom m) s2"
    unfolding copied_def s(3) prod.case
  proof
    fix n assume n: "n \<in> dom m2 - dom m"
    show "\<exists>x c. nh_node h0 n = Some x \<and> m2 n = Some c \<and> succs x \<subseteq> dom m2 \<and> nh_node h2 c = Some (image_node m2 x)"
    proof (cases "n \<in> dom m1")
      case True
      with n have "n \<in> dom m1 - dom m" by blast
      with 1(7) obtain x c where x: "nh_node h0 n = Some x" "m1 n = Some c" "succs x \<subseteq> dom m1"
          "nh_node h1 c = Some (image_node m1 x)" by (rule copiedD)
      have "m2 n = Some c" using 1(2) x(2) by (metis domI map_le_def)
      moreover have "nh_node h2 c = Some (image_node m2 x)"
        using 1(4) x image_node_mono [OF x(3) 1(2)] by (auto simp: ran_def)
      moreover have "dom m1 \<subseteq> dom m2" using 1(2) by (rule map_le_implies_dom_le)
      ultimately show ?thesis using x by auto
    next
      case False
      with n have "n \<in> dom m2 - dom m1" by blast
      with 1(8) show ?thesis unfolding copied_def by blast
    qed
  qed
  moreover have "\<forall>c\<in>K. nh_node h2 c = nh_node h c" using 1(3,4) assms(3) by (auto simp: s subset_iff)
  ultimately show ?thesis
    using assms(2) 1 map_le_trans [OF 1(1,2)] by (simp add: clones_def s)
qed

text \<open>An update of the fields of a clone that is not complete yet.\<close>

lemma clones_upd:
  assumes "clones h0 N K s (m, h)" "fst s n = Some c" "c \<notin> K" "upd_node c f h = Some h'"
  shows "clones h0 N K s (m, h')"
proof -
  have h': "nh_next h' = nh_next h" "nh_node h' = (nh_node h)(c \<mapsto> f (the (nh_node h c)))" "c \<in> dom (nh_node h)"
    using assms(4) by (auto simp: upd_node_def split: option.splits)
  have c: "cloning h0 N (m, h)" and m: "fst s \<subseteq>\<^sub>m m" using assms(1) by (simp_all add: clones_def)
  then have mn: "m n = Some c" using assms(2) by (metis domI map_le_def)
  with c have "nh_next h0 \<le> c" by (auto simp: cloning_def ran_def)
  with c h' heap_ok_upd [OF _ assms(4)] have "cloning h0 N (m, h')" by (auto simp: cloning_def)
  moreover have inj: "inj_on m (dom m)" using c by (simp add: cloning_def)
  have "copied h0 (dom m - dom (fst s)) (m, h')"
    unfolding copied_def prod.case
  proof
    fix k assume k: "k \<in> dom m - dom (fst s)"
    have "copied h0 (dom m - dom (fst s)) (m, h)" using assms(1) by (simp add: clones_def)
    from this k obtain x d where x: "nh_node h0 k = Some x" "m k = Some d" "succs x \<subseteq> dom m" "nh_node h d = Some (image_node m x)"
      by (rule copiedD)
    have "d \<noteq> c" using inj_onD [OF inj, of k n] x(2) mn assms(2) k by auto
    with x h' show "\<exists>x c. nh_node h0 k = Some x \<and> m k = Some c \<and> succs x \<subseteq> dom m \<and> nh_node h' c = Some (image_node m x)"
      by auto
  qed
  ultimately show ?thesis using assms(1,3) h' by (auto simp: clones_def)
qed

text \<open>The cloning of a successor, if there is one.\<close>

definition clone_next :: "nat option \<Rightarrow> (nat \<rightharpoonup> nat) \<times> nfa_heap \<Rightarrow> (nat option \<times> (nat \<rightharpoonup> nat) \<times> nfa_heap) option" where
  "clone_next v s = (case v of None \<Rightarrow> Some (None, s) | Some k \<Rightarrow> do { (k, s) \<leftarrow> node_clone k s; Some (Some k, s) })"

lemma node_clone_unfold:
  "node_clone n (m, h) =
     (case m n of
        Some c \<Rightarrow> Some (c, m, h)
      | None \<Rightarrow> do {
          x \<leftarrow> nh_node h n;
          let (c, h) = new_node (nd_edge x) None None h;
          h \<leftarrow> upd_node c (\<lambda>y. y\<lparr>nd_anchor := nd_anchor x\<rparr>) h;
          (c1, m, h) \<leftarrow> clone_next (nd_next1 x) (m(n \<mapsto> c), h);
          h \<leftarrow> upd_node c (\<lambda>y. y\<lparr>nd_next1 := c1\<rparr>) h;
          (c2, m, h) \<leftarrow> clone_next (nd_next2 x) (m, h);
          h \<leftarrow> upd_node c (\<lambda>y. y\<lparr>nd_next2 := c2\<rparr>) h;
          Some (c, m, h) })"
  using node_clone.simps [of n "(m, h)"] unfolding clone_next_def fst_conv snd_conv Let_def .

lemma upd_node_total: "nh_node h c = Some x \<Longrightarrow> \<exists>h'. upd_node c f h = Some h' \<and> nh_node h' c = Some (f x)"
  by (simp add: upd_node_def)

lemma node_clone_clones:
  assumes closed: "\<And>n. n \<in> N \<Longrightarrow> \<exists>x. nh_node h0 n = Some x \<and> succs x \<subseteq> N" and N: "finite N" "N \<subseteq> {..<nh_next h0}"
  shows "cloning h0 N s \<Longrightarrow> n \<in> N \<Longrightarrow>
     \<exists>c s'. node_clone n s = Some (c, s') \<and> clones h0 N (ran (fst s)) s s' \<and> fst s' n = Some c"
proof (induction "card (N - dom (fst s))" arbitrary: s n rule: less_induct)
  case less
  obtain m h where s: "s = (m, h)" by (cases s)
  show ?case
  proof (cases "m n")
    case (Some c)
    then show ?thesis using clones_refl [OF less.prems(1)] by (auto simp: s node_clone_unfold)
  next
    case None
    have cl: "cloning h0 N (m, h)" using less.prems(1) by (simp add: s)
    obtain x where x: "nh_node h0 n = Some x" "succs x \<subseteq> N" using closed less.prems(2) by blast
    have xh: "nh_node h n = Some x" using x(1) cl N(2) less.prems(2) by (auto simp: cloning_def)
    let ?c = "nh_next h" and ?m1 = "m(n \<mapsto> nh_next h)"
    obtain h1 where h1: "upd_node ?c (\<lambda>y. y\<lparr>nd_anchor := nd_anchor x\<rparr>) (snd (new_node (nd_edge x) None None h)) = Some h1"
      and nodes1: "nh_node h1 = (nh_node h)(?c \<mapsto> \<lparr>nd_edge = nd_edge x, nd_next1 = None, nd_next2 = None, nd_anchor = nd_anchor x\<rparr>)"
        "nh_next h1 = Suc ?c"
      by (simp add: upd_node_def new_node_def)
    have "heap_ok h1" using heap_ok_upd [OF heap_ok_new h1] cl by (simp add: cloning_def)
    have cnew: "?c \<notin> ran m" using cl by (fastforce simp: cloning_def)
    have s1: "cloning h0 N (?m1, h1)"
      using cl cnew \<open>heap_ok h1\<close> less.prems(2) None
      by (auto simp: cloning_def nodes1 inj_on_def ran_def dom_def split: if_splits)
    have call: "\<exists>v' m' h'. clone_next v (m2, h2) = Some (v', m', h') \<and> clones h0 N (ran m2) (m2, h2) (m', h')
        \<and> v' = Option.bind v m' \<and> set_option v \<subseteq> dom m'"
      if "cloning h0 N (m2, h2)" "n \<in> dom m2" "dom m \<subseteq> dom m2" "set_option v \<subseteq> succs x" for v m2 h2
    proof (cases v)
      case None
      then show ?thesis using clones_refl [OF that(1)] by (simp add: clone_next_def)
    next
      case (Some k)
      have "N - dom m2 \<subset> N - dom m" using that(2,3) \<open>m n = None\<close> less.prems(2) by auto
      then have "card (N - dom m2) < card (N - dom m)" by (intro psubset_card_mono) (use N(1) in auto)
      moreover have "k \<in> N" using that(4) x(2) Some by auto
      ultimately have "\<exists>c s'. node_clone k (m2, h2) = Some (c, s') \<and> clones h0 N (ran m2) (m2, h2) s' \<and> fst s' k = Some c"
        using less.hyps [of "(m2, h2)" k] that(1) unfolding s fst_conv by blast
      then obtain c' m' h' where "node_clone k (m2, h2) = Some (c', m', h')" "clones h0 N (ran m2) (m2, h2) (m', h')"
          "m' k = Some c'"
        by fastforce
      then show ?thesis using Some by (auto simp: clone_next_def)
    qed
    have sub: "ran m \<subseteq> ran ?m1" using None by (auto simp: ran_def) (metis option.distinct(1))
    obtain v1 m2 h2 where c1: "clone_next (nd_next1 x) (?m1, h1) = Some (v1, m2, h2)" "clones h0 N (ran ?m1) (?m1, h1) (m2, h2)"
        "v1 = Option.bind (nd_next1 x) m2" "set_option (nd_next1 x) \<subseteq> dom m2"
      using call [OF s1, of "nd_next1 x"] by (auto simp: succs_def)
    have m12: "?m1 \<subseteq>\<^sub>m m2" using c1(2) by (simp add: clones_def)
    then have m2n: "m2 n = Some ?c" by (simp add: map_le_def)
    have "?c \<in> ran ?m1" by (rule ranI [of _ n]) simp
    with c1(2) have "nh_node h2 ?c = nh_node h1 ?c" unfolding clones_def by simp
    then obtain h2' where h2': "upd_node ?c (\<lambda>y. y\<lparr>nd_next1 := v1\<rparr>) h2 = Some h2'"
        "nh_node h2' ?c = Some \<lparr>nd_edge = nd_edge x, nd_next1 = v1, nd_next2 = None, nd_anchor = nd_anchor x\<rparr>"
      by (auto simp: nodes1 upd_node_def)
    have "clones h0 N (ran m) (?m1, h1) (m2, h2)" using c1(2) sub by (auto simp: clones_def)
    then have cl2: "clones h0 N (ran m) (?m1, h1) (m2, h2')"
      by (rule clones_upd [of _ _ _ _ _ _ n ?c]) (use cnew h2'(1) in auto)
    have "dom m \<subseteq> dom m2" using map_le_implies_dom_le [OF m12] by auto
    obtain v2 m3 h3 where c2: "clone_next (nd_next2 x) (m2, h2') = Some (v2, m3, h3)" "clones h0 N (ran m2) (m2, h2') (m3, h3)"
        "v2 = Option.bind (nd_next2 x) m3" "set_option (nd_next2 x) \<subseteq> dom m3"
    proof -
      have "cloning h0 N (m2, h2')" using cl2 by (simp add: clones_def)
      moreover have "n \<in> dom m2" using m2n by blast
      moreover have "set_option (nd_next2 x) \<subseteq> succs x" by (simp add: succs_def)
      ultimately show thesis using call [of m2 h2' "nd_next2 x"] \<open>dom m \<subseteq> dom m2\<close> that by blast
    qed
    have m23: "m2 \<subseteq>\<^sub>m m3" using c2(2) by (simp add: clones_def)
    have "ran m \<subseteq> ran m2"
    proof
      fix c assume "c \<in> ran m"
      with sub obtain k where "?m1 k = Some c" by (auto simp: ran_def)
      with m12 show "c \<in> ran m2" by (metis domI map_le_def ranI)
    qed
    with c2(2) have cl2': "clones h0 N (ran m) (?m1, h1) (m3, h3)" by (intro clones_trans [OF cl2]) simp_all
    have "nh_node h3 ?c = nh_node h2' ?c" using c2(2) ranI [of m2, OF m2n] unfolding clones_def by simp
    then obtain h3' where h3': "upd_node ?c (\<lambda>y. y\<lparr>nd_next2 := v2\<rparr>) h3 = Some h3'"
        "nh_node h3' ?c = Some \<lparr>nd_edge = nd_edge x, nd_next1 = v1, nd_next2 = v2, nd_anchor = nd_anchor x\<rparr>"
      by (auto simp: h2'(2) upd_node_def)
    have cl3: "clones h0 N (ran m) (?m1, h1) (m3, h3')"
      by (rule clones_upd [of _ _ _ _ _ _ n ?c, OF cl2' _ cnew h3'(1)]) simp
    have run: "node_clone n s = Some (?c, m3, h3')"
      using None xh h1 c1(1) h2'(1) c2(1) h3'(1)
      by (simp add: s node_clone_unfold Let_def split_beta) (simp add: new_node_def)
    have m3n: "m3 n = Some ?c" using m23 m2n by (metis domI map_le_def)
    have "Option.bind (nd_next1 x) m3 = Option.bind (nd_next1 x) m2"
      using c1(4) m23 by (cases "nd_next1 x") (simp_all add: map_le_def)
    then have "nh_node h3' ?c = Some (image_node m3 x)" by (simp add: h3'(2) c1(3) c2(3) image_node_def)
    moreover have "succs x \<subseteq> dom m3" using c1(4) c2(4) map_le_implies_dom_le [OF m23] by (auto simp: succs_def)
    ultimately have "copied h0 {n} (m3, h3')" using x(1) m3n by (auto simp: copied_def)
    moreover have "copied h0 (dom m3 - insert n (dom m)) (m3, h3')" using cl3 by (simp add: clones_def)
    ultimately have "copied h0 (insert n (dom m3 - insert n (dom m))) (m3, h3')" unfolding copied_def by blast
    moreover have "dom m3 - dom m \<subseteq> insert n (dom m3 - insert n (dom m))" by blast
    ultimately have "copied h0 (dom m3 - dom m) (m3, h3')" unfolding copied_def prod.case by blast
    moreover have "m \<subseteq>\<^sub>m m3" using m12 m23 None by (auto simp: map_le_def dom_def)
    moreover have "\<forall>c\<in>ran m. nh_node h3' c = nh_node h c" using cl3 cnew by (auto simp: clones_def nodes1)
    ultimately have "clones h0 N (ran m) (m, h) (m3, h3')" using cl3 nodes1(2) by (auto simp: clones_def)
    then show ?thesis using run m3n by (auto simp: s)
  qed
qed

section \<open>Cloning an expression\<close>

lemma arcs_image: "(u, c) \<in> arcs_of (image_node m x) \<longleftrightarrow> (\<exists>k. (u, k) \<in> arcs_of x \<and> m k = Some c)"
  by (auto simp: arcs_of_def image_node_def bind_eq_Some_conv elem_set)

lemma acc_image:
  assumes arcs: "\<And>n c u d. m n = Some c \<Longrightarrow> arc h' c u d \<longleftrightarrow> (\<exists>k. arc h n u k \<and> m k = Some d)"
    and closed: "\<And>n u k. n \<in> dom m \<Longrightarrow> arc h n u k \<Longrightarrow> k \<in> dom m" and inj: "inj_on m (dom m)" and b: "m a = Some b"
  shows "m n = Some c \<Longrightarrow> acc h' b c w = acc h a n w"
proof
  show "acc h' b c w \<Longrightarrow> m n = Some c \<Longrightarrow> acc h a n w"
  proof (induction arbitrary: n rule: acc.induct)
    case here
    with inj b have "n = a" by (metis domI inj_onD)
    then show ?case by (simp add: acc.here)
  next
    case (step c u d w)
    then show ?case using arcs by (blast intro: acc.step)
  qed
  show "acc h a n w \<Longrightarrow> m n = Some c \<Longrightarrow> acc h' b c w"
  proof (induction arbitrary: c rule: acc.induct)
    case here
    with b show ?case by (simp add: acc.here)
  next
    case (step n u k w)
    then obtain d where "m k = Some d" using closed by blast
    with step arcs show ?case by (blast intro: acc.step)
  qed
qed

lemma expr_clone_yields:
  assumes ok: "heap_ok h" and E: "frag h e N"
  shows "\<exists>e' h' N'. expr_clone e h = Some (e', h') \<and> yields h {} h' e' N' (lang h e)"
proof -
  from E obtain s a where e: "e = \<lparr>ex_accept = Some a, ex_start = Some s\<rparr>" "s \<in> N" "a \<in> N" "s \<noteq> a" "finite N"
    and node: "\<And>n. n \<in> N \<Longrightarrow> \<exists>x. nh_node h n = Some x"
    and next_in: "\<And>n x. n \<in> N \<Longrightarrow> nh_node h n = Some x \<Longrightarrow> succs x \<subseteq> N - {s}"
    and fin: "\<And>x. nh_node h a = Some x \<Longrightarrow> nd_edge x = edge_accept \<and> nd_next1 x = None \<and> nd_next2 x = None"
    and inner: "\<And>n x. n \<in> N \<Longrightarrow> n \<noteq> a \<Longrightarrow> nh_node h n = Some x \<Longrightarrow> nd_next1 x \<noteq> None \<and> nd_edge x \<noteq> edge_accept"
    unfolding succs_def by (elim fragE) blast
  have closed: "\<exists>x. nh_node h n = Some x \<and> succs x \<subseteq> N" if "n \<in> N" for n
    using node [OF that] next_in [OF that] by blast
  have less: "N \<subseteq> {..<nh_next h}" using frag_less [OF E ok] by blast
  have s0: "cloning h N (Map.empty, h)" using ok by (simp add: cloning_def)
  obtain ca m1 h1 where c1: "node_clone a (Map.empty, h) = Some (ca, m1, h1)"
      "clones h N (ran Map.empty) (Map.empty, h) (m1, h1)" "m1 a = Some ca"
    using node_clone_clones [OF closed e(5) less s0 e(3)] by fastforce
  obtain cs m h' where c2: "node_clone s (m1, h1) = Some (cs, m, h')"
      "clones h N (ran m1) (m1, h1) (m, h')" "m s = Some cs"
  proof -
    have "cloning h N (m1, h1)" using c1(2) by (simp add: clones_def)
    from node_clone_clones [OF closed e(5) less this e(2)] that show thesis by fastforce
  qed
  have "clones h N {} (Map.empty, h) (m1, h1)" using c1(2) by (simp add: clones_def)
  from clones_trans [OF this] c2(2) have "clones h N {} (Map.empty, h) (m, h')" by simp
  then have cl: "cloning h N (m, h')" "nh_next h \<le> nh_next h'" "copied h (dom m) (m, h')"
    by (simp_all add: clones_def)
  have "m1 \<subseteq>\<^sub>m m" using c2(2) by (simp add: clones_def)
  with c1(3) have ma: "m a = Some ca" by (metis domI map_le_def)
  have inj: "inj_on m (dom m)" and dom: "dom m \<subseteq> N" using cl(1) by (simp_all add: cloning_def)
  have ne: "cs \<noteq> ca" using inj_onD [OF inj, of s a] ma c2(3) e(4) by auto
  let ?e = "\<lparr>ex_accept = Some ca, ex_start = Some cs\<rparr>"
  have "frag h' ?e (ran m)"
  proof (rule fragI)
    fix c assume "c \<in> ran m"
    then obtain n where n: "m n = Some c" by (auto simp: ran_def)
    with cl(3) obtain x where x: "nh_node h n = Some x" "succs x \<subseteq> dom m" "nh_node h' c = Some (image_node m x)"
      by (auto elim: copiedD)
    have nN: "n \<in> N" using n dom by blast
    have "k \<in> ran m \<and> k \<noteq> cs" if k: "k \<in> succs (image_node m x)" for k
    proof -
      obtain j where j: "j \<in> succs x" "m j = Some k"
        using k by (auto simp: succs_def image_node_def bind_eq_Some_conv)
      moreover have "j \<noteq> s" using next_in [OF nN x(1)] j(1) by blast
      ultimately show ?thesis using inj_onD [OF inj, of j s] c2(3) by (auto simp: ran_def)
    qed
    moreover have "c = ca \<longleftrightarrow> n = a" using inj_onD [OF inj, of n a] n ma by auto
    moreover have "nd_next1 x \<noteq> None \<Longrightarrow> Option.bind (nd_next1 x) m \<noteq> None"
      using x(2) by (auto simp: succs_def dom_def)
    ultimately show "\<exists>x. nh_node h' c = Some x \<and> set_option (nd_next1 x) \<union> set_option (nd_next2 x) \<subseteq> ran m - {cs}
        \<and> (if c = ca then nd_edge x = edge_accept \<and> nd_next1 x = None \<and> nd_next2 x = None
           else nd_next1 x \<noteq> None \<and> nd_edge x \<noteq> edge_accept)"
      using x(1,3) fin [of x] inner [OF nN _ x(1)]
      by (intro exI [of _ "image_node m x"]) (auto simp: image_node_def succs_def)
  next
    show "finite (ran m)" using finite_subset [OF dom e(5)] by (rule finite_ran)
    show "cs \<in> ran m" "ca \<in> ran m" using ma c2(3) by (auto simp: ran_def)
  qed (rule ne)
  moreover have "lang h' ?e = lang h e"
  proof -
    have arcs: "arc h' c u d \<longleftrightarrow> (\<exists>k. arc h n u k \<and> m k = Some d)" if "m n = Some c" for n c u d
    proof -
      have "n \<in> dom m" using that by blast
      with cl(3) obtain x c' where "nh_node h n = Some x" "m n = Some c'" "nh_node h' c' = Some (image_node m x)"
        by (rule copiedD)
      with that have "nh_node h n = Some x" "nh_node h' c = Some (image_node m x)" by simp_all
      then show ?thesis by (simp add: arc_iff arcs_image)
    qed
    have "k \<in> dom m" if "n \<in> dom m" "arc h n u k" for n u k
    proof -
      from cl(3) that(1) obtain x where x: "nh_node h n = Some x" "succs x \<subseteq> dom m" by (rule copiedD)
      with that(2) arcs_next [of u k x] show ?thesis by (auto simp: arc_iff succs_def)
    qed
    from acc_image [OF arcs this inj ma c2(3)] show ?thesis by (auto simp: lang_def e(1))
  qed
  ultimately show ?thesis
    using cl c1(1) c2(1) e(1)
    by (intro exI [of _ ?e] exI [of _ h'] exI [of _ "ran m"])
      (auto simp: yields_def expr_clone_def expr_copy_def expr_empty_def cloning_def)
qed

end
