(* ===== verification/Nfa_Regex.thy ===== *)
theory Nfa_Regex
  imports Nfa_Clone
begin

text \<open>
  The operations of the class \<open>nfa_expr\<close> against the regular expressions they stand for: counted
  repetition, character classes, strings, and freeing an expression. An expression is identified
  with the fragment of the heap it owns.
\<close>

section \<open>Owning\<close>

lemma yields_mono: "yields h N h' e N' L \<Longrightarrow> N \<subseteq> M \<Longrightarrow> yields h M h' e N' L"
  unfolding yields_def by blast

lemma yields_frag: "yields h N h' e N' L \<Longrightarrow> frag h' e N' \<and> heap_ok h' \<and> lang h' e = L"
  by (simp add: yields_def)

lemma yields_new: "yields h {} h' e N' L \<Longrightarrow> heap_ok h \<Longrightarrow> frag h f M \<Longrightarrow> M \<inter> N' = {}"
  by (rule yields_other(3)) auto

lemma cat_expr_yields:
  assumes "heap_ok h" "frag h A NA" "frag h B NB"
  shows "\<exists>e h' N. cat_expr A B h = Some (e, h') \<and> yields h NA h' e N (conc (lang h A) (lang h B))"
proof -
  obtain e1 h1 N1 where 1: "expr_clone B h = Some (e1, h1)" "yields h {} h1 e1 N1 (lang h B)"
    using expr_clone_yields [OF assms(1,3)] by blast
  note A = yields_other [OF 1(2) assms(1,2), simplified]
  obtain e h' N where 2: "cat_expr_abs A e1 h1 = Some (e, h')" "yields h1 (NA \<union> N1) h' e N (conc (lang h A) (lang h B))"
    using cat_yields [of h1 A NA e1 N1] A yields_frag [OF 1(2)] by auto
  have "NA \<union> N1 \<subseteq> NA \<union> {nh_next h..}" using 1(2) by (auto simp: yields_def)
  from yields_trans [OF yields_mono [OF 1(2)] 2(2) this] have "yields h NA h' e N (conc (lang h A) (lang h B))" by simp
  with 1(1) 2(1) frag_nonempty [OF assms(3)] show ?thesis by (auto simp: cat_expr_def)
qed

lemma or_expr_yields:
  assumes "heap_ok h" "frag h A NA" "frag h B NB"
  shows "\<exists>e h' N. or_expr A B h = Some (e, h') \<and> yields h NA h' e N (lang h A \<union> lang h B)"
proof -
  obtain e1 h1 N1 where 1: "expr_clone B h = Some (e1, h1)" "yields h {} h1 e1 N1 (lang h B)"
    using expr_clone_yields [OF assms(1,3)] by blast
  note A = yields_other [OF 1(2) assms(1,2), simplified]
  obtain e h' N where 2: "or_expr_abs A e1 h1 = Some (e, h')" "yields h1 (NA \<union> N1) h' e N (lang h A \<union> lang h B)"
    using or_yields [of h1 A NA e1 N1] A yields_frag [OF 1(2)] by auto
  have "NA \<union> N1 \<subseteq> NA \<union> {nh_next h..}" using 1(2) by (auto simp: yields_def)
  from yields_trans [OF yields_mono [OF 1(2)] 2(2) this] have "yields h NA h' e N (lang h A \<union> lang h B)" by simp
  with 1(1) 2(1) frag_nonempty [OF assms(3)] show ?thesis by (auto simp: or_expr_def)
qed

lemma optional_yields:
  assumes "heap_ok h" "frag h A NA"
  shows "\<exists>e h' N. expr_optional A h = Some (e, h') \<and> yields h NA h' e N (insert [] (lang h A))"
proof -
  obtain e1 h1 where 1: "expr_of_edge edge_epsilon h = (e1, h1)" by fastforce
  from expr_of_edge_eps [OF assms(1) 1] obtain N1 where y: "yields h {} h1 e1 N1 {[]}" by blast
  note A = yields_other [OF y assms, simplified]
  obtain e h' N where 2: "or_expr_abs A e1 h1 = Some (e, h')" "yields h1 (NA \<union> N1) h' e N (lang h A \<union> {[]})"
    using or_yields [of h1 A NA e1 N1] A yields_frag [OF y] by auto
  have "NA \<union> N1 \<subseteq> NA \<union> {nh_next h..}" using y by (auto simp: yields_def)
  from yields_trans [OF yields_mono [OF y] 2(2) this] have "yields h NA h' e N (insert [] (lang h A))" by simp
  with 1 2(1) show ?thesis by (auto simp: expr_optional_def)
qed

lemma plus_yields:
  assumes "heap_ok h" "frag h A NA"
  shows "\<exists>e h' N. expr_plus A h = Some (e, h') \<and> yields h NA h' e N (conc (lang h A) (lstar (lang h A)))"
proof -
  obtain e1 h1 N1 where 1: "expr_clone A h = Some (e1, h1)" "yields h {} h1 e1 N1 (lang h A)"
    using expr_clone_yields [OF assms] by blast
  obtain e2 h2 N2 where 2: "expr_star e1 h1 = Some (e2, h2)" "yields h1 N1 h2 e2 N2 (lstar (lang h A))"
    using star_yields [of h1 e1 N1] yields_frag [OF 1(2)] by auto
  have y: "yields h {} h2 e2 N2 (lstar (lang h A))"
    using 1(2) by (intro yields_trans [OF 1(2) 2(2)]) (simp add: yields_def)
  note A = yields_other [OF y assms, simplified]
  obtain e h' N where 3: "cat_expr_abs A e2 h2 = Some (e, h')" "yields h2 (NA \<union> N2) h' e N (conc (lang h A) (lstar (lang h A)))"
    using cat_yields [of h2 A NA e2 N2] A yields_frag [OF y] by auto
  have "NA \<union> N2 \<subseteq> NA \<union> {nh_next h..}" using y by (auto simp: yields_def)
  from yields_trans [OF yields_mono [OF y] 3(2) this] 1(1) 2(1) 3(1) show ?thesis by (auto simp: expr_plus_def)
qed

section \<open>Freeing\<close>

definition ptr :: "nfa_heap \<Rightarrow> (nat \<times> nat) set" where
  "ptr h = {(n, k). \<exists>x. nh_node h n = Some x \<and> k \<in> succs x}"

lemma nodes_loop_reach:
  assumes closed: "\<And>n. n \<in> N \<Longrightarrow> \<exists>x. nh_node h n = Some x \<and> succs x \<subseteq> N" and N: "finite N"
  shows "set stack \<subseteq> N \<Longrightarrow> V \<subseteq> N \<Longrightarrow> ptr h `` V \<subseteq> V \<union> set stack \<Longrightarrow>
    \<exists>M. nodes_loop h stack V = Some M \<and> V \<union> set stack \<subseteq> M \<and> M \<subseteq> N \<and> ptr h `` M \<subseteq> M \<and> M \<subseteq> (ptr h)\<^sup>* `` (V \<union> set stack)"
proof (induction "(card (N - V), length stack)" arbitrary: stack V rule: wf_induct_rule [OF wf_lex_prod [OF wf_less_than wf_less_than]])
  case 1
  show ?case
  proof (cases stack)
    case Nil
    with 1(2-) show ?thesis by (subst nodes_loop.simps) auto
  next
    case (Cons t ts)
    show ?thesis
    proof (cases "t \<in> V")
      case True
      have "\<exists>M. nodes_loop h ts V = Some M \<and> V \<union> set ts \<subseteq> M \<and> M \<subseteq> N \<and> ptr h `` M \<subseteq> M \<and> M \<subseteq> (ptr h)\<^sup>* `` (V \<union> set ts)"
        using 1(2-) True Cons by (intro 1(1)) auto
      with True Cons show ?thesis by (subst nodes_loop.simps) (auto simp: insert_absorb)
    next
      case False
      have t: "t \<in> N" using 1(2) Cons by simp
      obtain x where x: "nh_node h t = Some x" "succs x \<subseteq> N" using closed [OF t] by blast
      let ?ts = "(case nd_next2 x of Some k \<Rightarrow> Cons k | None \<Rightarrow> id) ((case nd_next1 x of Some k \<Rightarrow> Cons k | None \<Rightarrow> id) ts)"
      have ts: "set ?ts = succs x \<union> set ts" by (auto simp: succs_def split: option.splits)
      have run: "nodes_loop h stack V = nodes_loop h ?ts (insert t V)"
        using False x(1) Cons by (subst nodes_loop.simps) (simp add: Let_def split: option.split)
      have "N - insert t V \<subset> N - V" using t False by blast
      then have "card (N - insert t V) < card (N - V)" by (intro psubset_card_mono) (use N in auto)
      moreover have "ptr h `` insert t V \<subseteq> insert t V \<union> set ?ts"
        using 1(4) Cons x(1) unfolding ts by (auto simp: ptr_def)
      ultimately have "\<exists>M. nodes_loop h ?ts (insert t V) = Some M \<and> insert t V \<union> set ?ts \<subseteq> M \<and> M \<subseteq> N \<and> ptr h `` M \<subseteq> M
          \<and> M \<subseteq> (ptr h)\<^sup>* `` (insert t V \<union> set ?ts)"
        using 1(2,3) Cons x(2) t by (intro 1(1)) (auto simp: ts)
      then obtain M where M: "nodes_loop h stack V = Some M" "insert t V \<union> set ?ts \<subseteq> M" "M \<subseteq> N" "ptr h `` M \<subseteq> M"
          "M \<subseteq> (ptr h)\<^sup>* `` (insert t V \<union> set ?ts)" unfolding run by blast
      have "(ptr h)\<^sup>* `` succs x \<subseteq> (ptr h)\<^sup>* `` {t}"
        using x(1) by (auto simp: ptr_def intro: converse_rtrancl_into_rtrancl)
      then have "M \<subseteq> (ptr h)\<^sup>* `` (V \<union> set stack)" using M(5) unfolding ts Cons by (auto simp: Image_Un) blast
      with M Cons ts show ?thesis by auto
    qed
  qed
qed

lemma delete_nodes:
  "heap_ok h \<Longrightarrow> distinct ns \<Longrightarrow> set ns \<subseteq> dom (nh_node h) \<Longrightarrow>
   \<exists>h'. foldm delete_node ns h = Some h' \<and> heap_ok h' \<and> nh_next h' = nh_next h
     \<and> nh_node h' = (nh_node h) |` (- set ns)"
proof (induction ns arbitrary: h)
  case (Cons n ns)
  then obtain h1 where h1: "delete_node n h = Some h1" "nh_node h1 = (nh_node h)(n := None)" "nh_next h1 = nh_next h"
    by (auto simp: delete_node_def)
  have "set ns \<subseteq> dom (nh_node h1)" using Cons.prems h1(2) by auto
  then obtain h' where "foldm delete_node ns h1 = Some h'" "heap_ok h'" "nh_next h' = nh_next h1"
      "nh_node h' = (nh_node h1) |` (- set ns)"
    using Cons.IH heap_ok_delete [OF Cons.prems(1) h1(1)] Cons.prems(2) by auto
  then show ?case using h1 by (auto simp: restrict_map_def fun_eq_iff)
qed (simp add: restrict_map_def)

lemma free_frag:
  assumes "heap_ok h" "frag h e N"
  shows "\<exists>h' M. expr_free e h = Some (empty_expr, h') \<and> get_expr_nodes e h = Some M \<and> M \<subseteq> N \<and> heap_ok h'
    \<and> nh_next h' = nh_next h \<and> nh_node h' = (nh_node h) |` (- M)"
proof -
  from assms(2) obtain s a where e: "e = \<lparr>ex_accept = Some a, ex_start = Some s\<rparr>" "s \<in> N" "finite N"
    and n: "\<And>n. n \<in> N \<Longrightarrow> \<exists>x. nh_node h n = Some x" "\<And>n x. n \<in> N \<Longrightarrow> nh_node h n = Some x \<Longrightarrow> succs x \<subseteq> N"
    unfolding succs_def by (elim fragE) blast
  obtain M where M: "nodes_loop h [s] {} = Some M" "M \<subseteq> N"
  proof -
    have "\<exists>x. nh_node h n = Some x \<and> succs x \<subseteq> N" if "n \<in> N" for n using n that by blast
    from nodes_loop_reach [OF this e(3), of "[s]" "{}"] e(2) that show thesis by auto
  qed
  have "set (sorted_list_of_set M) \<subseteq> dom (nh_node h)" using M(2) n(1) finite_subset [OF M(2) e(3)] by auto
  with delete_nodes [OF assms(1), of "sorted_list_of_set M"] M e show ?thesis
    using finite_subset [OF M(2) e(3)] by (auto simp: expr_free_def get_expr_nodes_def)
qed

section \<open>Powers and counted repetition\<close>

lemma copies_yields:
  "heap_ok h \<Longrightarrow> frag h org NO \<Longrightarrow> frag h A NA \<Longrightarrow> NO \<inter> NA = {} \<Longrightarrow>
   \<exists>e h' N. cat_copies i org A h = Some (e, h') \<and> yields h NA h' e N (conc (lang h A) (lpow (lang h org) i))"
proof (induction i arbitrary: A NA h)
  case 0
  then show ?case by (auto simp: yields_def)
next
  case (Suc i)
  obtain e1 h1 N1 where 1: "expr_clone org h = Some (e1, h1)" "yields h {} h1 e1 N1 (lang h org)"
    using expr_clone_yields [OF Suc.prems(1,2)] by blast
  note O = yields_other [OF 1(2) Suc.prems(1,2), simplified]
  note A = yields_other [OF 1(2) Suc.prems(1,3), simplified]
  obtain e2 h2 N2 where 2: "cat_expr_abs A e1 h1 = Some (e2, h2)" "yields h1 (NA \<union> N1) h2 e2 N2 (conc (lang h A) (lang h org))"
    using cat_yields [of h1 A NA e1 N1] A yields_frag [OF 1(2)] by auto
  have sub: "NA \<union> N1 \<subseteq> NA \<union> {nh_next h..}" using 1(2) by (auto simp: yields_def)
  note y2 = yields_trans [OF yields_mono [OF 1(2)] 2(2) sub, simplified]
  note O2 = yields_other [OF y2 Suc.prems(1,2,4)]
  obtain e h' N where 3: "cat_copies i org e2 h2 = Some (e, h')"
      "yields h2 N2 h' e N (conc (conc (lang h A) (lang h org)) (lpow (lang h org) i))"
    using Suc.IH [of h2 e2 N2] O2 yields_frag [OF y2] by auto
  have "N2 \<subseteq> NA \<union> {nh_next h..}" using y2 by (simp add: yields_def)
  from yields_trans [OF y2 3(2) this] 1(1) 2(1) 3(1) show ?case by (auto simp: conc_assoc)
qed

lemma power_yields:
  assumes "heap_ok h" "frag h A NA" "0 \<le> n"
  shows "\<exists>e h' N. expr_power A n h = Some (e, h') \<and> yields h NA h' e N (lpow (lang h A) (nat (min n repeat_limit)))"
proof -
  have s: "ex_start A \<noteq> None" using frag_nonempty [OF assms(2)] by (simp add: expr_empty_def)
  consider "n = 0" | "n = 1" | "1 < n" using assms(3) by linarith
  then show ?thesis
  proof cases
    case 1
    obtain h1 M where f: "expr_free A h = Some (empty_expr, h1)" "M \<subseteq> NA" "heap_ok h1" "nh_next h1 = nh_next h"
        "nh_node h1 = (nh_node h) |` (- M)" using free_frag [OF assms(1,2)] by blast
    obtain e h' where e: "expr_of_edge edge_epsilon h1 = (e, h')" by fastforce
    from expr_of_edge_eps [OF f(3) e] obtain N where y: "yields h1 {} h' e N {[]}" by blast
    then have "yields h NA h' e N {[]}" using f(2,4,5) by (auto simp: yields_def restrict_map_def)
    with s 1 f(1) e show ?thesis by (auto simp: expr_power_def repeat_limit_def)
  next
    case 2
    with s assms show ?thesis
      by (auto simp: expr_power_def repeat_limit_def yields_def)
  next
    case 3
    define k where "k = nat (min n repeat_limit - 2)"
    have k: "nat (min n repeat_limit) = Suc (Suc k)" using 3 by (simp add: k_def repeat_limit_def)
    obtain org h1 N1 where 1: "expr_clone A h = Some (org, h1)" "yields h {} h1 org N1 (lang h A)"
      using expr_clone_yields [OF assms(1,2)] by blast
    note A = yields_other [OF 1(2) assms(1,2), simplified]
    obtain e2 h2 N2 where 2: "cat_copies k org A h1 = Some (e2, h2)" "yields h1 NA h2 e2 N2 (conc (lang h A) (lpow (lang h A) k))"
      using copies_yields [of h1 org N1 A NA k] A yields_frag [OF 1(2)] by (auto simp: Int_commute)
    note O = yields_other [OF 2(2), of org N1] 
    have org: "frag h2 org N1" "lang h2 org = lang h A" "N1 \<inter> N2 = {}"
      using O yields_frag [OF 1(2)] A(3) by (auto simp: Int_commute)
    obtain e h' N where 3: "cat_expr_abs e2 org h2 = Some (e, h')"
        "yields h2 (N2 \<union> N1) h' e N (conc (conc (lang h A) (lpow (lang h A) k)) (lang h A))"
      using cat_yields [of h2 e2 N2 org N1] yields_frag [OF 2(2)] org by (auto simp: Int_commute)
    note y2 = yields_trans [OF yields_mono [OF 1(2)] 2(2), of NA, simplified]
    have "N2 \<union> N1 \<subseteq> NA \<union> {nh_next h..}" using 1(2) y2 by (auto simp: yields_def)
    from yields_trans [OF y2 3(2) this]
    have "yields h NA h' e N (lpow (lang h A) (Suc (Suc k)))"
      by (simp add: conc_assoc lpow_Suc_right [symmetric] del: lpow.simps(2)) (simp add: conc_assoc)
    with s \<open>1 < n\<close> 1(1) 2(1) 3(1) k show ?thesis
      by (auto simp: expr_power_def Let_def k_def simp del: lpow.simps)
  qed
qed

lemma lpow_optional: "lpow (insert [] A) j = (\<Union>k\<le>j. lpow A k)"
proof (induction j)
  case (Suc j)
  have "lpow (insert [] A) (Suc j) = (\<Union>k\<le>j. lpow A k) \<union> (\<Union>k\<le>j. lpow A (Suc k))"
    by (auto simp: Suc.IH conc_def)
  also have "\<dots> = (\<Union>k\<le>Suc j. lpow A k)"
  proof (intro set_eqI iffI)
    fix w assume "w \<in> (\<Union>k\<le>Suc j. lpow A k)"
    then obtain k where "k \<le> Suc j" "w \<in> lpow A k" by blast
    then show "w \<in> (\<Union>k\<le>j. lpow A k) \<union> (\<Union>k\<le>j. lpow A (Suc k))"
      by (cases k) (auto intro: bexI [of _ 0])
  qed (auto intro: le_SucI, metis Suc_le_mono atMost_iff lpow.simps(2))
  finally show ?case .
qed simp

lemma conc_pow_Un: "conc (lpow A n) (\<Union>k\<le>j. lpow A k) = (\<Union>k\<in>{n..n + j}. lpow A k)"
proof -
  have "conc (lpow A n) (\<Union>k\<le>j. lpow A k) = (\<Union>k\<le>j. lpow A (n + k))"
    by (auto simp: lpow_add conc_def)
  also have "\<dots> = (\<Union>k\<in>(\<lambda>k. n + k) ` {..j}. lpow A k)" by auto
  also have "(\<lambda>k. n + k) ` {..j} = {n..n + j}"
    by (auto simp: image_iff) (metis add.commute le_add_diff_inverse nat_le_iff_add add_le_cancel_left atMost_iff)
  finally show ?thesis .
qed

text \<open>
  C21: when \<open>0 \<le> n \<le> m\<close> and \<open>m\<close> does not exceed the limit of 1024, at which the code cuts larger counts,
  \<open>expr{n, m}\<close> matches between \<open>n\<close> and \<open>m\<close> matches of the expression in a row, on nodes of its own and
  new ones.
\<close>

theorem repeat_counts:
  assumes "heap_ok h" "frag h A NA" "0 \<le> n" "n \<le> m" "m \<le> repeat_limit"
  shows "\<exists>e h' N. expr_repeat A n m h = Some (e, h') \<and> yields h NA h' e N (\<Union>k\<in>{nat n..nat m}. lpow (lang h A) k)"
proof -
  have s: "ex_start A \<noteq> None" using frag_nonempty [OF assms(2)] by (simp add: expr_empty_def)
  consider "n = m" | "n = 0" "n < m" | "0 < n" "n < m" using assms(3,4) by linarith
  then show ?thesis
  proof cases
    case 1
    with power_yields [OF assms(1-3)] assms(5) s show ?thesis by (auto simp: expr_repeat_def)
  next
    case 2
    obtain e1 h1 N1 where o: "expr_optional A h = Some (e1, h1)" "yields h NA h1 e1 N1 (insert [] (lang h A))"
      using optional_yields [OF assms(1,2)] by blast
    have L: "lpow (insert [] (lang h A)) (nat m) = (\<Union>k\<in>{nat n..nat m}. lpow (lang h A) k)"
      using 2 by (simp add: lpow_optional atLeast0AtMost)
    show ?thesis
    proof (cases "1 < m")
      case True
      obtain e h' N where p: "expr_power e1 m h1 = Some (e, h')" "yields h1 N1 h' e N (lpow (insert [] (lang h A)) (nat m))"
        using power_yields [of h1 e1 N1 m] yields_frag [OF o(2)] 2 assms(5) by auto
      have "N1 \<subseteq> NA \<union> {nh_next h..}" using o(2) by (simp add: yields_def)
      from yields_trans [OF o(2) p(2) this] o(1) p(1) 2 True s L show ?thesis by (auto simp: expr_repeat_def)
    next
      case False
      with 2 have "nat m = Suc 0" by simp
      with L o 2 False s show ?thesis by (auto simp: expr_repeat_def)
    qed
  next
    case 3
    obtain e1 h1 N1 where c: "expr_clone A h = Some (e1, h1)" "yields h {} h1 e1 N1 (lang h A)"
      using expr_clone_yields [OF assms(1,2)] by blast
    note A = yields_other [OF c(2) assms(1,2), simplified]
    obtain e2 h2 N2 where p: "expr_power A n h1 = Some (e2, h2)" "yields h1 NA h2 e2 N2 (lpow (lang h A) (nat n))"
      using power_yields [of h1 A NA n] A yields_frag [OF c(2)] 3 assms(5) by auto
    have e1: "frag h2 e1 N1" "lang h2 e1 = lang h A" "N1 \<inter> N2 = {}"
      using yields_other [OF p(2), of e1 N1] yields_frag [OF c(2)] A(3) by (auto simp: Int_commute)
    obtain e3 h3 N3 where o: "expr_optional e1 h2 = Some (e3, h3)" "yields h2 N1 h3 e3 N3 (insert [] (lang h A))"
      using optional_yields [of h2 e1 N1] yields_frag [OF p(2)] e1 by auto
    obtain e4 h4 N4 where q: "expr_power e3 (m - n) h3 = Some (e4, h4)"
        "yields h3 N3 h4 e4 N4 (lpow (insert [] (lang h A)) (nat (m - n)))"
      using power_yields [of h3 e3 N3 "m - n"] yields_frag [OF o(2)] 3 assms(5) by auto
    have "N3 \<subseteq> N1 \<union> {nh_next h2..}" using o(2) by (simp add: yields_def)
    note y4 = yields_trans [OF o(2) q(2) this]
    have e2: "frag h4 e2 N2" "lang h4 e2 = lpow (lang h A) (nat n)" "N2 \<inter> N4 = {}"
      using yields_other [OF y4, of e2 N2] yields_frag [OF p(2)] e1(3) by (auto simp: Int_commute)
    obtain e h' N where r: "cat_expr_abs e2 e4 h4 = Some (e, h')"
        "yields h4 (N2 \<union> N4) h' e N (conc (lpow (lang h A) (nat n)) (lpow (insert [] (lang h A)) (nat (m - n))))"
      using cat_yields [of h4 e2 N2 e4 N4] yields_frag [OF y4] e2 by auto
    have L: "conc (lpow (lang h A) (nat n)) (lpow (insert [] (lang h A)) (nat (m - n))) = (\<Union>k\<in>{nat n..nat m}. lpow (lang h A) k)"
      using 3 by (simp add: lpow_optional conc_pow_Un nat_diff_distrib)
    note y2 = yields_trans [OF yields_mono [OF c(2)] p(2), of NA, simplified]
    have sub: "N1 \<subseteq> NA \<union> {nh_next h..}" "N2 \<subseteq> NA \<union> {nh_next h..}" using c(2) y2 by (auto simp: yields_def)
    note y = yields_trans [OF y2 y4 sub(1)]
    then have "N4 \<subseteq> NA \<union> {nh_next h..}" by (simp add: yields_def)
    with sub(2) have "N2 \<union> N4 \<subseteq> NA \<union> {nh_next h..}" by blast
    from yields_trans [OF y r(2) [unfolded L] this]
    have "yields h NA h' e N (\<Union>k\<in>{nat n..nat m}. lpow (lang h A) k)" .
    moreover have "expr_repeat A n m h = Some (e, h')"
      using s 3 c(1) p(1) o(1) q(1) r(1) by (auto simp: expr_repeat_def)
    ultimately show ?thesis by blast
  qed
qed

definition empty_heap :: nfa_heap where
  "empty_heap = \<lparr>nh_node = Map.empty, nh_next = 0, nh_count = 0\<rparr>"

lemma heap_ok_empty [simp]: "heap_ok empty_heap"
  by (simp add: heap_ok_def empty_heap_def)

theorem repeat_counts_witness:
  "\<exists>p. expr_repeat (fst (expr_of_edge (uchar CHR ''a'') empty_heap)) 2 3 (snd (expr_of_edge (uchar CHR ''a'') empty_heap)) = Some p
    \<and> ''aaa'' \<in> lang (snd p) (fst p) \<and> ''a'' \<notin> lang (snd p) (fst p)"
proof -
  obtain A h where A: "expr_of_edge (uchar CHR ''a'') empty_heap = (A, h)" by fastforce
  from expr_of_edge_char [OF heap_ok_empty A] obtain N where "yields empty_heap {} h A N {''a''}" by blast
  from yields_frag [OF this] have h: "heap_ok h" "frag h A N" "lang h A = {''a''}" by simp_all
  obtain e h' M where r: "expr_repeat A 2 3 h = Some (e, h')" "yields h N h' e M (\<Union>k\<in>{nat 2..nat 3}. lpow {''a''} k)"
    using repeat_counts [OF h(1,2), of 2 3] by (auto simp: h(3) repeat_limit_def)
  have "{nat 2..nat 3} = {2, 3}" by auto
  with yields_frag [OF r(2)] have "lang h' e = {''aa'', ''aaa''}"
    by (simp add: numeral_2_eq_2 numeral_3_eq_3 conc_def insert_commute)
  with A r(1) show ?thesis by auto
qed

section \<open>Strings and character classes\<close>

text \<open>A chain behind the accept node of a fragment appends the string to its language.\<close>

lemma chain_yields:
  "heap_ok h \<Longrightarrow> frag h \<lparr>ex_accept = Some a, ex_start = Some b\<rparr> N \<Longrightarrow>
   \<exists>a' h' N'. chain s a h = Some (a', h') \<and> yields h N h' \<lparr>ex_accept = Some a', ex_start = Some b\<rparr> N'
      (conc (lang h \<lparr>ex_accept = Some a, ex_start = Some b\<rparr>) {s})"
proof (induction s arbitrary: a h N)
  case Nil
  then show ?case by (auto simp: yields_def)
next
  case (Cons c s)
  let ?e = "\<lparr>ex_accept = Some a, ex_start = Some b\<rparr>" and ?k = "nh_next h"
  from Cons.prems(2) have ab: "a \<in> N" "b \<in> N" "b \<noteq> a" "finite N"
    and arcs: "\<And>n u k. n \<in> N \<Longrightarrow> arc h n u k \<Longrightarrow> k \<in> N \<and> n \<noteq> a"
    and nodes: "\<And>n. n \<in> N \<Longrightarrow> \<exists>x. nh_node h n = Some x"
    by (auto elim: fragE)
  obtain y where y: "nh_node h a = Some y" using nodes ab(1) by blast
  have new: "?k \<notin> N" using frag_less [OF Cons.prems(2,1)] by blast
  define h1 where "h1 = snd (new_node edge_accept None None h)"
  have h1: "heap_ok h1" unfolding h1_def by (rule heap_ok_new [OF Cons.prems(1)])
  have node1: "nh_node h1 = (nh_node h)(?k \<mapsto> \<lparr>nd_edge = edge_accept, nd_next1 = None, nd_next2 = None, nd_anchor = 0\<rparr>)"
      "nh_next h1 = Suc ?k" by (simp_all add: h1_def new_node_def)
  define y' where "y' = y\<lparr>nd_edge := uchar c, nd_next1 := Some ?k, nd_next2 := None\<rparr>"
  have ne: "a \<noteq> ?k" using new ab by blast
  obtain h2 where h2: "set_transition a (uchar c) (Some ?k) None h1 = Some h2"
    using y ne by (auto simp: set_transition_def upd_node_def node1)
  have node2: "nh_node h2 = (nh_node h1)(a \<mapsto> y')" "nh_next h2 = Suc ?k"
    using h2 y new ab by (auto simp: set_transition_def upd_node_def node1 y'_def split: if_splits)
  have ok2: "heap_ok h2" using h1 h2 heap_ok_upd unfolding set_transition_def by blast
  have same: "nh_node h2 n = nh_node h n" if "n \<in> N - {a}" for n using that new node1 node2 by auto
  let ?e2 = "\<lparr>ex_accept = Some ?k, ex_start = Some b\<rparr>"
  have f2: "frag h2 ?e2 (insert ?k N)"
  proof (rule fragI)
    fix n assume "n \<in> insert ?k N"
    then consider "n = ?k" | "n = a" | "n \<in> N - {a}" by blast
    then show "\<exists>x. nh_node h2 n = Some x \<and> set_option (nd_next1 x) \<union> set_option (nd_next2 x) \<subseteq> insert ?k N - {b}
        \<and> (if n = ?k then nd_edge x = edge_accept \<and> nd_next1 x = None \<and> nd_next2 x = None
           else nd_next1 x \<noteq> None \<and> nd_edge x \<noteq> edge_accept)"
    proof cases
      case 3
      then have "nh_node h2 n = nh_node h n" "n \<in> N" "n \<noteq> a" "n \<noteq> ?k" using same new by auto
      with frag_node [OF Cons.prems(2)] obtain v where "nh_node h2 n = Some v"
        "set_option (nd_next1 v) \<union> set_option (nd_next2 v) \<subseteq> N - {b}" "nd_next1 v \<noteq> None \<and> nd_edge v \<noteq> edge_accept"
        by blast
      then show ?thesis using \<open>n \<noteq> ?k\<close> by (intro exI [of _ v]) auto
    qed (use ab new ne node1 node2 in \<open>auto simp: y'_def\<close>)
  qed (use ab new in auto)
  have "\<not> arc h2 ?k u k" for u k using ne by (auto simp: arc_iff arcs_of_def node1 node2)
  then have fin: "acc h2 ?k ?k w \<longleftrightarrow> w = []" for w by (subst acc_simps) blast
  have "arc h2 a u k \<longleftrightarrow> u = [c] \<and> k = ?k" for u k by (auto simp: arc_iff arcs_of_def node2 y'_def)
  then have "acc h2 ?k a w \<longleftrightarrow> w = [c]" for w using fin ne by (subst acc_simps) auto
  moreover have "acc h2 ?k b w \<longleftrightarrow> (\<exists>u v. w = u @ v \<and> acc h a b u \<and> acc h2 ?k a v)" for w
    using arcs same new ab(2) by (intro acc_exit [of N]) auto
  ultimately have L: "lang h2 ?e2 = conc (lang h ?e) {[c]}" by (auto simp: lang_def conc_def)
  obtain a' h' N' where IH: "chain s ?k h2 = Some (a', h')"
      "yields h2 (insert ?k N) h' \<lparr>ex_accept = Some a', ex_start = Some b\<rparr> N' (conc (conc (lang h ?e) {[c]}) {s})"
    using Cons.IH [OF ok2 f2] L by auto
  have "yields h N h2 ?e2 (insert ?k N) (lang h2 ?e2)"
    using ok2 f2 new node1 node2 ne ab(1) by (auto simp: yields_def)
  from yields_trans [OF this IH(2)]
  have "yields h N h' \<lparr>ex_accept = Some a', ex_start = Some b\<rparr> N' (conc (lang h ?e) {c # s})"
    by (auto simp: conc_assoc) (simp add: conc_def)
  with IH(1) h2 show ?case by (auto simp: Let_def split_beta h1_def) (auto simp: new_node_def)
qed

lemma expr_of_str_yields:
  assumes "heap_ok h" "s \<noteq> []"
  shows "\<exists>e h' N. expr_of_str s h = Some (e, h') \<and> yields h {} h' e N {s}"
proof -
  obtain c cs where s: "s = c # cs" using assms(2) by (cases s) auto
  let ?b = "nh_next h" and ?k = "Suc (nh_next h)"
  define h1 where "h1 = snd (new_node edge_accept None None (snd (new_node edge_accept None None h)))"
  have h1: "heap_ok h1" unfolding h1_def by (intro heap_ok_new assms(1))
  have node1: "nh_node h1 = (nh_node h)(?b \<mapsto> \<lparr>nd_edge = edge_accept, nd_next1 = None, nd_next2 = None, nd_anchor = 0\<rparr>,
      ?k \<mapsto> \<lparr>nd_edge = edge_accept, nd_next1 = None, nd_next2 = None, nd_anchor = 0\<rparr>)" "nh_next h1 = Suc ?k"
    by (simp_all add: h1_def new_node_def)
  obtain h2 where h2: "set_transition ?b (uchar c) (Some ?k) None h1 = Some h2"
    by (simp add: set_transition_def upd_node_def node1)
  have node2: "nh_node h2 = (nh_node h)(?b \<mapsto> \<lparr>nd_edge = uchar c, nd_next1 = Some ?k, nd_next2 = None, nd_anchor = 0\<rparr>,
      ?k \<mapsto> \<lparr>nd_edge = edge_accept, nd_next1 = None, nd_next2 = None, nd_anchor = 0\<rparr>)" "nh_next h2 = Suc ?k"
    using h2 by (auto simp: set_transition_def upd_node_def node1)
  have ok2: "heap_ok h2" using h1 h2 heap_ok_upd unfolding set_transition_def by blast
  let ?e = "\<lparr>ex_accept = Some ?k, ex_start = Some ?b\<rparr>"
  have f2: "frag h2 ?e {?b, ?k}" by (rule fragI) (auto simp: node2)
  have "\<not> arc h2 ?k u k" for u k by (auto simp: arc_iff arcs_of_def node2)
  then have "acc h2 ?k ?k w \<longleftrightarrow> w = []" for w by (subst acc_simps) blast
  moreover have "arc h2 ?b u k \<longleftrightarrow> u = [c] \<and> k = ?k" for u k by (auto simp: arc_iff arcs_of_def node2)
  ultimately have "acc h2 ?k ?b w \<longleftrightarrow> w = [c]" for w by (subst acc_simps) auto
  then have L: "lang h2 ?e = {[c]}" by (simp add: lang_def)
  from chain_yields [OF ok2 f2, of cs] L obtain a' h' N where
      ch: "chain cs ?k h2 = Some (a', h')" "yields h2 {?b, ?k} h' \<lparr>ex_accept = Some a', ex_start = Some ?b\<rparr> N {s}"
    by (auto simp: conc_def s)
  have "yields h {} h2 ?e {?b, ?k} {[c]}" using ok2 f2 L node2 by (auto simp: yields_def)
  from yields_trans [OF this ch(2)] have "yields h {} h' \<lparr>ex_accept = Some a', ex_start = Some ?b\<rparr> N {s}" by simp
  moreover have "chain s ?b (snd (new_node edge_accept None None h)) = Some (a', h')"
    using h2 ch(1) by (simp add: s Let_def split_beta h1_def) (simp add: new_node_def)
  then have "expr_of_str s h = Some (\<lparr>ex_accept = Some a', ex_start = Some ?b\<rparr>, h')"
    using assms(2) by (simp add: expr_of_str_def cat_str_def Let_def split_beta cat_expr_abs_def expr_empty_def empty_expr_def)
      (simp add: new_node_def)
  ultimately show ?thesis by blast
qed

lemma or_char_yields:
  assumes "heap_ok h" "frag h A NA"
  shows "\<exists>e h' N. or_char A c h = Some (e, h') \<and> yields h NA h' e N (insert [c] (lang h A))"
proof -
  obtain e1 h1 where 1: "expr_of_edge (uchar c) h = (e1, h1)" by fastforce
  from expr_of_edge_char [OF assms(1) 1] obtain N1 where y: "yields h {} h1 e1 N1 {[c]}" by blast
  note A = yields_other [OF y assms, simplified]
  obtain e h' N where 2: "or_expr_abs A e1 h1 = Some (e, h')" "yields h1 (NA \<union> N1) h' e N (lang h A \<union> {[c]})"
    using or_yields [of h1 A NA e1 N1] A yields_frag [OF y] by auto
  have "NA \<union> N1 \<subseteq> NA \<union> {nh_next h..}" using y by (auto simp: yields_def)
  from yields_trans [OF yields_mono [OF y] 2(2) this] have "yields h NA h' e N (insert [c] (lang h A))" by simp
  with 1 2(1) show ?thesis by (auto simp: or_char_def)
qed

lemma or_chars_yields:
  "heap_ok h \<Longrightarrow> frag h A NA \<Longrightarrow>
   \<exists>e h' N. foldm (\<lambda>c (this, h). or_char this c h) s (A, h) = Some (e, h') \<and> yields h NA h' e N ((\<lambda>c. [c]) ` set s \<union> lang h A)"
proof (induction s arbitrary: A NA h)
  case Nil
  then show ?case by (auto simp: yields_def)
next
  case (Cons c s)
  obtain e1 h1 N1 where 1: "or_char A c h = Some (e1, h1)" "yields h NA h1 e1 N1 (insert [c] (lang h A))"
    using or_char_yields [OF Cons.prems] by blast
  obtain e h' N where 2: "foldm (\<lambda>c (this, h). or_char this c h) s (e1, h1) = Some (e, h')"
      "yields h1 N1 h' e N ((\<lambda>c. [c]) ` set s \<union> insert [c] (lang h A))"
    using Cons.IH [of h1 e1 N1] yields_frag [OF 1(2)] by auto
  have "N1 \<subseteq> NA \<union> {nh_next h..}" using 1(2) by (simp add: yields_def)
  from yields_trans [OF 1(2) 2(2) this] 1(1) 2(1) show ?case by (auto simp: insert_commute)
qed

text \<open>
  The class of the characters of a nonempty string, whatever the expression was before.
\<close>

theorem char_class_matches:
  assumes "heap_ok h" "A = empty_expr \<or> frag h A NA" "s \<noteq> []"
  shows "\<exists>e h'. set_to_char_class A s h = Some (e, h') \<and> heap_ok h' \<and> lang h' e = {[c] | c. c \<in> set s}"
proof -
  obtain h0 where h0: "(if \<not> expr_empty A then expr_free A h else Some (A, h)) = Some (empty_expr, h0)" "heap_ok h0"
    using assms(2)
  proof
    assume "A = empty_expr"
    with assms(1) that show thesis by (simp add: expr_empty_def empty_expr_def)
  next
    assume A: "frag h A NA"
    from frag_nonempty [OF this] free_frag [OF assms(1) A] that show thesis by auto
  qed
  obtain c cs where s: "s = c # cs" using assms(3) by (cases s) auto
  obtain e1 h1 where 1: "expr_of_edge (uchar c) h0 = (e1, h1)" by fastforce
  from expr_of_edge_char [OF h0(2) 1] obtain N1 where y: "yields h0 {} h1 e1 N1 {[c]}" by blast
  note f = yields_frag [OF y]
  have "or_char empty_expr c h0 = Some (e1, h1)"
  proof -
    have "\<not> expr_empty e1" using f frag_nonempty by blast
    moreover have "expr_empty empty_expr" by (simp add: expr_empty_def empty_expr_def)
    ultimately show ?thesis by (simp add: or_char_def 1 or_expr_abs_def)
  qed
  with or_chars_yields [of h1 e1 N1 cs] f obtain e h' N where
      "foldm (\<lambda>c (this, h). or_char this c h) s (empty_expr, h0) = Some (e, h')"
      "yields h1 N1 h' e N ((\<lambda>c. [c]) ` set cs \<union> {[c]})"
    by (auto simp: s)
  with h0(1) yields_frag [OF this(2)] show ?thesis
    by (auto simp: set_to_char_class_def s)
qed

theorem char_class_matches_witness:
  "\<exists>p. set_to_char_class empty_expr ''ab'' empty_heap = Some p \<and> lang (snd p) (fst p) = {''a'', ''b''}"
  using char_class_matches [of empty_heap empty_expr "{}" "''ab''"] by auto

text \<open>
  Appending the empty string does not leave the language alone, as it should, but makes it empty:
  the start node of the string leads to the accept node of the expression itself.
\<close>

theorem cat_empty_string:
  assumes "heap_ok h" "A = empty_expr \<or> frag h A NA"
  shows "\<exists>e h'. cat_str A [] h = Some (e, h') \<and> lang h' e = {}"
proof -
  let ?k = "nh_next h" and ?b = "Suc (nh_next h)"
  let ?new = "\<lparr>nd_edge = edge_accept, nd_next1 = None, nd_next2 = None, nd_anchor = 0\<rparr>"
  from assms(2) show ?thesis
  proof
    assume A: "A = empty_expr"
    define h' where "h' = snd (new_node edge_epsilon None None (snd (new_node edge_accept None None h)))"
    have node: "nh_node h' = (nh_node h)(?k \<mapsto> ?new, ?b \<mapsto> ?new\<lparr>nd_edge := edge_epsilon\<rparr>)"
      by (simp add: h'_def new_node_def)
    have "cat_str A [] h = Some (\<lparr>ex_accept = Some ?k, ex_start = Some ?b\<rparr>, h')"
      by (simp add: A empty_expr_def cat_str_def Let_def split_beta cat_expr_abs_def expr_empty_def h'_def) (simp add: new_node_def)
    moreover have "\<not> arc h' ?b u n" for u n by (simp add: arc_iff arcs_of_def node)
    then have "\<not> acc h' ?k ?b w" for w by (subst acc_simps) auto
    ultimately show ?thesis by (auto simp: lang_def)
  next
    assume A: "frag h A NA"
    then obtain sA aA where a: "A = \<lparr>ex_accept = Some aA, ex_start = Some sA\<rparr>" "sA \<in> NA" "aA \<in> NA"
      and arcs: "\<And>n u k. n \<in> NA \<Longrightarrow> arc h n u k \<Longrightarrow> k \<in> NA \<and> n \<noteq> aA"
      and nodes: "\<And>n. n \<in> NA \<Longrightarrow> \<exists>x. nh_node h n = Some x"
      by (elim fragE) blast
    obtain y where y: "nh_node h aA = Some y" using nodes a by blast
    have ne: "?k \<notin> NA" "?b \<notin> NA" "aA \<noteq> ?k" "aA \<noteq> ?b" using frag_less [OF A assms(1)] a(3) by fastforce+
    define h1 where "h1 = snd (new_node edge_epsilon (Some aA) None (snd (new_node edge_accept None None h)))"
    have node1: "nh_node h1 = (nh_node h)(?k \<mapsto> ?new, ?b \<mapsto> ?new\<lparr>nd_edge := edge_epsilon, nd_next1 := Some aA\<rparr>)"
      by (simp add: h1_def new_node_def)
    obtain h2 where h2: "set_transition aA edge_epsilon (Some aA) None h1 = Some h2"
        "nh_node h2 = (nh_node h1)(aA \<mapsto> y\<lparr>nd_edge := edge_epsilon, nd_next1 := Some aA, nd_next2 := None\<rparr>)"
      using y ne by (simp add: set_transition_def upd_node_def node1)
    obtain h3 where h3: "upd_node aA (\<lambda>y. y\<lparr>nd_anchor := nd_anchor y OR 0\<rparr>) h2 = Some h3"
        "nh_node h3 = (nh_node h1)(aA \<mapsto> y\<lparr>nd_edge := edge_epsilon, nd_next1 := Some aA, nd_next2 := None\<rparr>)"
      using h2 by (simp add: upd_node_def)
    obtain h' where h': "delete_node ?b h3 = Some h'" "nh_node h' = (nh_node h3)(?b := None)"
      using h3 ne by (simp add: delete_node_def node1)
    have run: "cat_str A [] h = Some (\<lparr>ex_accept = Some ?k, ex_start = Some sA\<rparr>, h')"
      using h2(1) h3(1) h'(1) a(1) node1
      by (simp add: cat_str_def Let_def split_beta cat_expr_abs_def expr_empty_def h1_def) (simp add: new_node_def)
    have loop: "arc h' aA u n \<longleftrightarrow> u = [] \<and> n = aA" for u n
      using ne by (auto simp: arc_iff arcs_of_def h'(2) h3(2))
    have "acc h' ?k n w \<Longrightarrow> n \<noteq> aA" for n w
    proof (induction rule: acc.induct)
      case here
      show ?case using ne by simp
    next
      case (step n u k w)
      then show ?case using loop by blast
    qed
    moreover have "acc h' ?k sA w \<longleftrightarrow> (\<exists>u v. w = u @ v \<and> acc h aA sA u \<and> acc h' ?k aA v)" for w
      using arcs ne a(2) by (intro acc_exit [of NA]) (auto simp: h'(2) h3(2) node1)
    ultimately have "lang h' \<lparr>ex_accept = Some ?k, ex_start = Some sA\<rparr> = {}" by (auto simp: lang_def)
    with run show ?thesis by blast
  qed
qed

theorem cat_empty_string_witness: "\<exists>p. expr_of_str [] empty_heap = Some p \<and> lang (snd p) (fst p) = {}"
  using cat_empty_string [of empty_heap empty_expr "{}"] by (auto simp: expr_of_str_def)

lemma or_strs_yields:
  "heap_ok h \<Longrightarrow> frag h A NA \<Longrightarrow> [] \<notin> set ss \<Longrightarrow>
   \<exists>e h' N. foldm (\<lambda>s (this, h). or_str this s h) ss (A, h) = Some (e, h') \<and> yields h NA h' e N (set ss \<union> lang h A)"
proof (induction ss arbitrary: A NA h)
  case Nil
  then show ?case by (auto simp: yields_def)
next
  case (Cons s ss)
  obtain e1 h1 N1 where 1: "expr_of_str s h = Some (e1, h1)" "yields h {} h1 e1 N1 {s}"
  proof -
    have "s \<noteq> []" using Cons.prems(3) by auto
    from expr_of_str_yields [OF Cons.prems(1) this] that show thesis by blast
  qed
  note A = yields_other [OF 1(2) Cons.prems(1,2), simplified]
  obtain e2 h2 N2 where 2: "or_expr_abs A e1 h1 = Some (e2, h2)" "yields h1 (NA \<union> N1) h2 e2 N2 (lang h A \<union> {s})"
    using or_yields [of h1 A NA e1 N1] A yields_frag [OF 1(2)] by auto
  have "NA \<union> N1 \<subseteq> NA \<union> {nh_next h..}" using 1(2) by (auto simp: yields_def)
  note y2 = yields_trans [OF yields_mono [OF 1(2)] 2(2) this, simplified]
  obtain e h' N where 3: "foldm (\<lambda>s (this, h). or_str this s h) ss (e2, h2) = Some (e, h')"
      "yields h2 N2 h' e N (set ss \<union> insert s (lang h A))"
    using Cons.IH [of h2 e2 N2] yields_frag [OF y2] Cons.prems(3) by auto
  have "N2 \<subseteq> NA \<union> {nh_next h..}" using y2 by (simp add: yields_def)
  from yields_trans [OF y2 3(2) this] 1(1) 2(1) 3(1) show ?case by (auto simp: or_str_def insert_commute)
qed

text \<open>
  The alternatives of the constructors match exactly the given strings, unless one is empty.
\<close>

theorem alternatives_match:
  assumes "heap_ok h" "s \<noteq> []" "[] \<notin> set ss"
  shows "\<exists>e h' N. expr_of_strs s ss h = Some (e, h') \<and> frag h' e N \<and> heap_ok h' \<and> lang h' e = insert s (set ss)"
proof -
  obtain e1 h1 N1 where 1: "expr_of_str s h = Some (e1, h1)" "yields h {} h1 e1 N1 {s}"
    using expr_of_str_yields [OF assms(1,2)] by blast
  obtain e h' N where 2: "foldm (\<lambda>s (this, h). or_str this s h) ss (e1, h1) = Some (e, h')"
      "yields h1 N1 h' e N (set ss \<union> {s})"
    using or_strs_yields [of h1 e1 N1 ss] yields_frag [OF 1(2)] assms(3) by auto
  have "expr_of_strs s ss h = Some (e, h')"
    using 1(1) 2(1) by (simp add: expr_of_strs_def expr_of_str_def)
  with yields_frag [OF 2(2)] show ?thesis by auto
qed

theorem alternatives_match_witness:
  "\<exists>p. expr_of_strs ''smil'' [''smi''] empty_heap = Some p \<and> lang (snd p) (fst p) = {''smil'', ''smi''}"
  using alternatives_match [of empty_heap "''smil''" "[''smi'']"] by auto

end
