(* ===== verification/Nfa_Match.thy ===== *)
theory Nfa_Match
  imports Nfa_Regex
begin

text \<open>
  Matching (lib/nfa.cpp): the automaton is run on the sets of nodes it may be in. \<open>nfa_expr::parse\<close>
  finds the longest prefix of the input that matches; the class \<open>nfa_matcher\<close> matches the whole
  input and records where the marked groups begin and end.
\<close>

section \<open>Sets of nodes\<close>

definition visit :: "nfa_heap \<Rightarrow> nat option \<Rightarrow> nat set \<times> nat list \<Rightarrow> (nat set \<times> nat list) option" where
  "visit h v s =
     (case v of
        None \<Rightarrow> Some s
      | Some k \<Rightarrow>
          if k \<in> fst s then Some s
          else do {
            y \<leftarrow> nh_node h k;
            Some (insert k (fst s), if is_epsilon_trans y then k # snd s else snd s) })"

partial_function (option) closure :: "nfa_heap \<Rightarrow> nat set \<Rightarrow> nat list \<Rightarrow> nat set option" where
  "closure h N stack =
     (case stack of
        [] \<Rightarrow> Some N
      | t # stack \<Rightarrow> do {
          x \<leftarrow> nh_node h t;
          if is_epsilon_trans x
          then do {
            s \<leftarrow> visit h (nd_next1 x) (N, stack);
            s \<leftarrow> visit h (nd_next2 x) s;
            closure h (fst s) (snd s) }
          else closure h N stack })"

declare closure.simps [code]

definition move_one :: "nfa_heap \<Rightarrow> int \<Rightarrow> nat \<Rightarrow> nat set \<times> nat list \<Rightarrow> (nat set \<times> nat list) option" where
  "move_one h c n s = do {
     x \<leftarrow> nh_node h n;
     if nd_edge x = c
     then do {
       k \<leftarrow> nd_next1 x;
       y \<leftarrow> nh_node h k;
       Some (insert k (fst s), if is_epsilon_trans y then k # snd s else snd s) }
     else Some s }"

definition move :: "nfa_heap \<Rightarrow> int \<Rightarrow> nat set \<Rightarrow> (nat set \<times> nat list) option" where
  "move h c N = foldm (move_one h c) (sorted_list_of_set N) ({}, [])"

definition close :: "nfa_heap \<Rightarrow> nat set \<times> nat list \<Rightarrow> nat set option" where
  "close h s = (if snd s \<noteq> [] then closure h (fst s) (snd s) else Some (fst s))"

definition startup_nodes :: "nfa_expr \<Rightarrow> nfa_heap \<Rightarrow> nat set option" where
  "startup_nodes e h = do {
     s \<leftarrow> ex_start e;
     x \<leftarrow> nh_node h s;
     close h ({s}, if is_epsilon_trans x then [s] else []) }"

definition accepts_state :: "nfa_expr \<Rightarrow> nat set \<Rightarrow> bool" where
  "accepts_state e N \<longleftrightarrow> N \<noteq> {} \<and> (case ex_accept e of Some a \<Rightarrow> a \<in> N | None \<Rightarrow> False)"

section \<open>Parsing a prefix\<close>

fun parse_loop :: "nfa_expr \<Rightarrow> nfa_heap \<Rightarrow> string \<Rightarrow> nat set \<Rightarrow> int \<Rightarrow> int \<Rightarrow> int option" where
  "parse_loop e h [] N len delta = Some delta"
| "parse_loop e h (c # cs) N len delta =
     (if N = {} then Some delta
      else do {
        s \<leftarrow> move h (uchar c) N;
        N \<leftarrow> close h s;
        parse_loop e h cs N (len + 1) (if accepts_state e N then len + 1 else delta) })"

text \<open>The length of the matched prefix, by which the iterator is advanced, or -1.\<close>

definition expr_parse :: "nfa_expr \<Rightarrow> string \<Rightarrow> nfa_heap \<Rightarrow> int option" where
  "expr_parse e str h = do {
     N \<leftarrow> startup_nodes e h;
     parse_loop e h str N 0 (if accepts_state e N then 0 else -1) }"

definition expr_matches :: "nfa_expr \<Rightarrow> string \<Rightarrow> nfa_heap \<Rightarrow> bool option" where
  "expr_matches e str h = map_option (\<lambda>d. d = int (length str)) (expr_parse e str h)"

section \<open>The matcher\<close>

definition max_group :: nat where "max_group = 32"

record nfa_matcher =
  mt_str :: string
  mt_matches :: bool
  mt_begin :: "int list"
  mt_end :: "int list"

text \<open>The loop runs over the bytes of an \<open>int\<close>, not over its bits.\<close>

definition get_groups :: "int \<Rightarrow> nat set \<Rightarrow> nat set" where
  "get_groups anchor G =
     snd (fold (\<lambda>i (a, G). let a = drop_bit 1 a in (a, if odd a then insert i G else G)) [1..<4] (anchor, G))"

definition mark_expr :: "nfa_expr \<Rightarrow> nat \<Rightarrow> nfa_heap \<Rightarrow> nfa_heap option" where
  "mark_expr e index h = do {
     N \<leftarrow> startup_nodes e h;
     let anchor = to_int (push_bit index 1);
     h \<leftarrow> foldm (\<lambda>n h. do { x \<leftarrow> nh_node h n;
                          if is_important_trans x then upd_node n (\<lambda>x. x\<lparr>nd_anchor := to_int (anchor + 1)\<rparr>) h else Some h })
           (sorted_list_of_set N) h;
     a \<leftarrow> ex_accept e;
     upd_node a (\<lambda>x. x\<lparr>nd_anchor := anchor\<rparr>) h }"

definition begin_groups :: "nfa_heap \<Rightarrow> int \<Rightarrow> nat set \<Rightarrow> nat set" where
  "begin_groups h c N =
     fold (\<lambda>n G. case nh_node h n of
         Some x \<Rightarrow> if nd_edge x = c \<and> nd_anchor x \<noteq> 0 then get_groups (nd_anchor x) G else G | None \<Rightarrow> G)
       (sorted_list_of_set N) {}"

definition end_groups :: "nfa_heap \<Rightarrow> nat set \<Rightarrow> nat set" where
  "end_groups h N =
     fold (\<lambda>n G. case nh_node h n of
         Some x \<Rightarrow> if nd_anchor x \<noteq> 0 \<and> even (nd_anchor x) then get_groups (nd_anchor x) G else G | None \<Rightarrow> G)
       (sorted_list_of_set N) {}"

definition set_groups_begin :: "nat set \<Rightarrow> int \<Rightarrow> nfa_matcher \<Rightarrow> nfa_matcher" where
  "set_groups_begin G pos m = m\<lparr>mt_begin := fold (\<lambda>g xs. xs[g := pos]) (sorted_list_of_set G) (mt_begin m)\<rparr>"

definition set_groups_end :: "nat set \<Rightarrow> int \<Rightarrow> nfa_matcher \<Rightarrow> nfa_matcher" where
  "set_groups_end G pos m = m\<lparr>mt_end := fold (\<lambda>g xs. xs[g := pos]) (sorted_list_of_set G) (mt_end m)\<rparr>"

definition set_match_end :: "int \<Rightarrow> nfa_matcher \<Rightarrow> nfa_matcher" where
  "set_match_end pos m = m\<lparr>mt_end := (mt_end m)[0 := pos]\<rparr>"

fun match_loop :: "nfa_heap \<Rightarrow> string \<Rightarrow> int \<Rightarrow> nat set \<Rightarrow> nfa_matcher \<Rightarrow> (nat set \<times> nfa_matcher) option" where
  "match_loop h [] i N m = Some (N, m)"
| "match_loop h (c # cs) i N m = do {
     let B = begin_groups h (uchar c) N;
     s \<leftarrow> move h (uchar c) N;
     N \<leftarrow> close h s;
     let m = (if B \<noteq> {} then set_groups_begin B i m else m);
     let E = end_groups h N;
     let m = (if E \<noteq> {} then set_groups_end E (i + 1) m else m);
     let m = (if N \<noteq> {} then set_match_end (i + 1) m else m);
     if N = {} then Some (N, m) else match_loop h cs (i + 1) N m }"

definition create_matcher :: "nfa_expr \<Rightarrow> string \<Rightarrow> nfa_heap \<Rightarrow> nfa_matcher option" where
  "create_matcher e str h = do {
     let m = \<lparr>mt_str = str, mt_matches = False, mt_begin = replicate max_group 0, mt_end = replicate max_group 0\<rparr>;
     N \<leftarrow> startup_nodes e h;
     (N, m) \<leftarrow> match_loop h str 0 N m;
     Some (m\<lparr>mt_matches := accepts_state e N\<rparr>) }"

definition seen_group :: "nat \<Rightarrow> nfa_matcher \<Rightarrow> bool" where
  "seen_group i m \<longleftrightarrow> i < max_group \<and> 0 < mt_end m ! i"

definition get_group :: "nat \<Rightarrow> nfa_matcher \<Rightarrow> string" where
  "get_group i m =
     (if max_group \<le> i \<or> mt_end m ! i = 0 then []
      else let b = nat (mt_begin m ! i) in take (nat (mt_end m ! i) - b) (drop b (mt_str m)))"

definition match_length :: "nfa_matcher \<Rightarrow> int" where
  "match_length m = mt_end m ! 0 - mt_begin m ! 0"

section \<open>The sets are the reachable nodes\<close>

lemma acc_append: "acc h m n v \<Longrightarrow> acc h k m w \<Longrightarrow> acc h k n (v @ w)"
  by (induction rule: acc.induct) (auto intro: acc.step)

lemma acc_snoc: "acc h m n (w @ [c]) \<longleftrightarrow> (\<exists>i k. acc h i n w \<and> arc h i [c] k \<and> acc h m k [])"
proof
  assume "acc h m n (w @ [c])"
  then show "\<exists>i k. acc h i n w \<and> arc h i [c] k \<and> acc h m k []"
  proof (induction n "w @ [c]" arbitrary: w rule: acc.induct)
    case (step n u k v)
    from step.hyps(1) consider "u = []" | d where "u = [d]" by cases auto
    then show ?case
    proof cases
      case 1
      with step show ?thesis by (metis acc.step append_Nil)
    next
      case 2
      show ?thesis
      proof (cases w)
        case Nil
        with 2 step.hyps have "d = c" "v = []" by auto
        with Nil 2 step.hyps show ?thesis using acc.here by blast
      next
        case (Cons d' w')
        with 2 step.hyps(4) have "w = u @ w'" "v = w' @ [c]" by auto
        with step show ?thesis by (metis acc.step)
      qed
    qed
  qed simp
next
  assume "\<exists>i k. acc h i n w \<and> arc h i [c] k \<and> acc h m k []"
  then obtain i k where "acc h i n w" "arc h i [c] k" "acc h m k []" by blast
  then show "acc h m n (w @ [c])" using acc_append [of h i n w] acc.step [of h i "[c]" k m "[]"] by simp
qed

definition reached :: "nfa_heap \<Rightarrow> nat set \<Rightarrow> nat set" where
  "reached h N = {m. \<exists>n\<in>N. acc h m n []}"

lemma reached_closed:
  assumes "N \<subseteq> M" "\<And>n k. n \<in> M \<Longrightarrow> arc h n [] k \<Longrightarrow> k \<in> M" "M \<subseteq> reached h N"
  shows "M = reached h N"
proof -
  have "acc h m n w \<Longrightarrow> w = [] \<Longrightarrow> n \<in> M \<Longrightarrow> m \<in> M" for m n w
    by (induction rule: acc.induct) (use assms(2) in auto)
  with assms(1,3) show ?thesis by (auto simp: reached_def)
qed

lemma reached_arc: "n \<in> reached h N \<Longrightarrow> arc h n [] k \<Longrightarrow> k \<in> reached h N"
  using acc_append [of h n _ "[]" k "[]"] acc.step [of h n "[]" k k "[]"] acc.here [of h k] by (auto simp: reached_def)

lemma arc_eps: "arc h n [] k \<longleftrightarrow> (\<exists>x. nh_node h n = Some x \<and> is_epsilon_trans x \<and> k \<in> succs x)"
  by (auto simp: arc_iff arcs_of_def is_epsilon_trans_def succs_def split: if_splits)

text \<open>What is left to do is on the stack.\<close>

definition pending :: "nfa_heap \<Rightarrow> nat set \<Rightarrow> nat set \<times> nat list \<Rightarrow> bool" where
  "pending h M s \<longleftrightarrow> fst s \<subseteq> M \<and> set (snd s) \<subseteq> fst s \<and> (\<forall>n\<in>fst s - set (snd s). \<forall>k. arc h n [] k \<longrightarrow> k \<in> fst s)"

lemma visit_step:
  assumes node: "\<And>n. n \<in> M \<Longrightarrow> \<exists>x. nh_node h n = Some x" and v: "set_option v \<subseteq> M"
  shows "\<exists>N' st'. visit h v (N, st) = Some (N', st') \<and> N' = N \<union> set_option v \<and> set st \<subseteq> set st'
    \<and> set st' \<subseteq> set st \<union> (N' - N) \<and> (\<forall>n\<in>N' - N - set st'. \<forall>k. \<not> arc h n [] k)
    \<and> (N' = N \<and> st' = st \<or> N \<subset> N')"
proof (cases v)
  case (Some k)
  show ?thesis
  proof (cases "k \<in> N")
    case False
    obtain y where "nh_node h k = Some y" using node v Some by auto
    with False Some show ?thesis by (auto simp: visit_def arc_eps)
  qed (use Some in \<open>auto simp: visit_def\<close>)
qed (simp add: visit_def)

lemma closure_reached:
  assumes node: "\<And>n. n \<in> M \<Longrightarrow> \<exists>x. nh_node h n = Some x \<and> succs x \<subseteq> M" and M: "finite M"
  shows "pending h M (N, st) \<Longrightarrow> closure h N st = Some (reached h N)"
proof (induction "(card (M - N), length st)" arbitrary: N st rule: wf_induct_rule [OF wf_lex_prod [OF wf_less_than wf_less_than]])
  case 1
  have p: "N \<subseteq> M" "set st \<subseteq> N" "\<And>n k. n \<in> N - set st \<Longrightarrow> arc h n [] k \<Longrightarrow> k \<in> N"
    using 1(2) by (auto simp: pending_def)
  show ?case
  proof (cases st)
    case Nil
    have "N = reached h N" using p(3) Nil by (intro reached_closed) (auto simp: reached_def intro: acc.here)
    then show ?thesis using Nil by (subst closure.simps) simp
  next
    case (Cons t ts)
    have t: "t \<in> N" "t \<in> M" using p(1,2) Cons by auto
    obtain x where x: "nh_node h t = Some x" "succs x \<subseteq> M" using node [OF t(2)] by blast
    show ?thesis
    proof (cases "is_epsilon_trans x")
      case False
      have no: "\<not> arc h t [] k" for k using False x(1) by (simp add: arc_eps)
      have "k \<in> N" if "n \<in> N - set ts" "arc h n [] k" for n k
        using p(3) [of n k] that no Cons by (cases "n = t") auto
      then have "pending h M (N, ts)" using p(1,2) Cons by (simp add: pending_def)
      then have "closure h N ts = Some (reached h N)" by (rule 1(1) [rotated]) (simp add: Cons)
      with False x(1) Cons show ?thesis by (subst closure.simps) simp
    next
      case True
      have nodes: "\<And>n. n \<in> M \<Longrightarrow> \<exists>x. nh_node h n = Some x" using node by blast
      obtain N1 s1 where v1: "visit h (nd_next1 x) (N, ts) = Some (N1, s1)" "N1 = N \<union> set_option (nd_next1 x)" "set ts \<subseteq> set s1"
          "set s1 \<subseteq> set ts \<union> (N1 - N)" "\<forall>n\<in>N1 - N - set s1. \<forall>k. \<not> arc h n [] k" "N1 = N \<and> s1 = ts \<or> N \<subset> N1"
        using visit_step [where M = M and h = h and v = "nd_next1 x" and N = N and st = ts] nodes x(2) by (auto simp: succs_def)
      obtain N2 s2 where v2: "visit h (nd_next2 x) (N1, s1) = Some (N2, s2)" "N2 = N1 \<union> set_option (nd_next2 x)" "set s1 \<subseteq> set s2"
          "set s2 \<subseteq> set s1 \<union> (N2 - N1)" "\<forall>n\<in>N2 - N1 - set s2. \<forall>k. \<not> arc h n [] k" "N2 = N1 \<and> s2 = s1 \<or> N1 \<subset> N2"
        using visit_step [where M = M and h = h and v = "nd_next2 x" and N = N1 and st = s1] nodes x(2) by (auto simp: succs_def)
      have N2: "N2 = N \<union> succs x" using v1(2) v2(2) by (auto simp: succs_def)
      have sub: "N2 \<subseteq> M" using N2 p(1) x(2) by blast
      have "pending h M (N2, s2)"
        unfolding pending_def fst_conv snd_conv
      proof (intro conjI ballI allI impI)
        show "set s2 \<subseteq> N2" using v1(2,4) v2(2,4) p(2) Cons by auto
        fix n k assume n: "n \<in> N2 - set s2" and a: "arc h n [] k"
        show "k \<in> N2"
        proof (cases "n \<in> N")
          case True
          then show ?thesis
            using p(3) [of n k] a n v1(3) v2(3) N2 x(1) Cons by (cases "n = t") (auto simp: arc_eps)
        next
          case False
          with n v1(5) v2(3,5) a show ?thesis by blast
        qed
      qed (rule sub)
      moreover have "card (M - N2) < card (M - N) \<or> N2 = N \<and> s2 = ts"
      proof -
        have "N2 = N \<and> s2 = ts \<or> N \<subset> N2" using v1(6) v2(6) v1(2) v2(2) by blast
        moreover have "card (M - N2) < card (M - N)" if "N \<subset> N2"
          using that sub M by (intro psubset_card_mono) auto
        ultimately show ?thesis by blast
      qed
      ultimately have "closure h N2 s2 = Some (reached h N2)" by (intro 1(1)) (auto simp: Cons)
      moreover have "reached h N2 = reached h N"
      proof -
        have "m \<in> reached h N" if "acc h m k []" "k \<in> succs x" for m k
        proof -
          have "arc h t [] k" using that(2) x(1) True by (auto simp: arc_eps)
          from acc.step [OF this that(1)] t(1) show ?thesis by (auto simp: reached_def)
        qed
        then show ?thesis by (auto simp: reached_def N2)
      qed
      ultimately show ?thesis using Cons x(1) True v1(1) v2(1) by (subst closure.simps) simp
    qed
  qed
qed

lemma close_reached:
  assumes "\<And>n. n \<in> M \<Longrightarrow> \<exists>x. nh_node h n = Some x \<and> succs x \<subseteq> M" "finite M" "pending h M s"
  shows "close h s = Some (reached h (fst s))"
proof -
  have c: "closure h (fst s) (snd s) = Some (reached h (fst s))"
    using closure_reached [of M h "fst s" "snd s"] assms by simp
  moreover have "closure h N [] = Some N" for N by (subst closure.simps) simp
  ultimately show ?thesis by (auto simp: close_def)
qed

lemma move_fold:
  assumes node: "\<And>n. n \<in> M \<Longrightarrow> \<exists>x. nh_node h n = Some x \<and> succs x \<subseteq> M"
    and next1: "\<And>n x. n \<in> M \<Longrightarrow> nh_node h n = Some x \<Longrightarrow> nd_edge x = uchar c \<Longrightarrow> nd_next1 x \<noteq> None"
  shows "set ns \<subseteq> M \<Longrightarrow> set st \<subseteq> A \<Longrightarrow> (\<And>k j. k \<in> A - set st \<Longrightarrow> \<not> arc h k [] j) \<Longrightarrow>
    \<exists>st'. foldm (move_one h (uchar c)) ns (A, st) = Some (A \<union> {k. \<exists>n\<in>set ns. arc h n [c] k}, st')
      \<and> set st' \<subseteq> A \<union> {k. \<exists>n\<in>set ns. arc h n [c] k}
      \<and> (\<forall>k\<in>A \<union> {k. \<exists>n\<in>set ns. arc h n [c] k} - set st'. \<forall>j. \<not> arc h k [] j)"
proof (induction ns arbitrary: A st)
  case Nil
  then show ?case by auto
next
  case (Cons n ns)
  obtain x where x: "nh_node h n = Some x" "succs x \<subseteq> M" using node [of n] Cons.prems(1) by auto
  show ?case
  proof (cases "nd_edge x = uchar c")
    case True
    then obtain k where k: "nd_next1 x = Some k" using next1 [of n x] x(1) Cons.prems(1) by auto
    then have "k \<in> M" using x(2) by (auto simp: succs_def)
    then obtain y where y: "nh_node h k = Some y" using node by blast
    let ?st = "if is_epsilon_trans y then k # st else st"
    have one: "move_one h (uchar c) n (A, st) = Some (insert k A, ?st)"
      using x(1) True k y by (simp add: move_one_def)
    have arcs: "arc h n [c] j \<longleftrightarrow> j = k" for j using x(1) True k by (auto simp: arc_iff arcs_of_def)
    have "\<not> arc h i [] j" if "i \<in> insert k A - set ?st" for i j
      using that Cons.prems(3) [of i j] y by (cases "i = k") (auto simp: arc_eps split: if_splits)
    moreover have "set ?st \<subseteq> insert k A" using Cons.prems(2) by auto
    ultimately obtain st' where
        "foldm (move_one h (uchar c)) ns (insert k A, ?st) = Some (insert k A \<union> {k. \<exists>n\<in>set ns. arc h n [c] k}, st')"
        "set st' \<subseteq> insert k A \<union> {k. \<exists>n\<in>set ns. arc h n [c] k}"
        "\<forall>i\<in>insert k A \<union> {k. \<exists>n\<in>set ns. arc h n [c] k} - set st'. \<forall>j. \<not> arc h i [] j"
      using Cons.IH [of ?st "insert k A"] Cons.prems(1) by fastforce
    moreover have "A \<union> {k. \<exists>n\<in>set (n # ns). arc h n [c] k} = insert k A \<union> {k. \<exists>n\<in>set ns. arc h n [c] k}"
      by (auto simp: arcs)
    ultimately show ?thesis using one by simp
  next
    case False
    have "\<not> arc h n [c] j" for j using x(1) False by (auto simp: arc_iff arcs_of_def)
    then have "A \<union> {k. \<exists>n\<in>set (n # ns). arc h n [c] k} = A \<union> {k. \<exists>n\<in>set ns. arc h n [c] k}" by auto
    moreover have "move_one h (uchar c) n (A, st) = Some (A, st)" using x(1) False by (simp add: move_one_def)
    ultimately show ?thesis using Cons.IH [of st A] Cons.prems by simp
  qed
qed

section \<open>The longest match\<close>

definition run_set :: "nfa_heap \<Rightarrow> nat \<Rightarrow> string \<Rightarrow> nat set" where
  "run_set h s w = {n. acc h n s w}"

lemma run_set_snoc: "run_set h s (w @ [c]) = reached h {k. \<exists>n\<in>run_set h s w. arc h n [c] k}"
  by (auto simp: run_set_def reached_def acc_snoc)

definition ex_of :: "nat \<Rightarrow> nat \<Rightarrow> nfa_expr" where
  "ex_of s a = \<lparr>ex_accept = Some a, ex_start = Some s\<rparr>"

lemma frag_ex_of:
  assumes "frag h e M"
  obtains s a where "e = ex_of s a"
  using assms by (elim fragE) (simp add: ex_of_def)

lemma inside:
  assumes "frag h (ex_of s a) M"
  shows "finite M" "s \<in> M" "n \<in> M \<Longrightarrow> \<exists>x. nh_node h n = Some x \<and> succs x \<subseteq> M"
  "n \<in> M \<Longrightarrow> nh_node h n = Some x \<Longrightarrow> nd_edge x = uchar c \<Longrightarrow> nd_next1 x \<noteq> None"
proof -
  from assms show "finite M" by (elim fragE) blast
  from assms show "s \<in> M" by (elim fragE) (simp add: ex_of_def)
  show "n \<in> M \<Longrightarrow> \<exists>x. nh_node h n = Some x \<and> succs x \<subseteq> M"
    using assms unfolding frag_def succs_def by blast
  show "n \<in> M \<Longrightarrow> nh_node h n = Some x \<Longrightarrow> nd_edge x = uchar c \<Longrightarrow> nd_next1 x \<noteq> None"
    using assms unfolding frag_def by (auto split: if_splits)
qed

lemma run_inside:
  assumes "frag h (ex_of s a) M"
  shows "run_set h s w \<subseteq> M"
proof -
  have "acc h n k w \<Longrightarrow> k \<in> M \<Longrightarrow> n \<in> M" for n k
  proof (induction rule: acc.induct)
    case (step k u j w)
    obtain x where x: "nh_node h k = Some x" "succs x \<subseteq> M" using inside(3) [OF assms step.prems] by blast
    with step.hyps(1) have "(u, j) \<in> arcs_of x" by (simp add: arc_iff)
    from arcs_next [OF this] x(2) have "j \<in> M" by (auto simp: succs_def)
    then show ?case by (rule step.IH)
  qed
  with inside(2) [OF assms] show ?thesis by (auto simp: run_set_def)
qed

lemma startup:
  assumes "frag h (ex_of s a) M"
  shows "startup_nodes (ex_of s a) h = Some (run_set h s [])"
proof -
  obtain x where x: "nh_node h s = Some x" using inside(2,3) [OF assms] by blast
  have "pending h M ({s}, if is_epsilon_trans x then [s] else [])"
    using inside(2) [OF assms] x by (auto simp: pending_def arc_eps)
  from close_reached [OF inside(3,1) [OF assms] this] x show ?thesis
    by (simp add: ex_of_def startup_nodes_def reached_def run_set_def)
qed

lemma move_close:
  assumes "frag h (ex_of s a) M"
  shows "\<exists>t. move h (uchar c) (run_set h s w) = Some t \<and> close h t = Some (run_set h s (w @ [c]))"
proof -
  let ?ns = "sorted_list_of_set (run_set h s w)" and ?K = "{k. \<exists>n\<in>run_set h s w. arc h n [c] k}"
  have fin: "finite (run_set h s w)" using finite_subset [OF run_inside [OF assms] inside(1) [OF assms]] .
  obtain st where st: "move h (uchar c) (run_set h s w) = Some (?K, st)" "set st \<subseteq> ?K" "\<forall>k\<in>?K - set st. \<forall>j. \<not> arc h k [] j"
    using move_fold [where M = M and h = h and c = c and ns = ?ns and st = "[]" and A = "{}"] inside(3,4) [OF assms] run_inside [OF assms, of w] fin
    by (auto simp: move_def)
  have "?K \<subseteq> M"
    using run_inside [OF assms] inside(3) [OF assms] by (fastforce simp: arc_iff succs_def dest: arcs_next)
  with st have "pending h M (?K, st)" by (auto simp: pending_def)
  from close_reached [OF inside(3,1) [OF assms] this] st(1) show ?thesis by (simp add: run_set_snoc)
qed

lemma accepts: "accepts_state (ex_of s a) (run_set h s w) \<longleftrightarrow> w \<in> lang h (ex_of s a)"
  by (auto simp: accepts_state_def ex_of_def run_set_def lang_def)

lemma dead: "run_set h s w = {} \<Longrightarrow> w @ v \<notin> lang h (ex_of s a)"
proof -
  assume d: "run_set h s w = {}"
  have "run_set h s (w @ v) = {}"
    by (induction v rule: rev_induct) (auto simp: d run_set_snoc reached_def simp flip: append_assoc)
  then show ?thesis using accepts [of s a h "w @ v"] by (simp add: accepts_state_def)
qed

text \<open>The longest prefix of \<open>w @ v\<close> in the language, if one is longer than \<open>w\<close>.\<close>

lemma parse_loop_longest:
  assumes "frag h (ex_of s a) M"
  shows "\<exists>d. parse_loop (ex_of s a) h v (run_set h s w) (int (length w)) delta = Some d
     \<and> (d = delta \<and> (\<forall>i. 0 < i \<and> i \<le> length v \<longrightarrow> w @ take i v \<notin> lang h (ex_of s a))
        \<or> (\<exists>i. 0 < i \<and> i \<le> length v \<and> d = int (length w + i) \<and> w @ take i v \<in> lang h (ex_of s a)
             \<and> (\<forall>j. i < j \<and> j \<le> length v \<longrightarrow> w @ take j v \<notin> lang h (ex_of s a))))"
proof (induction v arbitrary: w delta)
  case Nil
  show ?case by simp
next
  case (Cons c v)
  show ?case
  proof (cases "run_set h s w = {}")
    case True
    with dead [OF True] show ?thesis by auto
  next
    case False
    let ?w = "w @ [c]"
    let ?d = "if ?w \<in> lang h (ex_of s a) then int (length w) + 1 else delta"
    obtain t where t: "move h (uchar c) (run_set h s w) = Some t" "close h t = Some (run_set h s ?w)"
      using move_close [OF assms] by blast
    have run: "parse_loop (ex_of s a) h (c # v) (run_set h s w) (int (length w)) delta
        = parse_loop (ex_of s a) h v (run_set h s ?w) (int (length ?w)) ?d"
      using False t by (simp add: accepts add.commute)
    have take: "w @ take (Suc i) (c # v) = ?w @ take i v" for i by simp
    obtain d where d: "parse_loop (ex_of s a) h v (run_set h s ?w) (int (length ?w)) ?d = Some d"
      and cases: "d = ?d \<and> (\<forall>i. 0 < i \<and> i \<le> length v \<longrightarrow> ?w @ take i v \<notin> lang h (ex_of s a))
        \<or> (\<exists>i. 0 < i \<and> i \<le> length v \<and> d = int (length ?w + i) \<and> ?w @ take i v \<in> lang h (ex_of s a)
             \<and> (\<forall>j. i < j \<and> j \<le> length v \<longrightarrow> ?w @ take j v \<notin> lang h (ex_of s a)))"
      using Cons.IH by blast
    from cases show ?thesis
    proof
      assume c1: "d = ?d \<and> (\<forall>i. 0 < i \<and> i \<le> length v \<longrightarrow> ?w @ take i v \<notin> lang h (ex_of s a))"
      show ?thesis
      proof (cases "?w \<in> lang h (ex_of s a)")
        case True
        have "w @ take j (c # v) \<notin> lang h (ex_of s a)" if "1 < j" "j \<le> Suc (length v)" for j
          using that c1 by (cases j) auto
        with c1 True d run show ?thesis by (intro exI [of _ d] conjI disjI2 exI [of _ 1]) auto
      next
        case False
        have "w @ take j (c # v) \<notin> lang h (ex_of s a)" if "0 < j" "j \<le> Suc (length v)" for j
          using that c1 False by (cases j; cases "j = 1") auto
        with c1 False d run show ?thesis by auto
      qed
    next
      assume "\<exists>i. 0 < i \<and> i \<le> length v \<and> d = int (length ?w + i) \<and> ?w @ take i v \<in> lang h (ex_of s a)
             \<and> (\<forall>j. i < j \<and> j \<le> length v \<longrightarrow> ?w @ take j v \<notin> lang h (ex_of s a))"
      then obtain i where i: "0 < i" "i \<le> length v" "d = int (length ?w + i)" "?w @ take i v \<in> lang h (ex_of s a)"
        "\<And>j. i < j \<Longrightarrow> j \<le> length v \<Longrightarrow> ?w @ take j v \<notin> lang h (ex_of s a)" by blast
      have "w @ take j (c # v) \<notin> lang h (ex_of s a)" if "Suc i < j" "j \<le> Suc (length v)" for j
        using that i(5) by (cases j) auto
      with i d run show ?thesis by (intro exI [of _ d] conjI disjI2 exI [of _ "Suc i"]) auto
    qed
  qed
qed

lemma parse_cases:
  assumes "frag h e M"
  obtains d where "expr_parse e str h = Some d"
    "d = (if [] \<in> lang h e then 0 else -1) \<and> (\<forall>i. 0 < i \<and> i \<le> length str \<longrightarrow> take i str \<notin> lang h e)
      \<or> (\<exists>i. 0 < i \<and> i \<le> length str \<and> d = int i \<and> take i str \<in> lang h e
           \<and> (\<forall>j. i < j \<and> j \<le> length str \<longrightarrow> take j str \<notin> lang h e))"
proof -
  from frag_ex_of [OF assms] obtain s a where e: "e = ex_of s a" .
  have "accepts_state e (run_set h s []) \<longleftrightarrow> [] \<in> lang h e" using accepts [of s a h "[]"] by (simp add: e)
  then have run: "expr_parse e str h = parse_loop e h str (run_set h s []) 0 (if [] \<in> lang h e then 0 else -1)"
    using startup [OF assms [unfolded e]] by (simp add: expr_parse_def e)
  from parse_loop_longest [OF assms [unfolded e], of str "[]" "if [] \<in> lang h e then 0 else -1"] run that
  show thesis by (auto simp: e)
qed

text \<open>
  C10: \<open>parse\<close> returns the length of the longest prefix of the input in the language of the
  expression, and -1 when no prefix is; it always returns.
\<close>

theorem parse_longest:
  assumes "frag h e M"
  shows "\<exists>d. expr_parse e str h = Some d
     \<and> (d = -1 \<and> (\<forall>i\<le>length str. take i str \<notin> lang h e)
        \<or> (\<exists>i\<le>length str. d = int i \<and> take i str \<in> lang h e
             \<and> (\<forall>j\<le>length str. i < j \<longrightarrow> take j str \<notin> lang h e)))"
proof -
  obtain d where run: "expr_parse e str h = Some d"
    and cases: "d = (if [] \<in> lang h e then 0 else -1) \<and> (\<forall>i. 0 < i \<and> i \<le> length str \<longrightarrow> take i str \<notin> lang h e)
      \<or> (\<exists>i. 0 < i \<and> i \<le> length str \<and> d = int i \<and> take i str \<in> lang h e
           \<and> (\<forall>j. i < j \<and> j \<le> length str \<longrightarrow> take j str \<notin> lang h e))"
    using parse_cases [OF assms] .
  from cases show ?thesis
  proof
    assume c: "d = (if [] \<in> lang h e then 0 else -1) \<and> (\<forall>i. 0 < i \<and> i \<le> length str \<longrightarrow> take i str \<notin> lang h e)"
    show ?thesis
    proof (cases "[] \<in> lang h e")
      case True
      with c run show ?thesis by (intro exI [of _ 0] conjI disjI2 exI [of _ 0]) auto
    next
      case False
      then have "take i str \<notin> lang h e" if "i \<le> length str" for i using c that by (cases i) auto
      with False c run show ?thesis by auto
    qed
  qed (use run in auto)
qed

text \<open>The automaton of two alternatives, used as an example.\<close>

lemma example_alternatives:
  obtains e h N where "expr_of_strs ''smi'' [''smil''] empty_heap = Some (e, h)" "frag h e N" "lang h e = {''smi'', ''smil''}"
proof -
  obtain e1 h1 N1 where 1: "expr_of_str ''smi'' empty_heap = Some (e1, h1)" "yields empty_heap {} h1 e1 N1 {''smi''}"
    using expr_of_str_yields [of empty_heap "''smi''"] by auto
  obtain e h N where 2: "foldm (\<lambda>s (this, h). or_str this s h) [''smil''] (e1, h1) = Some (e, h)"
      "yields h1 N1 h e N (set [''smil''] \<union> lang h1 e1)"
    using or_strs_yields [of h1 e1 N1 "[''smil'']"] yields_frag [OF 1(2)] by auto
  have "expr_of_strs ''smi'' [''smil''] empty_heap = Some (e, h)"
    using 1(1) 2(1) by (simp add: expr_of_strs_def expr_of_str_def)
  with yields_frag [OF 2(2)] yields_frag [OF 1(2)] that show thesis by (auto simp: insert_commute)
qed

theorem parse_longest_witness:
  "\<exists>p. expr_of_strs ''smi'' [''smil''] empty_heap = Some p \<and> expr_parse (fst p) ''smile'' (snd p) = Some 4"
proof -
  obtain e h N where a: "expr_of_strs ''smi'' [''smil''] empty_heap = Some (e, h)" "frag h e N" "lang h e = {''smi'', ''smil''}"
    by (rule example_alternatives)
  obtain d where d: "expr_parse e ''smile'' h = Some d"
    and c: "d = -1 \<and> (\<forall>i\<le>length ''smile''. take i ''smile'' \<notin> lang h e)
        \<or> (\<exists>i\<le>length ''smile''. d = int i \<and> take i ''smile'' \<in> lang h e
             \<and> (\<forall>j\<le>length ''smile''. i < j \<longrightarrow> take j ''smile'' \<notin> lang h e))"
    using parse_longest [OF a(2), of "''smile''"] by blast
  have four: "take 4 ''smile'' \<in> lang h e" "4 \<le> length ''smile''" by (simp_all add: a(3))
  then obtain i where i: "i \<le> length ''smile''" "d = int i" "take i ''smile'' \<in> lang h e" "\<not> i < 4"
    using c by blast
  have "length (take i ''smile'') \<in> length ` {''smi'', ''smil''}" using i(3) unfolding a(3) by (rule imageI)
  with i(1,4) have "i = 4" by auto
  with a(1) d i(2) show ?thesis by auto
qed

section \<open>The matcher agrees\<close>

lemma match_loop_set:
  assumes "frag h (ex_of s a) M"
  shows "\<exists>m'. match_loop h v i (run_set h s w) m = Some (run_set h s (w @ v), m')"
proof (induction v arbitrary: w i m)
  case Nil
  show ?case by simp
next
  case (Cons c v)
  obtain t where t: "move h (uchar c) (run_set h s w) = Some t" "close h t = Some (run_set h s (w @ [c]))"
    using move_close [OF assms] by blast
  show ?case
  proof (cases "run_set h s (w @ [c]) = {}")
    case True
    have "run_set h s ((w @ [c]) @ v) = {}"
      by (induction v rule: rev_induct) (use True in \<open>auto simp: run_set_snoc reached_def simp flip: append_assoc\<close>)
    with t True show ?thesis by (simp add: Let_def)
  next
    case False
    with t Cons.IH [where w = "w @ [c]"] show ?thesis by (simp add: Let_def)
  qed
qed

text \<open>
  C9: \<open>matches\<close> decides whether the input is in the language of the expression, and so does the
  matcher, whatever its groups.
\<close>

theorem matching_decides:
  assumes "frag h e M"
  shows "expr_matches e str h = Some (str \<in> lang h e)
    \<and> (\<exists>m. create_matcher e str h = Some m \<and> mt_matches m = (str \<in> lang h e))"
proof
  obtain d where run: "expr_parse e str h = Some d"
    and cases: "d = (if [] \<in> lang h e then 0 else -1) \<and> (\<forall>i. 0 < i \<and> i \<le> length str \<longrightarrow> take i str \<notin> lang h e)
      \<or> (\<exists>i. 0 < i \<and> i \<le> length str \<and> d = int i \<and> take i str \<in> lang h e
           \<and> (\<forall>j. i < j \<and> j \<le> length str \<longrightarrow> take j str \<notin> lang h e))"
    using parse_cases [OF assms] .
  have "d = int (length str) \<longleftrightarrow> str \<in> lang h e"
    using cases
  proof
    assume c: "d = (if [] \<in> lang h e then 0 else -1) \<and> (\<forall>i. 0 < i \<and> i \<le> length str \<longrightarrow> take i str \<notin> lang h e)"
    show ?thesis
    proof (cases "str = []")
      case False
      then have "str \<notin> lang h e" using c [THEN conjunct2, THEN spec, of "length str"] by simp
      with c False show ?thesis by auto
    qed (use c in auto)
  next
    assume "\<exists>i. 0 < i \<and> i \<le> length str \<and> d = int i \<and> take i str \<in> lang h e
           \<and> (\<forall>j. i < j \<and> j \<le> length str \<longrightarrow> take j str \<notin> lang h e)"
    then obtain i where i: "i \<le> length str" "d = int i" "take i str \<in> lang h e"
      "\<And>j. i < j \<Longrightarrow> j \<le> length str \<Longrightarrow> take j str \<notin> lang h e" by blast
    show ?thesis using i(1-3) i(4) [of "length str"] by (cases "i = length str") auto
  qed
  with run show "expr_matches e str h = Some (str \<in> lang h e)" by (simp add: expr_matches_def)
next
  from frag_ex_of [OF assms] obtain s a where e: "e = ex_of s a" .
  note f = assms [unfolded e]
  obtain m' where "match_loop h str 0 (run_set h s [])
      \<lparr>mt_str = str, mt_matches = False, mt_begin = replicate max_group 0, mt_end = replicate max_group 0\<rparr>
      = Some (run_set h s str, m')"
    using match_loop_set [OF f, of str 0 "[]"] by auto
  with startup [OF f] accepts [of s a h str]
  show "\<exists>m. create_matcher e str h = Some m \<and> mt_matches m = (str \<in> lang h e)"
    by (simp add: create_matcher_def e)
qed

theorem matching_decides_witness:
  "\<exists>p. expr_of_strs ''smi'' [''smil''] empty_heap = Some p \<and> expr_matches (fst p) ''smil'' (snd p) = Some True
     \<and> expr_matches (fst p) ''smile'' (snd p) = Some False"
proof -
  obtain e h N where a: "expr_of_strs ''smi'' [''smil''] empty_heap = Some (e, h)" "frag h e N" "lang h e = {''smi'', ''smil''}"
    by (rule example_alternatives)
  with matching_decides [OF a(2), of "''smil''"] matching_decides [OF a(2), of "''smile''"] show ?thesis by simp
qed

section \<open>Groups\<close>

lemma get_groups_Un: "get_groups anchor G = G \<union> {i \<in> {1, 2, 3}. bit anchor i}"
proof -
  have "[1..<4] = [1, 2, 3 :: nat]" by (simp add: upt_rec)
  then show ?thesis
    by (auto simp: get_groups_def Let_def bit_iff_odd_drop_bit drop_bit_drop_bit numeral_2_eq_2 numeral_3_eq_3)
qed

lemma groups_small:
  "begin_groups h c N \<subseteq> {1, 2, 3}" "end_groups h N \<subseteq> {1, 2, 3}"
proof -
  have sub: "G \<subseteq> {1, 2, 3} \<Longrightarrow> fold (\<lambda>n G. case nh_node h n of
      Some x \<Rightarrow> if P x then get_groups (nd_anchor x) G else G | None \<Rightarrow> G) ns G \<subseteq> {1, 2, 3}" for P ns G
  proof (induction ns arbitrary: G)
    case (Cons n ns)
    have "(case nh_node h n of Some x \<Rightarrow> if P x then get_groups (nd_anchor x) G else G | None \<Rightarrow> G) \<subseteq> {1, 2, 3}"
      using Cons.prems by (auto simp: get_groups_Un split: option.splits)
    from Cons.IH [OF this] show ?case by simp
  qed simp
  show "begin_groups h c N \<subseteq> {1, 2, 3}" unfolding begin_groups_def by (rule sub) simp
  show "end_groups h N \<subseteq> {1, 2, 3}" unfolding end_groups_def by (rule sub) simp
qed

lemma fold_update_other: "i \<notin> set gs \<Longrightarrow> fold (\<lambda>g xs. xs[g := pos]) gs xs ! i = xs ! i"
  by (induction gs arbitrary: xs) auto

lemma match_loop_groups:
  "match_loop h v i N m = Some (N', m') \<Longrightarrow> 4 \<le> g \<Longrightarrow> mt_end m' ! g = mt_end m ! g"
proof (induction h v i N m rule: match_loop.induct)
  case (2 h c cs i N m)
  obtain s N1 where s: "move h (uchar c) N = Some s" "close h s = Some N1"
    using 2(2) by (auto simp: Let_def Option.bind_eq_Some_conv)
  have fin: "finite (end_groups h N1)" using groups_small(2) finite_subset by blast
  have "g \<notin> end_groups h N1" using groups_small(2) [of h N1] 2(3) by auto
  then have same: "mt_end (set_groups_end (end_groups h N1) p m) ! g = mt_end m ! g" for p m
    using fin by (simp add: set_groups_end_def fold_update_other)
  have "mt_end (set_match_end p m) ! g = mt_end m ! g" "mt_end (set_groups_begin B p m) = mt_end m" for p m B
    using 2(3) by (simp_all add: set_match_end_def set_groups_begin_def)
  with 2 s same show ?case by (auto simp: Let_def split: if_splits)
qed simp

text \<open>
  Of the 32 groups the matcher has room for only the first three are ever recorded, for the loop
  over the bits of an anchor counts the bytes of an \<open>int\<close>.
\<close>

theorem groups_beyond_three_lost:
  assumes "create_matcher e str h = Some m" "4 \<le> i"
  shows "\<not> seen_group i m \<and> get_group i m = []"
proof -
  obtain N N' m' where l: "match_loop h str 0 N
      \<lparr>mt_str = str, mt_matches = False, mt_begin = replicate max_group 0, mt_end = replicate max_group 0\<rparr> = Some (N', m')"
      "mt_end m = mt_end m'"
    using assms(1) by (auto simp: create_matcher_def Let_def Option.bind_eq_Some_conv)
  have "mt_end m ! i = 0" if "i < max_group" using match_loop_groups [OF l(1) assms(2)] l(2) that by simp
  then show ?thesis by (auto simp: seen_group_def get_group_def)
qed


text \<open>The class of the letter a, marked as group 4.\<close>

definition marked_letter :: "(nfa_expr \<times> nfa_heap) option" where
  "marked_letter = (let (e, h) = expr_of_edge (uchar CHR ''a'') empty_heap in map_option (Pair e) (mark_expr e 4 h))"

theorem groups_beyond_three_lost_witness:
  "\<exists>e h m. marked_letter = Some (e, h) \<and> create_matcher e ''a'' h = Some m \<and> mt_matches m \<and> \<not> seen_group 4 m"
proof -
  have "case marked_letter of Some (e, h) \<Rightarrow> (case create_matcher e ''a'' h of Some m \<Rightarrow> mt_matches m | None \<Rightarrow> False) | None \<Rightarrow> False"
    by code_simp
  then obtain e h m where "marked_letter = Some (e, h)" "create_matcher e ''a'' h = Some m" "mt_matches m"
    by (auto split: option.splits prod.splits)
  with groups_beyond_three_lost [of e "''a''" h m 4] show ?thesis by blast
qed

end
