(* ===== verification/C_Lib.thy ===== *)
theory C_Lib
  imports String_Util
begin

text \<open>
  \<open>strtol\<close> of the C library, for C strings and the bases 10 and 16: optional white space, an
  optional sign, with base 16 an optional prefix, and digits. The value is clamped to the range
  of \<open>long\<close>; without digits the value is 0 and nothing is consumed. The result is the value with
  the rest of the text.
\<close>

definition digit_of :: "int \<Rightarrow> char \<Rightarrow> int option" where
  "digit_of base c =
     (let n = int (of_char c);
          v = (if 48 \<le> n \<and> n \<le> 57 then n - 48
               else if 65 \<le> n \<and> n \<le> 90 then n - 55
               else if 97 \<le> n \<and> n \<le> 122 then n - 87 else base)
      in if v < base then Some v else None)"

fun digits_num :: "int \<Rightarrow> int \<Rightarrow> string \<Rightarrow> int \<times> string" where
  "digits_num base n [] = (n, [])"
| "digits_num base n (c # s) =
     (case digit_of base c of
        Some d \<Rightarrow> digits_num base (n * base + d) s
      | None \<Rightarrow> (n, c # s))"

definition skip_sign :: "string \<Rightarrow> bool \<times> string" where
  "skip_sign s =
     (case s of
        c # r \<Rightarrow> if c = CHR ''-'' then (True, r) else if c = CHR ''+'' then (False, r) else (False, s)
      | [] \<Rightarrow> (False, s))"

definition skip_prefix :: "int \<Rightarrow> string \<Rightarrow> string" where
  "skip_prefix base s =
     (if base = 16 \<and> (take 2 s = ''0x'' \<or> take 2 s = ''0X'')
         \<and> drop 2 s \<noteq> [] \<and> digit_of base (hd (drop 2 s)) \<noteq> None
      then drop 2 s else s)"

definition strtol :: "int \<Rightarrow> string \<Rightarrow> int \<times> string" where
  "strtol base s =
     (let (neg, t) = skip_sign (dropWhile is_cspace s);
          t = skip_prefix base t;
          (n, r) = digits_num base 0 t
      in if r = t then (0, s)
         else (if neg then max long_min (- n) else min long_max n, r))"

lemma digits_num_append:
  "list_all (\<lambda>c. digit_of base c \<noteq> None) ds \<Longrightarrow> r = [] \<or> digit_of base (hd r) = None \<Longrightarrow>
   digits_num base n (ds @ r) = (foldl (\<lambda>n c. n * base + the (digit_of base c)) n ds, r)"
proof (induction ds arbitrary: n)
  case Nil
  then show ?case by (cases r) auto
next
  case (Cons c ds)
  then show ?case by auto
qed

lemma digit_of_is_digit: "is_digit c \<Longrightarrow> 10 \<le> base \<Longrightarrow> digit_of base c = Some (digit_val c)"
  by (auto simp: is_digit_def digit_of_def digit_val_def Let_def)

lemma foldl_show_nat: "foldl (\<lambda>n c. n * 10 + the (digit_of 10 c)) 0 (show_nat n) = int n"
proof (induction n rule: show_nat.induct)
  case (1 n)
  have d: "digit_of 10 (digit_char k) = Some (int k)" if "k < 10" for k
    using that by (simp add: digit_of_is_digit)
  show ?case
  proof (cases "n < 10")
    case True
    then show ?thesis by (subst show_nat.simps) (simp add: d)
  next
    case False
    with 1 have "foldl (\<lambda>n c. n * 10 + the (digit_of 10 c)) 0 (show_nat (n div 10)) = int (n div 10)"
      by simp
    with False show ?thesis by (subst show_nat.simps) (simp add: d zdiv_int zmod_int)
  qed
qed

lemma strtol_digits:
  assumes "list_all is_digit ds" "ds \<noteq> []" "r = [] \<or> \<not> is_digit (hd r)"
    and v: "foldl (\<lambda>n c. n * 10 + the (digit_of 10 c)) 0 ds = v" "v \<le> long_max"
  shows "strtol 10 (ds @ r) = (v, r)" "strtol 10 (CHR ''-'' # ds @ r) = (max long_min (- v), r)"
proof -
  have hd: "is_digit (hd ds)" using assms(1,2) by (cases ds) auto
  then have nsp: "\<not> is_cspace (hd ds)" "hd ds \<noteq> CHR ''-''" "hd ds \<noteq> CHR ''+''"
    by (auto simp: is_cspace_def is_digit_def)
  have nd: "r = [] \<or> digit_of 10 (hd r) = None"
    using assms(3) by (auto simp: digit_of_def is_digit_def Let_def)
  have "list_all (\<lambda>c. digit_of 10 c \<noteq> None) ds"
    using assms(1) by (auto simp: list_all_iff digit_of_is_digit)
  note d = digits_num_append [OF this nd, of 0]
  have len: "ds @ r \<noteq> r" using assms(2) by simp
  obtain c ds' where ds: "ds = c # ds'" using assms(2) by (cases ds) auto
  have s: "dropWhile is_cspace (ds @ r) = ds @ r" "skip_sign (ds @ r) = (False, ds @ r)"
    using nsp by (simp_all add: ds skip_sign_def)
  show "strtol 10 (ds @ r) = (v, r)"
    using len v by (simp add: strtol_def s skip_prefix_def d min_def)
  have sp: "\<not> is_cspace (CHR ''-'')" by (simp add: is_cspace_def)
  then have m: "dropWhile is_cspace (CHR ''-'' # ds @ r) = CHR ''-'' # ds @ r"
    "skip_sign (CHR ''-'' # ds @ r) = (True, ds @ r)"
    by (simp_all add: skip_sign_def)
  show "strtol 10 (CHR ''-'' # ds @ r) = (max long_min (- v), r)"
    using len v by (simp add: strtol_def sp m(2) skip_prefix_def d)
qed

lemma strtol_show_int:
  assumes "is_int n" "r = [] \<or> \<not> is_digit (hd r)"
  shows "strtol 10 (show_int n @ r) = (n, r)"
proof -
  have "foldl (\<lambda>n c. n * 10 + the (digit_of 10 c)) 0 (show_nat (nat \<bar>n\<bar>)) = \<bar>n\<bar>"
    by (simp add: foldl_show_nat)
  note s = strtol_digits [OF show_nat_digits show_nat_nonempty assms(2) this]
  from assms(1) have "\<bar>n\<bar> \<le> long_max" "long_min \<le> n" by (auto simp: is_int_def c_arith)
  then show ?thesis using s by (auto simp: show_int_def)
qed

lemma strtol_no_digits:
  "s = [] \<or> (\<not> is_digit (hd s) \<and> \<not> is_cspace (hd s) \<and> hd s \<notin> {CHR ''-'', CHR ''+''}) \<Longrightarrow> strtol 10 s = (0, s)"
  by (cases s) (auto simp: strtol_def skip_sign_def skip_prefix_def digit_of_def is_digit_def Let_def)

end
