(* ===== verification/Gtypes.thy ===== *)
theory Gtypes
  imports Prelude
begin

text \<open>
  Points, sizes and rectangles (gtypes.h), for the instances the layout code uses:
  coordinates are \<open>int\<close>, sizes \<open>unsigned int\<close>. A sum of a coordinate and a
  size is computed as an \<open>unsigned int\<close>, as C++ does, and converted back where the code
  assigns it to an \<open>int\<close>; a comparison of two such sums is a comparison of unsigned
  numbers. The coordinate transforms compute in \<open>double\<close>, modelled by the rationals, and
  give \<open>None\<close> where the code divides by zero.
\<close>

section \<open>The types\<close>

record point =
  p_x :: int
  p_y :: int

record rsize =
  s_w :: int
  s_h :: int

record rect =
  r_x :: int
  r_y :: int
  r_w :: int
  r_h :: int

definition lmax :: "int \<Rightarrow> int \<Rightarrow> int" where
  "lmax l r = (if l < r then r else l)"

definition lmin :: "int \<Rightarrow> int \<Rightarrow> int" where
  "lmin l r = (if l < r then l else r)"

section \<open>Points and sizes\<close>

definition point_add :: "point \<Rightarrow> point \<Rightarrow> point" where
  "point_add p q = \<lparr>p_x = to_int (p_x p + p_x q), p_y = to_int (p_y p + p_y q)\<rparr>"

definition point_sub :: "point \<Rightarrow> point \<Rightarrow> point" where
  "point_sub p q = \<lparr>p_x = to_int (p_x p - p_x q), p_y = to_int (p_y p - p_y q)\<rparr>"

definition point_neg :: "point \<Rightarrow> point" where
  "point_neg p = \<lparr>p_x = to_int (- p_x p), p_y = to_int (- p_y p)\<rparr>"

definition point_scale :: "point \<Rightarrow> int \<Rightarrow> point" where
  "point_scale p n = \<lparr>p_x = to_int (p_x p * n), p_y = to_int (p_y p * n)\<rparr>"

definition point_divide :: "point \<Rightarrow> int \<Rightarrow> point option" where
  "point_divide p n = (if n = 0 then None
     else Some \<lparr>p_x = to_int (cdiv (p_x p) n), p_y = to_int (cdiv (p_y p) n)\<rparr>)"

definition size_empty :: "rsize \<Rightarrow> bool" where
  "size_empty s \<longleftrightarrow> s_w s = 0 \<or> s_h s = 0"

definition size_add :: "rsize \<Rightarrow> rsize \<Rightarrow> rsize" where
  "size_add s t = \<lparr>s_w = to_uint (s_w s + s_w t), s_h = to_uint (s_h s + s_h t)\<rparr>"

definition size_sub :: "rsize \<Rightarrow> rsize \<Rightarrow> rsize" where
  "size_sub s t = \<lparr>s_w = to_uint (s_w s - s_w t), s_h = to_uint (s_h s - s_h t)\<rparr>"

section \<open>Rectangles\<close>

definition mk_rect :: "point \<Rightarrow> rsize \<Rightarrow> rect" where
  "mk_rect p s = \<lparr>r_x = p_x p, r_y = p_y p, r_w = s_w s, r_h = s_h s\<rparr>"

definition rect_empty :: "rect \<Rightarrow> bool" where
  "rect_empty r \<longleftrightarrow> r_w r = 0 \<or> r_h r = 0"

definition rect_right :: "rect \<Rightarrow> int" where
  "rect_right r = to_int (to_uint (r_x r + r_w r))"

definition rect_bottom :: "rect \<Rightarrow> int" where
  "rect_bottom r = to_int (to_uint (r_y r + r_h r))"

definition left_top :: "rect \<Rightarrow> point" where
  "left_top r = \<lparr>p_x = r_x r, p_y = r_y r\<rparr>"

definition right_bottom :: "rect \<Rightarrow> point" where
  "right_bottom r = \<lparr>p_x = rect_right r, p_y = rect_bottom r\<rparr>"

definition rect_size :: "rect \<Rightarrow> rsize" where
  "rect_size r = \<lparr>s_w = r_w r, s_h = r_h r\<rparr>"

definition rect_translate :: "rect \<Rightarrow> point \<Rightarrow> rect" where
  "rect_translate r p = r\<lparr>r_x := to_int (r_x r + p_x p), r_y := to_int (r_y r + p_y p)\<rparr>"

text \<open>
  \<open>operator&=\<close> and \<open>operator|=\<close>: the left edges are compared as \<open>int\<close>, the
  right edges as \<open>unsigned int\<close> before they are stored in an \<open>int\<close>.
\<close>

definition rect_and :: "rect \<Rightarrow> rect \<Rightarrow> rect" where
  "rect_and r u = (if rect_empty r \<or> rect_empty u
     then \<lparr>r_x = 0, r_y = 0, r_w = 0, r_h = 0\<rparr>
     else let x1 = lmax (r_x r) (r_x u);
              x2 = to_int (lmin (to_uint (r_x r + r_w r)) (to_uint (r_x u + r_w u)));
              y1 = lmax (r_y r) (r_y u);
              y2 = to_int (lmin (to_uint (r_y r + r_h r)) (to_uint (r_y u + r_h u)))
          in \<lparr>r_x = x1, r_y = y1,
              r_w = if x2 < x1 then 0 else to_uint (x2 - x1),
              r_h = if y2 < y1 then 0 else to_uint (y2 - y1)\<rparr>)"

definition rect_or :: "rect \<Rightarrow> rect \<Rightarrow> rect" where
  "rect_or r u = (if rect_empty u then r else if rect_empty r then u
     else let x1 = lmin (r_x r) (r_x u);
              x2 = to_int (lmax (to_uint (r_x r + r_w r)) (to_uint (r_x u + r_w u)));
              y1 = lmin (r_y r) (r_y u);
              y2 = to_int (lmax (to_uint (r_y r + r_h r)) (to_uint (r_y u + r_h u)))
          in \<lparr>r_x = x1, r_y = y1, r_w = to_uint (x2 - x1), r_h = to_uint (y2 - y1)\<rparr>)"

definition innercoordinates :: "rect \<Rightarrow> rect \<Rightarrow> rect" where
  "innercoordinates this p = rect_translate (rect_and p this) (point_neg (left_top this))"

definition outercoordinates :: "rect \<Rightarrow> rect \<Rightarrow> rect" where
  "outercoordinates this p = rect_and (rect_translate p (left_top this)) this"

definition rect_contains :: "rect \<Rightarrow> int \<Rightarrow> int \<Rightarrow> bool" where
  "rect_contains r xp yp \<longleftrightarrow> r_x r \<le> xp \<and> xp < to_int (r_x r + to_int (r_w r))
     \<and> r_y r \<le> yp \<and> yp < to_int (r_y r + to_int (r_h r))"

definition same_size :: "rect \<Rightarrow> rect \<Rightarrow> bool" where
  "same_size r u \<longleftrightarrow> r_w r = r_w u \<and> r_h r = r_h u"

section \<open>Transforms\<close>

definition tf :: "int \<Rightarrow> int \<Rightarrow> int \<Rightarrow> int \<Rightarrow> int \<Rightarrow> int option" where
  "tf x x1 x2 x1p x2p = (if x2 = x1 then None
     else Some \<lfloor>(of_int ((x2p - x1p) * (x - x1) + (x2 - x1) * x1p) / of_int (x2 - x1)) + 1 / 2 :: rat\<rfloor>)"

definition reverse_tf :: "int \<Rightarrow> int \<Rightarrow> int \<Rightarrow> int \<Rightarrow> int \<Rightarrow> int option" where
  "reverse_tf xp x1 x2 x1p x2p = (if x2p = x1p then None
     else Some \<lfloor>(of_int ((x2 - x1) * xp + (x1 * x2p - x2 * x1p)) / of_int (x2p - x1p)) + 1 / 2 :: rat\<rfloor>)"

definition tf_x :: "int \<Rightarrow> rect \<Rightarrow> rect \<Rightarrow> int option" where
  "tf_x x src dst = tf x (r_x src) (rect_right src) (r_x dst) (rect_right dst)"

definition tf_y :: "int \<Rightarrow> rect \<Rightarrow> rect \<Rightarrow> int option" where
  "tf_y y src dst = tf y (r_y src) (rect_bottom src) (r_y dst) (rect_bottom dst)"

definition reverse_tf_x :: "int \<Rightarrow> rect \<Rightarrow> rect \<Rightarrow> int option" where
  "reverse_tf_x xp src dst = reverse_tf xp (r_x src) (rect_right src) (r_x dst) (rect_right dst)"

definition reverse_tf_y :: "int \<Rightarrow> rect \<Rightarrow> rect \<Rightarrow> int option" where
  "reverse_tf_y yp src dst = reverse_tf yp (r_y src) (rect_bottom src) (r_y dst) (rect_bottom dst)"

definition corners_rect :: "int option \<Rightarrow> int option \<Rightarrow> int option \<Rightarrow> int option \<Rightarrow> rect option" where
  "corners_rect l t r b = (case (l, t, r, b) of
     (Some l, Some t, Some r, Some b) \<Rightarrow>
       Some \<lparr>r_x = l, r_y = t, r_w = to_uint (r - l), r_h = to_uint (b - t)\<rparr>
   | _ \<Rightarrow> None)"

definition transform :: "rect \<Rightarrow> rect \<Rightarrow> rect \<Rightarrow> rect option" where
  "transform psrc src dst = corners_rect
     (tf_x (r_x psrc) src dst) (tf_y (r_y psrc) src dst)
     (tf_x (rect_right psrc) src dst) (tf_y (rect_bottom psrc) src dst)"

definition reverse_transform :: "rect \<Rightarrow> rect \<Rightarrow> rect \<Rightarrow> rect option" where
  "reverse_transform pdst src dst = corners_rect
     (reverse_tf_x (r_x pdst) src dst) (reverse_tf_y (r_y pdst) src dst)
     (reverse_tf_x (rect_right pdst) src dst) (reverse_tf_y (rect_bottom pdst) src dst)"

section \<open>Rectangles of the first quadrant\<close>

text \<open>
  A rectangle is \<open>on_screen\<close> when its corners are non-negative \<open>int\<close>s. There the
  mixed signed and unsigned arithmetic is exact and the operations keep the property.
\<close>

definition on_screen :: "rect \<Rightarrow> bool" where
  "on_screen r \<longleftrightarrow> 0 \<le> r_x r \<and> 0 \<le> r_y r \<and> 0 \<le> r_w r \<and> 0 \<le> r_h r
     \<and> r_x r + r_w r < 2 ^ 31 \<and> r_y r + r_h r < 2 ^ 31"

definition common_point :: "rect \<Rightarrow> rect \<Rightarrow> int \<Rightarrow> int \<Rightarrow> bool" where
  "common_point r u xp yp \<longleftrightarrow> rect_contains r xp yp \<and> rect_contains u xp yp"

lemma to_uint_id [simp]: "0 \<le> x \<Longrightarrow> x < 2 ^ 32 \<Longrightarrow> to_uint x = x"
  by (simp add: to_uint_def)

lemma to_int_small [simp]: "0 \<le> x \<Longrightarrow> x < 2 ^ 31 \<Longrightarrow> to_int x = x"
  by (simp add: is_int_def)

lemma on_screen_corners:
  assumes "on_screen r"
  shows "to_uint (r_x r + r_w r) = r_x r + r_w r" "to_uint (r_y r + r_h r) = r_y r + r_h r"
    "rect_right r = r_x r + r_w r" "rect_bottom r = r_y r + r_h r"
  using assms by (simp_all add: on_screen_def rect_right_def rect_bottom_def)

lemma rect_contains_on_screen:
  "on_screen r \<Longrightarrow> rect_contains r xp yp \<longleftrightarrow>
     r_x r \<le> xp \<and> xp < r_x r + r_w r \<and> r_y r \<le> yp \<and> yp < r_y r + r_h r"
  by (simp add: on_screen_def rect_contains_def)

lemma rect_and_on_screen:
  assumes "on_screen r" "on_screen u" "\<not> rect_empty r" "\<not> rect_empty u"
  shows "rect_and r u = \<lparr>r_x = max (r_x r) (r_x u), r_y = max (r_y r) (r_y u),
    r_w = max 0 (min (r_x r + r_w r) (r_x u + r_w u) - max (r_x r) (r_x u)),
    r_h = max 0 (min (r_y r + r_h r) (r_y u + r_h u) - max (r_y r) (r_y u))\<rparr>"
proof -
  have m: "lmax a b = max a b" "lmin a b = min a b" for a b
    by (simp_all add: lmax_def lmin_def max_def min_def)
  have i: "to_int (min (r_x r + r_w r) (r_x u + r_w u)) = min (r_x r + r_w r) (r_x u + r_w u)"
    "to_int (min (r_y r + r_h r) (r_y u + r_h u)) = min (r_y r + r_h r) (r_y u + r_h u)"
    using assms(1,2) by (auto simp: on_screen_def intro!: to_int_small)
  have "(if c < a then 0 else to_uint (c - a)) = max 0 (c - a)"
    if "0 \<le> a" "c < 2 ^ 31" for a c
    using that by (simp add: max_def)
  moreover have "0 \<le> max (r_x r) (r_x u)" "0 \<le> max (r_y r) (r_y u)"
    "min (r_x r + r_w r) (r_x u + r_w u) < 2 ^ 31" "min (r_y r + r_h r) (r_y u + r_h u) < 2 ^ 31"
    using assms(1,2) by (auto simp: on_screen_def)
  ultimately show ?thesis
    using assms by (simp only: rect_and_def Let_def on_screen_corners m i) simp
qed

lemma on_screen_rect_and:
  assumes "on_screen r" "on_screen u"
  shows "on_screen (rect_and r u)"
proof (cases "rect_empty r \<or> rect_empty u")
  case True
  then show ?thesis using assms by (auto simp: rect_and_def on_screen_def)
next
  case False
  then have ne: "\<not> rect_empty r" "\<not> rect_empty u" by auto
  show ?thesis using assms by (auto simp: rect_and_on_screen [OF assms ne] on_screen_def)
qed

lemma rect_or_on_screen:
  assumes "on_screen r" "on_screen u" "\<not> rect_empty r" "\<not> rect_empty u"
  shows "rect_or r u = \<lparr>r_x = min (r_x r) (r_x u), r_y = min (r_y r) (r_y u),
    r_w = max (r_x r + r_w r) (r_x u + r_w u) - min (r_x r) (r_x u),
    r_h = max (r_y r + r_h r) (r_y u + r_h u) - min (r_y r) (r_y u)\<rparr>"
proof -
  have m: "lmax a b = max a b" "lmin a b = min a b" for a b
    by (simp_all add: lmax_def lmin_def max_def min_def)
  have i: "to_int (max (r_x r + r_w r) (r_x u + r_w u)) = max (r_x r + r_w r) (r_x u + r_w u)"
    "to_int (max (r_y r + r_h r) (r_y u + r_h u)) = max (r_y r + r_h r) (r_y u + r_h u)"
    using assms(1,2) by (auto simp: on_screen_def intro!: to_int_small)
  have u: "to_uint (max (r_x r + r_w r) (r_x u + r_w u) - min (r_x r) (r_x u))
      = max (r_x r + r_w r) (r_x u + r_w u) - min (r_x r) (r_x u)"
    "to_uint (max (r_y r + r_h r) (r_y u + r_h u) - min (r_y r) (r_y u))
      = max (r_y r + r_h r) (r_y u + r_h u) - min (r_y r) (r_y u)"
    using assms(1,2) by (auto simp: on_screen_def max_def min_def intro!: to_uint_id)
  show ?thesis
    using assms by (simp only: rect_or_def Let_def on_screen_corners m i u) simp
qed

lemma on_screen_rect_or:
  assumes "on_screen r" "on_screen u"
  shows "on_screen (rect_or r u)"
proof (cases "rect_empty r \<or> rect_empty u")
  case True
  then show ?thesis using assms by (auto simp: rect_or_def on_screen_def)
next
  case False
  then have ne: "\<not> rect_empty r" "\<not> rect_empty u" by auto
  show ?thesis using assms by (auto simp: rect_or_on_screen [OF assms ne] on_screen_def)
qed

definition rect_within :: "rect \<Rightarrow> rect \<Rightarrow> bool" where
  "rect_within r u \<longleftrightarrow> r_x u \<le> r_x r \<and> r_x r + r_w r \<le> r_x u + r_w u
     \<and> r_y u \<le> r_y r \<and> r_y r + r_h r \<le> r_y u + r_h u"

lemma translate_back:
  assumes "is_int (r_x r)" "is_int (r_y r)"
  shows "rect_translate (rect_translate r (point_neg p)) p = r"
  using assms by (simp add: rect_translate_def point_neg_def)

lemma axis_common:
  "max a c \<le> x \<and> x < max a c + max 0 (min b d - max a c) \<and> R
   \<longleftrightarrow> a \<le> x \<and> x < (b::int) \<and> c \<le> x \<and> x < d \<and> R"
  "max a c \<le> x \<and> x < max a c + max 0 (min b d - max a c)
   \<longleftrightarrow> a \<le> x \<and> x < (b::int) \<and> c \<le> x \<and> x < d"
  by (auto simp: max_def min_def)

lemma axis_end: "max 0 (m - k) \<noteq> 0 \<Longrightarrow> k + max 0 (m - k) = (m::int)"
  by (simp add: max_def split: if_splits)

lemma empty_contains: "on_screen r \<Longrightarrow> rect_empty r \<Longrightarrow> \<not> rect_contains r xp yp"
  by (auto simp: rect_contains_on_screen rect_empty_def)

text \<open>
  On the screen, \<open>operator&=\<close> is the intersection: a point is in the result exactly when it
  is in both rectangles, the result is on the screen again, and it is empty when no point is common.
\<close>

theorem rect_and_is_intersection:
  assumes "on_screen r" "on_screen u"
  shows "on_screen (rect_and r u)
    \<and> rect_contains (rect_and r u) xp yp = common_point r u xp yp
    \<and> (rect_empty (rect_and r u) \<longleftrightarrow> \<not> (\<exists>x y. common_point r u x y))"
proof -
  have a: "on_screen (rect_and r u)" using assms by (rule on_screen_rect_and)
  have c: "rect_contains (rect_and r u) x y = common_point r u x y" for x y
  proof (cases "rect_empty r \<or> rect_empty u")
    case True
    then have "rect_empty (rect_and r u)" by (auto simp: rect_and_def rect_empty_def)
    with True a assms show ?thesis using empty_contains by (auto simp: common_point_def)
  next
    case False
    then have ne: "\<not> rect_empty r" "\<not> rect_empty u" by auto
    show ?thesis
      unfolding common_point_def rect_contains_on_screen [OF a] rect_contains_on_screen [OF assms(1)]
        rect_contains_on_screen [OF assms(2)]
      by (simp only: rect_and_on_screen [OF assms ne] rect.simps) (simp only: axis_common, blast)
  qed
  have e: "rect_empty s \<longleftrightarrow> \<not> (\<exists>x y. rect_contains s x y)" if "on_screen s" for s
  proof
    assume "rect_empty s"
    with that show "\<not> (\<exists>x y. rect_contains s x y)" using empty_contains by blast
  next
    assume "\<not> (\<exists>x y. rect_contains s x y)"
    then have "\<not> rect_contains s (r_x s) (r_y s)" by blast
    with that show "rect_empty s" by (auto simp: rect_contains_on_screen rect_empty_def on_screen_def)
  qed
  show ?thesis using a c e [OF a] by simp
qed

theorem rect_and_is_intersection_witness:
  "common_point \<lparr>r_x = 0, r_y = 0, r_w = 10, r_h = 10\<rparr> \<lparr>r_x = 5, r_y = 5, r_w = 10, r_h = 10\<rparr> 7 7
   \<and> rect_contains (rect_and \<lparr>r_x = 0, r_y = 0, r_w = 10, r_h = 10\<rparr>
        \<lparr>r_x = 5, r_y = 5, r_w = 10, r_h = 10\<rparr>) 7 7"
proof -
  have "on_screen \<lparr>r_x = 0, r_y = 0, r_w = 10, r_h = 10\<rparr>"
    "on_screen \<lparr>r_x = 5, r_y = 5, r_w = 10, r_h = 10\<rparr>"
    "common_point \<lparr>r_x = 0, r_y = 0, r_w = 10, r_h = 10\<rparr> \<lparr>r_x = 5, r_y = 5, r_w = 10, r_h = 10\<rparr> 7 7"
    by code_simp+
  with rect_and_is_intersection [of "\<lparr>r_x = 0, r_y = 0, r_w = 10, r_h = 10\<rparr>"
      "\<lparr>r_x = 5, r_y = 5, r_w = 10, r_h = 10\<rparr>" 7 7]
  show ?thesis by blast
qed

text \<open>
  On the screen, \<open>operator|=\<close> of two non-empty rectangles is the smallest rectangle that
  encloses both, and an empty rectangle leaves the other operand unchanged.
\<close>

theorem rect_or_is_hull:
  assumes "on_screen r" "on_screen u" "\<not> rect_empty r"
  shows "on_screen (rect_or r u)
    \<and> (if rect_empty u then rect_or r u = r \<and> rect_or u r = r
       else \<forall>b. rect_within (rect_or r u) b \<longleftrightarrow> rect_within r b \<and> rect_within u b)"
proof (cases "rect_empty u")
  case True
  then show ?thesis using assms on_screen_rect_or by (auto simp: rect_or_def)
next
  case False
  show ?thesis using False on_screen_rect_or [OF assms(1,2)]
    by (auto simp: rect_within_def rect_or_on_screen [OF assms False])
qed

theorem rect_or_is_hull_witness:
  "rect_within \<lparr>r_x = 20, r_y = 0, r_w = 5, r_h = 5\<rparr>
     (rect_or \<lparr>r_x = 0, r_y = 0, r_w = 5, r_h = 5\<rparr> \<lparr>r_x = 20, r_y = 0, r_w = 5, r_h = 5\<rparr>)"
proof -
  let ?r = "\<lparr>r_x = 0, r_y = 0, r_w = 5, r_h = 5\<rparr>" and ?u = "\<lparr>r_x = 20, r_y = 0, r_w = 5, r_h = 5\<rparr>"
  have "on_screen ?r" "on_screen ?u" "\<not> rect_empty ?r" "\<not> rect_empty ?u"
    by (simp_all add: on_screen_def rect_empty_def)
  with rect_or_is_hull [of ?r ?u] have "\<forall>b. rect_within (rect_or ?r ?u) b \<longleftrightarrow> rect_within ?r b \<and> rect_within ?u b"
    by simp
  moreover have "rect_within (rect_or ?r ?u) (rect_or ?r ?u)" by (simp add: rect_within_def)
  ultimately show ?thesis by blast
qed

text \<open>
  Mapping a rectangle into the coordinates of \<open>this\<close> and back gives the part of it that
  lies in \<open>this\<close>.
\<close>

theorem inner_outer_roundtrip:
  assumes "on_screen this" "on_screen p" "\<exists>x y. common_point p this x y"
  shows "outercoordinates this (innercoordinates this p) = rect_and p this"
proof -
  from assms have ne: "\<not> rect_empty p" "\<not> rect_empty this"
    using empty_contains by (auto simp: common_point_def)
  let ?a = "rect_and p this"
  note a = rect_and_on_screen [OF assms(2,1) ne]
  have s: "on_screen ?a" using assms(1,2) on_screen_rect_and by blast
  from assms(3) have n: "\<not> rect_empty ?a"
    by (auto simp: a rect_empty_def common_point_def rect_contains_on_screen assms(1,2))
  have "rect_translate (innercoordinates this p) (left_top this) = ?a"
    unfolding innercoordinates_def using s
    by (intro translate_back) (simp_all add: on_screen_def is_int_def)
  then have "outercoordinates this (innercoordinates this p) = rect_and ?a this"
    by (simp add: outercoordinates_def)
  also have "\<dots> = ?a"
  proof -
    have "rect_within ?a this" "\<not> rect_empty ?a"
      using n by (auto simp: a rect_within_def rect_empty_def axis_end)
    then show ?thesis using s assms(1) unfolding rect_and_on_screen [OF s assms(1) n ne(2)]
      by (simp add: rect_within_def on_screen_def)
  qed
  finally show ?thesis .
qed

text \<open>
  The right edges are compared as unsigned numbers, so a rectangle that lies wholly to the
  left of the origin is taken to reach beyond every other: its "intersection" with a rectangle of
  the screen has the whole width of that rectangle although no point is common.
\<close>

theorem rect_and_negative:
  assumes "on_screen u" "\<not> rect_empty u" "\<not> rect_empty r"
    and "- (2 ^ 31) \<le> r_x r" "0 < r_w r" "r_x r + r_w r < 0"
  shows "r_w (rect_and r u) = r_w u \<and> r_x (rect_and r u) = r_x u
    \<and> \<not> (\<exists>x y. common_point r u x y)"
proof -
  have w: "to_uint (r_x r + r_w r) = r_x r + r_w r + 2 ^ 32"
  proof -
    have "(r_x r + r_w r) mod 2 ^ 32 = (r_x r + r_w r + 2 ^ 32) mod 2 ^ 32" by simp
    also have "\<dots> = r_x r + r_w r + 2 ^ 32" using assms by (intro mod_pos_pos_trivial) auto
    finally show ?thesis by (simp add: to_uint_def)
  qed
  have u: "to_uint (r_x u + r_w u) = r_x u + r_w u" using assms(1) by (rule on_screen_corners)
  have "\<not> common_point r u x y" for x y
  proof
    assume "common_point r u x y"
    then have "x < to_int (r_x r + to_int (r_w r))" "0 \<le> x"
      using assms by (auto simp: common_point_def rect_contains_def on_screen_def)
    moreover have "to_int (r_x r + to_int (r_w r)) = r_x r + r_w r"
      using assms by (simp add: is_int_def)
    ultimately show False using assms by simp
  qed
  moreover have "lmin (to_uint (r_x r + r_w r)) (to_uint (r_x u + r_w u)) = r_x u + r_w u"
    using assms by (simp add: w u lmin_def on_screen_def)
  moreover have "lmax (r_x r) (r_x u) = r_x u" using assms by (simp add: lmax_def on_screen_def)
  ultimately show ?thesis using assms
    by (simp add: rect_and_def Let_def) (simp add: on_screen_def)
qed

theorem rect_and_negative_witness:
  "r_w (rect_and \<lparr>r_x = -10, r_y = 0, r_w = 5, r_h = 5\<rparr> \<lparr>r_x = 0, r_y = 0, r_w = 100, r_h = 100\<rparr>) = 100"
  using rect_and_negative [of "\<lparr>r_x = 0, r_y = 0, r_w = 100, r_h = 100\<rparr>" "\<lparr>r_x = -10, r_y = 0, r_w = 5, r_h = 5\<rparr>"]
  by (simp add: on_screen_def rect_empty_def)

section \<open>Facts about the transforms\<close>

lemma tf_corners: "x1 \<noteq> x2 \<Longrightarrow> tf x1 x1 x2 x1p x2p = Some x1p \<and> tf x2 x1 x2 x1p x2p = Some x2p"
proof -
  assume "x1 \<noteq> x2"
  then have d: "of_int (x2 - x1) \<noteq> (0::rat)" by simp
  have "of_int ((x2p - x1p) * (x1 - x1) + (x2 - x1) * x1p) = (of_int (x2 - x1) * of_int x1p :: rat)"
    "of_int ((x2p - x1p) * (x2 - x1) + (x2 - x1) * x1p) = (of_int (x2 - x1) * of_int x2p :: rat)"
    by (simp_all add: algebra_simps)
  then show ?thesis using d \<open>x1 \<noteq> x2\<close> unfolding tf_def
    by (simp only: nonzero_mult_div_cancel_left [OF d] floor_half) simp
qed

lemma reverse_tf_tf:
  assumes "x1 < x2" "x2 - x1 \<le> x2p - x1p"
  shows "Option.bind (tf x x1 x2 x1p x2p) (\<lambda>xp. reverse_tf xp x1 x2 x1p x2p) = Some x"
proof -
  define a b where "a = (of_int (x2 - x1) :: rat)" and "b = (of_int (x2p - x1p) :: rat)"
  have ab: "0 < a" "a \<le> b" using assms by (simp_all add: a_def b_def del: of_int_diff)
  define e where "e = (b * of_int (x - x1) + a * of_int x1p) / a"
  define z where "z = \<lfloor>e + 1 / 2\<rfloor>"
  have tf: "tf x x1 x2 x1p x2p = Some z"
    using assms by (simp add: tf_def z_def e_def a_def b_def)
  have z: "of_int z \<le> e + 1 / 2" "e - 1 / 2 < of_int z" unfolding z_def by linarith+
  define y where "y = (a * of_int z + of_int (x1 * x2p - x2 * x1p)) / b"
  have rev: "reverse_tf z x1 x2 x1p x2p = Some \<lfloor>y + 1 / 2\<rfloor>"
    using assms by (simp add: reverse_tf_def y_def a_def b_def)
  have ae: "a * e = b * of_int (x - x1) + a * of_int x1p" using ab by (simp add: e_def)
  have k: "of_int (x1 * x2p - x2 * x1p) = b * of_int x1 - a * of_int x1p"
    by (simp add: a_def b_def algebra_simps)
  have "b * y = a * of_int z + of_int (x1 * x2p - x2 * x1p)" using ab by (simp add: y_def)
  then have by_: "b * y = b * of_int x + a * (of_int z - e)"
    unfolding k using ae by (simp add: algebra_simps)
  have "\<lfloor>y + 1 / 2\<rfloor> = x"
  proof (cases "a = b")
    case True
    then have "e = of_int (x - x1 + x1p)" using ab by (simp add: e_def field_simps)
    then have "of_int z = e" by (simp only: z_def floor_half)
    with by_ ab have "y = of_int x" by simp
    then show ?thesis by (simp only: floor_half)
  next
    case False
    with ab have lt: "a < b" by simp
    have "a * (of_int z - e) \<le> a * (1 / 2)" "a * (- 1 / 2) < a * (of_int z - e)"
      using z ab by (intro mult_left_mono mult_strict_left_mono; simp)+
    with lt have "b * y < b * (of_int x + 1 / 2)" "b * (of_int x - 1 / 2) < b * y"
      using by_ by (auto simp: algebra_simps)
    then have "y < of_int x + 1 / 2" "of_int x - 1 / 2 < y" using ab by simp_all
    then show ?thesis by linarith
  qed
  then show ?thesis using tf rev by simp
qed

text \<open>
  A transform maps the corners of \<open>src\<close> to those of \<open>dst\<close>, and when it does not shrink,
  \<open>reverse_tf_x\<close> recovers every coordinate that \<open>tf_x\<close> maps.
\<close>

theorem transform_roundtrip:
  assumes "r_x src < rect_right src" "rect_right src - r_x src \<le> rect_right dst - r_x dst"
  shows "Option.bind (tf_x x src dst) (\<lambda>xp. reverse_tf_x xp src dst) = Some x
    \<and> tf_x (r_x src) src dst = Some (r_x dst) \<and> tf_x (rect_right src) src dst = Some (rect_right dst)"
  using assms reverse_tf_tf [OF assms] tf_corners [of "r_x src" "rect_right src"]
  by (simp add: tf_x_def reverse_tf_x_def)

theorem transform_roundtrip_witness:
  "Option.bind (tf_x 33 \<lparr>r_x = 0, r_y = 0, r_w = 100, r_h = 100\<rparr> \<lparr>r_x = 10, r_y = 0, r_w = 640, r_h = 480\<rparr>)
     (\<lambda>xp. reverse_tf_x xp \<lparr>r_x = 0, r_y = 0, r_w = 100, r_h = 100\<rparr> \<lparr>r_x = 10, r_y = 0, r_w = 640, r_h = 480\<rparr>)
   = Some 33"
  using transform_roundtrip [of "\<lparr>r_x = 0, r_y = 0, r_w = 100, r_h = 100\<rparr>"
      "\<lparr>r_x = 10, r_y = 0, r_w = 640, r_h = 480\<rparr>" 33]
  by (simp add: rect_right_def)

theorem inner_outer_roundtrip_witness:
  "outercoordinates \<lparr>r_x = 5, r_y = 5, r_w = 10, r_h = 10\<rparr>
     (innercoordinates \<lparr>r_x = 5, r_y = 5, r_w = 10, r_h = 10\<rparr> \<lparr>r_x = 0, r_y = 0, r_w = 10, r_h = 10\<rparr>)
   = rect_and \<lparr>r_x = 0, r_y = 0, r_w = 10, r_h = 10\<rparr> \<lparr>r_x = 5, r_y = 5, r_w = 10, r_h = 10\<rparr>"
proof (rule inner_outer_roundtrip)
  have "common_point \<lparr>r_x = 0, r_y = 0, r_w = 10, r_h = 10\<rparr> \<lparr>r_x = 5, r_y = 5, r_w = 10, r_h = 10\<rparr> 7 7"
    by code_simp
  then show "\<exists>x y. common_point \<lparr>r_x = 0, r_y = 0, r_w = 10, r_h = 10\<rparr> \<lparr>r_x = 5, r_y = 5, r_w = 10, r_h = 10\<rparr> x y"
    by blast
qed (simp_all add: on_screen_def)

end
