(* ===== verification/Region_Dim.thy ===== *)
theory Region_Dim
  imports C_Lib Gtypes
begin

text \<open>
  Region dimensions (common/region_dim.h), the evaluation of the positioning attributes of a
  region (common/region_eval.h) and alignment points (common/smil_alignment.cpp). A dimension
  is automatic, relative to a reference length, or absolute. Relative values are rationals;
  \<open>None\<close> is an exception, or a read of the member of the union that is not set.
\<close>

section \<open>Dimensions\<close>

datatype region_dim = RAuto | RRelative rat | RAbsolute int

definition rdim_of_string :: "string \<Rightarrow> region_dim" where
  "rdim_of_string s =
     (if s = [] then RAuto
      else let (l, endptr) = strtol 10 s; ivalue = to_int l
           in if endptr = [] \<or> endptr = ''px'' then RAbsolute ivalue
              else if hd endptr = CHR 0x25 then RRelative (of_int ivalue / 100)
              else RAuto)"

definition relative :: "region_dim \<Rightarrow> bool" where
  "relative d = (case d of RRelative _ \<Rightarrow> True | _ \<Rightarrow> False)"

definition absolute :: "region_dim \<Rightarrow> bool" where
  "absolute d = (case d of RAbsolute _ \<Rightarrow> True | _ \<Rightarrow> False)"

definition defined :: "region_dim \<Rightarrow> bool" where
  "defined d = (d \<noteq> RAuto)"

definition isauto :: "region_dim \<Rightarrow> bool" where
  "isauto d = (d = RAuto)"

definition get_as_int :: "region_dim \<Rightarrow> int option" where
  "get_as_int d = (case d of RAbsolute i \<Rightarrow> Some i | _ \<Rightarrow> None)"

definition get_as_dbl :: "region_dim \<Rightarrow> rat option" where
  "get_as_dbl d = (case d of RRelative p \<Rightarrow> Some p | _ \<Rightarrow> None)"

definition rdim_get :: "region_dim \<Rightarrow> int \<Rightarrow> int option" where
  "rdim_get d ref =
     (case d of
        RAbsolute i \<Rightarrow> Some i
      | RRelative p \<Rightarrow> Some (to_int \<lfloor>of_int ref * p + 1 / 2\<rfloor>)
      | RAuto \<Rightarrow> None)"

definition rdim_eq :: "region_dim \<Rightarrow> region_dim \<Rightarrow> bool" where
  "rdim_eq a b =
     (case (a, b) of
        (RAbsolute i, RAbsolute j) \<Rightarrow> i = j
      | (RRelative p, RRelative q) \<Rightarrow> p = q
      | (RAuto, RAuto) \<Rightarrow> True
      | _ \<Rightarrow> False)"

definition rdim_add :: "region_dim \<Rightarrow> region_dim \<Rightarrow> region_dim" where
  "rdim_add a b =
     (case (a, b) of
        (RAbsolute i, RAbsolute j) \<Rightarrow> RAbsolute (to_int (i + j))
      | (RRelative p, RRelative q) \<Rightarrow> RRelative (p + q)
      | _ \<Rightarrow> a)"

definition rdim_sub :: "region_dim \<Rightarrow> region_dim \<Rightarrow> region_dim" where
  "rdim_sub a b =
     (case (a, b) of
        (RAbsolute i, RAbsolute j) \<Rightarrow> RAbsolute (to_int (i - j))
      | (RRelative p, RRelative q) \<Rightarrow> RRelative (p - q)
      | _ \<Rightarrow> a)"

definition rdim_mul :: "region_dim \<Rightarrow> int \<Rightarrow> region_dim" where
  "rdim_mul a n =
     (case a of
        RAbsolute i \<Rightarrow> RAbsolute (to_int (i * n))
      | RRelative p \<Rightarrow> RRelative (p * of_int n)
      | RAuto \<Rightarrow> RAuto)"

text \<open>A relative value divided by zero is infinite or no number, outside the model.\<close>

definition rdim_div :: "region_dim \<Rightarrow> int \<Rightarrow> region_dim option" where
  "rdim_div a n =
     (case a of
        RAbsolute i \<Rightarrow> if n = 0 then None else Some (RAbsolute (to_int (cdiv i n)))
      | RRelative p \<Rightarrow> if n = 0 then None else Some (RRelative (p / of_int n))
      | RAuto \<Rightarrow> Some RAuto)"

text \<open>
  The four comparisons hold when the left side is automatic; otherwise an absolute dimension
  compares the floating point members of the unions and a relative one the integers, which are
  the members that are not set.
\<close>

definition rdim_less :: "region_dim \<Rightarrow> region_dim \<Rightarrow> bool option" where
  "rdim_less a b = (if isauto a then Some True else None)"

definition rdim_le :: "region_dim \<Rightarrow> region_dim \<Rightarrow> bool option" where
  "rdim_le a b = (if isauto a then Some True else None)"

definition rdim_greater :: "region_dim \<Rightarrow> region_dim \<Rightarrow> bool option" where
  "rdim_greater a b = (if isauto a then Some True else None)"

definition rdim_ge :: "region_dim \<Rightarrow> region_dim \<Rightarrow> bool option" where
  "rdim_ge a b = (if isauto a then Some True else None)"

definition repr_rdim :: "region_dim \<Rightarrow> string" where
  "repr_rdim d =
     (case d of
        RRelative p \<Rightarrow> take 15 (show_int (to_int \<lfloor>1 / 2 + p * 100\<rfloor>) @ [CHR 0x25])
      | RAbsolute i \<Rightarrow> take 15 (show_int i)
      | RAuto \<Rightarrow> ''<auto>'')"

section \<open>The dimensions of a region\<close>

record rds =
  rd_left :: region_dim
  rd_width :: region_dim
  rd_right :: region_dim
  rd_top :: region_dim
  rd_height :: region_dim
  rd_bottom :: region_dim

definition rds_auto :: rds where
  "rds_auto = \<lparr>rd_left = RAuto, rd_width = RAuto, rd_right = RAuto, rd_top = RAuto,
     rd_height = RAuto, rd_bottom = RAuto\<rparr>"

definition rds_eq :: "rds \<Rightarrow> rds \<Rightarrow> bool" where
  "rds_eq a b \<longleftrightarrow> rdim_eq (rd_left a) (rd_left b) \<and> rdim_eq (rd_width a) (rd_width b)
     \<and> rdim_eq (rd_right a) (rd_right b) \<and> rdim_eq (rd_top a) (rd_top b)
     \<and> rdim_eq (rd_height a) (rd_height b) \<and> rdim_eq (rd_bottom a) (rd_bottom b)"

definition rds_map2 :: "(region_dim \<Rightarrow> region_dim \<Rightarrow> region_dim) \<Rightarrow> rds \<Rightarrow> rds \<Rightarrow> rds" where
  "rds_map2 f a b = \<lparr>rd_left = f (rd_left a) (rd_left b), rd_width = f (rd_width a) (rd_width b),
     rd_right = f (rd_right a) (rd_right b), rd_top = f (rd_top a) (rd_top b),
     rd_height = f (rd_height a) (rd_height b), rd_bottom = f (rd_bottom a) (rd_bottom b)\<rparr>"

definition rds_add :: "rds \<Rightarrow> rds \<Rightarrow> rds" where
  "rds_add a b = rds_map2 rdim_add a b"

definition rds_sub :: "rds \<Rightarrow> rds \<Rightarrow> rds" where
  "rds_sub a b = rds_map2 rdim_sub a b"

definition rds_mul :: "rds \<Rightarrow> int \<Rightarrow> rds" where
  "rds_mul a t = rds_map2 (\<lambda>d _. rdim_mul d t) a a"

definition rds_div :: "rds \<Rightarrow> int \<Rightarrow> rds option" where
  "rds_div a t =
     do { l \<leftarrow> rdim_div (rd_left a) t; r \<leftarrow> rdim_div (rd_right a) t; u \<leftarrow> rdim_div (rd_top a) t;
          b \<leftarrow> rdim_div (rd_bottom a) t; w \<leftarrow> rdim_div (rd_width a) t; h \<leftarrow> rdim_div (rd_height a) t;
          Some \<lparr>rd_left = l, rd_width = w, rd_right = r, rd_top = u, rd_height = h, rd_bottom = b\<rparr> }"

text \<open>\<open>std::min\<close> and \<open>std::max\<close> over the comparison above.\<close>

definition rdim_min :: "region_dim \<Rightarrow> region_dim \<Rightarrow> region_dim option" where
  "rdim_min a b = map_option (\<lambda>lt. if lt then b else a) (rdim_less b a)"

definition rdim_max :: "region_dim \<Rightarrow> region_dim \<Rightarrow> region_dim option" where
  "rdim_max a b = map_option (\<lambda>lt. if lt then b else a) (rdim_less a b)"

fun poly_bounds :: "string list \<Rightarrow> region_dim \<times> region_dim \<times> region_dim \<times> region_dim \<Rightarrow>
    (region_dim \<times> region_dim \<times> region_dim \<times> region_dim) option" where
  "poly_bounds (xs # ys # rest) (l, t, r, b) =
     do { let x = rdim_of_string xs;
          l \<leftarrow> rdim_min l x;
          r \<leftarrow> rdim_max r x;
          let y = rdim_of_string ys;
          t \<leftarrow> rdim_min t y;
          b \<leftarrow> rdim_max b y;
          poly_bounds rest (l, t, r, b) }"
| "poly_bounds _ ltrb = Some ltrb"

definition rds_of_coords :: "string \<Rightarrow> string option \<Rightarrow> rds option" where
  "rds_of_coords coords shape =
     (if coords = [] then Some rds_auto
      else let list = split_trim_list coords (CHR '',''); it = map rdim_of_string list
           in if (shape = None \<or> shape = Some ''rect'') \<and> length list = 4 then
                Some (rds_auto\<lparr>rd_left := it ! 0, rd_top := it ! 1,
                  rd_width := rdim_sub (it ! 2) (it ! 0), rd_height := rdim_sub (it ! 3) (it ! 1)\<rparr>)
              else if shape = Some ''panZoomRect'' \<and> length list = 4 then
                Some (rds_auto\<lparr>rd_left := it ! 0, rd_top := it ! 1, rd_width := it ! 2,
                  rd_height := it ! 3\<rparr>)
              else if shape = Some ''circle'' \<and> length list = 3 then
                Some (rds_auto\<lparr>rd_left := rdim_sub (it ! 0) (it ! 2), rd_top := rdim_sub (it ! 1) (it ! 2),
                  rd_width := rdim_add (it ! 2) (it ! 2), rd_height := rdim_add (it ! 2) (it ! 2)\<rparr>)
              else if shape = Some ''poly'' \<and> length list \<ge> 6 \<and> even (length list) then
                map_option
                  (\<lambda>(l, t, r, b). rds_auto\<lparr>rd_left := l, rd_top := t, rd_width := rdim_sub r l,
                     rd_height := rdim_sub b t\<rparr>)
                  (poly_bounds list (RAuto, RAuto, RAuto, RAuto))
              else Some rds_auto)"

definition to_absolute :: "int \<Rightarrow> region_dim \<Rightarrow> region_dim" where
  "to_absolute ref d = (case rdim_get d ref of None \<Rightarrow> d | Some i \<Rightarrow> RAbsolute i)"

definition convert :: "rect \<Rightarrow> rds \<Rightarrow> rds" where
  "convert rc d =
     (let w = to_int (r_w rc); h = to_int (r_h rc)
      in \<lparr>rd_left = to_absolute w (rd_left d), rd_width = to_absolute w (rd_width d),
          rd_right = to_absolute w (rd_right d), rd_top = to_absolute h (rd_top d),
          rd_height = to_absolute h (rd_height d), rd_bottom = to_absolute h (rd_bottom d)\<rparr>)"

section \<open>Evaluation\<close>

text \<open>The calculator keeps left, width, right and top, height, bottom; the least integer is "auto".\<close>

definition auto_int :: int where "auto_int = - (2 ^ 31)"

record region_evaluator =
  re_horz :: "int list"
  re_vert :: "int list"
  re_refw :: int
  re_refh :: int
  re_eval :: bool

definition re_reset :: "region_evaluator \<Rightarrow> region_evaluator" where
  "re_reset re = re\<lparr>re_horz := [auto_int, auto_int, auto_int],
     re_vert := [auto_int, auto_int, auto_int], re_eval := False\<rparr>"

definition mk_evaluator :: "int \<Rightarrow> int \<Rightarrow> region_evaluator" where
  "mk_evaluator w h = re_reset \<lparr>re_horz = [], re_vert = [], re_refw = w, re_refh = h, re_eval = False\<rparr>"

definition re_copy :: "region_evaluator \<Rightarrow> region_evaluator" where
  "re_copy re = mk_evaluator (re_refw re) (re_refh re)"

definition dim_value :: "int \<Rightarrow> region_dim \<Rightarrow> int" where
  "dim_value ref rd = (case rdim_get rd ref of Some i \<Rightarrow> i | None \<Rightarrow> auto_int)"

definition set_horz :: "region_dim \<Rightarrow> nat \<Rightarrow> region_evaluator \<Rightarrow> region_evaluator" where
  "set_horz rd i re = re\<lparr>re_horz := (re_horz re)[i := dim_value (re_refw re) rd]\<rparr>"

definition set_vert :: "region_dim \<Rightarrow> nat \<Rightarrow> region_evaluator \<Rightarrow> region_evaluator" where
  "set_vert rd i re = re\<lparr>re_vert := (re_vert re)[i := dim_value (re_refh re) rd]\<rparr>"

definition re_set :: "rds \<Rightarrow> region_evaluator \<Rightarrow> region_evaluator" where
  "re_set d re = set_vert (rd_bottom d) 2 (set_vert (rd_height d) 1 (set_vert (rd_top d) 0
     (set_horz (rd_right d) 2 (set_horz (rd_width d) 1 (set_horz (rd_left d) 0 re)))))"

definition count_defined :: "int list \<Rightarrow> nat" where
  "count_defined ds = length (filter (\<lambda>v. v \<noteq> auto_int) ds)"

definition eval_third :: "int list \<Rightarrow> int \<Rightarrow> int list" where
  "eval_third ds w =
     (if ds ! 0 = auto_int then ds[0 := to_int (w - ds ! 1 - ds ! 2)]
      else if ds ! 1 = auto_int then ds[1 := to_int (w - ds ! 0 - ds ! 2)]
      else if ds ! 2 = auto_int then ds[2 := to_int (w - ds ! 0 - ds ! 1)]
      else ds)"

definition eval_linear_dim :: "int list \<Rightarrow> int \<Rightarrow> int list" where
  "eval_linear_dim ds w =
     (let nd = count_defined ds in
      if nd = 0 then ds[0 := 0, 2 := 0, 1 := w]
      else if nd = 2 then eval_third ds w
      else if nd = 3 then ds[2 := to_int (w - ds ! 0 - ds ! 1)]
      else if ds ! 0 = auto_int then eval_third (ds[0 := 0]) w
      else ds[2 := 0, 1 := to_int (w - ds ! 0)])"

definition evaluate :: "region_evaluator \<Rightarrow> region_evaluator" where
  "evaluate re =
     (if re_eval re then re
      else re\<lparr>re_horz := eval_linear_dim (re_horz re) (re_refw re),
              re_vert := eval_linear_dim (re_vert re) (re_refh re), re_eval := True\<rparr>)"

definition get_horz :: "nat \<Rightarrow> region_evaluator \<Rightarrow> int \<times> region_evaluator" where
  "get_horz i re = (let re = evaluate re in (re_horz re ! i, re))"

definition get_vert :: "nat \<Rightarrow> region_evaluator \<Rightarrow> int \<times> region_evaluator" where
  "get_vert i re = (let re = evaluate re in (re_vert re ! i, re))"

definition get_origin :: "region_evaluator \<Rightarrow> point \<times> region_evaluator" where
  "get_origin re =
     (let (x, re) = get_horz 0 re; (y, re) = get_vert 0 re in (\<lparr>p_x = x, p_y = y\<rparr>, re))"

definition get_size :: "region_evaluator \<Rightarrow> rsize \<times> region_evaluator" where
  "get_size re =
     (let (w, re) = get_horz 1 re; (h, re) = get_vert 1 re
      in (\<lparr>s_w = to_uint w, s_h = to_uint h\<rparr>, re))"

definition re_rect :: "region_evaluator \<Rightarrow> rect \<times> region_evaluator" where
  "re_rect re = (let (p, re) = get_origin re; (s, re) = get_size re in (mk_rect p s, re))"

section \<open>Alignment\<close>

record regpoint =
  rp_left :: region_dim
  rp_top :: region_dim

definition mk_regpoint :: "rat \<Rightarrow> rat \<Rightarrow> regpoint" where
  "mk_regpoint hor vert = \<lparr>rp_left = RRelative hor, rp_top = RRelative vert\<rparr>"

record smil_alignment =
  image_fixpoint :: regpoint
  surface_fixpoint :: regpoint

definition fixpoint_in :: "regpoint \<Rightarrow> rsize \<Rightarrow> point option" where
  "fixpoint_in p s =
     do { x \<leftarrow> rdim_get (rp_left p) (to_int (s_w s)); y \<leftarrow> rdim_get (rp_top p) (to_int (s_h s));
          Some \<lparr>p_x = x, p_y = y\<rparr> }"

definition get_image_fixpoint :: "smil_alignment \<Rightarrow> rsize \<Rightarrow> point option" where
  "get_image_fixpoint a s = fixpoint_in (image_fixpoint a) s"

definition get_surface_fixpoint :: "smil_alignment \<Rightarrow> rsize \<Rightarrow> point option" where
  "get_surface_fixpoint a s = fixpoint_in (surface_fixpoint a) s"

section \<open>Dimensions: properties\<close>

lemma length_show_int:
  assumes "is_int n"
  shows "length (show_int n) \<le> 11"
proof -
  have "\<bar>n\<bar> < 10 ^ 10" using assms by (simp add: is_int_def abs_less_iff)
  then have "nat \<bar>n\<bar> < 10 ^ 10" by (subst nat_less_iff) simp_all
  then have "length (show_nat (nat \<bar>n\<bar>)) \<le> 10" by (intro length_show_nat_le) simp_all
  then show ?thesis by (auto simp: show_int_def)
qed

lemma parse_rdim:
  assumes "is_int n"
  shows "rdim_of_string (show_int n) = RAbsolute n" "rdim_of_string (show_int n @ ''px'') = RAbsolute n"
    "rdim_of_string (show_int n @ CHR 0x25 # r) = RRelative (of_int n / 100)"
    "rdim_of_string (show_int n @ CHR ''.'' # r) = RAuto"
proof -
  have ne: "show_int n \<noteq> []" by (simp add: show_int_def)
  have nd: "\<not> is_digit (CHR ''p'')" "\<not> is_digit (CHR 0x25)" "\<not> is_digit (CHR ''.'')"
    by (simp_all add: is_digit_def)
  note s = strtol_show_int [OF assms]
  show "rdim_of_string (show_int n) = RAbsolute n"
    using s [of "[]"] ne assms by (simp add: rdim_of_string_def)
  show "rdim_of_string (show_int n @ ''px'') = RAbsolute n"
    using s [of "''px''"] ne nd assms by (simp add: rdim_of_string_def)
  show "rdim_of_string (show_int n @ CHR 0x25 # r) = RRelative (of_int n / 100)"
    using s [of "CHR 0x25 # r"] ne nd assms by (simp add: rdim_of_string_def)
  show "rdim_of_string (show_int n @ CHR ''.'' # r) = RAuto"
    using s [of "CHR ''.'' # r"] ne nd assms by (simp add: rdim_of_string_def)
qed

definition whole_dim :: "region_dim \<Rightarrow> bool" where
  "whole_dim d = (case d of RAuto \<Rightarrow> False | RAbsolute n \<Rightarrow> is_int n
     | RRelative p \<Rightarrow> is_int \<lfloor>p * 100\<rfloor> \<and> of_int \<lfloor>p * 100\<rfloor> = p * 100)"

text \<open>
  A dimension in pixels or whole percents is printed to a text that is read back to the same
  dimension.
\<close>

theorem dim_roundtrip:
  assumes "whole_dim d"
  shows "rdim_of_string (repr_rdim d) = d"
proof (cases d)
  case (RAbsolute n)
  then show ?thesis using assms length_show_int [of n] parse_rdim(1) [of n]
    by (simp add: whole_dim_def repr_rdim_def)
next
  case (RRelative p)
  let ?n = "\<lfloor>p * 100\<rfloor>"
  have n: "is_int ?n" "of_int ?n = p * 100" using assms RRelative by (simp_all add: whole_dim_def)
  have "\<lfloor>1 / 2 + p * 100\<rfloor> = ?n" using n(2) by (intro floor_unique) linarith+
  then have "repr_rdim d = show_int ?n @ [CHR 0x25]"
    using n(1) length_show_int [of ?n] RRelative by (simp add: repr_rdim_def)
  then show ?thesis using parse_rdim(3) [OF n(1), of "[]"] n(2) RRelative by simp
qed (use assms in \<open>simp add: whole_dim_def\<close>)

theorem dim_roundtrip_witness:
  "rdim_of_string (repr_rdim (RRelative (1 / 4))) = RRelative (1 / 4)"
  by (rule dim_roundtrip) (simp add: whole_dim_def is_int_def)

text \<open>
  A percentage with a fraction is read as an automatic dimension.
\<close>

theorem fractional_percentage_auto:
  assumes "is_int n"
  shows "rdim_of_string (show_int n @ ''.5'' @ [CHR 0x25]) = RAuto"
  using parse_rdim(4) [OF assms, of "CHR ''5'' # [CHR 0x25]"] by simp

text \<open>
  A relative dimension evaluates to the nearest pixel, and to at most the reference when it is
  at most the whole.
\<close>

theorem relative_dim_rounds:
  assumes "rdim_get (RRelative p) ref = Some x" and "is_int \<lfloor>of_int ref * p + 1 / 2\<rfloor>"
  shows "\<bar>of_int x - of_int ref * p\<bar> \<le> 1 / 2 \<and> (0 \<le> ref \<and> 0 \<le> p \<and> p \<le> 1 \<longrightarrow> 0 \<le> x \<and> x \<le> ref)"
proof -
  have x: "x = \<lfloor>of_int ref * p + 1 / 2\<rfloor>" using assms by (simp add: rdim_get_def)
  then have near: "of_int x \<le> of_int ref * p + 1 / 2" "of_int ref * p + 1 / 2 < of_int x + 1"
    by linarith+
  have "0 \<le> x \<and> x \<le> ref" if "0 \<le> ref" "0 \<le> p" "p \<le> 1"
  proof -
    have "0 \<le> of_int ref * p" using that by simp
    moreover have "of_int ref * p \<le> of_int ref"
      using mult_left_mono [OF that(3), of "of_int ref"] that(1) by simp
    ultimately have "- 1 < (of_int x :: rat)" "(of_int x :: rat) < of_int ref + 1" using near by linarith+
    then show ?thesis by linarith
  qed
  moreover have "\<bar>of_int x - of_int ref * p\<bar> \<le> 1 / 2" using near by (intro abs_leI) linarith+
  ultimately show ?thesis by blast
qed

theorem relative_dim_rounds_witness:
  "rdim_get (RRelative (1 / 3)) 320 = Some 107 \<and> \<bar>107 - 320 * (1 / 3)\<bar> \<le> (1 / 2 :: rat)"
proof
  have f: "\<lfloor>of_int 320 * (1 / 3) + 1 / 2 :: rat\<rfloor> = 107" by (rule floor_unique) simp_all
  show x: "rdim_get (RRelative (1 / 3)) 320 = Some 107"
    unfolding rdim_get_def region_dim.case f by (simp add: is_int_def)
  have "is_int \<lfloor>of_int 320 * (1 / 3) + 1 / 2 :: rat\<rfloor>" unfolding f by (simp add: is_int_def)
  from relative_dim_rounds [OF x this]
  show "\<bar>107 - 320 * (1 / 3)\<bar> \<le> (1 / 2 :: rat)" by simp
qed

text \<open>
  The bounding box of a polygon needs the order of dimensions, and compares the members of the
  unions that are not set as soon as an abscissa is a length or a percentage.
\<close>

lemma poly_bounds_undefined:
  assumes "rdim_of_string x \<noteq> RAuto"
  shows "poly_bounds (x # y # rest) (l, t, r, b) = None"
  using assms by (simp add: rdim_min_def rdim_less_def isauto_def)

theorem poly_shape_undefined:
  assumes "split_trim_list coords (CHR '','') = x # y # rest" and "4 \<le> length rest" and "even (length rest)"
    and "rdim_of_string x \<noteq> RAuto"
  shows "rds_of_coords coords (Some ''poly'') = None"
proof -
  have "coords \<noteq> []" using assms(1) by (auto simp: split_trim_list.simps [of "[]"] trim_def trim_set_def Let_def)
  with assms show ?thesis by (simp add: rds_of_coords_def Let_def poly_bounds_undefined del: poly_bounds.simps)
qed

lemma to_absolute_absolute: "to_absolute ref (to_absolute ref' d) = to_absolute ref' d"
  by (cases d) (simp_all add: to_absolute_def rdim_get_def)

text \<open>
  Conversion leaves only automatic and absolute dimensions, and converting again changes nothing.
\<close>

theorem convert_absolute:
  "\<not> relative (rd_left (convert rc d)) \<and> \<not> relative (rd_width (convert rc d))
   \<and> \<not> relative (rd_top (convert rc d)) \<and> \<not> relative (rd_height (convert rc d))
   \<and> convert rc' (convert rc d) = convert rc d"
proof -
  have "\<not> relative (to_absolute ref e)" for ref e
    by (cases e) (simp_all add: to_absolute_def rdim_get_def relative_def)
  then show ?thesis by (simp add: convert_def Let_def to_absolute_absolute)
qed

section \<open>Evaluation: properties\<close>

text \<open>
  The rule for one direction, with absent attributes as \<open>None\<close>: what is given is kept, but the
  far edge gives way when all three are given; without other constraints the near edge is at 0
  and the region reaches to the far edge of its parent.
\<close>

fun solve_dim :: "int option \<Rightarrow> int option \<Rightarrow> int option \<Rightarrow> int \<Rightarrow> int \<times> int \<times> int" where
  "solve_dim (Some l) (Some w) _ ref = (l, w, ref - l - w)"
| "solve_dim (Some l) None (Some r) ref = (l, ref - l - r, r)"
| "solve_dim (Some l) None None ref = (l, ref - l, 0)"
| "solve_dim None (Some w) (Some r) ref = (ref - w - r, w, r)"
| "solve_dim None (Some w) None ref = (0, w, ref - w)"
| "solve_dim None None (Some r) ref = (0, ref - r, r)"
| "solve_dim None None None ref = (0, ref, 0)"

definition as_dim :: "int option \<Rightarrow> int" where
  "as_dim v = (case v of Some i \<Rightarrow> i | None \<Rightarrow> auto_int)"

definition small :: "int \<Rightarrow> bool" where
  "small v \<longleftrightarrow> \<bar>v\<bar> < 2 ^ 29"

lemma small_not_auto: "small v \<Longrightarrow> v \<noteq> auto_int"
  by (auto simp: small_def auto_int_def)

lemma small_is_int:
  "small a \<Longrightarrow> small b \<Longrightarrow> is_int (a - b)"
  "small a \<Longrightarrow> small b \<Longrightarrow> small c \<Longrightarrow> is_int (a - b - c)"
  by (auto simp: small_def is_int_def abs_less_iff)

lemma eval_linear_solve:
  assumes "\<forall>v \<in> set_option l \<union> set_option w \<union> set_option r \<union> {ref}. small v"
  shows "eval_linear_dim [as_dim l, as_dim w, as_dim r] ref = (case solve_dim l w r ref of (a, b, c) \<Rightarrow> [a, b, c])"
proof -
  have z: "(0 :: int) \<noteq> auto_int" by (simp add: auto_int_def)
  show ?thesis
    using assms z
    by (cases l; cases w; cases r)
      (simp_all add: eval_linear_dim_def eval_third_def count_defined_def as_dim_def small_not_auto
        small_is_int numeral_2_eq_2)
qed

lemma solve_dim_sum: "case solve_dim l w r ref of (a, b, c) \<Rightarrow> a + b + c = ref"
  by (cases l; cases w; cases r) simp_all

definition value_in :: "int \<Rightarrow> region_dim \<Rightarrow> int option" where
  "value_in ref d = rdim_get d ref"

text \<open>The attributes of a region are no larger than half a billion pixels.\<close>

definition small_rds :: "rds \<Rightarrow> int \<Rightarrow> int \<Rightarrow> bool" where
  "small_rds d w h \<longleftrightarrow> small w \<and> small h
     \<and> (\<forall>v \<in> set_option (rdim_get (rd_left d) w) \<union> set_option (rdim_get (rd_width d) w)
          \<union> set_option (rdim_get (rd_right d) w). small v)
     \<and> (\<forall>v \<in> set_option (rdim_get (rd_top d) h) \<union> set_option (rdim_get (rd_height d) h)
          \<union> set_option (rdim_get (rd_bottom d) h). small v)"

definition solve_rds :: "rds \<Rightarrow> int \<Rightarrow> int \<Rightarrow> (int \<times> int \<times> int) \<times> (int \<times> int \<times> int)" where
  "solve_rds d w h =
     (solve_dim (rdim_get (rd_left d) w) (rdim_get (rd_width d) w) (rdim_get (rd_right d) w) w,
      solve_dim (rdim_get (rd_top d) h) (rdim_get (rd_height d) h) (rdim_get (rd_bottom d) h) h)"

lemma dim_value_as_dim: "dim_value ref d = as_dim (rdim_get d ref)"
  by (simp add: dim_value_def as_dim_def)

lemma re_rect_solve:
  assumes "small_rds d w h" "solve_rds d w h = ((l, wd, r), (t, ht, b))"
  shows "fst (re_rect (re_set d (mk_evaluator w h))) = \<lparr>r_x = l, r_y = t, r_w = to_uint wd, r_h = to_uint ht\<rparr>"
proof -
  have "eval_linear_dim [dim_value w (rd_left d), dim_value w (rd_width d), dim_value w (rd_right d)] w = [l, wd, r]"
    "eval_linear_dim [dim_value h (rd_top d), dim_value h (rd_height d), dim_value h (rd_bottom d)] h = [t, ht, b]"
    using assms unfolding dim_value_as_dim
    by (subst eval_linear_solve; auto simp: small_rds_def solve_rds_def)+
  then show ?thesis
    by (simp add: re_rect_def get_origin_def get_size_def get_horz_def get_vert_def evaluate_def
        re_set_def set_horz_def set_vert_def mk_evaluator_def re_reset_def mk_rect_def Let_def
        numeral_2_eq_2)
qed

lemma solve_dim_bound:
  assumes "\<forall>v \<in> set_option l \<union> set_option w \<union> set_option r \<union> {ref}. small v"
    and "solve_dim l w r ref = (a, b, c)"
  shows "- (2 ^ 31) < b \<and> a + b + c = ref"
  using assms by (cases l; cases w; cases r) (auto simp: small_def abs_less_iff)

lemma to_uint_negative: "- (2 ^ 31) < b \<Longrightarrow> b < 0 \<Longrightarrow> 2 ^ 31 \<le> to_uint b"
proof -
  assume b: "- (2 ^ 31) < b" "b < 0"
  then have "to_uint b = (b + 2 ^ 32) mod 2 ^ 32" by (simp add: to_uint_def)
  also have "\<dots> = b + 2 ^ 32" using b by (intro mod_pos_pos_trivial) simp_all
  finally show ?thesis using b by simp
qed

text \<open>
  The rectangle of a region solves the constraints of its attributes in its parent: near edge,
  extent and far edge add up to the size of the parent in both directions. A negative extent, of a
  region that begins behind the far edge, is stored as an unsigned number of at least \<open>2 ^ 31\<close>.
\<close>

theorem region_rect_solves:
  assumes "small_rds d w h" and "solve_rds d w h = ((l, wd, r), (t, ht, b))"
  shows "fst (re_rect (re_set d (mk_evaluator w h))) = \<lparr>r_x = l, r_y = t, r_w = to_uint wd, r_h = to_uint ht\<rparr>
    \<and> l + wd + r = w \<and> t + ht + b = h \<and> (wd < 0 \<longrightarrow> 2 ^ 31 \<le> to_uint wd)"
proof (intro conjI impI)
  show "fst (re_rect (re_set d (mk_evaluator w h))) = \<lparr>r_x = l, r_y = t, r_w = to_uint wd, r_h = to_uint ht\<rparr>"
    by (rule re_rect_solve [OF assms])
  have H: "- (2 ^ 31) < wd \<and> l + wd + r = w" "- (2 ^ 31) < ht \<and> t + ht + b = h"
    using assms by (intro solve_dim_bound; auto simp: small_rds_def solve_rds_def)+
  then show "l + wd + r = w" "t + ht + b = h" by simp_all
  show "2 ^ 31 \<le> to_uint wd" if "wd < 0" using H that by (intro to_uint_negative) simp_all
qed

theorem region_rect_solves_witness:
  "fst (re_rect (re_set (rds_auto\<lparr>rd_left := RAbsolute 400, rd_height := RAbsolute 100\<rparr>) (mk_evaluator 320 240)))
   = \<lparr>r_x = 400, r_y = 0, r_w = 4294967216, r_h = 100\<rparr>"
  using region_rect_solves [of "rds_auto\<lparr>rd_left := RAbsolute 400, rd_height := RAbsolute 100\<rparr>" 320 240
      400 "- 80" 0 0 100 140]
  by (simp add: small_rds_def solve_rds_def rds_auto_def rdim_get_def small_def to_uint_def)

end
