(* ===== verification/Colors.thy ===== *)
theory Colors
  imports C_Lib "HOL-Library.Word"
begin

text \<open>
  Colours (lib/colors.cpp, lib/colors.h): a colour is a 32 bit word with a byte for each of
  red, green and blue. Parsing of colour names, and the colour range of a chroma key.
\<close>

unbundle bit_operations_syntax

type_synonym color = "32 word"
type_synonym uchar = "8 word"

definition redc :: "color \<Rightarrow> uchar" where
  "redc rgb = ucast (rgb AND 0xFF)"

definition greenc :: "color \<Rightarrow> uchar" where
  "greenc rgb = ucast (drop_bit 8 rgb AND 0xFF)"

definition bluec :: "color \<Rightarrow> uchar" where
  "bluec rgb = ucast (drop_bit 16 rgb AND 0xFF)"

definition to_color :: "uchar \<Rightarrow> uchar \<Rightarrow> uchar \<Rightarrow> color" where
  "to_color r g b = ucast r OR push_bit 8 (ucast g) OR push_bit 16 (ucast b)"

definition rrggbb_to_color :: "64 word \<Rightarrow> color" where
  "rrggbb_to_color v =
     to_color (ucast (drop_bit 16 (v AND 0xFF0000))) (ucast (drop_bit 8 (v AND 0xFF00))) (ucast (v AND 0xFF))"

definition html4_colors :: "(string \<times> color) list" where
  "html4_colors =
     [(''aqua'', to_color 0x00 0xFF 0xFF), (''black'', to_color 0x00 0x00 0x00),
      (''blue'', to_color 0x00 0x00 0xFF), (''fuchsia'', to_color 0xFF 0x00 0xFF),
      (''gray'', to_color 0x80 0x80 0x80), (''green'', to_color 0x00 0x80 0x00),
      (''lime'', to_color 0x00 0xFF 0x00), (''maroon'', to_color 0x80 0x00 0x00),
      (''navy'', to_color 0x00 0x00 0x80), (''olive'', to_color 0x80 0x80 0x00),
      (''purple'', to_color 0x80 0x00 0x80), (''red'', to_color 0xFF 0x00 0x00),
      (''silver'', to_color 0xC0 0xC0 0xC0), (''teal'', to_color 0x00 0x80 0x80),
      (''white'', to_color 0xFF 0xFF 0xFF), (''yellow'', to_color 0xFF 0xFF 0x00),
      (''orange'', to_color 0xFF 0xA5 0x00)]"

definition is_color :: "string \<Rightarrow> bool" where
  "is_color name =
     (case name of
        c # r \<Rightarrow>
          if c = CHR ''#'' then
            (let (val, endp) = strtol 16 r in endp = [] \<and> val \<noteq> long_min \<and> val \<noteq> long_max)
          else map_of html4_colors name \<noteq> None
      | [] \<Rightarrow> map_of html4_colors name \<noteq> None)"

definition color_named :: "string \<Rightarrow> color" where
  "color_named name = (case map_of html4_colors name of None \<Rightarrow> 0 | Some c \<Rightarrow> c)"

definition parse_color :: "string \<Rightarrow> color" where
  "parse_color name =
     (case name of
        c # r \<Rightarrow>
          if c = CHR ''#'' then
            (let (hexcolor, endp) = strtol 16 r
             in if endp \<noteq> [] then 0 else rrggbb_to_color (word_of_int hexcolor))
          else color_named name
      | [] \<Rightarrow> color_named name)"

definition chroma_low1 :: "uchar \<Rightarrow> uchar \<Rightarrow> uchar" where
  "chroma_low1 k t = (if uint k - uint t > 0 then word_of_int (uint k - uint t) else 0)"

definition chroma_high1 :: "uchar \<Rightarrow> uchar \<Rightarrow> uchar" where
  "chroma_high1 k t = (if uint k + uint t < 255 then word_of_int (uint k + uint t) else 255)"

definition compute_chroma_range :: "color \<Rightarrow> color \<Rightarrow> color \<times> color" where
  "compute_chroma_range chromakey tolerance =
     (if tolerance = 0 then (chromakey, chromakey)
      else
        (to_color (chroma_low1 (redc chromakey) (redc tolerance))
           (chroma_low1 (greenc chromakey) (greenc tolerance))
           (chroma_low1 (bluec chromakey) (bluec tolerance)),
         to_color (chroma_high1 (redc chromakey) (redc tolerance))
           (chroma_high1 (greenc chromakey) (greenc tolerance))
           (chroma_high1 (bluec chromakey) (bluec tolerance))))"

definition color_in_range :: "color \<Rightarrow> color \<Rightarrow> color \<Rightarrow> bool" where
  "color_in_range c c_low c_high \<longleftrightarrow>
     redc c_low \<le> redc c \<and> redc c \<le> redc c_high
     \<and> greenc c_low \<le> greenc c \<and> greenc c \<le> greenc c_high
     \<and> bluec c_low \<le> bluec c \<and> bluec c \<le> bluec c_high"

section \<open>Components\<close>

lemma mask_FF: "(0xFF :: color) = mask 8"
  by (simp add: mask_eq_exp_minus_1)

lemma components_to_color [simp]:
  "redc (to_color r g b) = r" "greenc (to_color r g b) = g" "bluec (to_color r g b) = b"
  by (rule bit_word_eqI; auto simp: redc_def greenc_def bluec_def to_color_def mask_FF bit_simps
      dest: bit_imp_le_length)+

lemma to_color_components: "to_color (redc c) (greenc c) (bluec c) = take_bit 24 c"
proof (rule bit_word_eqI)
  fix n assume "n < LENGTH(32)"
  consider "n < 8" | "8 \<le> n" "n < 16" | "16 \<le> n" "n < 24" | "24 \<le> n" by linarith
  then show "bit (to_color (redc c) (greenc c) (bluec c)) n = bit (take_bit 24 c) n"
    by cases (auto simp: redc_def greenc_def bluec_def to_color_def mask_FF bit_simps)
qed

text \<open>
  The components of a colour and the colour of three components are inverse to each other, on
  the 24 bits that hold components.
\<close>

theorem color_components_roundtrip:
  "redc (to_color r g b) = r \<and> greenc (to_color r g b) = g \<and> bluec (to_color r g b) = b
   \<and> to_color (redc c) (greenc c) (bluec c) = take_bit 24 c"
  by (simp add: to_color_components)

lemma chroma_component:
  "chroma_low1 k t \<le> c \<and> c \<le> chroma_high1 k t \<longleftrightarrow> \<bar>uint c - uint k\<bar> \<le> uint t"
proof -
  have b: "0 \<le> uint x" "uint x \<le> 255" for x :: uchar
    using uint_lt2p [of x] by simp_all
  have "uint (chroma_low1 k t) = max 0 (uint k - uint t)"
    using b [of k] b [of t] by (simp add: chroma_low1_def uint_sub_if')
  moreover have "uint (chroma_high1 k t) = min 255 (uint k + uint t)"
    using b [of k] b [of t] by (simp add: chroma_high1_def uint_plus_if')
  ultimately show ?thesis
    using b [of c] b [of k] b [of t] unfolding word_le_def by linarith
qed

text \<open>
  A colour is in the range of a chroma key exactly when each of its components differs from
  that of the key by at most that of the tolerance.
\<close>

theorem chroma_range_correct:
  "color_in_range c (fst (compute_chroma_range key tol)) (snd (compute_chroma_range key tol)) \<longleftrightarrow>
   \<bar>uint (redc c) - uint (redc key)\<bar> \<le> uint (redc tol)
   \<and> \<bar>uint (greenc c) - uint (greenc key)\<bar> \<le> uint (greenc tol)
   \<and> \<bar>uint (bluec c) - uint (bluec key)\<bar> \<le> uint (bluec tol)"
proof (cases "tol = 0")
  case True
  have same: "x \<le> y \<and> y \<le> x \<longleftrightarrow> \<bar>uint y - uint x\<bar> \<le> 0" for x y :: uchar
    unfolding word_le_def by linarith
  have z: "uint (redc 0) = 0" "uint (greenc 0) = 0" "uint (bluec 0) = 0"
    by (simp_all add: redc_def greenc_def bluec_def)
  show ?thesis
    unfolding True compute_chroma_range_def z same [symmetric] by (auto simp: color_in_range_def)
next
  case False
  then show ?thesis
    unfolding compute_chroma_range_def color_in_range_def chroma_component [symmetric] by auto
qed

lemma is_color_hash: "is_color ''#''"
  by code_simp

end
