(* ===== verification/Dom.thy ===== *)
theory Dom
  imports Tree_Nav C_Lib
begin

text \<open>
  The nodes of a document (lib/node_impl.cpp, lib/node_impl.h). A node is a record on a heap that
  extends the links of Tree_Nav. The context of a node is the record \<open>node_context\<close> of what nodes
  ask the document: which prefixes are supported and what an attribute value template stands for.
  A null pointer is \<open>None\<close>; an outer \<open>None\<close> is a call that does not return or uses a null pointer.
\<close>

section \<open>Nodes\<close>

type_synonym q_name = "string \<times> string"
type_synonym q_attributes = "(q_name \<times> string) list"

record dnode =
  d_qname :: q_name
  d_local :: string
  d_qattrs :: q_attributes
  d_data :: string
  d_is_data :: bool
  d_ctx :: bool
  d_numid :: int

record node_context =
  cx_supported_prefix :: "string \<Rightarrow> bool"
  cx_apply_avt :: "nat \<Rightarrow> string \<Rightarrow> string \<Rightarrow> string"

record dom = links +
  dm_node :: "nat \<Rightarrow> dnode"
  dm_counter :: int
  dm_free :: nat

definition upd_node :: "nat \<Rightarrow> (dnode \<Rightarrow> dnode) \<Rightarrow> 'a dom_scheme \<Rightarrow> 'a dom_scheme" where
  "upd_node n f h = h\<lparr>dm_node := (dm_node h)(n := f (dm_node h n))\<rparr>"

text \<open>A new node gets the incremented counter as its number; the destructor decrements it.\<close>

definition alloc_node :: "dnode \<Rightarrow> 'a dom_scheme \<Rightarrow> nat \<times> 'a dom_scheme" where
  "alloc_node d h =
     (let n = dm_free h; c = to_int (dm_counter h + 1)
      in (n, h\<lparr>dm_free := n + 1, dm_counter := c, dm_node := (dm_node h)(n := d\<lparr>d_numid := c\<rparr>),
            ln_up := (ln_up h)(n := None), ln_down := (ln_down h)(n := None),
            ln_next := (ln_next h)(n := None), ln_live := insert n (ln_live h)\<rparr>))"

definition set_attr :: "string \<Rightarrow> string \<Rightarrow> dnode \<Rightarrow> dnode" where
  "set_attr name value d = (if name \<noteq> [] then d\<lparr>d_qattrs := d_qattrs d @ [(([], name), value)]\<rparr> else d)"

definition set_attribute :: "nat \<Rightarrow> string \<Rightarrow> string \<Rightarrow> 'a dom_scheme \<Rightarrow> 'a dom_scheme" where
  "set_attribute n name value h = upd_node n (set_attr name value) h"

fun set_attrs :: "(string \<times> string) list \<Rightarrow> dnode \<Rightarrow> dnode" where
  "set_attrs [] d = d"
| "set_attrs ((name, value) # attrs) d = set_attrs attrs (set_attr name value d)"

definition set_attributes :: "nat \<Rightarrow> (string \<times> string) list \<Rightarrow> 'a dom_scheme \<Rightarrow> 'a dom_scheme" where
  "set_attributes n attrs h = upd_node n (set_attrs attrs) h"

definition plain_node :: "q_name \<Rightarrow> string \<Rightarrow> bool \<Rightarrow> dnode" where
  "plain_node qn local ctx = \<lparr>d_qname = qn, d_local = local, d_qattrs = [], d_data = [],
     d_is_data = False, d_ctx = ctx, d_numid = 0\<rparr>"

definition new_node :: "string option \<Rightarrow> (string \<times> string) list \<Rightarrow> bool \<Rightarrow> 'a dom_scheme \<Rightarrow> nat \<times> 'a dom_scheme" where
  "new_node local_name attrs ctx h =
     (let name = (case local_name of Some s \<Rightarrow> s | None \<Rightarrow> ''error'')
      in alloc_node (set_attrs attrs (plain_node ([], name) name ctx)) h)"

definition local_name_of :: "node_context option \<Rightarrow> q_name \<Rightarrow> string" where
  "local_name_of ctx qn =
     (case ctx of
        None \<Rightarrow> snd qn
      | Some cx \<Rightarrow>
          if cx_supported_prefix cx (fst qn) then snd qn
          else if fst qn = [] then snd qn
          else fst qn @ '':'' @ snd qn)"

definition new_qnode :: "q_name \<Rightarrow> q_attributes \<Rightarrow> node_context option \<Rightarrow> 'a dom_scheme \<Rightarrow> nat \<times> 'a dom_scheme" where
  "new_qnode qn qattrs ctx h =
     alloc_node ((plain_node qn (local_name_of ctx qn) (ctx \<noteq> None))\<lparr>d_qattrs := qattrs\<rparr>) h"

definition copy_node :: "nat \<Rightarrow> 'a dom_scheme \<Rightarrow> nat \<times> 'a dom_scheme" where
  "copy_node other h =
     (let d = dm_node h other
      in alloc_node ((plain_node (d_qname d) (d_local d) (d_ctx d))
           \<lparr>d_qattrs := d_qattrs d, d_data := d_data d\<rparr>) h)"

definition new_data_node :: "string \<Rightarrow> bool \<Rightarrow> 'a dom_scheme \<Rightarrow> nat \<times> 'a dom_scheme" where
  "new_data_node data ctx h =
     alloc_node ((plain_node ([], []) [] ctx)\<lparr>d_data := data, d_is_data := True\<rparr>) h"

text \<open>
  The destructor decrements the counter and deletes the tree; every node of the branch runs it.
\<close>

definition delete_node :: "nat \<Rightarrow> 'a dom_scheme \<Rightarrow> 'a dom_scheme option" where
  "delete_node n h =
     do { h' \<leftarrow> delete_tree n h;
          Some (h'\<lparr>ln_live := ln_live h' - {n},
            dm_counter := to_int (dm_counter h - int (card (ln_live h - (ln_live h' - {n}))))\<rparr>) }"

section \<open>Searching\<close>

text \<open>The first child from \<open>e\<close> on with the name, after \<open>k - 1\<close> others of that name.\<close>

partial_function (option) nth_child_loop :: "'a dom_scheme \<Rightarrow> string \<Rightarrow> nat option \<Rightarrow> int \<Rightarrow> nat option option" where
  "nth_child_loop h name e n =
     (case e of
        None \<Rightarrow> Some None
      | Some e \<Rightarrow>
          if d_local (dm_node h e) = name then
            (if to_int (n - 1) = 0 then Some (Some e)
             else nth_child_loop h name (ln_next h e) (to_int (n - 1)))
          else nth_child_loop h name (ln_next h e) n)"

declare nth_child_loop.simps [code]

definition get_nth_child :: "'a dom_scheme \<Rightarrow> nat \<Rightarrow> string \<Rightarrow> int \<Rightarrow> nat option option" where
  "get_nth_child h this name n = nth_child_loop h name (ln_down h this) n"

partial_function (option) first_child_loop :: "'a dom_scheme \<Rightarrow> string \<Rightarrow> nat option \<Rightarrow> nat option option" where
  "first_child_loop h name e =
     (case e of
        None \<Rightarrow> Some None
      | Some e \<Rightarrow> if d_local (dm_node h e) = name then Some (Some e) else first_child_loop h name (ln_next h e))"

declare first_child_loop.simps [code]

definition get_first_child :: "'a dom_scheme \<Rightarrow> nat \<Rightarrow> string \<Rightarrow> nat option option" where
  "get_first_child h this name = first_child_loop h name (ln_down h this)"

text \<open>\<open>sscanf\<close> with the format \<open>[%d]\<close>, which leaves the index alone when it does not match.\<close>

definition scan_index :: "string \<Rightarrow> int \<Rightarrow> int" where
  "scan_index s idx =
     (case s of
        c # r \<Rightarrow> if c = CHR ''['' then (let (n, rest) = strtol 10 r in if rest = r then idx else to_int n) else idx
      | [] \<Rightarrow> idx)"

fun locate_loop :: "'a dom_scheme \<Rightarrow> string list \<Rightarrow> nat option \<Rightarrow> nat option option" where
  "locate_loop h [] n = Some n"
| "locate_loop h (part # comps) n =
     (case n of
        None \<Rightarrow> Some None
      | Some n \<Rightarrow>
          let name = takeWhile (\<lambda>c. c \<noteq> CHR ''['') part;
              idx = scan_index (dropWhile (\<lambda>c. c \<noteq> CHR ''['') part) 1
          in Option.bind (get_nth_child h n name idx) (locate_loop h comps))"

definition locate_node :: "'a dom_scheme \<Rightarrow> nat \<Rightarrow> string \<Rightarrow> nat option option" where
  "locate_node h this path =
     (if path = [] then Some (Some this)
      else let v = tokens_vector path ''/'' in
        if hd path = CHR ''/'' then
          do { root \<leftarrow> get_root h this;
               case tl v of
                 [] \<Rightarrow> Some (Some root)
               | name # comps \<Rightarrow>
                   if d_local (dm_node h root) \<noteq> name then Some None else locate_loop h comps (Some root) }
        else locate_loop h v (Some this))"

fun path_index :: "'a dom_scheme \<Rightarrow> string \<Rightarrow> nat \<Rightarrow> nat list \<Rightarrow> nat \<Rightarrow> nat" where
  "path_index h name n [] cnt = 0"
| "path_index h name n (k # ks) cnt =
     (if d_local (dm_node h k) = name
      then (if k = n then Suc cnt else path_index h name n ks (Suc cnt))
      else path_index h name n ks cnt)"

definition path_comp :: "'a dom_scheme \<Rightarrow> nat \<Rightarrow> string option" where
  "path_comp h n =
     (let name = d_local (dm_node h n) in
      case ln_up h n of
        None \<Rightarrow> Some name
      | Some parent \<Rightarrow>
          do { ks \<leftarrow> get_children h parent;
               let cnt = path_index h name n ks 0;
               Some (if 1 < cnt then name @ ''['' @ show_nat cnt @ '']'' else name) })"

fun xpath_loop :: "'a dom_scheme \<Rightarrow> nat list \<Rightarrow> string \<Rightarrow> string option" where
  "xpath_loop h [] sbuf = Some sbuf"
| "xpath_loop h (n # ns) sbuf = do { c \<leftarrow> path_comp h n; xpath_loop h ns (c @ ''/'' @ sbuf) }"

definition get_xpath :: "'a dom_scheme \<Rightarrow> nat \<Rightarrow> string option" where
  "get_xpath h n =
     do { path \<leftarrow> get_path h n; c \<leftarrow> path_comp h n; s \<leftarrow> xpath_loop h (tl (rev path)) c; Some (''/'' @ s) }"

section \<open>Building\<close>

definition append_named :: "nat \<Rightarrow> string \<Rightarrow> 'a dom_scheme \<Rightarrow> (nat \<times> 'a dom_scheme) option" where
  "append_named this name h =
     (let (c, h) = new_node (Some name) [] False h in map_option (Pair c) (append_child this c h))"

definition append_data :: "nat \<Rightarrow> string \<Rightarrow> 'a dom_scheme \<Rightarrow> 'a dom_scheme" where
  "append_data n s h = upd_node n (\<lambda>d. d\<lparr>d_data := d_data d @ s\<rparr>) h"

partial_function (option) clone_loop :: "nat \<Rightarrow> nat option \<Rightarrow> 'a dom_scheme \<Rightarrow> 'a dom_scheme option" where
  "clone_loop c x h =
     (case x of
        None \<Rightarrow> Some h
      | Some e \<Rightarrow>
          (case copy_node e h of
             (c', h) \<Rightarrow>
               do { h \<leftarrow> clone_loop c' (ln_down h e) h;
                    h \<leftarrow> append_child c c' h;
                    clone_loop c (ln_next h e) h }))"

declare clone_loop.simps [code]

definition clone :: "nat \<Rightarrow> 'a dom_scheme \<Rightarrow> (nat \<times> 'a dom_scheme) option" where
  "clone n h = (case copy_node n h of (c, h) \<Rightarrow> map_option (Pair c) (clone_loop c (ln_down h n) h))"

section \<open>Attributes and data\<close>

definition get_trimmed_data :: "'a dom_scheme \<Rightarrow> nat \<Rightarrow> string" where
  "get_trimmed_data h n = trim (d_data (dm_node h n))"

definition is_cgraph :: "char \<Rightarrow> bool" where
  "is_cgraph c \<longleftrightarrow> 33 \<le> (of_char c :: nat) \<and> (of_char c :: nat) \<le> 126"

definition has_graph_data :: "'a dom_scheme \<Rightarrow> nat \<Rightarrow> bool" where
  "has_graph_data h n \<longleftrightarrow> list_ex is_cgraph (d_data (dm_node h n))"

definition get_attribute :: "node_context \<Rightarrow> 'a dom_scheme \<Rightarrow> nat \<Rightarrow> string \<Rightarrow> string option" where
  "get_attribute cx h n name =
     (if name = [] then None
      else case find (\<lambda>a. snd (fst a) = name) (d_qattrs (dm_node h n)) of
             None \<Rightarrow> None
           | Some (_, value) \<Rightarrow>
               Some (if d_ctx (dm_node h n) \<and> CHR 0x7B \<in> set value then cx_apply_avt cx n name value else value))"

text \<open>
  \<open>remove\<close> takes all entries equal to the found one away and the search starts again.
\<close>

function del_attrs :: "string \<Rightarrow> q_attributes \<Rightarrow> q_attributes" where
  "del_attrs name as =
     (case find (\<lambda>a. snd (fst a) = name) as of
        None \<Rightarrow> as
      | Some a \<Rightarrow> del_attrs name (removeAll a as))"
  by pat_completeness auto
termination
proof (relation "measure (\<lambda>(_, as). length as)", goal_cases)
  case 1
  show ?case by simp
next
  case (2 name as a)
  then have "a \<in> set as" by (auto simp: find_Some_iff)
  then show ?case by (simp add: length_removeAll_less)
qed

declare del_attrs.simps [simp del]

definition del_attribute :: "nat \<Rightarrow> string \<Rightarrow> 'a dom_scheme \<Rightarrow> 'a dom_scheme" where
  "del_attribute n name h =
     (if name = [] then h else upd_node n (\<lambda>d. d\<lparr>d_qattrs := del_attrs name (d_qattrs d)\<rparr>) h)"

partial_function (option) container_loop ::
    "node_context \<Rightarrow> 'a dom_scheme \<Rightarrow> string \<Rightarrow> nat \<Rightarrow> string option option" where
  "container_loop cx h name n =
     (case ln_up h n of
        None \<Rightarrow> Some None
      | Some u \<Rightarrow>
          (case get_attribute cx h u name of
             Some p \<Rightarrow> Some (Some p)
           | None \<Rightarrow> container_loop cx h name u))"

declare container_loop.simps [code]

definition get_container_attribute :: "node_context \<Rightarrow> 'a dom_scheme \<Rightarrow> nat \<Rightarrow> string \<Rightarrow> string option option" where
  "get_container_attribute cx h n name = (if name = [] then Some None else container_loop cx h name n)"

section \<open>Text\<close>

definition quoted :: "string \<Rightarrow> string" where
  "quoted s = CHR 0x22 # s @ [CHR 0x22]"

definition xmlrepr :: "'a dom_scheme \<Rightarrow> nat \<Rightarrow> string" where
  "xmlrepr h n =
     snd (d_qname (dm_node h n))
     @ concat (map (\<lambda>(qn, v). '' '' @ snd qn @ ''='' @ quoted v) (d_qattrs (dm_node h n)))"

definition get_sig :: "node_context \<Rightarrow> 'a dom_scheme \<Rightarrow> nat \<Rightarrow> string" where
  "get_sig cx h n =
     ''<'' @ d_local (dm_node h n)
     @ (case get_attribute cx h n ''id'' of
          Some pid \<Rightarrow> '' id='' @ quoted pid
        | None \<Rightarrow>
            (case get_attribute cx h n ''src'' of Some pid \<Rightarrow> '' src='' @ quoted pid | None \<Rightarrow> []))
     @ (case get_attribute cx h n ''_debug'' of Some debug \<Rightarrow> '' _debug='' @ quoted debug | None \<Rightarrow> [])
     @ ''>''"

definition visits :: "'a dom_scheme \<Rightarrow> nat \<Rightarrow> (bool \<times> nat) list option" where
  "visits h n = iter_visits h (mk_iter n) []"

definition size_of :: "'a dom_scheme \<Rightarrow> nat \<Rightarrow> nat option" where
  "size_of h n = map_option (\<lambda>vs. length (filter fst vs)) (visits h n)"

definition newline :: string where "newline = [CHR 0x0A]"

text \<open>The indentation is a tab for each level.\<close>

definition output_visit :: "'a dom_scheme \<Rightarrow> bool \<times> nat \<Rightarrow> string \<times> string \<Rightarrow> (string \<times> string) option" where
  "output_visit h v st =
     (case (v, st) of ((start, n), (writesp, os)) \<Rightarrow>
        let data = d_data (dm_node h n);
            shown = (data \<noteq> [] \<and> has_graph_data h n);
            tag = ''<'' @ xmlrepr h n;
            endtag = ''</'' @ d_local (dm_node h n) @ ''>'' @ newline
        in if start then
             (if d_is_data (dm_node h n) then Some (writesp, os @ data)
              else if ln_down h n = None then
                Some (writesp, os @ writesp @ tag @ (if shown then ''>'' @ data @ endtag else ''/>'' @ newline))
              else Some (writesp @ [CHR 0x09],
                     os @ writesp @ tag @ ''>'' @ (if shown then data else []) @ newline))
           else if ln_down h n \<noteq> None then
             (if writesp = [] then None else Some (butlast writesp, os @ butlast writesp @ endtag))
           else Some (writesp, os))"

definition dom_to_string :: "'a dom_scheme \<Rightarrow> nat \<Rightarrow> string option" where
  "dom_to_string h n = do { vs \<leftarrow> visits h n; st \<leftarrow> foldm (output_visit h) vs ([], []); Some (snd st) }"

definition trimmed_visit :: "'a dom_scheme \<Rightarrow> bool \<times> nat \<Rightarrow> string \<Rightarrow> string" where
  "trimmed_visit h v os =
     (case v of (start, n) \<Rightarrow>
        let data = get_trimmed_data h n;
            tag = ''<'' @ xmlrepr h n;
            endtag = ''</'' @ d_local (dm_node h n) @ ''>''
        in if start then
             (if ln_down h n = None then os @ tag @ (if data = [] then ''/>'' else ''>'' @ data @ endtag)
              else os @ tag @ ''>'' @ data)
           else if ln_down h n \<noteq> None then os @ endtag
           else os)"

definition to_trimmed_string :: "'a dom_scheme \<Rightarrow> nat \<Rightarrow> string option" where
  "to_trimmed_string h n = map_option (\<lambda>vs. fold (trimmed_visit h) vs []) (visits h n)"

definition collect_attr :: "node_context \<Rightarrow> 'a dom_scheme \<Rightarrow> string \<Rightarrow> bool \<times> nat \<Rightarrow> (string \<rightharpoonup> nat) \<Rightarrow> (string \<rightharpoonup> nat)" where
  "collect_attr cx h attr v m =
     (if fst v then (case get_attribute cx h (snd v) attr of Some value \<Rightarrow> m(value \<mapsto> snd v) | None \<Rightarrow> m)
      else m)"

definition create_idmap :: "node_context \<Rightarrow> 'a dom_scheme \<Rightarrow> nat \<Rightarrow> (string \<rightharpoonup> nat) \<Rightarrow> (string \<rightharpoonup> nat) option" where
  "create_idmap cx h n m = map_option (\<lambda>vs. fold (collect_attr cx h ''id'') vs m) (visits h n)"

section \<open>Paths\<close>

lemma nth_child_index:
  assumes "siblings h p ks" "k \<in> set ks" "distinct ks" "d_local (dm_node h k) = name"
    and "length ks < 2 ^ 31"
  shows "\<exists>m. path_index h name k ks c = c + m \<and> 1 \<le> m \<and> m \<le> length ks
    \<and> nth_child_loop h name (first_of ks) (int m) = Some (Some k)"
  using assms
proof (induction ks arbitrary: c)
  case Nil
  then show ?case by simp
next
  case (Cons x xs)
  have nx: "ln_next h x = first_of xs" and sib: "siblings h p xs" using Cons.prems by simp_all
  show ?case
  proof (cases "x = k")
    case True
    then show ?thesis using Cons.prems(4)
      by (intro exI [of _ 1]) (subst nth_child_loop.simps; simp add: to_int_def)
  next
    case False
    with Cons.prems have k: "k \<in> set xs" "distinct xs" "length xs < 2 ^ 31" by simp_all
    show ?thesis
    proof (cases "d_local (dm_node h x) = name")
      case True
      obtain m where m: "path_index h name k xs (Suc c) = Suc c + m" "1 \<le> m" "m \<le> length xs"
        "nth_child_loop h name (first_of xs) (int m) = Some (Some k)"
        using Cons.IH [OF sib k(1,2) Cons.prems(4) k(3), of "Suc c"] by blast
      have "is_int (int m)" using m(3) k(3) by (simp add: is_int_def)
      then show ?thesis using m True False nx
        by (intro exI [of _ "Suc m"]) (subst nth_child_loop.simps; simp)
    next
      case other: False
      obtain m where m: "path_index h name k xs c = c + m" "1 \<le> m" "m \<le> length xs"
        "nth_child_loop h name (first_of xs) (int m) = Some (Some k)"
        using Cons.IH [OF sib k(1,2) Cons.prems(4) k(3), of c] by blast
      then show ?thesis using other False nx
        by (intro exI [of _ m]) (subst nth_child_loop.simps; simp)
    qed
  qed
qed

definition path_name :: "string \<Rightarrow> bool" where
  "path_name s \<longleftrightarrow> CHR ''/'' \<notin> set s \<and> CHR ''['' \<notin> set s"

lemma digit_chars: "list_all is_digit s \<Longrightarrow> c \<in> {CHR ''/'', CHR ''['', CHR '']''} \<Longrightarrow> c \<notin> set s"
  by (auto simp: list_all_iff is_digit_def)

lemma takeWhile_to: "c \<notin> set a \<Longrightarrow> takeWhile (\<lambda>x. x \<noteq> c) (a @ c # b) = a \<and> dropWhile (\<lambda>x. x \<noteq> c) (a @ c # b) = c # b"
  by (induction a) auto

lemma takeWhile_all: "c \<notin> set a \<Longrightarrow> takeWhile (\<lambda>x. x \<noteq> c) a = a \<and> dropWhile (\<lambda>x. x \<noteq> c) a = []"
  by (induction a) auto

lemma length_forest: "length us \<le> length (concat (map nodes us))"
proof (induction us)
  case (Cons u us)
  have "1 \<le> length (nodes u)" by (cases u) simp
  with Cons show ?case by simp
qed simp

text \<open>The component of a child leads from its parent to it.\<close>

lemma path_comp_step:
  assumes fam: "family h u ks" and k: "k \<in> set ks" "distinct ks" "length ks < 2 ^ 31"
    and name: "path_name (d_local (dm_node h k))"
  shows "\<exists>c. path_comp h k = Some c \<and> CHR ''/'' \<notin> set c
    \<and> locate_loop h (c # cs) (Some u) = locate_loop h cs (Some k)"
proof -
  let ?name = "d_local (dm_node h k)"
  have sib: "siblings h u ks" and down: "ln_down h u = first_of ks" using fam by (simp_all add: family_def)
  obtain m where m: "path_index h ?name k ks 0 = m" "1 \<le> m" "m \<le> length ks"
    "nth_child_loop h ?name (first_of ks) (int m) = Some (Some k)"
    using nth_child_index [OF sib k(1,2) refl k(3), of 0] by auto
  have up: "ln_up h k = Some u" using siblings_up [OF sib k(1)] .
  have comp: "path_comp h k = Some (if 1 < m then ?name @ ''['' @ show_nat m @ '']'' else ?name)"
    using get_children_family [OF fam] m(1) by (simp add: path_comp_def up Let_def)
  have nb: "CHR ''['' \<notin> set ?name" "CHR ''/'' \<notin> set ?name" using name by (simp_all add: path_name_def)
  show ?thesis
  proof (cases "1 < m")
    case True
    have "is_int (int m)" using m(3) k(3) by (simp add: is_int_def)
    then have "strtol 10 (show_int (int m) @ '']'') = (int m, '']'')"
      by (rule strtol_show_int) (simp add: is_digit_def)
    then have "strtol 10 (show_nat m @ '']'') = (int m, '']'')" by (simp add: show_int_def)
    then have "scan_index (''['' @ show_nat m @ '']'') 1 = int m"
      using \<open>is_int (int m)\<close> by (simp add: scan_index_def)
    moreover have "CHR ''/'' \<notin> set (show_nat m)" using digit_chars [OF show_nat_digits] by blast
    ultimately show ?thesis
      using comp True nb m(4) down takeWhile_to [OF nb(1), of "show_nat m @ '']''"]
      by (simp add: get_nth_child_def Let_def)
  next
    case False
    with m(2) have "m = 1" by simp
    then have "path_comp h k = Some ?name" "get_nth_child h u ?name 1 = Some (Some k)"
      using comp m(4) down by (simp_all add: get_nth_child_def)
    then have "locate_loop h (?name # cs) (Some u) = locate_loop h cs (Some k)"
      unfolding locate_loop.simps option.case Let_def takeWhile_all [OF nb(1), THEN conjunct1]
        takeWhile_all [OF nb(1), THEN conjunct2]
      by (simp add: scan_index_def)
    with \<open>path_comp h k = Some ?name\<close> nb(2) show ?thesis by blast
  qed
qed

lemma locate_path:
  assumes "path_in t p" "represents h t" "distinct (nodes t)" "length (nodes t) < 2 ^ 31"
    and "\<forall>n \<in> set (nodes t). path_name (d_local (dm_node h n))"
  shows "\<exists>cs. map (path_comp h) (tl p) = map Some cs \<and> (\<forall>c \<in> set cs. CHR ''/'' \<notin> set c)
    \<and> locate_loop h cs (Some (label t)) = Some (Some (last p))"
  using assms
proof (induction rule: path_in.induct)
  case (here n ts)
  then show ?case by simp
next
  case (deeper s ts p n)
  have rep: "represents h s" using deeper.prems(1) deeper.hyps(1) by (rule represents_sub)
  have part: "part_of s (Node n ts)" using deeper.hyps(1) by (auto intro: part_of.intros)
  have dist: "distinct (nodes s)" using part deeper.prems(2) by (rule distinct_part)
  have sub: "set (nodes s) \<subseteq> set (nodes (Node n ts))" using deeper.hyps(1) by auto
  then have "card (set (nodes s)) \<le> card (set (nodes (Node n ts)))" by (intro card_mono) simp_all
  then have len: "length (nodes s) < 2 ^ 31"
    using deeper.prems(3) distinct_card [OF dist] distinct_card [OF deeper.prems(2)] by linarith
  obtain cs where cs: "map (path_comp h) (tl p) = map Some cs" "\<forall>c \<in> set cs. CHR ''/'' \<notin> set c"
    "locate_loop h cs (Some (label s)) = Some (Some (last p))"
    using deeper.IH [OF rep dist len] deeper.prems(4) sub by blast
  have fam: "family h n (map label ts)" using deeper.prems(1) by (rule represents_family)
  have dk: "distinct (map label ts)" "length ts \<le> length (concat (map nodes ts))"
    using kids_distinct [of n "map label ts" "Node n ts"] deeper.prems(2) length_forest [of ts] by simp_all
  have k: "label s \<in> set (map label ts)" using deeper.hyps(1) by simp
  have nm: "path_name (d_local (dm_node h (label s)))" using deeper.prems(4) sub label_in_nodes [of s] by blast
  obtain c where c: "path_comp h (label s) = Some c" "CHR ''/'' \<notin> set c"
    "locate_loop h (c # cs) (Some n) = locate_loop h cs (Some (label s))"
    using path_comp_step [OF fam k dk(1) _ nm, of cs] dk(2) deeper.prems(3) by auto
  have "p \<noteq> []" "hd p = label s" using path_in_hd [OF deeper.hyps(2)] by simp_all
  then have "p = label s # tl p" by (cases p) auto
  then have "map (path_comp h) (tl (n # p)) = map Some (c # cs)" using cs(1) c(1) by (metis list.sel(3) list.simps(9))
  then show ?case using cs c \<open>p \<noteq> []\<close> by (intro exI [of _ "c # cs"]) simp
qed

lemma tokens_joined:
  assumes "\<forall>c \<in> set cs. sep \<notin> set c" "sep \<notin> set a"
  shows "tokens_vector (a @ concat (map (\<lambda>c. sep # c) cs)) [sep] = a # cs"
  using assms
proof (induction cs arbitrary: a)
  case Nil
  then have "dropWhile (\<lambda>c. c \<notin> set [sep]) a = []" by (simp add: dropWhile_eq_Nil_conv) blast
  then show ?case by (simp add: tokens_vector_Nil)
next
  case (Cons c cs)
  have d: "(\<lambda>c. c \<notin> set [sep]) = (\<lambda>c. c \<noteq> sep)" by auto
  let ?r = "c @ concat (map (\<lambda>c. sep # c) cs)"
  note tw = takeWhile_to [OF Cons.prems(2), of ?r, folded d]
  have "tokens_vector (a @ sep # ?r) [sep] = a # tokens_vector ?r [sep]"
    using tokens_vector_Cons [OF tw [THEN conjunct2]] tw by simp
  with Cons show ?case by simp
qed

lemma xpath_loop_comps:
  "map (path_comp h) ns = map Some cs \<Longrightarrow>
   xpath_loop h (rev ns) s = Some (concat (map (\<lambda>c. c @ ''/'') cs) @ s)"
proof (induction ns arbitrary: cs s rule: rev_induct)
  case Nil
  then show ?case by simp
next
  case (snoc n ns)
  then obtain c cs' where cs: "cs = cs' @ [c]" "map (path_comp h) ns = map Some cs'" "path_comp h n = Some c"
    by (cases cs rule: rev_cases) auto
  then show ?case using snoc.IH [OF cs(2)] by simp
qed

lemma slashes_shift: "''/'' @ concat (map (\<lambda>c. c @ ''/'') cs) @ c = concat (map (\<lambda>c. CHR ''/'' # c) (cs @ [c]))"
  by (induction cs) simp_all

text \<open>
  C13: The path \<open>get_xpath\<close> prints for a node leads \<open>locate_node\<close> back to that node, from every
  node of the same document, when the document has fewer than \<open>2 ^ 31\<close> nodes and no local name holds
  a slash or an opening bracket. The local names of elements from unknown namespaces do hold slashes.
\<close>

theorem xpath_located:
  assumes "is_tree h t" "length (nodes t) < 2 ^ 31" "n \<in> set (nodes t)" "m \<in> set (nodes t)"
    and "\<forall>n \<in> set (nodes t). path_name (d_local (dm_node h n))"
  shows "\<exists>s. get_xpath h n = Some s \<and> locate_node h m s = Some (Some n)"
proof -
  obtain p where p: "path_in t p" "last p = n" using path_exists [OF assms(3)] by blast
  obtain q where q: "path_in t q" "last q = m" using path_exists [OF assms(4)] by blast
  have root: "get_root h m = Some (label t)" using get_root_in [OF assms(1) q(1)] q(2) by simp
  have path: "get_path h n = Some p" using get_path_in [OF assms(1) p(1)] p(2) by simp
  obtain cs where cs: "map (path_comp h) (tl p) = map Some cs" "\<forall>c \<in> set cs. CHR ''/'' \<notin> set c"
    "locate_loop h cs (Some (label t)) = Some (Some n)"
    using locate_path [OF p(1) _ _ assms(2,5)] assms(1) p(2) by (auto simp: is_tree_def)
  let ?r = "d_local (dm_node h (label t))"
  have r: "path_comp h (label t) = Some ?r" "CHR ''/'' \<notin> set ?r"
    using assms(1,5) by (auto simp: path_comp_def is_tree_def path_name_def Let_def)
  have p0: "p = label t # tl p" using path_in_hd [OF p(1)] by (cases p) auto
  have all: "map (path_comp h) p = map Some (?r # cs)" using cs(1) r(1) p0 by (metis list.simps(9))
  obtain c cs' where c: "?r # cs = cs' @ [c]" by (metis rev_exhaust list.distinct(1))
  obtain ns where ns: "p = ns @ [n]" using p(2) p0 by (metis append_butlast_last_id list.distinct(1))
  have "map (path_comp h) ns = map Some cs'" "path_comp h n = Some c"
    using all unfolding c ns by simp_all
  then have "get_xpath h n = Some (''/'' @ concat (map (\<lambda>c. c @ ''/'') cs') @ c)"
    using xpath_loop_comps [of h ns cs' c] by (simp add: get_xpath_def path ns)
  then have x: "get_xpath h n = Some (concat (map (\<lambda>c. CHR ''/'' # c) (?r # cs)))"
    unfolding slashes_shift c .
  have "tokens_vector ([] @ concat (map (\<lambda>c. CHR ''/'' # c) (?r # cs))) ''/'' = [] # ?r # cs"
    using cs(2) r(2) by (intro tokens_joined) auto
  then have "locate_node h m (concat (map (\<lambda>c. CHR ''/'' # c) (?r # cs))) = Some (Some n)"
    using root cs(3) by (simp add: locate_node_def)
  with x show ?thesis by blast
qed

text \<open>A document with two paragraphs under the body, the second one with a child.\<close>

definition example_dom :: dom where
  "example_dom =
     (let mk = (\<lambda>s. plain_node ([], s) s False)
      in \<lparr>ln_up = [1 \<mapsto> 0, 2 \<mapsto> 0, 3 \<mapsto> 2], ln_down = [0 \<mapsto> 1, 2 \<mapsto> 3], ln_next = [1 \<mapsto> 2],
          ln_live = {0, 1, 2, 3},
          dm_node = (\<lambda>_. mk ''img'')(0 := mk ''body'', 1 := mk ''par'', 2 := mk ''par''),
          dm_counter = 4, dm_free = 4\<rparr>)"

definition example_shape :: tree where
  "example_shape = Node 0 [Node 1 [], Node 2 [Node 3 []]]"

lemma example_dom_tree: "is_tree example_dom example_shape"
  by (simp add: is_tree_def represents_def family_def example_dom_def example_shape_def Let_def)

theorem xpath_located_witness:
  "get_xpath example_dom 3 = Some ''/body/par[2]/img'' \<and> locate_node example_dom 1 ''/body/par[2]/img'' = Some (Some 3)"
proof -
  have "get_xpath example_dom 3 = Some ''/body/par[2]/img''" by code_simp
  moreover have "\<forall>n \<in> set (nodes example_shape). path_name (d_local (dm_node example_dom n))"
    by (simp add: example_shape_def example_dom_def path_name_def plain_node_def Let_def)
  ultimately show ?thesis
    using xpath_located [OF example_dom_tree, of 3 1] by (auto simp: example_shape_def)
qed

end
