(* ===== verification/Region_Node.thy ===== *)
theory Region_Node
  imports Region_Dim Colors Dom Floats
begin

text \<open>
  The regions of a layout (smil2/region_node.cpp, smil2/region_node.h): what a region takes from the
  attributes of its element, the values an animation displays instead, and the rectangle, colour,
  image and tiling a region inherits from others. Regions are records on a heap that extends the
  links of Tree_Nav. Sound levels and opacities are floating point numbers, which may be no number;
  \<open>strtod\<close> and the conversion of decibels are arguments. \<open>None\<close> is a recursion that does not end.
\<close>

section \<open>Regions\<close>

datatype dim_inherit = DI_none | DI_parent | DI_rootlayout | DI_stored

datatype fit_t = Fit_default | Fit_hidden | Fit_fill | Fit_meet | Fit_meetbest | Fit_scroll | Fit_slice

datatype sound_alignment = SA_default | SA_both | SA_left | SA_right

datatype tiling = Tiling_default | Tiling_none | Tiling_inherit | Tiling_horizontal | Tiling_vertical | Tiling_both

text \<open>The values an animation changes, the members \<open>m_display_\<close>.\<close>

record display =
  dp_rds :: rds
  dp_zindex :: int
  dp_bgcolor :: color
  dp_soundlevel :: fl
  dp_soundalign :: sound_alignment
  dp_panzoom :: rds
  dp_bgopacity :: fl
  dp_mediaopacity :: fl
  dp_mediabgopacity :: fl
  dp_chromakeyopacity :: fl
  dp_chromakey :: color
  dp_chromakeytolerance :: color

text \<open>\<open>rn_tag\<close> is the tag of the element \<open>rn_node\<close>, which never changes.\<close>

record region_node =
  rn_node :: nat
  rn_tag :: string
  rn_rds :: rds
  rn_dim_inherit :: dim_inherit
  rn_stored :: rect
  rn_fit :: fit_t
  rn_zindex :: int
  rn_transparent :: bool
  rn_bgcolor :: color
  rn_soundlevel :: fl
  rn_soundalign :: sound_alignment
  rn_panzoom :: rds
  rn_mediaopacity :: fl
  rn_mediabgopacity :: fl
  rn_chromakey_specified :: bool
  rn_chromakeyopacity :: fl
  rn_chromakey :: color
  rn_chromakeytolerance :: color
  rn_bgimage :: "string option"
  rn_tiling :: tiling
  rn_bgopacity :: fl
  rn_showbackground :: bool
  rn_inherit_bgcolor :: bool
  rn_is_subregion :: bool
  rn_display :: display

definition subregionattrs :: "string list" where
  "subregionattrs =
     [''left'', ''width'', ''right'', ''top'', ''height'', ''bottom'', ''backgroundColor'', ''background-color'',
      ''transparent'', ''fit'', ''soundLevel'', ''soundAlign'', ''panZoom'', ''backgroundOpacity'',
      ''mediaOpacity'', ''mediaBackgroundOpacity'', ''chromaKeyOpacity'', ''chromaKey'', ''chromaKeyTolerance'']"

definition needs_region_node :: "(string \<Rightarrow> string option) \<Rightarrow> bool" where
  "needs_region_node attr = list_ex (\<lambda>a. attr a \<noteq> None) subregionattrs"

definition get_regiondim_attr :: "(string \<Rightarrow> string option) \<Rightarrow> string \<Rightarrow> region_dim" where
  "get_regiondim_attr attr name =
     (case attr name of
        None \<Rightarrow> RAuto
      | Some v \<Rightarrow>
          if v = [] \<or> v = ''auto'' then RAuto
          else let (l, endptr) = strtol 10 v; ivalue = to_int l
               in if endptr = [] \<or> endptr = ''px'' then RAbsolute ivalue
                  else if hd endptr = CHR 0x25 then RRelative (of_int ivalue / 100)
                  else RAuto)"

text \<open>The constructor leaves most display values as they are in memory.\<close>

definition new_region_node :: "nat \<Rightarrow> string \<Rightarrow> dim_inherit \<Rightarrow> display \<Rightarrow> region_node" where
  "new_region_node n tag di mem =
     \<lparr>rn_node = n, rn_tag = tag, rn_rds = rds_auto, rn_dim_inherit = di, rn_stored = \<lparr>r_x = 0, r_y = 0, r_w = 0, r_h = 0\<rparr>,
      rn_fit = Fit_default, rn_zindex = 0, rn_transparent = True, rn_bgcolor = to_color 0 0 0,
      rn_soundlevel = Fin 1, rn_soundalign = SA_default, rn_panzoom = rds_auto, rn_mediaopacity = Fin 1,
      rn_mediabgopacity = Fin 1, rn_chromakey_specified = False, rn_chromakeyopacity = Fin 0,
      rn_chromakey = to_color 0 0 0, rn_chromakeytolerance = to_color 0 0 0, rn_bgimage = None,
      rn_tiling = Tiling_default, rn_bgopacity = Fin 1, rn_showbackground = True, rn_inherit_bgcolor = False,
      rn_is_subregion = False, rn_display = mem\<lparr>dp_rds := rds_auto, dp_panzoom := rds_auto\<rparr>\<rparr>"

section \<open>Setting values\<close>

definition upd_display :: "(display \<Rightarrow> display) \<Rightarrow> region_node \<Rightarrow> region_node" where
  "upd_display f r = r\<lparr>rn_display := f (rn_display r)\<rparr>"

definition set_bgcolor :: "color \<Rightarrow> bool \<Rightarrow> bool \<Rightarrow> region_node \<Rightarrow> region_node" where
  "set_bgcolor c transparent inherit r =
     upd_display (\<lambda>d. d\<lparr>dp_bgcolor := c\<rparr>) (r\<lparr>rn_bgcolor := c, rn_transparent := transparent, rn_inherit_bgcolor := inherit\<rparr>)"

definition set_zindex :: "int \<Rightarrow> region_node \<Rightarrow> region_node" where
  "set_zindex z r = upd_display (\<lambda>d. d\<lparr>dp_zindex := z\<rparr>) (r\<lparr>rn_zindex := z\<rparr>)"

definition set_soundlevel :: "fl \<Rightarrow> region_node \<Rightarrow> region_node" where
  "set_soundlevel l r = upd_display (\<lambda>d. d\<lparr>dp_soundlevel := l\<rparr>) (r\<lparr>rn_soundlevel := l\<rparr>)"

definition set_soundalign :: "sound_alignment \<Rightarrow> region_node \<Rightarrow> region_node" where
  "set_soundalign sa r = upd_display (\<lambda>d. d\<lparr>dp_soundalign := sa\<rparr>) (r\<lparr>rn_soundalign := sa\<rparr>)"

definition set_panzoom :: "rds \<Rightarrow> region_node \<Rightarrow> region_node" where
  "set_panzoom p r = upd_display (\<lambda>d. d\<lparr>dp_panzoom := p\<rparr>) (r\<lparr>rn_panzoom := p\<rparr>)"

definition set_bgopacity :: "fl \<Rightarrow> region_node \<Rightarrow> region_node" where
  "set_bgopacity l r = upd_display (\<lambda>d. d\<lparr>dp_bgopacity := l\<rparr>) (r\<lparr>rn_bgopacity := l\<rparr>)"

definition set_mediaopacity :: "fl \<Rightarrow> region_node \<Rightarrow> region_node" where
  "set_mediaopacity l r = upd_display (\<lambda>d. d\<lparr>dp_mediaopacity := l\<rparr>) (r\<lparr>rn_mediaopacity := l\<rparr>)"

definition set_mediabgopacity :: "fl \<Rightarrow> region_node \<Rightarrow> region_node" where
  "set_mediabgopacity l r = upd_display (\<lambda>d. d\<lparr>dp_mediabgopacity := l\<rparr>) (r\<lparr>rn_mediabgopacity := l\<rparr>)"

definition set_chromakeyopacity :: "fl \<Rightarrow> region_node \<Rightarrow> region_node" where
  "set_chromakeyopacity l r = upd_display (\<lambda>d. d\<lparr>dp_chromakeyopacity := l\<rparr>) (r\<lparr>rn_chromakeyopacity := l\<rparr>)"

definition set_chromakey :: "color \<Rightarrow> region_node \<Rightarrow> region_node" where
  "set_chromakey c r = upd_display (\<lambda>d. d\<lparr>dp_chromakey := c\<rparr>) (r\<lparr>rn_chromakey := c\<rparr>)"

definition set_chromakeytolerance :: "color \<Rightarrow> region_node \<Rightarrow> region_node" where
  "set_chromakeytolerance c r = upd_display (\<lambda>d. d\<lparr>dp_chromakeytolerance := c\<rparr>) (r\<lparr>rn_chromakeytolerance := c\<rparr>)"

definition fix_from_region_node :: "region_node \<Rightarrow> region_node \<Rightarrow> region_node" where
  "fix_from_region_node parent r =
     (let d = rn_display parent;
          r = set_soundlevel (dp_soundlevel d) r;
          r = set_soundalign (dp_soundalign d) r;
          r = set_mediaopacity (dp_mediaopacity d) r;
          r = set_mediabgopacity (dp_mediabgopacity d) r;
          r = set_chromakey (dp_chromakey d) r;
          r = set_chromakeyopacity (dp_chromakeyopacity d) r
      in set_chromakeytolerance (dp_chromakeytolerance d) r)"

section \<open>From the attributes\<close>

text \<open>Each block of \<open>fix_from_dom_node\<close> says whether it changed the region.\<close>

type_synonym attrs = "string \<Rightarrow> string option"
type_synonym fixer = "region_node \<Rightarrow> bool \<times> region_node"

definition fix_dims :: "attrs \<Rightarrow> fixer" where
  "fix_dims attr r =
     (let spec = \<lparr>rd_left = get_regiondim_attr attr ''left'', rd_width = get_regiondim_attr attr ''width'',
                  rd_right = get_regiondim_attr attr ''right'', rd_top = get_regiondim_attr attr ''top'',
                  rd_height = get_regiondim_attr attr ''height'', rd_bottom = get_regiondim_attr attr ''bottom''\<rparr>;
          changed = (\<not> rds_eq spec (rn_rds r));
          r = (if changed then r\<lparr>rn_rds := spec\<rparr> else r)
      in (changed, upd_display (\<lambda>d. d\<lparr>dp_rds := rn_rds r\<rparr>) r))"

definition bgcolor_of :: "attrs \<Rightarrow> color \<times> bool \<times> bool" where
  "bgcolor_of attr =
     (let a = (case attr ''backgroundColor'' of
                 Some s \<Rightarrow> s
               | None \<Rightarrow> (case attr ''background-color'' of Some s \<Rightarrow> s | None \<Rightarrow> ''transparent''))
      in if a = ''transparent'' then (to_color 0 0 0, True, False)
         else if a = ''inherit'' then (to_color 0 0 0, True, True)
         else if \<not> is_color a then (to_color 0 0 0, True, False)
         else (parse_color a, False, False))"

definition fix_bgcolor :: "attrs \<Rightarrow> fixer" where
  "fix_bgcolor attr r =
     (case bgcolor_of attr of (c, transparent, inherit) \<Rightarrow>
        (c \<noteq> rn_bgcolor r \<or> transparent \<noteq> rn_transparent r \<or> inherit \<noteq> rn_inherit_bgcolor r,
         set_bgcolor c transparent inherit r))"

definition fix_showbackground :: "attrs \<Rightarrow> fixer" where
  "fix_showbackground attr r =
     (let sbg = (attr ''showBackground'' \<noteq> Some ''whenActive'')
      in (sbg \<noteq> rn_showbackground r, r\<lparr>rn_showbackground := sbg\<rparr>))"

definition fit_of :: "string option \<Rightarrow> fit_t" where
  "fit_of a =
     (case a of
        None \<Rightarrow> Fit_default
      | Some s \<Rightarrow>
          if s = ''fill'' then Fit_fill
          else if s = ''hidden'' then Fit_hidden
          else if s = ''meet'' then Fit_meet
          else if s = ''meetBest'' then Fit_meetbest
          else if s = ''scroll'' then Fit_scroll
          else if s = ''slice'' then Fit_slice
          else Fit_default)"

definition fix_fit :: "attrs \<Rightarrow> fixer" where
  "fix_fit attr r = (let fit = fit_of (attr ''fit'') in (fit \<noteq> rn_fit r, r\<lparr>rn_fit := fit\<rparr>))"

definition fix_zindex :: "attrs \<Rightarrow> fixer" where
  "fix_zindex attr r =
     (let z = (case attr ''z-index'' of None \<Rightarrow> 0 | Some a \<Rightarrow> to_int (fst (strtol 10 a)))
      in (z \<noteq> rn_zindex r, set_zindex z r))"

type_synonym float_parser = "string \<Rightarrow> fl \<times> string"

definition soundlevel_of :: "float_parser \<Rightarrow> (fl \<Rightarrow> fl) \<Rightarrow> string option \<Rightarrow> fl \<Rightarrow> fl" where
  "soundlevel_of strtod decibel a old =
     (case a of
        None \<Rightarrow> old
      | Some s \<Rightarrow>
          (case strtod s of (sl, lastp) \<Rightarrow>
             if lastp \<noteq> [] \<and> hd lastp = CHR 0x25 then fscale (1 / 100) sl
             else if lastp = ''dB'' then decibel sl
             else fscale (1 / 100) sl))"

definition fix_soundlevel :: "float_parser \<Rightarrow> (fl \<Rightarrow> fl) \<Rightarrow> attrs \<Rightarrow> fixer" where
  "fix_soundlevel strtod decibel attr r =
     (let sl = soundlevel_of strtod decibel (attr ''soundLevel'') (rn_soundlevel r)
      in (\<not> feq sl (rn_soundlevel r), set_soundlevel sl r))"

definition soundalign_of :: "string option \<Rightarrow> sound_alignment \<Rightarrow> sound_alignment" where
  "soundalign_of a old =
     (case a of
        None \<Rightarrow> old
      | Some s \<Rightarrow>
          if s = ''both'' then SA_both else if s = ''left'' then SA_left else if s = ''right'' then SA_right else old)"

definition fix_soundalign :: "attrs \<Rightarrow> fixer" where
  "fix_soundalign attr r =
     (let sa = soundalign_of (attr ''soundAlign'') (rn_soundalign r)
      in (sa \<noteq> rn_soundalign r, set_soundalign sa r))"

definition panzoom_of :: "string option \<Rightarrow> rds" where
  "panzoom_of a =
     (case a of
        None \<Rightarrow> rds_auto
      | Some s \<Rightarrow> (case rds_of_coords s (Some ''panZoomRect'') of Some p \<Rightarrow> p | None \<Rightarrow> rds_auto))"

definition fix_panzoom :: "attrs \<Rightarrow> fixer" where
  "fix_panzoom attr r =
     (let p = panzoom_of (attr ''panZoom'') in (\<not> rds_eq p (rn_panzoom r), set_panzoom p r))"

definition opacity_of :: "float_parser \<Rightarrow> string option \<Rightarrow> fl \<Rightarrow> fl" where
  "opacity_of strtod a old =
     (case a of
        None \<Rightarrow> old
      | Some s \<Rightarrow> (case strtod s of (x, lastp) \<Rightarrow> if lastp \<noteq> [] \<and> hd lastp = CHR 0x25 then fscale (1 / 100) x else x))"

definition fix_bgopacity :: "float_parser \<Rightarrow> attrs \<Rightarrow> fixer" where
  "fix_bgopacity strtod attr r =
     (let x = opacity_of strtod (attr ''backgroundOpacity'') (rn_bgopacity r)
      in (\<not> feq x (rn_bgopacity r), set_bgopacity x r))"

definition fix_mediaopacity :: "float_parser \<Rightarrow> attrs \<Rightarrow> fixer" where
  "fix_mediaopacity strtod attr r =
     (let x = opacity_of strtod (attr ''mediaOpacity'') (rn_mediaopacity r)
      in (\<not> feq x (rn_mediaopacity r), set_mediaopacity x r))"

definition fix_mediabgopacity :: "float_parser \<Rightarrow> attrs \<Rightarrow> fixer" where
  "fix_mediabgopacity strtod attr r =
     (let x = opacity_of strtod (attr ''mediaBackgroundOpacity'') (rn_mediabgopacity r)
      in (\<not> feq x (rn_mediabgopacity r), set_mediabgopacity x r))"

definition fix_chromakeyopacity :: "float_parser \<Rightarrow> attrs \<Rightarrow> fixer" where
  "fix_chromakeyopacity strtod attr r =
     (let x = opacity_of strtod (attr ''chromaKeyOpacity'') (rn_chromakeyopacity r)
      in (\<not> feq x (rn_chromakeyopacity r), set_chromakeyopacity x r))"

definition fix_chromakey :: "attrs \<Rightarrow> fixer" where
  "fix_chromakey attr r =
     (let (c, given) = (case attr ''chromaKey'' of
                          None \<Rightarrow> (to_color 0 0 1, False)
                        | Some s \<Rightarrow> if is_color s then (parse_color s, True) else (to_color 0 0 1, False));
          r = r\<lparr>rn_chromakey_specified := rn_chromakey_specified r \<or> given\<rparr>
      in (rn_chromakey_specified r \<and> c \<noteq> rn_chromakey r, set_chromakey c r))"

definition fix_chromakeytolerance :: "attrs \<Rightarrow> fixer" where
  "fix_chromakeytolerance attr r =
     (let c = (case attr ''chromaKeyTolerance'' of
                 None \<Rightarrow> rn_chromakeytolerance r
               | Some s \<Rightarrow> if is_color s then parse_color s else rn_chromakeytolerance r)
      in (c \<noteq> rn_chromakeytolerance r, set_chromakeytolerance c r))"

definition fix_bgimage :: "attrs \<Rightarrow> fixer" where
  "fix_bgimage attr r = (False, r\<lparr>rn_bgimage := attr ''backgroundImage''\<rparr>)"

definition tiling_of :: "string option \<Rightarrow> tiling \<Rightarrow> tiling" where
  "tiling_of a old =
     (case a of
        None \<Rightarrow> Tiling_default
      | Some s \<Rightarrow>
          if s = ''repeat'' then Tiling_both
          else if s = ''repeatX'' then Tiling_horizontal
          else if s = ''repeatY'' then Tiling_vertical
          else if s = ''noRepeat'' then Tiling_none
          else if s = ''inherit'' then Tiling_inherit
          else old)"

definition fix_tiling :: "attrs \<Rightarrow> fixer" where
  "fix_tiling attr r = (False, r\<lparr>rn_tiling := tiling_of (attr ''backgroundRepeat'') (rn_tiling r)\<rparr>)"

definition fixers :: "float_parser \<Rightarrow> (fl \<Rightarrow> fl) \<Rightarrow> attrs \<Rightarrow> fixer list" where
  "fixers strtod decibel attr =
     [fix_dims attr, fix_bgcolor attr, fix_showbackground attr, fix_fit attr, fix_zindex attr,
      fix_soundlevel strtod decibel attr, fix_soundalign attr, fix_panzoom attr, fix_bgopacity strtod attr,
      fix_mediaopacity strtod attr, fix_mediabgopacity strtod attr, fix_chromakeyopacity strtod attr,
      fix_chromakey attr, fix_chromakeytolerance attr, fix_bgimage attr, fix_tiling attr]"

fun run_fixers :: "fixer list \<Rightarrow> region_node \<Rightarrow> bool \<times> region_node" where
  "run_fixers [] r = (False, r)"
| "run_fixers (f # fs) r = (case f r of (c, r) \<Rightarrow> (case run_fixers fs r of (c', r) \<Rightarrow> (c \<or> c', r)))"

definition fix_from_dom_node :: "float_parser \<Rightarrow> (fl \<Rightarrow> fl) \<Rightarrow> attrs \<Rightarrow> region_node \<Rightarrow> bool \<times> region_node" where
  "fix_from_dom_node strtod decibel attr r = run_fixers (fixers strtod decibel attr) r"

section \<open>Animation\<close>

definition get_region_dim :: "region_node \<Rightarrow> string \<Rightarrow> bool \<Rightarrow> region_dim" where
  "get_region_dim r which fromdom =
     (let myrds = (if fromdom then rn_rds r else dp_rds (rn_display r)) in
      if which = ''left'' then rd_left myrds
      else if which = ''width'' then rd_width myrds
      else if which = ''right'' then rd_right myrds
      else if which = ''top'' then rd_top myrds
      else if which = ''height'' then rd_height myrds
      else if which = ''bottom'' then rd_bottom myrds
      else RAuto)"

definition get_region_color :: "region_node \<Rightarrow> string \<Rightarrow> bool \<Rightarrow> color" where
  "get_region_color r which fromdom =
     (if which = ''backgroundColor'' then (if fromdom then rn_bgcolor r else dp_bgcolor (rn_display r))
      else if which = ''chromaKey'' then (if fromdom then rn_chromakey r else dp_chromakey (rn_display r))
      else 0)"

definition get_region_zindex :: "region_node \<Rightarrow> bool \<Rightarrow> int" where
  "get_region_zindex r fromdom = (if fromdom then rn_zindex r else dp_zindex (rn_display r))"

definition get_region_soundlevel :: "region_node \<Rightarrow> bool \<Rightarrow> fl" where
  "get_region_soundlevel r fromdom = (if fromdom then rn_soundlevel r else dp_soundlevel (rn_display r))"

definition get_region_soundalign :: "region_node \<Rightarrow> bool \<Rightarrow> sound_alignment" where
  "get_region_soundalign r fromdom = (if fromdom then rn_soundalign r else dp_soundalign (rn_display r))"

definition get_region_panzoom :: "region_node \<Rightarrow> bool \<Rightarrow> rds" where
  "get_region_panzoom r fromdom = (if fromdom then rn_panzoom r else dp_panzoom (rn_display r))"

definition get_region_opacity :: "region_node \<Rightarrow> string \<Rightarrow> bool \<Rightarrow> fl" where
  "get_region_opacity r which fromdom =
     (let d = rn_display r in
      if which = ''backgroundOpacity'' then (if fromdom then rn_bgopacity r else dp_bgopacity d)
      else if which = ''chromakeyOpacity'' then (if fromdom then rn_chromakeyopacity r else dp_chromakeyopacity d)
      else if which = ''chromaKeyTolerance''
        then Fin (of_int (uint (if fromdom then rn_chromakeytolerance r else dp_chromakeytolerance d)))
      else if which = ''mediaOpacity'' then (if fromdom then rn_mediaopacity r else dp_mediaopacity d)
      else if which = ''mediaBackgroundOpacity'' then (if fromdom then rn_mediabgopacity r else dp_mediabgopacity d)
      else Fin 1)"

definition set_rds_dim :: "string \<Rightarrow> region_dim \<Rightarrow> rds \<Rightarrow> rds" where
  "set_rds_dim which rd s =
     (if which = ''left'' then s\<lparr>rd_left := rd\<rparr>
      else if which = ''width'' then s\<lparr>rd_width := rd\<rparr>
      else if which = ''right'' then s\<lparr>rd_right := rd\<rparr>
      else if which = ''top'' then s\<lparr>rd_top := rd\<rparr>
      else if which = ''height'' then s\<lparr>rd_height := rd\<rparr>
      else if which = ''bottom'' then s\<lparr>rd_bottom := rd\<rparr>
      else s)"

definition set_color_value :: "string \<Rightarrow> color \<Rightarrow> display \<Rightarrow> display" where
  "set_color_value which c d =
     (if which = ''backgroundColor'' then d\<lparr>dp_bgcolor := c\<rparr>
      else if which = ''chromaKey'' then d\<lparr>dp_chromakey := c\<rparr>
      else if which = ''chromaKeyTolerance'' then d\<lparr>dp_chromakeytolerance := c\<rparr>
      else d)"

definition set_opacity_value :: "string \<Rightarrow> fl \<Rightarrow> display \<Rightarrow> display" where
  "set_opacity_value which level d =
     (if which = ''backgroundOpacity'' then d\<lparr>dp_bgopacity := level\<rparr>
      else if which = ''mediaOpacity'' then d\<lparr>dp_mediaopacity := level\<rparr>
      else if which = ''mediaBackgroundOpacity'' then d\<lparr>dp_mediabgopacity := level\<rparr>
      else if which = ''chromaKeyOpacity'' then d\<lparr>dp_chromakeyopacity := level\<rparr>
      else d)"

text \<open>The operations an animation has on its destination.\<close>

datatype animate_op =
    SetDim string region_dim
  | SetColor string color
  | SetZindex int
  | SetSoundlevel fl
  | SetSoundalign sound_alignment
  | SetPanzoom rds
  | SetOpacity string fl

fun set_region :: "animate_op \<Rightarrow> region_node \<Rightarrow> region_node" where
  "set_region (SetDim which rd) r = upd_display (\<lambda>d. d\<lparr>dp_rds := set_rds_dim which rd (dp_rds d)\<rparr>) r"
| "set_region (SetColor which c) r = upd_display (set_color_value which c) r"
| "set_region (SetZindex z) r = upd_display (\<lambda>d. d\<lparr>dp_zindex := z\<rparr>) r"
| "set_region (SetSoundlevel l) r = upd_display (\<lambda>d. d\<lparr>dp_soundlevel := l\<rparr>) r"
| "set_region (SetSoundalign sa) r = upd_display (\<lambda>d. d\<lparr>dp_soundalign := sa\<rparr>) r"
| "set_region (SetPanzoom p) r = upd_display (\<lambda>d. d\<lparr>dp_panzoom := p\<rparr>) r"
| "set_region (SetOpacity which l) r = upd_display (set_opacity_value which l) r"

section \<open>The tree of regions\<close>

record regions = links +
  rg_node :: "nat \<Rightarrow> region_node"
  rg_counter :: int
  rg_free :: nat

definition upd_region :: "nat \<Rightarrow> (region_node \<Rightarrow> region_node) \<Rightarrow> regions \<Rightarrow> regions" where
  "upd_region n f h = h\<lparr>rg_node := (rg_node h)(n := f (rg_node h n))\<rparr>"

definition alloc_region :: "nat \<Rightarrow> string \<Rightarrow> dim_inherit \<Rightarrow> regions \<Rightarrow> nat \<times> regions" where
  "alloc_region n tag di h =
     (let a = rg_free h
      in (a, h\<lparr>rg_free := a + 1, rg_counter := to_int (rg_counter h + 1),
            rg_node := (rg_node h)(a := new_region_node n tag di (rn_display (rg_node h a))),
            ln_up := (ln_up h)(a := None), ln_down := (ln_down h)(a := None),
            ln_next := (ln_next h)(a := None), ln_live := insert a (ln_live h)\<rparr>))"

partial_function (option) first_region_loop ::
    "regions \<Rightarrow> string \<Rightarrow> nat option \<Rightarrow> nat option option" where
  "first_region_loop h name e =
     (case e of
        None \<Rightarrow> Some None
      | Some n \<Rightarrow>
          if rn_tag (rg_node h n) = name then Some (Some n)
          else first_region_loop h name (ln_next h n))"

declare first_region_loop.simps [code]

definition first_region :: "regions \<Rightarrow> nat \<Rightarrow> string \<Rightarrow> nat option option" where
  "first_region h n name = first_region_loop h name (ln_down h n)"

definition rootlayout_of :: "regions \<Rightarrow> nat \<Rightarrow> nat option option" where
  "rootlayout_of h n = do { root \<leftarrow> get_root h n; first_region h root ''root-layout'' }"

definition inherit_region :: "regions \<Rightarrow> nat \<Rightarrow> nat option option" where
  "inherit_region h n =
     (case rn_dim_inherit (rg_node h n) of
        DI_parent \<Rightarrow> Some (ln_up h n)
      | DI_rootlayout \<Rightarrow> rootlayout_of h n
      | _ \<Rightarrow> Some None)"

definition placed :: "rds \<Rightarrow> rect \<Rightarrow> rect" where
  "placed spec rc = fst (re_rect (re_set spec (mk_evaluator (to_int (r_w rc)) (to_int (r_h rc)))))"

definition default_layout :: rect where
  "default_layout = \<lparr>r_x = 0, r_y = 0, r_w = 640, r_h = 480\<rparr>"

partial_function (option) get_rect ::
    "nat \<Rightarrow> rect option \<Rightarrow> regions \<Rightarrow> (rect \<times> regions) option" where
  "get_rect n default_rect h =
     do { inherit \<leftarrow> inherit_region h n;
          (rc, h) \<leftarrow>
            (if rn_dim_inherit (rg_node h n) = DI_stored then Some (rn_stored (rg_node h n), h)
             else case inherit of
                    None \<Rightarrow>
                      (case default_rect of
                         Some rc \<Rightarrow> Some (rc, upd_region n (\<lambda>r. r\<lparr>rn_stored := rc, rn_dim_inherit := DI_stored\<rparr>) h)
                       | None \<Rightarrow> Some (default_layout, h))
                  | Some m \<Rightarrow> get_rect m None h);
          Some (placed (dp_rds (rn_display (rg_node h n))) rc, h) }"

declare get_rect.simps [code]

partial_function (option) get_bgcolor :: "regions \<Rightarrow> nat \<Rightarrow> color option" where
  "get_bgcolor h n =
     (let r = rg_node h n; own = dp_bgcolor (rn_display r) in
      if rn_inherit_bgcolor r then (case ln_up h n of Some p \<Rightarrow> get_bgcolor h p | None \<Rightarrow> Some own)
      else Some own)"

declare get_bgcolor.simps [code]

definition inherit_from :: "regions \<Rightarrow> nat \<Rightarrow> nat option option" where
  "inherit_from h n =
     (if rn_dim_inherit (rg_node h n) = DI_parent then Some (ln_up h n) else rootlayout_of h n)"

partial_function (option) get_tiling :: "regions \<Rightarrow> nat \<Rightarrow> tiling option" where
  "get_tiling h n =
     (if rn_tiling (rg_node h n) = Tiling_inherit then
        do { m \<leftarrow> inherit_from h n;
             case m of Some m \<Rightarrow> get_tiling h m | None \<Rightarrow> Some Tiling_inherit }
      else Some (rn_tiling (rg_node h n)))"

declare get_tiling.simps [code]

definition no_image :: "string option \<Rightarrow> string option" where
  "no_image b = (if b = Some ''none'' then None else b)"

partial_function (option) get_bgimage :: "regions \<Rightarrow> nat \<Rightarrow> string option option" where
  "get_bgimage h n =
     (if rn_bgimage (rg_node h n) = Some ''inherit'' then
        do { m \<leftarrow> inherit_from h n;
             case m of Some m \<Rightarrow> do { b \<leftarrow> get_bgimage h m; Some (no_image b) } | None \<Rightarrow> Some None }
      else Some (no_image (rn_bgimage (rg_node h n))))"

declare get_bgimage.simps [code]

definition crop_field :: "region_dim \<Rightarrow> int \<Rightarrow> int option" where
  "crop_field d old = (if defined d then get_as_int d else Some old)"

definition get_crop_rect :: "rsize \<Rightarrow> region_node \<Rightarrow> rect option" where
  "get_crop_rect srcsize r =
     (let rc = \<lparr>r_x = 0, r_y = 0, r_w = s_w srcsize, r_h = s_h srcsize\<rparr>;
          spec = convert rc (dp_panzoom (rn_display r))
      in do { x \<leftarrow> crop_field (rd_left spec) 0;
              y \<leftarrow> crop_field (rd_top spec) 0;
              w \<leftarrow> crop_field (rd_width spec) (r_w rc);
              h \<leftarrow> crop_field (rd_height spec) (r_h rc);
              Some \<lparr>r_x = x, r_y = y, r_w = to_uint w, r_h = to_uint h\<rparr> })"

section \<open>Attributes and animation\<close>

text \<open>The dimension attributes of regions are those of the constructor of \<open>region_dim\<close>.\<close>

lemma regiondim_attr:
  "get_regiondim_attr attr name = (case attr name of None \<Rightarrow> RAuto | Some v \<Rightarrow> rdim_of_string v)"
proof -
  have "rdim_of_string ''auto'' = RAuto" by code_simp
  then show ?thesis by (auto simp: get_regiondim_attr_def rdim_of_string_def Let_def split: option.splits prod.splits)
qed

lemmas setter_defs = upd_display_def set_bgcolor_def set_zindex_def set_soundlevel_def set_soundalign_def
  set_panzoom_def set_bgopacity_def set_mediaopacity_def set_mediabgopacity_def set_chromakeyopacity_def
  set_chromakey_def set_chromakeytolerance_def

lemmas fixer_defs = fix_from_dom_node_def fixers_def fix_dims_def fix_bgcolor_def fix_showbackground_def fix_fit_def
  fix_zindex_def fix_soundlevel_def fix_soundalign_def fix_panzoom_def fix_bgopacity_def fix_mediaopacity_def
  fix_mediabgopacity_def fix_chromakeyopacity_def fix_chromakey_def fix_chromakeytolerance_def fix_bgimage_def
  fix_tiling_def

lemma rdim_eq_iff [simp]: "rdim_eq a b \<longleftrightarrow> a = b"
  by (cases a; cases b) (simp_all add: rdim_eq_def)

lemma rds_eq_iff [simp]: "rds_eq a b \<longleftrightarrow> a = b"
  by (cases a; cases b) (simp add: rds_eq_def)

lemma soundlevel_again [simp]: "soundlevel_of f g a (soundlevel_of f g a x) = soundlevel_of f g a x"
  by (auto simp: soundlevel_of_def split: option.split prod.split)

lemma opacity_again [simp]: "opacity_of f a (opacity_of f a x) = opacity_of f a x"
  by (auto simp: opacity_of_def split: option.split prod.split)

lemma soundalign_again [simp]: "soundalign_of a (soundalign_of a x) = soundalign_of a x"
  by (auto simp: soundalign_of_def split: option.split)

lemma tiling_again [simp]: "tiling_of a (tiling_of a x) = tiling_of a x"
  by (auto simp: tiling_of_def split: option.split)

definition chromakey_of :: "string option \<Rightarrow> color \<times> bool" where
  "chromakey_of a = (case a of None \<Rightarrow> (to_color 0 0 1, False)
     | Some s \<Rightarrow> if is_color s then (parse_color s, True) else (to_color 0 0 1, False))"

definition tolerance_of :: "string option \<Rightarrow> color \<Rightarrow> color" where
  "tolerance_of a old = (case a of None \<Rightarrow> old | Some s \<Rightarrow> if is_color s then parse_color s else old)"

lemma tolerance_again [simp]: "tolerance_of a (tolerance_of a x) = tolerance_of a x"
  by (auto simp: tolerance_of_def split: option.split)

definition rds_of_attrs :: "attrs \<Rightarrow> rds" where
  "rds_of_attrs attr =
     \<lparr>rd_left = get_regiondim_attr attr ''left'', rd_width = get_regiondim_attr attr ''width'',
      rd_right = get_regiondim_attr attr ''right'', rd_top = get_regiondim_attr attr ''top'',
      rd_height = get_regiondim_attr attr ''height'', rd_bottom = get_regiondim_attr attr ''bottom''\<rparr>"

definition zindex_of :: "string option \<Rightarrow> int" where
  "zindex_of a = (case a of None \<Rightarrow> 0 | Some a \<Rightarrow> to_int (fst (strtol 10 a)))"

text \<open>What the attributes make of a region, all blocks together.\<close>

definition fixed_region :: "float_parser \<Rightarrow> (fl \<Rightarrow> fl) \<Rightarrow> attrs \<Rightarrow> region_node \<Rightarrow> region_node" where
  "fixed_region f g attr r =
     (let spec = rds_of_attrs attr; bg = bgcolor_of attr; z = zindex_of (attr ''z-index'');
          sl = soundlevel_of f g (attr ''soundLevel'') (rn_soundlevel r);
          sa = soundalign_of (attr ''soundAlign'') (rn_soundalign r);
          pz = panzoom_of (attr ''panZoom'');
          bo = opacity_of f (attr ''backgroundOpacity'') (rn_bgopacity r);
          mo = opacity_of f (attr ''mediaOpacity'') (rn_mediaopacity r);
          mb = opacity_of f (attr ''mediaBackgroundOpacity'') (rn_mediabgopacity r);
          co = opacity_of f (attr ''chromaKeyOpacity'') (rn_chromakeyopacity r);
          ck = chromakey_of (attr ''chromaKey'');
          ct = tolerance_of (attr ''chromaKeyTolerance'') (rn_chromakeytolerance r)
      in \<lparr>rn_node = rn_node r, rn_tag = rn_tag r, rn_rds = spec, rn_dim_inherit = rn_dim_inherit r,
          rn_stored = rn_stored r, rn_fit = fit_of (attr ''fit''), rn_zindex = z,
          rn_transparent = fst (snd bg), rn_bgcolor = fst bg, rn_soundlevel = sl, rn_soundalign = sa,
          rn_panzoom = pz, rn_mediaopacity = mo, rn_mediabgopacity = mb,
          rn_chromakey_specified = (rn_chromakey_specified r \<or> snd ck), rn_chromakeyopacity = co,
          rn_chromakey = fst ck, rn_chromakeytolerance = ct, rn_bgimage = attr ''backgroundImage'',
          rn_tiling = tiling_of (attr ''backgroundRepeat'') (rn_tiling r), rn_bgopacity = bo,
          rn_showbackground = (attr ''showBackground'' \<noteq> Some ''whenActive''),
          rn_inherit_bgcolor = snd (snd bg), rn_is_subregion = rn_is_subregion r,
          rn_display = \<lparr>dp_rds = spec, dp_zindex = z, dp_bgcolor = fst bg, dp_soundlevel = sl,
            dp_soundalign = sa, dp_panzoom = pz, dp_bgopacity = bo, dp_mediaopacity = mo,
            dp_mediabgopacity = mb, dp_chromakeyopacity = co, dp_chromakey = fst ck,
            dp_chromakeytolerance = ct\<rparr>\<rparr>)"

lemma fix_dims_alt:
  "fix_dims attr r = (rds_of_attrs attr \<noteq> rn_rds r,
     r\<lparr>rn_rds := rds_of_attrs attr, rn_display := (rn_display r)\<lparr>dp_rds := rds_of_attrs attr\<rparr>\<rparr>)"
  by (cases r) (auto simp: fix_dims_def rds_of_attrs_def [symmetric] upd_display_def Let_def)

lemma fix_others_alt:
  "fix_bgcolor attr r = (let bg = bgcolor_of attr in
     (fst bg \<noteq> rn_bgcolor r \<or> fst (snd bg) \<noteq> rn_transparent r \<or> snd (snd bg) \<noteq> rn_inherit_bgcolor r,
      set_bgcolor (fst bg) (fst (snd bg)) (snd (snd bg)) r))"
  "fix_zindex attr r = (zindex_of (attr ''z-index'') \<noteq> rn_zindex r, set_zindex (zindex_of (attr ''z-index'')) r)"
  "fix_chromakey attr r = (let ck = chromakey_of (attr ''chromaKey''); s = (rn_chromakey_specified r \<or> snd ck) in
     (s \<and> fst ck \<noteq> rn_chromakey r, set_chromakey (fst ck) (r\<lparr>rn_chromakey_specified := s\<rparr>)))"
  "fix_chromakeytolerance attr r = (let c = tolerance_of (attr ''chromaKeyTolerance'') (rn_chromakeytolerance r) in
     (c \<noteq> rn_chromakeytolerance r, set_chromakeytolerance c r))"
  by (simp_all add: fix_bgcolor_def fix_zindex_def fix_chromakey_def fix_chromakeytolerance_def zindex_of_def
      chromakey_of_def [symmetric] tolerance_of_def [symmetric] Let_def split: prod.split)

lemma fix_from_dom_region: "snd (fix_from_dom_node f g attr r) = fixed_region f g attr r"
  by (cases r; cases "rn_display r")
    (simp add: fix_from_dom_node_def fixers_def fix_dims_alt fix_others_alt fix_showbackground_def fix_fit_def
      fix_soundlevel_def fix_soundalign_def fix_panzoom_def fix_bgopacity_def fix_mediaopacity_def
      fix_mediabgopacity_def fix_chromakeyopacity_def fix_bgimage_def fix_tiling_def setter_defs Let_def
      fixed_region_def prod.case_eq_if)

lemma fix_from_dom_changed:
  "fst (fix_from_dom_node f g attr r) \<longleftrightarrow>
     (let r' = fixed_region f g attr r in
        rn_rds r' \<noteq> rn_rds r \<or> rn_bgcolor r' \<noteq> rn_bgcolor r \<or> rn_transparent r' \<noteq> rn_transparent r
        \<or> rn_inherit_bgcolor r' \<noteq> rn_inherit_bgcolor r \<or> rn_showbackground r' \<noteq> rn_showbackground r
        \<or> rn_fit r' \<noteq> rn_fit r \<or> rn_zindex r' \<noteq> rn_zindex r \<or> \<not> feq (rn_soundlevel r') (rn_soundlevel r)
        \<or> rn_soundalign r' \<noteq> rn_soundalign r \<or> rn_panzoom r' \<noteq> rn_panzoom r \<or> \<not> feq (rn_bgopacity r') (rn_bgopacity r)
        \<or> \<not> feq (rn_mediaopacity r') (rn_mediaopacity r) \<or> \<not> feq (rn_mediabgopacity r') (rn_mediabgopacity r)
        \<or> \<not> feq (rn_chromakeyopacity r') (rn_chromakeyopacity r)
        \<or> rn_chromakey_specified r' \<and> rn_chromakey r' \<noteq> rn_chromakey r
        \<or> rn_chromakeytolerance r' \<noteq> rn_chromakeytolerance r)"
  by (simp add: fix_from_dom_node_def fixers_def fix_dims_alt fix_others_alt fix_showbackground_def fix_fit_def
      fix_soundlevel_def fix_soundalign_def fix_panzoom_def fix_bgopacity_def fix_mediaopacity_def
      fix_mediabgopacity_def fix_chromakeyopacity_def fix_bgimage_def fix_tiling_def setter_defs Let_def
      fixed_region_def prod.case_eq_if disj_assoc)

lemma fixed_region_display: "fixed_region f g attr (upd_display k r) = fixed_region f g attr r"
  by (simp add: fixed_region_def upd_display_def Let_def)

lemma fixed_region_again: "fixed_region f g attr (fixed_region f g attr r) = fixed_region f g attr r"
  by (simp add: fixed_region_def Let_def)

lemma fix_from_dom_display: "fix_from_dom_node f g attr (upd_display k r) = fix_from_dom_node f g attr r"
  by (simp add: prod_eq_iff fix_from_dom_region fix_from_dom_changed fixed_region_display Let_def)
    (simp add: upd_display_def)

text \<open>A level that is no number differs from itself.\<close>

definition has_nan :: "region_node \<Rightarrow> bool" where
  "has_nan r \<longleftrightarrow> NotANumber \<in> {rn_soundlevel r, rn_bgopacity r, rn_mediaopacity r, rn_mediabgopacity r, rn_chromakeyopacity r}"

lemma fix_from_dom_twice:
  "fix_from_dom_node f g attr (snd (fix_from_dom_node f g attr r))
   = (has_nan (snd (fix_from_dom_node f g attr r)), snd (fix_from_dom_node f g attr r))"
  by (auto simp: prod_eq_iff fix_from_dom_region fix_from_dom_changed fixed_region_again Let_def has_nan_def feq_iff)

lemma set_region_display: "\<exists>k. set_region op r = upd_display k r"
  by (cases op) auto

lemma fold_set_region_display: "\<exists>k. fold set_region ops r = upd_display k r"
proof (induction ops arbitrary: r)
  case Nil
  have "r = upd_display id r" by (simp add: upd_display_def)
  then show ?case by auto
next
  case (Cons op ops)
  obtain k k' where "set_region op r = upd_display k r" "fold set_region ops (upd_display k r) = upd_display k' (upd_display k r)"
    using set_region_display Cons.IH by metis
  then have "fold set_region (op # ops) r = upd_display (k' \<circ> k) r" by (simp add: upd_display_def)
  then show ?case by blast
qed

text \<open>
  C15: Whatever animations did to a region, reading the attributes of its element again gives the
  same region and the same answer as without them. A second time changes nothing, and it says so
  unless a level that was read is no number, as "nan" is: then every reading reports a change.
\<close>

theorem reset_after_animation:
  "fix_from_dom_node f g attr (fold set_region ops r) = fix_from_dom_node f g attr r
   \<and> fix_from_dom_node f g attr (snd (fix_from_dom_node f g attr r))
       = (has_nan (snd (fix_from_dom_node f g attr r)), snd (fix_from_dom_node f g attr r))"
proof -
  obtain k where "fold set_region ops r = upd_display k r" using fold_set_region_display by blast
  then show ?thesis using fix_from_dom_display fix_from_dom_twice by simp
qed

text \<open>A sound level that reads as no number is reported as a change each time.\<close>

lemma nan_level_always_changes:
  "attr ''soundLevel'' = Some s \<Longrightarrow> f s = (NotANumber, []) \<Longrightarrow> fst (fix_from_dom_node f g attr r)"
  by (simp add: fix_from_dom_changed fixed_region_def soundlevel_of_def feq_iff Let_def)

text \<open>
  A value an animation sets is the value displayed, but for the opacity of the chroma key, which
  is set under another name than it is read.
\<close>

lemma animated_dim_shown:
  "which \<in> {''left'', ''width'', ''right'', ''top'', ''height'', ''bottom''} \<Longrightarrow>
   get_region_dim (set_region (SetDim which rd) r) which False = rd"
  by (auto simp: get_region_dim_def set_rds_dim_def upd_display_def Let_def)

lemma chroma_opacity_lost: "get_region_opacity (set_region (SetOpacity ''chromaKeyOpacity'' l) r) ''chromaKeyOpacity'' b = Fin 1"
  by (simp add: get_region_opacity_def Let_def)

section \<open>Inheritance\<close>

lemma region_step_up:
  "path_in t q \<Longrightarrow> represents h t \<Longrightarrow> q = p @ [n] \<Longrightarrow> p \<noteq> [] \<Longrightarrow> ln_up h n = Some (last p)"
proof (induction arbitrary: p rule: path_in.induct)
  case (here m ts)
  then show ?case by (cases p) auto
next
  case (deeper t ts q m)
  from deeper.prems obtain p' where p: "p = m # p'" "q = p' @ [n]" by (cases p) auto
  show ?case
  proof (cases "p' = []")
    case True
    then have "n = label t" using path_in_hd [OF deeper.hyps(2)] p(2) by simp
    then show ?thesis
      using represents_family [OF deeper.prems(1)] deeper.hyps(1) p(1) True
      by (auto simp: family_def intro: siblings_up)
  next
    case False
    then show ?thesis using deeper.IH [OF represents_sub [OF deeper.prems(1) deeper.hyps(1)] p(2) False] p(1) by simp
  qed
qed

lemma path_cases:
  assumes "is_tree h t" "path_in t p"
  obtains "p = [label t]" "ln_up h (last p) = None"
    | q n where "p = q @ [n]" "path_in t q" "ln_up h n = Some (last q)"
proof (cases "butlast p = []")
  case True
  then have "p = [label t]" using path_in_hd [OF assms(2)] by (cases p) (auto split: if_splits)
  then show thesis using that(1) assms(1) by (simp add: is_tree_def)
next
  case False
  then obtain q n where q: "p = q @ [n]" "q \<noteq> []" by (cases p rule: rev_cases) auto
  then obtain q' m where m: "q = q' @ [m]" by (cases q rule: rev_cases) auto
  then have "path_in t q" using path_prefix [OF assms(2), of q' m "[n]"] q by simp
  moreover have "ln_up h n = Some (last q)"
    using region_step_up [OF assms(2) _ q(1,2), of h] assms(1) by (simp add: is_tree_def)
  ultimately show thesis using that(2) q(1) by blast
qed

text \<open>
  A layout with a root layout of 400 by 300 and a region of half its width; a subregion fills the
  region's right part.
\<close>

definition plain_display :: "rds \<Rightarrow> display" where
  "plain_display spec = \<lparr>dp_rds = spec, dp_zindex = 0,
     dp_bgcolor = 7, dp_soundlevel = Fin 1, dp_soundalign = SA_default, dp_panzoom = rds_auto,
     dp_bgopacity = Fin 1, dp_mediaopacity = Fin 1, dp_mediabgopacity = Fin 1, dp_chromakeyopacity = Fin 0,
     dp_chromakey = 0, dp_chromakeytolerance = 0\<rparr>"

definition example_regions :: regions where
  "example_regions = \<lparr>ln_up = [1 \<mapsto> 0, 2 \<mapsto> 0, 3 \<mapsto> 2], ln_down = [0 \<mapsto> 1, 2 \<mapsto> 3], ln_next = [1 \<mapsto> 2],
     ln_live = {0, 1, 2, 3},
     rg_node = (\<lambda>n.
       if n = 1 then (new_region_node n ''root-layout'' DI_none (plain_display rds_auto))\<lparr>rn_display :=
           plain_display (rds_auto\<lparr>rd_width := RAbsolute 400, rd_height := RAbsolute 300\<rparr>)\<rparr>
       else if n = 2 then (new_region_node n ''region'' DI_rootlayout (plain_display rds_auto))\<lparr>rn_display :=
           plain_display (rds_auto\<lparr>rd_width := RRelative (1 / 2)\<rparr>)\<rparr>
       else (new_region_node n (if n = 0 then ''layout'' else ''region'') DI_parent (plain_display rds_auto))\<lparr>rn_display :=
           plain_display (rds_auto\<lparr>rd_left := RAbsolute 10\<rparr>), rn_inherit_bgcolor := (n = 3)\<rparr>),
     rg_counter = 4, rg_free = 4\<rparr>"

abbreviation "layout_tree \<equiv> Node 0 [Node 1 [], Node 2 [Node 3 []]]"

lemma example_regions_tree: "is_tree example_regions layout_tree" "path_in layout_tree [0, 2, 3]"
proof -
  show "is_tree example_regions layout_tree"
    by (auto simp: is_tree_def represents_def family_def example_regions_def)
  have "path_in (Node 2 [Node 3 []]) [2, 3]" by (rule path_in.deeper [OF _ path_in.here]) simp
  then show "path_in layout_tree [0, 2, 3]" by (rule path_in.deeper [rotated]) simp
qed

lemma first_region_loop_siblings:
  "siblings h p ks \<Longrightarrow> first_region_loop h name (first_of ks)
     = Some (find (\<lambda>k. rn_tag (rg_node h k) = name) ks)"
proof (induction ks)
  case Nil
  show ?case by (simp add: first_region_loop.simps)
next
  case (Cons k ks)
  then have "first_region_loop h name (ln_next h k) = Some (find (\<lambda>k. rn_tag (rg_node h k) = name) ks)"
    by (cases ks) simp_all
  then show ?case by (subst first_region_loop.simps) simp
qed

lemma rootlayout_of_tree:
  assumes "is_tree h (Node m ts)" "path_in (Node m ts) p"
  shows "rootlayout_of h (last p) = Some (find (\<lambda>k. rn_tag (rg_node h k) = ''root-layout'') (map label ts))"
proof -
  have "family h m (map label ts)" using assms(1) by (intro represents_family) (simp add: is_tree_def)
  then have "siblings h m (map label ts)" "ln_down h m = first_of (map label ts)" by (simp_all add: family_def)
  with get_root_in [OF assms] show ?thesis
    by (simp add: rootlayout_of_def first_region_def first_region_loop_siblings)
qed

text \<open>
  The regions that a region's rectangle depends on, outermost first: from the nearest one on the way
  to the root that does not take its rectangle from its parent. That one is placed in the rectangle
  stored in it, in that of the first root layout below the root, or else in the default layout.
\<close>

definition layout_chain :: "regions \<Rightarrow> nat list \<Rightarrow> nat list" where
  "layout_chain h p =
     rev (take (Suc (length (takeWhile (\<lambda>n. rn_dim_inherit (rg_node h n) = DI_parent) (rev p)))) (rev p))"

definition own_base :: "regions \<Rightarrow> nat \<Rightarrow> rect" where
  "own_base h n = (if rn_dim_inherit (rg_node h n) = DI_stored then rn_stored (rg_node h n) else default_layout)"

abbreviation "shown_spec h n \<equiv> dp_rds (rn_display (rg_node h n))"

fun layout_base :: "regions \<Rightarrow> tree \<Rightarrow> nat \<Rightarrow> rect" where
  "layout_base h (Node m ts) n =
     (if rn_dim_inherit (rg_node h n) = DI_rootlayout
      then (case find (\<lambda>k. rn_tag (rg_node h k) = ''root-layout'') (map label ts) of
              Some r \<Rightarrow> placed (shown_spec h r) (own_base h r)
            | None \<Rightarrow> default_layout)
      else own_base h n)"

definition rootlayouts_own :: "regions \<Rightarrow> nat list \<Rightarrow> bool" where
  "rootlayouts_own h ks \<longleftrightarrow>
     list_all (\<lambda>k. rn_tag (rg_node h k) = ''root-layout'' \<longrightarrow> rn_dim_inherit (rg_node h k) \<in> {DI_none, DI_stored}) ks"

lemma layout_chain_snoc:
  "layout_chain h (q @ [n]) = (if rn_dim_inherit (rg_node h n) = DI_parent then layout_chain h q @ [n] else [n])"
  by (simp add: layout_chain_def)

lemma get_rect_own:
  "rn_dim_inherit (rg_node h n) \<in> {DI_none, DI_stored} \<Longrightarrow>
   get_rect n None h = Some (placed (shown_spec h n) (own_base h n), h)"
  by (subst get_rect.simps) (auto simp: inherit_region_def own_base_def)

text \<open>
  C16: The rectangle of a region, asked without a default. The regions of its layout chain are placed
  one within the size of the one before, the first one within its stored rectangle, the root layout
  or the default layout, and nothing changes. Root layouts inherit from no region, as the builder of
  the layout makes them.
\<close>

theorem region_rect_nested:
  assumes "is_tree h (Node m ts)" "path_in (Node m ts) p" "rootlayouts_own h (map label ts)"
  shows "get_rect (last p) None h =
    Some (fold (\<lambda>n. placed (shown_spec h n)) (layout_chain h p) (layout_base h (Node m ts) (hd (layout_chain h p))), h)"
  using assms(2)
proof (induction p rule: length_induct)
  case (1 p)
  let ?n = "last p"
  have "p = butlast p @ [?n]" using path_in_hd [OF 1(2)] by simp
  then have chain: "rn_dim_inherit (rg_node h ?n) \<noteq> DI_parent \<Longrightarrow> layout_chain h p = [?n]"
    using layout_chain_snoc [of h "butlast p" ?n] by simp
  show ?case
  proof (cases "rn_dim_inherit (rg_node h ?n)")
    case DI_parent
    show ?thesis
    proof (rule path_cases [OF assms(1) 1(2)])
      assume p: "p = [label (Node m ts)]" "ln_up h (last p) = None"
      then show ?thesis using DI_parent
        by (subst get_rect.simps) (simp add: inherit_region_def layout_chain_def own_base_def)
    next
      fix q n
      assume q: "p = q @ [n]" "path_in (Node m ts) q" "ln_up h n = Some (last q)"
      have "layout_chain h q \<noteq> []" using path_in_hd [OF q(2)] by (simp add: layout_chain_def)
      moreover have "get_rect (last q) None h = Some (fold (\<lambda>n. placed (shown_spec h n)) (layout_chain h q)
          (layout_base h (Node m ts) (hd (layout_chain h q))), h)"
        using 1(1) q by simp
      ultimately show ?thesis using q DI_parent
        by (subst get_rect.simps) (simp add: inherit_region_def layout_chain_snoc)
    qed
  next
    case DI_rootlayout
    with chain have chain: "layout_chain h p = [?n]" by simp
    have root: "inherit_region h ?n = Some (find (\<lambda>k. rn_tag (rg_node h k) = ''root-layout'') (map label ts))"
      using rootlayout_of_tree [OF assms(1) 1(2)] DI_rootlayout by (simp add: inherit_region_def)
    show ?thesis
    proof (cases "find (\<lambda>k. rn_tag (rg_node h k) = ''root-layout'') (map label ts)")
      case None
      with root chain DI_rootlayout show ?thesis by (subst get_rect.simps) simp
    next
      case (Some r)
      then have "get_rect r None h = Some (placed (shown_spec h r) (own_base h r), h)"
        using assms(3) by (intro get_rect_own) (auto simp: rootlayouts_own_def list_all_iff find_Some_iff)
      with root chain DI_rootlayout Some show ?thesis by (subst get_rect.simps) simp
    qed
  next
    case DI_none
    with chain show ?thesis by (simp add: get_rect_own)
  next
    case DI_stored
    with chain show ?thesis by (simp add: get_rect_own)
  qed
qed

theorem region_rect_nested_witness:
  "get_rect 3 None example_regions = Some (\<lparr>r_x = 10, r_y = 0, r_w = 190, r_h = 300\<rparr>, example_regions)"
proof -
  have "rootlayouts_own example_regions (map label [Node 1 [], Node 2 [Node 3 []]])"
    by (simp add: rootlayouts_own_def example_regions_def new_region_node_def)
  moreover have "fold (\<lambda>n. placed (shown_spec example_regions n)) (layout_chain example_regions [0, 2, 3])
        (layout_base example_regions layout_tree (hd (layout_chain example_regions [0, 2, 3])))
      = \<lparr>r_x = 10, r_y = 0, r_w = 190, r_h = 300\<rparr>"
    by code_simp
  ultimately show ?thesis using region_rect_nested [OF example_regions_tree] by simp
qed

text \<open>
  The background colour of a region is that of the nearest region on the way to the root, the
  region itself first, that does not inherit, or else of the root.
\<close>

theorem bgcolor_inherited:
  assumes "is_tree h t" "path_in t p"
  shows "get_bgcolor h (last p) = Some (dp_bgcolor (rn_display (rg_node h
    (case find (\<lambda>n. \<not> rn_inherit_bgcolor (rg_node h n)) (rev p) of Some n \<Rightarrow> n | None \<Rightarrow> label t))))"
  using assms(2)
proof (induction p rule: length_induct)
  case (1 p)
  show ?case
  proof (rule path_cases [OF assms(1) 1(2)])
    assume "p = [label t]" "ln_up h (last p) = None"
    then show ?thesis by (subst get_bgcolor.simps) (simp add: Let_def)
  next
    fix q n
    assume q: "p = q @ [n]" "path_in t q" "ln_up h n = Some (last q)"
    then show ?thesis using 1(1) by (subst get_bgcolor.simps) (simp add: Let_def)
  qed
qed

theorem bgcolor_inherited_witness: "get_bgcolor example_regions 3 = Some 7"
  using bgcolor_inherited [OF example_regions_tree]
  by (simp add: example_regions_def plain_display_def new_region_node_def)

text \<open>A root layout that inherits its tiling, or its background image, inherits it from itself.\<close>

definition self_inheriting :: "regions \<Rightarrow> nat \<Rightarrow> bool" where
  "self_inheriting h n \<longleftrightarrow> rn_dim_inherit (rg_node h n) \<noteq> DI_parent \<and> rootlayout_of h n = Some (Some n)"

lemma self_inheriting_from: "self_inheriting h n \<Longrightarrow> inherit_from h n = Some (Some n)"
  by (simp add: self_inheriting_def inherit_from_def)

lemma root_tiling_diverges: "get_tiling h n = Some v \<Longrightarrow> \<not> (rn_tiling (rg_node h n) = Tiling_inherit \<and> self_inheriting h n)"
proof (rule get_tiling.raw_induct [where P = "\<lambda>h n v. \<not> (rn_tiling (rg_node h n) = Tiling_inherit \<and> self_inheriting h n)"])
  fix f h n and v :: tiling
  assume "\<And>h n v. f h n = Some v \<Longrightarrow> \<not> (rn_tiling (rg_node h n) = Tiling_inherit \<and> self_inheriting h n)"
    and "(if rn_tiling (rg_node h n) = Tiling_inherit then
        do { m \<leftarrow> inherit_from h n; case m of Some m \<Rightarrow> f h m | None \<Rightarrow> Some Tiling_inherit }
      else Some (rn_tiling (rg_node h n))) = Some v"
  then show "\<not> (rn_tiling (rg_node h n) = Tiling_inherit \<and> self_inheriting h n)"
    by (auto simp: self_inheriting_from)
qed

lemma root_image_diverges: "get_bgimage h n = Some v \<Longrightarrow> \<not> (rn_bgimage (rg_node h n) = Some ''inherit'' \<and> self_inheriting h n)"
proof (rule get_bgimage.raw_induct [where P = "\<lambda>h n v. \<not> (rn_bgimage (rg_node h n) = Some ''inherit'' \<and> self_inheriting h n)"])
  fix f h n and v :: "string option"
  assume "\<And>h n v. f h n = Some v \<Longrightarrow> \<not> (rn_bgimage (rg_node h n) = Some ''inherit'' \<and> self_inheriting h n)"
    and "(if rn_bgimage (rg_node h n) = Some ''inherit'' then
        do { m \<leftarrow> inherit_from h n;
             case m of Some m \<Rightarrow> do { b \<leftarrow> f h m; Some (no_image b) } | None \<Rightarrow> Some None }
      else Some (no_image (rn_bgimage (rg_node h n)))) = Some v"
  then show "\<not> (rn_bgimage (rg_node h n) = Some ''inherit'' \<and> self_inheriting h n)"
    by (auto simp: self_inheriting_from Option.bind_eq_Some_conv)
qed

text \<open>A crop rectangle without pan and zoom is the whole image, and there always is one.\<close>

lemma crop_rect_defined: "\<exists>rc. get_crop_rect s r = Some rc"
proof -
  have "\<exists>i. crop_field (to_absolute ref d) old = Some i" for ref d old
    by (cases d) (simp_all add: crop_field_def to_absolute_def rdim_get_def defined_def get_as_int_def)
  then show ?thesis
    by (simp add: get_crop_rect_def convert_def Let_def) (metis bind.bind_lunit)
qed

end
