(* ===== verification/Fit.thy ===== *)
theory Fit
  imports Region_Node
begin

text \<open>
  How an image fills a region (common/region.cpp): the part of the image that is shown and the part
  of the region it is shown in, for every value of the fit attribute, and the tiles of a background
  image. Floating point numbers are rationals with the infinities and the value that is no number.
  \<open>None\<close> is an exception, a conversion of a number that is not finite, or a loop that does not end.
\<close>

section \<open>Scales\<close>

text \<open>The smallest and the largest scale that fits the two sides of the fixed point.\<close>

definition scale_range :: "int \<Rightarrow> int \<Rightarrow> int \<Rightarrow> int \<Rightarrow> fl \<times> fl" where
  "scale_range image_lo image_hi region_lo region_hi =
     (if image_lo = 0 then (let s = fdiv region_hi image_hi in (s, s))
      else let s = fdiv region_lo image_lo in
        if image_hi \<noteq> 0 then
          (let r = fdiv region_hi image_hi in (if s = Fin 0 then r else fmin s r, fmax s r))
        else (s, s))"

definition fit_scales :: "fit_t \<Rightarrow> fl \<times> fl \<Rightarrow> fl \<times> fl \<Rightarrow> fl \<times> fl" where
  "fit_scales fit hor vert =
     (case fit of
        Fit_fill \<Rightarrow> (fst hor, fst vert)
      | Fit_scroll \<Rightarrow> (Fin 1, Fin 1)
      | Fit_default \<Rightarrow> (Fin 1, Fin 1)
      | Fit_hidden \<Rightarrow> (Fin 1, Fin 1)
      | Fit_meet \<Rightarrow> (let s = fmin (fst hor) (fst vert) in (s, s))
      | Fit_meetbest \<Rightarrow> (let s = fmin (fst hor) (fst vert); s = (if fless (Fin 1) s then Fin 1 else s) in (s, s))
      | Fit_slice \<Rightarrow> (let s = fmax (snd hor) (snd vert) in (s, s)))"

definition fround :: "rat \<Rightarrow> int" where
  "fround x = (let y = x + 1 / 2 in to_int (if y < 0 then - \<lfloor>- y\<rfloor> else \<lfloor>y\<rfloor>))"

section \<open>Rectangles\<close>

text \<open>
  One axis: the sides of the clip rectangle, the lengths of the image, of the clip rectangle and of
  the region, the fixed points and the scales; the result are the sides in the image and in the
  region. Where the clip rectangle begins before the image another scale is used.
\<close>

definition fit_axis :: "int \<Rightarrow> int \<Rightarrow> int \<Rightarrow> int \<Rightarrow> int \<Rightarrow> int \<Rightarrow> int \<Rightarrow> rat \<Rightarrow> rat \<Rightarrow> int \<times> int \<times> int \<times> int" where
  "fit_axis clip_lo clip_hi real_len image_len region_len fix_image fix_region scale clip_scale =
     (let scaled = fround (of_int fix_image * scale);
          region_lo = to_int (fix_region - scaled);
          region_hi = to_int (region_lo + fround (of_int image_len * scale));
          (region_lo, image_lo) =
            (if clip_lo < 0 then (fround (of_int (to_int (- clip_lo)) * clip_scale), 0) else (region_lo, clip_lo));
          (image_hi, region_hi) =
            (if real_len < clip_hi
             then (real_len, to_int (region_hi - fround (of_int (to_int (clip_hi - real_len)) * scale)))
             else (clip_hi, region_hi));
          (image_lo, region_lo) =
            (if region_lo < 0 then (fround (of_int (to_int (- region_lo)) / scale), 0) else (image_lo, region_lo));
          (region_hi, image_hi) =
            (if region_len < region_hi
             then (region_len, to_int (image_hi - fround (of_int (to_int (region_hi - region_len)) / scale)))
             else (region_hi, image_hi))
      in (image_lo, image_hi, region_lo, region_hi))"

definition zero_rect :: rect where
  "zero_rect = \<lparr>r_x = 0, r_y = 0, r_w = 0, r_h = 0\<rparr>"

definition span_rect :: "int \<Rightarrow> int \<Rightarrow> int \<Rightarrow> int \<Rightarrow> rect" where
  "span_rect x0 x1 y0 y1 = \<lparr>r_x = x0, r_y = y0, r_w = to_uint (x1 - x0), r_h = to_uint (y1 - y0)\<rparr>"

text \<open>The two fixed points; without an alignment they are the origins.\<close>

definition fixpoints :: "smil_alignment option \<Rightarrow> rsize \<Rightarrow> rsize \<Rightarrow> (point \<times> point) option" where
  "fixpoints align src_size region_size =
     (case align of
        None \<Rightarrow> Some (\<lparr>p_x = 0, p_y = 0\<rparr>, \<lparr>p_x = 0, p_y = 0\<rparr>)
      | Some al \<Rightarrow> do { i \<leftarrow> get_image_fixpoint al src_size; r \<leftarrow> get_surface_fixpoint al region_size; Some (i, r) })"

text \<open>The rectangle in the region and the one in the image; \<open>region\<close> are the inner bounds of the surface.\<close>

definition clip_fit_rect :: "fit_t \<Rightarrow> rect \<Rightarrow> rect \<Rightarrow> rsize \<Rightarrow> smil_alignment option \<Rightarrow> (rect \<times> rect) option" where
  "clip_fit_rect fit region clip src_real_size align =
     (let src_size = \<lparr>s_w = r_w clip, s_h = r_h clip\<rparr>;
          image_width = to_int (s_w src_size); image_height = to_int (s_h src_size);
          region_width = to_int (r_w region); region_height = to_int (r_h region)
      in do {
        (xy_image, xy_region) \<leftarrow> fixpoints align src_size \<lparr>s_w = r_w region, s_h = r_h region\<rparr>;
        let hor = scale_range (p_x xy_image) (to_int (image_width - p_x xy_image))
                    (p_x xy_region) (to_int (region_width - p_x xy_region));
        let vert = scale_range (p_y xy_image) (to_int (image_height - p_y xy_image))
                    (p_y xy_region) (to_int (region_height - p_y xy_region));
        let scales = fit_scales fit hor vert;
        if fst scales = Fin 0 \<or> snd scales = Fin 0 then Some (zero_rect, zero_rect)
        else case scales of
               (Fin sh, Fin sv) \<Rightarrow>
                 (case fit_axis (r_x clip) (rect_right clip) (to_int (s_w src_real_size)) image_width region_width
                         (p_x xy_image) (p_x xy_region) sh sh of
                    (ix0, ix1, rx0, rx1) \<Rightarrow>
                 (case fit_axis (r_y clip) (rect_bottom clip) (to_int (s_h src_real_size)) image_height region_height
                         (p_y xy_image) (p_y xy_region) sv sh of
                    (iy0, iy1, ry0, ry1) \<Rightarrow>
                      Some (span_rect rx0 rx1 ry0 ry1, span_rect ix0 ix1 iy0 iy1)))
             | _ \<Rightarrow> None })"

definition get_fit_rect :: "fit_t \<Rightarrow> rect \<Rightarrow> rsize \<Rightarrow> smil_alignment option \<Rightarrow> (rect \<times> rect) option" where
  "get_fit_rect fit region src_size align =
     clip_fit_rect fit region \<lparr>r_x = 0, r_y = 0, r_w = s_w src_size, r_h = s_h src_size\<rparr> src_size align"

text \<open>A surface without a fit of its own uses that of its parent.\<close>

definition surface_fit :: "fit_t option \<Rightarrow> fit_t option \<Rightarrow> fit_t" where
  "surface_fit own parent =
     (let fit = (case own of None \<Rightarrow> Fit_default | Some f \<Rightarrow> f) in
      case parent of Some f \<Rightarrow> if fit = Fit_default then f else fit | None \<Rightarrow> fit)"

section \<open>Tiles\<close>

definition is_tiled :: "tiling \<Rightarrow> bool" where
  "is_tiled t \<longleftrightarrow> t = Tiling_horizontal \<or> t = Tiling_vertical \<or> t = Tiling_both \<or> t = Tiling_default"

definition tile_at :: "int \<Rightarrow> int \<Rightarrow> int \<Rightarrow> int \<Rightarrow> int \<Rightarrow> int \<Rightarrow> rect \<times> rect" where
  "tile_at width height max_x max_y x y =
     (let w = min width (to_int (max_x - x)); h = min height (to_int (max_y - y))
      in (\<lparr>r_x = 0, r_y = 0, r_w = to_uint w, r_h = to_uint h\<rparr>,
          \<lparr>r_x = x, r_y = y, r_w = to_uint w, r_h = to_uint h\<rparr>))"

partial_function (option) tile_column ::
    "int \<Rightarrow> int \<Rightarrow> int \<Rightarrow> int \<Rightarrow> int \<Rightarrow> int \<Rightarrow> (rect \<times> rect) list option" where
  "tile_column width height max_x max_y x y =
     (if y < max_y then
        do { ts \<leftarrow> tile_column width height max_x max_y x (to_int (y + height));
             Some (tile_at width height max_x max_y x y # ts) }
      else Some [])"

declare tile_column.simps [code]

partial_function (option) tile_rows ::
    "int \<Rightarrow> int \<Rightarrow> int \<Rightarrow> int \<Rightarrow> int \<Rightarrow> int \<Rightarrow> (rect \<times> rect) list option" where
  "tile_rows width height max_x max_y y0 x =
     (if x < max_x then
        do { c \<leftarrow> tile_column width height max_x max_y x y0;
             ts \<leftarrow> tile_rows width height max_x max_y y0 (to_int (x + width));
             Some (c @ ts) }
      else Some [])"

declare tile_rows.simps [code]

definition get_tiles :: "tiling \<Rightarrow> rsize \<Rightarrow> rect \<Rightarrow> (rect \<times> rect) list option" where
  "get_tiles t image_size rc =
     (let width = to_int (s_w image_size); height = to_int (s_h image_size);
          max_x = (if t = Tiling_horizontal \<or> t = Tiling_both \<or> t = Tiling_default then rect_right rc
                   else to_int (r_x rc + width));
          max_y = (if t = Tiling_vertical \<or> t = Tiling_both \<or> t = Tiling_default then rect_bottom rc
                   else to_int (r_y rc + height))
      in tile_rows width height max_x max_y (r_y rc) (r_x rc))"

section \<open>The fit of a whole image\<close>

definition modest :: "int \<Rightarrow> bool" where
  "modest n \<longleftrightarrow> 0 < n \<and> n < 2 ^ 15"

lemma fround_floor: "0 \<le> x \<Longrightarrow> x < 2 ^ 30 \<Longrightarrow> fround x = \<lfloor>x + 1 / 2\<rfloor>"
proof -
  assume x: "0 \<le> x" "x < 2 ^ 30"
  then have "0 \<le> \<lfloor>x + 1 / 2\<rfloor>" "\<lfloor>x + 1 / 2\<rfloor> < 2 ^ 31" by (simp_all add: floor_less_iff)
  then show ?thesis using x by (simp add: fround_def Let_def)
qed

lemma fround_of_int: "0 \<le> n \<Longrightarrow> n < 2 ^ 30 \<Longrightarrow> fround (of_int n) = n"
proof -
  assume n: "0 \<le> n" "n < 2 ^ 30"
  then have "(of_int n :: rat) < 2 ^ 30" by (metis of_int_less_iff of_int_numeral of_int_power)
  moreover have "\<lfloor>(of_int n :: rat) + 1 / 2\<rfloor> = n" by linarith
  ultimately show ?thesis using n by (simp add: fround_floor)
qed

lemma fround_bounds:
  assumes "0 \<le> x" "x \<le> of_int n" "n < 2 ^ 30"
  shows "0 \<le> fround x \<and> fround x \<le> n"
proof -
  have "(of_int n :: rat) < 2 ^ 30" using assms(3) by (metis of_int_less_iff of_int_numeral of_int_power)
  then have "fround x = \<lfloor>x + 1 / 2\<rfloor>" using assms by (intro fround_floor) auto
  then show ?thesis using assms(1,2) by (simp add: le_floor_iff floor_le_iff)
qed

text \<open>An axis without a fixed point, where the scaled image has at most \<open>2 ^ 30\<close> points.\<close>

lemma fround_near: "0 \<le> x \<Longrightarrow> x < 2 ^ 30 \<Longrightarrow> \<bar>of_int (fround x) - x\<bar> \<le> 1 / 2"
proof -
  assume "0 \<le> x" "x < 2 ^ 30"
  then have "fround x = \<lfloor>x + 1 / 2\<rfloor>" by (rule fround_floor)
  then show ?thesis using floor_correct [of "x + 1 / 2"] by linarith
qed

lemma scaled_near:
  assumes "\<bar>m - x / s\<bar> \<le> 1 / 2" "0 < (s::rat)"
  shows "\<bar>m * s - x\<bar> \<le> s / 2"
proof -
  have "m * s - x = (m - x / s) * s" using assms(2) by (simp add: left_diff_distrib)
  then have "\<bar>m * s - x\<bar> = \<bar>m - x / s\<bar> * s" using assms(2) by (simp add: abs_mult)
  also have "\<dots> \<le> 1 / 2 * s" using assms by (intro mult_right_mono) simp_all
  finally show ?thesis by simp
qed

lemma near_sum: "\<bar>n - x\<bar> \<le> 1 / 2 \<Longrightarrow> \<bar>m - (n - r)\<bar> \<le> s / 2 \<Longrightarrow> \<bar>r - (x - m)\<bar> \<le> (1 + s) / (2::rat)"
proof -
  assume "\<bar>n - x\<bar> \<le> 1 / 2" "\<bar>m - (n - r)\<bar> \<le> s / 2"
  from abs_le_D1 [OF this(1)] abs_le_D2 [OF this(1)] abs_le_D1 [OF this(2)] abs_le_D2 [OF this(2)]
  have "r - (x - m) \<le> s / 2 + 1 / 2" "- (r - (x - m)) \<le> s / 2 + 1 / 2" by linarith+
  then show ?thesis by (intro abs_leI) (simp_all add: field_simps)
qed

lemma fit_axis_plain:
  assumes "modest i" "modest r" "0 < s" "of_int i * s < 2 ^ 30 - 1"
  shows "\<exists>i' r'. fit_axis 0 i i i r 0 0 s c = (0, i', 0, r') \<and> 0 \<le> i' \<and> i' \<le> i \<and> 0 \<le> r' \<and> r' \<le> r
    \<and> (of_int i * s \<le> of_int r \<longrightarrow> i' = i \<and> r' = fround (of_int i * s))
    \<and> (of_int r \<le> of_int i * s \<longrightarrow> r' = r) \<and> (s = 1 \<longrightarrow> i' = r')
    \<and> r' = min r (fround (of_int i * s)) \<and> \<bar>of_int r' - of_int i' * s\<bar> \<le> (1 + s) / 2"
proof -
  let ?n = "fround (of_int i * s)"
  have p: "0 \<le> of_int i * s" using assms(1,3) by (simp add: modest_def)
  have n: "?n = \<lfloor>of_int i * s + 1 / 2\<rfloor>" using p assms(4) by (intro fround_floor) auto
  then have n0: "0 \<le> ?n" "?n < 2 ^ 30" using p assms(4) by (simp_all add: floor_less_iff)
  have f0: "fround 0 = 0" using fround_of_int [of 0] by simp
  have n1: "?n = i" if "s = 1" using fround_of_int [of i] assms(1) that by (simp add: modest_def)
  have t: "to_int ?n = ?n" "to_int 0 = 0" using n0 by simp_all
  have near: "\<bar>of_int ?n - of_int i * s\<bar> \<le> 1 / 2" using fround_near p assms(4) by simp
  show ?thesis
  proof (cases "r < ?n")
    case False
    have "of_int i * s \<le> of_int r \<or> ?n = r"
      using False n by linarith
    then have "of_int r \<le> of_int i * s \<longrightarrow> ?n = r" using n False by linarith
    moreover have "\<bar>of_int ?n - of_int i * s\<bar> \<le> (1 + s) / 2" using near assms(3) by simp
    ultimately show ?thesis using False n0 t f0 n1 assms(1) by (simp add: fit_axis_def Let_def modest_def)
  next
    case True
    let ?o = "?n - r"
    have o: "0 < ?o" "?o < 2 ^ 30" using True n0 assms(2) by (simp_all add: modest_def)
    have "of_int ?o \<le> of_int i * s" using n assms(2) by (simp add: modest_def) linarith
    then have "of_int ?o / s \<le> of_int i" using assms(3) by (simp add: pos_divide_le_eq)
    moreover have "0 \<le> of_int ?o / s" using o assms(3) by simp
    ultimately have b: "0 \<le> fround (of_int ?o / s) \<and> fround (of_int ?o / s) \<le> i"
      using assms(1) by (intro fround_bounds) (simp_all add: modest_def)
    have to: "to_int ?o = ?o" using o by simp
    have ti: "to_int (i - fround (of_int ?o / s)) = i - fround (of_int ?o / s)"
      using b assms(1) by (intro to_int_small) (simp_all add: modest_def)
    have "i - fround (of_int ?o / s) = r" if "s = 1" using n1 [OF that] fround_of_int [of ?o] o that by simp
    moreover have "\<not> of_int i * s \<le> of_int r" using True n by linarith
    moreover have "\<bar>of_int r - of_int (i - fround (of_int ?o / s)) * s\<bar> \<le> (1 + s) / 2"
    proof -
      have "of_int ?o / s < 2 ^ 30"
        using \<open>of_int ?o / s \<le> of_int i\<close> assms(1) by (simp add: modest_def)
      then have "\<bar>of_int (fround (of_int ?o / s)) - of_int ?o / s\<bar> \<le> 1 / 2"
        using fround_near \<open>0 \<le> of_int ?o / s\<close> by blast
      then have "\<bar>of_int (fround (of_int ?o / s)) * s - of_int ?o\<bar> \<le> s / 2"
        using assms(3) by (rule scaled_near)
      from near_sum [OF near this [unfolded of_int_diff]] show ?thesis by (simp add: left_diff_distrib)
    qed
    ultimately show ?thesis using True n0 t f0 to ti b assms(1,2)
      by (simp add: fit_axis_def Let_def modest_def)
  qed
qed

definition fit_scale :: "fit_t \<Rightarrow> rat \<Rightarrow> rat \<Rightarrow> rat \<times> rat" where
  "fit_scale fit h v =
     (case fit of
        Fit_fill \<Rightarrow> (h, v)
      | Fit_meet \<Rightarrow> (min h v, min h v)
      | Fit_meetbest \<Rightarrow> (min 1 (min h v), min 1 (min h v))
      | Fit_slice \<Rightarrow> (max h v, max h v)
      | _ \<Rightarrow> (1, 1))"

lemma fit_scales_Fin: "fit_scales fit (Fin h, Fin h) (Fin v, Fin v) = (Fin (fst (fit_scale fit h v)), Fin (snd (fit_scale fit h v)))"
  by (cases fit) (auto simp: fit_scales_def fit_scale_def fmin_def fmax_def min_def max_def Let_def)

lemma fit_scale_bounds:
  assumes "0 < h" "0 < v" "h \<le> b" "v \<le> b" "1 \<le> b"
  shows "0 < fst (fit_scale fit h v) \<and> fst (fit_scale fit h v) \<le> b \<and> 0 < snd (fit_scale fit h v) \<and> snd (fit_scale fit h v) \<le> b"
  using assms by (cases fit) (auto simp: fit_scale_def min_def max_def)

lemma modest_product:
  assumes "modest i" "0 < s" "s \<le> 2 ^ 15 - 1"
  shows "of_int i * s < (2 ^ 30 - 1 :: rat)"
proof -
  have "i \<le> 2 ^ 15 - 1" using assms(1) by (simp add: modest_def)
  then have "(of_int i :: rat) \<le> of_int (2 ^ 15 - 1)" by (simp only: of_int_le_iff)
  then have "of_int i * s \<le> (2 ^ 15 - 1) * (2 ^ 15 - 1 :: rat)"
    using assms by (intro mult_mono) (simp_all add: modest_def)
  also have "\<dots> < 2 ^ 30 - 1" by simp
  finally show ?thesis .
qed

lemma ratio_bounds: "modest i \<Longrightarrow> modest r \<Longrightarrow> 0 < (of_int r / of_int i :: rat) \<and> of_int r / of_int i \<le> (2 ^ 15 - 1 :: rat)"
proof -
  assume m: "modest i" "modest r"
  then have "r \<le> 32767" "1 \<le> i" by (simp_all add: modest_def)
  then have "r \<le> (2 ^ 15 - 1) * i" by simp
  then have "(of_int r :: rat) \<le> of_int ((2 ^ 15 - 1) * i)" by (simp only: of_int_le_iff)
  then show ?thesis using m by (simp add: modest_def pos_divide_le_eq)
qed

text \<open>
  C17: how an image is shown in a region without alignment; the sides of both are from 1 to 32767.
  Whatever the fit, the part shown is a part of the image at its top left corner, the place is a part
  of the region at its top left corner, and the one is enlarged to the other by the scales of the
  fit, up to rounding: to fill, each direction by the ratio of the region to the image; to meet, to
  meet best and to slice, both directions by the same number, which is the smaller ratio, the smaller
  ratio but at most 1, or the larger ratio; otherwise not at all. To fill shows all of the image in
  all of the region; to meet shows all of the image and fills the region in one direction; to meet
  best does so unless the image is smaller, which is then shown as it is; to slice fills the region;
  to hide shows the image point by point.
\<close>

theorem image_fits:
  assumes "modest iw" "modest ih" "modest rw" "modest rh"
    and "region = \<lparr>r_x = 0, r_y = 0, r_w = rw, r_h = rh\<rparr>" "picture = \<lparr>r_x = 0, r_y = 0, r_w = iw, r_h = ih\<rparr>"
    and "fit_scale fit (of_int rw / of_int iw) (of_int rh / of_int ih) = (sx, sy)"
  shows "\<exists>dst src. get_fit_rect fit region \<lparr>s_w = iw, s_h = ih\<rparr> None = Some (dst, src)
    \<and> left_top dst = left_top region \<and> rect_within dst region
    \<and> left_top src = left_top picture \<and> rect_within src picture
    \<and> r_w dst = min rw (fround (of_int iw * sx)) \<and> r_h dst = min rh (fround (of_int ih * sy))
    \<and> \<bar>of_int (r_w dst) - of_int (r_w src) * sx\<bar> \<le> (1 + sx) / 2
    \<and> \<bar>of_int (r_h dst) - of_int (r_h src) * sy\<bar> \<le> (1 + sy) / 2
    \<and> (fit = Fit_fill \<longrightarrow> dst = region \<and> src = picture)
    \<and> (fit = Fit_meet \<longrightarrow> src = picture \<and> (r_w dst = rw \<or> r_h dst = rh))
    \<and> (fit = Fit_meetbest \<longrightarrow> src = picture \<and> r_w dst \<le> iw \<and> r_h dst \<le> ih
        \<and> (dst = picture \<or> r_w dst = rw \<or> r_h dst = rh))
    \<and> (fit = Fit_slice \<longrightarrow> dst = region)
    \<and> (fit \<in> {Fit_default, Fit_hidden, Fit_scroll} \<longrightarrow> same_size src dst)"
proof -
  let ?h = "of_int rw / of_int iw :: rat" and ?v = "of_int rh / of_int ih :: rat"
  note m = assms(1-4)
  have s: "0 < sx" "sx \<le> 2 ^ 15 - 1" "0 < sy" "sy \<le> 2 ^ 15 - 1"
    using fit_scale_bounds [of ?h ?v "2 ^ 15 - 1" fit] ratio_bounds [OF m(1,3)] ratio_bounds [OF m(2,4)] assms(7) by auto
  obtain i r where h: "fit_axis 0 iw iw iw rw 0 0 sx sx = (0, i, 0, r)" "0 \<le> i" "i \<le> iw" "0 \<le> r" "r \<le> rw"
    "of_int iw * sx \<le> of_int rw \<longrightarrow> i = iw" "of_int rw \<le> of_int iw * sx \<longrightarrow> r = rw" "sx = 1 \<longrightarrow> i = r"
    "r = min rw (fround (of_int iw * sx))" "\<bar>of_int r - of_int i * sx\<bar> \<le> (1 + sx) / 2"
    using fit_axis_plain [OF m(1,3) s(1) modest_product [OF m(1) s(1,2)], of sx] by blast
  obtain j q where v: "fit_axis 0 ih ih ih rh 0 0 sy sx = (0, j, 0, q)" "0 \<le> j" "j \<le> ih" "0 \<le> q" "q \<le> rh"
    "of_int ih * sy \<le> of_int rh \<longrightarrow> j = ih" "of_int rh \<le> of_int ih * sy \<longrightarrow> q = rh" "sy = 1 \<longrightarrow> j = q"
    "q = min rh (fround (of_int ih * sy))" "\<bar>of_int q - of_int j * sy\<bar> \<le> (1 + sy) / 2"
    using fit_axis_plain [OF m(2,4) s(3) modest_product [OF m(2) s(3,4)], of sx] by blast
  have sz: "to_int iw = iw" "to_int ih = ih" "to_int rw = rw" "to_int rh = rh" "to_uint iw = iw" "to_uint ih = ih"
    "iw \<noteq> 0" "ih \<noteq> 0"
    using m by (simp_all add: modest_def)
  have lim: "i < 2 ^ 32" "j < 2 ^ 32" "r < 2 ^ 32" "q < 2 ^ 32" using h(3,5) v(3,5) m by (simp_all add: modest_def)
  have fit: "get_fit_rect fit region \<lparr>s_w = iw, s_h = ih\<rparr> None
      = Some (\<lparr>r_x = 0, r_y = 0, r_w = r, r_h = q\<rparr>, \<lparr>r_x = 0, r_y = 0, r_w = i, r_h = j\<rparr>)"
    using h(1,2,4) v(1,2,4) s(1,3) sz lim
    by (simp add: get_fit_rect_def clip_fit_rect_def fixpoints_def scale_range_def fdiv_def fit_scales_Fin
        span_rect_def rect_right_def rect_bottom_def assms(5,7) Let_def)
  have le: "of_int iw * min ?h ?v \<le> of_int rw" "of_int ih * min ?h ?v \<le> of_int rh"
    "of_int rw \<le> of_int iw * max ?h ?v" "of_int rh \<le> of_int ih * max ?h ?v"
    using m by (auto simp: modest_def min_def max_def field_simps)
  have fill: "fit = Fit_fill \<Longrightarrow> i = iw \<and> j = ih \<and> r = rw \<and> q = rh"
    using h(6,7) v(6,7) sz assms(7) by (auto simp: fit_scale_def)
  have meet: "i = iw \<and> j = ih \<and> (r = rw \<or> q = rh)" if "sx = min ?h ?v" "sy = min ?h ?v"
    using h(6,7) v(6,7) le(1,2) sz that by (cases "?h \<le> ?v") (auto simp: min_def)
  have best: "i = iw \<and> j = ih \<and> r \<le> iw \<and> q \<le> ih \<and> (r = iw \<and> q = ih \<or> r = rw \<or> q = rh)" if "fit = Fit_meetbest"
  proof (cases "1 \<le> min ?h ?v")
    case True
    then have one: "sx = 1" "sy = 1" using that assms(7) by (simp_all add: fit_scale_def)
    have "of_int iw * (1::rat) \<le> of_int iw * min ?h ?v" "of_int ih * (1::rat) \<le> of_int ih * min ?h ?v"
      using True m by (auto simp: modest_def intro!: mult_left_mono)
    with le(1,2) have "of_int iw * sx \<le> of_int rw" "of_int ih * sy \<le> of_int rh" using one by simp_all
    with h(6,8) v(6,8) one show ?thesis by simp
  next
    case False
    then have sm: "sx = min ?h ?v" "sy = min ?h ?v" "sx \<le> 1" "sy \<le> 1" using that assms(7) by (auto simp: fit_scale_def)
    have "of_int iw * sx \<le> of_int iw" "of_int ih * sy \<le> of_int ih"
      using sm(3,4) m by (auto simp: modest_def intro!: mult_left_le)
    then have "fround (of_int iw * sx) \<le> iw" "fround (of_int ih * sy) \<le> ih"
      using fround_bounds m s(1,3) by (auto simp: modest_def)
    with meet [OF sm(1,2)] h(9) v(9) show ?thesis by auto
  qed
  have slice: "fit = Fit_slice \<Longrightarrow> r = rw \<and> q = rh"
    using h(7) v(7) le(3,4) assms(7) by (auto simp: fit_scale_def)
  have hidden: "fit \<in> {Fit_default, Fit_hidden, Fit_scroll} \<Longrightarrow> i = r \<and> j = q"
    using h(8) v(8) assms(7) by (auto simp: fit_scale_def)
  have meets: "fit = Fit_meet \<Longrightarrow> i = iw \<and> j = ih \<and> (r = rw \<or> q = rh)"
    using meet assms(7) by (auto simp: fit_scale_def)
  show ?thesis
    unfolding fit option.inject prod.inject
  proof (intro exI conjI)
    show "rect_within \<lparr>r_x = 0, r_y = 0, r_w = r, r_h = q\<rparr> region" "rect_within \<lparr>r_x = 0, r_y = 0, r_w = i, r_h = j\<rparr> picture"
      using h(2-5) v(2-5) by (simp_all add: assms(5,6) rect_within_def)
  qed (use fill meets best slice hidden h(9,10) v(9,10) in \<open>auto simp: assms(5,6) left_top_def same_size_def\<close>)
qed

theorem image_fits_witness:
  "get_fit_rect Fit_meet \<lparr>r_x = 0, r_y = 0, r_w = 100, r_h = 60\<rparr> \<lparr>s_w = 200, s_h = 100\<rparr> None
     = Some (\<lparr>r_x = 0, r_y = 0, r_w = 100, r_h = 50\<rparr>, \<lparr>r_x = 0, r_y = 0, r_w = 200, r_h = 100\<rparr>)"
proof -
  have "modest 200" "modest 100" "modest 60" by (simp_all add: modest_def)
  moreover have "fit_scale Fit_meet (of_int 100 / of_int 200) (of_int 60 / of_int 100) = (1 / 2, 1 / 2)"
    by (simp add: fit_scale_def)
  ultimately have f: "\<exists>dst src. get_fit_rect Fit_meet \<lparr>r_x = 0, r_y = 0, r_w = 100, r_h = 60\<rparr> \<lparr>s_w = 200, s_h = 100\<rparr> None
      = Some (dst, src) \<and> r_w dst = min 100 (fround (of_int 200 * (1 / 2)))"
    using image_fits [of 200 100 100 60 _ _ Fit_meet "1 / 2" "1 / 2"] by blast
  have "get_fit_rect Fit_meet \<lparr>r_x = 0, r_y = 0, r_w = 100, r_h = 60\<rparr> \<lparr>s_w = 200, s_h = 100\<rparr> None
     = Some (\<lparr>r_x = 0, r_y = 0, r_w = 100, r_h = 50\<rparr>, \<lparr>r_x = 0, r_y = 0, r_w = 200, r_h = 100\<rparr>)"
    by code_simp
  then show ?thesis using f by auto
qed

section \<open>The tiles of a background\<close>

definition shown :: "int \<Rightarrow> int \<Rightarrow> (rect \<times> rect) list \<Rightarrow> nat" where
  "shown px py ts = length (filter (\<lambda>t. rect_contains (snd t) px py) ts)"

lemma shown_simps [simp]:
  "shown px py [] = 0" "shown px py (t # ts) = (if rect_contains (snd t) px py then 1 else 0) + shown px py ts"
  "shown px py (ts @ us) = shown px py ts + shown px py us"
  by (simp_all add: shown_def)

lemma tile_contains:
  assumes "0 < width" "0 < height" "width < 2 ^ 31" "height < 2 ^ 31" "0 \<le> x" "x < max_x" "0 \<le> y" "y < max_y"
    and "max_x < 2 ^ 31" "max_y < 2 ^ 31"
  shows "rect_contains (snd (tile_at width height max_x max_y x y)) px py \<longleftrightarrow>
    x \<le> px \<and> px < min (x + width) max_x \<and> y \<le> py \<and> py < min (y + height) max_y"
    and "rect_within (fst (tile_at width height max_x max_y x y)) \<lparr>r_x = 0, r_y = 0, r_w = width, r_h = height\<rparr>"
  using assms by (auto simp: tile_at_def rect_contains_def rect_within_def Let_def min_def)

lemma tile_column_covers:
  assumes "0 < width" "0 < height" "width < 2 ^ 31" "0 \<le> x" "x < max_x" "max_x < 2 ^ 31" "max_y + height < 2 ^ 31"
    and "0 \<le> y"
  shows "\<exists>ts. tile_column width height max_x max_y x y = Some ts
    \<and> (\<forall>px py. shown px py ts = (if x \<le> px \<and> px < min (x + width) max_x \<and> y \<le> py \<and> py < max_y then 1 else 0))
    \<and> (\<forall>t \<in> set ts. rect_within (fst t) \<lparr>r_x = 0, r_y = 0, r_w = width, r_h = height\<rparr>)"
  using assms(8)
proof (induction "nat (max_y - y)" arbitrary: y rule: less_induct)
  case less
  show ?case
  proof (cases "y < max_y")
    case False
    then show ?thesis by (subst tile_column.simps) auto
  next
    case True
    then have next_y: "to_int (y + height) = y + height" "0 \<le> y + height" using less.prems assms by simp_all
    have "nat (max_y - (y + height)) < nat (max_y - y)" using True assms(2) by simp
    from less.hyps [OF this next_y(2)] obtain ts where ts: "tile_column width height max_x max_y x (y + height) = Some ts"
      "\<forall>px py. shown px py ts = (if x \<le> px \<and> px < min (x + width) max_x \<and> y + height \<le> py \<and> py < max_y then 1 else 0)"
      "\<forall>t \<in> set ts. rect_within (fst t) \<lparr>r_x = 0, r_y = 0, r_w = width, r_h = height\<rparr>" by blast
    have height: "height < 2 ^ 31" "max_y < 2 ^ 31" using assms less.prems True by linarith+
    note t = tile_contains [OF assms(1,2,3) height(1) assms(4,5) less.prems True assms(6) height(2)]
    have "tile_column width height max_x max_y x y = Some (tile_at width height max_x max_y x y # ts)"
      using True ts(1) next_y(1) by (subst tile_column.simps) simp
    then show ?thesis using ts(2,3) t assms(2) by auto
  qed
qed

lemma tile_rows_covers:
  assumes "0 < width" "0 < height" "max_x + width < 2 ^ 31" "max_y + height < 2 ^ 31" "0 \<le> y0" "0 \<le> x"
  shows "\<exists>ts. tile_rows width height max_x max_y y0 x = Some ts
    \<and> (\<forall>px py. shown px py ts = (if x \<le> px \<and> px < max_x \<and> y0 \<le> py \<and> py < max_y then 1 else 0))
    \<and> (\<forall>t \<in> set ts. rect_within (fst t) \<lparr>r_x = 0, r_y = 0, r_w = width, r_h = height\<rparr>)"
  using assms(6)
proof (induction "nat (max_x - x)" arbitrary: x rule: less_induct)
  case less
  show ?case
  proof (cases "x < max_x")
    case False
    then show ?thesis by (subst tile_rows.simps) auto
  next
    case True
    then have next_x: "to_int (x + width) = x + width" "0 \<le> x + width" using less.prems assms by simp_all
    have "nat (max_x - (x + width)) < nat (max_x - x)" using True assms(1) by simp
    from less.hyps [OF this next_x(2)] obtain ts where ts: "tile_rows width height max_x max_y y0 (x + width) = Some ts"
      "\<forall>px py. shown px py ts = (if x + width \<le> px \<and> px < max_x \<and> y0 \<le> py \<and> py < max_y then 1 else 0)"
      "\<forall>t \<in> set ts. rect_within (fst t) \<lparr>r_x = 0, r_y = 0, r_w = width, r_h = height\<rparr>" by blast
    have width: "width < 2 ^ 31" "max_x < 2 ^ 31" using assms less.prems True by linarith+
    from tile_column_covers [OF assms(1,2) width(1) less.prems True width(2) assms(4,5)]
    obtain c where c: "tile_column width height max_x max_y x y0 = Some c"
      "\<forall>px py. shown px py c = (if x \<le> px \<and> px < min (x + width) max_x \<and> y0 \<le> py \<and> py < max_y then 1 else 0)"
      "\<forall>t \<in> set c. rect_within (fst t) \<lparr>r_x = 0, r_y = 0, r_w = width, r_h = height\<rparr>" by blast
    have "tile_rows width height max_x max_y y0 x = Some (c @ ts)"
      using True c(1) ts(1) next_x(1) by (subst tile_rows.simps) simp
    then show ?thesis using c(2,3) ts(2,3) assms(1) by auto
  qed
qed

text \<open>
  The area the tiles are for: repeated in a direction it is as long as the surface, otherwise as long
  as the image.
\<close>

definition tiled_area :: "tiling \<Rightarrow> int \<Rightarrow> int \<Rightarrow> rect \<Rightarrow> rect" where
  "tiled_area t w h rc =
     rc\<lparr>r_w := (if t \<in> {Tiling_horizontal, Tiling_both, Tiling_default} then r_w rc else w),
        r_h := (if t \<in> {Tiling_vertical, Tiling_both, Tiling_default} then r_h rc else h)\<rparr>"

text \<open>
  C18: the tiles of a background image that is not empty. They cover every point of the tiled area
  exactly once and no other point, and each shows a part of the image. The area is the surface when
  the image is repeated in both directions; in a direction in which it is not repeated the area is
  as long as the image. The sizes and positions are so small that nothing wraps around.
\<close>

theorem tiles_cover:
  assumes "on_screen rc" "0 < w" "0 < h" "w < 2 ^ 31" "h < 2 ^ 31"
    and "r_x rc + max (r_w rc) w + w < 2 ^ 31" "r_y rc + max (r_h rc) h + h < 2 ^ 31"
  shows "\<exists>ts. get_tiles t \<lparr>s_w = w, s_h = h\<rparr> rc = Some ts
    \<and> (\<forall>px py. length (filter (\<lambda>t. rect_contains (snd t) px py) ts) = (if rect_contains (tiled_area t w h rc) px py then 1 else 0))
    \<and> (\<forall>t \<in> set ts. rect_within (fst t) \<lparr>r_x = 0, r_y = 0, r_w = w, r_h = h\<rparr>)"
proof -
  let ?a = "tiled_area t w h rc"
  have c: "rect_right rc = r_x rc + r_w rc" "rect_bottom rc = r_y rc + r_h rc"
    using assms(1) by (simp_all add: rect_right_def rect_bottom_def on_screen_def)
  have pos: "0 \<le> r_y rc" "0 \<le> r_x rc" "0 \<le> r_w rc" "0 \<le> r_h rc" using assms(1) by (simp_all add: on_screen_def)
  have lim: "r_x rc + r_w ?a + w < 2 ^ 31" "r_y rc + r_h ?a + h < 2 ^ 31"
    using assms(6,7) by (simp_all add: tiled_area_def max_def split: if_splits)
  from tile_rows_covers [OF assms(2,3) lim pos(1,2)] obtain ts where ts:
    "tile_rows w h (r_x rc + r_w ?a) (r_y rc + r_h ?a) (r_y rc) (r_x rc) = Some ts"
    "\<forall>px py. shown px py ts = (if r_x rc \<le> px \<and> px < r_x rc + r_w ?a \<and> r_y rc \<le> py \<and> py < r_y rc + r_h ?a then 1 else 0)"
    "\<forall>t \<in> set ts. rect_within (fst t) \<lparr>r_x = 0, r_y = 0, r_w = w, r_h = h\<rparr>" by blast
  have to: "to_int (r_x rc + w) = r_x rc + w" "to_int (r_y rc + h) = r_y rc + h"
    using assms pos by (simp_all add: max_def split: if_splits)
  have "get_tiles t \<lparr>s_w = w, s_h = h\<rparr> rc = Some ts"
    using ts(1) assms to by (cases t) (simp_all add: get_tiles_def Let_def c tiled_area_def)
  moreover have "on_screen ?a" using assms pos by (auto simp: on_screen_def tiled_area_def max_def split: if_splits)
  moreover have "r_x ?a = r_x rc" "r_y ?a = r_y rc" by (simp_all add: tiled_area_def)
  ultimately show ?thesis using ts(2,3) by (simp add: shown_def [symmetric] rect_contains_on_screen)
qed

theorem tiles_cover_witness:
  "map_option length (get_tiles Tiling_both \<lparr>s_w = 40, s_h = 40\<rparr> \<lparr>r_x = 0, r_y = 0, r_w = 100, r_h = 60\<rparr>) = Some 6
   \<and> map_option length (get_tiles Tiling_vertical \<lparr>s_w = 40, s_h = 40\<rparr> \<lparr>r_x = 0, r_y = 0, r_w = 100, r_h = 60\<rparr>) = Some 2"
proof -
  have "on_screen \<lparr>r_x = 0, r_y = 0, r_w = 100, r_h = 60\<rparr>" by (simp add: on_screen_def)
  note t = tiles_cover [OF this, of 40 40 Tiling_both]
  have "map_option length (get_tiles Tiling_both \<lparr>s_w = 40, s_h = 40\<rparr> \<lparr>r_x = 0, r_y = 0, r_w = 100, r_h = 60\<rparr>) = Some 6"
    "map_option length (get_tiles Tiling_vertical \<lparr>s_w = 40, s_h = 40\<rparr> \<lparr>r_x = 0, r_y = 0, r_w = 100, r_h = 60\<rparr>) = Some 2"
    by code_simp+
  with t show ?thesis by auto
qed

text \<open>The tiles of an image without height never end.\<close>

lemma flat_tiles:
  assumes "tile_column width height max_x max_y x y = Some ts"
  shows "height = 0 \<longrightarrow> is_int y \<longrightarrow> \<not> y < max_y"
proof -
  let ?P = "\<lambda>(width :: int) (height :: int) (max_x :: int) max_y (x :: int) y (ts :: (rect \<times> rect) list).
    height = 0 \<longrightarrow> is_int y \<longrightarrow> \<not> y < max_y"
  have step: "?P width height max_x max_y x y ts"
    if "\<And>width height max_x max_y x y ts. f width height max_x max_y x y = Some ts \<Longrightarrow> ?P width height max_x max_y x y ts"
      and "(if y < max_y then
        do { ts \<leftarrow> f width height max_x max_y x (to_int (y + height));
             Some (tile_at width height max_x max_y x y # ts) }
      else Some []) = Some ts" for f width height max_x max_y x y ts
    using that by (auto simp: Option.bind_eq_Some_conv split: if_splits)
  show ?thesis
    using tile_column.raw_induct [where P = ?P and xa = "(((((width, height), max_x), max_y), x), y)" and ya = ts]
      step assms by simp blast
qed

end
