(* ===== verification/Surface.thy ===== *)
theory Surface
  imports Fit
begin

text \<open>
  The surfaces of the regions (common/region.cpp): their cached bounds, what is drawn in which order,
  who gets the events of the user, and how requests go up to the window. Surfaces are records with
  numbers as addresses. What a surface asks its region is an argument; calls to windows and renderers
  are a log, latest first, and the answers of renderers to events are an argument. Recursion over
  the children is a loop over the calls still to be made. \<open>None\<close> is a null dereference or a
  recursion that does not end.
\<close>

section \<open>Surfaces\<close>

type_synonym children_map = "(int \<times> nat list) list"

record region_view =
  rv_rect :: rect
  rv_zindex :: int
  rv_transparent :: bool
  rv_showbackground :: bool
  rv_subregion :: bool

record surface =
  sf_toplevel :: bool
  sf_bounds_inited :: bool
  sf_highlighting :: bool
  sf_inner :: rect
  sf_outer :: rect
  sf_clipped :: rect
  sf_topleft :: point
  sf_parent :: "nat option"
  sf_renderers :: "nat list"
  sf_children :: children_map
  sf_subregions :: children_map
  sf_info :: "nat option"
  sf_bg :: "nat option"
  sf_data :: "nat option"
  sf_data_id :: "nat option"
  sf_forced :: bool

datatype command =
    Window_redraw nat rect
  | Window_events nat bool
  | Draw_background nat rect
  | Draw_renderer nat rect
  | Draw_highlight nat
  | Keep_background nat
  | Freeze_end nat rect
  | Release_data nat
  | Add_ref nat
  | Bg_surface nat nat
  | Ask_renderer nat point

record screen =
  sc_surface :: "nat \<Rightarrow> surface"
  sc_free :: nat
  sc_log :: "command list"

definition upd_surface :: "nat \<Rightarrow> (surface \<Rightarrow> surface) \<Rightarrow> screen \<Rightarrow> screen" where
  "upd_surface n f s = s\<lparr>sc_surface := (sc_surface s)(n := f (sc_surface s n))\<rparr>"

definition issue :: "command \<Rightarrow> screen \<Rightarrow> screen" where
  "issue c s = s\<lparr>sc_log := c # sc_log s\<rparr>"

text \<open>A \<open>std::map\<close> from z-indices to lists, in ascending order.\<close>

fun z_push :: "int \<Rightarrow> nat \<Rightarrow> children_map \<Rightarrow> children_map" where
  "z_push z n [] = [(z, [n])]"
| "z_push z n ((k, ns) # m) =
     (if z < k then (z, [n]) # (k, ns) # m
      else if z = k then (k, ns @ [n]) # m
      else (k, ns) # z_push z n m)"

fun z_remove :: "int \<Rightarrow> nat \<Rightarrow> children_map \<Rightarrow> children_map" where
  "z_remove z n [] = [(z, [])]"
| "z_remove z n ((k, ns) # m) =
     (if z < k then (z, []) # (k, ns) # m
      else if z = k then (k, removeAll n ns) # m
      else (k, ns) # z_remove z n m)"

definition z_all :: "children_map \<Rightarrow> nat list" where
  "z_all m = concat (map snd m)"

definition children :: "screen \<Rightarrow> nat \<Rightarrow> nat list" where
  "children s n = z_all (sf_children (sc_surface s n))"

section \<open>Bounds\<close>

type_synonym views = "nat \<Rightarrow> region_view"

definition outer_of :: "views \<Rightarrow> surface \<Rightarrow> rect" where
  "outer_of ri f = (case sf_info f of Some i \<Rightarrow> rv_rect (ri i) | None \<Rightarrow> sf_outer f)"

definition top_point :: "screen \<Rightarrow> nat \<Rightarrow> point" where
  "top_point s n = (if sf_toplevel (sc_surface s n) then \<lparr>p_x = 0, p_y = 0\<rparr> else sf_topleft (sc_surface s n))"

partial_function (option) need_bounds :: "views \<Rightarrow> nat \<Rightarrow> screen \<Rightarrow> screen option" where
  "need_bounds ri n s =
     (if sf_bounds_inited (sc_surface s n) then Some s
      else let ob = outer_of ri (sc_surface s n); ib = innercoordinates ob ob;
               s = upd_surface n (\<lambda>f. f\<lparr>sf_outer := ob, sf_inner := ib, sf_topleft := left_top ob\<rparr>) s
           in case sf_parent (sc_surface s n) of
                None \<Rightarrow> Some (upd_surface n (\<lambda>f. f\<lparr>sf_clipped := rect_translate ib (left_top ob), sf_bounds_inited := True\<rparr>) s)
              | Some p \<Rightarrow>
                  do { s \<leftarrow> need_bounds ri p s;
                       let tl = point_add (left_top ob) (top_point s p);
                       Some (upd_surface n (\<lambda>f. f\<lparr>sf_topleft := tl,
                         sf_clipped := rect_and (rect_translate ib tl) (sf_clipped (sc_surface s p)),
                         sf_bounds_inited := True\<rparr>) s) })"

declare need_bounds.simps [code]

definition get_global_topleft :: "views \<Rightarrow> nat \<Rightarrow> screen \<Rightarrow> (point \<times> screen) option" where
  "get_global_topleft ri n s =
     (if sf_toplevel (sc_surface s n) then Some (\<lparr>p_x = 0, p_y = 0\<rparr>, s)
      else do { s \<leftarrow> need_bounds ri n s; Some (sf_topleft (sc_surface s n), s) })"

definition get_clipped_screen_rect :: "views \<Rightarrow> nat \<Rightarrow> screen \<Rightarrow> (rect \<times> screen) option" where
  "get_clipped_screen_rect ri n s = do { s \<leftarrow> need_bounds ri n s; Some (sf_clipped (sc_surface s n), s) }"

partial_function (option) clear_loop :: "nat list \<Rightarrow> screen \<Rightarrow> screen option" where
  "clear_loop todo s =
     (case todo of
        [] \<Rightarrow> Some s
      | n # rest \<Rightarrow> clear_loop (children s n @ rest) (upd_surface n (\<lambda>f. f\<lparr>sf_bounds_inited := False\<rparr>) s))"

declare clear_loop.simps [code]

definition clear_cache :: "nat \<Rightarrow> screen \<Rightarrow> screen option" where
  "clear_cache n s = clear_loop [n] s"

section \<open>Requests\<close>

partial_function (option) need_redraw :: "nat \<Rightarrow> rect \<Rightarrow> screen \<Rightarrow> screen option" where
  "need_redraw n r s =
     (let f = sc_surface s n in
      if sf_toplevel f then Some (issue (Window_redraw n r) s)
      else case sf_parent f of
             None \<Rightarrow> Some s
           | Some p \<Rightarrow> need_redraw p (outercoordinates (sf_outer f) (rect_and r (sf_inner f))) s)"

declare need_redraw.simps [code]

definition need_redraw_all :: "nat \<Rightarrow> screen \<Rightarrow> screen option" where
  "need_redraw_all n s = need_redraw n (sf_inner (sc_surface s n)) s"

partial_function (option) need_events :: "nat \<Rightarrow> bool \<Rightarrow> screen \<Rightarrow> screen option" where
  "need_events n want s =
     (if sf_toplevel (sc_surface s n) then Some (issue (Window_events n want) s)
      else case sf_parent (sc_surface s n) of
             None \<Rightarrow> Some s
           | Some p \<Rightarrow> if want then need_events p want s else Some s)"

declare need_events.simps [code]

partial_function (option) set_forced_redraw :: "nat \<Rightarrow> screen \<Rightarrow> screen option" where
  "set_forced_redraw n s =
     (let s = upd_surface n (\<lambda>f. f\<lparr>sf_forced := True\<rparr>) s in
      case sf_parent (sc_surface s n) of None \<Rightarrow> Some s | Some p \<Rightarrow> set_forced_redraw p s)"

declare set_forced_redraw.simps [code]

partial_function (option) background_render_changed :: "views \<Rightarrow> nat \<Rightarrow> screen \<Rightarrow> screen option" where
  "background_render_changed ri n s =
     do { s \<leftarrow> (case sf_info (sc_surface s n) of
                  Some i \<Rightarrow> if \<not> rv_transparent (ri i) \<and> \<not> rv_showbackground (ri i) then need_redraw_all n s else Some s
                | None \<Rightarrow> Some s);
          case sf_parent (sc_surface s n) of None \<Rightarrow> Some s | Some p \<Rightarrow> background_render_changed ri p s }"

declare background_render_changed.simps [code]

text \<open>The depth first search for a surface with a renderer.\<close>

partial_function (option) active_loop :: "nat list \<Rightarrow> screen \<Rightarrow> bool option" where
  "active_loop todo s =
     (case todo of
        [] \<Rightarrow> Some False
      | n # rest \<Rightarrow> if sf_renderers (sc_surface s n) \<noteq> [] then Some True else active_loop (children s n @ rest) s)"

declare active_loop.simps [code]

definition is_active :: "nat \<Rightarrow> screen \<Rightarrow> bool option" where
  "is_active n s = active_loop [n] s"

definition zindex :: "views \<Rightarrow> surface \<Rightarrow> int" where
  "zindex ri f = (case sf_info f of Some i \<Rightarrow> rv_zindex (ri i) | None \<Rightarrow> 0)"

definition add_subregion :: "views \<Rightarrow> nat \<Rightarrow> int \<Rightarrow> nat \<Rightarrow> screen \<Rightarrow> screen option" where
  "add_subregion ri p z n s =
     do { act \<leftarrow> is_active p s;
          let s = upd_surface p (\<lambda>f. f\<lparr>sf_subregions := z_push z n (sf_subregions f)\<rparr>) s;
          if \<not> act then background_render_changed ri p s else Some s }"

definition del_subregion :: "views \<Rightarrow> nat \<Rightarrow> int \<Rightarrow> nat \<Rightarrow> screen \<Rightarrow> screen option" where
  "del_subregion ri p z n s =
     (let s = upd_surface p (\<lambda>f. f\<lparr>sf_subregions := z_remove z n (sf_subregions f)\<rparr>) s in
      do { act \<leftarrow> is_active p s; if \<not> act then background_render_changed ri p s else Some s })"

definition show_renderer :: "views \<Rightarrow> nat \<Rightarrow> nat \<Rightarrow> screen \<Rightarrow> screen option" where
  "show_renderer ri n cur s =
     (let was_inactive = (sf_renderers (sc_surface s n) = []);
          s = upd_surface n (\<lambda>f. f\<lparr>sf_renderers := sf_renderers f @ [cur]\<rparr>) s;
          z = zindex ri (sc_surface s n)
      in do { s \<leftarrow> (case sf_parent (sc_surface s n) of None \<Rightarrow> Some s | Some p \<Rightarrow> add_subregion ri p z n s);
              s \<leftarrow> need_redraw_all n s;
              if was_inactive then background_render_changed ri n s else Some s })"

definition renderer_done :: "views \<Rightarrow> nat \<Rightarrow> nat \<Rightarrow> screen \<Rightarrow> screen option" where
  "renderer_done ri n cur s =
     (let s = upd_surface n (\<lambda>f. f\<lparr>sf_renderers := remove1 cur (sf_renderers f)\<rparr>) s;
          z = zindex ri (sc_surface s n)
      in do { s \<leftarrow> (case sf_parent (sc_surface s n) of None \<Rightarrow> Some s | Some p \<Rightarrow> del_subregion ri p z n s);
              s \<leftarrow> need_redraw_all n s;
              if sf_renderers (sc_surface s n) = [] then background_render_changed ri n s else Some s })"

text \<open>A surface without a parent, as that of a root layout, uses a null pointer here.\<close>

definition animated :: "views \<Rightarrow> nat \<Rightarrow> screen \<Rightarrow> screen option" where
  "animated ri n s =
     (let old = sf_outer (sc_surface s n) in
      do { s \<leftarrow> clear_cache n s;
           s \<leftarrow> need_bounds ri n s;
           let to_redraw = rect_or old (sf_outer (sc_surface s n));
           s \<leftarrow> set_forced_redraw n s;
           p \<leftarrow> sf_parent (sc_surface s n);
           need_redraw p to_redraw s })"

definition highlight :: "nat \<Rightarrow> bool \<Rightarrow> screen \<Rightarrow> screen option" where
  "highlight n onoff s = need_redraw_all n (upd_surface n (\<lambda>f. f\<lparr>sf_highlighting := onoff\<rparr>) s)"

definition subregion_of :: "views \<Rightarrow> surface \<Rightarrow> bool" where
  "subregion_of ri f = (case sf_info f of Some i \<Rightarrow> rv_subregion (ri i) | None \<Rightarrow> False)"

partial_function (option) keep_as_background :: "views \<Rightarrow> nat \<Rightarrow> screen \<Rightarrow> screen option" where
  "keep_as_background ri n s =
     (case sf_info (sc_surface s n) of
        None \<Rightarrow> None
      | Some i \<Rightarrow>
          if rv_subregion (ri i) then
            (case sf_parent (sc_surface s n) of None \<Rightarrow> None | Some p \<Rightarrow> keep_as_background ri p s)
          else case sf_bg (sc_surface s n) of
                 Some b \<Rightarrow> Some (issue (Keep_background b) s)
               | None \<Rightarrow> Some s)"

declare keep_as_background.simps [code]

partial_function (option) get_private_data :: "views \<Rightarrow> nat \<Rightarrow> nat option \<Rightarrow> screen \<Rightarrow> nat option option" where
  "get_private_data ri n idd s =
     (if subregion_of ri (sc_surface s n) then
        (case sf_parent (sc_surface s n) of None \<Rightarrow> None | Some p \<Rightarrow> get_private_data ri p idd s)
      else Some (if idd = sf_data_id (sc_surface s n) then sf_data (sc_surface s n) else None))"

declare get_private_data.simps [code]

definition set_own_data :: "nat \<Rightarrow> nat option \<Rightarrow> nat \<Rightarrow> screen \<Rightarrow> screen" where
  "set_own_data n idd d s =
     (let s = (case sf_data (sc_surface s n) of Some old \<Rightarrow> issue (Release_data old) s | None \<Rightarrow> s)
      in upd_surface n (\<lambda>f. f\<lparr>sf_data := Some d, sf_data_id := idd\<rparr>) (issue (Add_ref d) s))"

text \<open>After the call to the parent the data is also stored here.\<close>

partial_function (option) set_private_data :: "views \<Rightarrow> nat \<Rightarrow> nat option \<Rightarrow> nat \<Rightarrow> screen \<Rightarrow> screen option" where
  "set_private_data ri n idd d s =
     do { s \<leftarrow> (if subregion_of ri (sc_surface s n) then
                  (case sf_parent (sc_surface s n) of None \<Rightarrow> None | Some p \<Rightarrow> set_private_data ri p idd d s)
                else Some s);
          Some (set_own_data n idd d s) }"

declare set_private_data.simps [code]

section \<open>Drawing\<close>

datatype job = Redraw nat rect | Foreground nat

definition shows_background :: "views \<Rightarrow> nat \<Rightarrow> screen \<Rightarrow> bool option" where
  "shows_background ri n s =
     (case sf_info (sc_surface s n) of
        None \<Rightarrow> Some False
      | Some i \<Rightarrow>
          if rv_transparent (ri i) then Some False
          else if rv_showbackground (ri i) then Some True
          else is_active n s)"

definition draw_background :: "nat \<Rightarrow> rect \<Rightarrow> screen \<Rightarrow> screen" where
  "draw_background n r s =
     (case sf_bg (sc_surface s n) of None \<Rightarrow> s | Some b \<Rightarrow> issue (Draw_background b r) s)"

partial_function (option) redraw_loop :: "views \<Rightarrow> job list \<Rightarrow> screen \<Rightarrow> screen option" where
  "redraw_loop ri jobs s =
     (case jobs of
        [] \<Rightarrow> Some s
      | job # js \<Rightarrow>
          (case job of
             Redraw n r \<Rightarrow>
               (let f = sc_surface s n; our = innercoordinates (sf_outer f) (rect_and r (sf_outer f)) in
                if rect_empty our \<and> \<not> sf_forced f then redraw_loop ri js s
                else
                  let s = upd_surface n (\<lambda>f. f\<lparr>sf_forced := False\<rparr>) s in
                  do { bg \<leftarrow> shows_background ri n s;
                       let s = (if bg then draw_background n our s else s);
                       let s = fold (\<lambda>k. issue (Draw_renderer k our)) (sf_renderers f) s;
                       if list_ex (\<lambda>m. sf_info (sc_surface s m) = None) (z_all (sf_subregions f) @ z_all (sf_children f))
                       then None
                       else redraw_loop ri
                         (map (\<lambda>m. Redraw m our) (z_all (sf_subregions f))
                          @ map (\<lambda>m. Redraw m our)
                              (filter (\<lambda>m. \<not> subregion_of ri (sc_surface s m)) (z_all (sf_children f)))
                          @ Foreground n # js) s })
           | Foreground n \<Rightarrow>
               (case sf_bg (sc_surface s n) of
                  Some b \<Rightarrow> redraw_loop ri js (if sf_highlighting (sc_surface s n) then issue (Draw_highlight b) s else s)
                | None \<Rightarrow> redraw_loop ri js s)))"

declare redraw_loop.simps [code]

definition redraw :: "views \<Rightarrow> nat \<Rightarrow> rect \<Rightarrow> screen \<Rightarrow> screen option" where
  "redraw ri n r s = redraw_loop ri [Redraw n r] s"

section \<open>Events\<close>

datatype candidate = Child nat | Renderer nat

definition candidates :: "views \<Rightarrow> nat \<Rightarrow> screen \<Rightarrow> candidate list" where
  "candidates ri n s =
     (let f = sc_surface s n in
      map Child (rev (filter (\<lambda>m. \<not> subregion_of ri (sc_surface s m)) (z_all (sf_children f))))
      @ map Child (rev (z_all (sf_subregions f)))
      @ map Renderer (rev (sf_renderers f)))"

text \<open>
  A frame is a call still active: whether it is handled, who is to be asked, and the point. The
  answer of each one asked replaces the one before.
\<close>

type_synonym frame = "bool \<times> candidate list \<times> point"

partial_function (option) event_loop ::
    "(nat \<Rightarrow> point \<Rightarrow> bool) \<Rightarrow> bool \<Rightarrow> views \<Rightarrow> frame list \<Rightarrow> screen \<Rightarrow> (bool \<times> screen) option" where
  "event_loop answer click ri frames s =
     (case frames of
        [] \<Rightarrow> None
      | frame # fs \<Rightarrow>
          (case frame of (handled, cands, pt) \<Rightarrow>
             if cands = [] \<or> (handled \<and> click) then
               (case fs of
                  [] \<Rightarrow> Some (handled, s)
                | up # fs' \<Rightarrow> event_loop answer click ri ((handled, snd up) # fs') s)
             else
               (case hd cands of
                  Renderer k \<Rightarrow>
                    event_loop answer click ri ((answer k pt, tl cands, pt) # fs) (issue (Ask_renderer k pt) s)
                | Child m \<Rightarrow>
                    (let f = sc_surface s m in
                     if rect_contains (sf_outer f) (p_x pt) (p_y pt)
                     then event_loop answer click ri
                       ((False, candidates ri m s, point_sub pt (left_top (sf_outer f))) # (handled, tl cands, pt) # fs) s
                     else event_loop answer click ri ((False, tl cands, pt) # fs) s))))"

declare event_loop.simps [code]

definition user_event :: "(nat \<Rightarrow> point \<Rightarrow> bool) \<Rightarrow> bool \<Rightarrow> views \<Rightarrow> nat \<Rightarrow> point \<Rightarrow> screen \<Rightarrow> (bool \<times> screen) option" where
  "user_event answer click ri n pt s =
     (let f = sc_surface s n in
      if \<not> rect_contains (sf_outer f) (p_x pt) (p_y pt) then Some (False, s)
      else event_loop answer click ri [(False, candidates ri n s, point_sub pt (left_top (sf_outer f)))] s)"

section \<open>Transitions\<close>

partial_function (option) freeze_loop :: "(nat \<times> rect) list \<Rightarrow> screen \<Rightarrow> screen option" where
  "freeze_loop todo s =
     (case todo of
        [] \<Rightarrow> Some s
      | job # js \<Rightarrow>
          (case job of (n, r) \<Rightarrow>
             let f = sc_surface s n; r = innercoordinates (sf_outer f) (rect_and r (sf_outer f)) in
             if rect_empty r then freeze_loop js s
             else freeze_loop (map (\<lambda>m. (m, r)) (z_all (sf_children f)) @ js)
               (fold (\<lambda>k. issue (Freeze_end k r)) (sf_renderers f) s)))"

declare freeze_loop.simps [code]

definition transition_freeze_end :: "nat \<Rightarrow> rect \<Rightarrow> screen \<Rightarrow> screen option" where
  "transition_freeze_end n r s = freeze_loop [(n, r)] s"

partial_function (option) transition_done :: "nat \<Rightarrow> rect \<Rightarrow> screen \<Rightarrow> screen option" where
  "transition_done n area s =
     (let f = sc_surface s n in
      if sf_toplevel f then transition_freeze_end n area s
      else case sf_parent f of
             None \<Rightarrow> Some s
           | Some p \<Rightarrow> transition_done p (outercoordinates (sf_outer f) (rect_and area (sf_inner f))) s)"

declare transition_done.simps [code]

section \<open>New surfaces\<close>

definition alloc_surface ::
    "views \<Rightarrow> bool \<Rightarrow> nat option \<Rightarrow> rect \<Rightarrow> nat option \<Rightarrow> nat option \<Rightarrow> screen \<Rightarrow> (nat \<times> screen) option" where
  "alloc_surface ri toplevel parent bounds info bg s =
     do { (tl, s) \<leftarrow>
            (case parent of
               None \<Rightarrow> Some (left_top bounds, s)
             | Some p \<Rightarrow> do { (g, s) \<leftarrow> get_global_topleft ri p s; Some (point_add (left_top bounds) g, s) });
          let n = sc_free s;
          let f = \<lparr>sf_toplevel = toplevel, sf_bounds_inited = False, sf_highlighting = False,
                   sf_inner = innercoordinates bounds bounds, sf_outer = bounds, sf_clipped = zero_rect,
                   sf_topleft = tl, sf_parent = parent, sf_renderers = [], sf_children = [], sf_subregions = [],
                   sf_info = info, sf_bg = bg, sf_data = None, sf_data_id = None, sf_forced = False\<rparr>;
          let s = s\<lparr>sc_free := n + 1, sc_surface := (sc_surface s)(n := f)\<rparr>;
          Some (n, case bg of Some b \<Rightarrow> issue (Bg_surface b n) s | None \<Rightarrow> s) }"

definition new_subsurface :: "views \<Rightarrow> nat \<Rightarrow> nat \<Rightarrow> nat option \<Rightarrow> screen \<Rightarrow> (nat \<times> screen) option" where
  "new_subsurface ri n info bg s =
     do { let bounds = rv_rect (ri info);
          (m, s) \<leftarrow> alloc_surface ri False (Some n) bounds (Some info) bg s;
          let s = upd_surface n (\<lambda>f. f\<lparr>sf_children := z_push (rv_zindex (ri info)) m (sf_children f)\<rparr>) s;
          s \<leftarrow> need_redraw n bounds s;
          Some (m, s) }"

text \<open>The size is that of the region with the default rectangle of the windows, or that rectangle's.\<close>

definition new_topsurface :: "views \<Rightarrow> nat option \<Rightarrow> rsize \<Rightarrow> nat option \<Rightarrow> screen \<Rightarrow> (nat \<times> screen) option" where
  "new_topsurface ri info bounds bg s =
     alloc_surface ri True None \<lparr>r_x = 0, r_y = 0, r_w = s_w bounds, r_h = s_h bounds\<rparr> info bg s"

section \<open>The cache of the bounds\<close>

definition cache_ok :: "views \<Rightarrow> screen \<Rightarrow> nat \<Rightarrow> bool" where
  "cache_ok ri s n \<longleftrightarrow>
     (let f = sc_surface s n; ob = outer_of ri f in
      sf_bounds_inited f \<longrightarrow>
        sf_outer f = ob \<and> sf_inner f = innercoordinates ob ob \<and>
        (case sf_parent f of
           None \<Rightarrow> sf_topleft f = left_top ob \<and> sf_clipped f = rect_translate (sf_inner f) (sf_topleft f)
         | Some p \<Rightarrow> sf_bounds_inited (sc_surface s p)
             \<and> sf_topleft f = point_add (left_top ob) (top_point s p)
             \<and> sf_clipped f = rect_and (rect_translate (sf_inner f) (sf_topleft f)) (sf_clipped (sc_surface s p))))"

definition caches_ok :: "views \<Rightarrow> screen \<Rightarrow> bool" where
  "caches_ok ri s \<longleftrightarrow> (\<forall>n. cache_ok ri s n)"

definition surface_tree :: "(nat \<Rightarrow> nat) \<Rightarrow> (nat \<Rightarrow> nat) \<Rightarrow> screen \<Rightarrow> bool" where
  "surface_tree depth height s \<longleftrightarrow>
     (\<forall>n p. sf_parent (sc_surface s n) = Some p \<longrightarrow> depth p < depth n \<and> n \<in> set (children s p))
     \<and> (\<forall>n c. c \<in> set (children s n) \<longrightarrow> height c < height n)"

definition below_surface :: "screen \<Rightarrow> nat \<Rightarrow> nat set" where
  "below_surface s n = {m. (\<lambda>a b. b \<in> set (children s a))\<^sup>*\<^sup>* n m}"

definition cleared :: "nat set \<Rightarrow> screen \<Rightarrow> screen" where
  "cleared A s = s\<lparr>sc_surface := (\<lambda>m. if m \<in> A then (sc_surface s m)\<lparr>sf_bounds_inited := False\<rparr> else sc_surface s m)\<rparr>"

lemma cleared_simps [simp]:
  "sf_parent (sc_surface (cleared A s) m) = sf_parent (sc_surface s m)"
  "sf_info (sc_surface (cleared A s) m) = sf_info (sc_surface s m)"
  "sf_outer (sc_surface (cleared A s) m) = sf_outer (sc_surface s m)"
  "sf_inner (sc_surface (cleared A s) m) = sf_inner (sc_surface s m)"
  "sf_topleft (sc_surface (cleared A s) m) = sf_topleft (sc_surface s m)"
  "sf_clipped (sc_surface (cleared A s) m) = sf_clipped (sc_surface s m)"
  "sf_toplevel (sc_surface (cleared A s) m) = sf_toplevel (sc_surface s m)"
  "sf_children (sc_surface (cleared A s) m) = sf_children (sc_surface s m)"
  "sf_bounds_inited (sc_surface (cleared A s) m) \<longleftrightarrow> m \<notin> A \<and> sf_bounds_inited (sc_surface s m)"
  by (auto simp: cleared_def)

lemma cleared_children [simp]: "children (cleared A s) = children s"
  by (simp add: children_def fun_eq_iff)

lemma cleared_below [simp]: "below_surface (cleared A s) = below_surface s"
  by (simp add: below_surface_def fun_eq_iff)

lemma cleared_union [simp]: "cleared B (cleared A s) = cleared (A \<union> B) s"
  by (simp add: cleared_def fun_eq_iff)

lemma cleared_none [simp]: "cleared {} s = s"
  by (simp add: cleared_def)

lemma below_children: "below_surface s n = insert n (\<Union>m \<in> set (children s n). below_surface s m)"
  unfolding below_surface_def by (auto intro: converse_rtranclp_into_rtranclp elim: converse_rtranclpE)

lemma clear_one:
  assumes "surface_tree depth height s"
  shows "clear_loop (n # rest) s = clear_loop rest (cleared (below_surface s n) s)"
  using assms
proof (induction "height n" arbitrary: n rest s rule: less_induct)
  case less
  have list: "set ms \<subseteq> set (children s n) \<Longrightarrow> children u = children s \<Longrightarrow> below_surface u = below_surface s \<Longrightarrow>
      surface_tree depth height u \<Longrightarrow>
      clear_loop (ms @ rest) u = clear_loop rest (cleared (\<Union>m \<in> set ms. below_surface s m) u)" for ms u
  proof (induction ms arbitrary: u)
    case (Cons m ms)
    have "height m < height n" using Cons.prems(1) less.prems by (simp add: surface_tree_def)
    from less.hyps [OF this Cons.prems(4)]
    have "clear_loop (m # ms @ rest) u = clear_loop (ms @ rest) (cleared (below_surface s m) u)"
      using Cons.prems(3) by simp
    moreover have "surface_tree depth height (cleared (below_surface s m) u)"
      using Cons.prems(4) by (simp add: surface_tree_def)
    ultimately show ?case using Cons.IH [of "cleared (below_surface s m) u"] Cons.prems by simp
  qed simp
  have c: "upd_surface n (\<lambda>f. f\<lparr>sf_bounds_inited := False\<rparr>) s = cleared {n} s"
    by (auto simp: upd_surface_def cleared_def fun_eq_iff)
  have "clear_loop (n # rest) s = clear_loop (children s n @ rest) (cleared {n} s)"
    by (subst clear_loop.simps) (simp add: c)
  also have "\<dots> = clear_loop rest (cleared (\<Union>m \<in> set (children s n). below_surface s m) (cleared {n} s))"
    using less.prems by (intro list) (simp_all add: surface_tree_def)
  finally show ?case by (subst below_children) simp
qed

lemma clear_cache_clears: "surface_tree depth height s \<Longrightarrow> clear_cache n s = Some (cleared (below_surface s n) s)"
  unfolding clear_cache_def by (subst clear_one, assumption, subst clear_loop.simps) simp

lemma below_closed: "surface_tree depth height s \<Longrightarrow> sf_parent (sc_surface s m) = Some p \<Longrightarrow> p \<in> below_surface s n \<Longrightarrow> m \<in> below_surface s n"
  by (auto simp: surface_tree_def below_surface_def intro: rtranclp.rtrancl_into_rtrancl)

lemma cleared_ok:
  assumes "surface_tree depth height s" "caches_ok ri s"
    and "\<forall>m. m \<notin> below_surface s n \<longrightarrow> outer_of ri' (sc_surface s m) = outer_of ri (sc_surface s m)"
  shows "caches_ok ri' (cleared (below_surface s n) s)"
  unfolding caches_ok_def
proof
  fix m
  have top: "top_point (cleared A s) p = top_point s p" for A p by (simp add: top_point_def)
  have "outer_of ri' (sc_surface (cleared (below_surface s n) s) m) = outer_of ri' (sc_surface s m)"
    by (simp add: outer_of_def split: option.splits)
  then show "cache_ok ri' (cleared (below_surface s n) s) m"
    using assms(2,3) below_closed [OF assms(1), of m _ n]
    by (auto simp: caches_ok_def cache_ok_def Let_def top split: option.splits)
qed


text \<open>What computing bounds leaves as it is.\<close>

definition same_links :: "screen \<Rightarrow> screen \<Rightarrow> bool" where
  "same_links s u \<longleftrightarrow>
     (\<forall>m. sf_parent (sc_surface u m) = sf_parent (sc_surface s m) \<and> sf_info (sc_surface u m) = sf_info (sc_surface s m)
        \<and> sf_toplevel (sc_surface u m) = sf_toplevel (sc_surface s m))"

lemma same_links_trans: "same_links s u \<Longrightarrow> same_links u v \<Longrightarrow> same_links s v"
  by (simp add: same_links_def)

text \<open>A surface whose bounds are not valid may change: nobody with valid bounds rests on it.\<close>

lemma caches_ok_upd:
  assumes ok: "caches_ok ri s" and off: "\<not> sf_bounds_inited (sc_surface s n)"
    and new: "cache_ok ri (upd_surface n g s) n"
  shows "caches_ok ri (upd_surface n g s)"
  unfolding caches_ok_def
proof
  fix m
  show "cache_ok ri (upd_surface n g s) m"
  proof (cases "m = n")
    case False
    have "cache_ok ri s m" using ok by (simp add: caches_ok_def)
    then show ?thesis using False off
      by (auto simp: cache_ok_def upd_surface_def top_point_def Let_def split: option.splits)
  qed (simp add: new)
qed

lemma need_bounds_ok:
  assumes "\<forall>n p. sf_parent (sc_surface s n) = Some p \<longrightarrow> depth p < (depth n :: nat)" "caches_ok ri s"
  shows "\<exists>u. need_bounds ri n s = Some u \<and> caches_ok ri u \<and> sf_bounds_inited (sc_surface u n) \<and> same_links s u
           \<and> (\<forall>m. depth n < depth m \<longrightarrow> sc_surface u m = sc_surface s m)
           \<and> (\<forall>m. depth m = depth n \<longrightarrow> m \<noteq> n \<longrightarrow> sc_surface u m = sc_surface s m)"
  using assms
proof (induction "depth n" arbitrary: n s rule: less_induct)
  case less
  show ?case
  proof (cases "sf_bounds_inited (sc_surface s n)")
    case True
    then show ?thesis using less.prems by (subst need_bounds.simps) (simp add: same_links_def)
  next
    case False
    define ob where "ob = outer_of ri (sc_surface s n)"
    define ib where "ib = innercoordinates ob ob"
    define s1 where "s1 = upd_surface n (\<lambda>f. f\<lparr>sf_outer := ob, sf_inner := ib, sf_topleft := left_top ob\<rparr>) s"
    have off: "\<not> sf_bounds_inited (sc_surface s1 n)" using False by (simp add: s1_def upd_surface_def)
    have ok1: "caches_ok ri s1" unfolding s1_def
      by (rule caches_ok_upd [OF less.prems(2) False]) (simp add: cache_ok_def upd_surface_def False Let_def)
    have links1: "same_links s s1" by (simp add: same_links_def s1_def upd_surface_def)
    have outer1: "outer_of ri (sc_surface s1 n) = ob"
      by (simp add: s1_def upd_surface_def outer_of_def ob_def split: option.splits)
    have at: "sf_outer (sc_surface s1 n) = ob" "sf_inner (sc_surface s1 n) = ib" "sf_topleft (sc_surface s1 n) = left_top ob"
      by (simp_all add: s1_def upd_surface_def)
    show ?thesis
    proof (cases "sf_parent (sc_surface s n)")
      case None
      let ?g = "\<lambda>f. f\<lparr>sf_clipped := rect_translate ib (left_top ob), sf_bounds_inited := True\<rparr>"
      have par: "sf_parent (sc_surface s1 n) = None" using None by (simp add: s1_def upd_surface_def)
      have "need_bounds ri n s = Some (upd_surface n ?g s1)"
        using False par by (subst need_bounds.simps) (simp add: Let_def s1_def ob_def ib_def)
      moreover have "caches_ok ri (upd_surface n ?g s1)"
        by (rule caches_ok_upd [OF ok1 off])
          (use par at outer1 in \<open>simp add: cache_ok_def upd_surface_def Let_def outer_of_def ib_def split: option.splits\<close>)
      ultimately show ?thesis by (simp add: upd_surface_def same_links_def s1_def)
    next
      case (Some p)
      have dp: "depth p < depth n" using less.prems(1) Some by blast
      then have np: "p \<noteq> n" by auto
      have par: "sf_parent (sc_surface s1 n) = Some p" using Some by (simp add: s1_def upd_surface_def)
      have "\<forall>n p. sf_parent (sc_surface s1 n) = Some p \<longrightarrow> depth p < depth n"
        using less.prems(1) links1 by (simp add: same_links_def)
      from less.hyps [OF dp this ok1] obtain u where
        u: "need_bounds ri p s1 = Some u" "caches_ok ri u" "sf_bounds_inited (sc_surface u p)" "same_links s1 u"
          "\<forall>m. depth p < depth m \<longrightarrow> sc_surface u m = sc_surface s1 m" by blast
      have un: "sc_surface u n = sc_surface s1 n" using u(5) dp by blast
      let ?tl = "point_add (left_top ob) (top_point u p)"
      let ?g = "\<lambda>f. f\<lparr>sf_topleft := ?tl, sf_clipped := rect_and (rect_translate ib ?tl) (sf_clipped (sc_surface u p)),
          sf_bounds_inited := True\<rparr>"
      have "need_bounds ri n s = Some (upd_surface n ?g u)"
        using False par u(1) by (subst need_bounds.simps) (simp add: Let_def s1_def ob_def ib_def)
      moreover have "caches_ok ri (upd_surface n ?g u)"
        by (rule caches_ok_upd [OF u(2)])
          (use off par at outer1 un np u(3) in
            \<open>simp_all add: cache_ok_def upd_surface_def Let_def outer_of_def ib_def top_point_def split: option.splits\<close>)
      moreover have "same_links s (upd_surface n ?g u)"
        using same_links_trans [OF links1 u(4)] by (simp add: same_links_def upd_surface_def)
      ultimately show ?thesis using u(5) dp by (simp add: upd_surface_def s1_def)
    qed
  qed
qed


text \<open>
  C19: When the rectangles of regions below a surface change, clearing its caches and asking for its
  bounds again makes all cached bounds right for the new rectangles: at every surface marked as valid the
  outer rectangle is that of its region, its position on the screen is that of its parent's plus its own,
  and its clip rectangle is its own within its parent's. Both recursions end.
\<close>

theorem cache_restored:
  assumes "surface_tree depth height s" "caches_ok ri s"
    and "\<forall>m. m \<notin> below_surface s n \<longrightarrow> outer_of ri' (sc_surface s m) = outer_of ri (sc_surface s m)"
  shows "\<exists>s1 s2. clear_cache n s = Some s1 \<and> caches_ok ri' s1 \<and> need_bounds ri' n s1 = Some s2
           \<and> caches_ok ri' s2 \<and> sf_bounds_inited (sc_surface s2 n)"
proof -
  have "\<forall>m p. sf_parent (sc_surface (cleared (below_surface s n) s) m) = Some p \<longrightarrow> depth p < depth m"
    using assms(1) by (simp add: surface_tree_def)
  from need_bounds_ok [OF this cleared_ok [OF assms]] show ?thesis
    using clear_cache_clears [OF assms(1)] cleared_ok [OF assms] by blast
qed

text \<open>A window with one region of 10 by 10 at (5,5), which moves to (7,8).\<close>

definition demo_view :: "int \<Rightarrow> int \<Rightarrow> views" where
  "demo_view x y = (\<lambda>i. \<lparr>rv_rect = (if i = 0 then \<lparr>r_x = 0, r_y = 0, r_w = 100, r_h = 100\<rparr> else \<lparr>r_x = x, r_y = y, r_w = 10, r_h = 10\<rparr>),
     rv_zindex = 0, rv_transparent = False, rv_showbackground = True, rv_subregion = False\<rparr>)"

definition demo_surface :: surface where
  "demo_surface = \<lparr>sf_toplevel = False, sf_bounds_inited = False, sf_highlighting = False,
     sf_inner = zero_rect, sf_outer = zero_rect, sf_clipped = zero_rect, sf_topleft = \<lparr>p_x = 0, p_y = 0\<rparr>,
     sf_parent = None, sf_renderers = [], sf_children = [], sf_subregions = [], sf_info = None, sf_bg = None,
     sf_data = None, sf_data_id = None, sf_forced = False\<rparr>"

definition demo_window :: surface where
  "demo_window = demo_surface\<lparr>sf_toplevel := True, sf_bounds_inited := True, sf_inner := \<lparr>r_x = 0, r_y = 0, r_w = 100, r_h = 100\<rparr>,
     sf_outer := \<lparr>r_x = 0, r_y = 0, r_w = 100, r_h = 100\<rparr>, sf_clipped := \<lparr>r_x = 0, r_y = 0, r_w = 100, r_h = 100\<rparr>,
     sf_children := [(0, [1])], sf_info := Some 0\<rparr>"

definition demo_region :: surface where
  "demo_region = demo_surface\<lparr>sf_bounds_inited := True, sf_inner := \<lparr>r_x = 0, r_y = 0, r_w = 10, r_h = 10\<rparr>,
     sf_outer := \<lparr>r_x = 5, r_y = 5, r_w = 10, r_h = 10\<rparr>, sf_clipped := \<lparr>r_x = 5, r_y = 5, r_w = 10, r_h = 10\<rparr>,
     sf_topleft := \<lparr>p_x = 5, p_y = 5\<rparr>, sf_parent := Some 0, sf_info := Some 1\<rparr>"

definition demo_screen :: screen where
  "demo_screen = \<lparr>sc_surface = (\<lambda>n. if n = 0 then demo_window else if n = 1 then demo_region else demo_surface),
     sc_free = 2, sc_log = []\<rparr>"

lemma demo_tree: "surface_tree (\<lambda>n. n) (\<lambda>n. if n = 0 then 1 else 0) demo_screen"
  by (simp add: surface_tree_def demo_screen_def demo_window_def demo_region_def demo_surface_def children_def z_all_def)

lemma demo_at:
  "sc_surface demo_screen 0 = demo_window" "sc_surface demo_screen 1 = demo_region" "sc_surface demo_screen (Suc 0) = demo_region"
  "n \<noteq> 0 \<Longrightarrow> n \<noteq> 1 \<Longrightarrow> sc_surface demo_screen n = demo_surface"
  by (simp_all add: demo_screen_def)

lemma demo_caches: "caches_ok (demo_view 5 5) demo_screen"
  unfolding caches_ok_def
proof
  fix n :: nat
  consider "n = 0" | "n = 1" | "n \<noteq> 0" "n \<noteq> 1" by blast
  then show "cache_ok (demo_view 5 5) demo_screen n"
  proof cases
    case 1
    show ?thesis unfolding 1 cache_ok_def demo_at by code_simp
  next
    case 2
    show ?thesis unfolding 2 cache_ok_def demo_at by code_simp
  next
    case 3
    then show ?thesis unfolding cache_ok_def by (simp add: demo_at demo_surface_def)
  qed
qed

lemma demo_below: "1 \<in> below_surface demo_screen 1"
  by (simp add: below_surface_def)

lemma cache_restored_witness:
  "\<exists>s1 s2. clear_cache 1 demo_screen = Some s1 \<and> caches_ok (demo_view 7 8) s1
     \<and> need_bounds (demo_view 7 8) 1 s1 = Some s2 \<and> caches_ok (demo_view 7 8) s2 \<and> sf_bounds_inited (sc_surface s2 1)"
proof (rule cache_restored [OF demo_tree demo_caches], intro allI impI)
  fix m assume "m \<notin> below_surface demo_screen 1"
  then have "m \<noteq> 1" using demo_below by auto
  then show "outer_of (demo_view 7 8) (sc_surface demo_screen m) = outer_of (demo_view 5 5) (sc_surface demo_screen m)"
    by (simp add: outer_of_def demo_screen_def demo_window_def demo_surface_def demo_view_def)
qed

end
