(* ===== verification/Url.thy ===== *)
theory Url
  imports String_Util
begin

text \<open>
  URLs: net/url.cpp with include/ambulant/net/url.h and the path functions of
  include/ambulant/lib/filesys.h, in the variant for Unix. A URL is the record of the members of
  the class. Percent coding and the two conversions between paths and URL paths come first, then
  parsing by the signature of the token sequence, printing, and the operations on parsed URLs.
  The value \<open>None\<close> means that the call does not return normally: the scanner does not end, a
  library call throws, or memory outside a string is read. \<open>size_t\<close> has 64 bits.
\<close>

section \<open>Percent coding\<close>

definition url_delim :: string where "url_delim = '':/?#,''"

definition file_url_escape_reqd :: string where
  "file_url_escape_reqd = '' <>{}|'' @ [CHR 0x5C] @ ''^[]'' @ [CHR 0x60]"

definition file_url_escape :: string where
  "file_url_escape = file_url_escape_reqd @ [CHR 0x25]"

definition file_url_escape_frag :: string where
  "file_url_escape_frag = file_url_escape @ ''#''"

definition hex_digits :: string where "hex_digits = ''0123456789ABCDEFabcdef''"

definition gen_delims :: string where "gen_delims = '':/?#[]@''"

definition sub_delims :: string where "sub_delims = ''!$&'' @ [CHR 0x27] @ ''()*+,;=''"

definition reserved :: string where "reserved = gen_delims @ sub_delims"

definition unreserved :: string where
  "unreserved = hex_digits @ ''GHIJKLMNOPQRSTUVWXYZghijklmnopqrstuvwxyz-._~''"

definition is_hex :: "string \<Rightarrow> bool" where
  "is_hex s \<longleftrightarrow> list_all (\<lambda>c. c \<in> set hex_digits) s"

definition find_char :: "char \<Rightarrow> string \<Rightarrow> nat option" where
  "find_char c s = find_from (\<lambda>x. x = c) s 0"

fun uint2hex_loop :: "nat \<Rightarrow> string \<Rightarrow> string" where
  "uint2hex_loop v rv =
     (let rv = hex_digits ! (v mod 16) # rv; v = v div 16
      in if v = 0 then rv else uint2hex_loop v rv)"

declare uint2hex_loop.simps [simp del]

definition uint2hex :: "nat \<Rightarrow> string" where
  "uint2hex v =
     (let rv = uint2hex_loop v (if v = 0 then ''0'' else [])
      in if length rv < 2 then CHR ''0'' # rv else rv)"

text \<open>
  The position of a character that is no digit is \<open>npos\<close> cut to 32 bits, which is not the
  \<open>npos\<close> it is compared with.
\<close>

fun hex2uint_loop :: "int \<Rightarrow> string \<Rightarrow> int" where
  "hex2uint_loop rv [] = rv"
| "hex2uint_loop rv (c # s) =
     (let rv = to_uint (rv * 16);
          pos = (case find_char c hex_digits of None \<Rightarrow> 2 ^ 32 - 1 | Some i \<Rightarrow> int i);
          pos = (if 16 \<le> pos then pos - 6 else pos)
      in hex2uint_loop (to_uint (rv + to_int pos)) s)"

definition hex2uint :: "string \<Rightarrow> int" where
  "hex2uint s = hex2uint_loop 0 s"

definition uint_char :: "int \<Rightarrow> char" where
  "uint_char v = char_of (nat (v mod 256))"

definition is_reserved :: "char \<Rightarrow> bool" where
  "is_reserved c \<longleftrightarrow> c \<in> set reserved"

definition is_unreserved :: "char \<Rightarrow> bool" where
  "is_unreserved c \<longleftrightarrow> c \<in> set unreserved"

text \<open>
  The test \<open>pos < s.size() - 2\<close> is computed in unsigned arithmetic; \<open>substr\<close> throws when
  it begins behind the end.
\<close>

definition size_minus_2 :: "'a list \<Rightarrow> int" where
  "size_minus_2 s = to_ulong (int (length s) - 2)"

definition substr_from :: "string \<Rightarrow> nat \<Rightarrow> string option" where
  "substr_from s i = (if length s < i then None else Some (drop i s))"

function uri2string_loop :: "string \<Rightarrow> string \<Rightarrow> string option" where
  "uri2string_loop rv s =
     (case find_char (CHR 0x25) s of
        Some pos \<Rightarrow>
          if int pos < size_minus_2 s then
            let hex_chars = take 2 (drop (pos + 1) s);
                rv = rv @ take pos s
            in if is_hex hex_chars
               then (case substr_from s (pos + 3) of
                       Some s \<Rightarrow> uri2string_loop (rv @ [uint_char (hex2uint hex_chars)]) s
                     | None \<Rightarrow> None)
               else uri2string_loop (rv @ [CHR 0x25]) (drop (pos + 1) s)
          else Some (rv @ s)
      | None \<Rightarrow> Some (rv @ s))"
  by pat_completeness auto
termination
proof (relation "measure (\<lambda>(rv, s). length s)", goal_cases)
  case 1
  show ?case by simp
next
  case (2 rv s pos h rv' s')
  then have "s \<noteq> []" by (auto simp: find_char_def find_from_def)
  with 2 show ?case by (auto simp: substr_from_def split: if_splits)
next
  case (3 rv s pos h rv')
  then have "s \<noteq> []" by (auto simp: find_char_def find_from_def)
  then show ?case by simp
qed

declare uri2string_loop.simps [simp del]

definition uri2string :: "string \<Rightarrow> string option" where
  "uri2string uri = uri2string_loop [] uri"

function string2uri_loop :: "nat \<Rightarrow> string \<Rightarrow> string" where
  "string2uri_loop i str =
     (if i < length str then
        let c = str ! i in
        if is_reserved c \<or> is_unreserved c then c # string2uri_loop (i + 1) str
        else if c = CHR 0x25 then
          (let ss = take 2 (drop (i + 1) str); hc = uint_char (hex2uint ss)
           in if int i < size_minus_2 str \<and> is_hex ss \<and> is_unreserved hc
              then hc # string2uri_loop (i + 3) str
              else c # string2uri_loop (i + 1) str)
        else CHR 0x25 # uint2hex (of_char c) @ string2uri_loop (i + 1) str
      else [])"
  by pat_completeness auto
termination
  by (relation "measure (\<lambda>(i, str). length str - i)") auto

declare string2uri_loop.simps [simp del]

definition string2uri :: "string \<Rightarrow> string" where
  "string2uri str = string2uri_loop 0 str"

section \<open>File names\<close>

text \<open>\<open>printf\<close> with the format \<open>%%%2.2x\<close> of a character below 128.\<close>

definition lower_hex :: string where "lower_hex = ''0123456789abcdef''"

definition escape_char :: "char \<Rightarrow> string" where
  "escape_char c = [CHR 0x25, lower_hex ! (of_char c div 16), lower_hex ! (of_char c mod 16)]"

definition filepath2urlpath :: "string \<Rightarrow> bool \<Rightarrow> string" where
  "filepath2urlpath filepath handle_frag =
     (let esc = (if handle_frag then file_url_escape_frag else file_url_escape)
      in concat (map (\<lambda>c. if c \<in> set esc then escape_char c else [c]) filepath))"

text \<open>
  \<open>sscanf\<close> with the format \<open>%x\<close> on a C string: white space, a sign, a prefix, digits.
\<close>

definition scan_hex :: "string \<Rightarrow> int option" where
  "scan_hex buf =
     (let s = dropWhile is_cspace (takeWhile (\<lambda>c. c \<noteq> CHR 0x00) buf);
          neg = (s \<noteq> [] \<and> hd s = CHR ''-'');
          s = (if s \<noteq> [] \<and> (hd s = CHR ''-'' \<or> hd s = CHR ''+'') then tl s else s);
          s = (if take 2 s = ''0x'' \<or> take 2 s = ''0X'' then drop 2 s else s);
          ds = takeWhile (\<lambda>c. c \<in> set hex_digits) s;
          v = hex2uint ds
      in if ds = [] then None else Some (if neg then to_uint (- v) else v))"

fun urlpath2filepath :: "string \<Rightarrow> string option" where
  "urlpath2filepath [] = Some []"
| "urlpath2filepath (c # s) =
     (if c = CHR 0x25 then
        (case s of
           a # b # r \<Rightarrow>
             map_option
               (\<lambda>t. (case scan_hex [a, b] of
                       Some v \<Rightarrow> [uint_char v]
                     | None \<Rightarrow> c # takeWhile (\<lambda>c. c \<noteq> CHR 0x00) [a, b]) @ t)
               (urlpath2filepath r)
         | _ \<Rightarrow> None)
      else map_option (\<lambda>t. c # t) (urlpath2filepath s))"

section \<open>URLs\<close>

record url =
  u_absolute :: bool
  u_protocol :: string
  u_host :: string
  u_port :: int
  u_path :: string
  u_query :: string
  u_ref :: string
  u_mime :: string

definition to_ushort :: "int \<Rightarrow> int" where
  "to_ushort n = n mod 2 ^ 16"

definition empty_url :: url where
  "empty_url = \<lparr>u_absolute = False, u_protocol = [], u_host = [], u_port = 0, u_path = [],
     u_query = [], u_ref = [], u_mime = []\<rparr>"

definition url_of_path :: "string \<Rightarrow> string \<Rightarrow> string \<Rightarrow> url" where
  "url_of_path protocol host path = empty_url\<lparr>u_protocol := protocol, u_host := host,
     u_path := path, u_absolute := (protocol \<noteq> [])\<rparr>"

definition url_of_port :: "string \<Rightarrow> string \<Rightarrow> int \<Rightarrow> string \<Rightarrow> url" where
  "url_of_port protocol host port path = empty_url\<lparr>u_protocol := protocol, u_host := host,
     u_port := to_ushort port, u_path := path, u_absolute := (protocol \<noteq> [])\<rparr>"

definition url_of_parts :: "string \<Rightarrow> string \<Rightarrow> int \<Rightarrow> string \<Rightarrow> string \<Rightarrow> string \<Rightarrow> url" where
  "url_of_parts protocol host port path query ref = empty_url\<lparr>u_protocol := protocol,
     u_host := host, u_port := to_ushort port, u_path := path, u_query := query, u_ref := ref,
     u_absolute := (protocol \<noteq> [])\<rparr>"

text \<open>\<open>atoi\<close> of a token of digits; its result is undefined when the number is no \<open>int\<close>.\<close>

definition atoi_digits :: "string \<Rightarrow> int option" where
  "atoi_digits ds =
     (let n = foldl (\<lambda>n c. 10 * n + digit_val c) 0 (takeWhile is_digit ds)
      in if is_int n then Some n else None)"

definition find_last :: "char \<Rightarrow> string \<Rightarrow> nat option" where
  "find_last c s =
     (case dropWhile (\<lambda>x. x \<noteq> c) (rev s) of [] \<Rightarrow> None | _ # r \<Rightarrow> Some (length r))"

definition set_parts :: "scanner \<Rightarrow> string \<Rightarrow> url \<Rightarrow> url" where
  "set_parts sc pat u =
     (let toks = sc_toks sc;
          n = length toks;
          i1 = length pat;
          i1 = (if 0 < i1 \<and> pat ! (i1 - 1) = CHR ''/'' then i1 - 1 else i1);
          i2 = (case find_last (CHR ''?'') toks of None \<Rightarrow> n | Some i \<Rightarrow> i);
          i3 = (case find_last (CHR ''#'') toks of None \<Rightarrow> n | Some i \<Rightarrow> i);
          i4 = (if i2 < i3 then i2 else i3)
      in u\<lparr>u_path := scanner_join sc i1 i4, u_query := scanner_join sc (i2 + 1) i3,
           u_ref := scanner_join_from sc (i3 + 1)\<rparr>)"

definition set_from_host_port_uri :: "scanner \<Rightarrow> string \<Rightarrow> url \<Rightarrow> url option" where
  "set_from_host_port_uri sc pat u =
     map_option
       (\<lambda>port. set_parts sc pat (u\<lparr>u_absolute := True, u_protocol := val_at sc 0,
          u_host := val_at sc 4, u_port := to_ushort port\<rparr>))
       (atoi_digits (val_at sc 6))"

definition set_from_numhost_port_uri :: "scanner \<Rightarrow> string \<Rightarrow> url \<Rightarrow> url option" where
  "set_from_numhost_port_uri sc pat u =
     map_option
       (\<lambda>port. set_parts sc pat (u\<lparr>u_absolute := True, u_protocol := val_at sc 0,
          u_host := scanner_join sc 4 6, u_port := to_ushort port\<rparr>))
       (atoi_digits (val_at sc 7))"

definition default_port :: "url \<Rightarrow> url" where
  "default_port u =
     (if u_protocol u = ''http'' then u\<lparr>u_port := 80\<rparr>
      else if u_protocol u = ''ftp'' then u\<lparr>u_port := 21\<rparr> else u)"

definition set_from_host_uri :: "scanner \<Rightarrow> string \<Rightarrow> url \<Rightarrow> url option" where
  "set_from_host_uri sc pat u =
     Some (default_port (set_parts sc pat (u\<lparr>u_absolute := True, u_protocol := val_at sc 0,
       u_host := val_at sc 4\<rparr>)))"

definition set_from_numhost_uri :: "scanner \<Rightarrow> string \<Rightarrow> url \<Rightarrow> url option" where
  "set_from_numhost_uri sc pat u =
     Some (default_port (set_parts sc pat (u\<lparr>u_absolute := True, u_protocol := val_at sc 0,
       u_host := scanner_join sc 4 6\<rparr>)))"

definition set_from_localhost_file_uri :: "scanner \<Rightarrow> string \<Rightarrow> url \<Rightarrow> url option" where
  "set_from_localhost_file_uri sc pat u =
     Some (set_parts sc pat (u\<lparr>u_absolute := True, u_protocol := val_at sc 0,
       u_host := ''localhost'', u_port := 0\<rparr>))"

definition set_from_absolute_path :: "scanner \<Rightarrow> string \<Rightarrow> url \<Rightarrow> url option" where
  "set_from_absolute_path sc pat u =
     Some (u\<lparr>u_absolute := True, u_protocol := ''file'', u_host := ''localhost'', u_port := 0,
       u_path := sc_src sc\<rparr>)"

definition set_from_relative_path :: "scanner \<Rightarrow> string \<Rightarrow> url \<Rightarrow> url option" where
  "set_from_relative_path sc pat u =
     Some (set_parts sc pat (u\<lparr>u_absolute := False, u_protocol := [], u_host := [], u_port := 0\<rparr>))"

fun data_comma :: "nat \<Rightarrow> string list \<Rightarrow> nat" where
  "data_comma tok [] = tok"
| "data_comma tok (v # vs) = (if v = '','' then tok else data_comma (tok + 1) vs)"

definition set_from_data_uri :: "scanner \<Rightarrow> string \<Rightarrow> url \<Rightarrow> url option" where
  "set_from_data_uri sc pat u =
     (let tok = data_comma 2 (drop 2 (sc_vals sc))
      in Some (u\<lparr>u_absolute := True, u_protocol := ''data'', u_host := [], u_port := 0,
           u_path := scanner_join_from sc (tok + 1)\<rparr>))"

definition set_from_scheme :: "scanner \<Rightarrow> string \<Rightarrow> url \<Rightarrow> url option" where
  "set_from_scheme sc pat u =
     (let u = u\<lparr>u_absolute := True, u_protocol := val_at sc 0, u_host := [], u_port := 0,
                u_path := scanner_join_from sc 2\<rparr>
      in Some (case find_char (CHR ''#'') (u_path u) of
                 Some hpos \<Rightarrow> u\<lparr>u_ref := drop (hpos + 1) (u_path u), u_path := take hpos (u_path u)\<rparr>
               | None \<Rightarrow> u))"

definition s_handlers :: "(string \<times> (scanner \<Rightarrow> string \<Rightarrow> url \<Rightarrow> url option)) list" where
  "s_handlers =
     [(''n://n:d/'', set_from_host_port_uri),
      (''n://n:d'', set_from_host_port_uri),
      (''n://dn:d/'', set_from_numhost_port_uri),
      (''n://dn:d'', set_from_numhost_port_uri),
      (''n://n/'', set_from_host_uri),
      (''n://n'', set_from_host_uri),
      (''n://dn/'', set_from_numhost_uri),
      (''n://dn'', set_from_numhost_uri),
      (''n:///'', set_from_localhost_file_uri),
      (''n:,'', set_from_data_uri),
      (''n:n,'', set_from_data_uri),
      (''n:n/n,'', set_from_data_uri),
      (''/n'', set_from_absolute_path),
      (''n:'', set_from_scheme),
      ([], set_from_relative_path)]"

definition decode_parts :: "url \<Rightarrow> url option" where
  "decode_parts u =
     do { path \<leftarrow> uri2string (u_path u); query \<leftarrow> uri2string (u_query u); ref \<leftarrow> uri2string (u_ref u);
          Some (u\<lparr>u_path := path, u_query := query, u_ref := ref\<rparr>) }"

fun first_handler :: "scanner \<Rightarrow> (string \<times> (scanner \<Rightarrow> string \<Rightarrow> url \<Rightarrow> url option)) list \<Rightarrow> url \<Rightarrow> url option" where
  "first_handler sc [] u = Some u"
| "first_handler sc ((pat, h) # hs) u =
     (if pat = [] \<or> starts_with (sc_toks sc) pat then Option.bind (h sc pat u) decode_parts
      else first_handler sc hs u)"

definition set_from_spec :: "string \<Rightarrow> url \<Rightarrow> url option" where
  "set_from_spec spec u =
     (case tokenize (mk_scanner spec url_delim) of
        None \<Rightarrow> None
      | Some sc \<Rightarrow> first_handler sc s_handlers u)"

definition from_url :: "string \<Rightarrow> url option" where
  "from_url spec = set_from_spec spec empty_url"

definition from_filename :: "string \<Rightarrow> bool \<Rightarrow> url option" where
  "from_filename spec handle_frag = from_url (filepath2urlpath spec handle_frag)"

definition is_local_file :: "url \<Rightarrow> bool" where
  "is_local_file u \<longleftrightarrow>
     (if u_protocol u = ''file'' \<and> (u_host u = ''localhost'' \<or> u_host u = []) then True
      else \<not> u_absolute u \<and> u_protocol u = [])"

definition get_file :: "url \<Rightarrow> string option" where
  "get_file u =
     map_option
       (\<lambda>file. file @ (if u_query u \<noteq> [] then CHR ''?'' # u_query u else [])
          @ (if u_ref u \<noteq> [] then CHR ''#'' # u_ref u else []))
       (urlpath2filepath (u_path u))"

definition repr_url :: "url \<Rightarrow> string" where
  "repr_url u =
     (if u_absolute u then
        (if u_protocol u = ''file''
         then u_protocol u @ ''://'' @ (if u_host u = ''localhost'' then [] else u_host u)
         else if u_protocol u = ''data'' then ''data:,''
         else if u_host u \<noteq> [] then
           u_protocol u @ ''://'' @ u_host u
             @ (if u_port u \<noteq> 0 then CHR '':'' # show_int (u_port u) else [])
         else u_protocol u @ '':'')
      else [])
     @ u_path u
     @ (if u_ref u \<noteq> [] then CHR ''#'' # u_ref u else [])
     @ (if u_query u \<noteq> [] then CHR ''?'' # u_query u else [])"

definition get_url :: "url \<Rightarrow> string" where
  "get_url u = (if is_local_file u then repr_url u else string2uri (repr_url u))"

section \<open>Joining and comparing\<close>

definition path_base :: "string \<Rightarrow> string" where
  "path_base s =
     (case find_last (CHR ''/'') s of
        None \<Rightarrow> []
      | Some i \<Rightarrow> if i = 0 then take 1 s else take i s)"

text \<open>\<open>join\<close> reads the last character of the first and the first character of the second path.\<close>

definition path_join :: "string \<Rightarrow> string \<Rightarrow> string option" where
  "path_join str1 str2 =
     (if str1 = [] \<or> str2 = [] then None
      else let nsep = (if last str1 = CHR ''/'' then 1 else 0) + (if hd str2 = CHR ''/'' then 1 else 0 :: nat)
           in Some (if nsep = 0 then str1 @ ''/'' @ str2
                    else if nsep = 1 then str1 @ str2
                    else str1 @ tl str2))"

definition get_base :: "url \<Rightarrow> url" where
  "get_base u =
     (let rv = url_of_port (u_protocol u) (u_host u) (u_port u) (path_base (u_path u))
      in if u_absolute u then rv\<lparr>u_absolute := True\<rparr> else rv)"

definition join_to_base :: "url \<Rightarrow> url \<Rightarrow> url option" where
  "join_to_base u base =
     (if u_absolute u then Some u
      else map_option
        (\<lambda>newpath.
           let rv = url_of_parts (u_protocol base) (u_host base) (u_port base) newpath (u_query u) (u_ref u)
           in if u_absolute base then rv\<lparr>u_absolute := True\<rparr> else rv)
        (if u_path u = [] then Some (u_path base)
         else if hd (u_path u) \<noteq> CHR ''/''
         then path_join (map (\<lambda>c. if c = CHR 0x5C then CHR ''/'' else c) (path_base (u_path base))) (u_path u)
         else Some (u_path u)))"

definition get_document :: "url \<Rightarrow> url" where
  "get_document u =
     (url_of_parts (u_protocol u) (u_host u) (u_port u) (u_path u) (u_query u) [])
       \<lparr>u_absolute := u_absolute u\<rparr>"

definition add_fragment :: "string \<Rightarrow> url \<Rightarrow> url option" where
  "add_fragment fragment u =
     map_option
       (\<lambda>ref. (url_of_parts (u_protocol u) (u_host u) (u_port u) (u_path u) (u_query u) ref)
          \<lparr>u_absolute := u_absolute u\<rparr>)
       (uri2string fragment)"

definition same_document :: "url \<Rightarrow> url \<Rightarrow> bool" where
  "same_document u base \<longleftrightarrow>
     (let host1 = (if u_host u = ''localhost'' then [] else u_host u);
          host2 = (if u_host base = ''localhost'' then [] else u_host base)
      in u_protocol u = u_protocol base \<and> host1 = host2 \<and> u_port u = u_port base
         \<and> u_path u = u_path base \<and> u_query u = u_query base)"

definition guesstype :: "url \<Rightarrow> string" where
  "guesstype u =
     (case find_last (CHR ''.'') (u_path u) of
        None \<Rightarrow> []
      | Some dotpos \<Rightarrow>
          let ext = drop dotpos (u_path u) in
          if ext \<in> {''.htm'', ''.HTM'', ''.html'', ''.HTML''} then ''text/html''
          else if ext \<in> {''.smi'', ''.SMI'', ''.smil'', ''.SMIL''} then ''application/smil''
          else if ext \<in> {''.xml'', ''.XML''} then ''application/xml''
          else if ext \<in> {''.mp3'', ''.MP3''} then ''audio/mpeg''
          else if ext \<in> {''.wav'', ''.WAV''} then ''audio/wav''
          else if ext \<in> {''.ink'', ''.INK''} then ''image/vnd.ambulant-ink''
          else if ext \<in> {''.jpg'', ''.JPG''} then ''image/jpeg''
          else if ext \<in> {''.png'', ''.PNG''} then ''image/png''
          else if ext \<in> {''.sdp'', ''.SDP''} then ''application/sdp''
          else [])"

text \<open>
  The search for a data file, with the answers of \<open>access\<close> and the list of places as arguments.
  When a file is found the URL is made from a pointer into a string that is gone by then.
\<close>

definition set_datafile_directory :: "string \<Rightarrow> string list \<Rightarrow> string list" where
  "set_datafile_directory pathname locations = locations[0 := pathname]"

definition get_local_datafile :: "(string \<Rightarrow> bool) \<Rightarrow> string list \<Rightarrow> url \<Rightarrow> (bool \<times> url) option" where
  "get_local_datafile access locations u =
     (if \<not> is_local_file u then Some (False, u)
      else if \<not> u_absolute u
      then (if list_ex (\<lambda>dir. access (dir @ ''/'' @ u_path u)) locations then None else Some (False, u))
      else Option.bind (get_file u) (\<lambda>file. if access file then None else Some (False, u)))"

section \<open>Percent coding: correctness\<close>

lemma find_char_split: "c \<notin> set a \<Longrightarrow> find_char c (a @ c # b) = Some (length a)"
proof -
  assume a: "c \<notin> set a"
  then have "dropWhile (\<lambda>x. x \<noteq> c) (a @ c # b) = c # b" by (induction a) auto
  then show ?thesis by (simp add: find_char_def find_from_def)
qed

lemma find_char_None: "c \<notin> set s \<Longrightarrow> find_char c s = None"
proof -
  assume a: "c \<notin> set s"
  then have "dropWhile (\<lambda>x. x \<noteq> c) s = []" by (induction s) auto
  then show ?thesis unfolding find_char_def find_from_def by (simp only: drop_0 list.case)
qed

definition hex_val :: "char \<Rightarrow> nat" where
  "hex_val c = (let n = of_char c in if n < 65 then n - 48 else if n < 97 then n - 55 else n - 87)"

lemma hex_digits_set: "c \<in> set hex_digits \<longleftrightarrow>
    c \<in> {CHR ''0'', CHR ''1'', CHR ''2'', CHR ''3'', CHR ''4'', CHR ''5'', CHR ''6'', CHR ''7'',
      CHR ''8'', CHR ''9'', CHR ''A'', CHR ''B'', CHR ''C'', CHR ''D'', CHR ''E'', CHR ''F'',
      CHR ''a'', CHR ''b'', CHR ''c'', CHR ''d'', CHR ''e'', CHR ''f''}"
  by (auto simp: hex_digits_def)

lemma hex_val_less: "c \<in> set hex_digits \<Longrightarrow> hex_val c < 16"
  unfolding hex_digits_set by (elim insertE emptyE) (simp_all add: hex_val_def Let_def)

lemma hex_digit_pos:
  assumes "c \<in> set hex_digits"
  shows "\<exists>i. find_char c hex_digits = Some i \<and> (if 16 \<le> int i then int i - 6 else int i) = int (hex_val c)"
  using assms unfolding hex_digits_set
  by (elim insertE emptyE)
    (simp_all add: find_char_def find_from_def hex_digits_def hex_val_def Let_def)

lemma hex2uint_pair:
  assumes "is_hex [a, b]"
  shows "hex2uint [a, b] = int (16 * hex_val a + hex_val b)"
proof -
  have ab: "a \<in> set hex_digits" "b \<in> set hex_digits" using assms by (simp_all add: is_hex_def)
  obtain i j where ij: "find_char a hex_digits = Some i" "find_char b hex_digits = Some j"
    "(if 16 \<le> int i then int i - 6 else int i) = int (hex_val a)"
    "(if 16 \<le> int j then int j - 6 else int j) = int (hex_val b)"
    using hex_digit_pos ab by blast
  note hex_val_less [OF ab(1)] hex_val_less [OF ab(2)]
  then show ?thesis
    unfolding hex2uint_def hex2uint_loop.simps ij(1,2) option.case Let_def ij(3,4)
    by (simp add: to_uint_def is_int_def)
qed

lemma uint_char_nat: "uint_char (int n) = char_of n"
proof -
  have "nat (int n mod 256) = n mod 256" by (metis nat_int of_nat_mod of_nat_numeral)
  then show ?thesis by (simp add: uint_char_def)
qed

text \<open>
  The reference: a percent sign followed by two hexadecimal digits stands for the character with
  that code, everything else for itself. The loop throws when the text that remains is a single
  percent sign.
\<close>

fun uri_decode :: "string \<Rightarrow> string" where
  "uri_decode (c # a # b # s) =
     (if c = CHR 0x25 \<and> is_hex [a, b]
      then char_of (16 * hex_val a + hex_val b) # uri_decode s
      else c # uri_decode (a # b # s))"
| "uri_decode s = s"

definition stray_percent :: "string \<Rightarrow> bool" where
  "stray_percent s =
     (case rev s of
        [c] \<Rightarrow> c = CHR 0x25
      | c # b # a # d # _ \<Rightarrow> c = CHR 0x25 \<and> d = CHR 0x25 \<and> is_hex [a, b]
      | _ \<Rightarrow> False)"

lemma percent_no_hex [simp]: "CHR 0x25 \<notin> set hex_digits" by (simp add: hex_digits_def)

lemma uri_decode_Cons: "c \<noteq> CHR 0x25 \<Longrightarrow> uri_decode (c # s) = c # uri_decode s"
  by (cases s rule: remdups_adj.cases) auto

lemma uri_decode_append: "CHR 0x25 \<notin> set p \<Longrightarrow> uri_decode (p @ s) = p @ uri_decode s"
  by (induction p) (auto simp: uri_decode_Cons)

lemma uri_decode_id: "CHR 0x25 \<notin> set p \<Longrightarrow> uri_decode p = p"
  using uri_decode_append [of p "[]"] by simp

lemma stray_plain: "CHR 0x25 \<notin> set p \<Longrightarrow> \<not> stray_percent p"
proof -
  assume "CHR 0x25 \<notin> set p"
  then have "CHR 0x25 \<notin> set (rev p)" by simp
  then show ?thesis by (auto simp: stray_percent_def split: list.splits)
qed

lemma stray_short:
  assumes "CHR 0x25 \<notin> set p" "length t < 2" "p @ t \<noteq> []"
  shows "\<not> stray_percent (p @ CHR 0x25 # t)"
proof -
  have p: "CHR 0x25 \<notin> set (rev p)" using assms(1) by simp
  from assms(2) consider "t = []" | x where "t = [x]" by (cases t) auto
  then show ?thesis
    using p assms(3) by cases (auto simp: stray_percent_def split: list.splits)
qed

lemma stray_hex:
  assumes "is_hex [a, b]"
  shows "stray_percent (p @ CHR 0x25 # a # b # t) = stray_percent t"
proof -
  have "a \<noteq> CHR 0x25" "b \<noteq> CHR 0x25" using assms by (auto simp: is_hex_def)
  with assms show ?thesis
    by (cases "rev t"; cases "tl (rev t)"; cases "tl (tl (rev t))"; cases "tl (tl (tl (rev t)))")
      (auto simp: stray_percent_def split: list.splits)
qed

lemma stray_no_hex:
  assumes "\<not> is_hex [a, b]" "CHR 0x25 \<notin> set p"
  shows "stray_percent (p @ CHR 0x25 # a # b # t) = stray_percent (a # b # t)"
proof -
  have "CHR 0x25 \<notin> set (rev p)" using assms(2) by simp
  with assms(1) show ?thesis
    by (cases "rev t"; cases "tl (rev t)"; cases "tl (tl (rev t))"; cases "tl (tl (tl (rev t)))")
      (auto simp: stray_percent_def split: list.splits)
qed

lemma char_split: "(c :: char) \<in> set s \<Longrightarrow> \<exists>p t. s = p @ c # t \<and> c \<notin> set p"
  by (rule split_list_first)

lemma uri2string_loop_correct:
  "length s < 2 ^ 63 \<Longrightarrow>
   uri2string_loop rv s = (if stray_percent s then None else Some (rv @ uri_decode s))"
proof (induction "length s" arbitrary: rv s rule: less_induct)
  case less
  show ?case
  proof (cases "CHR 0x25 \<in> set s")
    case False
    then show ?thesis
      by (subst uri2string_loop.simps) (simp add: find_char_None uri_decode_id stray_plain)
  next
    case True
    then obtain p t where s: "s = p @ CHR 0x25 # t" and p: "CHR 0x25 \<notin> set p"
      using char_split by blast
    note f = find_char_split [OF p, of t]
    have sz: "size_minus_2 s = (if p @ t = [] then 2 ^ 64 - 1 else int (length p + length t) - 1)"
      using less.prems s
      by (cases p; cases t) (auto simp: size_minus_2_def to_ulong_def intro!: mod_pos_pos_trivial)
    consider "t = []" "p = []" | "length t < 2" "p @ t \<noteq> []" | a b r where "t = a # b # r"
      by (cases t rule: remdups_adj.cases) auto
    then show ?thesis
    proof cases
      case 1
      then show ?thesis using sz
        by (subst uri2string_loop.simps)
          (simp add: s f is_hex_def substr_from_def stray_percent_def Let_def find_char_split [of _ "[]", simplified])
    next
      case 2
      then have "\<not> int (length p) < size_minus_2 s" using sz by auto
      moreover have "uri_decode (CHR 0x25 # t) = CHR 0x25 # t" using 2 by (cases t) auto
      ultimately show ?thesis using stray_short [OF p 2] uri_decode_append [OF p]
        by (subst uri2string_loop.simps) (simp add: s f)
    next
      case 3
      have lt: "int (length p) < size_minus_2 s" using sz 3 by simp
      show ?thesis
      proof (cases "is_hex [a, b]")
        case True
        have "uri_decode s = p @ char_of (16 * hex_val a + hex_val b) # uri_decode r"
          using uri_decode_append [OF p] True by (simp add: s 3)
        moreover have "uint_char (hex2uint [a, b]) = char_of (16 * hex_val a + hex_val b)"
          unfolding hex2uint_pair [OF True] by (rule uint_char_nat)
        moreover have "uri2string_loop rv' r = (if stray_percent r then None else Some (rv' @ uri_decode r))" for rv'
          using less.prems by (intro less.hyps) (simp_all add: s 3)
        ultimately show ?thesis using True lt stray_hex [OF True, of p r] f
          by (subst uri2string_loop.simps) (simp add: s 3 substr_from_def Let_def)
      next
        case False
        have "uri_decode s = p @ CHR 0x25 # uri_decode (a # b # r)"
          using uri_decode_append [OF p] False by (simp add: s 3)
        moreover have "uri2string_loop rv' (a # b # r) =
            (if stray_percent (a # b # r) then None else Some (rv' @ uri_decode (a # b # r)))" for rv'
          using less.prems by (intro less.hyps) (simp_all add: s 3)
        ultimately show ?thesis using False lt stray_no_hex [OF False p, of r] f
          by (subst uri2string_loop.simps) (simp add: s 3 Let_def)
      qed
    qed
  qed
qed

lemma uri2string_cases:
  "length s < 2 ^ 63 \<Longrightarrow> uri2string s = (if stray_percent s then None else Some (uri_decode s))"
  by (simp add: uri2string_def uri2string_loop_correct)

lemma stray_percent_iff:
  "stray_percent s \<longleftrightarrow> s = [CHR 0x25] \<or> (\<exists>u a b. s = u @ [CHR 0x25, a, b, CHR 0x25] \<and> is_hex [a, b])"
proof
  assume "stray_percent s"
  then consider "rev s = [CHR 0x25]"
    | a b u where "rev s = CHR 0x25 # b # a # CHR 0x25 # u" "is_hex [a, b]"
    by (auto simp: stray_percent_def split: list.splits)
  then show "s = [CHR 0x25] \<or> (\<exists>u a b. s = u @ [CHR 0x25, a, b, CHR 0x25] \<and> is_hex [a, b])"
  proof cases
    case 1
    then show ?thesis by (metis rev_rev_ident rev.simps append_Nil)
  next
    case 2
    then have "s = rev (CHR 0x25 # b # a # CHR 0x25 # u)" by (metis rev_rev_ident)
    with 2 show ?thesis by auto
  qed
qed (auto simp: stray_percent_def)

text \<open>
  C23: percent decoding throws exactly when the text is a single percent sign, or ends with a
  percent sign that follows an escape; otherwise it replaces every escape by its character and
  keeps the rest.
\<close>

theorem uri2string_decodes:
  assumes "length s < 2 ^ 63"
  shows "uri2string s =
    (if s = [CHR 0x25] \<or> (\<exists>u a b. s = u @ [CHR 0x25, a, b, CHR 0x25] \<and> is_hex [a, b])
     then None else Some (uri_decode s))"
  unfolding uri2string_cases [OF assms] stray_percent_iff by (rule refl)

theorem uri2string_decodes_witness:
  "uri2string (''a'' @ [CHR 0x25] @ ''20b'' @ [CHR 0x25] @ ''g'') = Some (''a b'' @ [CHR 0x25] @ ''g'')
   \<and> uri2string ([CHR 0x25] @ ''41'' @ [CHR 0x25]) = None"
proof
  let ?s = "''a'' @ [CHR 0x25] @ ''20b'' @ [CHR 0x25] @ ''g''"
  have "\<not> stray_percent ?s" by code_simp
  moreover have "uri_decode ?s = ''a b'' @ [CHR 0x25] @ ''g''" by code_simp
  ultimately show "uri2string ?s = Some (''a b'' @ [CHR 0x25] @ ''g'')"
    using uri2string_decodes [of ?s] unfolding stray_percent_iff by simp
  have "[CHR 0x25] @ ''41'' @ [CHR 0x25] = [] @ [CHR 0x25, CHR ''4'', CHR ''1'', CHR 0x25]" by simp
  moreover have "is_hex [CHR ''4'', CHR ''1'']" by code_simp
  ultimately show "uri2string ([CHR 0x25] @ ''41'' @ [CHR 0x25]) = None"
    using uri2string_decodes [of "[CHR 0x25] @ ''41'' @ [CHR 0x25]"] by auto
qed

lemma hex_digit_nth: "k < 16 \<Longrightarrow> hex_digits ! k \<in> set hex_digits \<and> hex_val (hex_digits ! k) = k"
proof -
  have "\<forall>k \<in> set [0..<16]. hex_digits ! k \<in> set hex_digits \<and> hex_val (hex_digits ! k) = k"
    by code_simp
  then show "k < 16 \<Longrightarrow> ?thesis" by auto
qed

lemma uint2hex_byte: "n < 256 \<Longrightarrow> uint2hex n = [hex_digits ! (n div 16), hex_digits ! (n mod 16)]"
proof -
  assume n: "n < 256"
  have z: "hex_digits ! 0 = CHR ''0''" by (simp add: hex_digits_def)
  have one: "uint2hex_loop k rv = hex_digits ! k # rv" if "k < 16" for k rv
    using that by (subst uint2hex_loop.simps) simp
  consider "n = 0" | "0 < n" "n < 16" | "16 \<le> n" by linarith
  then show ?thesis
  proof cases
    case 3
    then have "uint2hex_loop n rv = hex_digits ! (n div 16) # hex_digits ! (n mod 16) # rv" for rv
      using n by (subst uint2hex_loop.simps) (simp add: one Let_def)
    with 3 show ?thesis by (simp add: uint2hex_def)
  qed (simp_all add: uint2hex_def one z)
qed

definition encode_char :: "char \<Rightarrow> string" where
  "encode_char c = (if is_reserved c \<or> is_unreserved c then [c] else CHR 0x25 # uint2hex (of_char c))"

lemma not_reserved_percent [simp]: "\<not> is_reserved (CHR 0x25)" "\<not> is_unreserved (CHR 0x25)"
  by code_simp+

lemma hex_unreserved: "c \<in> set hex_digits \<Longrightarrow> is_unreserved c"
  by (simp add: is_unreserved_def unreserved_def)

lemma string2uri_loop_plain:
  "CHR 0x25 \<notin> set str \<Longrightarrow> string2uri_loop i str = concat (map encode_char (drop i str))"
proof (induction i str rule: string2uri_loop.induct)
  case (1 i str)
  show ?case
  proof (cases "i < length str")
    case True
    then have d: "drop i str = str ! i # drop (i + 1) str" by (simp add: Cons_nth_drop_Suc)
    have c: "str ! i \<noteq> CHR 0x25" using 1(5) True by (metis nth_mem)
    show ?thesis
    proof (cases "is_reserved (str ! i) \<or> is_unreserved (str ! i)")
      case r: True
      with 1(1) [OF True refl r 1(5)] True d show ?thesis
        by (subst string2uri_loop.simps) (simp add: Let_def encode_char_def [of "str ! i"])
    next
      case r: False
      with 1(4) [OF True refl r c 1(5)] True d c show ?thesis
        by (subst string2uri_loop.simps) (simp add: Let_def encode_char_def [of "str ! i"])
    qed
  next
    case False
    then show ?thesis by (subst string2uri_loop.simps) simp
  qed
qed

lemma encode_char_cases:
  obtains (plain) "encode_char c = [c]" "is_reserved c \<or> is_unreserved c"
  | (coded) a b where "encode_char c = [CHR 0x25, a, b]" "is_hex [a, b]" "16 * hex_val a + hex_val b = of_char c"
proof (cases "is_reserved c \<or> is_unreserved c")
  case True
  then show ?thesis using plain by (simp add: encode_char_def)
next
  case False
  let ?n = "of_char c :: nat"
  have n: "?n < 256" by simp
  then have "?n div 16 < 16" by linarith
  note hex_digit_nth [OF this] hex_digit_nth [of "?n mod 16"]
  with n False show ?thesis
    by (intro coded [of "hex_digits ! (?n div 16)" "hex_digits ! (?n mod 16)"])
      (auto simp: encode_char_def uint2hex_byte is_hex_def)
qed

lemma decode_encode: "CHR 0x25 \<notin> set s \<Longrightarrow> uri_decode (concat (map encode_char s)) = s"
proof (induction s)
  case (Cons c s)
  show ?case
  proof (cases c rule: encode_char_cases)
    case plain
    with Cons show ?thesis by (auto simp: uri_decode_Cons)
  next
    case (coded a b)
    then have "char_of (16 * hex_val a + hex_val b) = c" by simp
    with coded Cons show ?thesis by simp
  qed
qed simp

lemma encode_no_stray: "\<not> stray_percent (concat (map encode_char s))" if "CHR 0x25 \<notin> set s"
proof
  assume stray: "stray_percent (concat (map encode_char s))"
  then have "s \<noteq> []" by (auto simp: stray_percent_def)
  then obtain u c where s: "s = u @ [c]" by (metis rev_exhaust)
  have "last (encode_char c) \<noteq> CHR 0x25 \<and> encode_char c \<noteq> []"
    using that s by (cases c rule: encode_char_cases) (auto simp: is_hex_def)
  then have "last (concat (map encode_char s)) \<noteq> CHR 0x25" by (simp add: s)
  with stray show False by (auto simp: stray_percent_iff)
qed

lemma length_encode: "length (concat (map encode_char s)) \<le> 3 * length s"
proof (induction s)
  case (Cons c s)
  have "length (encode_char c) \<le> 3" by (cases c rule: encode_char_cases) simp_all
  with Cons show ?case by simp
qed simp

text \<open>
  Encoding and decoding again gives every text without percent signs back, and the encoded
  text consists of reserved and unreserved characters and escapes.
\<close>

theorem percent_roundtrip:
  assumes "CHR 0x25 \<notin> set s" and "3 * length s < 2 ^ 63"
  shows "uri2string (string2uri s) = Some s
    \<and> set (string2uri s) \<subseteq> set reserved \<union> set unreserved \<union> {CHR 0x25}"
proof
  have e: "string2uri s = concat (map encode_char s)"
    by (simp add: string2uri_def string2uri_loop_plain [OF assms(1)])
  have "length (string2uri s) < 2 ^ 63" using length_encode [of s] assms(2) by (simp add: e)
  then show "uri2string (string2uri s) = Some s"
    using encode_no_stray [OF assms(1)] decode_encode [OF assms(1)] by (simp add: uri2string_cases e)
  have "set (encode_char c) \<subseteq> set reserved \<union> set unreserved \<union> {CHR 0x25}" for c
    by (cases c rule: encode_char_cases)
      (auto simp: is_reserved_def is_unreserved_def is_hex_def unreserved_def)
  then show "set (string2uri s) \<subseteq> set reserved \<union> set unreserved \<union> {CHR 0x25}" by (auto simp: e)
qed

theorem percent_roundtrip_witness:
  "uri2string (string2uri ''a b|c'') = Some ''a b|c''"
  using percent_roundtrip [of "''a b|c''"] by simp

section \<open>File names: correctness\<close>

lemma escape_scanned:
  "c \<in> set file_url_escape_frag \<Longrightarrow> scan_hex (tl (escape_char c)) = Some (int (of_char c))"
proof -
  have "\<forall>c \<in> set file_url_escape_frag. scan_hex (tl (escape_char c)) = Some (int (of_char c))"
    by code_simp
  then show "c \<in> set file_url_escape_frag \<Longrightarrow> ?thesis" by blast
qed

text \<open>
  The path of the file URL made from a file name is that file name again, whatever
  characters it has.
\<close>

theorem file_path_roundtrip: "urlpath2filepath (filepath2urlpath p frag) = Some p"
proof (induction p)
  case Nil
  then show ?case by (simp add: filepath2urlpath_def)
next
  case (Cons c p)
  let ?esc = "if frag then file_url_escape_frag else file_url_escape"
  have u: "filepath2urlpath (c # p) frag =
      (if c \<in> set ?esc then escape_char c else [c]) @ filepath2urlpath p frag"
    by (simp add: filepath2urlpath_def Let_def)
  show ?case
  proof (cases "c \<in> set ?esc")
    case True
    then have "c \<in> set file_url_escape_frag" by (auto simp: file_url_escape_frag_def split: if_splits)
    then have "scan_hex (tl (escape_char c)) = Some (int (of_char c))" by (rule escape_scanned)
    then show ?thesis unfolding u using True Cons by (simp add: escape_char_def uint_char_nat)
  next
    case False
    then have "c \<noteq> CHR 0x25" by (auto simp: file_url_escape_frag_def file_url_escape_def split: if_splits)
    with False Cons show ?thesis unfolding u by simp
  qed
qed

section \<open>Tokens of a text\<close>

text \<open>
  The tokens as a function of the text: a first character decides the kind of the token and the
  characters that continue it.
\<close>

definition lex_step :: "string \<Rightarrow> char \<Rightarrow> char \<times> (char \<Rightarrow> bool)" where
  "lex_step d c =
     (if c \<in> set d then (c, \<lambda>_. False)
      else if is_ascii c \<and> is_digit c then (tok_NUMBER, \<lambda>x. x \<in> set dec_digits)
      else if is_ascii c \<and> is_cspace c then (tok_SPACE, \<lambda>x. x \<in> set space_chars)
      else (tok_NAME, \<lambda>x. x \<notin> set (d @ space_chars)))"

function lex_text :: "string \<Rightarrow> string \<Rightarrow> (char \<times> string) list" where
  "lex_text d [] = []"
| "lex_text d (c # s) =
     (fst (lex_step d c), c # takeWhile (snd (lex_step d c)) s) # lex_text d (dropWhile (snd (lex_step d c)) s)"
  by pat_completeness auto
termination
  by (relation "measure (\<lambda>(d, s). length s)") (auto simp: le_imp_less_Suc length_dropWhile_le)

lemma scan_token_lex:
  assumes pos: "sc_pos sc < length (sc_src sc)" and d: "drop (sc_pos sc) (sc_src sc) = c # s"
    and st: "\<not> stuck_char (sc_delims sc) c"
  shows "scan_token c sc = sc\<lparr>sc_tok := fst (lex_step (sc_delims sc) c),
    sc_tokval := c # takeWhile (snd (lex_step (sc_delims sc) c)) s,
    sc_pos := sc_pos sc + length (c # takeWhile (snd (lex_step (sc_delims sc) c)) s)\<rparr>"
proof -
  have until: "scan_until P t sc = sc\<lparr>sc_tok := t, sc_tokval := c # takeWhile (\<lambda>x. \<not> P x) s,
      sc_pos := sc_pos sc + length (c # takeWhile (\<lambda>x. \<not> P x) s)\<rparr>" if "\<not> P c" for P t
    using that pos d by (simp add: scan_until_eq Let_def)
  have digit: "c \<in> set dec_digits" if "is_digit c" using that by (rule is_digit_dec_digits)
  have space: "c \<in> set space_chars" if "is_cspace c" "c \<notin> set (sc_delims sc)"
    using st that cspace_cases by (auto simp: stuck_char_def)
  have name: "c \<notin> set space_chars" if "\<not> (is_ascii c \<and> is_cspace c)"
    using that by (auto simp: space_chars_def is_ascii_def is_cspace_def)
  consider "c \<in> set (sc_delims sc)" | "c \<notin> set (sc_delims sc)" "is_ascii c \<and> is_digit c"
    | "c \<notin> set (sc_delims sc)" "\<not> (is_ascii c \<and> is_digit c)" "is_ascii c \<and> is_cspace c"
    | "c \<notin> set (sc_delims sc)" "\<not> (is_ascii c \<and> is_digit c)" "\<not> (is_ascii c \<and> is_cspace c)"
    by blast
  then show ?thesis
  proof cases
    case 1
    have "takeWhile (\<lambda>_. False) s = []" by (cases s) auto
    with 1 show ?thesis by (simp add: scan_token_def lex_step_def)
  next
    case 2
    with digit show ?thesis
      using until [of "\<lambda>x. x \<notin> set dec_digits"] by (simp add: scan_token_def lex_step_def scan_set_as_def)
  next
    case 3
    with space show ?thesis
      using until [of "\<lambda>x. x \<notin> set space_chars"] by (simp add: scan_token_def lex_step_def scan_set_as_def)
  next
    case 4
    have "scan_token c sc = scan_not_in_set_as (sc_delims sc @ space_chars) tok_NAME sc"
      by (simp only: scan_token_def 4 if_False)
    moreover have "lex_step (sc_delims sc) c = (tok_NAME, \<lambda>x. x \<notin> set (sc_delims sc @ space_chars))"
      by (simp only: lex_step_def 4 if_False)
    moreover have "\<not> c \<in> set (sc_delims sc @ space_chars)" using name [OF 4(3)] 4(1) by simp
    ultimately show ?thesis using until by (simp only: scan_not_in_set_as_def fst_conv snd_conv)
  qed
qed

lemma lex_step_not_EOS: "CHR 0x00 \<notin> set d \<Longrightarrow> fst (lex_step d c) \<noteq> tok_EOS"
  by (auto simp: lex_step_def tok_EOS_def tok_NUMBER_def tok_SPACE_def tok_NAME_def)

lemma scan_loop_lex:
  assumes "sc_pos sc \<le> length (sc_src sc)" and "CHR 0x00 \<notin> set (sc_delims sc)"
    and "\<forall>c \<in> set (sc_src sc). \<not> stuck_char (sc_delims sc) c"
  shows "\<exists>sc'. scan_loop sc = Some sc' \<and> sc_src sc' = sc_src sc
    \<and> sc_toks sc' = sc_toks sc @ map fst (lex_text (sc_delims sc) (drop (sc_pos sc) (sc_src sc)))
    \<and> sc_vals sc' = sc_vals sc @ map snd (lex_text (sc_delims sc) (drop (sc_pos sc) (sc_src sc)))"
  using assms
proof (induction "length (sc_src sc) - sc_pos sc" arbitrary: sc rule: less_induct)
  case less
  let ?sc = "sc\<lparr>sc_tok := tok_EOS, sc_tokval := []\<rparr>"
  show ?case
  proof (cases "sc_pos sc = length (sc_src sc)")
    case True
    then show ?thesis by (subst scan_loop.simps) (simp add: scanner_next_at_end Let_def)
  next
    case False
    with less.prems(1) have pos: "sc_pos sc < length (sc_src sc)" by simp
    let ?c = "sc_src sc ! sc_pos sc" and ?s = "drop (Suc (sc_pos sc)) (sc_src sc)"
    let ?P = "snd (lex_step (sc_delims sc) ?c)" and ?t = "fst (lex_step (sc_delims sc) ?c)"
    let ?v = "?c # takeWhile ?P ?s"
    have d: "drop (sc_pos sc) (sc_src sc) = ?c # ?s" using pos by (simp add: Cons_nth_drop_Suc)
    have "\<not> stuck_char (sc_delims sc) ?c" using less.prems(3) pos by simp
    then have t: "scan_token ?c ?sc = ?sc\<lparr>sc_tok := ?t, sc_tokval := ?v, sc_pos := sc_pos sc + length ?v\<rparr>"
      using scan_token_lex [of ?sc ?c ?s] pos d by simp
    let ?n = "sc\<lparr>sc_tok := ?t, sc_tokval := ?v, sc_pos := sc_pos sc + length ?v,
      sc_toks := sc_toks sc @ [?t], sc_vals := sc_vals sc @ [?v]\<rparr>"
    have n: "scanner_next sc = ?n" using pos t by (simp add: scanner_next_def Let_def)
    have len: "length (takeWhile ?P ?s) \<le> length ?s" by (rule length_takeWhile_le)
    have dw: "drop (sc_pos ?n) (sc_src ?n) = dropWhile ?P ?s"
      by (simp add: dropWhile_eq_drop add.commute)
    have le: "sc_pos ?n \<le> length (sc_src ?n)" using pos len by simp
    have "length (sc_src ?n) - sc_pos ?n < length (sc_src sc) - sc_pos sc"
      "CHR 0x00 \<notin> set (sc_delims ?n)" "\<forall>c \<in> set (sc_src ?n). \<not> stuck_char (sc_delims ?n) c"
      using pos less.prems by simp_all
    note ih = less.hyps [OF this(1) le this(2,3)]
    have "sc_tok ?n \<noteq> tok_EOS" using lex_step_not_EOS [OF less.prems(2)] by simp
    then have "scan_loop sc = scan_loop ?n" by (subst scan_loop.simps) (simp add: n Let_def)
    with ih show ?thesis unfolding d dw by auto
  qed
qed

lemma tokenize_lex:
  assumes "CHR 0x00 \<notin> set d" and "\<forall>c \<in> set s. \<not> stuck_char d c"
  shows "\<exists>sc. tokenize (mk_scanner s d) = Some sc \<and> sc_src sc = s
    \<and> sc_toks sc = map fst (lex_text d s) \<and> sc_vals sc = map snd (lex_text d s)"
  using scan_loop_lex [of "mk_scanner s d"] assms by (simp add: tokenize_def mk_scanner_def)

lemma concat_lex: "concat (map snd (lex_text d s)) = s"
  by (induction d s rule: lex_text.induct) simp_all

definition separator :: "string \<Rightarrow> char \<Rightarrow> bool" where
  "separator d c \<longleftrightarrow> c \<in> set d \<and> c \<notin> set dec_digits \<and> c \<notin> set space_chars"

lemma lex_append: "separator d c \<Longrightarrow> lex_text d (a @ c # b) = lex_text d a @ lex_text d (c # b)"
proof (induction d a rule: lex_text.induct)
  case (2 d x a)
  then have "\<not> snd (lex_step d x) c" by (auto simp: lex_step_def separator_def)
  then have "takeWhile (snd (lex_step d x)) (a @ c # b) = takeWhile (snd (lex_step d x)) a"
    "dropWhile (snd (lex_step d x)) (a @ c # b) = dropWhile (snd (lex_step d x)) a @ c # b"
    by (induction a) auto
  with 2 show ?case by simp
qed simp

lemma lex_separator: "separator d c \<Longrightarrow> lex_text d (c # s) = (c, [c]) # lex_text d s"
proof -
  assume "separator d c"
  then have "lex_step d c = (c, \<lambda>_. False)" by (simp add: separator_def lex_step_def)
  moreover have "takeWhile (\<lambda>_. False) s = []" "dropWhile (\<lambda>_. False) s = s" by (cases s; simp)+
  ultimately show ?thesis by simp
qed

lemma lex_tok_mem:
  assumes "c \<in> fst ` set (lex_text d s)" "c \<notin> {tok_NUMBER, tok_SPACE, tok_NAME}"
  shows "c \<in> set s"
  using assms
proof (induction d s rule: lex_text.induct)
  case (2 d x s)
  then have "c = x \<or> c \<in> set (dropWhile (snd (lex_step d x)) s)"
    by (auto simp: lex_step_def split: if_splits)
  then show ?case by (auto dest: set_dropWhileD)
qed simp

definition name_text :: "string \<Rightarrow> string \<Rightarrow> bool" where
  "name_text d s \<longleftrightarrow> s \<noteq> [] \<and> list_all (\<lambda>c. c \<notin> set d \<and> \<not> is_cspace c) s \<and> \<not> is_digit (hd s)"

lemma space_chars_cspace: "c \<in> set space_chars \<Longrightarrow> is_cspace c"
  by (auto simp: space_chars_def is_cspace_def)

lemma lex_name:
  assumes "name_text d s"
  shows "lex_text d s = [(tok_NAME, s)]"
proof -
  obtain c t where s: "s = c # t" using assms by (cases s) (auto simp: name_text_def)
  have st: "lex_step d c = (tok_NAME, \<lambda>x. x \<notin> set (d @ space_chars))"
    using assms by (simp add: name_text_def lex_step_def s)
  have "\<forall>x \<in> set t. x \<notin> set (d @ space_chars)"
    using assms space_chars_cspace by (auto simp: name_text_def s list_all_iff)
  then have "takeWhile (\<lambda>x. x \<notin> set (d @ space_chars)) t = t" "dropWhile (\<lambda>x. x \<notin> set (d @ space_chars)) t = []"
    by (simp_all only: takeWhile_eq_all_conv dropWhile_eq_Nil_conv)
  note tw = this
  show ?thesis unfolding s lex_text.simps st fst_conv snd_conv tw by simp
qed

lemma lex_digits:
  assumes "s \<noteq> []" "list_all is_digit s" "\<forall>c \<in> set d. \<not> is_digit c"
  shows "lex_text d s = [(tok_NUMBER, s)]"
proof -
  obtain c t where s: "s = c # t" using assms(1) by (cases s) auto
  have "is_ascii c" using assms(2) by (simp add: s is_digit_def is_ascii_def)
  then have st: "lex_step d c = (tok_NUMBER, \<lambda>x. x \<in> set dec_digits)"
    using assms by (auto simp: lex_step_def s)
  have "\<forall>x \<in> set t. x \<in> set dec_digits"
    using assms(2) is_digit_dec_digits by (auto simp: s list_all_iff)
  then have "takeWhile (\<lambda>x. x \<in> set dec_digits) t = t" "dropWhile (\<lambda>x. x \<in> set dec_digits) t = []"
    by (simp_all only: takeWhile_eq_all_conv dropWhile_eq_Nil_conv)
  note tw = this
  show ?thesis unfolding s lex_text.simps st fst_conv snd_conv tw by simp
qed

section \<open>Parsing and printing: correctness\<close>

lemma find_last_split: "c \<notin> set b \<Longrightarrow> find_last c (a @ c # b) = Some (length a)"
proof -
  assume "c \<notin> set b"
  then have "\<And>x. x \<in> set (rev b) \<Longrightarrow> x \<noteq> c" by auto
  then have "dropWhile (\<lambda>x. x \<noteq> c) (rev b @ c # rev a) = dropWhile (\<lambda>x. x \<noteq> c) (c # rev a)"
    by (rule dropWhile_append2)
  then show ?thesis by (simp add: find_last_def)
qed

lemma find_last_None: "c \<notin> set s \<Longrightarrow> find_last c s = None"
proof -
  assume "c \<notin> set s"
  then have "dropWhile (\<lambda>x. x \<noteq> c) (rev s) = []" by (simp add: dropWhile_eq_Nil_conv) blast
  then show ?thesis unfolding find_last_def by (simp only: list.case)
qed

lemma lex_text_no_tok:
  "c \<notin> set s \<Longrightarrow> c \<notin> {tok_NUMBER, tok_SPACE, tok_NAME} \<Longrightarrow> c \<notin> set (map fst (lex_text d s))"
  using lex_tok_mem by fastforce

text \<open>What may follow a mark: nothing, or the mark and a text.\<close>

primrec marked :: "char \<Rightarrow> string option \<Rightarrow> string" where
  "marked c None = []"
| "marked c (Some s) = c # s"

definition some_text :: "string option \<Rightarrow> string" where
  "some_text x = (case x of None \<Rightarrow> [] | Some s \<Rightarrow> s)"

abbreviation lexu :: "string \<Rightarrow> (char \<times> string) list" where
  "lexu \<equiv> lex_text url_delim"

lemma url_separators [simp]:
  "separator url_delim (CHR '':'')" "separator url_delim (CHR ''/'')" "separator url_delim (CHR ''?'')"
  "separator url_delim (CHR ''#'')" "separator url_delim (CHR '','')"
  by code_simp+

primrec mark_toks :: "char \<Rightarrow> string option \<Rightarrow> (char \<times> string) list" where
  "mark_toks c None = []"
| "mark_toks c (Some s) = (c, [c]) # lexu s"

lemma lexu_parts:
  "lexu (path @ marked (CHR ''?'') q @ marked (CHR ''#'') f) =
   lexu path @ mark_toks (CHR ''?'') q @ mark_toks (CHR ''#'') f"
  by (cases q; cases f; simp add: lex_append lex_separator del: lex_text.simps(2))

text \<open>
  The tokens of the parts decide what \<open>set_parts\<close> makes of them. A second question mark may
  follow the number sign when there is no query.
\<close>

lemma set_parts_marked:
  assumes toks: "sc_toks sc = pre @ map fst (lexu (path @ marked (CHR ''?'') q @ marked (CHR ''#'') f))"
    and vals: "sc_vals sc = prev @ map snd (lexu (path @ marked (CHR ''?'') q @ marked (CHR ''#'') f))"
    and len: "length prev = length pre"
    and i1: "(if 0 < length pat \<and> pat ! (length pat - 1) = CHR ''/'' then length pat - 1 else length pat)
        = length pre"
    and pre: "CHR ''?'' \<notin> set pre" "CHR ''#'' \<notin> set pre"
    and path: "CHR ''?'' \<notin> set path" "CHR ''#'' \<notin> set path"
    and query: "CHR ''?'' \<notin> set (some_text q)" "CHR ''#'' \<notin> set (some_text q)"
    and frag: "CHR ''#'' \<notin> set (some_text f)" "CHR ''?'' \<notin> set (some_text f) \<or> q = None"
  shows "set_parts sc pat u = u\<lparr>u_path := path, u_query := some_text q, u_ref := some_text f\<rparr>"
proof -
  have kinds: "CHR ''?'' \<notin> {tok_NUMBER, tok_SPACE, tok_NAME}" "CHR ''#'' \<notin> {tok_NUMBER, tok_SPACE, tok_NAME}"
    by code_simp+
  note no = lex_text_no_tok [OF _ kinds(1), of _ url_delim] lex_text_no_tok [OF _ kinds(2), of _ url_delim]
  have T: "sc_toks sc = pre @ map fst (lexu path) @ map fst (mark_toks (CHR ''?'') q)
      @ map fst (mark_toks (CHR ''#'') f)"
    and V: "sc_vals sc = prev @ map snd (lexu path) @ map snd (mark_toks (CHR ''?'') q)
      @ map snd (mark_toks (CHR ''#'') f)"
    using toks vals by (simp_all add: lexu_parts)
  let ?n = "length pre + length (lexu path)"
  have LQ: "CHR ''?'' \<notin> set (pre @ map fst (lexu path))" and LH: "CHR ''#'' \<notin> set (pre @ map fst (lexu path))"
    using pre no(1) [OF path(1)] no(2) [OF path(2)] by simp_all
  have P: "set_parts sc pat u = u\<lparr>u_path := scanner_join sc (length pre) (min i2 i3),
      u_query := scanner_join sc (i2 + 1) i3, u_ref := scanner_join_from sc (i3 + 1)\<rparr>"
    if "i2 = (case find_last (CHR ''?'') (sc_toks sc) of None \<Rightarrow> length (sc_toks sc) | Some i \<Rightarrow> i)"
      "i3 = (case find_last (CHR ''#'') (sc_toks sc) of None \<Rightarrow> length (sc_toks sc) | Some i \<Rightarrow> i)" for i2 i3
    using i1 that by (simp add: set_parts_def Let_def min_def not_le)
  have J: "scanner_join sc (length pre) ?n = path"
    using len by (simp add: scanner_join_def V concat_lex)
  consider "q = None" "f = None" | s where "q = Some s" "f = None" | t where "q = None" "f = Some t"
    | s t where "q = Some s" "f = Some t" by (cases q; cases f) auto
  then show ?thesis
  proof cases
    case 1
    then have "sc_toks sc = pre @ map fst (lexu path)" using T by simp
    then have "find_last (CHR ''?'') (sc_toks sc) = None" "find_last (CHR ''#'') (sc_toks sc) = None"
      "length (sc_toks sc) = ?n" using find_last_None [OF LQ] find_last_None [OF LH] by simp_all
    note P [of ?n ?n, unfolded this]
    with 1 J show ?thesis using len
      by (simp add: some_text_def scanner_join_def scanner_join_from_def V)
  next
    case (2 s)
    then have t: "sc_toks sc = (pre @ map fst (lexu path)) @ CHR ''?'' # map fst (lexu s)" using T by simp
    have "CHR ''?'' \<notin> set (map fst (lexu s))" "CHR ''#'' \<notin> set (map fst (lexu s))"
      using query 2 no by (simp_all add: some_text_def)
    then have "find_last (CHR ''?'') (sc_toks sc) = Some ?n" "find_last (CHR ''#'') (sc_toks sc) = None"
      using find_last_split [of "CHR ''?''" "map fst (lexu s)" "pre @ map fst (lexu path)"] LH
      by (simp_all add: t find_last_None)
    note P [of ?n "Suc (?n + length (lexu s))", unfolded this]
    with 2 J show ?thesis using len
      by (simp add: some_text_def scanner_join_def scanner_join_from_def V t concat_lex)
  next
    case (3 t)
    then have tt: "sc_toks sc = (pre @ map fst (lexu path)) @ CHR ''#'' # map fst (lexu t)" using T by simp
    have "CHR ''#'' \<notin> set (map fst (lexu t))" using frag 3 no by (simp add: some_text_def)
    then have h: "find_last (CHR ''#'') (sc_toks sc) = Some ?n"
      using find_last_split [of "CHR ''#''" "map fst (lexu t)" "pre @ map fst (lexu path)"] by (simp add: tt)
    define i2 where "i2 = (case find_last (CHR ''?'') (sc_toks sc) of None \<Rightarrow> length (sc_toks sc) | Some i \<Rightarrow> i)"
    have "?n \<le> i2"
    proof (cases "CHR ''?'' \<in> set (map fst (lexu t))")
      case True
      then obtain a b where ab: "map fst (lexu t) = a @ CHR ''?'' # b" "CHR ''?'' \<notin> set b"
        by (metis split_list_last)
      then have "find_last (CHR ''?'') (sc_toks sc) = Some (length ((pre @ map fst (lexu path)) @ CHR ''#'' # a))"
        using find_last_split [OF ab(2), of "(pre @ map fst (lexu path)) @ CHR ''#'' # a"] by (simp add: tt)
      then show ?thesis by (simp add: i2_def)
    next
      case False
      then have "find_last (CHR ''?'') (sc_toks sc) = None"
        using LQ by (intro find_last_None) (auto simp: tt)
      then show ?thesis by (simp add: i2_def tt)
    qed
    with P [OF i2_def, of ?n] h 3 J show ?thesis using len
      by (simp add: some_text_def scanner_join_def scanner_join_from_def V concat_lex min_absorb2)
  next
    case (4 s t)
    let ?Q = "map fst (lexu s) @ CHR ''#'' # map fst (lexu t)"
    have tt: "sc_toks sc = (pre @ map fst (lexu path)) @ CHR ''?'' # ?Q" using T 4 by simp
    have "CHR ''?'' \<notin> set ?Q" "CHR ''#'' \<notin> set (map fst (lexu t))"
      using query frag 4 no by (auto simp: some_text_def)
    then have "find_last (CHR ''?'') (sc_toks sc) = Some ?n"
      "find_last (CHR ''#'') (sc_toks sc) = Some (Suc (?n + length (lexu s)))"
      using find_last_split [of "CHR ''?''" ?Q "pre @ map fst (lexu path)"]
        find_last_split [of "CHR ''#''" "map fst (lexu t)"
          "(pre @ map fst (lexu path)) @ CHR ''?'' # map fst (lexu s)"]
      by (simp_all add: tt)
    note P [of ?n "Suc (?n + length (lexu s))", unfolded this]
    with 4 J show ?thesis using len
      by (simp add: some_text_def scanner_join_def scanner_join_from_def V concat_lex)
  qed
qed

lemma atoi_show_nat: "int n < 2 ^ 31 \<Longrightarrow> atoi_digits (show_nat n) = Some (int n)"
proof -
  assume n: "int n < 2 ^ 31"
  have "foldl (\<lambda>n c. 10 * n + digit_val c) 0 (show_nat n) = int n"
  proof (induction n rule: show_nat.induct)
    case (1 n)
    show ?case
    proof (cases "n < 10")
      case True
      then show ?thesis by (subst show_nat.simps) simp
    next
      case False
      with 1 have "foldl (\<lambda>n c. 10 * n + digit_val c) 0 (show_nat (n div 10)) = int (n div 10)" by simp
      moreover have "digit_val (digit_char (n mod 10)) = int (n mod 10)" by simp
      ultimately show ?thesis using False
        by (subst show_nat.simps) (simp add: zdiv_int zmod_int)
    qed
  qed
  moreover have "takeWhile is_digit (show_nat n) = show_nat n"
    using show_nat_digits [of n] by (simp add: takeWhile_eq_all_conv list_all_iff)
  moreover have "is_int (int n)" using n by (simp add: is_int_def)
  ultimately show ?thesis unfolding atoi_digits_def by (simp only: Let_def if_True)
qed

definition path_text :: "string \<Rightarrow> bool" where
  "path_text s \<longleftrightarrow> (s = [] \<or> hd s = CHR ''/'') \<and> CHR ''?'' \<notin> set s \<and> CHR ''#'' \<notin> set s"

definition no_stuck :: "string \<Rightarrow> bool" where
  "no_stuck s \<longleftrightarrow> list_all (\<lambda>c. \<not> stuck_char url_delim c) s"

lemma no_stuck_append [simp]: "no_stuck (a @ b) \<longleftrightarrow> no_stuck a \<and> no_stuck b"
  "no_stuck (c # a) \<longleftrightarrow> \<not> stuck_char url_delim c \<and> no_stuck a" "no_stuck []"
  by (simp_all add: no_stuck_def)

lemma name_no_stuck: "name_text url_delim s \<Longrightarrow> no_stuck s"
  by (auto simp: name_text_def no_stuck_def list_all_iff stuck_char_def is_cspace_def)

lemma digits_no_stuck: "list_all is_digit s \<Longrightarrow> no_stuck s"
  by (auto simp: no_stuck_def list_all_iff stuck_char_def is_digit_def)

lemma url_delim_no_digit: "\<forall>c \<in> set url_delim. \<not> is_digit c" by code_simp

lemma lexu_rest: "rest = [] \<or> separator url_delim (hd rest) \<Longrightarrow> lexu (a @ rest) = lexu a @ lexu rest"
  by (cases rest) (simp_all add: lex_append del: lex_text.simps(2))

lemma from_url_host_port:
  assumes p: "name_text url_delim p" and h: "name_text url_delim h" and n: "n < 65536"
    and path: "path_text path"
    and query: "CHR ''?'' \<notin> set (some_text q)" "CHR ''#'' \<notin> set (some_text q)"
    and frag: "CHR ''#'' \<notin> set (some_text f)" "CHR ''?'' \<notin> set (some_text f) \<or> q = None"
    and st: "no_stuck path" "no_stuck (some_text q)" "no_stuck (some_text f)"
  shows "from_url (p @ ''://'' @ h @ '':'' @ show_nat n @ path @ marked (CHR ''?'') q @ marked (CHR ''#'') f) =
    decode_parts (empty_url\<lparr>u_absolute := True, u_protocol := p, u_host := h, u_port := int n,
      u_path := path, u_query := some_text q, u_ref := some_text f\<rparr>)"
proof -
  let ?rest = "path @ marked (CHR ''?'') q @ marked (CHR ''#'') f"
  let ?s = "p @ ''://'' @ h @ '':'' @ show_nat n @ ?rest"
  have nst: "\<not> stuck_char url_delim c" if "c \<in> {CHR '':'', CHR ''/'', CHR ''?'', CHR ''#''}" for c
    using that by (auto simp: stuck_char_def)
  have "no_stuck ?s"
    using st name_no_stuck [OF p] name_no_stuck [OF h] digits_no_stuck [OF show_nat_digits, of n] nst
    by (cases q; cases f) (simp_all add: some_text_def)
  then have "\<forall>c \<in> set ?s. \<not> stuck_char url_delim c" by (simp only: no_stuck_def list_all_iff)
  then obtain sc where sc: "tokenize (mk_scanner ?s url_delim) = Some sc"
    "sc_toks sc = map fst (lexu ?s)" "sc_vals sc = map snd (lexu ?s)"
    using tokenize_lex [of url_delim ?s] by (auto simp: url_delim_def)
  have rest: "?rest = [] \<or> separator url_delim (hd ?rest)"
    using path by (cases path; cases q; cases f) (auto simp: path_text_def)
  have slash: "?rest \<noteq> [] \<and> hd ?rest = CHR ''/'' \<longleftrightarrow> path \<noteq> []"
    using path by (cases path; cases q; cases f) (auto simp: path_text_def)
  have D: "lexu (show_nat n @ ?rest) = (tok_NUMBER, show_nat n) # lexu ?rest"
    by (simp only: lexu_rest [OF rest] lex_digits [OF show_nat_nonempty show_nat_digits url_delim_no_digit]
      append_Cons append_Nil)
  have L: "lexu ?s = [(tok_NAME, p), (CHR '':'', '':''), (CHR ''/'', ''/''), (CHR ''/'', ''/''),
      (tok_NAME, h), (CHR '':'', '':''), (tok_NUMBER, show_nat n)] @ lexu ?rest"
    by (simp only: append_Cons append_Nil lex_append [OF url_separators(1)] lex_separator [OF url_separators(1)]
        lex_separator [OF url_separators(2)] lex_name [OF p] lex_name [OF h] D)
  have toks: "sc_toks sc = ''n://n:d'' @ map fst (lexu ?rest)"
    and vals: "sc_vals sc = [p, '':'', ''/'', ''/'', h, '':'', show_nat n] @ map snd (lexu ?rest)"
    unfolding sc L by (simp_all add: tok_NAME_def tok_NUMBER_def)
  let ?u = "empty_url\<lparr>u_absolute := True, u_protocol := p, u_host := h, u_port := int n\<rparr>"
  have parts: "set_parts sc pat ?u = ?u\<lparr>u_path := path, u_query := some_text q, u_ref := some_text f\<rparr>"
    if "pat = ''n://n:d/'' \<or> pat = ''n://n:d''" for pat
    using that path
    by (intro set_parts_marked [OF toks vals _ _ _ _ _ _ query frag]) (auto simp: path_text_def)
  have "val_at sc 0 = p" "val_at sc 4 = h" "val_at sc 6 = show_nat n"
    using vals by (simp_all add: val_at_def)
  moreover have "atoi_digits (show_nat n) = Some (int n)" using n by (intro atoi_show_nat) simp
  moreover have "to_ushort (int n) = int n" using n by (simp add: to_ushort_def)
  ultimately have H: "set_from_host_port_uri sc pat empty_url =
      Some (?u\<lparr>u_path := path, u_query := some_text q, u_ref := some_text f\<rparr>)"
    if "pat = ''n://n:d/'' \<or> pat = ''n://n:d''" for pat
    using parts [OF that] by (simp add: set_from_host_port_uri_def)
  have S: "starts_with (sc_toks sc) ''n://n:d''"
    unfolding starts_with_iff toks by blast
  have "first_handler sc s_handlers empty_url =
      Option.bind (Some (?u\<lparr>u_path := path, u_query := some_text q, u_ref := some_text f\<rparr>)) decode_parts"
    using S H [of "''n://n:d/''"] H [of "''n://n:d''"] by (simp add: s_handlers_def)
  then show ?thesis unfolding from_url_def set_from_spec_def sc option.case bind.bind_lunit .
qed

lemma decode_parts_plain:
  assumes "CHR 0x25 \<notin> set (u_path u)" "CHR 0x25 \<notin> set (u_query u)" "CHR 0x25 \<notin> set (u_ref u)"
  shows "decode_parts u = Some u"
proof -
  have "uri2string s = Some s" if "CHR 0x25 \<notin> set s" for s
    using that by (simp add: uri2string_def uri2string_loop.simps find_char_None)
  with assms show ?thesis by (simp add: decode_parts_def)
qed

definition plain_url :: "url \<Rightarrow> bool" where
  "plain_url u \<longleftrightarrow> u_absolute u \<and> name_text url_delim (u_protocol u) \<and> name_text url_delim (u_host u)
     \<and> u_protocol u \<notin> {''file'', ''data''} \<and> 0 < u_port u \<and> u_port u < 65536
     \<and> path_text (u_path u) \<and> set (u_query u) \<inter> set ''?#'' = {} \<and> set (u_ref u) \<inter> set ''?#'' = {}
     \<and> list_all (\<lambda>s. no_stuck s \<and> CHR 0x25 \<notin> set s) [u_path u, u_query u, u_ref u] \<and> u_mime u = []"

definition opt_text :: "string \<Rightarrow> string option" where
  "opt_text s = (if s = [] then None else Some s)"

lemma marked_opt: "marked c (opt_text s) = (if s = [] then [] else c # s)" "some_text (opt_text s) = s"
  by (simp_all add: opt_text_def some_text_def)

lemma repr_plain:
  assumes "plain_url u"
  shows "repr_url u = u_protocol u @ ''://'' @ u_host u @ '':'' @ show_nat (nat (u_port u)) @ u_path u
    @ marked (CHR ''#'') (opt_text (u_ref u)) @ marked (CHR ''?'') (opt_text (u_query u))"
  using assms by (auto simp: plain_url_def repr_url_def marked_opt show_int_def name_text_def)

lemma parse_plain:
  assumes u: "plain_url u" and q: "set q \<inter> set ''?#'' = {}" and f: "CHR ''#'' \<notin> set f" "CHR ''?'' \<notin> set f \<or> q = []"
    and st: "no_stuck q" "no_stuck f" and pc: "CHR 0x25 \<notin> set q" "CHR 0x25 \<notin> set f"
  shows "from_url (u_protocol u @ ''://'' @ u_host u @ '':'' @ show_nat (nat (u_port u)) @ u_path u
      @ marked (CHR ''?'') (opt_text q) @ marked (CHR ''#'') (opt_text f)) =
    Some (u\<lparr>u_query := q, u_ref := f\<rparr>)"
proof -
  have port: "nat (u_port u) < 65536" "int (nat (u_port u)) = u_port u" using u by (auto simp: plain_url_def)
  have "u_absolute u" "u_mime u = []" using u by (simp_all add: plain_url_def)
  then have e: "empty_url\<lparr>u_absolute := True, u_protocol := u_protocol u, u_host := u_host u,
      u_port := int (nat (u_port u)), u_path := u_path u, u_query := q, u_ref := f\<rparr> = u\<lparr>u_query := q, u_ref := f\<rparr>"
    using port(2) by (simp add: empty_url_def)
  show ?thesis
    unfolding e [symmetric]
  proof (subst from_url_host_port)
    show "name_text url_delim (u_protocol u)" "name_text url_delim (u_host u)" "path_text (u_path u)"
      "no_stuck (u_path u)"
      using u by (simp_all add: plain_url_def)
    show "CHR ''?'' \<notin> set (some_text (opt_text q))" "CHR ''#'' \<notin> set (some_text (opt_text q))"
      "CHR ''#'' \<notin> set (some_text (opt_text f))" "no_stuck (some_text (opt_text q))"
      "no_stuck (some_text (opt_text f))"
      using q f st by (auto simp: marked_opt)
    show "CHR ''?'' \<notin> set (some_text (opt_text f)) \<or> opt_text q = None"
      using f by (auto simp: opt_text_def some_text_def)
    show "nat (u_port u) < 65536" by (rule port)
    have "CHR 0x25 \<notin> set (u_path u)" using u by (simp add: plain_url_def)
    with pc show "decode_parts (empty_url\<lparr>u_absolute := True, u_protocol := u_protocol u, u_host := u_host u,
        u_port := int (nat (u_port u)), u_path := u_path u, u_query := some_text (opt_text q),
        u_ref := some_text (opt_text f)\<rparr>) = Some (empty_url\<lparr>u_absolute := True,
        u_protocol := u_protocol u, u_host := u_host u, u_port := int (nat (u_port u)),
        u_path := u_path u, u_query := q, u_ref := f\<rparr>)"
      by (simp add: marked_opt decode_parts_plain)
  qed
qed

text \<open>
  C22: a plain URL without query or without fragment prints to a text that parses to the same URL.
  Plain: it is absolute, its protocol is neither "file" nor "data", protocol and host are not empty,
  do not begin with a digit and hold no white space and no delimiter of the scanner, the port is from
  1 to 65535, the path is empty or begins with a slash, path, query and fragment hold no percent sign,
  question mark, number sign, vertical tab or form feed, and there is no mime type.
\<close>

theorem url_roundtrip:
  assumes "plain_url u" and "u_query u = [] \<or> u_ref u = []"
  shows "from_url (repr_url u) = Some u"
proof -
  have "repr_url u = u_protocol u @ ''://'' @ u_host u @ '':'' @ show_nat (nat (u_port u)) @ u_path u
      @ marked (CHR ''?'') (opt_text (u_query u)) @ marked (CHR ''#'') (opt_text (u_ref u))"
    unfolding repr_plain [OF assms(1)] using assms(2) by (auto simp: marked_opt)
  then show ?thesis
    using parse_plain [OF assms(1), of "u_query u" "u_ref u"] assms(1) by (simp add: plain_url_def)
qed

definition example_url :: url where
  "example_url = \<lparr>u_absolute = True, u_protocol = ''http'', u_host = ''www.cwi.nl'', u_port = 8080,
     u_path = ''/a/b.smil'', u_query = [], u_ref = ''c'', u_mime = []\<rparr>"

theorem url_roundtrip_witness:
  "from_url (repr_url example_url) = Some example_url"
  by (rule url_roundtrip) code_simp+

text \<open>
  A URL with a query and a fragment does not survive printing: the fragment is printed
  before the query, and the parser takes both for the fragment.
\<close>

theorem query_becomes_fragment:
  assumes "plain_url u" and "u_query u \<noteq> []" and "u_ref u \<noteq> []"
  shows "from_url (repr_url u) = Some (u\<lparr>u_query := [], u_ref := u_ref u @ ''?'' @ u_query u\<rparr>)"
proof -
  have "repr_url u = u_protocol u @ ''://'' @ u_host u @ '':'' @ show_nat (nat (u_port u)) @ u_path u
      @ marked (CHR ''?'') (opt_text []) @ marked (CHR ''#'') (opt_text (u_ref u @ ''?'' @ u_query u))"
    unfolding repr_plain [OF assms(1)] using assms(2,3) by (simp add: marked_opt)
  moreover have "\<not> stuck_char url_delim (CHR ''?'')" by code_simp
  ultimately show ?thesis
    using parse_plain [OF assms(1), of "[]" "u_ref u @ ''?'' @ u_query u"] assms(1)
    by (auto simp: plain_url_def)
qed

theorem query_becomes_fragment_witness:
  "from_url (repr_url (example_url\<lparr>u_query := ''q''\<rparr>)) = Some (example_url\<lparr>u_ref := ''c?q''\<rparr>)"
proof -
  have "plain_url (example_url\<lparr>u_query := ''q''\<rparr>)" by code_simp
  from query_becomes_fragment [OF this] show ?thesis by (simp add: example_url_def)
qed

section \<open>Joining and comparing: correctness\<close>

text \<open>
  Adding a fragment changes nothing but the fragment: the result is in the same document, has the
  same document URL, and is in the same document as exactly the URLs the original is with.
\<close>

theorem documents_and_fragments:
  assumes "0 \<le> u_port u" "u_port u < 65536" and "length s < 2 ^ 63" and "add_fragment s u = Some v"
  shows "u_ref v = uri_decode s \<and> same_document u v \<and> get_document v = get_document u
    \<and> u_ref (get_document u) = [] \<and> same_document w v = same_document w u"
proof -
  have "to_ushort (u_port u) = u_port u" using assms(1,2) by (simp add: to_ushort_def)
  with assms(3,4) show ?thesis
    by (auto simp: add_fragment_def uri2string_cases url_of_parts_def same_document_def
        get_document_def split: if_splits)
qed

lemma path_base_split:
  "CHR ''/'' \<notin> set n \<Longrightarrow> path_base (d @ CHR ''/'' # n) = (if d = [] then ''/'' else d)"
  by (simp add: path_base_def find_last_split)

lemma map_no_backslash: "CHR 0x5C \<notin> set d \<Longrightarrow> map (\<lambda>c. if c = CHR 0x5C then CHR ''/'' else c) d = d"
  by (induction d) auto

text \<open>
  A relative path is joined to the directory of the base's path, so that it replaces the last
  component of that path; protocol, host and port are those of the base, query and fragment those
  of the relative URL.
\<close>

theorem relative_url_joined:
  assumes "\<not> u_absolute u" "u_path u \<noteq> []" "hd (u_path u) \<noteq> CHR ''/''"
    and "u_path base = d @ CHR ''/'' # n" "CHR ''/'' \<notin> set n" "CHR 0x5C \<notin> set d"
    and "d = [] \<or> last d \<noteq> CHR ''/''" and "u_absolute base" "0 \<le> u_port base" "u_port base < 65536"
  shows "join_to_base u base = Some (base\<lparr>u_path := d @ CHR ''/'' # u_path u, u_query := u_query u,
    u_ref := u_ref u, u_mime := []\<rparr>)"
proof -
  have "to_ushort (u_port base) = u_port base" using assms(9,10) by (simp add: to_ushort_def)
  moreover have "map (\<lambda>c. if c = CHR 0x5C then CHR ''/'' else c) (path_base (u_path base)) =
      (if d = [] then ''/'' else d)"
    using assms(4-6) by (simp add: path_base_split map_no_backslash)
  ultimately show ?thesis using assms
    by (cases base) (auto simp: join_to_base_def path_join_def url_of_parts_def empty_url_def Let_def)
qed

theorem relative_url_joined_witness:
  "join_to_base (empty_url\<lparr>u_path := ''d.png''\<rparr>) example_url = Some (example_url\<lparr>u_path := ''/a/d.png'', u_ref := []\<rparr>)"
  using relative_url_joined [of "empty_url\<lparr>u_path := ''d.png''\<rparr>" example_url "''/a''" "''b.smil''"]
  by (simp add: empty_url_def example_url_def)

text \<open>
  When the path of the base has no slash its directory is the empty text, and \<open>join\<close> reads the
  character before the first one of it.
\<close>

theorem join_reads_outside:
  assumes "\<not> u_absolute u" "u_path u \<noteq> []" "hd (u_path u) \<noteq> CHR ''/''" "CHR ''/'' \<notin> set (u_path base)"
  shows "join_to_base u base = None"
  using assms by (simp add: join_to_base_def path_base_def find_last_None path_join_def)

theorem join_reads_outside_witness:
  "join_to_base (empty_url\<lparr>u_path := ''d.png''\<rparr>) (empty_url\<lparr>u_path := ''b.smil''\<rparr>) = None"
  by (rule join_reads_outside) (simp_all add: empty_url_def)

end
