(* ===== verification/Document.thy ===== *)
theory Document
  imports Dom Url
begin

text \<open>
  From the events of an XML parser to a document: the registry of namespaces (lib/nscontext.cpp),
  the builder of the tree of nodes (lib/tree_builder.cpp) and the document with its maps and its
  attribute value templates (lib/document.cpp). The parser and the state engine are arguments: the
  events of a text, and the value of an expression.
\<close>

section \<open>Namespaces\<close>

text \<open>A comma is missing after the fifth entry: the compiler joins it with the sixth.\<close>

definition supported_namespaces :: "string list" where
  "supported_namespaces =
     [''http://www.w3.org/TR/REC-smil'',
      ''http://www.w3.org/2001/SMIL20/'',
      ''http://www.w3.org/2001/SMIL20/Language'',
      ''http://www.w3.org/2001/SMIL20/HostLanguage'',
      (''http://www.w3.org/2001/SMIL20/IntegrationSet'' @ ''http://www.w3.org/2001/SMIL20/AccessKeyTiming''),
      ''http://www.w3.org/2001/SMIL20/AudioLayout'',
      ''http://www.w3.org/2001/SMIL20/BasicAnimation'',
      ''http://www.w3.org/2001/SMIL20/BasicContentControl'',
      ''http://www.w3.org/2001/SMIL20/BasicInlineTiming'',
      ''http://www.w3.org/2001/SMIL20/BasicLayout'',
      ''http://www.w3.org/2001/SMIL20/BasicLinking'',
      ''http://www.w3.org/2001/SMIL20/BasicMedia'',
      ''http://www.w3.org/2001/SMIL20/BasicTimeContainers'',
      ''http://www.w3.org/2001/SMIL20/BasicTransitions'',
      ''http://www.w3.org/2001/SMIL20/BrushMedia'',
      ''http://www.w3.org/2001/SMIL20/CustomTestAttributes'',
      ''http://www.w3.org/2001/SMIL20/EventTiming'',
      ''http://www.w3.org/2001/SMIL20/ExclTimeContainers'',
      ''http://www.w3.org/2001/SMIL20/FillDefault'',
      ''http://www.w3.org/2001/SMIL20/HierarchicalLayout'',
      ''http://www.w3.org/2001/SMIL20/InlineTransitions'',
      ''http://www.w3.org/2001/SMIL20/LinkingAttributes'',
      ''http://www.w3.org/2001/SMIL20/MediaAccessibility'',
      ''http://www.w3.org/2001/SMIL20/MediaClipMarkers'',
      ''http://www.w3.org/2001/SMIL20/MediaClipping'',
      ''http://www.w3.org/2001/SMIL20/MediaDescription'',
      ''http://www.w3.org/2001/SMIL20/MediaMarkerTiming'',
      ''http://www.w3.org/2001/SMIL20/MediaParam'',
      ''http://www.w3.org/2001/SMIL20/Metainformation'',
      ''http://www.w3.org/2001/SMIL20/MinMaxTiming'',
      ''http://www.w3.org/2001/SMIL20/MultiArcTiming'',
      ''http://www.w3.org/2001/SMIL20/MultiWindowLayout'',
      ''http://www.w3.org/2001/SMIL20/ObjectLinking'',
      ''http://www.w3.org/2001/SMIL20/PrefetchControl'',
      ''http://www.w3.org/2001/SMIL20/RepeatTiming'',
      ''http://www.w3.org/2001/SMIL20/RepeatValueTiming'',
      ''http://www.w3.org/2001/SMIL20/RestartDefault'',
      ''http://www.w3.org/2001/SMIL20/RestartTiming'',
      ''http://www.w3.org/2001/SMIL20/SkipContentControl'',
      ''http://www.w3.org/2001/SMIL20/SplineAnimation'',
      ''http://www.w3.org/2001/SMIL20/Structure'',
      ''http://www.w3.org/2001/SMIL20/SyncbaseTiming'',
      ''http://www.w3.org/2001/SMIL20/SyncBehavior'',
      ''http://www.w3.org/2001/SMIL20/SyncBehaviorDefault'',
      ''http://www.w3.org/2001/SMIL20/SyncMaster'',
      ''http://www.w3.org/2001/SMIL20/TimeContainerAttributes'',
      ''http://www.w3.org/2001/SMIL20/TimeManipulations'',
      ''http://www.w3.org/2001/SMIL20/TransitionModifiers'',
      ''http://www.w3.org/2001/SMIL20/WallclockTiming'',
      ''http://www.w3.org/2001/SMIL20/NestedTimeContainers'',
      ''http://www.w3.org/2001/SMIL20/DeprecatedFeatures'',
      ''http://www.w3.org/2005/SMIL21/'',
      ''http://www.w3.org/2005/SMIL21/Language'',
      ''http://www.w3.org/2005/SMIL21/Mobile'',
      ''http://www.w3.org/2005/SMIL21/ExtendedMobile'',
      ''http://www.w3.org/2005/SMIL21/HostLanguage'',
      ''http://www.w3.org/2005/SMIL21/IntegrationSet'',
      ''http://www.w3.org/2005/SMIL21/AccessKeyTiming'',
      ''http://www.w3.org/2005/SMIL21/AudioLayout'',
      ''http://www.w3.org/2005/SMIL21/BackgroundTilingLayout'',
      ''http://www.w3.org/2005/SMIL21/AlignmentLayout'',
      ''http://www.w3.org/2005/SMIL21/BasicAnimation'',
      ''http://www.w3.org/2005/SMIL21/BasicContentControl'',
      ''http://www.w3.org/2005/SMIL21/BasicInlineTiming'',
      ''http://www.w3.org/2005/SMIL21/BasicExclTimeContainers'',
      ''http://www.w3.org/2005/SMIL21/BasicLayout'',
      ''http://www.w3.org/2005/SMIL21/BasicLinking'',
      ''http://www.w3.org/2005/SMIL21/BasicMedia'',
      ''http://www.w3.org/2005/SMIL21/BasicPriorityClassContainers'',
      ''http://www.w3.org/2005/SMIL21/BasicTimeContainers'',
      ''http://www.w3.org/2005/SMIL21/BasicTransitions'',
      ''http://www.w3.org/2005/SMIL21/BrushMedia'',
      ''http://www.w3.org/2005/SMIL21/CustomTestAttributes'',
      ''http://www.w3.org/2005/SMIL21/EventTiming'',
      ''http://www.w3.org/2005/SMIL21/FillDefault'',
      ''http://www.w3.org/2005/SMIL21/FullScreenTransitionEffects'',
      ''http://www.w3.org/2005/SMIL21/InlineTransitions'',
      ''http://www.w3.org/2005/SMIL21/LinkingAttributes'',
      ''http://www.w3.org/2005/SMIL21/MediaAccessibility'',
      ''http://www.w3.org/2005/SMIL21/MediaClipMarkers'',
      ''http://www.w3.org/2005/SMIL21/MediaClipping'',
      ''http://www.w3.org/2005/SMIL21/MediaDescription'',
      ''http://www.w3.org/2005/SMIL21/MediaMarkerTiming'',
      ''http://www.w3.org/2005/SMIL21/MediaParam'',
      ''http://www.w3.org/2005/SMIL21/Metainformation'',
      ''http://www.w3.org/2005/SMIL21/MinMaxTiming'',
      ''http://www.w3.org/2005/SMIL21/MultiArcTiming'',
      ''http://www.w3.org/2005/SMIL21/MultiWindowLayout'',
      ''http://www.w3.org/2005/SMIL21/ObjectLinking'',
      ''http://www.w3.org/2005/SMIL21/OverrideLayout'',
      ''http://www.w3.org/2005/SMIL21/PrefetchControl'',
      ''http://www.w3.org/2005/SMIL21/RepeatTiming'',
      ''http://www.w3.org/2005/SMIL21/RepeatValueTiming'',
      ''http://www.w3.org/2005/SMIL21/RestartDefault'',
      ''http://www.w3.org/2005/SMIL21/RestartTiming'',
      ''http://www.w3.org/2005/SMIL21/SkipContentControl'',
      ''http://www.w3.org/2005/SMIL21/SplineAnimation'',
      ''http://www.w3.org/2005/SMIL21/Structure'',
      ''http://www.w3.org/2005/SMIL21/SubRegionLayout'',
      ''http://www.w3.org/2005/SMIL21/SyncbaseTiming'',
      ''http://www.w3.org/2005/SMIL21/SyncBehavior'',
      ''http://www.w3.org/2005/SMIL21/SyncBehaviorDefault'',
      ''http://www.w3.org/2005/SMIL21/SyncMaster'',
      ''http://www.w3.org/2005/SMIL21/TimeContainerAttributes'',
      ''http://www.w3.org/2005/SMIL21/TimeManipulations'',
      ''http://www.w3.org/2005/SMIL21/TransitionModifiers'',
      ''http://www.w3.org/2005/SMIL21/WallclockTiming'',
      ''http://www.w3.org/2005/SMIL21/NestedTimeContainers'',
      ''http://www.w3.org/2005/SMIL21/SMIL20DeprecatedFeatures'',
      ''http://www.w3.org/2005/SMIL21/SMIL10DeprecatedFeatures'',
      ''http://www.w3.org/ns/SMIL'',
      ''http://www.w3.org/2007/07/SMIL30/AccessKeyTiming'',
      ''http://www.w3.org/2007/07/SMIL30/AudioLayout'',
      ''http://www.w3.org/2007/07/SMIL30/BackgroundTilingLayout'',
      ''http://www.w3.org/2007/07/SMIL30/AlignmentLayout'',
      ''http://www.w3.org/2007/07/SMIL30/BasicAnimation'',
      ''http://www.w3.org/2007/07/SMIL30/BasicContentControl'',
      ''http://www.w3.org/2007/07/SMIL30/BasicInlineTiming'',
      ''http://www.w3.org/2007/07/SMIL30/BasicExclTimeContainers'',
      ''http://www.w3.org/2007/07/SMIL30/BasicLayout'',
      ''http://www.w3.org/2007/07/SMIL30/BasicLinking'',
      ''http://www.w3.org/2007/07/SMIL30/BasicMedia'',
      ''http://www.w3.org/2007/07/SMIL30/BasicPriorityClassContainers'',
      ''http://www.w3.org/2007/07/SMIL30/BasicText'',
      ''http://www.w3.org/2007/07/SMIL30/BasicTimeContainers'',
      ''http://www.w3.org/2007/07/SMIL30/BasicTransitions'',
      ''http://www.w3.org/2007/07/SMIL30/BrushMedia'',
      ''http://www.w3.org/2007/07/SMIL30/CustomTestAttributes'',
      ''http://www.w3.org/2007/07/SMIL30/DOMTimingMethods'',
      ''http://www.w3.org/2007/07/SMIL30/EventTiming'',
      ''http://www.w3.org/2007/07/SMIL30/FillDefault'',
      ''http://www.w3.org/2007/07/SMIL30/FullScreenTransitionEffects'',
      ''http://www.w3.org/2007/07/SMIL30/Identity'',
      ''http://www.w3.org/2007/07/SMIL30/InlineTransitions'',
      ''http://www.w3.org/2007/07/SMIL30/LinkingAttributes'',
      ''http://www.w3.org/2007/07/SMIL30/MediaAccessibility'',
      ''http://www.w3.org/2007/07/SMIL30/MediaClipMarkers'',
      ''http://www.w3.org/2007/07/SMIL30/MediaClipping'',
      ''http://www.w3.org/2007/07/SMIL30/MediaDescription'',
      ''http://www.w3.org/2007/07/SMIL30/MediaMarkerTiming'',
      ''http://www.w3.org/2007/07/SMIL30/MediaPanZoom'',
      ''http://www.w3.org/2007/07/SMIL30/MediaParam'',
      ''http://www.w3.org/2007/07/SMIL30/MediaRenderAttributes'',
      ''http://www.w3.org/2007/07/SMIL30/Metainformation'',
      ''http://www.w3.org/2007/07/SMIL30/MinMaxTiming'',
      ''http://www.w3.org/2007/07/SMIL30/MultiArcTiming'',
      ''http://www.w3.org/2007/07/SMIL30/MultiWindowLayout'',
      ''http://www.w3.org/2007/07/SMIL30/ObjectLinking'',
      ''http://www.w3.org/2007/07/SMIL30/OverrideLayout'',
      ''http://www.w3.org/2007/07/SMIL30/PrefetchControl'',
      ''http://www.w3.org/2007/07/SMIL30/RepeatTiming'',
      ''http://www.w3.org/2007/07/SMIL30/RepeatValueTiming'',
      ''http://www.w3.org/2007/07/SMIL30/RequiredContentControl'',
      ''http://www.w3.org/2007/07/SMIL30/RestartDefault'',
      ''http://www.w3.org/2007/07/SMIL30/RestartTiming'',
      ''http://www.w3.org/2007/07/SMIL30/SkipContentControl'',
      ''http://www.w3.org/2007/07/SMIL30/SplineAnimation'',
      ''http://www.w3.org/2007/07/SMIL30/StateTest'',
      ''http://www.w3.org/2007/07/SMIL30/StateInterpolation'',
      ''http://www.w3.org/2007/07/SMIL30/StateSubmission'',
      ''http://www.w3.org/2007/07/SMIL30/Structure'',
      ''http://www.w3.org/2007/07/SMIL30/StructureLayout'',
      ''http://www.w3.org/2007/07/SMIL30/SubRegionLayout'',
      ''http://www.w3.org/2007/07/SMIL30/SyncbaseTiming'',
      ''http://www.w3.org/2007/07/SMIL30/SyncBehavior'',
      ''http://www.w3.org/2007/07/SMIL30/SyncBehaviorDefault'',
      ''http://www.w3.org/2007/07/SMIL30/SyncMaster'',
      ''http://www.w3.org/2007/07/SMIL30/TextMotion'',
      ''http://www.w3.org/2007/07/SMIL30/TextStyling'',
      ''http://www.w3.org/2007/07/SMIL30/TimeContainerAttributes'',
      ''http://www.w3.org/2007/07/SMIL30/TimeManipulations'',
      ''http://www.w3.org/2007/07/SMIL30/TransitionModifiers'',
      ''http://www.w3.org/2007/07/SMIL30/UserState'',
      ''http://www.w3.org/2007/07/SMIL30/WallclockTiming'']"

record nscontext =
  pre2uri :: "string \<rightharpoonup> string"
  uri2pre :: "string \<rightharpoonup> string"

definition set_prefix_mapping :: "string \<Rightarrow> string \<Rightarrow> nscontext \<Rightarrow> nscontext" where
  "set_prefix_mapping pfx uri ns = ns\<lparr>pre2uri := (pre2uri ns)(pfx \<mapsto> uri), uri2pre := (uri2pre ns)(uri \<mapsto> pfx)\<rparr>"

definition get_namespace :: "nscontext \<Rightarrow> string \<Rightarrow> string" where
  "get_namespace ns pfx = (case pre2uri ns pfx of None \<Rightarrow> [] | Some u \<Rightarrow> u)"

definition get_default_namespace :: "nscontext \<Rightarrow> string" where
  "get_default_namespace ns = (case pre2uri ns [] of None \<Rightarrow> [] | Some u \<Rightarrow> u)"

definition is_known_namespace :: "nscontext \<Rightarrow> string \<Rightarrow> bool" where
  "is_known_namespace ns uri \<longleftrightarrow> uri2pre ns uri \<noteq> None"

definition get_namespace_prefix :: "nscontext \<Rightarrow> string \<Rightarrow> string" where
  "get_namespace_prefix ns uri = (case uri2pre ns uri of None \<Rightarrow> [] | Some p \<Rightarrow> p)"

definition is_supported_namespace :: "string \<Rightarrow> bool" where
  "is_supported_namespace uri \<longleftrightarrow> uri \<in> set supported_namespaces"

text \<open>The joined entry leaves two namespaces of SMIL 2.0 unsupported.\<close>

lemma joined_namespaces_unsupported:
  "\<not> is_supported_namespace ''http://www.w3.org/2001/SMIL20/IntegrationSet''"
  "\<not> is_supported_namespace ''http://www.w3.org/2001/SMIL20/AccessKeyTiming''"
  by (simp_all add: is_supported_namespace_def supported_namespaces_def)

definition is_supported_prefix :: "nscontext \<Rightarrow> string \<Rightarrow> bool" where
  "is_supported_prefix ns pfx = (case pre2uri ns pfx of None \<Rightarrow> False | Some u \<Rightarrow> is_supported_namespace u)"

section \<open>The document\<close>

record custom_test =
  ct_id :: string
  ct_state :: bool
  ct_title :: string
  ct_override :: bool
  ct_uid :: string

text \<open>
  The dependences of nodes on expressions and the callbacks of expressions are kept in the order of
  insertion; \<open>dc_wanted\<close> lists the requests to the state engine. Handlers are numbers.
\<close>

record document =
  dc_root :: "nat option"
  dc_root_owned :: bool
  dc_src_url :: url
  dc_namespaces :: nscontext
  dc_custom_tests :: "string \<rightharpoonup> custom_test"
  dc_id2node :: "string \<rightharpoonup> nat"
  dc_has_state :: bool
  dc_node2xpaths :: "(nat \<times> string) list"
  dc_xpath2callbacks :: "(string \<times> (nat \<times> nat)) list"
  dc_avtcache :: "nat \<Rightarrow> string \<rightharpoonup> string"
  dc_wanted :: "string list"

definition doc_supported_prefix :: "document \<Rightarrow> string \<Rightarrow> bool" where
  "doc_supported_prefix d pfx \<longleftrightarrow>
     is_supported_prefix (dc_namespaces d) pfx \<or> is_supported_namespace pfx"

definition resolve_url :: "document \<Rightarrow> url \<Rightarrow> url option" where
  "resolve_url d rurl = (if u_absolute rurl then Some rurl else join_to_base rurl (dc_src_url d))"

definition get_node :: "document \<Rightarrow> string \<Rightarrow> nat option" where
  "get_node d idd = (if idd = [] then None else dc_id2node d idd)"

definition doc_locate :: "'a dom_scheme \<Rightarrow> document \<Rightarrow> string \<Rightarrow> nat option option" where
  "doc_locate h d path = (case dc_root d of None \<Rightarrow> Some None | Some r \<Rightarrow> locate_node h r path)"

definition id_visit :: "node_context \<Rightarrow> 'a dom_scheme \<Rightarrow> bool \<times> nat \<Rightarrow> document \<Rightarrow> document" where
  "id_visit cx h v d =
     (if fst v then
        (case get_attribute cx h (snd v) ''id'' of
           None \<Rightarrow> d
         | Some pid \<Rightarrow> if get_node d pid \<noteq> None then d else d\<lparr>dc_id2node := (dc_id2node d)(pid \<mapsto> snd v)\<rparr>)
      else d)"

definition build_id2node_map :: "node_context \<Rightarrow> 'a dom_scheme \<Rightarrow> document \<Rightarrow> document option" where
  "build_id2node_map cx h d =
     (let d = d\<lparr>dc_id2node := Map.empty\<rparr> in
      case dc_root d of
        None \<Rightarrow> Some d
      | Some r \<Rightarrow> map_option (\<lambda>vs. fold (id_visit cx h) vs d) (visits h r))"

definition attr_text :: "string option \<Rightarrow> string" where
  "attr_text p = (case p of Some s \<Rightarrow> s | None \<Rightarrow> [])"

definition test_visit :: "node_context \<Rightarrow> 'a dom_scheme \<Rightarrow> bool \<times> nat \<Rightarrow> document \<Rightarrow> document" where
  "test_visit cx h v d =
     (let n = snd v in
      if d_local (dm_node h n) \<noteq> ''customTest'' then d
      else case get_attribute cx h n ''id'' of
             None \<Rightarrow> d
           | Some p \<Rightarrow>
               if fst v then
                 (let idd = to_c_lower p;
                      t = \<lparr>ct_id = idd,
                           ct_state = (attr_text (get_attribute cx h n ''defaultState'') = ''true''),
                           ct_title = attr_text (get_attribute cx h n ''title''),
                           ct_override = (attr_text (get_attribute cx h n ''override'') = ''visible''),
                           ct_uid = attr_text (get_attribute cx h n ''uid'')\<rparr>
                  in d\<lparr>dc_custom_tests := (dc_custom_tests d)(idd \<mapsto> t)\<rparr>)
               else d)"

definition read_custom_attributes :: "node_context \<Rightarrow> 'a dom_scheme \<Rightarrow> document \<Rightarrow> document option" where
  "read_custom_attributes cx h d =
     (if dc_root d = None then Some d
      else let d = d\<lparr>dc_custom_tests := Map.empty\<rparr> in
        do { ca \<leftarrow> doc_locate h d ''/smil/head/customAttributes'';
             case ca of
               None \<Rightarrow> Some d
             | Some n \<Rightarrow> map_option (\<lambda>vs. fold (test_visit cx h) vs d) (visits h n) })"

definition doc_get_root :: "bool \<Rightarrow> document \<Rightarrow> nat option \<times> document" where
  "doc_get_root dtch d = (if \<not> dtch then (dc_root d, d) else (dc_root d, d\<lparr>dc_root := None\<rparr>))"

definition delete_opt :: "nat option \<Rightarrow> 'a dom_scheme \<Rightarrow> 'a dom_scheme option" where
  "delete_opt r h = (case r of None \<Rightarrow> Some h | Some n \<Rightarrow> delete_node n h)"

text \<open>A document owns its root and deletes it when it gets another one.\<close>

definition set_root :: "node_context \<Rightarrow> nat option \<Rightarrow> document \<Rightarrow> 'a dom_scheme \<Rightarrow> (document \<times> 'a dom_scheme) option" where
  "set_root cx n d h =
     do { h \<leftarrow> (if dc_root_owned d \<and> dc_root d \<noteq> n then delete_opt (dc_root d) h else Some h);
          d \<leftarrow> build_id2node_map cx h (d\<lparr>dc_root_owned := True, dc_root := n\<rparr>);
          d \<leftarrow> read_custom_attributes cx h d;
          Some (d, h) }"

definition tree_changed :: "node_context \<Rightarrow> document \<Rightarrow> 'a dom_scheme \<Rightarrow> (document \<times> 'a dom_scheme) option" where
  "tree_changed cx d h = set_root cx (dc_root d) d h"

definition delete_document :: "document \<Rightarrow> 'a dom_scheme \<Rightarrow> 'a dom_scheme option" where
  "delete_document d h = (if dc_root_owned d then delete_opt (dc_root d) h else Some h)"

section \<open>Attribute value templates\<close>

definition register_dependence :: "nat \<Rightarrow> string \<Rightarrow> document \<Rightarrow> document" where
  "register_dependence n e d =
     (if (n, e) \<in> set (dc_node2xpaths d) then d
      else d\<lparr>dc_node2xpaths := dc_node2xpaths d @ [(n, e)]\<rparr>)"

function avt_loop :: "(string \<Rightarrow> string) \<Rightarrow> nat \<Rightarrow> string \<Rightarrow> string \<Rightarrow> document \<Rightarrow> string option \<times> document" where
  "avt_loop eval n rv rest d =
     (if rest = [] then (Some rv, d)
      else case (find_char (CHR 0x7B) rest, find_char (CHR 0x7D) rest) of
             (None, None) \<Rightarrow> (Some (rv @ rest), d)
           | (Some openpos, Some closepos) \<Rightarrow>
               if openpos > closepos then (None, d)
               else let rv = rv @ take openpos rest;
                        e = take (closepos - openpos - 1) (drop (openpos + 1) rest)
                    in avt_loop eval n (rv @ eval e) (drop (closepos + 1) rest) (register_dependence n e d)
           | _ \<Rightarrow> (None, d))"
  by pat_completeness auto
termination
  by (relation "measure (\<lambda>(eval, n, rv, rest, d). length rest)") auto

declare avt_loop.simps [simp del]

definition apply_avt :: "(string \<Rightarrow> string) \<Rightarrow> nat \<Rightarrow> string \<Rightarrow> document \<Rightarrow> string \<times> document" where
  "apply_avt eval n attrvalue d =
     (if \<not> dc_has_state d then (attrvalue, d)
      else case avt_loop eval n [] attrvalue d of
             (None, d) \<Rightarrow> (attrvalue, d)
           | (Some rv, d) \<Rightarrow>
               (rv, d\<lparr>dc_avtcache := (dc_avtcache d)(n := (dc_avtcache d n)(attrvalue \<mapsto> rv))\<rparr>))"

text \<open>The expressions of the node in the order of insertion; a \<open>None\<close> is the failed assertion.\<close>

definition register_callback :: "nat \<Rightarrow> nat \<Rightarrow> string \<Rightarrow> document \<Rightarrow> document option" where
  "register_callback n handler e d =
     (if (e, (handler, n)) \<in> set (dc_xpath2callbacks d) then Some d
      else let anyfound = (\<exists>v \<in> set (dc_xpath2callbacks d). fst v = e);
               d = d\<lparr>dc_xpath2callbacks := dc_xpath2callbacks d @ [(e, (handler, n))]\<rparr>
           in if anyfound then Some d
              else if \<not> dc_has_state d then None
              else Some (d\<lparr>dc_wanted := dc_wanted d @ [e]\<rparr>))"

definition register_for_avt_changes :: "nat \<Rightarrow> nat \<Rightarrow> document \<Rightarrow> document option" where
  "register_for_avt_changes n handler d =
     foldm (register_callback n handler) (map snd (filter (\<lambda>v. fst v = n) (dc_node2xpaths d))) d"

text \<open>The calls of handlers a state change makes, with the caches cleared.\<close>

definition on_state_change :: "string \<Rightarrow> document \<Rightarrow> (nat \<times> nat) list \<times> document" where
  "on_state_change ref d =
     (let calls = map snd (filter (\<lambda>v. fst v = ref) (dc_xpath2callbacks d))
      in (calls, d\<lparr>dc_avtcache := fold (\<lambda>(_, n) c. c(n := Map.empty)) calls (dc_avtcache d)\<rparr>))"

section \<open>Building the tree\<close>

datatype sax_event =
    StartElement q_name q_attributes
  | EndElement q_name
  | Characters string
  | StartPrefix string string
  | EndPrefix string
  | SaxError

record builder =
  tb_root :: "nat option"
  tb_current :: "nat option"
  tb_well_formed :: bool
  tb_pending :: "(string \<times> string) list"
  tb_space :: "(string \<times> nat option) list"
  tb_dom :: dom
  tb_doc :: document

definition doc_context :: "document \<Rightarrow> node_context" where
  "doc_context d = \<lparr>cx_supported_prefix = doc_supported_prefix d, cx_apply_avt = (\<lambda>_ _ v. v)\<rparr>"

definition add_element :: "q_name \<Rightarrow> q_attributes \<Rightarrow> builder \<Rightarrow> builder option" where
  "add_element qn qattrs tb =
     (let (p, h) = new_qnode qn qattrs (Some (doc_context (tb_doc tb))) (tb_dom tb) in
      if tb_root tb = None then Some (tb\<lparr>tb_root := Some p, tb_current := Some p, tb_dom := h\<rparr>)
      else case tb_current tb of
             Some c \<Rightarrow> map_option (\<lambda>h. tb\<lparr>tb_current := Some p, tb_dom := h\<rparr>) (append_child c p h)
           | None \<Rightarrow> Some (tb\<lparr>tb_well_formed := False\<rparr>))"

text \<open>
  Setting the pending prefixes on the node does nothing for the nodes of this library, but uses
  the pointer to it.
\<close>

definition flush_prefixes :: "builder \<Rightarrow> builder option" where
  "flush_prefixes tb =
     (if tb_pending tb \<noteq> [] \<and> tb_current tb = None then None else Some (tb\<lparr>tb_pending := []\<rparr>))"

definition note_space :: "q_attributes \<Rightarrow> builder \<Rightarrow> builder" where
  "note_space qattrs tb =
     (case find (\<lambda>a. snd (fst a) = ''space'') qattrs of
        None \<Rightarrow> tb
      | Some a \<Rightarrow> tb\<lparr>tb_space := (snd a, tb_current tb) # tb_space tb\<rparr>)"

definition start_element :: "q_name \<Rightarrow> q_attributes \<Rightarrow> builder \<Rightarrow> builder option" where
  "start_element qn qattrs tb =
     do { tb \<leftarrow> add_element qn qattrs tb; tb \<leftarrow> flush_prefixes tb; Some (note_space qattrs tb) }"

definition end_element :: "builder \<Rightarrow> builder" where
  "end_element tb =
     (let tb = (case tb_space tb of
                  s # ss \<Rightarrow> if snd s = tb_current tb then tb\<lparr>tb_space := ss\<rparr> else tb
                | [] \<Rightarrow> tb)
      in case tb_current tb of
           Some c \<Rightarrow> tb\<lparr>tb_current := ln_up (tb_dom tb) c\<rparr>
         | None \<Rightarrow> tb\<lparr>tb_well_formed := False\<rparr>)"

fun collapse_loop :: "bool \<Rightarrow> string \<Rightarrow> string" where
  "collapse_loop skipspace [] = []"
| "collapse_loop skipspace (c # s) =
     (if is_ascii c \<and> is_cspace c
      then (if \<not> skipspace then CHR '' '' # collapse_loop True s else collapse_loop True s)
      else c # collapse_loop False s)"

definition collapse :: "string \<Rightarrow> string" where
  "collapse buf = (let d = collapse_loop False buf in if d = '' '' then [] else d)"

definition characters :: "string \<Rightarrow> builder \<Rightarrow> builder option" where
  "characters buf tb =
     (case tb_current tb of
        None \<Rightarrow> Some (tb\<lparr>tb_well_formed := False\<rparr>)
      | Some c \<Rightarrow>
          (let preserve = (case tb_space tb of s # _ \<Rightarrow> fst s = ''preserve'' | [] \<Rightarrow> False);
               data = (if preserve then buf else collapse buf)
           in if preserve \<or> data \<noteq> [] then
                (case new_data_node data True (tb_dom tb) of
                   (n, h) \<Rightarrow> map_option (\<lambda>h. tb\<lparr>tb_dom := h\<rparr>) (append_child c n h))
              else Some tb))"

definition start_prefix_mapping :: "string \<Rightarrow> string \<Rightarrow> builder \<Rightarrow> builder" where
  "start_prefix_mapping pfx uri tb =
     tb\<lparr>tb_doc := (tb_doc tb)\<lparr>dc_namespaces := set_prefix_mapping pfx uri (dc_namespaces (tb_doc tb))\<rparr>,
        tb_pending := tb_pending tb @ [(pfx, uri)]\<rparr>"

fun sax_step :: "sax_event \<Rightarrow> builder \<Rightarrow> builder option" where
  "sax_step (StartElement qn qattrs) tb = start_element qn qattrs tb"
| "sax_step (EndElement qn) tb = Some (end_element tb)"
| "sax_step (Characters buf) tb = characters buf tb"
| "sax_step (StartPrefix pfx uri) tb = Some (start_prefix_mapping pfx uri tb)"
| "sax_step (EndPrefix pfx) tb = Some tb"
| "sax_step SaxError tb = Some (tb\<lparr>tb_well_formed := False\<rparr>)"

definition tb_reset :: "builder \<Rightarrow> builder option" where
  "tb_reset tb =
     do { h \<leftarrow> delete_opt (tb_root tb) (tb_dom tb);
          Some (tb\<lparr>tb_space := [], tb_root := None,
            tb_current := (if tb_root tb = None then tb_current tb else None),
            tb_well_formed := False, tb_dom := h\<rparr>) }"

definition tb_detach :: "builder \<Rightarrow> nat option \<times> builder" where
  "tb_detach tb = (tb_root tb, tb\<lparr>tb_root := None, tb_current := None\<rparr>)"

text \<open>The parser gives the events of a text and whether it is well formed.\<close>

definition build_tree_from_str ::
    "(string \<Rightarrow> sax_event list \<times> bool) \<Rightarrow> string \<Rightarrow> builder \<Rightarrow> builder option" where
  "build_tree_from_str parse str tb =
     (case parse str of
        (events, ok) \<Rightarrow> map_option (\<lambda>tb. tb\<lparr>tb_well_formed := ok\<rparr>) (foldm sax_step events tb))"

definition assert_root_tag :: "string \<Rightarrow> builder \<Rightarrow> bool" where
  "assert_root_tag tag tb \<longleftrightarrow>
     (case tb_root tb of None \<Rightarrow> False | Some r \<Rightarrow> d_local (dm_node (tb_dom tb) r) = tag)"

definition new_document :: document where
  "new_document = \<lparr>dc_root = None, dc_root_owned = False, dc_src_url = empty_url,
     dc_namespaces = \<lparr>pre2uri = Map.empty, uri2pre = Map.empty\<rparr>, dc_custom_tests = Map.empty,
     dc_id2node = Map.empty, dc_has_state = False, dc_node2xpaths = [], dc_xpath2callbacks = [],
     dc_avtcache = (\<lambda>_. Map.empty), dc_wanted = []\<rparr>"

definition new_builder :: "dom \<Rightarrow> builder" where
  "new_builder h = \<lparr>tb_root = None, tb_current = None, tb_well_formed = False, tb_pending = [],
     tb_space = [], tb_dom = h, tb_doc = new_document\<rparr>"

text \<open>
  The end of the factory functions: a bad document is a null pointer, and the destructor of the
  builder deletes the nodes. The outer \<open>None\<close> is a call that does not return.
\<close>

definition finish_document :: "builder \<Rightarrow> (document option \<times> dom) option" where
  "finish_document tb =
     (if \<not> tb_well_formed tb \<or> \<not> assert_root_tag ''smil'' tb
      then map_option (Pair None) (delete_opt (tb_root tb) (tb_dom tb))
      else let (r, tb) = tb_detach tb in
        do { (d, h) \<leftarrow> set_root (doc_context (tb_doc tb)) r (tb_doc tb) (tb_dom tb); Some (Some d, h) })"

definition create_from_string ::
    "(string \<Rightarrow> sax_event list \<times> bool) \<Rightarrow> string \<Rightarrow> dom \<Rightarrow> (document option \<times> dom) option" where
  "create_from_string parse smil_src h =
     do { tb \<leftarrow> build_tree_from_str parse smil_src (new_builder h); finish_document tb }"

definition create_from_url ::
    "(url \<Rightarrow> string option) \<Rightarrow> (string \<Rightarrow> sax_event list \<times> bool) \<Rightarrow> url \<Rightarrow> dom \<Rightarrow> (document option \<times> dom) option" where
  "create_from_url read_data parse u h =
     (case read_data u of
        None \<Rightarrow> Some (None, h)
      | Some data \<Rightarrow>
          do { (d, h) \<leftarrow> create_from_string parse data h; Some (map_option (\<lambda>d. d\<lparr>dc_src_url := u\<rparr>) d, h) })"

section \<open>The invariant of the builder\<close>

text \<open>
  The nodes built so far form a tree under the root, the addresses not yet used lie above them, and
  the element being read is one of them; it is null when no element is open.
\<close>

definition builder_ok :: "builder \<Rightarrow> bool" where
  "builder_ok tb \<longleftrightarrow>
     (case tb_root tb of
        None \<Rightarrow> tb_current tb = None
      | Some r \<Rightarrow> \<exists>t. is_tree (tb_dom tb) t \<and> label t = r \<and> set (nodes t) \<subseteq> {..<dm_free (tb_dom tb)}
                 \<and> (\<forall>c. tb_current tb = Some c \<longrightarrow> c \<in> set (nodes t)))"

lemma is_tree_frame:
  assumes "is_tree h t"
    and "\<forall>n \<in> set (nodes t). ln_up h' n = ln_up h n \<and> ln_down h' n = ln_down h n \<and> ln_next h' n = ln_next h n"
  shows "is_tree h' t"
proof -
  have "family h' n ks" if n: "(n, ks) \<in> set (kids t)" for n ks
  proof (rule family_frame)
    show "family h n ks" using assms(1) n by (auto simp: is_tree_def represents_def)
    show "ln_down h' n = ln_down h n" using assms(2) kid_of_node [OF n] by blast
    show "\<forall>k\<in>set ks. ln_up h' k = ln_up h k \<and> ln_next h' k = ln_next h k"
      using assms(2) kids_in_nodes [OF n] by blast
  qed
  then show ?thesis using assms by (auto simp: is_tree_def represents_def)
qed

lemma alloc_node_fresh:
  assumes "alloc_node d h = (n, h')"
  shows "n = dm_free h" "dm_free h' = Suc n" "is_tree h' (Node n [])"
    and "is_tree h t \<Longrightarrow> set (nodes t) \<subseteq> {..<dm_free h} \<Longrightarrow> is_tree h' t"
proof -
  show "n = dm_free h" "dm_free h' = Suc n" "is_tree h' (Node n [])"
    using assms by (auto simp: alloc_node_def Let_def is_tree_def represents_def family_def)
  assume t: "is_tree h t" "set (nodes t) \<subseteq> {..<dm_free h}"
  show "is_tree h' t"
    by (rule is_tree_frame [OF t(1)]) (use assms t(2) in \<open>auto simp: alloc_node_def Let_def\<close>)
qed

lemma append_child_free: "append_child n c h = Some h' \<Longrightarrow> dm_free h' = dm_free h"
  by (auto simp: append_child_def set_up_def set_down_def set_next_def Option.bind_eq_Some_conv
      split: option.splits if_splits)

lemma append_fresh:
  assumes "alloc_node d h = (p, h1)" "is_tree h t" "set (nodes t) \<subseteq> {..<dm_free h}" "n \<in> set (nodes t)"
  shows "\<exists>h2. append_child n p h1 = Some h2 \<and> is_tree h2 (graft n (Node p []) t)
    \<and> set (nodes (graft n (Node p []) t)) \<subseteq> {..<dm_free h2} \<and> p \<in> set (nodes (graft n (Node p []) t))
    \<and> set (nodes t) \<subseteq> set (nodes (graft n (Node p []) t))"
proof -
  note f = alloc_node_fresh [OF assms(1)]
  have "set (nodes t) \<inter> set (nodes (Node p [])) = {}" using f(1) assms(3) by auto
  from append_child_tree [OF f(4) [OF assms(2,3)] f(3) assms(4) this]
  obtain h2 where h2: "append_child n p h1 = Some h2" "is_tree h2 (graft n (Node p []) t)" by auto
  then show ?thesis using append_child_free [OF h2(1)] f(1,2) assms(3,4) by (auto simp: nodes_graft)
qed

lemma up_in_tree: "is_tree h t \<Longrightarrow> c \<in> set (nodes t) \<Longrightarrow> ln_up h c = Some u \<Longrightarrow> u \<in> set (nodes t)"
proof -
  assume t: "is_tree h t" "c \<in> set (nodes t)" "ln_up h c = Some u"
  then have "c \<noteq> label t" by (auto simp: is_tree_def)
  from parent_exists [OF t(2) this] obtain p ks where p: "(p, ks) \<in> set (kids t)" "c \<in> set ks" by blast
  then have "family h p ks" using t(1) by (auto simp: is_tree_def represents_def)
  then have "u = p" using family_up p(2) t(3) by fastforce
  then show ?thesis using kid_of_node [OF p(1)] by simp
qed

lemma builder_okE:
  assumes "builder_ok tb" "tb_current tb = Some c"
  obtains r t where "tb_root tb = Some r" "is_tree (tb_dom tb) t" "label t = r"
    "set (nodes t) \<subseteq> {..<dm_free (tb_dom tb)}" "c \<in> set (nodes t)"
  using assms by (auto simp: builder_ok_def split: option.splits)

lemma builder_ok_cong:
  "tb_root tb' = tb_root tb \<Longrightarrow> tb_current tb' = tb_current tb \<Longrightarrow> tb_dom tb' = tb_dom tb \<Longrightarrow>
   builder_ok tb' = builder_ok tb"
  by (cases "tb_root tb") (simp_all add: builder_ok_def)

lemma note_space_same [simp]:
  "tb_root (note_space a tb) = tb_root tb" "tb_current (note_space a tb) = tb_current tb"
  "tb_dom (note_space a tb) = tb_dom tb"
  by (auto simp: note_space_def split: option.splits)

lemma add_element_ok:
  assumes "builder_ok tb"
  shows "\<exists>tb'. add_element qn qattrs tb = Some tb' \<and> builder_ok tb' \<and> tb_pending tb' = tb_pending tb
    \<and> (tb_current tb' = None \<longleftrightarrow> tb_root tb \<noteq> None \<and> tb_current tb = None)"
proof -
  obtain d p h where d: "new_qnode qn qattrs (Some (doc_context (tb_doc tb))) (tb_dom tb) = (p, h)"
    "alloc_node d (tb_dom tb) = (p, h)"
    by (metis new_qnode_def surj_pair)
  note f = alloc_node_fresh [OF d(2)]
  consider "tb_root tb = None" | r where "tb_root tb = Some r" "tb_current tb = None"
    | r c where "tb_root tb = Some r" "tb_current tb = Some c" by fastforce
  then show ?thesis
  proof cases
    case 1
    then show ?thesis using f(1-3) by (auto simp: add_element_def d(1) builder_ok_def intro: exI [of _ "Node p []"])
  next
    case 2
    then show ?thesis using assms
      by (auto simp: add_element_def d(1) intro: builder_ok_cong [THEN iffD1, rotated 3])
  next
    case 3
    from builder_okE [OF assms 3(2)] obtain t where t: "is_tree (tb_dom tb) t" "label t = r"
      "set (nodes t) \<subseteq> {..<dm_free (tb_dom tb)}" "c \<in> set (nodes t)" using 3(1) by auto
    from append_fresh [OF d(2) t(1,3,4)] obtain h2 where h2: "append_child c p h = Some h2"
      "is_tree h2 (graft c (Node p []) t)" "set (nodes (graft c (Node p []) t)) \<subseteq> {..<dm_free h2}"
      "p \<in> set (nodes (graft c (Node p []) t))" by blast
    then show ?thesis using 3 t(2)
      by (auto simp: add_element_def d(1) builder_ok_def intro: exI [of _ "graft c (Node p []) t"])
  qed
qed

lemma start_element_ok:
  assumes "builder_ok tb" "tb_pending tb = [] \<or> tb_root tb = None \<or> tb_current tb \<noteq> None"
  shows "\<exists>tb'. start_element qn qattrs tb = Some tb' \<and> builder_ok tb'"
proof -
  obtain tb' where tb: "add_element qn qattrs tb = Some tb'" "builder_ok tb'" "tb_pending tb' = tb_pending tb"
    "tb_current tb' = None \<longleftrightarrow> tb_root tb \<noteq> None \<and> tb_current tb = None"
    using add_element_ok [OF assms(1), of qn qattrs] by metis
  then have "flush_prefixes tb' = Some (tb'\<lparr>tb_pending := []\<rparr>)" using assms(2) by (auto simp: flush_prefixes_def)
  with tb show ?thesis by (auto simp: start_element_def intro: builder_ok_cong [THEN iffD1, rotated 3])
qed

lemma start_element_null:
  "builder_ok tb \<Longrightarrow> tb_pending tb \<noteq> [] \<Longrightarrow> tb_root tb \<noteq> None \<Longrightarrow> tb_current tb = None \<Longrightarrow>
   start_element qn qattrs tb = None"
  by (auto simp: start_element_def add_element_def flush_prefixes_def split: prod.splits)

lemma end_element_ok:
  assumes "builder_ok tb"
  shows "builder_ok (end_element tb)"
proof -
  define tb1 where "tb1 = (case tb_space tb of s # ss \<Rightarrow> if snd s = tb_current tb then tb\<lparr>tb_space := ss\<rparr> else tb | [] \<Rightarrow> tb)"
  have s: "tb_root tb1 = tb_root tb" "tb_current tb1 = tb_current tb" "tb_dom tb1 = tb_dom tb"
    by (auto simp: tb1_def split: list.splits)
  have e: "end_element tb = (case tb_current tb1 of Some c \<Rightarrow> tb1\<lparr>tb_current := ln_up (tb_dom tb1) c\<rparr>
      | None \<Rightarrow> tb1\<lparr>tb_well_formed := False\<rparr>)"
    unfolding end_element_def Let_def tb1_def ..
  show ?thesis
  proof (cases "tb_current tb")
    case None
    then show ?thesis using assms s by (simp add: e builder_ok_def split: option.splits)
  next
    case (Some c)
    from builder_okE [OF assms Some] obtain r t where t: "tb_root tb = Some r" "is_tree (tb_dom tb) t" "label t = r"
      "set (nodes t) \<subseteq> {..<dm_free (tb_dom tb)}" "c \<in> set (nodes t)" by blast
    then show ?thesis using s Some up_in_tree [OF t(2,5)]
      by (auto simp: e builder_ok_def intro!: exI [of _ t])
  qed
qed

lemma characters_ok:
  assumes "builder_ok tb"
  shows "\<exists>tb'. characters buf tb = Some tb' \<and> builder_ok tb'"
proof (cases "tb_current tb")
  case None
  then show ?thesis using assms by (auto simp: characters_def intro: builder_ok_cong [THEN iffD1, rotated 3])
next
  case (Some c)
  from builder_okE [OF assms Some] obtain r t where t: "tb_root tb = Some r" "is_tree (tb_dom tb) t" "label t = r"
    "set (nodes t) \<subseteq> {..<dm_free (tb_dom tb)}" "c \<in> set (nodes t)" by blast
  have app: "\<exists>tb'. (case new_data_node data True (tb_dom tb) of
      (n, h) \<Rightarrow> map_option (\<lambda>h. tb\<lparr>tb_dom := h\<rparr>) (append_child c n h)) = Some tb' \<and> builder_ok tb'" for data
  proof -
    obtain d p h where d: "new_data_node data True (tb_dom tb) = (p, h)" "alloc_node d (tb_dom tb) = (p, h)"
      by (metis new_data_node_def surj_pair)
    from append_fresh [OF d(2) t(2,4,5)] obtain h2 where h2: "append_child c p h = Some h2"
      "is_tree h2 (graft c (Node p []) t)" "set (nodes (graft c (Node p []) t)) \<subseteq> {..<dm_free h2}"
      "set (nodes t) \<subseteq> set (nodes (graft c (Node p []) t))" by blast
    then show ?thesis using t Some
      by (auto simp: d(1) builder_ok_def intro!: exI [of _ "graft c (Node p []) t"])
  qed
  then show ?thesis using assms by (simp add: characters_def Some Let_def)
qed

lemma sax_step_keeps:
  assumes "builder_ok tb" "sax_step e tb = Some tb'"
  shows "builder_ok tb'"
proof (cases e)
  case (StartElement qn qattrs)
  then show ?thesis
    using assms start_element_ok [OF assms(1), of qn qattrs] start_element_null [OF assms(1), of qn qattrs]
    by (cases "tb_pending tb = [] \<or> tb_root tb = None \<or> tb_current tb \<noteq> None") auto
next
  case (Characters buf)
  then show ?thesis using assms(2) characters_ok [OF assms(1), of buf] by auto
qed (use assms end_element_ok in
  \<open>auto simp: start_prefix_mapping_def intro: builder_ok_cong [THEN iffD1, rotated 3]\<close>)

text \<open>
  C11: Every event of a parser finds and leaves the builder well typed: the nodes form a tree under
  the root and the current element is in it. Only a start tag after the end of the root element
  with namespace declarations before it uses a null pointer.
\<close>

theorem sax_step_typed:
  assumes "builder_ok tb"
  shows "case sax_step e tb of
      Some tb' \<Rightarrow> builder_ok tb'
    | None \<Rightarrow> tb_pending tb \<noteq> [] \<and> tb_root tb \<noteq> None \<and> tb_current tb = None \<and> (\<exists>qn qattrs. e = StartElement qn qattrs)"
proof (cases "sax_step e tb")
  case None
  show ?thesis
  proof (cases e)
    case (StartElement qn qattrs)
    then show ?thesis using None start_element_ok [OF assms, of qn qattrs] by fastforce
  next
    case (Characters buf)
    then show ?thesis using None characters_ok [OF assms, of buf] by auto
  qed (use None in simp_all)
next
  case (Some tb')
  then show ?thesis using sax_step_keeps [OF assms] by simp
qed

lemma new_builder_ok: "builder_ok (new_builder h)"
  by (simp add: builder_ok_def new_builder_def)

lemma sax_events_ok:
  assumes "foldm sax_step es tb = Some tb'" "builder_ok tb"
  shows "builder_ok tb'"
  using assms
proof (induction es arbitrary: tb)
  case (Cons e es)
  from Cons.prems(1) obtain tb1 where tb1: "sax_step e tb = Some tb1" "foldm sax_step es tb1 = Some tb'"
    by (auto simp: Option.bind_eq_Some_conv)
  have "builder_ok tb1" using Cons.prems(2) tb1(1) by (rule sax_step_keeps)
  then show ?case using Cons.IH tb1(2) by blast
qed simp

definition empty_dom :: dom where
  "empty_dom = \<lparr>ln_up = Map.empty, ln_down = Map.empty, ln_next = Map.empty, ln_live = {},
     dm_node = (\<lambda>_. plain_node ([], []) [] False), dm_counter = 0, dm_free = 0\<rparr>"

theorem sax_step_typed_witness:
  "\<exists>tb. sax_step (StartElement ([], ''smil'') []) (new_builder empty_dom) = Some tb \<and> builder_ok tb"
  using sax_step_typed [OF new_builder_ok, of empty_dom "StartElement ([], ''smil'') []"]
  by (simp add: new_builder_def split: option.splits)

lemma sax_step_root: "sax_step e tb = Some tb' \<Longrightarrow> dc_root (tb_doc tb') = dc_root (tb_doc tb) \<and> dc_root_owned (tb_doc tb') = dc_root_owned (tb_doc tb)"
  by (cases e) (auto simp: start_element_def add_element_def flush_prefixes_def note_space_def end_element_def
      characters_def start_prefix_mapping_def Let_def Option.bind_eq_Some_conv split: option.splits prod.splits if_splits list.splits)

lemma sax_events_root: "foldm sax_step es tb = Some tb' \<Longrightarrow>
    dc_root (tb_doc tb') = dc_root (tb_doc tb) \<and> dc_root_owned (tb_doc tb') = dc_root_owned (tb_doc tb)"
proof (induction es arbitrary: tb)
  case (Cons e es)
  then obtain tb1 where "sax_step e tb = Some tb1" "foldm sax_step es tb1 = Some tb'"
    by (auto simp: Option.bind_eq_Some_conv)
  with Cons.IH sax_step_root show ?case by metis
qed simp

lemma delete_root:
  assumes "is_tree h t"
  shows "\<exists>h'. delete_node (label t) h = Some h' \<and> ln_live h' = ln_live h - set (nodes t)"
proof -
  obtain n us where t: "t = Node n us" by (cases t)
  have f: "family h n (map label us)" and d: "n \<notin> forest_nodes us"
    using assms represents_family [of h n us] by (auto simp: is_tree_def t)
  have "\<forall>u\<in>set us. shape h u"
    using assms represents_sub shape_represents by (metis is_tree_def t)
  then have "\<exists>h'. delete_loop (ln_down h n) h = Some h' \<and> ln_live h' = ln_live h - forest_nodes us"
    using delete_loop_forest [of h us] f follows_siblings [of h n "map label us"] by (simp add: family_def)
  then show ?thesis using assms d by (auto simp: delete_node_def delete_tree_def is_tree_def t)
qed

section \<open>The id map\<close>

lemma tour_nodes: "map snd (filter fst (tour t)) = nodes t"
proof (induction t rule: nodes.induct)
  case (1 n ts)
  then have "map (\<lambda>t. map snd (filter fst (tour t))) ts = map nodes ts" by simp
  then show ?case by (simp add: filter_concat map_concat comp_def cong: map_cong)
qed

lemma visits_in: "is_tree h t \<Longrightarrow> part_of s t \<Longrightarrow> visits h (label s) = Some (tour s)"
  by (simp add: visits_def iter_visits_part)

lemma id_visits:
  "i \<noteq> [] \<Longrightarrow> get_node (fold (id_visit cx h) vs d) i =
     (case get_node d i of Some n \<Rightarrow> Some n
      | None \<Rightarrow> find (\<lambda>n. get_attribute cx h n ''id'' = Some i) (map snd (filter fst vs)))"
proof (induction vs arbitrary: d)
  case Nil
  then show ?case by (simp split: option.split)
next
  case (Cons v vs)
  have "get_node (id_visit cx h v d) i =
      (case get_node d i of Some n \<Rightarrow> Some n
       | None \<Rightarrow> if fst v \<and> get_attribute cx h (snd v) ''id'' = Some i then Some (snd v) else None)"
    using Cons.prems by (auto simp: id_visit_def get_node_def split: option.splits)
  then show ?case using Cons by (auto split: option.splits)
qed

lemma id_visits_root [simp]: "dc_root (fold (id_visit cx h) vs d) = dc_root d"
  by (induction vs arbitrary: d) (auto simp: id_visit_def split: option.splits)

lemma test_visits_same [simp]:
  "dc_root (fold (test_visit cx h) vs d) = dc_root d" "dc_id2node (fold (test_visit cx h) vs d) = dc_id2node d"
  by (induction vs arbitrary: d) (auto simp: test_visit_def Let_def split: option.splits)

lemma nth_child_returns:
  "siblings h p ks \<Longrightarrow> \<exists>x. nth_child_loop h name (first_of ks) k = Some x \<and> (\<forall>m. x = Some m \<longrightarrow> m \<in> set ks)"
proof (induction ks arbitrary: k)
  case Nil
  then show ?case by (subst nth_child_loop.simps) simp
next
  case (Cons m ks)
  then show ?case by (subst nth_child_loop.simps) fastforce
qed

lemma locate_returns:
  "is_tree h t \<Longrightarrow> (\<forall>m. x = Some m \<longrightarrow> m \<in> set (nodes t)) \<Longrightarrow>
   \<exists>y. locate_loop h cs x = Some y \<and> (\<forall>m. y = Some m \<longrightarrow> m \<in> set (nodes t))"
proof (induction cs arbitrary: x)
  case (Cons c cs)
  show ?case
  proof (cases x)
    case (Some n)
    then obtain ks where ks: "(n, ks) \<in> set (kids t)" using Cons.prems by (auto simp: nodes_kids)
    then have fam: "family h n ks" using Cons.prems(1) by (auto simp: is_tree_def represents_def)
    let ?name = "takeWhile (\<lambda>c. c \<noteq> CHR ''['') c" and ?k = "scan_index (dropWhile (\<lambda>c. c \<noteq> CHR ''['') c) 1"
    from fam obtain z where z: "get_nth_child h n ?name ?k = Some z" "\<forall>m. z = Some m \<longrightarrow> m \<in> set ks"
      using nth_child_returns [of h n ks ?name ?k] by (auto simp: family_def get_nth_child_def)
    then have "\<forall>m. z = Some m \<longrightarrow> m \<in> set (nodes t)" using kids_in_nodes [OF ks] by blast
    from Cons.IH [OF Cons.prems(1) this] z(1) Some show ?thesis by (simp add: Let_def)
  qed simp
qed simp

lemma custom_attributes_read:
  assumes "is_tree h t" "dc_root d = Some (label t)"
  shows "\<exists>d'. read_custom_attributes cx h d = Some d' \<and> dc_root d' = dc_root d \<and> dc_id2node d' = dc_id2node d"
proof -
  let ?d = "d\<lparr>dc_custom_tests := Map.empty\<rparr>"
  have root: "get_root h (label t) = Some (label t)"
    using assms(1) by (subst get_root.simps) (simp add: is_tree_def)
  obtain y where y: "doc_locate h ?d ''/smil/head/customAttributes'' = Some y" "\<forall>m. y = Some m \<longrightarrow> m \<in> set (nodes t)"
  proof (cases "tl (tokens_vector ''/smil/head/customAttributes'' ''/'')")
    case Nil
    then show thesis using that [of "Some (label t)"] assms(2) root by (simp add: doc_locate_def locate_node_def)
  next
    case (Cons name cs)
    obtain z where "locate_loop h cs (Some (label t)) = Some z" "\<forall>m. z = Some m \<longrightarrow> m \<in> set (nodes t)"
      using locate_returns [OF assms(1), of "Some (label t)" cs] by auto
    then show thesis using that Cons assms(2) root
      by (cases "d_local (dm_node h (label t)) = name") (auto simp: doc_locate_def locate_node_def)
  qed
  show ?thesis
  proof (cases y)
    case None
    then show ?thesis using y assms(2) by (simp add: read_custom_attributes_def Let_def)
  next
    case (Some m)
    then obtain s where "part_of s t" "label s = m" using y(2) part_exists by blast
    then show ?thesis using y(1) Some assms visits_in [of h t s]
      by (simp add: read_custom_attributes_def Let_def)
  qed
qed

lemma set_root_tree:
  assumes "is_tree h t" "dc_root d = None \<or> \<not> dc_root_owned d"
  shows "\<exists>d'. set_root cx (Some (label t)) d h = Some (d', h) \<and> dc_root d' = Some (label t)
    \<and> (\<forall>i. get_node d' i = (if i = [] then None else find (\<lambda>n. get_attribute cx h n ''id'' = Some i) (nodes t)))"
proof -
  let ?d = "d\<lparr>dc_root_owned := True, dc_root := Some (label t), dc_id2node := Map.empty\<rparr>"
  let ?e = "fold (id_visit cx h) (tour t) ?d"
  have b: "build_id2node_map cx h (d\<lparr>dc_root_owned := True, dc_root := Some (label t)\<rparr>) = Some ?e"
    using visits_in [OF assms(1) part_of.self] by (simp add: build_id2node_map_def Let_def)
  from custom_attributes_read [OF assms(1), of ?e cx] obtain d' where d': "read_custom_attributes cx h ?e = Some d'"
    "dc_root d' = Some (label t)" "dc_id2node d' = dc_id2node ?e" by auto
  have "get_node d' i = (if i = [] then None else find (\<lambda>n. get_attribute cx h n ''id'' = Some i) (nodes t))" for i
    using id_visits [of i cx h "tour t" ?d] d'(3) by (auto simp: tour_nodes get_node_def)
  then show ?thesis using b d' assms(2) by (auto simp: set_root_def delete_opt_def)
qed

lemma builder_deleted:
  assumes "builder_ok tb"
  shows "\<exists>h. delete_opt (tb_root tb) (tb_dom tb) = Some h"
proof (cases "tb_root tb")
  case (Some r)
  then obtain t where "is_tree (tb_dom tb) t" "label t = r" using assms by (auto simp: builder_ok_def)
  then show ?thesis using delete_root Some by (fastforce simp: delete_opt_def)
qed (simp add: delete_opt_def)

text \<open>
  C12: When the builder can follow the events of the parser, the factory returns: a document exactly
  when the text is well formed and the root is a smil element, and a null pointer otherwise. The nodes
  of the document form a tree under its root, and looking up an identifier finds the first node in
  document order with it.
\<close>

theorem document_created:
  assumes "build_tree_from_str parse src (new_builder h0) = Some tb"
  shows "\<exists>res h. create_from_string parse src h0 = Some (res, h) \<and>
    (case res of
       None \<Rightarrow> \<not> (tb_well_formed tb \<and> assert_root_tag ''smil'' tb)
     | Some d \<Rightarrow> tb_well_formed tb \<and> assert_root_tag ''smil'' tb
         \<and> (\<exists>t. is_tree h t \<and> dc_root d = Some (label t) \<and> d_local (dm_node h (label t)) = ''smil''
         \<and> (\<forall>i. get_node d i = (if i = [] then None
              else find (\<lambda>n. get_attribute (doc_context (tb_doc tb)) h n ''id'' = Some i) (nodes t)))))"
proof -
  obtain events ok where p: "parse src = (events, ok)" by fastforce
  then obtain tb1 where tb1: "foldm sax_step events (new_builder h0) = Some tb1" "tb = tb1\<lparr>tb_well_formed := ok\<rparr>"
    using assms by (auto simp: build_tree_from_str_def)
  have ok: "builder_ok tb"
    using sax_events_ok [OF tb1(1) new_builder_ok] builder_ok_cong [of tb tb1] tb1(2) by simp
  have fin: "create_from_string parse src h0 = finish_document tb" using assms by (simp add: create_from_string_def)
  show ?thesis
  proof (cases "tb_well_formed tb \<and> assert_root_tag ''smil'' tb")
    case True
    then obtain r where r: "tb_root tb = Some r" "d_local (dm_node (tb_dom tb) r) = ''smil''"
      by (auto simp: assert_root_tag_def split: option.splits)
    with ok obtain t where t: "is_tree (tb_dom tb) t" "label t = r" by (auto simp: builder_ok_def)
    have "dc_root (tb_doc tb) = None"
      using sax_events_root [OF tb1(1)] tb1(2) by (simp add: new_builder_def new_document_def)
    from set_root_tree [OF t(1) disjI1 [OF this]] obtain d where
      "set_root (doc_context (tb_doc tb)) (Some r) (tb_doc tb) (tb_dom tb) = Some (d, tb_dom tb)" "dc_root d = Some (label t)"
      "\<forall>i. get_node d i = (if i = [] then None
         else find (\<lambda>n. get_attribute (doc_context (tb_doc tb)) (tb_dom tb) n ''id'' = Some i) (nodes t))"
      using t(2) by metis
    then show ?thesis using True r t by (auto simp: fin finish_document_def tb_detach_def)
  next
    case False
    then show ?thesis using builder_deleted [OF ok] by (auto simp: fin finish_document_def)
  qed
qed

definition example_events :: "string \<Rightarrow> sax_event list \<times> bool" where
  "example_events s =
     ([StartElement ([], ''smil'') [], StartElement ([], ''body'') [(([], ''id''), ''b'')],
       StartElement ([], ''par'') [(([], ''id''), ''b'')], Characters '' '', EndElement ([], ''par''),
       EndElement ([], ''body''), EndElement ([], ''smil'')], True)"

theorem document_created_witness:
  "\<exists>d h. create_from_string example_events [] empty_dom = Some (Some d, h) \<and> get_node d ''b'' = Some 1"
proof -
  have c: "map_option (\<lambda>(d, h). map_option (\<lambda>d. get_node d ''b'') d) (create_from_string example_events [] empty_dom) = Some (Some (Some 1))"
    by code_simp
  then obtain tb where tb: "build_tree_from_str example_events [] (new_builder empty_dom) = Some tb"
    by (auto simp: create_from_string_def Option.bind_eq_Some_conv)
  show ?thesis using document_created [OF tb] c by (auto split: option.splits)
qed

section \<open>Templates\<close>

datatype piece = Text string | Expr string

fun render :: "piece list \<Rightarrow> string" where
  "render [] = []"
| "render (Text s # ps) = s @ render ps"
| "render (Expr e # ps) = CHR 0x7B # e @ CHR 0x7D # render ps"

fun piece_value :: "(string \<Rightarrow> string) \<Rightarrow> piece \<Rightarrow> string" where
  "piece_value eval (Text s) = s"
| "piece_value eval (Expr e) = eval e"

fun piece_text :: "piece \<Rightarrow> string" where
  "piece_text (Text s) = s"
| "piece_text (Expr e) = e"

definition brace_free :: "string \<Rightarrow> bool" where
  "brace_free s \<longleftrightarrow> CHR 0x7B \<notin> set s \<and> CHR 0x7D \<notin> set s"

definition depend :: "nat \<Rightarrow> piece \<Rightarrow> document \<Rightarrow> document" where
  "depend n p d = (case p of Text s \<Rightarrow> d | Expr e \<Rightarrow> register_dependence n e d)"

lemma avt_pieces:
  "brace_free pre \<Longrightarrow> \<forall>p \<in> set ps. brace_free (piece_text p) \<Longrightarrow>
   avt_loop eval n rv (pre @ render ps) d = (Some (rv @ pre @ concat (map (piece_value eval) ps)), fold (depend n) ps d)"
proof (induction ps arbitrary: pre rv d rule: render.induct)
  case 1
  then show ?case by (subst avt_loop.simps) (simp add: brace_free_def find_char_None)
next
  case (2 s ps)
  have "brace_free (pre @ s)" using 2(2,3) by (simp add: brace_free_def)
  from 2(1) [OF this, of rv d] 2(3) show ?case by (simp add: depend_def)
next
  case (3 e ps)
  have b: "CHR 0x7B \<notin> set pre" "CHR 0x7D \<notin> set (pre @ CHR 0x7B # e)"
    using 3(2,3) by (simp_all add: brace_free_def)
  have o: "find_char (CHR 0x7B) (pre @ CHR 0x7B # e @ CHR 0x7D # render ps) = Some (length pre)"
    using b(1) by (rule find_char_split)
  have c: "find_char (CHR 0x7D) (pre @ CHR 0x7B # e @ CHR 0x7D # render ps) = Some (length pre + length e + 1)"
    using find_char_split [OF b(2), of "render ps"] by simp
  have "avt_loop eval n (rv @ pre @ eval e) (render ps) (register_dependence n e d)
      = (Some (rv @ pre @ eval e @ concat (map (piece_value eval) ps)), fold (depend n) ps (register_dependence n e d))"
    using 3(1) [of "[]" "rv @ pre @ eval e" "register_dependence n e d"] 3(3) by (simp add: brace_free_def)
  then show ?case by (subst avt_loop.simps) (simp add: o c depend_def Let_def)
qed

lemma depend_mono: "set (dc_node2xpaths d) \<subseteq> set (dc_node2xpaths (depend n p d))"
  by (auto simp: depend_def register_dependence_def split: piece.split)

lemma depends_in:
  "set (dc_node2xpaths (fold (depend n) ps d)) = set (dc_node2xpaths d) \<union> {(n, e) | e. Expr e \<in> set ps}"
proof (induction ps arbitrary: d)
  case (Cons p ps)
  then show ?case by (auto simp: depend_def register_dependence_def split: piece.splits)
qed simp

lemma depends_state: "dc_has_state (fold (depend n) ps d) = dc_has_state d"
  by (induction ps arbitrary: d) (auto simp: depend_def register_dependence_def split: piece.split)



section \<open>White space\<close>

fun single_blanks :: "bool \<Rightarrow> string \<Rightarrow> bool" where
  "single_blanks b [] = True"
| "single_blanks b (c # s) =
     (if is_ascii c \<and> is_cspace c then \<not> b \<and> c = CHR '' '' \<and> single_blanks True s else single_blanks False s)"

lemma blank_space: "is_ascii (CHR '' '') \<and> is_cspace (CHR '' '')"
  by code_simp

lemma collapse_loop_single: "single_blanks b (collapse_loop b s)"
  by (induction b s rule: collapse_loop.induct) (auto simp: blank_space)

lemma single_collapse: "single_blanks b s \<Longrightarrow> collapse_loop b s = s"
  by (induction b s rule: single_blanks.induct) (auto split: if_splits)

text \<open>
  Collapsing white space leaves no two blanks in a row and no other space character, keeps every
  character that is no space, and collapsing again changes nothing.
\<close>

theorem collapse_normal:
  "single_blanks False (collapse s) \<and> collapse (collapse s) = collapse s
   \<and> filter (\<lambda>c. \<not> (is_ascii c \<and> is_cspace c)) (collapse s) = filter (\<lambda>c. \<not> (is_ascii c \<and> is_cspace c)) s"
proof -
  have "filter (\<lambda>c. \<not> (is_ascii c \<and> is_cspace c)) (collapse_loop b s) = filter (\<lambda>c. \<not> (is_ascii c \<and> is_cspace c)) s" for b
    by (induction b s rule: collapse_loop.induct) (auto simp: blank_space)
  from this [of False] show ?thesis
    using collapse_loop_single [of False s] single_collapse [OF collapse_loop_single [of False s]] blank_space
    by (auto simp: collapse_def Let_def)
qed

end
