(* ===== verification/Test_Attrs.thy ===== *)
theory Test_Attrs
  imports Document "HOL-Library.AList"
begin

text \<open>
  Content control (smil2/test_attrs.cpp): the settings of the user and the decision whether an
  element is selected. The settings, globals of the program, are the record \<open>settings\<close>, whose maps
  are association lists; weights are rationals. The constants of the build are the record
  \<open>platform\<close>. \<open>None\<close> is a search that never ends.
\<close>

section \<open>Settings\<close>

record settings =
  se_tests :: "(string \<times> string) list"
  se_inited :: bool
  se_custom :: "(string \<times> bool) list"
  se_languages :: "(string \<times> rat) list"

record platform =
  pf_cpu :: string
  pf_os :: string
  pf_version :: string

definition get_test_attribute :: "settings \<Rightarrow> string \<Rightarrow> string" where
  "get_test_attribute se attr = (case map_of (se_tests se) attr of Some v \<Rightarrow> v | None \<Rightarrow> [])"

definition set_test :: "string \<Rightarrow> string \<Rightarrow> settings \<Rightarrow> settings" where
  "set_test attr v se = se\<lparr>se_tests := AList.update attr v (se_tests se)\<rparr>"

definition clear_languages :: "settings \<Rightarrow> settings" where
  "clear_languages se = se\<lparr>se_languages := []\<rparr>"

definition add_language :: "string \<Rightarrow> rat \<Rightarrow> settings \<Rightarrow> settings" where
  "add_language langname weight se = se\<lparr>se_languages := AList.update langname weight (se_languages se)\<rparr>"

definition component_uri :: "string \<Rightarrow> string" where
  "component_uri s = ''http://www.ambulantplayer.org/component/'' @ s"

fun join_blank :: "string list \<Rightarrow> string" where
  "join_blank [] = []"
| "join_blank [s] = s"
| "join_blank (s # ss) = s @ CHR '' '' # join_blank ss"

text \<open>The settings of components, once the map has an entry.\<close>

definition set_component :: "string \<Rightarrow> bool \<Rightarrow> settings \<Rightarrow> settings" where
  "set_component name enabled se =
     (let list = split_trim_list (get_test_attribute se ''systemComponent'') (CHR '' '');
          newlist = filter (\<lambda>c. c \<noteq> name) list @ (if enabled then [name] else [])
      in set_test ''systemComponent'' (join_blank newlist) se)"

definition set_default_tests_attrs :: "platform \<Rightarrow> settings \<Rightarrow> settings" where
  "set_default_tests_attrs pf se =
     (if se_inited se then se
      else let se = se\<lparr>se_inited := True\<rparr>;
               se = set_test ''systemAudioDesc'' ''on'' se;
               se = set_test ''systemBitrate'' ''56000'' se;
               se = set_test ''systemCaptions'' ''on'' se;
               se = set_test ''systemOverdubOrSubtitle'' ''overdub'' se;
               se = set_test ''systemCPU'' (pf_cpu pf) se;
               se = set_test ''systemLanguage'' ''en'' se;
               se = add_language ''en'' 1 se;
               se = set_test ''systemOperatingSystem'' (pf_os pf) se;
               se = set_test ''systemScreenSize'' ''1024X1280'' se;
               se = set_test ''systemScreenDepth'' ''32'' se;
               se = set_component (component_uri ''Ambulant'') True se;
               se = set_component (component_uri ''Version2.0'') True se;
               se = set_component (component_uri (''Version'' @ pf_version pf)) True se;
               se = set_component (component_uri (''Version'' @ pf_version pf @ ''Exact'')) True se
           in set_component (component_uri ''SeamlessPlayback'') True se)"

definition ensure_tests :: "platform \<Rightarrow> settings \<Rightarrow> settings" where
  "ensure_tests pf se = (if se_tests se = [] then set_default_tests_attrs pf se else se)"

definition set_current_system_component_value :: "platform \<Rightarrow> string \<Rightarrow> bool \<Rightarrow> settings \<Rightarrow> settings" where
  "set_current_system_component_value pf name enabled se = set_component name enabled (ensure_tests pf se)"

definition set_current_custom_test_value :: "string \<Rightarrow> bool \<Rightarrow> settings \<Rightarrow> settings" where
  "set_current_custom_test_value name v se = se\<lparr>se_custom := AList.update name v (se_custom se)\<rparr>"

definition get_current_custom_test_value :: "settings \<Rightarrow> string \<Rightarrow> bool" where
  "get_current_custom_test_value se name = (case map_of (se_custom se) name of Some b \<Rightarrow> b | None \<Rightarrow> False)"

text \<open>The buffer takes 31 characters.\<close>

definition set_current_screen_size :: "int \<Rightarrow> int \<Rightarrow> settings \<Rightarrow> settings" where
  "set_current_screen_size height width se =
     set_test ''systemScreenSize'' (take 31 (show_int height @ ''x'' @ show_int width)) se"

section \<open>Tests\<close>

definition atoi :: "string \<Rightarrow> int" where
  "atoi s = to_int (fst (strtol 10 s))"

definition rfind :: "char \<Rightarrow> string \<Rightarrow> nat option" where
  "rfind c s = map_option (\<lambda>i. length s - 1 - i) (find_from (\<lambda>x. x = c) (rev s) 0)"

text \<open>
  \<open>substr(0, dashPos-1)\<close>: a dash at the front makes the length the largest number of its type,
  which takes the whole string.
\<close>

partial_function (option) language_weight :: "(string \<times> rat) list \<Rightarrow> string \<Rightarrow> rat option" where
  "language_weight langs lang =
     (case map_of langs lang of
        Some w \<Rightarrow> Some w
      | None \<Rightarrow>
          (case rfind (CHR ''-'') lang of
             None \<Rightarrow> Some 0
           | Some dash \<Rightarrow> language_weight langs (if dash = 0 then lang else take (dash - 1) lang)))"

declare language_weight.simps [code]

definition get_system_language_weight :: "settings \<Rightarrow> string \<Rightarrow> rat option" where
  "get_system_language_weight se lang = language_weight (se_languages se) lang"

definition test_system_language :: "settings \<Rightarrow> string \<Rightarrow> bool option" where
  "test_system_language se v = map_option (\<lambda>w. 0 < w) (get_system_language_weight se v)"

definition test_exact_str_list_attr :: "settings \<Rightarrow> string \<Rightarrow> string \<Rightarrow> bool" where
  "test_exact_str_list_attr se attr v =
     (let s = get_test_attribute se attr in
      if s = [] then False else v \<in> set (split_trim_list s (CHR '' '')))"

definition test_system_component :: "settings \<Rightarrow> string \<Rightarrow> bool" where
  "test_system_component se v =
     (let s = get_test_attribute se ''systemComponent'' in
      if s = [] then False else v \<in> set (split_trim_list s (CHR '' '')))"

definition test_system_required :: "(string \<Rightarrow> bool) \<Rightarrow> string \<Rightarrow> bool" where
  "test_system_required supported_prefix v = list_all supported_prefix (split_trim_list v (CHR ''+''))"

definition test_system_bitrate :: "settings \<Rightarrow> string \<Rightarrow> bool" where
  "test_system_bitrate se v =
     (let s = get_test_attribute se ''systemBitrate'' in if s = [] then False else atoi v \<le> atoi s)"

definition test_on_off_attr :: "settings \<Rightarrow> string \<Rightarrow> string \<Rightarrow> bool" where
  "test_on_off_attr se attr v =
     (let s = get_test_attribute se attr in if s = [] \<or> (s \<noteq> ''on'' \<and> s \<noteq> ''off'') then False else s = v)"

definition test_exact_str_attr :: "settings \<Rightarrow> string \<Rightarrow> string \<Rightarrow> bool" where
  "test_exact_str_attr se attr v = (let s = get_test_attribute se attr in if s = [] then False else s = v)"

definition test_system_screen_depth :: "settings \<Rightarrow> string \<Rightarrow> bool" where
  "test_system_screen_depth se v =
     (let s = get_test_attribute se ''systemScreenDepth'' in if s = [] then False else atoi v \<le> atoi s)"

definition test_system_screen_size :: "settings \<Rightarrow> string \<Rightarrow> bool" where
  "test_system_screen_size se v =
     (let s = get_test_attribute se ''systemScreenSize'' in
      if s = [] then False
      else case (tokens_vector s ''Xx'', tokens_vector v ''Xx'') of
             ([h, w], [h', w']) \<Rightarrow> atoi h' < atoi h \<and> atoi w' < atoi w
           | _ \<Rightarrow> False)"

definition test_custom_id :: "settings \<Rightarrow> (string \<rightharpoonup> custom_test) \<Rightarrow> string \<Rightarrow> bool" where
  "test_custom_id se tests i =
     (case map_of (se_custom se) i of
        Some b \<Rightarrow>
          (case tests i of
             None \<Rightarrow> b
           | Some t \<Rightarrow> if ct_override t then b else ct_state t)
      | None \<Rightarrow> (case tests i of None \<Rightarrow> False | Some t \<Rightarrow> ct_state t))"

definition test_custom_attribute :: "settings \<Rightarrow> (string \<rightharpoonup> custom_test) \<Rightarrow> string \<Rightarrow> bool" where
  "test_custom_attribute se tests v =
     (let s = trim_cstr v in
      if s = [] then True
      else list_all (\<lambda>i. test_custom_id se tests (to_c_lower i)) (split_trim_list s (CHR '' '')))"

section \<open>Selection\<close>

text \<open>One test of an attribute with an alternative name: \<open>None\<close> is a test that does not end.\<close>

definition check :: "(string \<Rightarrow> string option) \<Rightarrow> string list \<Rightarrow> (string \<Rightarrow> bool option) \<Rightarrow> bool option" where
  "check attr names test =
     (case filter (\<lambda>n. attr n \<noteq> None) names of
        [] \<Rightarrow> Some True
      | n # _ \<Rightarrow> test (the (attr n)))"

fun all_tests :: "bool option list \<Rightarrow> bool option" where
  "all_tests [] = Some True"
| "all_tests (t # ts) = (case t of None \<Rightarrow> None | Some b \<Rightarrow> if b then all_tests ts else Some False)"

definition selected_in ::
    "settings \<Rightarrow> (string \<Rightarrow> bool) \<Rightarrow> (string \<rightharpoonup> custom_test) \<Rightarrow> (string \<Rightarrow> string option) \<Rightarrow> bool option" where
  "selected_in se supported_prefix tests attr = all_tests
     [check attr [''systemLanguage'', ''system-language''] (test_system_language se),
      check attr [''systemAudioDesc''] (Some \<circ> test_on_off_attr se ''systemAudioDesc''),
      check attr [''systemBitrate'', ''system-bitrate''] (Some \<circ> test_system_bitrate se),
      check attr [''systemCaptions'', ''system-captions''] (Some \<circ> test_on_off_attr se ''systemCaptions''),
      check attr [''systemCPU''] (Some \<circ> test_exact_str_attr se ''systemCPU''),
      check attr [''systemOperatingSystem''] (Some \<circ> test_exact_str_attr se ''systemOperatingSystem''),
      check attr [''systemOverdubOrSubtitle'', ''system-overdub-or-caption'']
        (Some \<circ> test_exact_str_attr se ''systemOverdubOrSubtitle''),
      check attr [''systemScreenDepth'', ''system-screen_depth''] (Some \<circ> test_system_screen_depth se),
      check attr [''systemScreenSize'', ''system-screen-size''] (Some \<circ> test_system_screen_size se),
      check attr [''systemComponent''] (Some \<circ> test_system_component se),
      check attr [''customTest''] (Some \<circ> test_custom_attribute se tests),
      check attr [''systemRequired'', ''system-required''] (Some \<circ> test_system_required supported_prefix)]"

text \<open>The constructor of a test helper sets the defaults when there are no settings.\<close>

definition selected ::
    "platform \<Rightarrow> settings \<Rightarrow> document \<Rightarrow> (string \<Rightarrow> string option) \<Rightarrow> bool option \<times> settings" where
  "selected pf se d attr =
     (let se = ensure_tests pf se in (selected_in se (doc_supported_prefix d) (dc_custom_tests d) attr, se))"

definition load_test :: "string \<Rightarrow> (string \<Rightarrow> string option) \<Rightarrow> settings \<Rightarrow> settings" where
  "load_test tag attr se =
     (if tag = ''systemTest'' \<or> tag = ''property'' then
        (case (attr ''name'', attr ''value'') of
           (Some name, Some v) \<Rightarrow>
             let se = set_test name v se
             in if name = ''systemLanguage'' then add_language v 1 (clear_languages se) else se
         | _ \<Rightarrow> se)
      else if tag = ''customTest'' then
        let sn = trim_cstr (attr_text (attr ''name'')); sv = trim_cstr (attr_text (attr ''value''))
        in if sn \<noteq> [] \<and> sv \<noteq> [] then set_current_custom_test_value (to_c_lower sn) (sv = ''true'') se else se
      else se)"

text \<open>The elements of a settings file in document order, or \<open>None\<close> when it does not parse.\<close>

definition load_test_attrs ::
    "platform \<Rightarrow> (string \<times> (string \<Rightarrow> string option)) list option \<Rightarrow> settings \<Rightarrow> bool \<times> settings" where
  "load_test_attrs pf elems se =
     (case elems of
        None \<Rightarrow> (False, se)
      | Some es \<Rightarrow>
          let se = set_default_tests_attrs pf (se\<lparr>se_tests := [], se_inited := False, se_custom := []\<rparr>)
          in (True, fold (\<lambda>(tag, attr). load_test tag attr) es se))"

section \<open>What the state engine asks\<close>

definition smil_bitrate :: "settings \<Rightarrow> int" where
  "smil_bitrate se = atoi (get_test_attribute se ''systemBitrate'')"

definition smil_screen_depth :: "settings \<Rightarrow> int" where
  "smil_screen_depth se = atoi (get_test_attribute se ''systemScreenDepth'')"

definition smil_screen :: "settings \<Rightarrow> (string list \<Rightarrow> string) \<Rightarrow> int" where
  "smil_screen se pick =
     (let s = get_test_attribute se ''systemScreenSize''; v = tokens_vector s ''Xx''
      in if s = [] \<or> length v \<noteq> 2 then 0 else atoi (pick v))"

definition smil_screen_height :: "settings \<Rightarrow> int" where
  "smil_screen_height se = smil_screen se (\<lambda>v. v ! 0)"

definition smil_screen_width :: "settings \<Rightarrow> int" where
  "smil_screen_width se = smil_screen se (\<lambda>v. v ! 1)"

definition no_settings :: settings where
  "no_settings = \<lparr>se_tests = [], se_inited = False, se_custom = [], se_languages = []\<rparr>"

section \<open>The search for a language\<close>

lemma rfind_None: "c \<notin> set s \<Longrightarrow> rfind c s = None"
proof -
  assume "c \<notin> set s"
  then have "c \<notin> set (rev s)" by simp
  from takeWhile_all [OF this] show ?thesis by (simp add: rfind_def find_from_def del: dropWhile_eq_Nil_conv)
qed

lemma rfind_last: "c \<notin> set b \<Longrightarrow> rfind c (a @ c # b) = Some (length a)"
proof -
  assume "c \<notin> set b"
  then have "c \<notin> set (rev b)" by simp
  from takeWhile_to [OF this, of "rev a"] show ?thesis by (simp add: rfind_def find_from_def)
qed

lemma language_step:
  "map_of langs (a @ CHR ''-'' # b) = None \<Longrightarrow> a \<noteq> [] \<Longrightarrow> CHR ''-'' \<notin> set b \<Longrightarrow>
   language_weight langs (a @ CHR ''-'' # b) = language_weight langs (butlast a)"
  by (subst language_weight.simps) (simp add: rfind_last butlast_conv_take)

lemma language_ends: "lang = [] \<or> hd lang \<noteq> CHR ''-'' \<Longrightarrow> language_weight langs lang \<noteq> None"
proof (induction lang rule: length_induct)
  case (1 lang)
  show ?case
  proof (cases "map_of langs lang = None \<and> CHR ''-'' \<in> set lang")
    case False
    then show ?thesis by (subst language_weight.simps) (auto simp: rfind_None split: option.split)
  next
    case True
    then obtain a b where ab: "lang = a @ CHR ''-'' # b" "CHR ''-'' \<notin> set b" by (meson split_list_last)
    then have a: "a \<noteq> []" using 1(2) by auto
    have "butlast a = [] \<or> hd (butlast a) \<noteq> CHR ''-''" using 1(2) ab(1) a by (cases a) auto
    moreover have "length (butlast a) < length lang" using ab(1) by simp
    ultimately have "language_weight langs (butlast a) \<noteq> None" using 1(1) by blast
    then show ?thesis using language_step [of langs a b] True ab a by simp
  qed
qed

definition stuck_language :: "(string \<times> rat) list \<Rightarrow> string \<Rightarrow> bool" where
  "stuck_language langs lang \<longleftrightarrow>
     map_of langs lang = None \<and> (\<exists>t. lang = CHR ''-'' # t \<and> CHR ''-'' \<notin> set t)"

lemma stuck_rfind: "stuck_language langs lang \<Longrightarrow> rfind (CHR ''-'') lang = Some 0"
  using rfind_last [of "CHR ''-''" _ "[]"] by (auto simp: stuck_language_def)

lemma stuck_hangs: "language_weight langs lang = Some w \<Longrightarrow> \<not> stuck_language langs lang"
proof (rule language_weight.raw_induct [where P = "\<lambda>langs lang w. \<not> stuck_language langs lang"])
  fix f langs lang and w :: rat
  assume IH: "\<And>langs lang w. f langs lang = Some w \<Longrightarrow> \<not> stuck_language langs lang"
    and eq: "(case map_of langs lang of
        Some w \<Rightarrow> Some w
      | None \<Rightarrow> (case rfind (CHR ''-'') lang of
             None \<Rightarrow> Some 0
           | Some dash \<Rightarrow> f langs (if dash = 0 then lang else take (dash - 1) lang))) = Some w"
  show "\<not> stuck_language langs lang"
  proof
    assume s: "stuck_language langs lang"
    then have "map_of langs lang = None" by (simp add: stuck_language_def)
    then have "f langs lang = Some w" using eq stuck_rfind [OF s] by simp
    with IH s show False by blast
  qed
qed

text \<open>
  C20: the search for the weight of a language ends for every language that does not begin with a
  dash; it never ends for one that has its only dash there and no weight of its own.
\<close>

theorem language_search:
  "(lang = [] \<or> hd lang \<noteq> CHR ''-'' \<longrightarrow> get_system_language_weight se lang \<noteq> None)
   \<and> (stuck_language (se_languages se) lang \<longrightarrow> get_system_language_weight se lang = None)"
  using language_ends [of lang "se_languages se"] stuck_hangs [of "se_languages se" lang]
  unfolding get_system_language_weight_def by (cases "language_weight (se_languages se) lang") blast+

theorem language_search_witness:
  "get_system_language_weight (add_language ''en'' 1 (clear_languages no_settings)) ''-'' = None"
  using language_search [of "''-''" "add_language ''en'' 1 (clear_languages no_settings)"]
  by (simp add: stuck_language_def add_language_def clear_languages_def)

text \<open>The language of a dialect is cut one letter too short, so that it is not found.\<close>

lemma dialect_not_found: "language_weight [(''nl'', 1)] ''nl-be'' = Some 0"
  by code_simp

text \<open>A screen of exactly the size asked for is refused.\<close>

lemma same_screen_size_refused:
  "\<not> test_system_screen_size se (get_test_attribute se ''systemScreenSize'')"
  by (auto simp: test_system_screen_size_def Let_def split: list.split)

section \<open>Components\<close>

definition component_name :: "string \<Rightarrow> bool" where
  "component_name c \<longleftrightarrow> c \<noteq> [] \<and> CHR '' '' \<notin> set c \<and> trim c = c"

lemma join_blank_alt: "join_blank (s # ss) = s @ concat (map (\<lambda>c. CHR '' '' # c) ss)"
  by (induction ss arbitrary: s) simp_all

lemma split_join_blank:
  assumes "\<forall>c \<in> set cs. component_name c"
  shows "split_trim_list (join_blank cs) (CHR '' '') = cs"
proof (cases cs)
  case Nil
  then show ?thesis by (simp add: split_trim_list_tokens) code_simp
next
  case (Cons c ds)
  then have "tokens_vector (join_blank cs) '' '' = cs"
    using assms tokens_joined [of ds "CHR '' ''" c] by (simp add: join_blank_alt component_name_def)
  moreover have "map trim cs = cs" "filter (\<lambda>e. e \<noteq> []) cs = cs"
    using assms by (auto simp: component_name_def intro: map_idI)
  ultimately show ?thesis by (simp add: split_trim_list_tokens)
qed

lemma trim_again: "trim (trim s) = trim s"
proof -
  have "strip P t = t" if "t \<noteq> [] \<longrightarrow> \<not> P (hd t) \<and> \<not> P (last t)" for P and t :: string
  proof (cases t)
    case (Cons c r)
    have keep: "dropWhile P u = u" if "u \<noteq> [] \<longrightarrow> \<not> P (hd u)" for u
      using that by (cases u) simp_all
    have "dropWhile P t = t" using that Cons by (intro keep) simp
    moreover have "dropWhile P (rev t) = rev t" using that Cons hd_rev [of t] by (intro keep) (metis list.distinct(1))
    ultimately show ?thesis by (simp only: strip_def rev_rev_ident)
  qed (simp add: strip_def)
  then have "strip (\<lambda>c. c \<in> set space_chars) (trim s) = trim s"
    unfolding trim_strip using strip_hd strip_last by blast
  then show ?thesis by (simp only: trim_strip)
qed

lemma split_component_names: "c \<in> set (split_trim_list s (CHR '' '')) \<Longrightarrow> component_name c"
proof -
  assume "c \<in> set (split_trim_list s (CHR '' ''))"
  then obtain t where t: "t \<in> set (tokens_vector s '' '')" "c = trim t" "c \<noteq> []" by (auto simp: split_trim_list_tokens)
  then have "CHR '' '' \<notin> set t" using tokens_vector_no_delims [of t s "'' ''"] by auto
  with t show ?thesis using set_trim [of t] trim_again [of t] by (auto simp: component_name_def)
qed

lemma get_set_test: "get_test_attribute (set_test a v se) b = (if a = b then v else get_test_attribute se b)"
  by (simp add: get_test_attribute_def set_test_def update_conv')

lemma test_component_list:
  "test_system_component se m \<longleftrightarrow> m \<in> set (split_trim_list (get_test_attribute se ''systemComponent'') (CHR '' ''))"
proof -
  have "split_trim_list [] (CHR '' '') = []" by code_simp
  then show ?thesis by (simp add: test_system_component_def Let_def)
qed

text \<open>
  Setting a component makes the test for it give the value set and changes no other component.
\<close>

theorem component_set:
  assumes "component_name name"
  shows "test_system_component (set_component name b se) m = (if m = name then b else test_system_component se m)"
proof -
  let ?l = "split_trim_list (get_test_attribute se ''systemComponent'') (CHR '' '')"
  let ?n = "filter (\<lambda>c. c \<noteq> name) ?l @ (if b then [name] else [])"
  have "\<forall>c \<in> set ?n. component_name c" using assms split_component_names by auto
  then have "split_trim_list (join_blank ?n) (CHR '' '') = ?n" by (rule split_join_blank)
  then show ?thesis
    unfolding test_component_list set_component_def Let_def get_set_test by auto
qed

theorem component_set_witness:
  "\<not> test_system_component (set_component ''a'' False (set_component ''a'' True no_settings)) ''a''"
proof -
  have "component_name ''a''" by code_simp
  from component_set [OF this, of False "set_component ''a'' True no_settings" "''a''"] show ?thesis by simp
qed

end
