(* ===== verification/Schema.thy ===== *)
theory Schema
  imports Time_Graph
begin

text \<open>
  The schema (common/schema.cpp): the names of the elements by their kind.
\<close>

definition time_containers :: "string list" where
  "time_containers = [''body'', ''seq'', ''par'', ''excl'']"

definition discrete_leafs :: "string list" where
  "discrete_leafs = [''text'', ''img'', ''ref'', ''brush'', ''smilText'']"

definition continuous_leafs :: "string list" where
  "continuous_leafs = [''audio'', ''animation'', ''video'', ''textstream'', ''area'']"

definition animate_elements :: "string list" where
  "animate_elements = [''animate'', ''animateColor'', ''animateMotion'', ''set'']"

definition layout_elements :: "string list" where
  "layout_elements = [''root-layout'', ''topLayout'', ''region'']"

definition statecommand_elements :: "string list" where
  "statecommand_elements = [''setvalue'', ''newvalue'', ''delvalue'', ''send'']"

definition prefetch_elements :: "string list" where
  "prefetch_elements = [''prefetch'']"

definition is_time_element :: "string \<Rightarrow> bool" where
  "is_time_element tag \<longleftrightarrow>
     tag \<in> set (time_containers @ discrete_leafs @ continuous_leafs @ animate_elements
       @ statecommand_elements @ prefetch_elements)"

definition is_discrete :: "string \<Rightarrow> bool" where
  "is_discrete tag \<longleftrightarrow> tag \<in> set (discrete_leafs @ statecommand_elements)"

definition is_continuous :: "string \<Rightarrow> bool" where
  "is_continuous tag \<longleftrightarrow> tag \<in> set (continuous_leafs @ animate_elements)"

definition is_animation :: "string \<Rightarrow> bool" where
  "is_animation tag \<longleftrightarrow> tag \<in> set animate_elements"

definition is_statecommand :: "string \<Rightarrow> bool" where
  "is_statecommand tag \<longleftrightarrow> tag \<in> set statecommand_elements"

definition is_prefetch :: "string \<Rightarrow> bool" where
  "is_prefetch tag \<longleftrightarrow> tag \<in> set prefetch_elements"

definition get_time_type :: "string \<Rightarrow> time_container_type" where
  "get_time_type tag =
     (if tag = ''seq'' \<or> tag = ''body'' then tc_seq
      else if tag = ''par'' then tc_par
      else if tag = ''excl'' then tc_excl
      else tc_none)"

fun time_container_type_as_str :: "time_container_type \<Rightarrow> string" where
  "time_container_type_as_str tc_par = ''par''"
| "time_container_type_as_str tc_seq = ''seq''"
| "time_container_type_as_str tc_excl = ''excl''"
| "time_container_type_as_str tc_none = ''none''"

datatype layout_type = l_none | l_layout | l_rootlayout | l_toplayout | l_region | l_regpoint | l_media

definition get_layout_type :: "string \<Rightarrow> layout_type" where
  "get_layout_type tag =
     (if tag = ''layout'' then l_layout
      else if tag = ''root-layout'' then l_rootlayout
      else if tag = ''topLayout'' then l_toplayout
      else if tag = ''region'' then l_region
      else if tag = ''regPoint'' then l_regpoint
      else if is_discrete tag \<or> is_continuous tag then l_media
      else l_none)"

end
