(* ===== verification/Timegraph.thy ===== *)
theory Timegraph
  imports Schema Excl Test_Attrs
begin

text \<open>
  The construction of the time graph from a document (smil2/timegraph.cpp): a walk over the document
  with a stack of open time containers and stacks of switches, then the priorities of "excl"
  elements, the sync rules, the timers and the rules for out transitions. What the walk reads is the
  record \<open>source\<close>; the maps and flags it fills stand beside the graph in the record \<open>building\<close>.
  \<open>None\<close> is a null dereference, a read past the end or a search that does not end.
\<close>

section \<open>The document and the graph under construction\<close>

text \<open>
  \<open>so_raw\<close> is the uninitialised record of time attributes; \<open>so_timer\<close> tells whether the context has a timer.
\<close>

record source =
  so_dom :: dom
  so_doc :: document
  so_cx :: node_context
  so_platform :: platform
  so_floats :: float_lib
  so_transition :: "string \<Rightarrow> int option"
  so_raw :: time_attrs
  so_dynamic :: bool
  so_timer :: bool

record building =
  tg_graph :: tgraph
  tg_free :: nat
  tg_dom_of :: "nat \<Rightarrow> nat"
  tg_dom2tn :: "int \<rightharpoonup> nat"
  tg_id2tn :: "string \<rightharpoonup> nat"
  tg_wants :: "(sync_event \<times> nat) list"
  tg_accesskeys :: "nat list"
  tg_state_args :: "string list"
  tg_settings :: settings

definition name_of :: "source \<Rightarrow> nat \<Rightarrow> string" where
  "name_of so n = d_local (dm_node (so_dom so) n)"

definition attr_of :: "source \<Rightarrow> nat \<Rightarrow> attr_map" where
  "attr_of so n = get_attribute (so_cx so) (so_dom so) n"

definition is_selected :: "source \<Rightarrow> nat \<Rightarrow> settings \<Rightarrow> bool option \<times> settings" where
  "is_selected so n se = selected (so_platform so) se (so_doc so) (attr_of so n)"

section \<open>Switches\<close>

definition lang_weight :: "source \<Rightarrow> settings \<Rightarrow> nat \<Rightarrow> rat option" where
  "lang_weight so se n =
     (case attr_of so n ''systemLanguage'' of
        Some l \<Rightarrow> get_system_language_weight se l
      | None \<Rightarrow>
          (case attr_of so n ''system-language'' of
             Some l \<Rightarrow> get_system_language_weight se l
           | None \<Rightarrow> Some 0))"

text \<open>
  The comparison of the sort holds for equal weights too, so that the merge sort of the library puts
  the later one first.
\<close>

definition lang_sort :: "source \<Rightarrow> settings \<Rightarrow> nat list \<Rightarrow> nat list option" where
  "lang_sort so se cl =
     (if length cl < 2 then Some cl
      else do { ws \<leftarrow> those (map (lang_weight so se) cl);
                Some (map snd (sort_key (\<lambda>p. - fst p) (rev (zip ws cl)))) })"

fun select_loop :: "source \<Rightarrow> nat list \<Rightarrow> settings \<Rightarrow> (nat option \<times> settings) option" where
  "select_loop so [] se = Some (None, se)"
| "select_loop so (n # ns) se =
     (if d_is_data (dm_node (so_dom so) n) then select_loop so ns se
      else case is_selected so n se of
             (b, se) \<Rightarrow>
               (case b of
                  None \<Rightarrow> None
                | Some b \<Rightarrow> if b then Some (Some n, se) else select_loop so ns se))"

definition select_switch_child :: "source \<Rightarrow> nat \<Rightarrow> settings \<Rightarrow> (nat option \<times> settings) option" where
  "select_switch_child so sn se = do {
     cl \<leftarrow> get_children (so_dom so) sn;
     cl \<leftarrow> (if attr_of so sn ''allowReorder'' = Some ''yes'' then lang_sort so se cl else Some cl);
     select_loop so cl se }"

section \<open>Time nodes\<close>

definition alloc_links :: "nat \<Rightarrow> 'a links_scheme \<Rightarrow> 'a links_scheme" where
  "alloc_links n h = h\<lparr>ln_up := (ln_up h)(n := None), ln_down := (ln_down h)(n := None),
     ln_next := (ln_next h)(n := None), ln_live := insert n (ln_live h)\<rparr>"

definition node_attrs :: "source \<Rightarrow> nat \<Rightarrow> time_attrs option" where
  "node_attrs so n = do {
     path \<leftarrow> get_path (so_dom so) n;
     Some (mk_time_attrs (so_floats so) (so_transition so) (attr_of so n) (map (attr_of so) (tl (rev path))) (so_raw so)) }"

text \<open>An animation asks its parent for the target, and there is none for the first time node.\<close>

definition create_time_node :: "source \<Rightarrow> nat \<Rightarrow> nat option \<Rightarrow> 'a building_scheme \<Rightarrow> (nat \<times> 'a building_scheme) option" where
  "create_time_node so n parent w =
     (let tag = name_of so n; ty = get_time_type tag; t = tg_free w
      in if ty = tc_none \<and> is_animation tag \<and> parent = None then None
         else do {
           ta \<leftarrow> node_attrs so n;
           let x = (mk_time_node ty ta (case attr_of so n ''id'' of Some i \<Rightarrow> i | None \<Rightarrow> ''no-id'') tag (attr_of so n))
                     \<lparr>n_animation := is_animation tag, n_statecommand := is_statecommand tag, n_prefetch := is_prefetch tag\<rparr>;
           Some (t, w\<lparr>tg_graph := upd t (\<lambda>_. x) (alloc_links t (tg_graph w)), tg_free := t + 1,
                      tg_dom_of := (tg_dom_of w)(t := n),
                      tg_dom2tn := (tg_dom2tn w)(d_numid (dm_node (so_dom so) n) \<mapsto> t)\<rparr>) })"

section \<open>The walk over the document\<close>

record walker = building +
  tw_root :: "nat option"
  tw_stack :: "nat list"
  tw_switches :: "nat list"
  tw_selects :: "nat option list"
  tw_count :: int

definition is_onload_a :: "source \<Rightarrow> nat \<Rightarrow> bool" where
  "is_onload_a so n \<longleftrightarrow>
     name_of so n = ''a'' \<and> ln_down (so_dom so) n = None \<and> attr_of so n ''actuate'' = Some ''onLoad''"

definition note_switch :: "source \<Rightarrow> bool \<Rightarrow> nat \<Rightarrow> walker \<Rightarrow> walker option" where
  "note_switch so start n w =
     (if name_of so n = ''switch'' then
        (if start then
           do { (c, se) \<leftarrow> select_switch_child so n (tg_settings w);
                Some (w\<lparr>tw_switches := n # tw_switches w, tw_selects := c # tw_selects w, tg_settings := se\<rparr>) }
         else if tw_switches w = [] then None
         else Some (w\<lparr>tw_switches := tl (tw_switches w), tw_selects := tl (tw_selects w)\<rparr>))
      else Some w)"

text \<open>Whether the content of a time element is skipped: not selected by the switch around it or by its own tests.\<close>

definition left_out :: "source \<Rightarrow> nat \<Rightarrow> walker \<Rightarrow> (bool \<times> walker) option" where
  "left_out so n w = do {
     off \<leftarrow> (case tw_selects w of
                [] \<Rightarrow> Some False
              | sel # _ \<Rightarrow>
                  (case sel of None \<Rightarrow> Some True | Some c \<Rightarrow> map_option Not (is_descendent (so_dom so) n c)));
     if off then Some (True, w)
     else let (b, se) = is_selected so n (tg_settings w);
              w = w\<lparr>tg_settings := ensure_tests (so_platform so) (tg_settings w)\<rparr>
          in if so_dynamic so then Some (False, w) else map_option (\<lambda>b. (\<not> b, w)) b }"

definition add_child :: "nat \<Rightarrow> nat \<Rightarrow> 'a building_scheme \<Rightarrow> 'a building_scheme option" where
  "add_child p c w = map_option (\<lambda>g. w\<lparr>tg_graph := g\<rparr>) (append_child p c (tg_graph w))"

definition set_id :: "string \<Rightarrow> nat \<Rightarrow> 'a building_scheme \<Rightarrow> 'a building_scheme" where
  "set_id i t w = w\<lparr>tg_id2tn := (tg_id2tn w)(i \<mapsto> t)\<rparr>"

text \<open>The link around an element becomes a child of its time node.\<close>

definition add_link :: "source \<Rightarrow> nat \<Rightarrow> nat \<Rightarrow> walker \<Rightarrow> walker option" where
  "add_link so n tn w =
     (case ln_up (so_dom so) n of
        None \<Rightarrow> Some w
      | Some a \<Rightarrow>
          if name_of so a = ''a'' then
            do { (tnp, w) \<leftarrow> create_time_node so a (Some tn) w;
                 w \<leftarrow> add_child tn tnp w;
                 Some (case attr_of so n ''id'' of Some i \<Rightarrow> set_id i tn w | None \<Rightarrow> w) }
          else Some w)"

definition give_id :: "source \<Rightarrow> nat \<Rightarrow> nat \<Rightarrow> walker \<Rightarrow> walker" where
  "give_id so n tn w =
     (case attr_of so n ''id'' of
        Some i \<Rightarrow> set_id i tn w
      | None \<Rightarrow> set_id (''aid'' @ show_nat (nat (to_uint (tw_count w)))) tn (w\<lparr>tw_count := to_int (tw_count w + 1)\<rparr>))"

definition enter_element :: "source \<Rightarrow> nat \<Rightarrow> walker \<Rightarrow> walker option" where
  "enter_element so n w = do {
     (tn, w) \<leftarrow> create_time_node so n (case tw_stack w of [] \<Rightarrow> None | p # _ \<Rightarrow> Some p) w;
     w \<leftarrow> add_link so n tn w;
     let w = give_id so n tn w;
     w \<leftarrow> (case tw_stack w of [] \<Rightarrow> Some (w\<lparr>tw_root := Some tn\<rparr>) | p # _ \<Rightarrow> add_child p tn w);
     Some (w\<lparr>tw_stack := tn # tw_stack w\<rparr>) }"

definition leave_element :: "walker \<Rightarrow> walker option" where
  "leave_element w = (case tw_stack w of [] \<Rightarrow> None | _ # st \<Rightarrow> Some (w\<lparr>tw_stack := st\<rparr>))"

definition timed :: "source \<Rightarrow> nat \<Rightarrow> bool" where
  "timed so n \<longleftrightarrow> is_time_element (name_of so n) \<or> is_onload_a so n"

lemma dropWhile_shorter: "dropWhile P xs = y # ys \<Longrightarrow> length ys < length xs"
  using length_dropWhile_le [of P xs] by simp

function walk :: "source \<Rightarrow> (bool \<times> nat) list \<Rightarrow> walker \<Rightarrow> walker option" where
  "walk so [] w = Some w"
| "walk so ((start, n) # vs) w = do {
     w \<leftarrow> note_switch so start n w;
     if \<not> timed so n then walk so vs w
     else do {
       (out, w) \<leftarrow> left_out so n w;
       if out then (case dropWhile (\<lambda>v. snd v \<noteq> n) vs of [] \<Rightarrow> None | _ # rest \<Rightarrow> walk so rest w)
       else do { w \<leftarrow> (if start then enter_element so n w else leave_element w); walk so vs w } } }"
  by pat_completeness auto
termination
  by (relation "measure (\<lambda>(_, vs, _). length vs)") (auto dest: dropWhile_shorter)

definition empty_graph :: "time_attrs \<Rightarrow> tgraph" where
  "empty_graph raw = \<lparr>ln_up = (\<lambda>_. None), ln_down = (\<lambda>_. None), ln_next = (\<lambda>_. None), ln_live = {},
     tg_node = (\<lambda>_. mk_time_node tc_none raw [] [] Map.empty),
     tg_rule = (\<lambda>_. \<lparr>r_kind = trigger_rule, r_target = 0, r_target_attr = rt_begin, r_syncbase = 0, r_event = tn_unknown_event,
        r_refnode = None, r_offset = 0, r_selector = 0, r_str_selector = [], r_locked = False, r_instances = []\<rparr>),
     tg_log = [], tg_next_rule = 0\<rparr>"

definition new_walker :: "source \<Rightarrow> settings \<Rightarrow> walker" where
  "new_walker so se = \<lparr>tg_graph = empty_graph (so_raw so), tg_free = 0, tg_dom_of = (\<lambda>_. 0), tg_dom2tn = Map.empty,
     tg_id2tn = Map.empty, tg_wants = [], tg_accesskeys = [], tg_state_args = [], tg_settings = se,
     tw_root = None, tw_stack = [], tw_switches = [], tw_selects = [], tw_count = 1\<rparr>"

definition build_time_tree :: "source \<Rightarrow> settings \<Rightarrow> nat \<Rightarrow> walker option" where
  "build_time_tree so se r = do { vs \<leftarrow> visits (so_dom so) r; walk so vs (new_walker so se) }"

section \<open>Priorities\<close>

definition priority_classes :: "source \<Rightarrow> nat \<Rightarrow> 'a building_scheme \<Rightarrow> prio_class list option" where
  "priority_classes so e w = do {
     cl \<leftarrow> get_children (tg_graph w) e;
     cs \<leftarrow> get_children (so_dom so) (tg_dom_of w e);
     let n2tn = map_of (rev (map (\<lambda>t. (tg_dom_of w t, t)) cl));
     those (map (\<lambda>c. map_option (\<lambda>ms. (name_of so c, attr_of so c, map n2tn ms)) (get_children (so_dom so) c)) cs) }"

definition upd_graph :: "(tgraph \<Rightarrow> tgraph) \<Rightarrow> 'a building_scheme \<Rightarrow> 'a building_scheme" where
  "upd_graph f w = w\<lparr>tg_graph := f (tg_graph w)\<rparr>"

definition try_graph :: "(tgraph \<Rightarrow> tgraph option) \<Rightarrow> 'a building_scheme \<Rightarrow> 'a building_scheme option" where
  "try_graph f w = map_option (\<lambda>g. w\<lparr>tg_graph := g\<rparr>) (f (tg_graph w))"

definition build_node_priorities :: "source \<Rightarrow> nat \<Rightarrow> 'a building_scheme \<Rightarrow> 'a building_scheme option" where
  "build_node_priorities so e w =
     (if is_excl (tg_node (tg_graph w) e)
      then do { cs \<leftarrow> priority_classes so e w; Some (upd_graph (built_priorities e cs) w) }
      else Some w)"

text \<open>The loops over the nodes of the graph, each seen on the way down.\<close>

definition each_time_node :: "(nat \<Rightarrow> 'a building_scheme \<Rightarrow> 'a building_scheme option) \<Rightarrow> nat \<Rightarrow> 'a building_scheme \<Rightarrow> 'a building_scheme option" where
  "each_time_node f r w = do {
     vs \<leftarrow> iter_visits (tg_graph w) (mk_iter r) [];
     foldm f (map snd (filter fst vs)) w }"

definition build_priorities :: "source \<Rightarrow> nat \<Rightarrow> 'a building_scheme \<Rightarrow> 'a building_scheme option" where
  "build_priorities so = each_time_node (build_node_priorities so)"

section \<open>Sync rules\<close>

definition get_node_with_id :: "string \<Rightarrow> nat \<Rightarrow> 'a building_scheme \<Rightarrow> nat option option" where
  "get_node_with_id i tn w =
     (case tg_id2tn w i of
        Some t \<Rightarrow> Some (Some t)
      | None \<Rightarrow> if i = ''prev'' then previous (tg_graph w) tn else Some None)"

text \<open>A new rule, added as a begin or an end rule of the node.\<close>

definition add_rule :: "rule_type \<Rightarrow> nat \<Rightarrow> rule_kind \<Rightarrow> nat \<Rightarrow> sync_event \<Rightarrow> stime \<Rightarrow> int \<Rightarrow> string \<Rightarrow> tgraph \<Rightarrow> tgraph option" where
  "add_rule rt tn k base ev off sel str g =
     (let (r, g) = new_rule k base ev off sel str g in
      if rt = rt_begin then add_begin_rule tn r g
      else if rt = rt_end then add_end_rule tn r g
      else set_transout_rule tn r g)"

definition implicit_base :: "nat \<Rightarrow> nat \<Rightarrow> tgraph \<Rightarrow> (rule_kind \<times> nat \<times> sync_event) option" where
  "implicit_base p tn g =
     (if is_seq (tg_node g p) then
        do { prv \<leftarrow> previous g tn;
             Some (case prv of None \<Rightarrow> (offset_rule, p, tn_begin) | Some q \<Rightarrow> (model_rule, q, tn_end)) }
      else Some (offset_rule, p, tn_begin))"

definition add_impl_syncbase_rule :: "rule_type \<Rightarrow> nat \<Rightarrow> nat \<Rightarrow> stime \<Rightarrow> tgraph \<Rightarrow> tgraph option" where
  "add_impl_syncbase_rule rt p tn off g =
     do { (k, base, ev) \<leftarrow> implicit_base p tn g; add_rule rt tn k base ev off 0 [] g }"

definition add_impl_begin_rule :: "nat \<Rightarrow> nat \<Rightarrow> tgraph \<Rightarrow> tgraph option" where
  "add_impl_begin_rule p tn g =
     add_impl_syncbase_rule rt_begin p tn (if is_excl (tg_node g p) then indefinite else 0) g"

definition add_syncbase_rule :: "rule_type \<Rightarrow> nat \<Rightarrow> sync_value \<Rightarrow> 'a building_scheme \<Rightarrow> 'a building_scheme option" where
  "add_syncbase_rule rt tn svs w =
     (if svs_type svs \<noteq> sv_syncbase then Some w
      else do {
        base \<leftarrow> get_node_with_id (svs_base svs) tn w;
        case base of
          None \<Rightarrow> Some w
        | Some b \<Rightarrow>
            if svs_event svs = ''begin'' then try_graph (add_rule rt tn model_rule b tn_begin (svs_offset svs) 0 []) w
            else if svs_event svs = ''end'' then try_graph (add_rule rt tn model_rule b tn_end (svs_offset svs) 0 []) w
            else Some w })"

definition want_event :: "sync_event \<Rightarrow> nat \<Rightarrow> 'a building_scheme \<Rightarrow> 'a building_scheme" where
  "want_event ev b w =
     (if ev = tn_activate_event then upd_graph (upd b (\<lambda>x. x\<lparr>n_want_activate := True\<rparr>)) w
      else if ev \<in> {tn_focusin_event, tn_focusout_event, tn_inbounds_event, tn_outofbounds_event}
      then w\<lparr>tg_wants := (ev, b) # tg_wants w\<rparr>
      else w)"

text \<open>The smilText element around a text without a time node; the rule on it needs its time node.\<close>

definition smiltext_of :: "source \<Rightarrow> string \<Rightarrow> nat option option" where
  "smiltext_of so i =
     (case get_node (so_doc so) i of
        None \<Rightarrow> Some None
      | Some n \<Rightarrow> do { path \<leftarrow> get_path (so_dom so) n; Some (find (\<lambda>m. name_of so m = ''smilText'') (rev path)) })"

definition add_marker_rule :: "source \<Rightarrow> rule_type \<Rightarrow> nat \<Rightarrow> sync_value \<Rightarrow> 'a building_scheme \<Rightarrow> 'a building_scheme option" where
  "add_marker_rule so rt tn svs w = do {
     n \<leftarrow> smiltext_of so (svs_base svs);
     case n of
       None \<Rightarrow> Some w
     | Some n \<Rightarrow>
         do { b \<leftarrow> tg_dom2tn w (d_numid (dm_node (so_dom so) n));
              try_graph (add_rule rt tn event_rule b tn_marker_event (svs_offset svs) 0 (svs_base svs)) w } }"

definition event_base :: "nat \<Rightarrow> sync_value \<Rightarrow> 'a building_scheme \<Rightarrow> nat option option" where
  "event_base tn svs w = (if svs_base svs = [] then Some (Some tn) else get_node_with_id (svs_base svs) tn w)"

definition add_event_rule :: "source \<Rightarrow> nat \<Rightarrow> rule_type \<Rightarrow> nat \<Rightarrow> sync_value \<Rightarrow> 'a building_scheme \<Rightarrow> 'a building_scheme option" where
  "add_event_rule so r rt tn svs w =
     (case svs_type svs of
        sv_event \<Rightarrow>
          (let ev = sync_event_from_str (svs_event svs) in
           do { base \<leftarrow> event_base tn svs w;
                case base of
                  None \<Rightarrow> if ev = tev_event then add_marker_rule so rt tn svs w else Some w
                | Some b \<Rightarrow> try_graph (add_rule rt tn event_rule b ev (svs_offset svs) 0 []) (want_event ev b w) })
      | sv_repeat \<Rightarrow>
          do { base \<leftarrow> event_base tn svs w;
               case base of
                 None \<Rightarrow> Some w
               | Some b \<Rightarrow> try_graph (add_rule rt tn event_rule b tn_repeat_event (svs_offset svs) (svs_iparam svs) []) w }
      | sv_accesskey \<Rightarrow>
          try_graph (add_rule rt tn event_rule r accesskey_event (svs_offset svs) (svs_iparam svs) [])
            (w\<lparr>tg_accesskeys := tn # tg_accesskeys w\<rparr>)
      | sv_state_change \<Rightarrow>
          try_graph (add_rule rt tn event_rule r state_change_event (svs_offset svs) 0 (svs_sparam svs))
            (w\<lparr>tg_state_args := List.insert (svs_sparam svs) (tg_state_args w)\<rparr>)
      | sv_media_marker \<Rightarrow> try_graph (add_rule rt tn event_rule tn tn_marker_event (svs_offset svs) 0 (svs_sparam svs)) w
      | _ \<Rightarrow> Some w)"

definition begin_offsets :: "bool \<Rightarrow> sync_value list \<Rightarrow> stime list" where
  "begin_offsets in_seq l =
     (let os = map (\<lambda>s. max 0 (svs_offset s)) (filter (\<lambda>s. svs_type s = sv_offset \<or> svs_type s = sv_indefinite) l)
      in if in_seq then take 1 os else os)"

definition add_begin_sync_rules :: "source \<Rightarrow> nat \<Rightarrow> nat \<Rightarrow> 'a building_scheme \<Rightarrow> 'a building_scheme option" where
  "add_begin_sync_rules so r tn w =
     (let l = m_blist (n_attrs (tg_node (tg_graph w) tn)) in
      case ln_up (tg_graph w) tn of
        None \<Rightarrow> Some w
      | Some p \<Rightarrow>
          if l = [] then try_graph (add_impl_begin_rule p tn) w
          else let in_seq = is_seq (tg_node (tg_graph w) p) in
            do { w \<leftarrow> try_graph (foldm (add_impl_syncbase_rule rt_begin p tn) (begin_offsets in_seq l)) w;
                 if in_seq then Some w
                 else do { w \<leftarrow> foldm (add_syncbase_rule rt_begin tn) l w;
                           foldm (add_event_rule so r rt_begin tn) l w } })"

definition add_end_sync_rules :: "source \<Rightarrow> nat \<Rightarrow> nat \<Rightarrow> 'a building_scheme \<Rightarrow> 'a building_scheme option" where
  "add_end_sync_rules so r tn w =
     (let l = m_elist (n_attrs (tg_node (tg_graph w) tn)) in
      case ln_up (tg_graph w) tn of
        None \<Rightarrow> Some w
      | Some p \<Rightarrow>
          do { w \<leftarrow> try_graph (foldm (add_impl_syncbase_rule rt_end p tn)
                       (map svs_offset (filter (\<lambda>s. svs_type s = sv_offset) l))) w;
               w \<leftarrow> foldm (add_syncbase_rule rt_end tn) l w;
               foldm (add_event_rule so r rt_end tn) l w })"

definition want_activation :: "nat \<Rightarrow> tgraph \<Rightarrow> tgraph" where
  "want_activation tn g =
     (if is_link (tg_node g tn) \<and> m_actuate (n_attrs (tg_node g tn)) = actuate_onrequest
      then upd tn (\<lambda>x. x\<lparr>n_want_activate := True\<rparr>) g else g)"

definition build_node_rules :: "source \<Rightarrow> nat \<Rightarrow> nat \<Rightarrow> 'a building_scheme \<Rightarrow> 'a building_scheme option" where
  "build_node_rules so r tn w = do {
     w \<leftarrow> add_begin_sync_rules so r tn w;
     w \<leftarrow> add_end_sync_rules so r tn w;
     Some (upd_graph (want_activation tn) w) }"

definition build_time_graph :: "source \<Rightarrow> nat \<Rightarrow> 'a building_scheme \<Rightarrow> 'a building_scheme option" where
  "build_time_graph so r = each_time_node (build_node_rules so r) r"

definition build_timers_graph :: "source \<Rightarrow> nat \<Rightarrow> 'a building_scheme \<Rightarrow> 'a building_scheme option" where
  "build_timers_graph so r w =
     (if \<not> so_timer so then Some w
      else each_time_node (\<lambda>tn. Some \<circ> upd_graph (upd tn (\<lambda>x. x\<lparr>n_has_timer := True\<rparr>))) r w)"

definition add_trans_out :: "nat \<Rightarrow> tgraph \<Rightarrow> tgraph option" where
  "add_trans_out tn g =
     (let ta = n_attrs (tg_node g tn) in
      case m_trans_out ta of
        None \<Rightarrow> Some g
      | Some dur \<Rightarrow>
          if m_fill ta = fill_remove \<or> m_fill ta = fill_freeze
          then add_rule rt_transout tn transout_rule tn tn_end (- dur) 0 [] g
          else Some g)"

definition build_trans_out_graph :: "nat \<Rightarrow> 'a building_scheme \<Rightarrow> 'a building_scheme option" where
  "build_trans_out_graph r = each_time_node (\<lambda>tn. try_graph (add_trans_out tn)) r"

definition build_timegraph :: "source \<Rightarrow> settings \<Rightarrow> walker option" where
  "build_timegraph so se = do {
     d \<leftarrow> dc_root (so_doc so);
     w \<leftarrow> build_time_tree so se d;
     r \<leftarrow> tw_root w;
     w \<leftarrow> build_priorities so r w;
     w \<leftarrow> build_time_graph so r w;
     w \<leftarrow> build_timers_graph so r w;
     build_trans_out_graph r w }"

end
