(* ===== verification/Timegraph_Tree.thy ===== *)
theory Timegraph_Tree
  imports Timegraph
begin

text \<open>
  The time tree mirrors the document: what the walk of \<open>build_time_tree\<close> with its three stacks
  builds is the tree of the selected time elements, given by the recursive function \<open>time_forest\<close>.
\<close>

fun relabel :: "(nat \<Rightarrow> nat) \<Rightarrow> tree \<Rightarrow> tree" where
  "relabel f (Node n ts) = Node (f n) (map (relabel f) ts)"

lemma relabel_cong: "\<forall>k \<in> set (nodes t). f k = g k \<Longrightarrow> relabel f t = relabel g t"
  by (induction t rule: nodes.induct) auto

section \<open>The elements that play\<close>

text \<open>The innermost switch around an element decides alone: \<open>sels\<close> are the choices of the switches.\<close>

definition in_scope :: "source \<Rightarrow> nat option list \<Rightarrow> nat \<Rightarrow> bool" where
  "in_scope so sels n \<longleftrightarrow>
     (case sels of
        [] \<Rightarrow> True
      | sel # _ \<Rightarrow> (case sel of None \<Rightarrow> False | Some c \<Rightarrow> is_descendent (so_dom so) n c = Some True))"

definition kept :: "source \<Rightarrow> settings \<Rightarrow> nat option list \<Rightarrow> nat \<Rightarrow> bool" where
  "kept so se sels n \<longleftrightarrow> in_scope so sels n \<and> (so_dynamic so \<or> fst (is_selected so n se) = Some True)"

definition choice :: "source \<Rightarrow> settings \<Rightarrow> nat \<Rightarrow> nat option" where
  "choice so se n = (case select_switch_child so n se of Some (c, _) \<Rightarrow> c | None \<Rightarrow> None)"

definition link_copy :: "source \<Rightarrow> nat \<Rightarrow> tree list" where
  "link_copy so n =
     (case ln_up (so_dom so) n of Some a \<Rightarrow> if name_of so a = ''a'' then [Node a []] else [] | None \<Rightarrow> [])"

fun time_forest :: "source \<Rightarrow> settings \<Rightarrow> nat option list \<Rightarrow> tree \<Rightarrow> tree list" where
  "time_forest so se sels (Node n ts) =
     (let sels' = (if name_of so n = ''switch'' then choice so se n # sels else sels);
          fs = concat (map (time_forest so se sels') ts)
      in if \<not> timed so n then fs
         else if kept so se sels n then [Node n (link_copy so n @ fs)] else [])"

text \<open>No test and no search for a language runs for ever.\<close>

definition testable :: "source \<Rightarrow> settings \<Rightarrow> nat \<Rightarrow> bool" where
  "testable so se n \<longleftrightarrow>
     fst (is_selected so n se) \<noteq> None \<and> (name_of so n = ''switch'' \<longrightarrow> select_switch_child so n se \<noteq> None)"

definition ready :: "source \<Rightarrow> settings \<Rightarrow> tree \<Rightarrow> bool" where
  "ready so se t \<longleftrightarrow>
     is_tree (so_dom so) t \<and> ensure_tests (so_platform so) se = se \<and> (\<forall>n \<in> set (nodes t). testable so se n)"

section \<open>One step of the walk\<close>

lemma timed_not_switch: "timed so n \<Longrightarrow> name_of so n \<noteq> ''switch''"
  by (auto simp: timed_def is_onload_a_def is_time_element_def time_containers_def discrete_leafs_def
      continuous_leafs_def animate_elements_def statecommand_elements_def prefetch_elements_def)

lemma select_loop_settings:
  "select_loop so ns se = Some (c, se') \<Longrightarrow> ensure_tests (so_platform so) se = se \<Longrightarrow> se' = se"
  by (induction ns) (auto simp: is_selected_def selected_def Let_def split: if_splits option.splits)

lemma switch_choice:
  assumes "testable so se n" "name_of so n = ''switch''" "ensure_tests (so_platform so) se = se"
  shows "select_switch_child so n se = Some (choice so se n, se)"
proof -
  obtain c se' where c: "select_switch_child so n se = Some (c, se')" using assms by (auto simp: testable_def)
  then have "se' = se" using select_loop_settings [OF _ assms(3)] by (auto simp: select_switch_child_def split: bind_splits)
  with c show ?thesis by (simp add: choice_def)
qed

lemma descendent_defined: "is_tree h t \<Longrightarrow> n \<in> set (nodes t) \<Longrightarrow> is_descendent h n c \<noteq> None"
  using is_descendent_path [of h t _ c] path_exists [of n t] by fastforce

lemma left_out_eq:
  assumes "ready so se t" "n \<in> set (nodes t)" "tg_settings w = se" "tw_selects w = sels"
  shows "left_out so n w = Some (\<not> kept so se sels n, w)"
proof -
  have t: "is_tree (so_dom so) t" "ensure_tests (so_platform so) se = se" "fst (is_selected so n se) \<noteq> None"
    using assms(1,2) by (auto simp: ready_def testable_def)
  have w: "w\<lparr>tg_settings := se\<rparr> = w" using assms(3) by auto
  obtain b where b: "is_selected so n se = (Some b, se)"
    using t(2,3) by (cases "is_selected so n se") (auto simp: is_selected_def selected_def Let_def)
  have d: "is_descendent (so_dom so) n c = Some (is_descendent (so_dom so) n c = Some True)" for c
    using descendent_defined [OF t(1) assms(2), of c] by auto
  have off: "(case tw_selects w of
                [] \<Rightarrow> Some False
              | sel # _ \<Rightarrow>
                  (case sel of None \<Rightarrow> Some True | Some c \<Rightarrow> map_option Not (is_descendent (so_dom so) n c)))
      = Some (\<not> in_scope so sels n)"
    using assms(4) by (auto simp: in_scope_def split: list.split option.split intro: d)
  show ?thesis
    unfolding left_out_def off kept_def using assms(3) t(2) w b by (simp add: Let_def)
qed

definition same_walk :: "walker \<Rightarrow> walker \<Rightarrow> bool" where
  "same_walk w w' \<longleftrightarrow> tw_stack w' = tw_stack w \<and> tw_root w' = tw_root w \<and> tw_switches w' = tw_switches w
     \<and> tw_selects w' = tw_selects w \<and> tg_settings w' = tg_settings w"

definition grown :: "walker \<Rightarrow> walker \<Rightarrow> bool" where
  "grown w w' \<longleftrightarrow> tg_free w \<le> tg_free w' \<and> (\<forall>k < tg_free w. tg_dom_of w' k = tg_dom_of w k)"

lemma grown_trans: "grown w w' \<Longrightarrow> grown w' w'' \<Longrightarrow> grown w w''"
  by (auto simp: grown_def)

lemma grown_relabel: "grown w w' \<Longrightarrow> set (nodes t) \<subseteq> {..<tg_free w} \<Longrightarrow> relabel (tg_dom_of w') t = relabel (tg_dom_of w) t"
  by (rule relabel_cong) (auto simp: grown_def)

text \<open>The trees of older nodes but \<open>t\<close> are kept.\<close>

definition keeps_trees :: "nat set \<Rightarrow> walker \<Rightarrow> walker \<Rightarrow> bool" where
  "keeps_trees A w w' \<longleftrightarrow>
     (\<forall>u. is_tree (tg_graph w) u \<longrightarrow> set (nodes u) \<subseteq> {..<tg_free w} - A \<longrightarrow> is_tree (tg_graph w') u)"

lemma alloc_tree: "is_tree (upd t f (alloc_links t g)) (Node t [])"
  by (simp add: is_tree_def represents_def family_def upd_def alloc_links_def)

lemma alloc_keeps: "is_tree g u \<Longrightarrow> t \<notin> set (nodes u) \<Longrightarrow> is_tree (upd t f (alloc_links t g)) u"
  by (rule is_tree_frame) (auto simp: upd_def alloc_links_def)

lemma node_attrs_defined: "is_tree (so_dom so) t \<Longrightarrow> n \<in> set (nodes t) \<Longrightarrow> node_attrs so n \<noteq> None"
  using get_path_in [of "so_dom so" t] path_exists [of n t] by (fastforce simp: node_attrs_def)

lemma node_created:
  assumes "ready so se t" "n \<in> set (nodes t)" "is_animation (name_of so n) \<longrightarrow> parent \<noteq> None"
  shows "\<exists>w'. create_time_node so n parent w = Some (tg_free w, w') \<and> is_tree (tg_graph w') (Node (tg_free w) [])
    \<and> tg_free w' = tg_free w + 1 \<and> grown w w' \<and> tg_dom_of w' (tg_free w) = n \<and> same_walk w w' \<and> keeps_trees {} w w'"
proof -
  obtain ta where "node_attrs so n = Some ta" using node_attrs_defined assms(1,2) by (fastforce simp: ready_def)
  then show ?thesis using assms(3)
    by (auto simp: create_time_node_def Let_def grown_def same_walk_def keeps_trees_def alloc_tree intro!: alloc_keeps)
qed


lemma link_added:
  assumes "ready so se t" "n \<in> set (nodes t)" "is_tree (tg_graph w) (Node c [])" "c < tg_free w"
  shows "\<exists>w' ls. add_link so n c w = Some w' \<and> is_tree (tg_graph w') (Node c ls) \<and> grown w w'
    \<and> set (concat (map nodes ls)) \<subseteq> {tg_free w..<tg_free w'} \<and> map (relabel (tg_dom_of w')) ls = link_copy so n
    \<and> same_walk w w' \<and> keeps_trees {c} w w'"
proof (cases "\<exists>a. ln_up (so_dom so) n = Some a \<and> name_of so a = ''a''")
  case False
  then have "add_link so n c w = Some w" "link_copy so n = []"
    by (auto simp: add_link_def link_copy_def split: option.splits)
  then show ?thesis using assms(3) by (intro exI [of _ w] exI [of _ "[]"]) (auto simp: grown_def same_walk_def keeps_trees_def)
next
  case True
  then obtain a where a: "ln_up (so_dom so) n = Some a" "name_of so a = ''a''" by blast
  have "a \<in> set (nodes t)" using up_in_tree [OF _ assms(2) a(1)] assms(1) by (simp add: ready_def)
  from node_created [OF assms(1) this, of "Some c" w] obtain v where
    v: "create_time_node so a (Some c) w = Some (tg_free w, v)" "is_tree (tg_graph v) (Node (tg_free w) [])"
      "tg_free v = tg_free w + 1" "grown w v" "tg_dom_of v (tg_free w) = a" "same_walk w v" "keeps_trees {} w v" by auto
  have c: "is_tree (tg_graph v) (Node c [])" using v(7) assms(3,4) by (auto simp: keeps_trees_def)
  let ?g = "set_up (tg_free w) (Some c) (set_down c (Some (tg_free w)) (tg_graph v))"
  let ?v = "v\<lparr>tg_graph := ?g\<rparr>"
  let ?w = "case attr_of so n ''id'' of Some i \<Rightarrow> set_id i c ?v | None \<Rightarrow> ?v"
  have ap: "append_child c (tg_free w) (tg_graph v) = Some ?g" and t: "is_tree ?g (Node c [Node (tg_free w) []])"
    using c v(2) assms(4) by (simp_all add: append_child_def is_tree_def represents_def family_def)
  have w: "tg_graph ?w = ?g" "tg_free ?w = tg_free v" "tg_dom_of ?w = tg_dom_of v" "same_walk v ?w"
    by (simp_all add: set_id_def same_walk_def split: option.split)
  have "add_link so n c w = Some ?w" using a v(1) ap by (simp add: add_link_def add_child_def)
  moreover have "keeps_trees {c} w ?w"
    unfolding keeps_trees_def w
  proof (intro allI impI)
    fix u assume u: "is_tree (tg_graph w) u" "set (nodes u) \<subseteq> {..<tg_free w} - {c}"
    then have "is_tree (tg_graph v) u" using v(7) by (auto simp: keeps_trees_def)
    then show "is_tree ?g u" by (rule is_tree_frame) (use u(2) in auto)
  qed
  moreover have "same_walk w ?w" using v(6) w(4) by (simp add: same_walk_def)
  ultimately show ?thesis using t v(3,4,5) a w
    by (intro exI [of _ ?w] exI [of _ "[Node (tg_free w) []]"]) (auto simp: grown_def link_copy_def)
qed

lemma id_given: "tg_graph (give_id so n c w) = tg_graph w \<and> tg_free (give_id so n c w) = tg_free w
    \<and> tg_dom_of (give_id so n c w) = tg_dom_of w \<and> same_walk w (give_id so n c w)"
  by (simp add: give_id_def set_id_def same_walk_def split: option.split)

text \<open>The new branch before it is attached.\<close>

lemma branch_made:
  assumes "ready so se t" "n \<in> set (nodes t)" "is_animation (name_of so n) \<longrightarrow> parent \<noteq> None"
  shows "\<exists>v v' ls. create_time_node so n parent w = Some (tg_free w, v) \<and> add_link so n (tg_free w) v = Some v'
    \<and> (let w' = give_id so n (tg_free w) v' in
       is_tree (tg_graph w') (Node (tg_free w) ls) \<and> grown w w' \<and> tg_free w < tg_free w'
       \<and> set (nodes (Node (tg_free w) ls)) \<subseteq> {tg_free w..<tg_free w'}
       \<and> relabel (tg_dom_of w') (Node (tg_free w) ls) = Node n (link_copy so n)
       \<and> same_walk w w' \<and> keeps_trees {} w w')"
proof -
  from node_created [OF assms, of w] obtain v where
    v: "create_time_node so n parent w = Some (tg_free w, v)" "is_tree (tg_graph v) (Node (tg_free w) [])"
      "tg_free v = tg_free w + 1" "grown w v" "tg_dom_of v (tg_free w) = n" "same_walk w v" "keeps_trees {} w v" by auto
  have "tg_free w < tg_free v" using v(3) by simp
  from link_added [OF assms(1,2) v(2) this] obtain v' ls where
    v': "add_link so n (tg_free w) v = Some v'" "is_tree (tg_graph v') (Node (tg_free w) ls)" "grown v v'"
      "set (concat (map nodes ls)) \<subseteq> {tg_free v..<tg_free v'}" "map (relabel (tg_dom_of v')) ls = link_copy so n"
      "same_walk v v'" "keeps_trees {tg_free w} v v'" by blast
  have "tg_dom_of v' (tg_free w) = n" "tg_free w < tg_free v'" "grown w v'" "same_walk w v'"
    using v v' grown_trans [OF v(4) v'(3)] by (auto simp: grown_def same_walk_def)
  moreover have "keeps_trees {} w v'"
    unfolding keeps_trees_def
  proof (intro allI impI)
    fix u assume u: "is_tree (tg_graph w) u" "set (nodes u) \<subseteq> {..<tg_free w} - {}"
    then have "is_tree (tg_graph v) u" using v(7) by (simp add: keeps_trees_def)
    moreover have "set (nodes u) \<subseteq> {..<tg_free v} - {tg_free w}" using u(2) v(3) by auto
    ultimately show "is_tree (tg_graph v') u" using v'(7) by (simp add: keeps_trees_def)
  qed
  moreover have "set (nodes (Node (tg_free w) ls)) \<subseteq> {tg_free w..<tg_free v'}"
    using v(3) v'(4) \<open>tg_free w < tg_free v'\<close> by fastforce
  ultimately show ?thesis using v(1) v' id_given [of so n "tg_free w" v']
    by (auto simp: grown_def same_walk_def keeps_trees_def Let_def)
qed

section \<open>The walk below a time node\<close>

lemma grafts_nodes: "p \<in> set (nodes u) \<Longrightarrow>
    set (nodes (fold (graft p) vs u)) = set (nodes u) \<union> set (concat (map nodes vs))"
  by (induction vs arbitrary: u) (auto simp: nodes_graft)

lemma graft_graft: "c \<notin> set (nodes u) \<Longrightarrow> graft c f (graft p b u) = graft p (graft c f b) u"
  by (induction u rule: nodes.induct) auto

lemma grafts_graft: "c \<notin> set (nodes u) \<Longrightarrow> fold (graft c) vs (graft p b u) = graft p (fold (graft c) vs b) u"
  by (induction vs arbitrary: b) (simp_all add: graft_graft)

lemma grafts_root: "c \<notin> set (concat (map nodes (ls @ vs))) \<Longrightarrow> fold (graft c) vs (Node c ls) = Node c (ls @ vs)"
proof (induction vs arbitrary: ls)
  case (Cons v vs)
  have "map (graft c v) ls = ls" using Cons.prems by (auto intro!: map_idI graft_other)
  then show ?case using Cons by simp
qed simp

definition under :: "settings \<Rightarrow> nat option list \<Rightarrow> nat \<Rightarrow> nat list \<Rightarrow> tree \<Rightarrow> walker \<Rightarrow> bool" where
  "under se sels p st u w \<longleftrightarrow> tg_settings w = se \<and> tw_selects w = sels \<and> length (tw_switches w) = length sels
     \<and> tw_stack w = p # st \<and> is_tree (tg_graph w) u \<and> p \<in> set (nodes u) \<and> set (nodes u) \<subseteq> {..<tg_free w}"

text \<open>The walk over \<open>visits\<close> hangs the branches \<open>fs\<close> below \<open>p\<close>.\<close>

definition walked :: "source \<Rightarrow> (bool \<times> nat) list \<Rightarrow> tree list \<Rightarrow> nat \<Rightarrow> tree \<Rightarrow> walker \<Rightarrow> bool" where
  "walked so seen fs p u w \<longleftrightarrow>
     (\<exists>w' vs. (\<forall>rest. walk so (seen @ rest) w = walk so rest w') \<and> same_walk w w' \<and> grown w w'
        \<and> is_tree (tg_graph w') (fold (graft p) vs u) \<and> set (concat (map nodes vs)) \<subseteq> {tg_free w..<tg_free w'}
        \<and> map (relabel (tg_dom_of w')) vs = fs)"

lemma walked_Nil: "is_tree (tg_graph w) u \<Longrightarrow> walked so [] [] p u w"
  unfolding walked_def by (intro exI [of _ w] exI [of _ "[]"]) (simp add: same_walk_def grown_def)

lemma walked_append:
  assumes "under se sels p st u w" "walked so a f p u w"
    and "\<And>w' v. under se sels p st v w' \<Longrightarrow> walked so b g p v w'"
  shows "walked so (a @ b) (f @ g) p u w"
proof -
  obtain w1 vs where 1: "\<forall>rest. walk so (a @ rest) w = walk so rest w1" "same_walk w w1" "grown w w1"
    "is_tree (tg_graph w1) (fold (graft p) vs u)" "set (concat (map nodes vs)) \<subseteq> {tg_free w..<tg_free w1}"
    "map (relabel (tg_dom_of w1)) vs = f" using assms(2) unfolding walked_def by blast
  have "under se sels p st (fold (graft p) vs u) w1"
    using assms(1) 1 grafts_nodes [of p u vs] by (fastforce simp: under_def same_walk_def grown_def)
  from assms(3) [OF this] obtain w2 ws where 2: "\<forall>rest. walk so (b @ rest) w1 = walk so rest w2" "same_walk w1 w2" "grown w1 w2"
    "is_tree (tg_graph w2) (fold (graft p) ws (fold (graft p) vs u))" "set (concat (map nodes ws)) \<subseteq> {tg_free w1..<tg_free w2}"
    "map (relabel (tg_dom_of w2)) ws = g" unfolding walked_def by blast
  have "map (relabel (tg_dom_of w2)) vs = map (relabel (tg_dom_of w1)) vs"
    using 1(5) by (intro map_cong refl grown_relabel [OF 2(3)]) auto
  then have "map (relabel (tg_dom_of w2)) (vs @ ws) = f @ g" using 1(6) 2(6) by simp
  moreover have "set (concat (map nodes (vs @ ws))) \<subseteq> {tg_free w..<tg_free w2}"
    using 1(3,5) 2(3,5) by (auto simp: grown_def subset_iff)
  moreover have "same_walk w w2" using 1(2) 2(2) by (simp add: same_walk_def)
  moreover have "\<forall>rest. walk so ((a @ b) @ rest) w = walk so rest w2" using 1(1) 2(1) by simp
  moreover have "is_tree (tg_graph w2) (fold (graft p) (vs @ ws) u)" using 2(4) by simp
  ultimately show ?thesis using grown_trans [OF 1(3) 2(3)] unfolding walked_def by blast
qed

lemma tour_labels: "snd ` set (tour t) = set (nodes t)"
  by (induction t rule: nodes.induct) (force simp: image_iff)

lemma skip_content:
  assumes "n \<notin> set (concat (map nodes ts))"
  shows "dropWhile (\<lambda>v. snd v \<noteq> n) (concat (map tour ts) @ (False, n) # rest) = (False, n) # rest"
proof -
  have "snd v \<noteq> n" if "v \<in> set (concat (map tour ts))" for v using that assms tour_labels by fastforce
  then show ?thesis by (subst dropWhile_append2) auto
qed

lemma attach_same: "tg_free (w\<lparr>tg_graph := g, tw_stack := st\<rparr>) = tg_free w"
  "tg_dom_of (w\<lparr>tg_graph := g, tw_stack := st\<rparr>) = tg_dom_of w"
  "tw_root (w\<lparr>tg_graph := g, tw_stack := st\<rparr>) = tw_root w"
  "tw_switches (w\<lparr>tg_graph := g, tw_stack := st\<rparr>) = tw_switches w"
  by simp_all

lemma enter_under:
  assumes "ready so se t" "n \<in> set (nodes t)" "under se sels p st u w"
  shows "\<exists>w' ls. enter_element so n w = Some w' \<and> under se sels (tg_free w) (p # st) (graft p (Node (tg_free w) ls) u) w'
    \<and> tw_root w' = tw_root w \<and> tw_switches w' = tw_switches w \<and> grown w w' \<and> tg_free w < tg_free w'
    \<and> set (nodes (Node (tg_free w) ls)) \<subseteq> {tg_free w..<tg_free w'} \<and> distinct (nodes (Node (tg_free w) ls))
    \<and> relabel (tg_dom_of w') (Node (tg_free w) ls) = Node n (link_copy so n)"
proof -
  let ?c = "tg_free w"
  have st: "tw_stack w = p # st" and u: "is_tree (tg_graph w) u" "p \<in> set (nodes u)" "set (nodes u) \<subseteq> {..<?c}"
    using assms(3) by (simp_all add: under_def)
  from branch_made [OF assms(1,2), of "Some p" w] obtain v v' ls where
    v: "create_time_node so n (Some p) w = Some (?c, v)" "add_link so n ?c v = Some v'"
    and b: "is_tree (tg_graph (give_id so n ?c v')) (Node ?c ls)" "grown w (give_id so n ?c v')"
      "?c < tg_free (give_id so n ?c v')" "set (nodes (Node ?c ls)) \<subseteq> {?c..<tg_free (give_id so n ?c v')}"
      "relabel (tg_dom_of (give_id so n ?c v')) (Node ?c ls) = Node n (link_copy so n)"
      "same_walk w (give_id so n ?c v')" "keeps_trees {} w (give_id so n ?c v')"
    by (auto simp: Let_def)
  let ?w = "give_id so n ?c v'"
  have "is_tree (tg_graph ?w) u" using b(7) u by (simp add: keeps_trees_def)
  moreover have "set (nodes u) \<inter> set (nodes (Node ?c ls)) = {}" using u(3) b(4) by fastforce
  ultimately obtain g where g: "append_child p ?c (tg_graph ?w) = Some g" "is_tree g (graft p (Node ?c ls) u)"
    using append_child_tree [OF _ b(1) u(2)] by auto
  have "tw_stack ?w = p # st" using b(6) st by (simp add: same_walk_def)
  then have "enter_element so n w = Some (?w\<lparr>tg_graph := g, tw_stack := ?c # p # st\<rparr>)"
    using st v g(1) by (simp add: enter_element_def Let_def add_child_def)
  moreover have "set (nodes (graft p (Node ?c ls) u)) \<subseteq> {..<tg_free ?w}"
  proof -
    have "set (nodes (Node ?c ls)) \<subseteq> {..<tg_free ?w}" by (rule order_trans [OF b(4)]) auto
    moreover have "set (nodes u) \<subseteq> {..<tg_free ?w}" using u(3) b(3) by (meson lessThan_subset_iff order_trans less_imp_le)
    ultimately show ?thesis by (simp only: nodes_graft u(2) if_True Un_subset_iff simp_thms)
  qed
  moreover have "?c \<in> set (nodes (graft p (Node ?c ls) u))" using u(2) by (simp add: nodes_graft)
  ultimately have "enter_element so n w = Some (?w\<lparr>tg_graph := g, tw_stack := ?c # p # st\<rparr>)"
    "under se sels ?c (p # st) (graft p (Node ?c ls) u) (?w\<lparr>tg_graph := g, tw_stack := ?c # p # st\<rparr>)"
    using g(2) assms(3) b(6) by (simp_all add: under_def same_walk_def)
  moreover have "distinct (nodes (Node ?c ls))" using b(1) unfolding is_tree_def by blast
  moreover have "tw_root ?w = tw_root w" "tw_switches ?w = tw_switches w" using b(6) by (simp_all add: same_walk_def)
  moreover have "grown w (?w\<lparr>tg_graph := g, tw_stack := ?c # p # st\<rparr>)" using b(2) by (simp add: grown_def)
  ultimately show ?thesis using b(3,4,5)
    by (intro exI [of _ "?w\<lparr>tg_graph := g, tw_stack := ?c # p # st\<rparr>"] exI [of _ ls] conjI)
      (simp_all only: attach_same)
qed

text \<open>A node that plays no part but for its content: what a switch adds is taken away again.\<close>

lemma walked_untimed:
  assumes "ready so se t" "n \<in> set (nodes t)" "under se sels p st u w" "\<not> timed so n"
    and "\<And>w. under se (if name_of so n = ''switch'' then choice so se n # sels else sels) p st u w \<Longrightarrow> walked so seen fs p u w"
  shows "walked so ((True, n) # seen @ [(False, n)]) fs p u w"
proof (cases "name_of so n = ''switch''")
  case False
  then have "note_switch so b n v = Some v" for b v by (simp add: note_switch_def)
  moreover obtain v vs where "\<forall>rest. walk so (seen @ rest) w = walk so rest v" "same_walk w v" "grown w v"
    "is_tree (tg_graph v) (fold (graft p) vs u)" "set (concat (map nodes vs)) \<subseteq> {tg_free w..<tg_free v}"
    "map (relabel (tg_dom_of v)) vs = fs"
  proof -
    have "walked so seen fs p u w" using assms(3) assms(5) [of w] False by simp
    then show ?thesis using that unfolding walked_def by blast
  qed
  ultimately show ?thesis using assms(4)
    unfolding walked_def by (intro exI [of _ v] exI [of _ vs]) simp
next
  case True
  let ?w = "w\<lparr>tw_switches := n # tw_switches w, tw_selects := choice so se n # sels\<rparr>"
  have sc: "select_switch_child so n se = Some (choice so se n, se)"
    using assms(1,2) True by (auto simp: ready_def intro: switch_choice)
  have w: "tg_settings w = se" "tw_selects w = sels" using assms(3) by (simp_all add: under_def)
  then have ns: "note_switch so True n w = Some ?w"
    using True sc by (auto simp: note_switch_def)
  have "under se (choice so se n # sels) p st u ?w" using assms(3) by (simp add: under_def)
  then obtain v vs where v: "\<forall>rest. walk so (seen @ rest) ?w = walk so rest v" "same_walk ?w v" "grown ?w v"
    "is_tree (tg_graph v) (fold (graft p) vs u)" "set (concat (map nodes vs)) \<subseteq> {tg_free ?w..<tg_free v}"
    "map (relabel (tg_dom_of v)) vs = fs" using assms(5) [of ?w] True unfolding walked_def by auto
  let ?v = "v\<lparr>tw_switches := tl (tw_switches v), tw_selects := tl (tw_selects v)\<rparr>"
  have "note_switch so False n v = Some ?v" using True v(2) by (simp add: note_switch_def same_walk_def)
  then have "\<forall>rest. walk so (((True, n) # seen @ [(False, n)]) @ rest) w = walk so rest ?v"
    using v(1) ns assms(4) by simp
  then show ?thesis using v w unfolding walked_def
    by (intro exI [of _ ?v] exI [of _ vs]) (simp add: same_walk_def grown_def)
qed

lemma walk_under:
  assumes ok: "ready so se t"
  shows "set (nodes s) \<subseteq> set (nodes t) \<Longrightarrow> distinct (nodes s) \<Longrightarrow> under se sels p st u w \<Longrightarrow>
    walked so (tour s) (time_forest so se sels s) p u w"
proof (induction s arbitrary: sels p st u w rule: nodes.induct)
  case (1 n ts)
  have n: "n \<in> set (nodes t)" "n \<notin> set (concat (map nodes ts))" using 1(2,3) by auto
  have forest: "walked so (concat (map tour ts)) (concat (map (time_forest so se sels) ts)) p u w"
    if "under se sels p st u w" for sels p st u w
    using that 1
  proof (induction ts arbitrary: u w)
    case Nil
    then show ?case by (simp add: walked_Nil under_def)
  next
    case (Cons s ts)
    have "walked so (tour s) (time_forest so se sels s) p u w"
      using Cons.prems by (intro Cons.prems(2)) auto
    moreover have "walked so (concat (map tour ts)) (concat (map (time_forest so se sels) ts)) p v w'"
      if "under se sels p st v w'" for v w'
      by (rule Cons.IH [OF that]) (use Cons.prems in \<open>auto simp: distinct_concat_iff\<close>)
    ultimately show ?case using walked_append [OF Cons.prems(1)] by simp
  qed
  show ?case
  proof (cases "timed so n")
    case False
    then show ?thesis using walked_untimed [OF ok n(1) 1(4) False forest] by (simp add: Let_def)
  next
    case True
    note ns = timed_not_switch [OF True]
    have sw: "note_switch so b n v = Some v" for b v using ns by (simp add: note_switch_def)
    have lo: "left_out so n v = Some (\<not> kept so se sels n, v)" if "tg_settings v = se" "tw_selects v = sels" for v
      using left_out_eq [OF ok n(1) that] .
    have w: "tg_settings w = se" "tw_selects w = sels" "tw_stack w = p # st" "length (tw_switches w) = length sels"
      using 1(4) by (simp_all add: under_def)
    show ?thesis
    proof (cases "kept so se sels n")
      case False
      have "walk so (tour (Node n ts) @ rest) w = walk so rest w" for rest
        using sw lo w True False skip_content [OF n(2), of rest] by simp
      then show ?thesis using 1(4) True False ns
        unfolding walked_def by (intro exI [of _ w] exI [of _ "[]"]) (simp add: same_walk_def grown_def under_def Let_def)
    next
      case kept: True
      let ?c = "tg_free w"
      from enter_under [OF ok n(1) 1(4)] obtain v ls where
        v: "enter_element so n w = Some v" "under se sels ?c (p # st) (graft p (Node ?c ls) u) v"
          "tw_root v = tw_root w" "tw_switches v = tw_switches w" "grown w v" "?c < tg_free v"
          "set (nodes (Node ?c ls)) \<subseteq> {?c..<tg_free v}" "distinct (nodes (Node ?c ls))"
          "relabel (tg_dom_of v) (Node ?c ls) = Node n (link_copy so n)" by blast
      from forest [OF v(2)] obtain x vs where
        x: "\<forall>rest. walk so (concat (map tour ts) @ rest) v = walk so rest x" "same_walk v x" "grown v x"
          "is_tree (tg_graph x) (fold (graft ?c) vs (graft p (Node ?c ls) u))"
          "set (concat (map nodes vs)) \<subseteq> {tg_free v..<tg_free x}"
          "map (relabel (tg_dom_of x)) vs = concat (map (time_forest so se sels) ts)"
        unfolding walked_def by blast
      let ?x = "x\<lparr>tw_stack := p # st\<rparr>"
      have xs: "tw_stack x = ?c # p # st" "tg_settings x = se" "tw_selects x = sels"
        using x(2) v(2) by (simp_all add: same_walk_def under_def)
      have w1: "walk so (tour (Node n ts) @ rest) w = walk so rest ?x" for rest
        using sw lo w True kept v(1) x(1) xs by (simp add: leave_element_def)
      have nu: "?c \<notin> set (nodes u)" using 1(4) by (auto simp: under_def)
      have nv: "?c \<notin> set (concat (map nodes (ls @ vs)))" using v(6,8) x(5) by auto
      have g: "fold (graft ?c) vs (graft p (Node ?c ls) u) = graft p (Node ?c (ls @ vs)) u"
        by (simp only: grafts_graft [OF nu] grafts_root [OF nv])
      have "relabel (tg_dom_of x) (Node ?c ls) = Node n (link_copy so n)"
      proof -
        have "set (nodes (Node ?c ls)) \<subseteq> {..<tg_free v}" by (rule order_trans [OF v(7)]) auto
        from grown_relabel [OF x(3) this] show ?thesis unfolding v(9) .
      qed
      then have "relabel (tg_dom_of x) (Node ?c (ls @ vs)) = Node n (link_copy so n @ concat (map (time_forest so se sels) ts))"
        using x(6) by simp
      moreover have "set (nodes (Node ?c (ls @ vs))) \<subseteq> {?c..<tg_free x}"
        using v(6,7) x(3,5) by (fastforce simp: grown_def)
      moreover have "same_walk w ?x" using x(2) v(2,3,4) w by (simp add: same_walk_def under_def)
      moreover have "grown w ?x" using grown_trans [OF v(5) x(3)] by (simp add: grown_def)
      ultimately show ?thesis using w1 x(4) g True kept ns
        unfolding walked_def by (intro exI [of _ ?x] exI [of _ "[Node ?c (ls @ vs)]"]) (simp add: Let_def)
    qed
  qed
qed

section \<open>The walk above the time nodes\<close>

definition above :: "settings \<Rightarrow> nat option list \<Rightarrow> walker \<Rightarrow> bool" where
  "above se sels w \<longleftrightarrow> tg_settings w = se \<and> tw_selects w = sels \<and> length (tw_switches w) = length sels \<and> tw_stack w = []"

definition same_above :: "walker \<Rightarrow> walker \<Rightarrow> bool" where
  "same_above w w' \<longleftrightarrow> tw_stack w' = tw_stack w \<and> tw_switches w' = tw_switches w
     \<and> tw_selects w' = tw_selects w \<and> tg_settings w' = tg_settings w"

definition rooted :: "walker \<Rightarrow> tree option \<Rightarrow> bool" where
  "rooted w f \<longleftrightarrow>
     (case tw_root w of
        None \<Rightarrow> f = None
      | Some r \<Rightarrow> \<exists>u. label u = r \<and> is_tree (tg_graph w) u \<and> f = Some (relabel (tg_dom_of w) u))"

text \<open>Each time element that is not within another one becomes the root anew.\<close>

definition surveyed :: "source \<Rightarrow> (bool \<times> nat) list \<Rightarrow> tree list \<Rightarrow> walker \<Rightarrow> bool" where
  "surveyed so seen fs w \<longleftrightarrow>
     (\<exists>w'. (\<forall>rest. walk so (seen @ rest) w = walk so rest w') \<and> same_above w w'
        \<and> (\<forall>f. rooted w f \<longrightarrow> rooted w' (if fs = [] then f else Some (last fs))))"

lemma surveyed_append:
  assumes "above se sels w" "surveyed so a f w" "\<And>w'. above se sels w' \<Longrightarrow> surveyed so b g w'"
  shows "surveyed so (a @ b) (f @ g) w"
proof -
  obtain w1 where 1: "\<forall>rest. walk so (a @ rest) w = walk so rest w1" "same_above w w1"
    "\<forall>h. rooted w h \<longrightarrow> rooted w1 (if f = [] then h else Some (last f))" using assms(2) unfolding surveyed_def by blast
  have "above se sels w1" using assms(1) 1(2) by (simp add: above_def same_above_def)
  from assms(3) [OF this] obtain w2 where 2: "\<forall>rest. walk so (b @ rest) w1 = walk so rest w2" "same_above w1 w2"
    "\<forall>h. rooted w1 h \<longrightarrow> rooted w2 (if g = [] then h else Some (last g))" unfolding surveyed_def by blast
  have "same_above w w2" using 1(2) 2(2) by (simp add: same_above_def)
  moreover have "rooted w2 (if f @ g = [] then h else Some (last (f @ g)))" if "rooted w h" for h
    using 1(3) 2(3) that by (cases "g = []"; cases "f = []") auto
  ultimately show ?thesis using 1(1) 2(1) unfolding surveyed_def by (intro exI [of _ w2]) simp
qed

lemma enter_first:
  assumes "ready so se t" "n \<in> set (nodes t)" "above se sels w" "\<not> is_animation (name_of so n)"
  shows "\<exists>w' ls. enter_element so n w = Some w' \<and> under se sels (tg_free w) [] (Node (tg_free w) ls) w'
    \<and> tw_root w' = Some (tg_free w) \<and> tw_switches w' = tw_switches w
    \<and> set (nodes (Node (tg_free w) ls)) \<subseteq> {..<tg_free w'} \<and> distinct (nodes (Node (tg_free w) ls))
    \<and> relabel (tg_dom_of w') (Node (tg_free w) ls) = Node n (link_copy so n)"
proof -
  let ?c = "tg_free w"
  have st: "tw_stack w = []" using assms(3) by (simp add: above_def)
  from branch_made [OF assms(1,2), of None w] assms(4) obtain v v' ls where
    v: "create_time_node so n None w = Some (?c, v)" "add_link so n ?c v = Some v'"
    and b: "is_tree (tg_graph (give_id so n ?c v')) (Node ?c ls)" "?c < tg_free (give_id so n ?c v')"
      "set (nodes (Node ?c ls)) \<subseteq> {?c..<tg_free (give_id so n ?c v')}"
      "relabel (tg_dom_of (give_id so n ?c v')) (Node ?c ls) = Node n (link_copy so n)"
      "same_walk w (give_id so n ?c v')"
    by (auto simp: Let_def)
  let ?w = "(give_id so n ?c v')\<lparr>tw_root := Some ?c, tw_stack := [?c]\<rparr>"
  have "tw_stack (give_id so n ?c v') = []" using b(5) st by (simp add: same_walk_def)
  then have "enter_element so n w = Some ?w" using st v by (simp add: enter_element_def Let_def)
  moreover have sub: "set (nodes (Node ?c ls)) \<subseteq> {..<tg_free ?w}" using b(3) by (simp add: subset_iff)
  moreover have "distinct (nodes (Node ?c ls))" using b(1) unfolding is_tree_def by blast
  moreover have "under se sels ?c [] (Node ?c ls) ?w" using b(1,5) sub assms(3) by (simp add: under_def above_def same_walk_def)
  moreover have "tw_root ?w = Some ?c" "tw_switches ?w = tw_switches w" using b(5) by (simp_all add: same_walk_def)
  moreover have "relabel (tg_dom_of ?w) (Node ?c ls) = Node n (link_copy so n)" using b(4) by simp
  ultimately show ?thesis by blast
qed

lemma surveyed_untimed:
  assumes "ready so se t" "n \<in> set (nodes t)" "above se sels w" "\<not> timed so n"
    and "\<And>w. above se (if name_of so n = ''switch'' then choice so se n # sels else sels) w \<Longrightarrow> surveyed so seen fs w"
  shows "surveyed so ((True, n) # seen @ [(False, n)]) fs w"
proof (cases "name_of so n = ''switch''")
  case False
  then have "note_switch so b n v = Some v" for b v by (simp add: note_switch_def)
  moreover have "surveyed so seen fs w" using assms(3) assms(5) [of w] False by simp
  then obtain v where "\<forall>rest. walk so (seen @ rest) w = walk so rest v" "same_above w v"
    "\<forall>f. rooted w f \<longrightarrow> rooted v (if fs = [] then f else Some (last fs))" unfolding surveyed_def by blast
  ultimately show ?thesis using assms(4) unfolding surveyed_def by (intro exI [of _ v]) simp
next
  case True
  let ?w = "w\<lparr>tw_switches := n # tw_switches w, tw_selects := choice so se n # sels\<rparr>"
  have sc: "select_switch_child so n se = Some (choice so se n, se)"
    using assms(1,2) True by (auto simp: ready_def intro: switch_choice)
  have w: "tg_settings w = se" "tw_selects w = sels" using assms(3) by (simp_all add: above_def)
  then have ns: "note_switch so True n w = Some ?w" using True sc by (auto simp: note_switch_def)
  have "above se (choice so se n # sels) ?w" using assms(3) by (simp add: above_def)
  then obtain v where v: "\<forall>rest. walk so (seen @ rest) ?w = walk so rest v" "same_above ?w v"
    "\<forall>f. rooted ?w f \<longrightarrow> rooted v (if fs = [] then f else Some (last fs))"
    using assms(5) [of ?w] True unfolding surveyed_def by auto
  let ?v = "v\<lparr>tw_switches := tl (tw_switches v), tw_selects := tl (tw_selects v)\<rparr>"
  have "note_switch so False n v = Some ?v" using True v(2) by (simp add: note_switch_def same_above_def)
  then have "\<forall>rest. walk so (((True, n) # seen @ [(False, n)]) @ rest) w = walk so rest ?v"
    using v(1) ns assms(4) by simp
  moreover have "rooted ?w f = rooted w f" "rooted ?v f = rooted v f" for f by (simp_all add: rooted_def cong: option.case_cong)
  moreover have "same_above w ?v" using v(2) w by (simp add: same_above_def)
  ultimately show ?thesis using v(3) unfolding surveyed_def by blast
qed

lemma walk_above:
  assumes ok: "ready so se t"
  shows "set (nodes s) \<subseteq> set (nodes t) \<Longrightarrow> distinct (nodes s) \<Longrightarrow> above se sels w \<Longrightarrow>
    \<forall>v \<in> set (time_forest so se sels s). \<not> is_animation (name_of so (label v)) \<Longrightarrow>
    surveyed so (tour s) (time_forest so se sels s) w"
proof (induction s arbitrary: sels w rule: nodes.induct)
  case (1 n ts)
  have n: "n \<in> set (nodes t)" "n \<notin> set (concat (map nodes ts))" using 1(2,3) by auto
  show ?case
  proof (cases "timed so n")
    case False
    let ?sels = "if name_of so n = ''switch'' then choice so se n # sels else sels"
    have "surveyed so (concat (map tour ts)) (concat (map (time_forest so se ?sels) ts)) w" if "above se ?sels w" for w
      using that 1(1,2,3) 1(5) False
    proof (induction ts arbitrary: w)
      case Nil
      then show ?case unfolding surveyed_def by (intro exI [of _ w]) (simp add: same_above_def)
    next
      case (Cons s ts)
      have "surveyed so (tour s) (time_forest so se ?sels s) w"
        using Cons.prems by (intro Cons.prems(2)) (auto simp: Let_def)
      moreover have "surveyed so (concat (map tour ts)) (concat (map (time_forest so se ?sels) ts)) w'"
        if "above se ?sels w'" for w'
        by (rule Cons.IH [OF that]) (use Cons.prems in \<open>auto simp: distinct_concat_iff Let_def\<close>)
      ultimately show ?case using surveyed_append [OF Cons.prems(1)] by simp
    qed
    then show ?thesis using surveyed_untimed [OF ok n(1) 1(4) False] False by (simp add: Let_def)
  next
    case True
    note ns = timed_not_switch [OF True]
    have sw: "note_switch so b n v = Some v" for b v using ns by (simp add: note_switch_def)
    have lo: "left_out so n v = Some (\<not> kept so se sels n, v)" if "tg_settings v = se" "tw_selects v = sels" for v
      using left_out_eq [OF ok n(1) that] .
    have w: "tg_settings w = se" "tw_selects w = sels" "tw_stack w = []" using 1(4) by (simp_all add: above_def)
    show ?thesis
    proof (cases "kept so se sels n")
      case False
      have "walk so (tour (Node n ts) @ rest) w = walk so rest w" for rest
        using sw lo w True False skip_content [OF n(2), of rest] by simp
      then show ?thesis using True False ns
        unfolding surveyed_def by (intro exI [of _ w]) (simp add: same_above_def Let_def)
    next
      case kept: True
      let ?c = "tg_free w"
      have "\<not> is_animation (name_of so n)" using 1(5) True kept ns by (simp add: Let_def)
      from enter_first [OF ok n(1) 1(4) this] obtain v ls where
        v: "enter_element so n w = Some v" "under se sels ?c [] (Node ?c ls) v" "tw_root v = Some ?c"
          "tw_switches v = tw_switches w" "set (nodes (Node ?c ls)) \<subseteq> {..<tg_free v}"
          "distinct (nodes (Node ?c ls))" "relabel (tg_dom_of v) (Node ?c ls) = Node n (link_copy so n)" by blast
      have forest: "walked so (concat (map tour us)) (concat (map (time_forest so se sels) us)) ?c u y"
        if "set us \<subseteq> set ts" "distinct (concat (map nodes us))" "under se sels ?c [] u y" for us u y
        using that
      proof (induction us arbitrary: u y)
        case Nil
        then show ?case by (simp add: walked_Nil under_def)
      next
        case (Cons s us)
        have "walked so (tour s) (time_forest so se sels s) ?c u y"
          by (rule walk_under [OF ok _ _ Cons.prems(3)]) (use Cons.prems 1(2) in auto)
        moreover have "walked so (concat (map tour us)) (concat (map (time_forest so se sels) us)) ?c v w'"
          if "under se sels ?c [] v w'" for v w'
          by (rule Cons.IH [OF _ _ that]) (use Cons.prems in auto)
        ultimately show ?case using walked_append [OF Cons.prems(3)] by simp
      qed
      have "distinct (concat (map nodes ts))" using 1(3) by simp
      from forest [OF order_refl this v(2)] obtain x vs where
        x: "\<forall>rest. walk so (concat (map tour ts) @ rest) v = walk so rest x" "same_walk v x" "grown v x"
          "is_tree (tg_graph x) (fold (graft ?c) vs (Node ?c ls))"
          "set (concat (map nodes vs)) \<subseteq> {tg_free v..<tg_free x}"
          "map (relabel (tg_dom_of x)) vs = concat (map (time_forest so se sels) ts)"
        unfolding walked_def by blast
      let ?x = "x\<lparr>tw_stack := []\<rparr>"
      have xs: "tw_stack x = [?c]" "tg_settings x = se" "tw_selects x = sels" "tw_root x = Some ?c" "tw_switches x = tw_switches w"
        using x(2) v(2,3,4) by (simp_all add: same_walk_def under_def)
      have w1: "walk so (tour (Node n ts) @ rest) w = walk so rest ?x" for rest
        using sw lo w True kept v(1) x(1) xs by (simp add: leave_element_def)
      have "?c < tg_free v" using v(5) by auto
      then have nv: "?c \<notin> set (concat (map nodes (ls @ vs)))" using v(6) x(5) by auto
      have "relabel (tg_dom_of x) (Node ?c ls) = Node n (link_copy so n)"
        using grown_relabel [OF x(3) v(5)] unfolding v(7) .
      then have "relabel (tg_dom_of x) (Node ?c (ls @ vs)) = Node n (link_copy so n @ concat (map (time_forest so se sels) ts))"
        using x(6) by simp
      moreover have "time_forest so se sels (Node n ts) = [Node n (link_copy so n @ concat (map (time_forest so se sels) ts))]"
        using True kept ns by (simp add: Let_def)
      ultimately have "rooted ?x (Some (last (time_forest so se sels (Node n ts))))"
        using x(4) xs(4) unfolding grafts_root [OF nv] rooted_def
        by (simp del: relabel.simps time_forest.simps, intro exI [of _ "Node ?c (ls @ vs)"]) simp
      moreover have "same_above w ?x" using xs w by (simp add: same_above_def)
      moreover have "time_forest so se sels (Node n ts) \<noteq> []" using True kept ns by (simp add: Let_def)
      ultimately show ?thesis using w1 unfolding surveyed_def
        by (intro exI [of _ ?x]) (simp del: time_forest.simps tour.simps)
    qed
  qed
qed


text \<open>
  A switch in a branch of another switch that is not selected plays all the same: the body 0 has a
  switch 1 with an audio 2 and a switch 3 with a video 4.
\<close>

definition demo_names :: "nat \<Rightarrow> string" where
  "demo_names n = (if n = 0 then ''body'' else if n = 1 \<or> n = 3 then ''switch'' else if n = 2 then ''audio'' else ''video'')"

definition demo_dom :: dom where
  "demo_dom = \<lparr>ln_up = [1 \<mapsto> 0, 2 \<mapsto> 1, 3 \<mapsto> 1, 4 \<mapsto> 3], ln_down = [0 \<mapsto> 1, 1 \<mapsto> 2, 3 \<mapsto> 4], ln_next = [2 \<mapsto> 3],
     ln_live = {0, 1, 2, 3, 4}, dm_node = (\<lambda>n. plain_node ([], demo_names n) (demo_names n) False), dm_counter = 5, dm_free = 5\<rparr>"

definition demo_source :: source where
  "demo_source = \<lparr>so_dom = demo_dom, so_doc = new_document,
     so_cx = \<lparr>cx_supported_prefix = (\<lambda>_. True), cx_apply_avt = (\<lambda>_ _ v. v)\<rparr>,
     so_platform = \<lparr>pf_cpu = [], pf_os = [], pf_version = []\<rparr>, so_floats = zero_lib, so_transition = Map.empty,
     so_raw = plain_attrs, so_dynamic = False, so_timer = False\<rparr>"

definition demo_settings :: settings where
  "demo_settings = \<lparr>se_tests = [(''systemCPU'', ''x'')], se_inited = True, se_custom = [], se_languages = []\<rparr>"

definition demo_tree :: tree where
  "demo_tree = Node 0 [Node 1 [Node 2 [], Node 3 [Node 4 []]]]"

lemma demo_dom_tree: "is_tree demo_dom demo_tree"
  by (simp add: is_tree_def represents_def family_def demo_tree_def demo_dom_def)

lemma demo_parts: "so_dom demo_source = demo_dom" "\<not> so_dynamic demo_source" "attr_of demo_source n a = None"
  "d_is_data (dm_node demo_dom n) = False" "name_of demo_source n = demo_names n"
  "ensure_tests (so_platform demo_source) demo_settings = demo_settings"
  by (simp_all add: attr_of_def get_attribute_def name_of_def demo_source_def demo_dom_def plain_node_def
      ensure_tests_def demo_settings_def)

lemma demo_selected: "is_selected demo_source n demo_settings = (Some True, demo_settings)"
  by (simp add: is_selected_def selected_def selected_in_def check_def demo_parts)

lemma demo_switch: "select_switch_child demo_source 1 demo_settings = Some (Some 2, demo_settings)"
  "select_switch_child demo_source 3 demo_settings = Some (Some 4, demo_settings)"
proof -
  have "get_children demo_dom 1 = Some [2, 3]" "get_children demo_dom 3 = Some [4]"
    by (rule get_children_family, simp add: family_def demo_dom_def)+
  then show "select_switch_child demo_source 1 demo_settings = Some (Some 2, demo_settings)"
    "select_switch_child demo_source 3 demo_settings = Some (Some 4, demo_settings)"
    by (simp_all add: select_switch_child_def demo_selected demo_parts)
qed

lemma demo_ready: "ready demo_source demo_settings demo_tree"
  using demo_switch demo_dom_tree
  by (simp add: ready_def testable_def demo_selected demo_parts demo_names_def)

lemma demo_forest: "time_forest demo_source demo_settings [] demo_tree = [Node 0 [Node 2 [], Node 4 []]]"
proof -
  have l: "link_copy demo_source 0 = []" "link_copy demo_source 2 = []" "link_copy demo_source 4 = []"
    by (simp_all add: link_copy_def demo_parts demo_dom_def demo_names_def)
  have t: "timed demo_source n \<longleftrightarrow> n \<noteq> 1 \<and> n \<noteq> 3" for n
    by (auto simp: timed_def is_onload_a_def demo_parts demo_names_def is_time_element_def time_containers_def
      discrete_leafs_def continuous_leafs_def animate_elements_def statecommand_elements_def prefetch_elements_def)
  show ?thesis
    using demo_switch l
    by (simp add: demo_tree_def kept_def in_scope_def demo_selected choice_def demo_parts demo_names_def is_descendent_def
        t Let_def)
qed


end
