(* ===== verification/Timegraph_Arcs.thy ===== *)
theory Timegraph_Arcs
  imports Timegraph_Tree
begin

text \<open>
  The sync arcs of the finished time graph: every rule is an entry of exactly one list of its target
  and of the dependents of its base, and its reference node is the common ancestor of the two time lines.
\<close>

definition arcs_ok :: "tgraph \<Rightarrow> bool" where
  "arcs_ok g \<longleftrightarrow>
     (\<forall>n r. r \<in> set (n_begin_list (tg_node g n)) \<longleftrightarrow>
        r < tg_next_rule g \<and> r_target (tg_rule g r) = n \<and> r_target_attr (tg_rule g r) = rt_begin)
     \<and> (\<forall>n r. r \<in> set (n_end_list (tg_node g n)) \<longleftrightarrow>
        r < tg_next_rule g \<and> r_target (tg_rule g r) = n \<and> r_target_attr (tg_rule g r) = rt_end)
     \<and> (\<forall>n r. n_transout (tg_node g n) = Some r \<longrightarrow>
        r < tg_next_rule g \<and> r_target (tg_rule g r) = n \<and> r_target_attr (tg_rule g r) = rt_transout)
     \<and> (\<forall>n ev r. r \<in> set (n_dependents (tg_node g n) ev) \<longleftrightarrow>
        r < tg_next_rule g \<and> r_syncbase (tg_rule g r) = n \<and> r_event (tg_rule g r) = ev)
     \<and> (\<forall>r < tg_next_rule g. \<exists>a. r_refnode (tg_rule g r) = Some a \<and>
          get_common_ancestor g (sync_node g (r_target (tg_rule g r))) (sync_node g (r_syncbase (tg_rule g r))) = Some a)"

text \<open>What adding rules does not change.\<close>

definition same_tree :: "tgraph \<Rightarrow> tgraph \<Rightarrow> bool" where
  "same_tree g g' \<longleftrightarrow> ln_up g' = ln_up g \<and> ln_down g' = ln_down g \<and> ln_next g' = ln_next g"

lemma path_loop_same: "path_loop h n p = Some r \<Longrightarrow> ln_up h' = ln_up h \<longrightarrow> path_loop h' n p = Some r"
proof (rule path_loop.raw_induct [where P = "\<lambda>h n p r. ln_up h' = ln_up h \<longrightarrow> path_loop h' n p = Some r"])
  fix f h n p r
  assume "\<And>h n p r. f h n p = Some r \<Longrightarrow> ln_up h' = ln_up h \<longrightarrow> path_loop h' n p = Some r"
    and "(case ln_up h n of None \<Rightarrow> Some (n # p) | Some u \<Rightarrow> f h u (n # p)) = Some r"
  then show "ln_up h' = ln_up h \<longrightarrow> path_loop h' n p = Some r"
    by (subst path_loop.simps) (auto split: option.splits)
qed

lemma get_path_same: "ln_up h' = ln_up h \<Longrightarrow> get_path h' = get_path h"
proof
  fix n assume u: "ln_up h' = ln_up h"
  show "get_path h' n = get_path h n"
    using path_loop_same [of h n "[]" _ h'] path_loop_same [of h' n "[]" _ h] u
    unfolding get_path_def by (cases "path_loop h n []"; cases "path_loop h' n []") auto
qed

lemma ancestor_same: "same_tree g g' \<Longrightarrow> get_common_ancestor g' = get_common_ancestor g"
proof -
  assume "same_tree g g'"
  then have u: "ln_up g' = ln_up g" and d: "ln_down g' = ln_down g" by (simp_all add: same_tree_def)
  show ?thesis by (simp only: get_common_ancestor_def [abs_def] get_path_same [OF u] u d)
qed

lemma sync_node_same: "same_tree g g' \<Longrightarrow> sync_node g' = sync_node g"
  by (simp add: same_tree_def sync_node_def fun_eq_iff)

lemma arcs_ok_cong:
  assumes "arcs_ok g" "same_tree g g'" "tg_rule g' = tg_rule g" "tg_next_rule g' = tg_next_rule g"
    and "\<forall>n. n_begin_list (tg_node g' n) = n_begin_list (tg_node g n) \<and> n_end_list (tg_node g' n) = n_end_list (tg_node g n)
      \<and> n_transout (tg_node g' n) = n_transout (tg_node g n) \<and> n_dependents (tg_node g' n) = n_dependents (tg_node g n)"
  shows "arcs_ok g'"
  using assms(1) unfolding arcs_ok_def ancestor_same [OF assms(2)] sync_node_same [OF assms(2)] assms(3,4)
  by (simp add: assms(5))

lemma upd_rule_same [simp]:
  "get_common_ancestor (upd_rule r f g) = get_common_ancestor g" "sync_node (upd_rule r f g) = sync_node g"
  "get_common_ancestor (g\<lparr>tg_next_rule := m\<rparr>) = get_common_ancestor g" "sync_node (g\<lparr>tg_next_rule := m\<rparr>) = sync_node g"
  by (rule ancestor_same sync_node_same, simp add: same_tree_def upd_rule_def)+

text \<open>The finished rule and the graph with it.\<close>

definition arc :: "rule_type \<Rightarrow> nat \<Rightarrow> rule_kind \<Rightarrow> nat \<Rightarrow> sync_event \<Rightarrow> stime \<Rightarrow> int \<Rightarrow> string \<Rightarrow> nat \<Rightarrow> sync_rule" where
  "arc rt tn k base ev off sel str a = \<lparr>r_kind = k, r_target = tn, r_target_attr = rt, r_syncbase = base, r_event = ev,
     r_refnode = Some a, r_offset = off, r_selector = sel, r_str_selector = str, r_locked = False, r_instances = []\<rparr>"

definition list_rule :: "rule_type \<Rightarrow> nat \<Rightarrow> time_node \<Rightarrow> time_node" where
  "list_rule rt r x =
     (case rt of
        rt_begin \<Rightarrow> x\<lparr>n_begin_list := n_begin_list x @ [r]\<rparr>
      | rt_end \<Rightarrow> x\<lparr>n_end_list := n_end_list x @ [r]\<rparr>
      | rt_transout \<Rightarrow> x\<lparr>n_transout := Some r\<rparr>)"

lemma add_rule_form:
  "add_rule rt tn k base ev off sel str g =
     (case get_common_ancestor g (sync_node g tn) (sync_node g base) of
        None \<Rightarrow> None
      | Some a \<Rightarrow> Some (upd tn (list_rule rt (tg_next_rule g))
          (upd base (\<lambda>x. x\<lparr>n_dependents := (n_dependents x)(ev := n_dependents x ev @ [tg_next_rule g])\<rparr>)
            (g\<lparr>tg_rule := (tg_rule g)(tg_next_rule g := arc rt tn k base ev off sel str a), tg_next_rule := Suc (tg_next_rule g)\<rparr>))))"
  by (cases rt)
    (simp_all add: add_rule_def new_rule_def add_begin_rule_def add_end_rule_def set_transout_rule_def add_dependent_def
      set_syncbase_def set_target_def eval_refnode_def Let_def list_rule_def arc_def, simp_all add: upd_rule_def upd_def list_rule_def arc_def split: option.split)

lemma add_rule_arcs:
  assumes "arcs_ok g" "add_rule rt tn k base ev off sel str g = Some g'"
  shows "arcs_ok g' \<and> same_tree g g'"
proof -
  let ?r = "tg_next_rule g"
  obtain a where a: "get_common_ancestor g (sync_node g tn) (sync_node g base) = Some a"
    using assms(2) by (auto simp: add_rule_form split: option.splits)
  let ?g = "upd tn (list_rule rt ?r)
          (upd base (\<lambda>x. x\<lparr>n_dependents := (n_dependents x)(ev := n_dependents x ev @ [?r])\<rparr>)
            (g\<lparr>tg_rule := (tg_rule g)(?r := arc rt tn k base ev off sel str a), tg_next_rule := Suc ?r\<rparr>))"
  have g': "g' = ?g" using assms(2) a by (simp add: add_rule_form)
  have t: "same_tree g ?g" by (simp add: same_tree_def upd_def)
  have n: "tg_node ?g n = (if n = tn then list_rule rt ?r else id)
      (if n = base then (tg_node g n)\<lparr>n_dependents := (n_dependents (tg_node g n))(ev := n_dependents (tg_node g n) ev @ [?r])\<rparr> else tg_node g n)" for n
    by (simp add: upd_def)
  have lists: "n_begin_list (tg_node ?g n) = n_begin_list (tg_node g n) @ (if n = tn \<and> rt = rt_begin then [?r] else [])"
    "n_end_list (tg_node ?g n) = n_end_list (tg_node g n) @ (if n = tn \<and> rt = rt_end then [?r] else [])"
    "n_transout (tg_node ?g n) = (if n = tn \<and> rt = rt_transout then Some ?r else n_transout (tg_node g n))"
    "n_dependents (tg_node ?g n) e = n_dependents (tg_node g n) e @ (if n = base \<and> e = ev then [?r] else [])" for n e
    unfolding n by (cases rt; simp add: list_rule_def)+
  have r: "tg_rule ?g = (tg_rule g)(?r := arc rt tn k base ev off sel str a)" "tg_next_rule ?g = Suc ?r"
    by (simp_all add: upd_def)
  have "arcs_ok ?g"
    using assms(1) a
    unfolding arcs_ok_def ancestor_same [OF t] sync_node_same [OF t] lists r
    by (auto simp: arc_def less_Suc_eq split: if_splits)
  with t g' show ?thesis by simp
qed

section \<open>The steps of the construction\<close>

text \<open>A step keeps the tree and the rules there are, and adds begin rules only to nodes of \<open>N\<close>.\<close>

definition keeps_kinds :: "tgraph \<Rightarrow> tgraph \<Rightarrow> bool" where
  "keeps_kinds g g' \<longleftrightarrow> (\<forall>m. n_type (tg_node g' m) = n_type (tg_node g m) \<and> n_attrs (tg_node g' m) = n_attrs (tg_node g m))"

definition adds_to :: "nat set \<Rightarrow> tgraph \<Rightarrow> tgraph \<Rightarrow> bool" where
  "adds_to N g g' \<longleftrightarrow> same_tree g g' \<and> keeps_kinds g g' \<and> tg_next_rule g \<le> tg_next_rule g'
     \<and> (\<forall>r < tg_next_rule g. tg_rule g' r = tg_rule g r)
     \<and> (\<forall>m. m \<notin> N \<longrightarrow> n_begin_list (tg_node g' m) = n_begin_list (tg_node g m))"

definition graph_ok :: "nat set \<Rightarrow> tgraph \<Rightarrow> tgraph \<Rightarrow> bool" where
  "graph_ok N g g' \<longleftrightarrow> (arcs_ok g \<longrightarrow> arcs_ok g') \<and> adds_to N g g'"

definition step_ok :: "nat set \<Rightarrow> walker \<Rightarrow> walker \<Rightarrow> bool" where
  "step_ok N w w' \<longleftrightarrow> graph_ok N (tg_graph w) (tg_graph w') \<and> tg_dom_of w' = tg_dom_of w \<and> tw_root w' = tw_root w
     \<and> tg_id2tn w' = tg_id2tn w \<and> tg_dom2tn w' = tg_dom2tn w"

lemma graph_ok_refl [simp]: "graph_ok N g g"
  by (simp add: graph_ok_def adds_to_def keeps_kinds_def same_tree_def)

lemma graph_ok_trans: "graph_ok N g g' \<Longrightarrow> graph_ok N g' g'' \<Longrightarrow> graph_ok N g g''"
  by (simp add: graph_ok_def adds_to_def keeps_kinds_def same_tree_def)

lemma graph_ok_mono: "graph_ok N g g' \<Longrightarrow> N \<subseteq> M \<Longrightarrow> graph_ok M g g'"
  by (auto simp: graph_ok_def adds_to_def)

lemma step_ok_refl [simp]: "step_ok N w w"
  by (simp add: step_ok_def)

lemma step_ok_trans: "step_ok N w w' \<Longrightarrow> step_ok N w' w'' \<Longrightarrow> step_ok N w w''"
  by (auto simp: step_ok_def intro: graph_ok_trans)

lemma step_ok_mono: "step_ok N w w' \<Longrightarrow> N \<subseteq> M \<Longrightarrow> step_ok M w w'"
  by (auto simp: step_ok_def intro: graph_ok_mono)

lemma foldm_graph_ok: "(\<And>x g g'. f x g = Some g' \<Longrightarrow> graph_ok N g g') \<Longrightarrow> foldm f xs g = Some g' \<Longrightarrow> graph_ok N g g'"
proof (induction xs arbitrary: g)
  case (Cons x xs)
  from Cons.prems(2) obtain g1 where g1: "f x g = Some g1" "foldm f xs g1 = Some g'" by (auto simp: bind_eq_Some_conv)
  have "graph_ok N g g1" by (rule Cons.prems(1) [OF g1(1)])
  moreover have "graph_ok N g1 g'" by (rule Cons.IH [OF _ g1(2)]) (rule Cons.prems(1))
  ultimately show ?case by (rule graph_ok_trans)
qed simp

lemma foldm_step_ok: "(\<And>x w w'. f x w = Some w' \<Longrightarrow> step_ok N w w') \<Longrightarrow> foldm f xs w = Some w' \<Longrightarrow> step_ok N w w'"
proof (induction xs arbitrary: w)
  case (Cons x xs)
  from Cons.prems(2) obtain w1 where w1: "f x w = Some w1" "foldm f xs w1 = Some w'" by (auto simp: bind_eq_Some_conv)
  have "step_ok N w w1" by (rule Cons.prems(1) [OF w1(1)])
  moreover have "step_ok N w1 w'" by (rule Cons.IH [OF _ w1(2)]) (rule Cons.prems(1))
  ultimately show ?case by (rule step_ok_trans)
qed simp

lemma each_step_ok: "(\<And>x w w'. f x w = Some w' \<Longrightarrow> step_ok N w w') \<Longrightarrow> each_time_node f r w = Some w' \<Longrightarrow> step_ok N w w'"
  by (auto simp: each_time_node_def bind_eq_Some_conv intro: foldm_step_ok)

lemma try_step_ok: "(\<And>g g'. f g = Some g' \<Longrightarrow> graph_ok N g g') \<Longrightarrow> try_graph f w = Some w' \<Longrightarrow> step_ok N w w'"
  by (auto simp: try_graph_def step_ok_def)

lemma upd_graph_ok:
  assumes "\<And>x. n_begin_list (f x) = n_begin_list x \<and> n_end_list (f x) = n_end_list x \<and> n_transout (f x) = n_transout x
    \<and> n_dependents (f x) = n_dependents x \<and> n_type (f x) = n_type x \<and> n_attrs (f x) = n_attrs x"
  shows "graph_ok N g (upd n f g)"
proof -
  have "adds_to N g (upd n f g)" using assms by (simp add: adds_to_def keeps_kinds_def same_tree_def upd_def)
  moreover have "arcs_ok g \<longrightarrow> arcs_ok (upd n f g)"
    using arcs_ok_cong [of g "upd n f g"] assms by (simp add: same_tree_def upd_def)
  ultimately show ?thesis by (simp add: graph_ok_def)
qed

lemma add_rule_ok: "add_rule rt tn k base ev off sel str g = Some g' \<Longrightarrow> (rt = rt_begin \<longrightarrow> tn \<in> N) \<Longrightarrow> graph_ok N g g'"
proof -
  assume r: "add_rule rt tn k base ev off sel str g = Some g'" "rt = rt_begin \<longrightarrow> tn \<in> N"
  then have "adds_to N g g'"
    by (cases rt) (auto simp: add_rule_form adds_to_def keeps_kinds_def same_tree_def upd_def list_rule_def split: option.splits)
  then show ?thesis using add_rule_arcs [OF _ r(1)] by (auto simp: graph_ok_def)
qed

lemma implicit_ok: "add_impl_syncbase_rule rt p tn off g = Some g' \<Longrightarrow> (rt = rt_begin \<longrightarrow> tn \<in> N) \<Longrightarrow> graph_ok N g g'"
  by (auto simp: add_impl_syncbase_rule_def bind_eq_Some_conv intro: add_rule_ok)

lemma impl_begin_ok: "add_impl_begin_rule p tn g = Some g' \<Longrightarrow> tn \<in> N \<Longrightarrow> graph_ok N g g'"
  by (auto simp: add_impl_begin_rule_def intro: implicit_ok)

lemma want_event_ok: "step_ok N w (want_event ev b w)"
  by (auto simp: want_event_def step_ok_def upd_graph_def intro: upd_graph_ok)

lemma rule_ok: "try_graph (add_rule rt tn k base ev off sel str) w = Some w' \<Longrightarrow> (rt = rt_begin \<longrightarrow> tn \<in> N) \<Longrightarrow> step_ok N w w'"
  by (rule try_step_ok [OF add_rule_ok])

lemma syncbase_ok: "add_syncbase_rule rt tn svs w = Some w' \<Longrightarrow> (rt = rt_begin \<longrightarrow> tn \<in> N) \<Longrightarrow> step_ok N w w'"
  by (auto simp: add_syncbase_rule_def bind_eq_Some_conv split: if_splits option.splits intro: rule_ok)

lemma marker_ok: "add_marker_rule so rt tn svs w = Some w' \<Longrightarrow> (rt = rt_begin \<longrightarrow> tn \<in> N) \<Longrightarrow> step_ok N w w'"
  by (auto simp: add_marker_rule_def bind_eq_Some_conv split: option.splits intro: rule_ok)

lemma flags_ok [simp]: "step_ok N (w\<lparr>tg_accesskeys := a\<rparr>) w' = step_ok N w w'" "step_ok N (w\<lparr>tg_state_args := b\<rparr>) w' = step_ok N w w'"
  by (simp_all add: step_ok_def)

lemma event_ok:
  assumes "add_event_rule so r rt tn svs w = Some w'" "rt = rt_begin \<longrightarrow> tn \<in> N"
  shows "step_ok N w w'"
proof -
  have e: "step_ok N w w'" if "try_graph (add_rule rt tn event_rule b ev off 0 []) (want_event ev b w) = Some w'" for b ev off
    using rule_ok [OF that assms(2)] want_event_ok step_ok_trans by blast
  show ?thesis
    using assms
    by (auto simp: add_event_rule_def bind_eq_Some_conv Let_def split: sync_value_type.splits option.splits if_splits
        intro: e marker_ok rule_ok dest!: rule_ok)
qed

lemma offsets_ok:
  "try_graph (foldm (add_impl_syncbase_rule rt p tn) os) w = Some w' \<Longrightarrow> (rt = rt_begin \<longrightarrow> tn \<in> N) \<Longrightarrow> step_ok N w w'"
  by (rule try_step_ok [OF foldm_graph_ok [OF implicit_ok]])

lemma syncbases_ok: "foldm (add_syncbase_rule rt tn) l w = Some w' \<Longrightarrow> (rt = rt_begin \<longrightarrow> tn \<in> N) \<Longrightarrow> step_ok N w w'"
  by (rule foldm_step_ok [OF syncbase_ok])

lemma events_ok: "foldm (add_event_rule so r rt tn) l w = Some w' \<Longrightarrow> (rt = rt_begin \<longrightarrow> tn \<in> N) \<Longrightarrow> step_ok N w w'"
  by (rule foldm_step_ok [OF event_ok])

lemma begin_rules_ok: "add_begin_sync_rules so r tn w = Some w' \<Longrightarrow> tn \<in> N \<Longrightarrow> step_ok N w w'"
  by (auto simp: add_begin_sync_rules_def bind_eq_Some_conv Let_def split: option.splits if_splits
      intro: try_step_ok [OF impl_begin_ok] offsets_ok step_ok_trans [OF offsets_ok step_ok_trans [OF syncbases_ok events_ok]])

lemma end_rules_ok: "add_end_sync_rules so r tn w = Some w' \<Longrightarrow> step_ok N w w'"
  by (auto simp: add_end_sync_rules_def bind_eq_Some_conv Let_def split: option.splits
      intro: step_ok_trans [OF offsets_ok step_ok_trans [OF syncbases_ok events_ok]])

lemma upd_step_ok: "graph_ok N (tg_graph w) (f (tg_graph w)) \<Longrightarrow> step_ok N w (upd_graph f w)"
  by (simp add: step_ok_def upd_graph_def)

lemma node_rules_ok: "build_node_rules so r tn w = Some w' \<Longrightarrow> tn \<in> N \<Longrightarrow> step_ok N w w'"
proof -
  assume n: "tn \<in> N" and "build_node_rules so r tn w = Some w'"
  then obtain v x where v: "add_begin_sync_rules so r tn w = Some v" "add_end_sync_rules so r tn v = Some x"
    "w' = upd_graph (want_activation tn) x" by (auto simp: build_node_rules_def bind_eq_Some_conv)
  have "step_ok N x w'" unfolding v(3) by (rule upd_step_ok) (auto simp: want_activation_def intro: upd_graph_ok)
  then show ?thesis using begin_rules_ok [OF v(1) n] end_rules_ok [OF v(2)] step_ok_trans by blast
qed

lemma assign_class_ok: "graph_ok N g (assign_class c prio g)"
proof -
  have "graph_ok N g (fold (\<lambda>m g. case m of Some k \<Rightarrow> upd k (\<lambda>x. x\<lparr>n_priority := prio\<rparr>) g | None \<Rightarrow> g) ms g)" for ms
  proof (induction ms arbitrary: g)
    case (Cons m ms)
    have "graph_ok N g (case m of Some k \<Rightarrow> upd k (\<lambda>x. x\<lparr>n_priority := prio\<rparr>) g | None \<Rightarrow> g)"
      by (auto split: option.split intro: upd_graph_ok)
    then show ?case using Cons.IH graph_ok_trans by auto
  qed simp
  then show ?thesis by (cases c) (auto split: if_splits)
qed

lemma priorities_ok: "graph_ok N g (built_priorities e cs g)"
proof -
  have "graph_ok N g (fold (\<lambda>(c, prio) g. assign_class c prio g) ps g)" for ps
  proof (induction ps arbitrary: g)
    case (Cons p ps)
    obtain c prio where p: "p = (c, prio)" by (cases p)
    show ?case using graph_ok_trans [OF assign_class_ok Cons.IH, of g c prio] by (simp add: p)
  qed simp
  then have classes: "graph_ok N g (upd e (\<lambda>x. x\<lparr>n_prio_attrs := l\<rparr>) (fold (\<lambda>(c, prio) g. assign_class c prio g) ps g))" for l ps
    by (rule graph_ok_trans) (rule upd_graph_ok, simp)
  have plain: "graph_ok N g (upd e (\<lambda>x. x\<lparr>n_prio_attrs := l\<rparr>) g)" for l by (rule upd_graph_ok) simp
  show ?thesis
  proof (cases cs)
    case (Cons c cs')
    then have "built_priorities e cs g = (if fst c = ''priorityClass''
        then upd e (\<lambda>x. x\<lparr>n_prio_attrs := map class_attrs (rev cs)\<rparr>)
          (fold (\<lambda>(c, prio) g. assign_class c prio g) (zip cs (rev [0..<length cs])) g)
        else upd e (\<lambda>x. x\<lparr>n_prio_attrs := [default_priority]\<rparr>) g)"
      by (cases c) (simp only: built_priorities_def list.case prod.case fst_conv)
    then show ?thesis by (cases "fst c = ''priorityClass''") (simp_all only: if_True if_False classes plain simp_thms)
  qed (simp add: built_priorities_def plain)
qed

lemma node_priorities_ok: "build_node_priorities so e w = Some w' \<Longrightarrow> step_ok N w w'"
  by (auto simp: build_node_priorities_def bind_eq_Some_conv split: if_splits intro: upd_step_ok priorities_ok)

lemma timers_ok: "build_timers_graph so r w = Some w' \<Longrightarrow> step_ok N w w'"
proof -
  have "step_ok N w (upd_graph (upd tn (\<lambda>x. x\<lparr>n_has_timer := True\<rparr>)) w)" for tn w
    by (rule upd_step_ok, rule upd_graph_ok) simp
  then show "build_timers_graph so r w = Some w' \<Longrightarrow> step_ok N w w'"
    by (auto simp: build_timers_graph_def split: if_splits elim!: each_step_ok [rotated])
qed

lemma trans_out_ok: "build_trans_out_graph r w = Some w' \<Longrightarrow> step_ok N w w'"
proof -
  have "graph_ok N g g'" if "add_trans_out tn g = Some g'" for tn g g'
    using that by (auto simp: add_trans_out_def Let_def split: option.splits if_splits intro: add_rule_ok)
  then show "build_trans_out_graph r w = Some w' \<Longrightarrow> step_ok N w w'"
    unfolding build_trans_out_graph_def by (elim each_step_ok [rotated]) (rule try_step_ok)
qed

section \<open>The begin arcs\<close>

type_synonym arc_kind = "rule_kind \<times> nat \<times> sync_event \<times> stime"

definition arc_of :: "sync_rule \<Rightarrow> arc_kind" where
  "arc_of x = (r_kind x, r_syncbase x, r_event x, r_offset x)"

definition begin_arcs :: "tgraph \<Rightarrow> nat \<Rightarrow> arc_kind list" where
  "begin_arcs g n = map (\<lambda>r. arc_of (tg_rule g r)) (n_begin_list (tg_node g n))"

text \<open>The arc to the parent, or to the element before in a "seq".\<close>

definition parent_arc :: "tgraph \<Rightarrow> nat \<Rightarrow> nat \<Rightarrow> stime \<Rightarrow> arc_kind" where
  "parent_arc g p n off =
     (case (if is_seq (tg_node g p) then previous g n else Some None) of
        Some (Some q) \<Rightarrow> (model_rule, q, tn_end, off)
      | _ \<Rightarrow> (offset_rule, p, tn_begin, off))"

definition the_list :: "'a option \<Rightarrow> 'a list" where
  "the_list m = (case m of None \<Rightarrow> [] | Some x \<Rightarrow> [x])"

text \<open>The element a value names, which may be the one before.\<close>

definition named_base :: "(string \<rightharpoonup> nat) \<Rightarrow> tgraph \<Rightarrow> nat \<Rightarrow> string \<Rightarrow> nat option" where
  "named_base ids g n i =
     (case ids i of
        Some b \<Rightarrow> Some b
      | None \<Rightarrow> if i = ''prev'' then (case previous g n of Some q \<Rightarrow> q | None \<Rightarrow> None) else None)"

definition base_arcs :: "(string \<rightharpoonup> nat) \<Rightarrow> tgraph \<Rightarrow> nat \<Rightarrow> sync_value \<Rightarrow> arc_kind list" where
  "base_arcs ids g n s =
     (case (if svs_type s = sv_syncbase then named_base ids g n (svs_base s) else None) of
        None \<Rightarrow> []
      | Some b \<Rightarrow> if svs_event s = ''begin'' then [(model_rule, b, tn_begin, svs_offset s)]
                  else if svs_event s = ''end'' then [(model_rule, b, tn_end, svs_offset s)] else [])"

text \<open>Events at an element, or at the element of the condition itself; a text without a time node has a marker in its smilText.\<close>

definition event_arcs :: "source \<Rightarrow> nat \<Rightarrow> walker \<Rightarrow> nat \<Rightarrow> sync_value \<Rightarrow> arc_kind list" where
  "event_arcs so r w n s =
     (let arc_at = (\<lambda>b ev. (event_rule, b, ev, svs_offset s));
          base = (if svs_base s = [] then Some n else named_base (tg_id2tn w) (tg_graph w) n (svs_base s));
          ev = sync_event_from_str (svs_event s)
      in case svs_type s of
           sv_event \<Rightarrow>
             (case base of
                Some b \<Rightarrow> [arc_at b ev]
              | None \<Rightarrow>
                  if ev = tev_event
                  then (case smiltext_of so (svs_base s) of
                          Some (Some m) \<Rightarrow> map (\<lambda>b. arc_at b tn_marker_event) (the_list (tg_dom2tn w (d_numid (dm_node (so_dom so) m))))
                        | _ \<Rightarrow> [])
                  else [])
         | sv_repeat \<Rightarrow> map (\<lambda>b. arc_at b tn_repeat_event) (the_list base)
         | sv_accesskey \<Rightarrow> [arc_at r accesskey_event]
         | sv_state_change \<Rightarrow> [arc_at r state_change_event]
         | sv_media_marker \<Rightarrow> [arc_at n tn_marker_event]
         | _ \<Rightarrow> [])"

definition has_offset :: "sync_value \<Rightarrow> bool" where
  "has_offset s \<longleftrightarrow> svs_type s = sv_offset \<or> svs_type s = sv_indefinite"

text \<open>
  The begin arcs of an element: none for the root. Without begin values the implicit one of its
  parent. In a "seq" only the first offset counts. Otherwise the offsets, then the syncbases, then
  the events; \<open>r\<close> is the root, where access keys and changes of the state happen.
\<close>

definition begins_right :: "source \<Rightarrow> nat \<Rightarrow> walker \<Rightarrow> nat \<Rightarrow> bool" where
  "begins_right so r w n \<longleftrightarrow>
     (case ln_up (tg_graph w) n of
        None \<Rightarrow> begin_arcs (tg_graph w) n = []
      | Some p \<Rightarrow>
          let g = tg_graph w; l = m_blist (n_attrs (tg_node g n)); offs = map (\<lambda>s. parent_arc g p n (max 0 (svs_offset s))) (filter has_offset l) in
          if l = [] then begin_arcs g n = [parent_arc g p n (if is_excl (tg_node g p) then indefinite else 0)]
          else if is_seq (tg_node g p) then begin_arcs g n = take 1 offs
          else begin_arcs g n = offs @ concat (map (base_arcs (tg_id2tn w) g n) l) @ concat (map (event_arcs so r w n) l))"

lemma kinds_same:
  "adds_to N g g' \<Longrightarrow> n_attrs (tg_node g' m) = n_attrs (tg_node g m)"
  "adds_to N g g' \<Longrightarrow> is_seq (tg_node g' m) = is_seq (tg_node g m)"
  "adds_to N g g' \<Longrightarrow> is_excl (tg_node g' m) = is_excl (tg_node g m)"
  "adds_to N g g' \<Longrightarrow> ln_up g' = ln_up g"
  by (simp_all add: adds_to_def keeps_kinds_def same_tree_def is_seq_def is_excl_def)

lemma prev_loop_same: "prev_loop h n e p = Some r \<Longrightarrow> ln_next h' = ln_next h \<longrightarrow> prev_loop h' n e p = Some r"
proof (rule prev_loop.raw_induct [where P = "\<lambda>h n e p r. ln_next h' = ln_next h \<longrightarrow> prev_loop h' n e p = Some r"])
  fix f h n e p r
  assume "\<And>h n e p r. f h n e p = Some r \<Longrightarrow> ln_next h' = ln_next h \<longrightarrow> prev_loop h' n e p = Some r"
    and "(case ln_next h e of None \<Rightarrow> Some p | Some e' \<Rightarrow> if e' = n then Some (Some e) else f h n e' (Some e)) = Some r"
  then show "ln_next h' = ln_next h \<longrightarrow> prev_loop h' n e p = Some r"
    by (subst prev_loop.simps) (auto split: option.splits if_splits)
qed

lemma previous_same: "adds_to N g g' \<Longrightarrow> previous g' = previous g"
proof -
  assume "adds_to N g g'"
  then have t: "ln_up g' = ln_up g" "ln_down g' = ln_down g" "ln_next g' = ln_next g" by (simp_all add: adds_to_def same_tree_def)
  have "prev_loop g' n e p = prev_loop g n e p" for n e p
    using prev_loop_same [of g n e p _ g'] prev_loop_same [of g' n e p _ g] t(3)
    by (cases "prev_loop g n e p"; cases "prev_loop g' n e p") auto
  then show ?thesis by (simp add: previous_def t fun_eq_iff split: option.split)
qed

lemma arcs_same:
  assumes "adds_to N g g'"
  shows "parent_arc g' = parent_arc g" "base_arcs ids g' = base_arcs ids g"
proof -
  have s: "is_seq (tg_node g' m) = is_seq (tg_node g m)" for m by (rule kinds_same [OF assms])
  show "parent_arc g' = parent_arc g" by (simp only: parent_arc_def [abs_def] previous_same [OF assms] s)
  show "base_arcs ids g' = base_arcs ids g" by (simp only: base_arcs_def [abs_def] named_base_def [abs_def] previous_same [OF assms])
qed

lemma begin_arcs_other: "adds_to N g g' \<Longrightarrow> arcs_ok g \<Longrightarrow> n \<notin> N \<Longrightarrow> begin_arcs g' n = begin_arcs g n"
  by (auto simp: adds_to_def begin_arcs_def arcs_ok_def)

lemma ok_arcs: "graph_ok N g g' \<Longrightarrow> arcs_ok g \<Longrightarrow> arcs_ok g'" "graph_ok N g g' \<Longrightarrow> adds_to N g g'"
  by (simp_all add: graph_ok_def)

lemma step_arcs: "step_ok N w w' \<Longrightarrow> arcs_ok (tg_graph w) \<Longrightarrow> arcs_ok (tg_graph w')"
  "step_ok N w w' \<Longrightarrow> adds_to N (tg_graph w) (tg_graph w')" "step_ok N w w' \<Longrightarrow> tg_id2tn w' = tg_id2tn w"
  "step_ok N w w' \<Longrightarrow> tg_dom2tn w' = tg_dom2tn w"
  by (simp_all add: step_ok_def graph_ok_def)

lemma event_arcs_same: "step_ok N w w' \<Longrightarrow> event_arcs so r w' = event_arcs so r w"
  by (simp only: event_arcs_def [abs_def] named_base_def [abs_def] previous_same [OF step_arcs(2)] step_arcs(3,4))

lemma begins_right_other:
  assumes "step_ok N w w'" "arcs_ok (tg_graph w)" "n \<notin> N" "begins_right so r w n"
  shows "begins_right so r w' n"
proof -
  note a = step_arcs(2) [OF assms(1)]
  have k: "n_attrs (tg_node (tg_graph w') m) = n_attrs (tg_node (tg_graph w) m)"
    "is_seq (tg_node (tg_graph w') m) = is_seq (tg_node (tg_graph w) m)"
    "is_excl (tg_node (tg_graph w') m) = is_excl (tg_node (tg_graph w) m)"
    "ln_up (tg_graph w') = ln_up (tg_graph w)" for m by (rule kinds_same [OF a])+
  show ?thesis
    using assms(4)
    by (simp only: begins_right_def Let_def begin_arcs_other [OF a assms(2,3)] arcs_same [OF a] k step_arcs(3) [OF assms(1)]
        event_arcs_same [OF assms(1)])
qed

lemma add_begin_arc:
  assumes "add_rule rt_begin tn k base ev off sel str g = Some g'" "arcs_ok g"
  shows "begin_arcs g' tn = begin_arcs g tn @ [(k, base, ev, off)]"
proof -
  have old: "r \<noteq> tg_next_rule g" if "r \<in> set (n_begin_list (tg_node g tn))" for r using assms(2) that by (auto simp: arcs_ok_def)
  have "n_begin_list (tg_node g' tn) = n_begin_list (tg_node g tn) @ [tg_next_rule g]"
    using assms(1) by (auto simp: add_rule_form upd_def list_rule_def split: option.splits)
  moreover have same: "r \<noteq> tg_next_rule g \<Longrightarrow> tg_rule g' r = tg_rule g r"
      and "arc_of (tg_rule g' (tg_next_rule g)) = (k, base, ev, off)" for r
    using assms(1) by (auto simp: add_rule_form upd_def list_rule_def arc_def arc_of_def split: option.splits)
  moreover have "map (\<lambda>r. arc_of (tg_rule g' r)) (n_begin_list (tg_node g tn)) = map (\<lambda>r. arc_of (tg_rule g r)) (n_begin_list (tg_node g tn))"
    by (rule map_cong [OF refl]) (simp add: same [OF old])
  ultimately show ?thesis by (simp only: begin_arcs_def map_append list.map)
qed

lemma implicit_arc:
  assumes "add_impl_syncbase_rule rt_begin p tn off g = Some g'" "arcs_ok g"
  shows "begin_arcs g' tn = begin_arcs g tn @ [parent_arc g p tn off]"
proof -
  obtain k base ev where i: "implicit_base p tn g = Some (k, base, ev)" and r: "add_rule rt_begin tn k base ev off 0 [] g = Some g'"
    using assms(1) by (auto simp: add_impl_syncbase_rule_def bind_eq_Some_conv)
  have "parent_arc g p tn off = (k, base, ev, off)"
  proof (cases "is_seq (tg_node g p)")
    case True
    with i obtain prv where "previous g tn = Some prv" by (auto simp: implicit_base_def bind_eq_Some_conv)
    with i True show ?thesis by (cases prv) (simp_all add: implicit_base_def parent_arc_def)
  qed (use i in \<open>simp add: implicit_base_def parent_arc_def\<close>)
  with add_begin_arc [OF r assms(2)] show ?thesis by simp
qed

lemma implicit_arcs:
  "foldm (add_impl_syncbase_rule rt_begin p tn) os g = Some g' \<Longrightarrow> arcs_ok g \<Longrightarrow>
   begin_arcs g' tn = begin_arcs g tn @ map (parent_arc g p tn) os"
proof (induction os arbitrary: g)
  case (Cons off os)
  then obtain g1 where g1: "add_impl_syncbase_rule rt_begin p tn off g = Some g1" "foldm (add_impl_syncbase_rule rt_begin p tn) os g1 = Some g'"
    by (auto simp: bind_eq_Some_conv)
  have ok: "graph_ok {tn} g g1" using implicit_ok [OF g1(1)] by simp
  from Cons.IH [OF g1(2) ok_arcs(1) [OF ok Cons.prems(2)]] implicit_arc [OF g1(1) Cons.prems(2)] arcs_same(1) [OF ok_arcs(2) [OF ok]]
  show ?case by simp
qed simp

lemma syncbase_arc:
  assumes "add_syncbase_rule rt_begin tn s w = Some w'" "arcs_ok (tg_graph w)"
  shows "begin_arcs (tg_graph w') tn = begin_arcs (tg_graph w) tn @ base_arcs (tg_id2tn w) (tg_graph w) tn s"
proof -
  have r: "begin_arcs (tg_graph w') tn = begin_arcs (tg_graph w) tn @ [(model_rule, b, ev, off)]"
    if "try_graph (add_rule rt_begin tn model_rule b ev off 0 []) w = Some w'" for b ev off
    using that add_begin_arc [OF _ assms(2)] by (auto simp: try_graph_def)
  show ?thesis
  proof (cases "svs_type s = sv_syncbase")
    case True
    with assms(1) obtain base where b: "get_node_with_id (svs_base s) tn w = Some base"
      "(case base of None \<Rightarrow> Some w | Some b \<Rightarrow>
         if svs_event s = ''begin'' then try_graph (add_rule rt_begin tn model_rule b tn_begin (svs_offset s) 0 []) w
         else if svs_event s = ''end'' then try_graph (add_rule rt_begin tn model_rule b tn_end (svs_offset s) 0 []) w
         else Some w) = Some w'" by (auto simp: add_syncbase_rule_def bind_eq_Some_conv)
    have nb: "named_base (tg_id2tn w) (tg_graph w) tn (svs_base s) = base"
      using b(1) by (auto simp: get_node_with_id_def named_base_def split: option.splits if_splits)
    then show ?thesis
    proof (cases base)
      case (Some c)
      have ba: "base_arcs (tg_id2tn w) (tg_graph w) tn s =
          (if svs_event s = ''begin'' then [(model_rule, c, tn_begin, svs_offset s)]
           else if svs_event s = ''end'' then [(model_rule, c, tn_end, svs_offset s)] else [])"
        by (simp add: base_arcs_def nb True Some)
      consider "svs_event s = ''begin''" | "svs_event s = ''end''" | "svs_event s \<noteq> ''begin''" "svs_event s \<noteq> ''end''" by blast
      then show ?thesis
      proof cases
        case 1
        with b(2) Some have "try_graph (add_rule rt_begin tn model_rule c tn_begin (svs_offset s) 0 []) w = Some w'" by simp
        from r [OF this] 1 show ?thesis by (simp add: ba)
      next
        case 2
        with b(2) Some have "try_graph (add_rule rt_begin tn model_rule c tn_end (svs_offset s) 0 []) w = Some w'" by simp
        from r [OF this] 2 show ?thesis by (simp add: ba)
      next
        case 3
        with b(2) Some have "w' = w" by simp
        with 3 show ?thesis unfolding ba by simp
      qed
    next
      case None
      with nb have "named_base (tg_id2tn w) (tg_graph w) tn (svs_base s) = None" by simp
      then have "base_arcs (tg_id2tn w) (tg_graph w) tn s = []" by (simp only: base_arcs_def option.case if_cancel)
      with b(2) None show ?thesis by simp
    qed
  qed (use assms(1) in \<open>simp add: add_syncbase_rule_def base_arcs_def\<close>)
qed

lemma syncbase_arcs:
  "foldm (add_syncbase_rule rt_begin tn) l (w :: walker) = Some w' \<Longrightarrow> arcs_ok (tg_graph w) \<Longrightarrow>
   begin_arcs (tg_graph w') tn = begin_arcs (tg_graph w) tn @ concat (map (base_arcs (tg_id2tn w) (tg_graph w) tn) l)"
proof (induction l arbitrary: w)
  case (Cons s l)
  then obtain w1 where w1: "add_syncbase_rule rt_begin tn s w = Some w1" "foldm (add_syncbase_rule rt_begin tn) l w1 = Some w'"
    by (auto simp: bind_eq_Some_conv)
  have ok: "step_ok {tn} w w1" using syncbase_ok [OF w1(1)] by simp
  from Cons.IH [OF w1(2) step_arcs(1) [OF ok Cons.prems(2)]] syncbase_arc [OF w1(1) Cons.prems(2)]
    arcs_same(2) [OF step_arcs(2) [OF ok]] step_arcs(3) [OF ok]
  show ?case by simp
qed simp

lemma event_rule_arc:
  assumes "try_graph (add_rule rt_begin tn event_rule b ev off sel str) v = Some w'" "tg_graph v = tg_graph w" "arcs_ok (tg_graph w)"
  shows "begin_arcs (tg_graph w') tn = begin_arcs (tg_graph w) tn @ [(event_rule, b, ev, off)]"
  using assms add_begin_arc [of tn event_rule b ev off sel str "tg_graph w" "tg_graph w'"] by (auto simp: try_graph_def)

lemma wanted_rule_arc:
  assumes "try_graph (add_rule rt_begin tn event_rule b ev off sel str) (want_event ev b (w :: walker)) = Some w'" "arcs_ok (tg_graph w)"
  shows "begin_arcs (tg_graph w') tn = begin_arcs (tg_graph w) tn @ [(event_rule, b, ev, off)]"
proof -
  have "begin_arcs (tg_graph (want_event ev b w)) tn = begin_arcs (tg_graph w) tn"
    by (auto simp: want_event_def upd_graph_def begin_arcs_def upd_def)
  with event_rule_arc [OF assms(1) refl step_arcs(1) [OF want_event_ok [where N = "{}"] assms(2)]] show ?thesis by simp
qed

lemma event_base_named:
  "event_base tn s w = Some base \<Longrightarrow>
   base = (if svs_base s = [] then Some tn else named_base (tg_id2tn w) (tg_graph w) tn (svs_base s))"
  by (auto simp: event_base_def get_node_with_id_def named_base_def split: option.splits if_splits)

lemma event_arc:
  assumes "add_event_rule so r rt_begin tn s (w :: walker) = Some w'" "arcs_ok (tg_graph w)"
  shows "begin_arcs (tg_graph w') tn = begin_arcs (tg_graph w) tn @ event_arcs so r w tn s"
proof (cases "svs_type s")
  case sv_event
  then obtain base where b: "event_base tn s w = Some base"
    "(case base of
        None \<Rightarrow> if sync_event_from_str (svs_event s) = tev_event then add_marker_rule so rt_begin tn s w else Some w
      | Some b \<Rightarrow> try_graph (add_rule rt_begin tn event_rule b (sync_event_from_str (svs_event s)) (svs_offset s) 0 [])
          (want_event (sync_event_from_str (svs_event s)) b w)) = Some w'"
    using assms(1) by (auto simp: add_event_rule_def Let_def bind_eq_Some_conv)
  show ?thesis
  proof (cases base)
    case None
    show ?thesis
    proof (cases "sync_event_from_str (svs_event s) = tev_event")
      case ev: True
      with b(2) None have m: "add_marker_rule so rt_begin tn s w = Some w'" by simp
      then obtain n where n: "smiltext_of so (svs_base s) = Some n" by (auto simp: add_marker_rule_def bind_eq_Some_conv)
      show ?thesis
      proof (cases n)
        case no: None
        with m n have "w' = w" by (simp add: add_marker_rule_def)
        then show ?thesis using sv_event event_base_named [OF b(1)] None ev n no by (simp add: event_arcs_def Let_def)
      next
        case (Some k)
        with m n obtain c where c: "tg_dom2tn w (d_numid (dm_node (so_dom so) k)) = Some c"
          "try_graph (add_rule rt_begin tn event_rule c tn_marker_event (svs_offset s) 0 (svs_base s)) w = Some w'"
          by (auto simp: add_marker_rule_def bind_eq_Some_conv)
        from event_rule_arc [OF c(2) refl assms(2)] show ?thesis
          using sv_event event_base_named [OF b(1)] None ev n Some c(1) by (simp add: event_arcs_def Let_def the_list_def)
      qed
    next
      case False
      with b(2) None have "w' = w" by simp
      then show ?thesis using sv_event event_base_named [OF b(1)] None False by (simp add: event_arcs_def Let_def)
    qed
  next
    case (Some c)
    with b(2) have "try_graph (add_rule rt_begin tn event_rule c (sync_event_from_str (svs_event s)) (svs_offset s) 0 [])
          (want_event (sync_event_from_str (svs_event s)) c w) = Some w'" by simp
    from wanted_rule_arc [OF this assms(2)] show ?thesis
      using sv_event event_base_named [OF b(1), symmetric] Some by (auto simp: event_arcs_def Let_def split: if_splits)
  qed
next
  case sv_repeat
  then obtain base where b: "event_base tn s w = Some base"
    "(case base of None \<Rightarrow> Some w
      | Some b \<Rightarrow> try_graph (add_rule rt_begin tn event_rule b tn_repeat_event (svs_offset s) (svs_iparam s) []) w) = Some w'"
    using assms(1) by (auto simp: add_event_rule_def bind_eq_Some_conv)
  show ?thesis
  proof (cases base)
    case None
    with b(2) have "w' = w" by simp
    then show ?thesis using sv_repeat event_base_named [OF b(1)] None by (simp add: event_arcs_def Let_def the_list_def)
  next
    case (Some c)
    with b(2) have "try_graph (add_rule rt_begin tn event_rule c tn_repeat_event (svs_offset s) (svs_iparam s) []) w = Some w'" by simp
    from event_rule_arc [OF this refl assms(2)] show ?thesis
      using sv_repeat event_base_named [OF b(1), symmetric] Some by (auto simp: event_arcs_def Let_def the_list_def split: if_splits)
  qed
qed (use assms(1) in \<open>auto simp: add_event_rule_def event_arcs_def Let_def intro: event_rule_arc [OF _ _ assms(2)]\<close>)

lemma event_arcs_added:
  "foldm (add_event_rule so r rt_begin tn) l (w :: walker) = Some w' \<Longrightarrow> arcs_ok (tg_graph w) \<Longrightarrow>
   begin_arcs (tg_graph w') tn = begin_arcs (tg_graph w) tn @ concat (map (event_arcs so r w tn) l)"
proof (induction l arbitrary: w)
  case (Cons s l)
  then obtain w1 where w1: "add_event_rule so r rt_begin tn s w = Some w1" "foldm (add_event_rule so r rt_begin tn) l w1 = Some w'"
    by (auto simp: bind_eq_Some_conv)
  have ok: "step_ok {tn} w w1" using event_ok [OF w1(1)] by simp
  from Cons.IH [OF w1(2) step_arcs(1) [OF ok Cons.prems(2)]] event_arc [OF w1(1) Cons.prems(2)] event_arcs_same [OF ok]
  show ?case by simp
qed simp

lemma begin_rules_right:
  assumes "add_begin_sync_rules so r n (w :: walker) = Some w'" "arcs_ok (tg_graph w)" "begin_arcs (tg_graph w) n = []"
  shows "begins_right so r w' n"
proof -
  have ok: "step_ok {n} w w'" using begin_rules_ok [OF assms(1)] by simp
  note same = arcs_same [OF step_arcs(2) [OF ok]] kinds_same [OF step_arcs(2) [OF ok]] step_arcs(3) [OF ok] event_arcs_same [OF ok]
  let ?g = "tg_graph w" let ?l = "m_blist (n_attrs (tg_node ?g n))"
  show ?thesis
  proof (cases "ln_up ?g n")
    case None
    with assms(1,3) show ?thesis by (simp add: add_begin_sync_rules_def begins_right_def)
  next
    case (Some p)
    show ?thesis
    proof (cases "?l = []")
      case True
      with assms(1) Some obtain g' where "add_impl_begin_rule p n ?g = Some g'" "w' = w\<lparr>tg_graph := g'\<rparr>"
        by (auto simp: add_begin_sync_rules_def try_graph_def)
      then have "begin_arcs (tg_graph w') n = [parent_arc ?g p n (if is_excl (tg_node ?g p) then indefinite else 0)]"
        using implicit_arc [of p n _ ?g g'] assms(2,3) by (simp add: add_impl_begin_rule_def)
      with True Some show ?thesis by (simp add: begins_right_def same)
    next
      case False
      let ?seq = "is_seq (tg_node ?g p)"
      from assms(1) Some False obtain v where v: "try_graph (foldm (add_impl_syncbase_rule rt_begin p n) (begin_offsets ?seq ?l)) w = Some v"
        "(if ?seq then Some v else do { v \<leftarrow> foldm (add_syncbase_rule rt_begin n) ?l v; foldm (add_event_rule so r rt_begin n) ?l v }) = Some w'"
        by (auto simp: add_begin_sync_rules_def Let_def bind_eq_Some_conv)
      have offs: "begin_arcs (tg_graph v) n = map (parent_arc ?g p n) (begin_offsets ?seq ?l)"
        using v(1) implicit_arcs [of p n "begin_offsets ?seq ?l" ?g "tg_graph v"] assms(2,3) by (auto simp: try_graph_def)
      have okv: "step_ok {n} w v" using offsets_ok [OF v(1)] by simp
      show ?thesis
      proof (cases ?seq)
        case True
        with v(2) offs False Some same show ?thesis
          by (simp add: begins_right_def begin_offsets_def has_offset_def [abs_def] Let_def take_map comp_def)
      next
        case seq: False
        with v(2) obtain u where u: "foldm (add_syncbase_rule rt_begin n) ?l v = Some u" "foldm (add_event_rule so r rt_begin n) ?l u = Some w'"
          by (auto simp: bind_eq_Some_conv)
        have oku: "step_ok {n} v u" using syncbases_ok [OF u(1)] by simp
        have av: "arcs_ok (tg_graph v)" using step_arcs(1) [OF okv assms(2)] .
        have "begin_arcs (tg_graph u) n = begin_arcs (tg_graph v) n @ concat (map (base_arcs (tg_id2tn w) ?g n) ?l)"
          using syncbase_arcs [OF u(1) av] arcs_same(2) [OF step_arcs(2) [OF okv]] step_arcs(3) [OF okv] by simp
        moreover have "begin_arcs (tg_graph w') n = begin_arcs (tg_graph u) n @ concat (map (event_arcs so r w n) ?l)"
          using event_arcs_added [OF u(2) step_arcs(1) [OF oku av]] event_arcs_same [OF okv] event_arcs_same [OF oku] by simp
        ultimately show ?thesis using offs seq False Some
          by (simp add: begins_right_def same begin_offsets_def has_offset_def [abs_def] Let_def comp_def)
      qed
    qed
  qed
qed

lemma node_rules_right:
  assumes "build_node_rules so r n (w :: walker) = Some w'" "arcs_ok (tg_graph w)" "begin_arcs (tg_graph w) n = []"
  shows "begins_right so r w' n"
proof -
  obtain v x where v: "add_begin_sync_rules so r n w = Some v" "add_end_sync_rules so r n v = Some x"
    "w' = upd_graph (want_activation n) x" using assms(1) by (auto simp: build_node_rules_def bind_eq_Some_conv)
  have "step_ok {} x w'" unfolding v(3) by (rule upd_step_ok) (auto simp: want_activation_def intro: upd_graph_ok)
  with end_rules_ok [OF v(2), of "{}"] have s: "step_ok {} v w'" by (rule step_ok_trans)
  have "begins_right so r v n" using begin_rules_right [OF v(1) assms(2,3)] .
  from begins_right_other [OF s _ _ this] show ?thesis
    using step_arcs(1) [OF begin_rules_ok [OF v(1) singletonI] assms(2)] by simp
qed

lemma all_rules_right:
  "foldm (build_node_rules so r) ns (w :: walker) = Some w' \<Longrightarrow> distinct ns \<Longrightarrow> arcs_ok (tg_graph w) \<Longrightarrow>
   \<forall>n \<in> set ns. begin_arcs (tg_graph w) n = [] \<Longrightarrow> \<forall>n \<in> set ns. begins_right so r w' n"
proof (induction ns arbitrary: w)
  case (Cons n ns)
  then obtain w1 where w1: "build_node_rules so r n w = Some w1" "foldm (build_node_rules so r) ns w1 = Some w'"
    by (auto simp: bind_eq_Some_conv)
  have ok: "step_ok {n} w w1" using node_rules_ok [OF w1(1)] by simp
  have a1: "arcs_ok (tg_graph w1)" using step_arcs(1) [OF ok Cons.prems(3)] .
  have "\<forall>m \<in> set ns. begin_arcs (tg_graph w1) m = []"
  proof
    fix m assume m: "m \<in> set ns"
    with Cons.prems(2) have "m \<notin> {n}" by auto
    from begin_arcs_other [OF step_arcs(2) [OF ok] Cons.prems(3) this] Cons.prems(4) m
    show "begin_arcs (tg_graph w1) m = []" by simp
  qed
  with Cons.IH [OF w1(2)] Cons.prems(2) a1 have rest: "\<forall>m \<in> set ns. begins_right so r w' m" by simp
  have "step_ok (set ns) x y" if "foldm (build_node_rules so r) ks x = Some y" "set ks \<subseteq> set ns" for ks and x y :: walker
    using that
  proof (induction ks arbitrary: x)
    case (Cons k ks)
    then obtain z where z: "build_node_rules so r k x = Some z" "foldm (build_node_rules so r) ks z = Some y"
      by (auto simp: bind_eq_Some_conv)
    with Cons node_rules_ok [OF z(1), of "set ns"] show ?case using step_ok_trans by auto
  qed simp
  from this [OF w1(2) subset_refl] have s: "step_ok (set ns) w1 w'" .
  have "begins_right so r w1 n" using node_rules_right [OF w1(1)] Cons.prems(3,4) by simp
  from begins_right_other [OF s a1 _ this] Cons.prems(2) rest show ?case by simp
qed simp

section \<open>Before the rules\<close>

definition blank :: "tgraph \<Rightarrow> bool" where
  "blank g \<longleftrightarrow> tg_next_rule g = 0 \<and>
     (\<forall>n. n_begin_list (tg_node g n) = [] \<and> n_end_list (tg_node g n) = [] \<and> n_transout (tg_node g n) = None
        \<and> n_dependents (tg_node g n) = (\<lambda>_. []))"

lemma blank_arcs: "blank g \<Longrightarrow> arcs_ok g"
  by (simp add: blank_def arcs_ok_def)

lemma append_child_blank: "append_child p c g = Some g' \<Longrightarrow> blank g \<Longrightarrow> blank g'"
  by (auto simp: append_child_def blank_def set_up_def set_down_def set_next_def bind_eq_Some_conv split: if_splits option.splits)

lemma create_blank: "create_time_node so n p w = Some (t, w') \<Longrightarrow> blank (tg_graph w) \<Longrightarrow> blank (tg_graph w')"
  by (auto simp: create_time_node_def Let_def bind_eq_Some_conv blank_def upd_def alloc_links_def mk_time_node_def split: if_splits)

lemma enter_blank: "enter_element so n w = Some w' \<Longrightarrow> blank (tg_graph w) \<Longrightarrow> blank (tg_graph w')"
proof -
  assume e: "enter_element so n w = Some w'" "blank (tg_graph w)"
  then obtain tn v x where v: "create_time_node so n (case tw_stack w of [] \<Rightarrow> None | p # _ \<Rightarrow> Some p) w = Some (tn, v)"
    "add_link so n tn v = Some x" "(case tw_stack (give_id so n tn x) of [] \<Rightarrow> Some ((give_id so n tn x)\<lparr>tw_root := Some tn\<rparr>)
       | p # _ \<Rightarrow> add_child p tn (give_id so n tn x)) \<bind> (\<lambda>w. Some (w\<lparr>tw_stack := tn # tw_stack w\<rparr>)) = Some w'"
    by (auto simp: enter_element_def Let_def bind_eq_Some_conv)
  have "blank (tg_graph x)" using v(2) create_blank [OF v(1) e(2)]
    by (auto simp: add_link_def add_child_def bind_eq_Some_conv set_id_def split: option.splits if_splits
        dest!: create_blank append_child_blank)
  then have "blank (tg_graph (give_id so n tn x))" by (simp add: id_given)
  then show ?thesis using v(3) by (auto simp: add_child_def bind_eq_Some_conv split: list.splits dest: append_child_blank)
qed

lemma switch_same: "note_switch so b n w = Some w' \<Longrightarrow> tg_graph w' = tg_graph w"
  by (auto simp: note_switch_def bind_eq_Some_conv split: if_splits)

lemma left_out_same: "left_out so n w = Some (b, w') \<Longrightarrow> tg_graph w' = tg_graph w"
  by (auto simp: left_out_def bind_eq_Some_conv Let_def split: if_splits prod.splits)

lemma walk_blank: "walk so vs w = Some w' \<Longrightarrow> blank (tg_graph w) \<Longrightarrow> blank (tg_graph w')"
proof (induction so vs w rule: walk.induct)
  case (2 so start n vs w)
  from 2(4) obtain v where v: "note_switch so start n w = Some v" by (auto simp: bind_eq_Some_conv)
  show ?case
  proof (cases "timed so n")
    case False
    then show ?thesis using 2(1) [OF v] 2(4,5) v switch_same [OF v] by simp
  next
    case True
    from 2(4) v True obtain b x where x: "left_out so n v = Some (b, x)" by (auto simp: bind_eq_Some_conv)
    have bl: "blank (tg_graph x)" using 2(5) switch_same [OF v] left_out_same [OF x] by simp
    show ?thesis
    proof (cases b)
      case b: True
      then obtain y ys where "dropWhile (\<lambda>v. snd v \<noteq> n) vs = y # ys" "walk so ys x = Some w'"
        using 2(4) v x True by (auto split: list.splits)
      then show ?thesis using 2(2) [OF v _ x _ b] True bl by auto
    next
      case b: False
      then obtain y where y: "(if start then enter_element so n x else leave_element x) = Some y" "walk so vs y = Some w'"
        using 2(4) v x True by (auto simp: bind_eq_Some_conv)
      then have "blank (tg_graph y)" using bl enter_blank by (auto simp: leave_element_def split: if_splits list.splits)
      then show ?thesis using 2(3) [OF v _ x _ _ y(1)] True b y by auto
    qed
  qed
qed simp

lemma is_tree_same: "same_tree g g' \<Longrightarrow> is_tree g u \<Longrightarrow> is_tree g' u"
proof -
  assume s: "same_tree g g'" and t: "is_tree g u"
  have b: "siblings g' n ks = siblings g n ks" for n ks
    using s by (induction ks rule: induct_list012) (simp_all add: same_tree_def)
  show "is_tree g' u" using t s by (simp add: is_tree_def represents_def family_def b same_tree_def)
qed

lemma same_tree_sym: "same_tree g g' \<Longrightarrow> same_tree g' g"
  by (simp add: same_tree_def)

lemma time_graph_right:
  assumes "build_time_graph so (label u) (w :: walker) = Some w'" "is_tree (tg_graph w) u" "arcs_ok (tg_graph w)"
    and "\<forall>n. begin_arcs (tg_graph w) n = []"
  shows "\<forall>n \<in> set (nodes u). begins_right so (label u) w' n"
proof -
  have "foldm (build_node_rules so (label u)) (nodes u) w = Some w'"
    using assms(1) iter_visits_part [OF assms(2) part_of.self] tour_nodes
    by (simp add: build_time_graph_def each_time_node_def)
  from all_rules_right [OF this] assms(2-4) show ?thesis by (simp add: is_tree_def)
qed


section \<open>An example\<close>

text \<open>A body with two audio elements, the second of which begins when the first ends.\<close>

definition pair_dom :: dom where
  "pair_dom = \<lparr>ln_up = [1 \<mapsto> 0, 2 \<mapsto> 0], ln_down = [0 \<mapsto> 1], ln_next = [1 \<mapsto> 2], ln_live = {0, 1, 2},
     dm_node = (\<lambda>n. let t = (if n = 0 then ''body'' else ''audio'') in (plain_node ([], t) t False)\<lparr>d_numid := int n\<rparr>),
     dm_counter = 3, dm_free = 3\<rparr>"

definition pair_source :: source where
  "pair_source = demo_source\<lparr>so_dom := pair_dom, so_doc := new_document\<lparr>dc_root := Some 0\<rparr>\<rparr>"

lemma pair_tree: "is_tree pair_dom (Node 0 [Node 1 [], Node 2 []])"
  by (simp add: is_tree_def represents_def family_def pair_dom_def)

lemma pair_parts: "so_dom pair_source = pair_dom" "\<not> so_dynamic pair_source" "\<not> so_timer pair_source" "attr_of pair_source n = Map.empty"
  "name_of pair_source n = (if n = 0 then ''body'' else ''audio'')"
  "ensure_tests (so_platform pair_source) demo_settings = demo_settings" "so_doc pair_source = new_document\<lparr>dc_root := Some 0\<rparr>"
  by (simp_all add: attr_of_def get_attribute_def name_of_def pair_source_def demo_source_def pair_dom_def plain_node_def
      ensure_tests_def demo_settings_def fun_eq_iff Let_def)

lemma pair_selected: "is_selected pair_source n demo_settings = (Some True, demo_settings)"
  by (simp add: is_selected_def selected_def selected_in_def check_def pair_parts)

lemma pair_switch: "note_switch pair_source b n w = Some w"
  by (simp add: note_switch_def pair_parts)

lemma pair_left: "tg_settings w = demo_settings \<Longrightarrow> tw_selects w = [] \<Longrightarrow> left_out pair_source n w = Some (False, w)"
  by (simp add: left_out_def pair_parts pair_selected)

lemma pair_timed: "timed pair_source n"
  by (simp add: timed_def pair_parts is_time_element_def time_containers_def continuous_leafs_def)

lemma pair_link: "n \<le> 2 \<Longrightarrow> add_link pair_source n t w = Some w"
  by (auto simp: add_link_def pair_parts pair_dom_def split: option.split)

lemma pair_path: "get_path pair_dom 0 = Some [0]" "get_path pair_dom 1 = Some [0, 1]" "get_path pair_dom 2 = Some [0, 2]"
  by code_simp+

definition plain_attributes :: time_attrs where
  "plain_attributes = mk_time_attrs zero_lib Map.empty Map.empty [] plain_attrs"

definition pair_attrs :: "nat \<Rightarrow> time_attrs" where
  "pair_attrs n = (if n = 0 then plain_attributes else mk_time_attrs zero_lib Map.empty Map.empty [Map.empty] plain_attrs)"

lemma pair_node_attrs: "n \<le> 2 \<Longrightarrow> node_attrs pair_source n = Some (pair_attrs n)"
  using pair_path by (auto simp: node_attrs_def pair_parts pair_attrs_def plain_attributes_def le_Suc_eq numeral_2_eq_2 fun_eq_iff)
   (auto simp: pair_source_def demo_source_def pair_parts)

lemma pair_lists: "m_blist (pair_attrs n) = []" "m_elist (pair_attrs n) = []" "m_trans_out (pair_attrs n) = None"
  by (auto simp: pair_attrs_def plain_attributes_def mk_time_attrs_def parse_time_attrs_def attrs_initial_def parse_dur_def parse_rcount_def parse_rdur_def
   parse_begin_def parse_end_def parse_min_def parse_max_def parse_endsync_def parse_fill_def parse_restart_def parse_actuate_def
   parse_transitions_def parse_time_manipulations_def transition_for_def Let_def set_specified_def)

lemma pair_create: "n \<le> 2 \<Longrightarrow> create_time_node pair_source n p w = Some (tg_free w, w\<lparr>tg_graph := upd (tg_free w) (\<lambda>_. 
    mk_time_node (if n = 0 then tc_seq else tc_none) (pair_attrs n) ''no-id'' (if n = 0 then ''body'' else ''audio'') Map.empty)
     (alloc_links (tg_free w) (tg_graph w)), tg_free := tg_free w + 1,
                      tg_dom_of := (tg_dom_of w)(tg_free w := n),
                      tg_dom2tn := (tg_dom2tn w)(int n \<mapsto> tg_free w)\<rparr>)"
  by (auto simp: create_time_node_def pair_node_attrs pair_parts is_animation_def is_statecommand_def is_prefetch_def
     animate_elements_def statecommand_elements_def prefetch_elements_def get_time_type_def Let_def mk_time_node_def pair_dom_def)

lemma pair_enter: "n \<le> 2 \<Longrightarrow> enter_element pair_source n w = 
   do { let t = tg_free w;
    let w = w\<lparr>tg_graph := upd t (\<lambda>_. 
    mk_time_node (if n = 0 then tc_seq else tc_none) (pair_attrs n) ''no-id'' (if n = 0 then ''body'' else ''audio'') Map.empty)
     (alloc_links (tg_free w) (tg_graph w)), tg_free := tg_free w + 1,
                      tg_dom_of := (tg_dom_of w)(tg_free w := n),
                      tg_dom2tn := (tg_dom2tn w)(int n \<mapsto> tg_free w)\<rparr>;
    let w = give_id pair_source n t w;
     w \<leftarrow> (case tw_stack w of [] \<Rightarrow> Some (w\<lparr>tw_root := Some t\<rparr>) | p # _ \<Rightarrow> add_child p t w);
     Some (w\<lparr>tw_stack := t # tw_stack w\<rparr>) }"
  by (simp add: enter_element_def pair_create pair_link Let_def)

lemma pair_visits: "visits pair_dom 0 = Some [(True, 0), (True, 1), (False, 1), (True, 2), (False, 2), (False, 0)]"
  using visits_in [OF pair_tree part_of.self] by simp

definition pair_links :: "tgraph \<Rightarrow> bool" where
  "pair_links g \<longleftrightarrow> ln_up g = [1 \<mapsto> 0, 2 \<mapsto> 0] \<and> ln_down g = [0 \<mapsto> 1] \<and> ln_next g = [1 \<mapsto> 2]
     \<and> (\<forall>n. m_blist (n_attrs (tg_node g n)) = [] \<and> m_elist (n_attrs (tg_node g n)) = [] \<and> m_trans_out (n_attrs (tg_node g n)) = None
          \<and> n_type (tg_node g n) = (if n = 0 then tc_seq else tc_none))"

lemma pair_built: "\<exists>w. build_time_tree pair_source demo_settings 0 = Some w \<and> tw_root w = Some 0 \<and> pair_links (tg_graph w)"
proof -
  have "m_blist (so_raw pair_source) = [] \<and> m_elist (so_raw pair_source) = [] \<and> m_trans_out (so_raw pair_source) = None"
    by (simp add: pair_source_def demo_source_def plain_attrs_def)
  then show ?thesis
    by (simp add: build_time_tree_def pair_visits pair_parts new_walker_def empty_graph_def pair_switch pair_timed pair_left
      pair_enter Let_def give_id_def set_id_def leave_element_def add_child_def append_child_def upd_def alloc_links_def
      set_up_def set_down_def set_next_def last_loop.simps pair_links_def mk_time_node_def pair_lists fun_eq_iff)
qed

lemma pair_navigation:
  assumes "pair_links g"
  shows "iter_visits g (mk_iter 0) [] = Some [(True, 0), (True, 1), (False, 1), (True, 2), (False, 2), (False, 0)]"
    "previous g 1 = Some None" "previous g 2 = Some (Some 1)" "get_common_ancestor g 0 0 = Some 0"
proof -
  have t: "is_tree g (Node 0 [Node 1 [], Node 2 []])"
    using assms by (simp add: pair_links_def is_tree_def represents_def family_def)
  show "iter_visits g (mk_iter 0) [] = Some [(True, 0), (True, 1), (False, 1), (True, 2), (False, 2), (False, 0)]"
    using iter_visits_part [OF t part_of.self] by simp
  have "family g 0 [1, 2]" using assms by (simp add: pair_links_def family_def)
  then show "previous g 1 = Some None" "previous g 2 = Some (Some 1)"
    using assms by (simp_all add: previous_def pair_links_def prev_loop.simps)
  show "get_common_ancestor g 0 0 = Some 0"
    using assms by (simp add: pair_links_def get_common_ancestor_def get_path_def path_loop.simps)
qed

lemma pair_rules:
  assumes "pair_links (tg_graph w)" "n \<in> {0, 1, 2}"
  shows "\<exists>w'. build_node_rules pair_source 0 n w = Some w' \<and> pair_links (tg_graph w') \<and> tw_root w' = tw_root w"
  using assms pair_navigation [OF assms(1)]
  by (auto simp: build_node_rules_def add_begin_sync_rules_def add_end_sync_rules_def pair_links_def Let_def try_graph_def add_impl_begin_rule_def
      add_impl_syncbase_rule_def implicit_base_def is_seq_def is_excl_def add_rule_form sync_node_def upd_graph_def want_activation_def upd_def list_rule_def)



end
