(* ===== verification/Spec2Isabelle.thy ===== *)
theory Spec2Isabelle
  imports Scheduler Time_Kill Event_Processor Databuffer Nfa_Match Surface Test_Attrs Timegraph_Arcs
begin

text \<open>
  Ambulant is a player for SMIL documents. This development models the part of libambulant that
  decides what plays when: the arithmetic of times, the parsing of the timing attributes, the
  calculation of intervals, the construction of the time graph and its state machine, and the timers and event queues
  that drive it; the document it starts from, from the events of the XML parser to the nodes; the
  regions and surfaces that decide what is shown where; and the containers and parsers they rest on.

  \<^bold>\<open>How the parts work together.\<close> The attributes of an element are parsed into a record (Time_Attrs)
  with the scanners of Parselets and String_Util. From the record, instance times and an implicit
  duration the calculator (Time_Calc) computes intervals, in the time values of Smil_Time. The time
  graph is built from the document by a walk over its nodes (Timegraph). A time
  node (Time_Graph, Time_Node) keeps the current interval and a state; sync rules (Sync_Rule) carry
  the happenings of one node to the instance times of others. The states (Time_State), the "excl"
  containers (Excl), the notifications and executions from outside (Time_Driver) and the scheduler
  (Scheduler) call each other through the graph. The scheduler is called from the event processor
  (Event_Processor), which takes due events from delta timers (Delta_Timer) by a clock (Timer).

  \<^bold>\<open>Theories and sources\<close> (under \<open>src/src/libambulant\<close> and \<open>src/include/ambulant\<close>):
  \<^item> Prelude: C++ integers at their width with wrap-around, division as in C++, options and lists.
  \<^item> Smil_Time: smil2/smil_time.h, values as 64 bit integers with the reserved values "indefinite"
    and "unresolved"; refinement to the abstract three-valued times, order, intervals.
  \<^item> String_Util, Parselets: lib/string_util.h, lib/parselets.cpp; every parselet is a function from
    text to the result and the number of characters consumed; contracts, round trips, overflows.
  \<^item> Gtypes: lib/gtypes.h; rectangles as point sets, transforms and their inverses.
  \<^item> Time_Attrs, Time_Calc: smil2/time_attrs.cpp, smil2/time_calc.cpp; well-formedness of the parsed
    record, soundness, termination and divergence of the searches for intervals.
  \<^item> Delta_Timer, Timer, Event_Processor, Databuffer: the files of these names in lib and net; the
    refinement to queues of absolute times, monotone clocks, complete and prioritised batches, the
    refinement to a queue of bytes.
  \<^item> Tree_Nav: lib/node_navigator.h and lib/node_iterator.h; a heap of linked nodes as the record
    \<open>links\<close>, refined to a datatype of trees.
  \<^item> Time_Graph: the graph as one record that extends \<open>links\<close> by the fields of nodes and rules, and
    the conversions between time lines (smil2/smil_time.cpp).
  \<^item> Sync_Rule (smil2/sync_rule.cpp), Time_Node, Excl and Time_Driver (smil2/time_node.cpp),
    Time_State (smil2/time_state.cpp with the operations of time_node that change states),
    Scheduler (smil2/time_sched.cpp).
  \<^item> Time_Frame: what all these operations leave alone. The locale \<open>kept\<close> lists the elementary steps
    as laws of a relation, \<open>kept_run\<close> derives that every operation keeps it; the interpretations
    are the structure of the graph and the order of the queues. Time_Depth: the locale
    \<open>deeper_run\<close> compares two interpreters of calls and shows that the bound does not matter.
    Time_Kill: killing a branch ends within a depth of calls as large as the branch is high.

  \<^item> Nfa, Nfa_Clone, Nfa_Regex, Nfa_Match: lib/nfa.h and nfa.cpp; automata as nodes on a heap, the
    regular operations as surgery on it with the language (Nfa_Lang) of the result, matching decides
    membership and finds the longest prefix.
  \<^item> Url: net/url.h, url.cpp, lib/filesys.h; percent coding, parsing, printing, joining; round trips.
  \<^item> C_Lib, Colors: \<open>strtol\<close> and lib/colors.cpp.
  \<^item> Dom: lib/node_impl.cpp; the nodes of a document extend \<open>links\<close> by tags, attributes and data;
    paths print and locate. Document: lib/nscontext.cpp, tree_builder.cpp and document.cpp; the tree
    builder as a state machine over the events of the parser, the invariant \<open>builder_ok\<close>, identifiers,
    attribute value templates and their dependences.
  \<^item> Region_Dim: common/region_dim.h, region_eval.h, smil_alignment.cpp; the solution of the
    constraints left + width + right. Region_Node: smil2/region_node.cpp; attributes, values set by
    animations, inheritance along the tree.
  \<^item> Fit, Surface: common/region.cpp; how images fit and tile; the heap of surfaces with the cache of
    their bounds, drawing and events. The recursions over children are loops over the calls to make.
  \<^item> Test_Attrs: smil2/test_attrs.cpp; the tests that select among the children of a switch.
  \<^item> Schema: common/schema.cpp; the names of the elements by their kind.
  \<^item> Timegraph: smil2/timegraph.cpp; the walk over the document with its stacks, the choice of a child
    of a switch, priorities, sync rules, timers and out transitions. Timegraph_Tree: the tree that is
    built is that of the selected time elements, given by recursion over the document.
    Timegraph_Arcs: every sync arc is registered at its target and its base, and each element has the
    begin arcs that its begin values call for.
  \<^item> Floats: floating point numbers as the code compares them, with infinities and "no number".

  \<^bold>\<open>State and effects.\<close> A member function is a function on the record of its object, or on the whole
  graph. What the program does to the outside is a log of commands in the graph, latest first; a
  failed \<open>assert\<close> is logged and the execution goes on, as in a build without assertions. What the
  outside answers is the record \<open>env\<close>, whose functions may depend on the log. \<open>None\<close> is a call that
  does not return, a null dereference or a read past the end of a container.

  \<^bold>\<open>Bounds.\<close> The operations of time nodes call each other without a structural bound. They get an
  interpreter \<open>run\<close> as an argument; \<open>exec_call env k\<close> closes the recursion for calls nested at most
  \<open>k\<close> deep, and \<open>depth_irrelevant\<close> shows that any two sufficient bounds give the same result. The
  depth of the collection of pending events is bounded by the same number. Loops that may run for
  ever are partial functions, and that they return, or do not, is proved where it matters.

  \<^bold>\<open>Not modelled.\<close> Rounding: floating point numbers are exact. Those that are read from attributes
  or come from a division (accelerations, levels, opacities, scales) may be infinite or no number; the
  speed after it is limited, repeat counts, language weights and the speed of clocks are rationals.
  \<open>atof\<close>, the conversion of numbers that fit no integer, the table of transitions and the answers of
  playables, preferences, the platform, the XML parser and the state engine are arguments. Locks and
  threads are left out: every operation is atomic. Debug output is left out. The layout manager
  (smil_layout.cpp), animation, transitions, smilText and the player that connects them are not
  modelled; media, networking, windows, plugins and language bindings are interfaces to libraries and
  the system.
\<close>

section \<open>From attributes to intervals\<close>



end
